(* ===== verification/Prelude.thy ===== *)
theory Prelude
  imports Main "HOL-Library.Word"
begin

text \<open>
  Shared vocabulary of the development: bytes, errors as values, the wrap-around
  arithmetic of the fixed-width unsigned integers of the source, and block copies into
  byte buffers.

  The scalar variables of the C++ code (\<open>uint16_t\<close>, \<open>uint32_t\<close>, \<open>uint64_t\<close> and
  \<open>size_t\<close>, which is taken to be 64 bits wide) are natural numbers; every addition,
  subtraction or multiplication of the source that can leave its range is written with the
  wrapping operation of its width (\<open>add64\<close>, \<open>sub64\<close>, \<open>mul64\<close>, \<open>add32\<close>, \<open>mul32\<close>). Single
  bytes and CRC registers are machine words.
\<close>

section \<open>Bytes and errors\<close>

named_theorems wrap_simps \<open>wrapping operations that do not wrap under a bound\<close>
named_theorems res_simps \<open>inversion of computations that may fail\<close>
named_theorems len_simps \<open>lengths of buffers\<close>

type_synonym byte = "8 word"

text \<open>
  Why a computation stops without returning: an exception of the source (a
  \<open>std::out_of_range\<close>, a \<open>std::length_error\<close>, the exception a simulated flash throws, the
  \<open>value()\<close> of an empty optional, a \<open>std::invalid_argument\<close>, a \<open>std::runtime_error\<close> or another
  exception made from a message), a call through a null \<open>fs\<close> pointer, undefined behaviour of
  C++ (a \<open>memcpy\<close> outside its buffer, a division by zero), a loop that has not ended within
  the rounds it was given, or \<open>std::terminate\<close>. Only the first kind can be caught.
\<close>

datatype error = Out_of_range | Length_error | Flash_fault | Bad_access | Invalid_argument | Runtime_error
  | Null_fs | Undefined | No_return | Terminated

type_synonym 'a res = "error + 'a"

definition bindE :: "'a res \<Rightarrow> ('a \<Rightarrow> 'b res) \<Rightarrow> 'b res" where
  "bindE m f = (case m of Inl e \<Rightarrow> Inl e | Inr x \<Rightarrow> f x)"

lemma bindE_Inr [simp]: "bindE (Inr x) f = f x"
  by (simp add: bindE_def)

lemma bindE_Inl [simp]: "bindE (Inl e) f = Inl e"
  by (simp add: bindE_def)

lemma bindE_eq_Inr [res_simps]:
  "bindE m f = Inr y \<longleftrightarrow> (\<exists>x. m = Inr x \<and> f x = Inr y)"
  by (cases m) auto

lemma bindE_assoc: "bindE (bindE m f) g = bindE m (\<lambda>x. bindE (f x) g)"
  by (cases m) auto

lemma bindE_cong [fundef_cong]:
  "m = m' \<Longrightarrow> (\<And>x. m' = Inr x \<Longrightarrow> f x = f' x) \<Longrightarrow> bindE m f = bindE m' f'"
  by (cases m') auto

definition is_exception :: "error \<Rightarrow> bool" where
  "is_exception e = (e \<notin> {Null_fs, Undefined, No_return, Terminated})"

text \<open>
  A destructor is \<open>noexcept\<close>: an exception that would leave it ends the program by
  \<open>std::terminate\<close>.
\<close>

definition noexceptE :: "'a res \<Rightarrow> 'a res" where
  "noexceptE m = (case m of Inl e \<Rightarrow> Inl (if is_exception e then Terminated else e) | Inr x \<Rightarrow> Inr x)"

lemma noexceptE_Inr [simp]: "noexceptE (Inr x) = Inr x"
  by (simp add: noexceptE_def)

lemma noexceptE_eq_Inr [simp, res_simps]: "noexceptE m = Inr x \<longleftrightarrow> m = Inr x"
  by (simp add: noexceptE_def split: sum.split)

lemma bindE_if: "bindE (if b then m else n) f = (if b then bindE m f else bindE n f)"
  by simp

text \<open>A precondition of C++: when it fails, the behaviour is undefined.\<close>

definition requireE :: "error \<Rightarrow> bool \<Rightarrow> unit res" where
  "requireE e b = (if b then Inr () else Inl e)"

lemma requireE_True [simp]: "requireE e True = Inr ()"
  by (simp add: requireE_def)

lemma requireE_False [simp]: "requireE e False = Inl e"
  by (simp add: requireE_def)

lemma requireE_eq_Inr [res_simps]: "requireE e b = Inr u \<longleftrightarrow> b"
  by (simp add: requireE_def)

section \<open>Unsigned arithmetic\<close>

definition add64 :: "nat \<Rightarrow> nat \<Rightarrow> nat" where
  "add64 a b = (a + b) mod 2 ^ 64"

definition sub64 :: "nat \<Rightarrow> nat \<Rightarrow> nat" where
  "sub64 a b = (a + 2 ^ 64 - b) mod 2 ^ 64"

definition mul64 :: "nat \<Rightarrow> nat \<Rightarrow> nat" where
  "mul64 a b = (a * b) mod 2 ^ 64"

definition add32 :: "nat \<Rightarrow> nat \<Rightarrow> nat" where
  "add32 a b = (a + b) mod 2 ^ 32"

definition sub32 :: "nat \<Rightarrow> nat \<Rightarrow> nat" where
  "sub32 a b = (a + 2 ^ 32 - b) mod 2 ^ 32"

definition mul32 :: "nat \<Rightarrow> nat \<Rightarrow> nat" where
  "mul32 a b = (a * b) mod 2 ^ 32"

lemma add64_small [wrap_simps]: "a + b < 2 ^ 64 \<Longrightarrow> add64 a b = a + b"
  by (simp add: add64_def)

lemma sub64_small [wrap_simps]: "b \<le> a \<Longrightarrow> a < 2 ^ 64 \<Longrightarrow> sub64 a b = a - b"
  unfolding sub64_def by (metis Nat.add_diff_assoc2 le_mod_geq mod_add_self2 mod_less less_imp_diff_less)

lemma sub64_wraps: "a < b \<Longrightarrow> b < 2 ^ 64 \<Longrightarrow> sub64 a b = a + 2 ^ 64 - b"
  by (simp add: sub64_def)

lemma mul64_small [wrap_simps]: "a * b < 2 ^ 64 \<Longrightarrow> mul64 a b = a * b"
  by (simp add: mul64_def)

lemma add32_small [wrap_simps]: "a + b < 2 ^ 32 \<Longrightarrow> add32 a b = a + b"
  by (simp add: add32_def)

lemma sub32_small [wrap_simps]: "b \<le> a \<Longrightarrow> a < 2 ^ 32 \<Longrightarrow> sub32 a b = a - b"
  unfolding sub32_def by (metis Nat.add_diff_assoc2 le_mod_geq mod_add_self2 mod_less less_imp_diff_less)

lemma mul32_small [wrap_simps]: "a * b < 2 ^ 32 \<Longrightarrow> mul32 a b = a * b"
  by (simp add: mul32_def)

section \<open>Buffers\<close>

text \<open>
  \<open>overlay buf a d\<close> is the buffer \<open>buf\<close> after the bytes \<open>d\<close> have been copied to position
  \<open>a\<close>; \<open>slice a n buf\<close> are the \<open>n\<close> bytes from position \<open>a\<close>. \<open>memcpy_to\<close> and \<open>memcpy_from\<close>
  are the two directions of \<open>memcpy\<close> with a buffer: outside the buffer they are undefined.
\<close>

definition overlay :: "'a list \<Rightarrow> nat \<Rightarrow> 'a list \<Rightarrow> 'a list" where
  "overlay buf a d = take a buf @ d @ drop (a + length d) buf"

definition slice :: "nat \<Rightarrow> nat \<Rightarrow> 'a list \<Rightarrow> 'a list" where
  "slice a n buf = take n (drop a buf)"

definition memcpy_to :: "'a list \<Rightarrow> nat \<Rightarrow> 'a list \<Rightarrow> 'a list res" where
  "memcpy_to buf a d =
     (if a + length d \<le> length buf then Inr (overlay buf a d) else Inl Undefined)"

definition memcpy_from :: "'a list \<Rightarrow> nat \<Rightarrow> nat \<Rightarrow> 'a list res" where
  "memcpy_from buf a n = (if a + n \<le> length buf then Inr (slice a n buf) else Inl Undefined)"

lemma length_overlay [simp, len_simps]:
  "a + length d \<le> length buf \<Longrightarrow> length (overlay buf a d) = length buf"
  by (simp add: overlay_def)

lemma length_slice [simp, len_simps]: "a + n \<le> length buf \<Longrightarrow> length (slice a n buf) = n"
  by (simp add: slice_def)

lemma overlay_Nil [simp]: "overlay buf a [] = buf"
  by (simp add: overlay_def)

lemma slice_0 [simp]: "slice a 0 buf = []"
  by (simp add: slice_def)

lemma nth_overlay:
  assumes "a + length d \<le> length buf" "i < length buf"
  shows "overlay buf a d ! i = (if a \<le> i \<and> i < a + length d then d ! (i - a) else buf ! i)"
  using assms by (auto simp: overlay_def nth_append)

lemma nth_slice: "i < n \<Longrightarrow> a + n \<le> length buf \<Longrightarrow> slice a n buf ! i = buf ! (a + i)"
  by (simp add: slice_def)

lemma slice_overlay_same [simp]:
  "a + length d \<le> length buf \<Longrightarrow> n = length d \<Longrightarrow> slice a n (overlay buf a d) = d"
  by (simp add: slice_def overlay_def)

lemma slice_overlay_disjoint:
  assumes "a + length d \<le> length buf" "b + n \<le> length buf"
    and "b + n \<le> a \<or> a + length d \<le> b"
  shows "slice b n (overlay buf a d) = slice b n buf"
  using assms by (intro nth_equalityI) (auto simp: nth_slice nth_overlay)

lemma slice_all [simp]: "slice 0 (length buf) buf = buf"
  by (simp add: slice_def)

lemma overlay_all: "length d = length buf \<Longrightarrow> overlay buf 0 d = d"
  by (simp add: overlay_def)

lemma memcpy_to_Inr [res_simps]:
  "memcpy_to buf a d = Inr b \<longleftrightarrow> a + length d \<le> length buf \<and> b = overlay buf a d"
  by (auto simp: memcpy_to_def)

lemma memcpy_from_Inr [res_simps]:
  "memcpy_from buf a n = Inr b \<longleftrightarrow> a + n \<le> length buf \<and> b = slice a n buf"
  by (auto simp: memcpy_from_def)

lemma memcpy_to_ok: "a + length d \<le> length buf \<Longrightarrow> memcpy_to buf a d = Inr (overlay buf a d)"
  by (simp add: memcpy_to_def)

lemma memcpy_from_ok: "a + n \<le> length buf \<Longrightarrow> memcpy_from buf a n = Inr (slice a n buf)"
  by (simp add: memcpy_from_def)

text \<open>Growing or shrinking a byte vector: new bytes are zero.\<close>

definition vec_resize :: "byte list \<Rightarrow> nat \<Rightarrow> byte list res" where
  "vec_resize v n =
     (if n < 2 ^ 63 then Inr (take n v @ replicate (n - length v) 0) else Inl Length_error)"

lemma vec_resize_Inr [res_simps]:
  "vec_resize v n = Inr w \<longleftrightarrow> n < 2 ^ 63 \<and> w = take n v @ replicate (n - length v) 0"
  by (auto simp: vec_resize_def)

lemma length_resized [simp]: "length (take n v @ replicate (n - length v) z) = n"
  by simp

end
