(* ===== verification/Crc.thy ===== *)
theory Crc
  imports Prelude
begin

text \<open>
  The checksum of every page: \<open>src/crc/crc.c\<close> with the parameters that \<open>src/crc/crc.h\<close>
  selects (the CRC32 block). \<open>reflect\<close>, \<open>crcSlow\<close>, \<open>crcInit\<close> and \<open>crcFast\<close> are translated as
  they are; the global table with its \<open>inited\<close> flag is a record. Shown: the table-driven
  routine computes the bitwise one, and that an error burst of up to 32 bits, wherever it
  begins, never goes unnoticed.
\<close>

unbundle bit_operations_syntax

section \<open>The code\<close>

type_synonym crc = "32 word"

definition POLYNOMIAL :: crc where "POLYNOMIAL = 0x04C11DB7"
definition INITIAL_REMAINDER :: crc where "INITIAL_REMAINDER = 0xFFFFFFFF"
definition FINAL_XOR_VALUE :: crc where "FINAL_XOR_VALUE = 0xFFFFFFFF"

definition TOPBIT :: crc where "TOPBIT = push_bit 31 1"

text \<open>
  The loop of \<open>reflect\<close> over the bits. The constant \<open>1\<close> that is shifted is a 32-bit
  \<open>int\<close>: the value is sign-extended when it is or-ed into the 64-bit accumulator.
\<close>

definition reflect_step :: "nat \<Rightarrow> nat \<Rightarrow> 64 word \<times> 64 word \<Rightarrow> 64 word \<times> 64 word" where
  "reflect_step nBits i = (\<lambda>(d, reflection).
     (drop_bit 1 d,
      if d AND 1 \<noteq> 0
      then reflection OR scast (push_bit (nBits - 1 - i) 1 :: 32 word)
      else reflection))"

definition reflect :: "64 word \<Rightarrow> nat \<Rightarrow> 64 word" where
  "reflect d nBits = snd (fold (reflect_step nBits) [0..<nBits] (d, 0))"

definition REFLECT_DATA :: "byte \<Rightarrow> byte" where
  "REFLECT_DATA x = ucast (reflect (ucast x) 8)"

definition REFLECT_REMAINDER :: "crc \<Rightarrow> crc" where
  "REFLECT_REMAINDER x = ucast (reflect (ucast x) 32)"

text \<open>One iteration of the modulo-2 division loop, and the eight of them per byte.\<close>

definition crc_bit :: "crc \<Rightarrow> crc" where
  "crc_bit remainder =
     (if remainder AND TOPBIT \<noteq> 0 then push_bit 1 remainder XOR POLYNOMIAL
      else push_bit 1 remainder)"

definition crcSlow_byte :: "crc \<Rightarrow> byte \<Rightarrow> crc" where
  "crcSlow_byte remainder b =
     (crc_bit ^^ 8) (remainder XOR push_bit 24 (ucast (REFLECT_DATA b)))"

definition crcSlow :: "byte list \<Rightarrow> crc" where
  "crcSlow message =
     REFLECT_REMAINDER (foldl crcSlow_byte INITIAL_REMAINDER message) XOR FINAL_XOR_VALUE"

record crc_state =
  crcTable :: "crc list"
  inited :: bool

definition crc_state0 :: crc_state where
  "crc_state0 = \<lparr>crcTable = replicate 256 0, inited = False\<rparr>"

definition crcInit :: "crc_state \<Rightarrow> crc_state" where
  "crcInit s =
     (if inited s then s
      else s\<lparr>crcTable := map (\<lambda>dividend. (crc_bit ^^ 8) (push_bit 24 (of_nat dividend))) [0..<256],
             inited := True\<rparr>)"

definition crcFast_byte :: "crc list \<Rightarrow> crc \<Rightarrow> byte \<Rightarrow> crc" where
  "crcFast_byte table remainder b =
     (let d = REFLECT_DATA b XOR ucast (drop_bit 24 remainder)
      in table ! unat d XOR push_bit 8 remainder)"

definition crcFast :: "crc list \<Rightarrow> byte list \<Rightarrow> crc" where
  "crcFast table message =
     REFLECT_REMAINDER (foldl (crcFast_byte table) INITIAL_REMAINDER message)
       XOR FINAL_XOR_VALUE"

section \<open>The division step is linear and injective\<close>

lemma bit_TOPBIT: "bit TOPBIT n \<longleftrightarrow> n = 31"
  unfolding TOPBIT_def by (simp only: bit_push_bit_iff bit_1_iff) auto

lemma topbit_iff: "x AND TOPBIT \<noteq> 0 \<longleftrightarrow> bit x 31"
proof -
  have "x AND TOPBIT = (if bit x 31 then TOPBIT else 0)"
    by (rule bit_eqI) (auto simp: bit_TOPBIT bit_and_iff)
  moreover have "TOPBIT \<noteq> 0" by (simp add: TOPBIT_def)
  ultimately show ?thesis by simp
qed

lemma crc_bit_alt: "crc_bit x = push_bit 1 x XOR (if bit x 31 then POLYNOMIAL else 0)"
  by (simp only: crc_bit_def topbit_iff) simp

lemma crc_bit_xor: "crc_bit (x XOR y) = crc_bit x XOR crc_bit y"
  by (rule bit_eqI) (auto simp: crc_bit_alt bit_simps)

lemma crc_bits_xor: "(crc_bit ^^ n) (x XOR y) = (crc_bit ^^ n) x XOR (crc_bit ^^ n) y"
  by (induction n) (simp_all add: crc_bit_xor)

lemma crc_bit_0 [simp]: "crc_bit 0 = 0"
  by (simp add: crc_bit_alt)

lemma bit_POLYNOMIAL_0: "bit POLYNOMIAL 0"
  by (simp add: POLYNOMIAL_def)

lemma crc_bit_eq_0: "crc_bit x = 0 \<Longrightarrow> x = 0"
proof -
  assume z: "crc_bit x = 0"
  have "\<not> bit x 31"
  proof
    assume "bit x 31"
    then have "bit (crc_bit x) 0"
      using bit_POLYNOMIAL_0 by (simp add: crc_bit_alt bit_xor_iff bit_push_bit_iff del: push_bit_Suc One_nat_def)
    with z show False by simp
  qed
  with z have p: "push_bit 1 x = 0" by (simp add: crc_bit_alt)
  show "x = 0"
  proof (rule bit_word_eqI)
    fix n assume n: "n < LENGTH(32)"
    show "bit x n \<longleftrightarrow> bit (0 :: 32 word) n"
    proof (cases "n = 31")
      case True with \<open>\<not> bit x 31\<close> show ?thesis by simp
    next
      case False
      with n have "bit (push_bit 1 x) (Suc n) = bit x n"
        by (simp only: bit_push_bit_iff) auto
      with p show ?thesis by simp
    qed
  qed
qed

lemma crc_bit_inj: "crc_bit x = crc_bit y \<Longrightarrow> x = y"
proof -
  assume "crc_bit x = crc_bit y"
  then have "crc_bit (x XOR y) = 0" by (simp add: crc_bit_xor)
  then have "x XOR y = 0" by (rule crc_bit_eq_0)
  then show "x = y" by (metis xor.assoc xor.left_neutral xor_self_eq)
qed

lemma crc_bits_inj: "(crc_bit ^^ n) x = (crc_bit ^^ n) y \<Longrightarrow> x = y"
  by (induction n) (auto dest: crc_bit_inj)

text \<open>As long as no one reaches the top, the division only shifts.\<close>

lemma crc_bits_shift:
  assumes "k \<le> 32" "\<And>n. 32 - k \<le> n \<Longrightarrow> \<not> bit x n"
  shows "(crc_bit ^^ k) x = push_bit k x"
  using assms
proof (induction k)
  case 0
  then show ?case by simp
next
  case (Suc k)
  then have IH: "(crc_bit ^^ k) x = push_bit k x" by simp
  have "\<not> bit (push_bit k x) 31"
    using Suc.prems by (auto simp: bit_simps)
  then have "crc_bit (push_bit k x) = push_bit 1 (push_bit k x)"
    by (simp add: crc_bit_alt)
  then show ?case by (simp add: IH)
qed

section \<open>Bit reflection\<close>

lemma bit_reflect_one: "j < 32 \<Longrightarrow> m < 32 \<Longrightarrow>
    bit (scast (push_bit m 1 :: 32 word) :: 64 word) j \<longleftrightarrow> j = m"
  by (simp only: bit_word_scast_iff bit_push_bit_iff bit_1_iff) auto

lemma odd_and_1: "(x :: 64 word) AND 1 \<noteq> 0 \<longleftrightarrow> bit x 0"
  by (simp add: and_one_eq bit_0 odd_iff_mod_2_eq_one)

lemma fold_reflect:
  assumes "n \<le> 32" "k \<le> n"
  shows "fst (fold (reflect_step n) [0..<k] (x, 0)) = drop_bit k x
    \<and> (\<forall>j < 32. bit (snd (fold (reflect_step n) [0..<k] (x, 0))) j
         \<longleftrightarrow> j < n \<and> n - 1 - j < k \<and> bit x (n - 1 - j))"
  using assms(2)
proof (induction k)
  case 0
  then show ?case by simp
next
  case (Suc k)
  obtain a r where st: "fold (reflect_step n) [0..<k] (x, 0) = (a, r)"
    by fastforce
  have a: "a = drop_bit k x"
    and r: "\<And>j. j < 32 \<Longrightarrow> bit r j \<longleftrightarrow> j < n \<and> n - 1 - j < k \<and> bit x (n - 1 - j)"
    using Suc.IH Suc.prems st by auto
  have m: "n - 1 - k < 32" using assms(1) Suc.prems by linarith
  have b0: "a AND 1 \<noteq> 0 \<longleftrightarrow> bit x k"
    by (simp only: odd_and_1 a bit_drop_bit_eq o_def) simp
  have "bit (if a AND 1 \<noteq> 0 then r OR scast (push_bit (n - 1 - k) 1 :: 32 word) else r) j
      \<longleftrightarrow> j < n \<and> n - 1 - j < Suc k \<and> bit x (n - 1 - j)" if j: "j < 32" for j
  proof -
    have "bit (if a AND 1 \<noteq> 0 then r OR scast (push_bit (n - 1 - k) 1 :: 32 word) else r) j
      \<longleftrightarrow> bit r j \<or> bit x k \<and> j = n - 1 - k"
      by (cases "bit x k") (simp_all only: b0 bit_or_iff bit_reflect_one [OF j m] if_True if_False simp_thms)
    also have "\<dots> \<longleftrightarrow> j < n \<and> n - 1 - j < Suc k \<and> bit x (n - 1 - j)"
    proof (cases "j = n - 1 - k")
      case True
      with Suc.prems have "n - 1 - j = k" "j < n" by auto
      with True r [OF j] show ?thesis by simp
    next
      case False
      then have "j < n \<and> n - 1 - j < Suc k \<longleftrightarrow> j < n \<and> n - 1 - j < k"
        using Suc.prems by auto
      with False r [OF j] show ?thesis by auto
    qed
    finally show ?thesis .
  qed
  moreover have "fold (reflect_step n) [0..<Suc k] (x, 0) =
      (drop_bit (Suc k) x,
       if a AND 1 \<noteq> 0 then r OR scast (push_bit (n - 1 - k) 1 :: 32 word) else r)"
    by (simp add: st) (simp add: reflect_step_def a)
  ultimately show ?case by simp
qed

lemma bit_reflect:
  "n \<le> 32 \<Longrightarrow> j < 32 \<Longrightarrow> bit (reflect x n) j \<longleftrightarrow> j < n \<and> bit x (n - 1 - j)"
  using fold_reflect [of n n x] by (auto simp: reflect_def)

lemma bit_REFLECT_DATA: "j < 8 \<Longrightarrow> bit (REFLECT_DATA b) j \<longleftrightarrow> bit b (7 - j)"
  unfolding REFLECT_DATA_def
  by (simp only: bit_ucast_iff) (auto simp: bit_reflect bit_ucast_iff)

lemma bit_REFLECT_REMAINDER: "j < 32 \<Longrightarrow> bit (REFLECT_REMAINDER x) j \<longleftrightarrow> bit x (31 - j)"
  unfolding REFLECT_REMAINDER_def
  by (simp only: bit_ucast_iff) (auto simp: bit_reflect bit_ucast_iff)

lemma REFLECT_DATA_invol [simp]: "REFLECT_DATA (REFLECT_DATA b) = b"
  by (rule bit_eqI) (simp add: bit_REFLECT_DATA)

lemma REFLECT_REMAINDER_invol [simp]: "REFLECT_REMAINDER (REFLECT_REMAINDER x) = x"
  by (rule bit_eqI) (simp add: bit_REFLECT_REMAINDER)

section \<open>The table-driven routine computes the bitwise one\<close>

lemma top_byte_split:
  "x = push_bit 24 (ucast (ucast (drop_bit 24 x) :: byte)) XOR (x AND mask 24)" for x :: crc
proof (rule bit_word_eqI)
  fix n assume n: "n < LENGTH(32)"
  have "bit (push_bit 24 (ucast (ucast (drop_bit 24 x) :: byte)) :: crc) n \<longleftrightarrow> 24 \<le> n \<and> bit x n"
    using n by (simp only: bit_push_bit_iff bit_ucast_iff bit_drop_bit_eq o_def) auto
  moreover have "bit (x AND mask 24) n \<longleftrightarrow> n < 24 \<and> bit x n"
    by (simp only: bit_and_iff bit_mask_iff) auto
  ultimately show "bit x n \<longleftrightarrow>
      bit (push_bit 24 (ucast (ucast (drop_bit 24 x) :: byte)) XOR (x AND mask 24)) n"
    by (simp only: bit_xor_iff) auto
qed

lemma crc_bits_low: "(crc_bit ^^ 8) (x AND mask 24) = push_bit 8 x"
proof -
  have "(crc_bit ^^ 8) (x AND mask 24) = push_bit 8 (x AND mask 24)"
    by (rule crc_bits_shift) (auto simp: bit_and_iff bit_mask_iff)
  also have "\<dots> = push_bit 8 x"
    by (rule bit_eqI) (auto simp: bit_push_bit_iff bit_and_iff bit_mask_iff)
  finally show ?thesis .
qed

lemma crcTable_nth:
  "\<not> inited s \<Longrightarrow> crcTable (crcInit s) ! unat (d :: byte) = (crc_bit ^^ 8) (push_bit 24 (ucast d))"
proof -
  assume "\<not> inited s"
  moreover have "unat d < 2 ^ LENGTH(8)" by (rule unsigned_less)
  ultimately show ?thesis by (simp add: crcInit_def)
qed

lemma push_xor: "push_bit n (ucast (a XOR b :: byte)) = push_bit n (ucast a) XOR (push_bit n (ucast b) :: crc)"
  by (rule bit_eqI) (auto simp: bit_push_bit_iff bit_ucast_iff bit_xor_iff)

lemma crcFast_byte_eq:
  assumes "\<not> inited s"
  shows "crcFast_byte (crcTable (crcInit s)) r b = crcSlow_byte r b"
proof -
  let ?h = "ucast (drop_bit 24 r) :: byte"
  have "crcSlow_byte r b
      = (crc_bit ^^ 8) (push_bit 24 (ucast (REFLECT_DATA b XOR ?h)) XOR (r AND mask 24))"
    unfolding crcSlow_byte_def push_xor
    by (subst top_byte_split [of r]) (simp only: xor.assoc xor.commute xor.left_commute)
  also have "\<dots> = (crc_bit ^^ 8) (push_bit 24 (ucast (REFLECT_DATA b XOR ?h))) XOR push_bit 8 r"
    by (simp only: crc_bits_xor crc_bits_low)
  finally show ?thesis
    by (simp only: crcFast_byte_def Let_def crcTable_nth [OF assms])
qed

lemma foldl_crcFast_byte:
  "\<not> inited s \<Longrightarrow> foldl (crcFast_byte (crcTable (crcInit s))) r m = foldl crcSlow_byte r m"
  by (induction m arbitrary: r) (simp_all add: crcFast_byte_eq)

text \<open>
  C33. Once \<open>crcInit\<close> has filled the table, the table-driven \<open>crcFast\<close> and the bit-at-a-time
  \<open>crcSlow\<close> return the same checksum for every message; calling \<open>crcInit\<close> again does not
  change the table.
\<close>

theorem crcFast_eq_crcSlow:
  "crcFast (crcTable (crcInit crc_state0)) m = crcSlow m
   \<and> crcInit (crcInit crc_state0) = crcInit crc_state0"
proof
  have "\<not> inited crc_state0" by (simp add: crc_state0_def)
  then show "crcFast (crcTable (crcInit crc_state0)) m = crcSlow m"
    by (simp add: crcFast_def crcSlow_def foldl_crcFast_byte)
  show "crcInit (crcInit crc_state0) = crcInit crc_state0"
    by (simp add: crcInit_def crc_state0_def)
qed

section \<open>Detected corruptions\<close>

lemma xor_cancel_right: "a XOR c = b XOR c \<Longrightarrow> a = b" for a :: "'a::len word"
  by (metis xor.assoc xor_self_eq xor.right_neutral)

text \<open>
  The same division with the bits of the message fed in one by one, each byte from its lowest
  bit on: the order in which they are sent.
\<close>

definition crc_serial :: "crc \<Rightarrow> bool \<Rightarrow> crc" where
  "crc_serial r b = crc_bit (r XOR (if b then TOPBIT else 0))"

definition byte_bits :: "byte \<Rightarrow> bool list" where
  "byte_bits b = map (bit b) [0..<8]"

definition message_bits :: "byte list \<Rightarrow> bool list" where
  "message_bits m = concat (map byte_bits m)"

lemma length_byte_bits [simp]: "length (byte_bits b) = 8"
  by (simp add: byte_bits_def)

lemma message_bits_simps [simp]:
  "message_bits [] = []" "message_bits (b # m) = byte_bits b @ message_bits m"
  by (simp_all add: message_bits_def)

lemma length_message_bits [simp]: "length (message_bits m) = 8 * length m"
  by (induction m) simp_all

lemma message_bits_nth:
  "j < length m \<Longrightarrow> i < 8 \<Longrightarrow> message_bits m ! (8 * j + i) = bit (m ! j) i"
proof (induction m arbitrary: j)
  case (Cons b m)
  then show ?case by (cases j) (simp_all add: nth_append byte_bits_def)
qed simp

lemma message_bits_at: "n < 8 * length m \<Longrightarrow> message_bits m ! n = bit (m ! (n div 8)) (n mod 8)"
  using message_bits_nth [of "n div 8" m "n mod 8"] by simp

text \<open>A run of up to 32 bits enters the register as one word, its first bit on top.\<close>

fun burst_word :: "nat \<Rightarrow> bool list \<Rightarrow> crc" where
  "burst_word k [] = 0"
| "burst_word k (b # bs) = (if b then push_bit (31 - k) 1 else 0) XOR burst_word (Suc k) bs"

lemma bit_burst_word:
  "k + length bs \<le> 32 \<Longrightarrow>
   bit (burst_word k bs) n \<longleftrightarrow> n < 32 - k \<and> 31 - n - k < length bs \<and> bs ! (31 - n - k)"
proof (induction k bs rule: burst_word.induct)
  case (2 k b bs)
  have k: "k < 32" and le: "Suc k + length bs \<le> 32" using "2.prems" by auto
  have hd: "bit ((if b then push_bit (31 - k) 1 else 0) :: crc) n \<longleftrightarrow> b \<and> n = 31 - k"
    using k by (cases b) (simp_all only: if_True if_False bit_push_bit_iff bit_1_iff, auto)
  have IH: "bit (burst_word (Suc k) bs) n \<longleftrightarrow> n < 31 - k \<and> 30 - n - k < length bs \<and> bs ! (30 - n - k)"
    using "2.IH" [OF le] by simp
  consider "n = 31 - k" | "n < 31 - k" | "31 - k < n" by linarith
  then show ?case
  proof cases
    case 2
    then have "31 - n - k = Suc (30 - n - k)" "n < 32 - k" by linarith+
    with 2 hd IH show ?thesis by (simp add: bit_xor_iff)
  qed (use hd IH k in \<open>auto simp: bit_xor_iff\<close>)
qed simp

lemma burst_word_snoc:
  "burst_word k (bs @ [b]) = burst_word k bs XOR (if b then push_bit (31 - (k + length bs)) 1 else 0)"
  by (induction bs arbitrary: k) (simp_all add: xor.assoc)

lemma crc_bits_0 [simp]: "(crc_bit ^^ k) 0 = 0"
  by (induction k) simp_all

lemma crc_bits_to_top: "k \<le> 31 \<Longrightarrow> (crc_bit ^^ k) (push_bit (31 - k) 1) = TOPBIT"
proof -
  assume k: "k \<le> 31"
  have "(crc_bit ^^ k) (push_bit (31 - k) 1) = push_bit k (push_bit (31 - k) 1 :: crc)"
    using k by (intro crc_bits_shift) (simp, simp only: bit_push_bit_iff bit_1_iff, auto)
  also have "\<dots> = TOPBIT" using k by (simp only: push_bit_push_bit TOPBIT_def le_add_diff_inverse)
  finally show ?thesis .
qed

lemma foldl_crc_serial:
  "length bs \<le> 32 \<Longrightarrow> foldl crc_serial r bs = (crc_bit ^^ length bs) (r XOR burst_word 0 bs)"
proof (induction bs rule: rev_induct)
  case (snoc b bs)
  let ?k = "length bs" and ?p = "(if b then push_bit (31 - length bs) 1 else 0) :: crc"
  have top: "(crc_bit ^^ ?k) ?p = (if b then TOPBIT else 0)"
    using snoc.prems crc_bits_to_top [of ?k] by (cases b) simp_all
  have "foldl crc_serial r (bs @ [b]) = crc_bit ((crc_bit ^^ ?k) (r XOR burst_word 0 bs) XOR (crc_bit ^^ ?k) ?p)"
    unfolding top using snoc by simp (simp add: crc_serial_def)
  also have "\<dots> = (crc_bit ^^ Suc ?k) (r XOR burst_word 0 (bs @ [b]))"
    by (simp only: crc_bits_xor [symmetric] burst_word_snoc xor.assoc add_0 funpow.simps o_def)
  finally show ?case by simp
qed simp

lemma crc_serial_byte: "foldl crc_serial r (byte_bits b) = crcSlow_byte r b"
proof -
  have "burst_word 0 (byte_bits b) = push_bit 24 (ucast (REFLECT_DATA b))"
  proof (rule bit_word_eqI)
    fix n assume n: "n < LENGTH(32)"
    have l: "bit (burst_word 0 (byte_bits b)) n \<longleftrightarrow> 24 \<le> n \<and> bit b (31 - n)"
      using n by (auto simp: bit_burst_word byte_bits_def)
    have "bit (push_bit 24 (ucast (REFLECT_DATA b)) :: crc) n \<longleftrightarrow> 24 \<le> n \<and> bit (REFLECT_DATA b) (n - 24)"
      using n by (simp only: bit_push_bit_iff bit_ucast_iff) auto
    also have "\<dots> \<longleftrightarrow> 24 \<le> n \<and> bit b (31 - n)"
      using n bit_REFLECT_DATA [of "n - 24" b] by auto
    finally show "bit (burst_word 0 (byte_bits b)) n = bit (push_bit 24 (ucast (REFLECT_DATA b)) :: crc) n"
      using l by simp
  qed
  then show ?thesis by (simp add: foldl_crc_serial crcSlow_byte_def)
qed

lemma foldl_crcSlow_serial: "foldl crcSlow_byte r m = foldl crc_serial r (message_bits m)"
  by (induction m arbitrary: r) (simp_all add: crc_serial_byte)

lemma foldl_crc_serial_inj_rem: "foldl crc_serial r bs = foldl crc_serial r' bs \<Longrightarrow> r = r'"
proof (induction bs arbitrary: r r')
  case (Cons b bs)
  then have "crc_serial r b = crc_serial r' b" by auto
  then show ?case unfolding crc_serial_def using crc_bit_inj xor_cancel_right by blast
qed simp

lemma burst_word_inj:
  assumes "length bs = length bs'" "length bs \<le> 32" "burst_word 0 bs = burst_word 0 bs'"
  shows "bs = bs'"
proof (rule nth_equalityI)
  fix i assume i: "i < length bs"
  have "bit (burst_word 0 xs) (31 - i) = xs ! i" if "length xs = length bs" for xs
  proof -
    have "31 - (31 - i) = i" "31 - i < 32" using i assms(2) by linarith+
    then show ?thesis using bit_burst_word [of 0 xs "31 - i"] that i assms(2) by simp
  qed
  from this [of bs] this [of bs'] show "bs ! i = bs' ! i" using assms(1,3) by simp
qed (rule assms(1))

lemma foldl_crc_serial_inj:
  assumes "length bs = length bs'" "length bs \<le> 32" "foldl crc_serial r bs = foldl crc_serial r bs'"
  shows "bs = bs'"
proof (rule burst_word_inj [OF assms(1,2)])
  have "(crc_bit ^^ length bs) (r XOR burst_word 0 bs) = (crc_bit ^^ length bs) (r XOR burst_word 0 bs')"
    using assms(3) foldl_crc_serial [of bs' r] assms(1,2) by (simp only: foldl_crc_serial)
  then have "r XOR burst_word 0 bs = r XOR burst_word 0 bs'" by (rule crc_bits_inj)
  then show "burst_word 0 bs = burst_word 0 bs'" by (metis xor.commute xor_cancel_right)
qed

text \<open>Two streams of bits that differ only inside a window of 32.\<close>

lemma split_window: "xs = take s xs @ take 32 (drop s xs) @ drop (s + 32) xs"
  using append_take_drop_id [of s xs] append_take_drop_id [of 32 "drop s xs"]
  by (simp add: add.commute)

lemma crc_serial_burst:
  assumes "length xs = length ys" "xs \<noteq> ys"
    and "\<And>n. n < length xs \<Longrightarrow> xs ! n \<noteq> ys ! n \<Longrightarrow> s \<le> n \<and> n < s + 32"
  shows "foldl crc_serial r xs \<noteq> foldl crc_serial r ys"
proof
  let ?w = "\<lambda>xs. take 32 (drop s xs)"
  have pre: "take s xs = take s ys"
  proof (rule nth_equalityI)
    fix i assume "i < length (take s xs)"
    then show "take s xs ! i = take s ys ! i" using assms(3) [of i] by auto
  qed (simp add: assms(1))
  have post: "drop (s + 32) xs = drop (s + 32) ys"
  proof (rule nth_equalityI)
    fix i assume "i < length (drop (s + 32) xs)"
    then show "drop (s + 32) xs ! i = drop (s + 32) ys ! i"
      using assms(1) assms(3) [of "s + 32 + i"]
      by (cases "xs ! (s + 32 + i) = ys ! (s + 32 + i)") (auto simp: less_diff_conv add.commute)
  qed (simp add: assms(1))
  assume "foldl crc_serial r xs = foldl crc_serial r ys"
  then have "foldl crc_serial r (take s ys @ ?w xs @ drop (s + 32) ys)
      = foldl crc_serial r (take s ys @ ?w ys @ drop (s + 32) ys)"
    using split_window [of xs s] split_window [of ys s] pre post by simp
  then have "foldl crc_serial (foldl crc_serial r (take s ys)) (?w xs)
      = foldl crc_serial (foldl crc_serial r (take s ys)) (?w ys)"
    unfolding foldl_append by (rule foldl_crc_serial_inj_rem)
  then have "?w xs = ?w ys" using assms(1) by (intro foldl_crc_serial_inj) simp_all
  with pre post split_window [of xs s] split_window [of ys s] have "xs = ys" by simp
  with assms(2) show False by contradiction
qed

lemma crcSlow_eq_register:
  "crcSlow m = crcSlow m' \<longleftrightarrow> foldl crcSlow_byte INITIAL_REMAINDER m = foldl crcSlow_byte INITIAL_REMAINDER m'"
  unfolding crcSlow_def by (metis REFLECT_REMAINDER_invol xor_cancel_right)

lemma crcSlow_burst:
  assumes len: "length m = length m'" and ne: "m \<noteq> m'"
    and win: "\<And>j i. j < length m \<Longrightarrow> i < 8 \<Longrightarrow> bit (m ! j) i \<noteq> bit (m' ! j) i \<Longrightarrow>
      s \<le> 8 * j + i \<and> 8 * j + i < s + 32"
  shows "crcSlow m \<noteq> crcSlow m'"
proof -
  from ne len obtain j where j: "j < length m" "m ! j \<noteq> m' ! j" by (metis nth_equalityI)
  from j(2) obtain i where i: "i < 8" "bit (m ! j) i \<noteq> bit (m' ! j) i"
    using bit_word_eqI [of "m ! j" "m' ! j"] by auto
  have "message_bits m \<noteq> message_bits m'"
    using message_bits_nth [OF j(1) i(1)] message_bits_nth [of j m' i] j i len by auto
  moreover have "s \<le> n \<and> n < s + 32"
    if "n < length (message_bits m)" "message_bits m ! n \<noteq> message_bits m' ! n" for n
    using win [of "n div 8" "n mod 8"] that len by (simp add: message_bits_at)
  ultimately have "foldl crc_serial INITIAL_REMAINDER (message_bits m)
      \<noteq> foldl crc_serial INITIAL_REMAINDER (message_bits m')"
    using len by (intro crc_serial_burst) simp_all
  then show ?thesis by (simp add: crcSlow_eq_register foldl_crcSlow_serial)
qed

text \<open>
  C34. Every error burst of at most 32 bits is detected, wherever it begins: when two messages
  of the same length differ, and only in bits that lie within 32 of one another (bit \<open>i\<close> of
  byte \<open>j\<close> being the bit number \<open>8 * j + i\<close> of the message, the order in which the checksum
  takes them), \<open>crcFast\<close> returns different checksums for them, whatever the rest of the two
  messages is. Such a page never passes for intact.
\<close>

theorem crcFast_detects_burst:
  assumes "length m = length m'" "m \<noteq> m'"
    and "\<And>j i. j < length m \<Longrightarrow> i < 8 \<Longrightarrow> bit (m ! j) i \<noteq> bit (m' ! j) i \<Longrightarrow>
      s \<le> 8 * j + i \<and> 8 * j + i < s + 32"
  shows "crcFast (crcTable (crcInit crc_state0)) m \<noteq> crcFast (crcTable (crcInit crc_state0)) m'"
proof -
  have "\<not> inited crc_state0" by (simp add: crc_state0_def)
  then have "crcFast (crcTable (crcInit crc_state0)) x = crcSlow x" for x
    by (simp add: crcFast_def crcSlow_def foldl_crcFast_byte)
  with crcSlow_burst [OF assms] show ?thesis by simp
qed

text \<open>A burst of 32 bits that spans five bytes: from bit 4 of the second to bit 3 of the sixth.\<close>

theorem crcFast_detects_burst_witness:
  "crcFast (crcTable (crcInit crc_state0)) [7, 0x10, 0, 0, 0, 0x08, 9]
   \<noteq> crcFast (crcTable (crcInit crc_state0)) [7, 0, 0, 0, 0, 0, 9]"
proof (rule crcFast_detects_burst [where s = 12])
  have low: "\<not> bit (0x10 :: byte) i" if "i < 4" for i
  proof -
    have "i \<in> {0, 1, 2, 3}" using that by auto
    then show ?thesis by (elim insertE) simp_all
  qed
  have high: "\<not> bit (0x08 :: byte) i" if "4 \<le> i" "i < 8" for i
  proof -
    have "i \<in> {4, 5, 6, 7}" using that by auto
    then show ?thesis by (elim insertE) simp_all
  qed
  fix j i :: nat
  assume "j < length [7 :: byte, 0x10, 0, 0, 0, 0x08, 9]" "i < 8"
    "bit ([7 :: byte, 0x10, 0, 0, 0, 0x08, 9] ! j) i \<noteq> bit ([7 :: byte, 0, 0, 0, 0, 0, 9] ! j) i"
  moreover from this(1) have "j \<in> {0, 1, 2, 3, 4, 5, 6}" by auto
  ultimately show "12 \<le> 8 * j + i \<and> 8 * j + i < 12 + 32" using low [of i] high [of i] by (cases "i < 4") auto
qed simp_all

end
