(* ===== verification/PageSet.thy ===== *)
theory PageSet
  imports Prelude
begin

text \<open>
  \<open>src/base/SimpleFlashFsPageSet.h\<close>: the set of 32-bit page numbers behind
  \<open>allocated_unwritten_pages\<close>, \<open>free_data_pages\<close> and the list of pages to erase. A vector that
  is sorted lazily (\<open>unsorted\<close>) and in which erased members leave the hole \<open>NO_DATA\<close> until the
  next \<open>sort\<close> (\<open>unshrinked\<close>).

  The contract of the container is the locale \<open>page_container\<close>; the interpretation at the end
  shows that the vector with holes implements it, and \<open>take_lowest\<close> is the way the data page
  allocator uses it.
\<close>

section \<open>The code\<close>

definition NO_DATA :: nat where "NO_DATA = 2 ^ 32 - 1"

record page_set =
  ps_data :: "nat list"
  unsorted :: bool
  unshrinked :: bool

definition PageSet_empty_set :: page_set where
  "PageSet_empty_set = \<lparr>ps_data = [], unsorted = False, unshrinked = False\<rparr>"

definition PageSet_unordered_insert_range :: "page_set \<Rightarrow> nat list \<Rightarrow> page_set" where
  "PageSet_unordered_insert_range s vs =
     s\<lparr>ps_data := ps_data s @ vs, unsorted := True, unshrinked := True\<rparr>"

text \<open>\<open>std::sort\<close> followed by the loop that drops the \<open>NO_DATA\<close> values at the end.\<close>

definition drop_trailing_holes :: "nat list \<Rightarrow> nat list" where
  "drop_trailing_holes xs = rev (dropWhile (\<lambda>x. x = NO_DATA) (rev xs))"

definition PageSet_sort :: "page_set \<Rightarrow> page_set" where
  "PageSet_sort s =
     s\<lparr>ps_data := drop_trailing_holes (sort (ps_data s)), unsorted := False, unshrinked := False\<rparr>"

definition PageSet_unordered_insert :: "page_set \<Rightarrow> nat \<Rightarrow> page_set" where
  "PageSet_unordered_insert s v = s\<lparr>ps_data := ps_data s @ [v], unsorted := True\<rparr>"

text \<open>
  The loop of \<open>insert\<close>: \<open>pre\<close> are the elements before \<open>it\<close>, so \<open>prev\<close> is the last of them
  (and \<open>data.end()\<close> when there is none).
\<close>

fun insert_loop :: "nat \<Rightarrow> nat list \<Rightarrow> nat list \<Rightarrow> nat list" where
  "insert_loop v pre [] = pre @ [v]"
| "insert_loop v pre (x # xs) =
     (if x = v then pre @ x # xs
      else if x = NO_DATA then insert_loop v (pre @ [x]) xs
      else if x > v then
        (if pre \<noteq> [] \<and> last pre = NO_DATA then butlast pre @ v # x # xs
         else pre @ v # x # xs)
      else insert_loop v (pre @ [x]) xs)"

definition PageSet_insert :: "page_set \<Rightarrow> nat \<Rightarrow> page_set" where
  "PageSet_insert s v =
     (let s = (if unsorted s then PageSet_sort s else s)
      in s\<lparr>ps_data := insert_loop v [] (ps_data s)\<rparr>)"

text \<open>The loop of \<open>erase\<close> returns the vector, the flag \<open>unshrinked\<close> and the result.\<close>

fun erase_loop :: "nat \<Rightarrow> bool \<Rightarrow> nat list \<Rightarrow> nat list \<times> bool \<times> nat" where
  "erase_loop v us [] = ([], us, 0)"
| "erase_loop v us (x # xs) =
     (if x = v then (NO_DATA # xs, True, 1)
      else if x = NO_DATA then (let (d, u, r) = erase_loop v True xs in (x # d, u, r))
      else if x > v then (x # xs, us, 0)
      else (let (d, u, r) = erase_loop v us xs in (x # d, u, r)))"

definition PageSet_erase :: "page_set \<Rightarrow> nat \<Rightarrow> nat \<times> page_set" where
  "PageSet_erase s v =
     (let s = (if unsorted s then PageSet_sort s else s);
          (d, u, r) = erase_loop v (unshrinked s) (ps_data s)
      in (r, s\<lparr>ps_data := d, unshrinked := u\<rparr>))"

text \<open>\<open>erase(const_iterator)\<close>, with the iterator as its index.\<close>

definition PageSet_erase_at :: "page_set \<Rightarrow> nat \<Rightarrow> page_set" where
  "PageSet_erase_at s i = s\<lparr>ps_data := (ps_data s)[i := NO_DATA], unshrinked := True\<rparr>"

fun count_loop :: "nat \<Rightarrow> nat list \<Rightarrow> nat" where
  "count_loop m [] = 0"
| "count_loop m (x # xs) =
     (if x = m then 1 else if x \<noteq> NO_DATA \<and> x > m then 0 else count_loop m xs)"

definition PageSet_count :: "page_set \<Rightarrow> nat \<Rightarrow> nat \<times> page_set" where
  "PageSet_count s m =
     (let s = (if unsorted s then PageSet_sort s else s) in (count_loop m (ps_data s), s))"

definition PageSet_get_data :: "page_set \<Rightarrow> nat list \<times> page_set" where
  "PageSet_get_data s =
     (let s = (if unsorted s \<or> unshrinked s then PageSet_sort s else s) in (ps_data s, s))"

text \<open>\<open>get_sorted_data\<close> cuts the sorted copy at the first \<open>NO_DATA\<close>.\<close>

definition PageSet_get_sorted_data :: "page_set \<Rightarrow> nat list" where
  "PageSet_get_sorted_data s = takeWhile (\<lambda>x. x \<noteq> NO_DATA) (sort (ps_data s))"

definition PageSet_clear :: "page_set \<Rightarrow> page_set" where
  "PageSet_clear s = s\<lparr>ps_data := [], unsorted := False, unshrinked := False\<rparr>"

definition PageSet_size :: "page_set \<Rightarrow> nat \<times> page_set" where
  "PageSet_size s =
     (let s = (if unsorted s then PageSet_sort s else s) in (length (ps_data s), s))"

definition PageSet_size_const :: "page_set \<Rightarrow> nat" where
  "PageSet_size_const s =
     (if \<not> unsorted s \<and> \<not> unshrinked s then length (ps_data s)
      else length (filter (\<lambda>n. n \<noteq> NO_DATA) (ps_data s)))"

definition PageSet_empty :: "page_set \<Rightarrow> bool \<times> page_set" where
  "PageSet_empty s =
     (let s = (if unsorted s \<or> unshrinked s then PageSet_sort s else s) in (ps_data s = [], s))"

section \<open>Abstraction and invariant\<close>

definition live :: "nat list \<Rightarrow> nat list" where
  "live xs = filter (\<lambda>n. n \<noteq> NO_DATA) xs"

lemma live_simps [simp]:
  "live [] = []" "live (xs @ ys) = live xs @ live ys"
  "live (x # xs) = (if x = NO_DATA then live xs else x # live xs)"
  by (simp_all add: live_def)

lemma set_live [simp]: "set (live xs) = set xs - {NO_DATA}"
  by (auto simp: live_def)

definition elems :: "page_set \<Rightarrow> nat set" where
  "elems s = set (live (ps_data s))"

definition ps_inv :: "page_set \<Rightarrow> bool" where
  "ps_inv s \<longleftrightarrow>
     distinct (live (ps_data s)) \<and> (\<forall>x \<in> set (ps_data s). x \<le> NO_DATA) \<and>
     (\<not> unsorted s \<longrightarrow> sorted (live (ps_data s))) \<and>
     (\<not> unsorted s \<and> \<not> unshrinked s \<longrightarrow> NO_DATA \<notin> set (ps_data s))"

lemma ps_invD:
  assumes "ps_inv s"
  shows "distinct (live (ps_data s))" "x \<in> set (ps_data s) \<Longrightarrow> x \<le> NO_DATA"
    "\<not> unsorted s \<Longrightarrow> sorted (live (ps_data s))"
    "\<not> unsorted s \<Longrightarrow> \<not> unshrinked s \<Longrightarrow> NO_DATA \<notin> set (ps_data s)"
  using assms by (auto simp: ps_inv_def)

lemma ps_invI:
  assumes "distinct (live (ps_data s))" "\<And>x. x \<in> set (ps_data s) \<Longrightarrow> x \<le> NO_DATA"
    "\<not> unsorted s \<Longrightarrow> sorted (live (ps_data s))"
    "\<not> unsorted s \<Longrightarrow> \<not> unshrinked s \<Longrightarrow> NO_DATA \<notin> set (ps_data s)"
  shows "ps_inv s"
  using assms by (auto simp: ps_inv_def)

lemma finite_elems [simp]: "finite (elems s)"
  by (simp add: elems_def)

lemma NO_DATA_notin_elems [simp]: "NO_DATA \<notin> elems s"
  by (simp add: elems_def)

section \<open>Sorting\<close>

text \<open>All \<open>NO_DATA\<close> values are the largest, so the sorted vector ends with them.\<close>

lemma sorted_live_holes:
  "sorted xs \<Longrightarrow> \<forall>x \<in> set xs. x \<le> NO_DATA \<Longrightarrow>
   xs = live xs @ replicate (length xs - length (live xs)) NO_DATA"
proof (induction xs)
  case (Cons x xs)
  show ?case
  proof (cases "x = NO_DATA")
    case True
    with Cons.prems have all: "\<forall>y \<in> set xs. y = NO_DATA" by force
    then have "live xs = []" by (auto simp: live_def)
    moreover from all have "xs = replicate (length xs) NO_DATA"
      by (simp add: list_eq_iff_nth_eq)
    ultimately show ?thesis using True by simp
  next
    case False
    then show ?thesis using Cons by (simp add: Suc_diff_le)
  qed
qed simp

lemma drop_trailing_holes_live:
  assumes "sorted xs" "\<forall>x \<in> set xs. x \<le> NO_DATA"
  shows "drop_trailing_holes xs = live xs"
proof -
  let ?k = "length xs - length (live xs)"
  have xs: "xs = live xs @ replicate ?k NO_DATA"
    using assms by (rule sorted_live_holes)
  have dw: "dropWhile (\<lambda>x. x = NO_DATA) (replicate k NO_DATA @ ys) =
      dropWhile (\<lambda>x. x = NO_DATA) ys" for k ys
    by (induction k) auto
  have "dropWhile (\<lambda>x. x = NO_DATA) (rev (live xs)) = rev (live xs)"
  proof (cases "rev (live xs)")
    case (Cons y ys)
    then have "y \<in> set (live xs)" by (metis list.set_intros(1) set_rev)
    with Cons show ?thesis by (simp del: rev_eq_Cons_iff)
  qed simp
  then have "dropWhile (\<lambda>x. x = NO_DATA) (rev xs) = rev (live xs)"
    by (subst xs) (simp add: dw)
  then show ?thesis by (simp add: drop_trailing_holes_def)
qed

lemma live_sort: "live (sort xs) = sort (live xs)"
  by (simp add: live_def filter_sort)

lemma PageSet_sort_data:
  "ps_inv s \<Longrightarrow> ps_data (PageSet_sort s) = sort (live (ps_data s))"
  by (simp add: PageSet_sort_def drop_trailing_holes_live ps_inv_def live_sort)

lemma live_idem [simp]: "live (live xs) = live xs" "live (sort (live xs)) = sort (live xs)"
  by (simp_all add: live_def filter_sort)

lemma PageSet_sort_flags [simp]:
  "unsorted (PageSet_sort s) = False" "unshrinked (PageSet_sort s) = False"
  by (simp_all add: PageSet_sort_def)

lemma ps_inv_sort: "ps_inv s \<Longrightarrow> ps_inv (PageSet_sort s)"
  by (auto simp: ps_inv_def [of "PageSet_sort s"] PageSet_sort_data dest: ps_invD)

lemma elems_sort: "ps_inv s \<Longrightarrow> elems (PageSet_sort s) = elems s"
  by (simp add: elems_def PageSet_sort_data)

text \<open>Every operation first brings the vector into order.\<close>

definition ordered :: "page_set \<Rightarrow> page_set" where
  "ordered s = (if unsorted s then PageSet_sort s else s)"

lemma ordered_facts:
  assumes "ps_inv s"
  shows "ps_inv (ordered s)" "\<not> unsorted (ordered s)" "elems (ordered s) = elems s"
    "sorted (live (ps_data (ordered s)))"
  using assms ps_inv_sort [OF assms] elems_sort [OF assms]
  by (auto simp: ordered_def dest: ps_invD)

section \<open>The loops\<close>

lemma insert_loop_live:
  assumes "v \<noteq> NO_DATA" "sorted (live (pre @ xs))" "distinct (live (pre @ xs))"
    "\<forall>x \<in> set (live pre). x < v"
  shows "set (live (insert_loop v pre xs)) = insert v (set (live (pre @ xs)))
    \<and> sorted (live (insert_loop v pre xs)) \<and> distinct (live (insert_loop v pre xs))
    \<and> set (insert_loop v pre xs) \<subseteq> insert v (set (pre @ xs))"
  using assms
proof (induction v pre xs rule: insert_loop.induct)
  case (1 v pre)
  then have "\<forall>x \<in> set (live pre). x \<le> v" by fastforce
  with 1 show ?case by (auto simp: sorted_append)
next
  case (2 v pre x xs)
  consider "x = v" | "x \<noteq> v" "x = NO_DATA" | "x \<noteq> v" "x \<noteq> NO_DATA" "x > v"
    | "x \<noteq> v" "x \<noteq> NO_DATA" "x < v" by linarith
  then show ?case
  proof cases
    case 1
    with "2.prems" show ?thesis by auto
  next
    case 2
    then have "insert_loop v pre (x # xs) = insert_loop v (pre @ [x]) xs" by simp
    moreover have "\<forall>x \<in> set (live (pre @ [x])). x < v" using 2 "2.prems" by simp
    ultimately show ?thesis using "2.IH"(1) [OF 2] "2.prems" 2 by simp
  next
    case 3
    have hi: "\<forall>y \<in> set xs. y \<noteq> NO_DATA \<longrightarrow> v \<le> y \<and> v \<noteq> y"
    proof (intro ballI impI)
      fix y assume "y \<in> set xs" "y \<noteq> NO_DATA"
      then have "x \<le> y" using 3 "2.prems"(2) by (auto simp: sorted_append)
      with 3 show "v \<le> y \<and> v \<noteq> y" by simp
    qed
    have lo: "\<forall>y \<in> set pre. y \<noteq> NO_DATA \<longrightarrow> y \<le> v \<and> v \<noteq> y"
      using "2.prems"(4) by (auto simp: less_imp_le)
    show ?thesis
    proof (cases "pre \<noteq> [] \<and> last pre = NO_DATA")
      case True
      then obtain pre' where pre: "pre = pre' @ [NO_DATA]" by (metis append_butlast_last_id)
      with True 3 "2.prems" hi lo show ?thesis by (auto simp: sorted_append)
    next
      case False
      with 3 "2.prems" hi lo show ?thesis by (auto simp: sorted_append)
    qed
  next
    case 4
    then have "insert_loop v pre (x # xs) = insert_loop v (pre @ [x]) xs" by simp
    moreover have "\<forall>x \<in> set (live (pre @ [x])). x < v" using 4 "2.prems" by simp
    ultimately show ?thesis using "2.IH"(2) 4 "2.prems" by simp
  qed
qed

lemma erase_loop_live:
  assumes "sorted (live xs)" "distinct (live xs)" "\<forall>x \<in> set xs. x \<le> NO_DATA"
    "erase_loop v us xs = (d, u, r)"
  shows "live d = filter (\<lambda>x. x \<noteq> v) (live xs) \<and> set d \<subseteq> insert NO_DATA (set xs)
    \<and> (NO_DATA \<in> set d \<longrightarrow> u \<or> NO_DATA \<in> set xs) \<and> (us \<longrightarrow> u)
    \<and> r = (if v \<in> set xs then 1 else 0)"
  using assms
proof (induction v us xs arbitrary: d u r rule: erase_loop.induct)
  case (1 v us)
  then show ?case by simp
next
  case (2 v us x xs)
  consider "x = v" | "x \<noteq> v" "x = NO_DATA" | "x \<noteq> v" "x \<noteq> NO_DATA" "x > v"
    | "x \<noteq> v" "x \<noteq> NO_DATA" "x < v" by linarith
  then show ?case
  proof cases
    case 1
    have "filter (\<lambda>y. y \<noteq> x) (live xs) = live xs" if "x \<notin> set (live xs)"
      using that by (auto simp: filter_id_conv)
    with 1 "2.prems" show ?thesis by (auto split: if_splits)
  next
    case 2
    obtain d' u' r' where e: "erase_loop v True xs = (d', u', r')" by (cases "erase_loop v True xs")
    with 2 "2.prems" show ?thesis using "2.IH"(1) [OF 2, of d' u' r'] by auto
  next
    case 3
    have "v \<notin> set (x # xs)"
    proof
      assume "v \<in> set (x # xs)"
      with 3 have "v \<in> set xs" by simp
      moreover have "v \<noteq> NO_DATA" using 3 "2.prems"(3) by auto
      ultimately have "x \<le> v" using 3 "2.prems"(1) by simp
      with 3 show False by simp
    qed
    moreover from this have "filter (\<lambda>y. y \<noteq> v) (live (x # xs)) = live (x # xs)"
      by (auto simp: filter_id_conv live_def)
    ultimately show ?thesis using 3 "2.prems" by auto
  next
    case 4
    obtain d' u' r' where e: "erase_loop v us xs = (d', u', r')" by (cases "erase_loop v us xs")
    with 4 "2.prems" show ?thesis using "2.IH"(2) [of d' u' r'] by auto
  qed
qed


lemma count_loop_live:
  assumes "sorted (live xs)" "\<forall>x \<in> set xs. x \<le> NO_DATA" "m \<noteq> NO_DATA"
  shows "count_loop m xs = (if m \<in> set xs then 1 else 0)"
  using assms
proof (induction m xs rule: count_loop.induct)
  case (2 m x xs)
  have "m \<notin> set xs" if "x \<noteq> NO_DATA" "x > m"
    using that "2.prems" by (auto dest!: bspec)
  with 2 show ?case by (auto split: if_splits)
qed simp

section \<open>The operations implement a set\<close>

lemma PageSet_insert_ordered: "PageSet_insert s v = (ordered s)\<lparr>ps_data := insert_loop v [] (ps_data (ordered s))\<rparr>"
  by (simp add: PageSet_insert_def ordered_def Let_def)

lemma PageSet_insert_facts:
  assumes "ps_inv s" "v < NO_DATA"
  shows "ps_inv (PageSet_insert s v)" "elems (PageSet_insert s v) = insert v (elems s)"
proof -
  note o = ordered_facts [OF assms(1)]
  have l: "set (live (insert_loop v [] (ps_data (ordered s)))) = insert v (elems s)
    \<and> sorted (live (insert_loop v [] (ps_data (ordered s))))
    \<and> distinct (live (insert_loop v [] (ps_data (ordered s))))
    \<and> set (insert_loop v [] (ps_data (ordered s))) \<subseteq> insert v (set (ps_data (ordered s)))"
    using insert_loop_live [of v "[]" "ps_data (ordered s)"] assms(2) o
    by (auto simp: elems_def dest: ps_invD)
  show "elems (PageSet_insert s v) = insert v (elems s)"
    using l by (simp add: PageSet_insert_ordered elems_def)
  show "ps_inv (PageSet_insert s v)"
  proof (rule ps_invI)
    fix x assume "x \<in> set (ps_data (PageSet_insert s v))"
    then have "x = v \<or> x \<in> set (ps_data (ordered s))"
      using l by (auto simp: PageSet_insert_ordered)
    then show "x \<le> NO_DATA" using ps_invD(2) [OF o(1)] assms(2) by auto
  next
    assume "\<not> unshrinked (PageSet_insert s v)"
    then have "NO_DATA \<notin> set (ps_data (ordered s))"
      using ps_invD(4) [OF o(1) o(2)] by (simp add: PageSet_insert_ordered)
    with l assms(2) show "NO_DATA \<notin> set (ps_data (PageSet_insert s v))"
      by (auto simp: PageSet_insert_ordered)
  qed (use l in \<open>simp_all add: PageSet_insert_ordered\<close>)
qed

lemma PageSet_erase_facts:
  assumes "ps_inv s"
  shows "ps_inv (snd (PageSet_erase s v))" "elems (snd (PageSet_erase s v)) = elems s - {v}"
    "v \<noteq> NO_DATA \<Longrightarrow> fst (PageSet_erase s v) = (if v \<in> elems s then 1 else 0)"
proof -
  note o = ordered_facts [OF assms]
  obtain d u r where e: "erase_loop v (unshrinked (ordered s)) (ps_data (ordered s)) = (d, u, r)"
    by (cases "erase_loop v (unshrinked (ordered s)) (ps_data (ordered s))")
  have er: "PageSet_erase s v = (r, (ordered s)\<lparr>ps_data := d, unshrinked := u\<rparr>)"
    using e by (simp add: PageSet_erase_def ordered_def Let_def split: if_splits)
  have l: "live d = filter (\<lambda>x. x \<noteq> v) (live (ps_data (ordered s)))"
    "set d \<subseteq> insert NO_DATA (set (ps_data (ordered s)))"
    "NO_DATA \<in> set d \<longrightarrow> u \<or> NO_DATA \<in> set (ps_data (ordered s))" "unshrinked (ordered s) \<longrightarrow> u"
    "r = (if v \<in> set (ps_data (ordered s)) then 1 else 0)"
    using erase_loop_live [OF _ _ _ e] o ps_invD(1,2) [OF o(1)] by auto
  show "elems (snd (PageSet_erase s v)) = elems s - {v}"
    unfolding er elems_def o(3) [unfolded elems_def, symmetric] by (auto simp: l(1) simp del: set_live)
  show "v \<noteq> NO_DATA \<Longrightarrow> fst (PageSet_erase s v) = (if v \<in> elems s then 1 else 0)"
    using o(3) by (auto simp: er l(5) elems_def)
  show "ps_inv (snd (PageSet_erase s v))"
  proof (rule ps_invI)
    fix x assume "x \<in> set (ps_data (snd (PageSet_erase s v)))"
    then have "x = NO_DATA \<or> x \<in> set (ps_data (ordered s))" using l(2) by (auto simp: er)
    then show "x \<le> NO_DATA" using ps_invD(2) [OF o(1)] by auto
  next
    assume "\<not> unshrinked (snd (PageSet_erase s v))"
    then have u: "\<not> u" by (simp add: er)
    then have "NO_DATA \<notin> set (ps_data (ordered s))"
      using ps_invD(4) [OF o(1) o(2)] l(4) by blast
    with l(3) u show "NO_DATA \<notin> set (ps_data (snd (PageSet_erase s v)))" by (auto simp: er)
  qed (use o(4) ps_invD(1) [OF o(1)] in \<open>simp_all add: er l(1) sorted_wrt_filter\<close>)
qed

lemma PageSet_count_facts:
  assumes "ps_inv s" "m \<noteq> NO_DATA"
  shows "ps_inv (snd (PageSet_count s m))" "elems (snd (PageSet_count s m)) = elems s"
    "fst (PageSet_count s m) = (if m \<in> elems s then 1 else 0)"
proof -
  note o = ordered_facts [OF assms(1)]
  have c: "PageSet_count s m = (count_loop m (ps_data (ordered s)), ordered s)"
    by (simp add: PageSet_count_def ordered_def Let_def)
  show "ps_inv (snd (PageSet_count s m))" "elems (snd (PageSet_count s m)) = elems s"
    using o by (simp_all add: c)
  show "fst (PageSet_count s m) = (if m \<in> elems s then 1 else 0)"
    using o ps_invD(2) [OF o(1)] assms(2)
    by (simp add: c count_loop_live elems_def set_eq_iff) (metis DiffD1)
qed


lemma PageSet_unordered_insert_facts:
  assumes "ps_inv s" "v < NO_DATA" "v \<notin> elems s"
  shows "ps_inv (PageSet_unordered_insert s v)"
    "elems (PageSet_unordered_insert s v) = insert v (elems s)"
  using assms by (auto simp: PageSet_unordered_insert_def elems_def intro!: ps_invI dest: ps_invD)

lemma PageSet_clear_facts [simp]: "ps_inv (PageSet_clear s)" "elems (PageSet_clear s) = {}"
  by (simp_all add: PageSet_clear_def ps_inv_def elems_def)

lemma PageSet_empty_set_facts [simp]: "ps_inv PageSet_empty_set" "elems PageSet_empty_set = {}"
  by (simp_all add: PageSet_empty_set_def ps_inv_def elems_def)

lemma card_elems: "ps_inv s \<Longrightarrow> card (elems s) = length (live (ps_data s))"
  by (simp add: elems_def distinct_card ps_inv_def del: set_live)

lemma live_no_holes: "NO_DATA \<notin> set xs \<Longrightarrow> live xs = xs"
  by (auto simp: live_def filter_id_conv)

text \<open>
  The constant \<open>size\<close> is the number of members, holes not counted; so is the
  non-constant \<open>size\<close> after \<open>get_data\<close> (which sorts), and both copies that the set hands out
  list its members in ascending order, each once.
\<close>

theorem PageSet_listing:
  assumes "ps_inv s"
  shows "PageSet_size_const s = card (elems s)
    \<and> fst (PageSet_size (snd (PageSet_get_data s))) = card (elems s)
    \<and> fst (PageSet_get_data s) = sorted_list_of_set (elems s)
    \<and> PageSet_get_sorted_data s = sorted_list_of_set (elems s)"
proof -
  have sl: "sort (live (ps_data s)) = sorted_list_of_set (elems s)"
    unfolding elems_def
    using assms by (metis distinct_sort ps_invD(1) set_sort sorted_list_of_set.idem_if_sorted_distinct sorted_sort)
  have gd: "fst (PageSet_get_data s) = sorted_list_of_set (elems s)"
  proof (cases "unsorted s \<or> unshrinked s")
    case True
    then show ?thesis using sl PageSet_sort_data [OF assms] by (simp add: PageSet_get_data_def)
  next
    case False
    then have "live (ps_data s) = ps_data s" "sorted (live (ps_data s))"
      using assms by (auto intro: live_no_holes dest: ps_invD)
    with False sl show ?thesis by (simp add: PageSet_get_data_def sorted_sort_id)
  qed
  have "takeWhile (\<lambda>x. x \<noteq> NO_DATA) (sort (ps_data s)) = sort (live (ps_data s))"
  proof -
    have "sort (ps_data s) = sort (live (ps_data s)) @ replicate (length (ps_data s) - length (live (ps_data s))) NO_DATA"
      using sorted_live_holes [of "sort (ps_data s)"] assms
      by (simp add: live_sort ps_inv_def)
    moreover have "takeWhile (\<lambda>x. x \<noteq> NO_DATA) (sort (live (ps_data s)) @ replicate k NO_DATA) =
        sort (live (ps_data s))" for k
      by (subst takeWhile_append2) (auto simp: takeWhile_replicate)
    ultimately show ?thesis by (simp del: sort_key_simps)
  qed
  moreover have "PageSet_size_const s = card (elems s)"
    using card_elems [OF assms] live_no_holes [of "ps_data s"] assms
    by (auto simp: PageSet_size_const_def live_def dest: ps_invD)
  moreover have "\<not> unsorted (snd (PageSet_get_data s))" "ps_data (snd (PageSet_get_data s)) = fst (PageSet_get_data s)"
    by (simp_all add: PageSet_get_data_def Let_def)
  ultimately show ?thesis
    using sl gd by (simp add: PageSet_get_sorted_data_def PageSet_size_def)
qed

theorem PageSet_listing_witness:
  "PageSet_size_const \<lparr>ps_data = [3, NO_DATA, 7], unsorted = False, unshrinked = True\<rparr> = card {3, 7 :: nat}
   \<and> PageSet_get_sorted_data \<lparr>ps_data = [3, NO_DATA, 7], unsorted = False, unshrinked = True\<rparr> = [3, 7]"
proof -
  let ?s = "\<lparr>ps_data = [3, NO_DATA, 7], unsorted = False, unshrinked = True\<rparr>"
  have i: "ps_inv ?s" "elems ?s = {3, 7}" by (auto simp: ps_inv_def elems_def NO_DATA_def)
  show ?thesis using PageSet_listing [OF i(1)] i(2) by simp
qed

section \<open>The interface\<close>

text \<open>
  What the allocators of the file system rely on: a set of page numbers below
  \<open>NO_DATA\<close> with insertion, deletion and a membership test that may reorganise the
  representation.
\<close>

locale page_container =
  fixes inv :: "'s \<Rightarrow> bool" and members :: "'s \<Rightarrow> nat set"
    and ins :: "'s \<Rightarrow> nat \<Rightarrow> 's" and del :: "'s \<Rightarrow> nat \<Rightarrow> nat \<times> 's"
    and cnt :: "'s \<Rightarrow> nat \<Rightarrow> nat \<times> 's"
  assumes ins_inv: "inv s \<Longrightarrow> v < NO_DATA \<Longrightarrow> inv (ins s v)"
    and ins_members: "inv s \<Longrightarrow> v < NO_DATA \<Longrightarrow> members (ins s v) = insert v (members s)"
    and del_inv: "inv s \<Longrightarrow> inv (snd (del s v))"
    and del_members: "inv s \<Longrightarrow> members (snd (del s v)) = members s - {v}"
    and cnt_inv: "inv s \<Longrightarrow> v < NO_DATA \<Longrightarrow> inv (snd (cnt s v))"
    and cnt_members: "inv s \<Longrightarrow> v < NO_DATA \<Longrightarrow> members (snd (cnt s v)) = members s"
    and cnt_result: "inv s \<Longrightarrow> v < NO_DATA \<Longrightarrow> fst (cnt s v) = 0 \<longleftrightarrow> v \<notin> members s"
begin

text \<open>
  Check-then-claim, the pattern of the inode page allocators: a claim succeeds exactly for
  an unclaimed page, and afterwards the same page cannot be claimed until it is released.
\<close>

lemma claim_once:
  assumes "inv s" "v < NO_DATA"
  shows "fst (cnt (ins (snd (cnt s v)) v) v) \<noteq> 0"
  using assms by (simp add: cnt_result cnt_inv cnt_members ins_inv ins_members)

lemma release_then_claim:
  assumes "inv s" "v < NO_DATA"
  shows "fst (cnt (snd (del (ins s v) v)) v) = 0"
  using assms by (simp add: cnt_result ins_inv del_inv del_members)

end

interpretation ps: page_container ps_inv elems PageSet_insert PageSet_erase PageSet_count
proof
  fix s v
  assume i: "ps_inv s"
  show "ps_inv (snd (PageSet_erase s v))" "elems (snd (PageSet_erase s v)) = elems s - {v}"
    using PageSet_erase_facts [OF i] by simp_all
  assume v: "v < NO_DATA"
  show "ps_inv (PageSet_insert s v)" "elems (PageSet_insert s v) = insert v (elems s)"
    using PageSet_insert_facts [OF i v] by simp_all
  show "ps_inv (snd (PageSet_count s v))" "elems (snd (PageSet_count s v)) = elems s"
    "fst (PageSet_count s v) = 0 \<longleftrightarrow> v \<notin> elems s"
    using PageSet_count_facts [OF i] v by simp_all
qed

section \<open>Taking the lowest member\<close>

text \<open>
  The use of the container in \<open>allocate_free_data_page\<close>: \<open>empty()\<close>, then \<open>begin()\<close> and
  \<open>erase(it)\<close>.
\<close>

lemma PageSet_empty_facts:
  assumes "ps_inv s"
  shows "ps_inv (snd (PageSet_empty s))" "elems (snd (PageSet_empty s)) = elems s"
    "fst (PageSet_empty s) \<longleftrightarrow> elems s = {}"
    "ps_data (snd (PageSet_empty s)) = sorted_list_of_set (elems s)"
proof -
  have e: "PageSet_empty s = (fst (PageSet_get_data s) = [], snd (PageSet_get_data s))"
    "ps_data (snd (PageSet_get_data s)) = fst (PageSet_get_data s)"
    by (simp_all add: PageSet_empty_def PageSet_get_data_def Let_def)
  have gd: "fst (PageSet_get_data s) = sorted_list_of_set (elems s)"
  proof (cases "unsorted s \<or> unshrinked s")
    case True
    then show ?thesis
      unfolding elems_def using PageSet_sort_data [OF assms] assms
      by (simp add: PageSet_get_data_def del: set_live)
        (metis distinct_sort ps_invD(1) set_sort sorted_list_of_set.idem_if_sorted_distinct sorted_sort)
  next
    case False
    then have "live (ps_data s) = ps_data s" "sorted (live (ps_data s))" "distinct (live (ps_data s))"
      using assms by (auto intro: live_no_holes dest: ps_invD)
    with False show ?thesis
      by (simp add: PageSet_get_data_def elems_def sorted_list_of_set.idem_if_sorted_distinct del: set_live)
  qed
  show "ps_inv (snd (PageSet_empty s))" "elems (snd (PageSet_empty s)) = elems s"
    using assms by (simp_all add: PageSet_empty_def Let_def ps_inv_sort elems_sort)
  show "fst (PageSet_empty s) \<longleftrightarrow> elems s = {}"
    "ps_data (snd (PageSet_empty s)) = sorted_list_of_set (elems s)"
    by (simp_all add: e gd sorted_list_of_set_eq_Nil_iff)
qed

lemma PageSet_erase_first:
  assumes "ps_inv s" "ps_data s = sorted_list_of_set (elems s)" "elems s \<noteq> {}"
  shows "ps_inv (PageSet_erase_at s 0)" "elems (PageSet_erase_at s 0) = elems s - {Min (elems s)}"
    "ps_data s ! 0 = Min (elems s)"
proof -
  have "sorted_list_of_set (elems s) \<noteq> []"
    using assms(3) by (simp add: sorted_list_of_set_eq_Nil_iff)
  then obtain x xs where d: "ps_data s = x # xs" using assms(2) by (metis list.exhaust)
  have x: "x = Min (elems s)"
    using d assms(2,3) by (metis finite_elems sorted_list_of_set_nonempty list.inject)
  have "distinct (ps_data s)" "sorted (ps_data s)" "set (ps_data s) = elems s"
    by (simp_all add: assms(2))
  then have dist: "distinct (x # xs)" "sorted (x # xs)" "set (x # xs) = elems s"
    by (simp_all only: d)
  have nd: "NO_DATA \<notin> set (x # xs)" by (simp only: dist(3) NO_DATA_notin_elems not_False_eq_True)
  have lv: "live xs = xs" using nd by (auto intro: live_no_holes)
  show "ps_data s ! 0 = Min (elems s)" using d x by simp
  show "elems (PageSet_erase_at s 0) = elems s - {Min (elems s)}"
  proof -
    have "elems (PageSet_erase_at s 0) = set xs"
      using nd by (simp add: PageSet_erase_at_def elems_def d)
    also have "\<dots> = set (x # xs) - {x}" using dist(1) by auto
    also have "\<dots> = elems s - {x}" by (simp only: dist(3))
    finally show ?thesis using x by simp
  qed
  show "ps_inv (PageSet_erase_at s 0)"
  proof (rule ps_invI)
    fix y assume "y \<in> set (ps_data (PageSet_erase_at s 0))"
    then have "y = NO_DATA \<or> y \<in> set (ps_data s)" by (auto simp: PageSet_erase_at_def d)
    then show "y \<le> NO_DATA" using ps_invD(2) [OF assms(1)] by auto
  qed (use dist(1,2) lv in \<open>simp_all add: PageSet_erase_at_def d\<close>)
qed

lemma PageSet_take_first:
  assumes "ps_inv s"
  shows "ps_inv (snd (PageSet_empty s)) \<and> elems (snd (PageSet_empty s)) = elems s
    \<and> (fst (PageSet_empty s) \<longleftrightarrow> elems s = {})
    \<and> (elems s \<noteq> {} \<longrightarrow> ps_data (snd (PageSet_empty s)) ! 0 = Min (elems s)
        \<and> ps_inv (PageSet_erase_at (snd (PageSet_empty s)) 0)
        \<and> elems (PageSet_erase_at (snd (PageSet_empty s)) 0) = elems s - {Min (elems s)})"
  using PageSet_empty_facts [OF assms] PageSet_erase_first [of "snd (PageSet_empty s)"] by simp

text \<open>
  C32. \<open>insert\<close>, \<open>erase\<close>, \<open>count\<close>, \<open>clear\<close>, and \<open>empty\<close> followed by taking the first element
  and erasing it, behave as on a set of page numbers, whatever holes and disorder the vector
  has: the refinement of the lazily sorted vector to a set. The first element is the least.
\<close>

theorem PageSet_refines_set:
  assumes "ps_inv s" "v < NO_DATA"
  shows "ps_inv (PageSet_insert s v) \<and> elems (PageSet_insert s v) = insert v (elems s)
    \<and> ps_inv (snd (PageSet_erase s v)) \<and> elems (snd (PageSet_erase s v)) = elems s - {v}
    \<and> fst (PageSet_erase s v) = (if v \<in> elems s then 1 else 0)
    \<and> ps_inv (snd (PageSet_count s v)) \<and> elems (snd (PageSet_count s v)) = elems s
    \<and> fst (PageSet_count s v) = (if v \<in> elems s then 1 else 0)
    \<and> ps_inv (PageSet_clear s) \<and> elems (PageSet_clear s) = {}
    \<and> ps_inv (snd (PageSet_empty s)) \<and> elems (snd (PageSet_empty s)) = elems s
    \<and> (fst (PageSet_empty s) \<longleftrightarrow> elems s = {})
    \<and> (elems s \<noteq> {} \<longrightarrow> ps_data (snd (PageSet_empty s)) ! 0 = Min (elems s)
        \<and> ps_inv (PageSet_erase_at (snd (PageSet_empty s)) 0)
        \<and> elems (PageSet_erase_at (snd (PageSet_empty s)) 0) = elems s - {Min (elems s)})"
  using assms ps.ins_inv ps.ins_members ps.del_inv ps.del_members ps.cnt_members
    PageSet_erase_facts(3) [OF assms(1)] PageSet_count_facts [OF assms(1) less_imp_neq [OF assms(2)]] PageSet_take_first [OF assms(1)]
  by simp

theorem PageSet_refines_set_witness:
  "elems (PageSet_insert \<lparr>ps_data = [3, NO_DATA, 7], unsorted = False, unshrinked = True\<rparr> 5) = {3, 5, 7}
   \<and> elems (PageSet_erase_at (snd (PageSet_empty \<lparr>ps_data = [3, NO_DATA, 7], unsorted = False, unshrinked = True\<rparr>)) 0) = {7}"
proof -
  let ?s = "\<lparr>ps_data = [3, NO_DATA, 7], unsorted = False, unshrinked = True\<rparr>"
  have i: "ps_inv ?s" "elems ?s = {3, 7}" by (auto simp: ps_inv_def elems_def NO_DATA_def)
  have "(5 :: nat) < NO_DATA" by (simp add: NO_DATA_def)
  from PageSet_refines_set [OF i(1) this] show ?thesis unfolding i(2) by simp auto
qed

end
