(* ===== verification/Endian.thy ===== *)
theory Endian
  imports Prelude
begin

text \<open>
  How a scalar is laid out in a page: \<open>memcpy\<close> of the object (in the byte order of the
  machine), after \<open>auto_endianess\<close> has swapped it when the byte order of the file system
  differs (\<open>src/base/SimpleFlashFsBase.h\<close>). Shown: swapping is the reversal of the bytes, the
  bytes in a page depend on the byte order of the file system only, and what is written is
  what is read.
\<close>

unbundle bit_operations_syntax

section \<open>Scalars as bytes\<close>

fun le_bytes :: "nat \<Rightarrow> nat \<Rightarrow> byte list" where
  "le_bytes 0 v = []"
| "le_bytes (Suc n) v = of_nat v # le_bytes n (v div 256)"

fun le_val :: "byte list \<Rightarrow> nat" where
  "le_val [] = 0"
| "le_val (b # bs) = unat b + 256 * le_val bs"

datatype endianness = LE | BE

text \<open>The object representation of an unsigned scalar of \<open>sz\<close> bytes.\<close>

definition obj_bytes :: "endianness \<Rightarrow> nat \<Rightarrow> nat \<Rightarrow> byte list" where
  "obj_bytes e sz v = (case e of LE \<Rightarrow> le_bytes sz v | BE \<Rightarrow> rev (le_bytes sz v))"

definition obj_val :: "endianness \<Rightarrow> byte list \<Rightarrow> nat" where
  "obj_val e bs = (case e of LE \<Rightarrow> le_val bs | BE \<Rightarrow> le_val (rev bs))"

lemma length_le_bytes [simp, len_simps]: "length (le_bytes n v) = n"
  by (induction n arbitrary: v) auto

lemma length_obj_bytes [simp, len_simps]: "length (obj_bytes e n v) = n"
  by (simp add: obj_bytes_def split: endianness.split)

lemma le_val_le_bytes: "le_val (le_bytes n v) = v mod 256 ^ n"
proof (induction n arbitrary: v)
  case (Suc n)
  have "unat (of_nat v :: byte) = v mod 256" by (simp add: unat_of_nat)
  then show ?case using Suc by (simp add: mod_mult2_eq)
qed simp

lemma le_bytes_le_val: "le_bytes (length bs) (le_val bs) = bs"
proof (induction bs)
  case (Cons b bs)
  have "unat b < 2 ^ LENGTH(8)" by (rule unsigned_less)
  then have "unat b < 256" by simp
  then have "(unat b + 256 * le_val bs) div 256 = le_val bs" by simp
  moreover have "(256 :: byte) = 0" by simp
  then have "(of_nat (unat b + 256 * le_val bs) :: byte) = b"
    by (simp only: of_nat_add of_nat_mult of_nat_numeral mult_zero_left add_0_right) simp
  ultimately show ?case using Cons by simp
qed simp

lemma le_val_bound: "le_val bs < 256 ^ length bs"
  by (metis le_bytes_le_val le_val_le_bytes mod_less_divisor zero_less_numeral zero_less_power)

lemma le_bytes_mod: "le_bytes n (v mod 256 ^ n) = le_bytes n v"
  by (metis le_bytes_le_val le_val_le_bytes length_le_bytes)

section \<open>Swapping the byte order\<close>

text \<open>\<open>swapByteOrder\<close> on a scalar of \<open>totalBytes\<close> bytes, and the value one iteration ors in.\<close>

definition swapped_byte :: "nat \<Rightarrow> nat \<Rightarrow> nat \<Rightarrow> nat" where
  "swapped_byte totalBytes v i =
     push_bit (8 * i) (drop_bit (8 * (totalBytes - i - 1)) v AND 0xFF)"

definition swapByteOrder :: "nat \<Rightarrow> nat \<Rightarrow> nat" where
  "swapByteOrder totalBytes v =
     foldl (\<lambda>swapped i. swapped OR swapped_byte totalBytes v i) 0 [0..<totalBytes]"

text \<open>\<open>swap_endianess\<close>, with the byte order of the machine as a parameter.\<close>

definition swap_endianess :: "endianness \<Rightarrow> endianness \<Rightarrow> bool" where
  "swap_endianess native fs_endian =
     (if native = BE \<and> fs_endian = LE then True
      else if native = LE \<and> fs_endian = BE then True
      else False)"

definition auto_endianess :: "endianness \<Rightarrow> endianness \<Rightarrow> nat \<Rightarrow> nat \<Rightarrow> nat" where
  "auto_endianess native fs_endian sz v =
     (if swap_endianess native fs_endian then swapByteOrder sz v else v)"

lemma bit_and_FF: "bit (x AND 0xFF) n \<longleftrightarrow> bit x n \<and> n < 8" for x :: nat
proof -
  have "x AND 0xFF = take_bit 8 x" by (simp add: take_bit_eq_mask mask_eq_exp_minus_1)
  then show ?thesis by (auto simp: bit_take_bit_iff)
qed

lemma bit_swapped_byte:
  "bit (swapped_byte sz v m) n \<longleftrightarrow> n div 8 = m \<and> bit v (8 * (sz - 1 - n div 8) + n mod 8)"
proof (cases "n div 8 = m")
  case True
  then have "8 * m \<le> n" "n - 8 * m = n mod 8" "n - 8 * m < 8"
    by (auto simp: minus_mult_div_eq_mod [symmetric])
  then show ?thesis
    using True by (simp only: swapped_byte_def bit_push_bit_iff bit_and_FF bit_drop_bit_eq o_def)
      (simp add: add.commute)
next
  case False
  then have "\<not> (8 * m \<le> n \<and> n - 8 * m < 8)" by auto
  then show ?thesis
    using False by (simp only: swapped_byte_def bit_push_bit_iff bit_and_FF) auto
qed

lemma bit_swap_loop:
  "m \<le> sz \<Longrightarrow> bit (foldl (\<lambda>swapped i. swapped OR swapped_byte sz v i) 0 [0..<m]) n
   \<longleftrightarrow> n < 8 * m \<and> bit v (8 * (sz - 1 - n div 8) + n mod 8)"
proof (induction m)
  case (Suc m)
  have "n < 8 * Suc m \<longleftrightarrow> n < 8 * m \<or> n div 8 = m" by auto
  then show ?case using Suc by (auto simp: bit_or_iff bit_swapped_byte)
qed simp

lemma bit_swapByteOrder:
  "bit (swapByteOrder sz v) n \<longleftrightarrow> n < 8 * sz \<and> bit v (8 * (sz - 1 - n div 8) + n mod 8)"
  by (simp only: swapByteOrder_def bit_swap_loop order_refl)

lemma nth_le_bytes: "i < n \<Longrightarrow> le_bytes n v ! i = of_nat (drop_bit (8 * i) v)"
proof (induction n arbitrary: v i)
  case (Suc n)
  show ?case
  proof (cases i)
    case (Suc j)
    then have "le_bytes (Suc n) v ! i = of_nat (drop_bit (8 * j) (v div 256))"
      using Suc.prems Suc.IH by simp
    also have "v div 256 = drop_bit 8 v" by (simp add: drop_bit_eq_div)
    also have "drop_bit (8 * j) (drop_bit 8 v) = drop_bit (8 * i) v"
      using Suc by (simp add: add.commute)
    finally show ?thesis .
  qed simp
qed simp

lemma bit_of_nat_byte: "j < 8 \<Longrightarrow> bit (of_nat x :: byte) j \<longleftrightarrow> bit x j"
  using bit_word_of_int_iff [of "int x" j, where 'a = 8] by (simp add: bit_of_nat_iff_bit)

text \<open>Swapping reverses the object representation.\<close>

lemma le_bytes_swapByteOrder: "le_bytes sz (swapByteOrder sz v) = rev (le_bytes sz v)"
proof (rule nth_equalityI)
  fix i assume "i < length (le_bytes sz (swapByteOrder sz v))"
  then have i: "i < sz" by simp
  show "le_bytes sz (swapByteOrder sz v) ! i = rev (le_bytes sz v) ! i"
  proof (rule bit_word_eqI)
    fix j assume "j < LENGTH(8)"
    then have j: "j < 8" by simp
    have "8 * i + j < 8 * sz" "(8 * i + j) div 8 = i" "(8 * i + j) mod 8 = j" using i j by auto
    then show "bit (le_bytes sz (swapByteOrder sz v) ! i) j \<longleftrightarrow> bit (rev (le_bytes sz v) ! i) j"
      using i j by (simp add: nth_le_bytes rev_nth bit_of_nat_byte bit_drop_bit_eq
        bit_swapByteOrder add.commute)
  qed
qed simp

lemma swapByteOrder_bound: "swapByteOrder sz v < 256 ^ sz"
proof -
  have "take_bit (8 * sz) (swapByteOrder sz v) = swapByteOrder sz v"
    by (rule bit_eqI) (auto simp: bit_take_bit_iff bit_swapByteOrder)
  then have "swapByteOrder sz v < 2 ^ (8 * sz)"
    by (metis take_bit_nat_less_exp)
  then show ?thesis by (simp add: power_mult)
qed

lemma swapByteOrder_eq: "swapByteOrder sz v = le_val (rev (le_bytes sz v))"
  by (metis le_bytes_swapByteOrder le_val_le_bytes mod_less swapByteOrder_bound)

section \<open>Writing and reading a scalar\<close>

definition put_scalar :: "endianness \<Rightarrow> endianness \<Rightarrow> nat \<Rightarrow> nat \<Rightarrow> byte list" where
  "put_scalar native fs_endian sz v = obj_bytes native sz (auto_endianess native fs_endian sz v)"

definition get_scalar :: "endianness \<Rightarrow> endianness \<Rightarrow> byte list \<Rightarrow> nat" where
  "get_scalar native fs_endian bs =
     auto_endianess native fs_endian (length bs) (obj_val native bs)"

lemma length_put_scalar [simp, len_simps]: "length (put_scalar n e sz v) = sz"
  by (simp add: put_scalar_def)

text \<open>The bytes in the page depend on the byte order of the file system only.\<close>

lemma put_scalar_native: "put_scalar n e sz v = obj_bytes e sz v"
  by (cases n; cases e)
    (simp_all add: put_scalar_def auto_endianess_def swap_endianess_def obj_bytes_def
      le_bytes_swapByteOrder)

lemma get_scalar_native: "get_scalar n e bs = obj_val e bs"
proof -
  have "swapByteOrder (length xs) (le_val xs) = le_val (rev xs)" for xs
    by (simp add: swapByteOrder_eq le_bytes_le_val)
  from this [of bs] this [of "rev bs"] show ?thesis
    by (cases n; cases e) (simp_all add: get_scalar_def auto_endianess_def swap_endianess_def obj_val_def)
qed

lemma obj_val_obj_bytes: "obj_val e (obj_bytes e sz v) = v mod 256 ^ sz"
  by (cases e) (simp_all add: obj_val_def obj_bytes_def le_val_le_bytes)

lemma get_put_scalar: "v < 256 ^ sz \<Longrightarrow> get_scalar n e (put_scalar n' e sz v) = v"
  by (simp add: put_scalar_native get_scalar_native obj_val_obj_bytes)

lemma get_scalar_bound: "get_scalar n e bs < 256 ^ length bs"
  using le_val_bound [of bs] le_val_bound [of "rev bs"]
  by (cases e) (simp_all add: get_scalar_native obj_val_def)

lemma put_get_scalar: "put_scalar n e (length bs) (get_scalar n' e bs) = bs"
  using le_bytes_le_val [of bs] le_bytes_le_val [of "rev bs"]
  by (cases e) (simp_all add: put_scalar_native get_scalar_native obj_val_def obj_bytes_def)

text \<open>
  Swapping the byte order twice gives the value back, for every width; a scalar written
  into a page on a machine of one byte order and read on a machine of the other comes back
  unchanged, and the bytes in the page are the same on both.
\<close>

theorem scalar_portable:
  assumes "v < 256 ^ sz"
  shows "swapByteOrder sz (swapByteOrder sz v) = v
    \<and> get_scalar n' e (put_scalar n e sz v) = v
    \<and> put_scalar n e sz v = put_scalar n' e sz v"
proof -
  have "swapByteOrder sz (swapByteOrder sz v) = le_val (le_bytes sz v)"
    by (simp add: swapByteOrder_eq [of sz "swapByteOrder sz v"] le_bytes_swapByteOrder)
  then show ?thesis
    using assms get_put_scalar [OF assms] by (simp add: le_val_le_bytes put_scalar_native)
qed

theorem scalar_portable_witness:
  "swapByteOrder 4 (swapByteOrder 4 0x12345678) = 0x12345678
   \<and> get_scalar BE LE (put_scalar LE LE 4 0x12345678) = 0x12345678"
proof -
  have "(0x12345678 :: nat) < 256 ^ 4" by simp
  from scalar_portable [OF this, of BE LE LE] show ?thesis by blast
qed

end
