(* ===== verification/FlashMemory.thy ===== *)
theory FlashMemory
  imports Prelude
begin

text \<open>
  The flash under the file system. \<open>src/SimpleFlashFsFlashMemoryInterface.h\<close> is an abstract
  class: a record of its member functions, over whatever state the implementation keeps. The
  two implementations of the repository follow: \<open>src/sim_pc/SimFlashMemoryPc.cc\<close>, a file
  behind a \<open>std::fstream\<close> (its position and its fail bit included), and
  \<open>src/sim_pc/SimSTM32InternalFlashPc.cc\<close>, the simulated internal flash that refuses to write
  a byte twice without an erase in between. The locale \<open>flash_memory\<close> is the contract that
  the file system relies on; both implementations are interpretations of it.
\<close>

section \<open>The interface\<close>

record 'm flash_ops =
  mem_size :: "'m \<Rightarrow> nat"
  mem_write :: "'m \<Rightarrow> nat \<Rightarrow> byte list \<Rightarrow> (nat \<times> 'm) res"
  mem_read :: "'m \<Rightarrow> nat \<Rightarrow> nat \<Rightarrow> (nat \<times> byte list \<times> 'm) res"
  mem_erase :: "'m \<Rightarrow> nat \<Rightarrow> nat \<Rightarrow> 'm res"
  mem_can_map_read :: "'m \<Rightarrow> bool"
  mem_map_read :: "'m \<Rightarrow> nat \<Rightarrow> nat \<Rightarrow> byte list option res"

text \<open>
  \<open>mem_read m a n\<close> returns the result of the call, the bytes it stored at the start of the
  caller's buffer, and the new state. \<open>mem_map_read\<close> returns the bytes behind the pointer, or
  \<open>None\<close> for the null pointer. The interface's defaults for the last two:
\<close>

definition default_can_map_read :: "'m \<Rightarrow> bool" where
  "default_can_map_read m = False"

definition default_map_read :: "'m \<Rightarrow> nat \<Rightarrow> nat \<Rightarrow> byte list option res" where
  "default_map_read m address sz = Inr None"

section \<open>A file as flash\<close>

record sim_flash =
  sf_bytes :: "byte list"
  sf_pos :: nat
  sf_fail :: bool
  sf_size :: nat

text \<open>
  The \<open>std::fstream\<close> operations used. A stream whose fail bit is set ignores \<open>seekg\<close> and
  \<open>write\<close>; a \<open>read\<close> that reaches the end of the file sets it, and then \<open>tellg\<close> is \<open>-1\<close>.
\<close>

definition stream_seekg :: "sim_flash \<Rightarrow> nat \<Rightarrow> sim_flash" where
  "stream_seekg f address = (if sf_fail f then f else f\<lparr>sf_pos := address\<rparr>)"

definition stream_clear :: "sim_flash \<Rightarrow> sim_flash" where
  "stream_clear f = f\<lparr>sf_fail := False\<rparr>"

definition stream_write :: "sim_flash \<Rightarrow> byte list \<Rightarrow> sim_flash" where
  "stream_write f d =
     (if sf_fail f then f
      else let bs = sf_bytes f @ replicate (sf_pos f + length d - length (sf_bytes f)) 0
           in f\<lparr>sf_bytes := overlay bs (sf_pos f) d, sf_pos := sf_pos f + length d\<rparr>)"

definition stream_read :: "sim_flash \<Rightarrow> nat \<Rightarrow> byte list \<times> sim_flash" where
  "stream_read f n =
     (if sf_fail f then ([], f)
      else if sf_pos f + n \<le> length (sf_bytes f)
      then (slice (sf_pos f) n (sf_bytes f), f\<lparr>sf_pos := sf_pos f + n\<rparr>)
      else (drop (sf_pos f) (sf_bytes f),
            f\<lparr>sf_pos := max (sf_pos f) (length (sf_bytes f)), sf_fail := True\<rparr>))"

definition stream_tellg :: "sim_flash \<Rightarrow> int" where
  "stream_tellg f = (if sf_fail f then -1 else int (sf_pos f))"

definition SimFlash_create :: "byte list \<Rightarrow> nat \<Rightarrow> sim_flash" where
  "SimFlash_create existing sz =
     \<lparr>sf_bytes = take sz existing @ replicate (sz - length existing) 0,
      sf_pos = 0, sf_fail = False, sf_size = sz\<rparr>"

definition SimFlash_open :: "byte list \<Rightarrow> sim_flash" where
  "SimFlash_open existing =
     \<lparr>sf_bytes = existing, sf_pos = 0, sf_fail = False, sf_size = length existing\<rparr>"

definition SimFlash_write :: "sim_flash \<Rightarrow> nat \<Rightarrow> byte list \<Rightarrow> (nat \<times> sim_flash) res" where
  "SimFlash_write f address d = Inr (length d, stream_write (stream_seekg f address) d)"

definition SimFlash_read :: "sim_flash \<Rightarrow> nat \<Rightarrow> nat \<Rightarrow> (nat \<times> byte list \<times> sim_flash) res" where
  "SimFlash_read f address sz =
     (let (d, f') = stream_read (stream_clear (stream_seekg f address)) sz
      in Inr (nat ((stream_tellg f' - int address) mod 2 ^ 64), d, f'))"

text \<open>For \<open>size = 0\<close> the source takes the address of the first element of an empty vector.\<close>

definition SimFlash_erase :: "sim_flash \<Rightarrow> nat \<Rightarrow> nat \<Rightarrow> sim_flash res" where
  "SimFlash_erase f address sz =
     (if sz = 0 then Inl Undefined
      else Inr (stream_write (stream_seekg f address) (replicate sz 0xFF)))"

definition sim_ops :: "sim_flash flash_ops" where
  "sim_ops = \<lparr>mem_size = sf_size, mem_write = SimFlash_write, mem_read = SimFlash_read,
     mem_erase = SimFlash_erase, mem_can_map_read = default_can_map_read,
     mem_map_read = default_map_read\<rparr>"

section \<open>The internal flash of an STM32\<close>

record stm32_flash =
  st_file :: sim_flash
  st_mem :: "byte list"
  st_written :: "byte list"
  st_do_mem_mapping :: bool
  st_PAGE_SIZE :: nat

definition STM32_init :: "stm32_flash \<Rightarrow> stm32_flash" where
  "STM32_init s =
     (let n = sf_size (st_file s); (d, f) = stream_read (st_file s) n
      in s\<lparr>st_file := f,
           st_mem := overlay (replicate n 0) 0 d,
           st_written := replicate n 0\<rparr>)"

definition STM32_open :: "sim_flash \<Rightarrow> nat \<Rightarrow> bool \<Rightarrow> stm32_flash" where
  "STM32_open file PAGE_SIZE do_mem_mapping =
     STM32_init \<lparr>st_file = file, st_mem = [], st_written = [],
       st_do_mem_mapping = do_mem_mapping, st_PAGE_SIZE = PAGE_SIZE\<rparr>"

definition STM32_write :: "stm32_flash \<Rightarrow> nat \<Rightarrow> byte list \<Rightarrow> (nat \<times> stm32_flash) res" where
  "STM32_write s address d =
     (if address \<ge> length (st_mem s) then Inl Flash_fault
      else if add64 address (length d) > length (st_mem s) then Inl Flash_fault
      else if \<exists>i \<in> set [0..<length d]. st_written s ! (address + i) \<noteq> 0 then Inl Flash_fault
      else bindE (SimFlash_write (st_file s) address d) (\<lambda>(n, f).
        Inr (n, s\<lparr>st_file := f,
                  st_mem := overlay (st_mem s) address d,
                  st_written := overlay (st_written s) address (replicate (length d) 0xFF)\<rparr>)))"

definition STM32_read :: "stm32_flash \<Rightarrow> nat \<Rightarrow> nat \<Rightarrow> (nat \<times> byte list \<times> stm32_flash) res" where
  "STM32_read s address sz =
     (if address \<ge> length (st_mem s) then Inl Out_of_range
      else bindE (memcpy_from (st_mem s) address sz) (\<lambda>d. Inr (sz, d, s)))"

definition STM32_erase :: "stm32_flash \<Rightarrow> nat \<Rightarrow> nat \<Rightarrow> stm32_flash res" where
  "STM32_erase s address sz =
     (if address \<ge> length (st_mem s) then Inl Out_of_range
      else bindE (memcpy_to (st_mem s) address (replicate sz 0xFF)) (\<lambda>m.
        if address \<ge> length (st_written s) then Inl Out_of_range
        else bindE (memcpy_to (st_written s) address (replicate sz 0)) (\<lambda>w.
          bindE (SimFlash_erase (st_file s) address sz) (\<lambda>f.
            Inr (s\<lparr>st_file := f, st_mem := m, st_written := w\<rparr>)))))"

definition STM32_map_read :: "stm32_flash \<Rightarrow> nat \<Rightarrow> nat \<Rightarrow> byte list option res" where
  "STM32_map_read s address sz =
     (if address \<ge> length (st_mem s) then Inl Out_of_range
      else bindE (memcpy_from (st_mem s) address sz) (\<lambda>d. Inr (Some d)))"

definition stm32_ops :: "stm32_flash flash_ops" where
  "stm32_ops = \<lparr>mem_size = (\<lambda>s. sf_size (st_file s)), mem_write = STM32_write,
     mem_read = STM32_read, mem_erase = STM32_erase,
     mem_can_map_read = st_do_mem_mapping, mem_map_read = STM32_map_read\<rparr>"

section \<open>The contract\<close>

text \<open>
  What a flash promises inside its size: reading returns the cells, writing to writable
  cells replaces them, erasing sets cells to \<open>0xFF\<close> and makes them writable again, and
  nothing else changes. \<open>ok\<close> is the invariant of the implementation, \<open>writable\<close> tells which
  cells may be programmed.
\<close>

locale flash_memory =
  fixes F :: "'m flash_ops" and ok :: "'m \<Rightarrow> bool"
    and cells :: "'m \<Rightarrow> byte list" and writable :: "'m \<Rightarrow> nat \<Rightarrow> bool"
  assumes size_ok: "ok m \<Longrightarrow> mem_size F m = length (cells m)"
    and size_bound: "ok m \<Longrightarrow> length (cells m) < 2 ^ 63"
    and read_ok: "ok m \<Longrightarrow> 0 < n \<Longrightarrow> a + n \<le> length (cells m) \<Longrightarrow>
      \<exists>m'. mem_read F m a n = Inr (n, slice a n (cells m), m') \<and> ok m' \<and> cells m' = cells m
        \<and> writable m' = writable m \<and> mem_can_map_read F m' = mem_can_map_read F m"
    and write_ok: "ok m \<Longrightarrow> 0 < length d \<Longrightarrow> a + length d \<le> length (cells m) \<Longrightarrow>
      \<forall>i. a \<le> i \<and> i < a + length d \<longrightarrow> writable m i \<Longrightarrow>
      \<exists>m'. mem_write F m a d = Inr (length d, m') \<and> ok m' \<and> cells m' = overlay (cells m) a d
        \<and> (\<forall>i. \<not> (a \<le> i \<and> i < a + length d) \<longrightarrow> writable m' i = writable m i)
        \<and> mem_can_map_read F m' = mem_can_map_read F m"
    and erase_ok: "ok m \<Longrightarrow> 0 < n \<Longrightarrow> a + n \<le> length (cells m) \<Longrightarrow>
      \<exists>m'. mem_erase F m a n = Inr m' \<and> ok m' \<and> cells m' = overlay (cells m) a (replicate n 0xFF)
        \<and> (\<forall>i. writable m' i \<longleftrightarrow> a \<le> i \<and> i < a + n \<or> writable m i)
        \<and> mem_can_map_read F m' = mem_can_map_read F m"
    and map_ok: "ok m \<Longrightarrow> mem_can_map_read F m \<Longrightarrow> 0 < n \<Longrightarrow> a + n \<le> length (cells m) \<Longrightarrow>
      mem_map_read F m a n = Inr (Some (slice a n (cells m)))"
begin

text \<open>What was written is read back, and any disjoint range is read as before.\<close>

lemma read_after_write:
  assumes "ok m" "0 < length d" "a + length d \<le> length (cells m)"
    "\<forall>i. a \<le> i \<and> i < a + length d \<longrightarrow> writable m i"
    "0 < n" "b + n \<le> length (cells m)"
  shows "\<exists>m1 m2 m3. mem_write F m a d = Inr (length d, m1)
    \<and> mem_read F m1 a (length d) = Inr (length d, d, m2)
    \<and> (b + n \<le> a \<or> a + length d \<le> b \<longrightarrow> mem_read F m2 b n = Inr (n, slice b n (cells m), m3))"
proof -
  from write_ok [OF assms(1-4)] obtain m1 where m1: "mem_write F m a d = Inr (length d, m1)"
    "ok m1" "cells m1 = overlay (cells m) a d" by blast
  have len: "length (cells m1) = length (cells m)" using m1(3) assms(3) by simp
  from read_ok [OF m1(2) assms(2), of a] len assms(3) m1(3) obtain m2 where
    m2: "mem_read F m1 a (length d) = Inr (length d, d, m2)" "ok m2" "cells m2 = cells m1"
    by auto
  from read_ok [OF m2(2) assms(5), of b] m2(3) len assms(6) obtain m3 where
    m3: "mem_read F m2 b n = Inr (n, slice b n (cells m1), m3)" by auto
  have "b + n \<le> a \<or> a + length d \<le> b \<longrightarrow> slice b n (cells m1) = slice b n (cells m)"
    using slice_overlay_disjoint [OF assms(3,6)] m1(3) by simp
  with m1(1) m2(1) m3 show ?thesis by metis
qed

end

section \<open>The file implements the contract\<close>

definition sim_ok :: "sim_flash \<Rightarrow> bool" where
  "sim_ok f \<longleftrightarrow> \<not> sf_fail f \<and> sf_size f = length (sf_bytes f) \<and> length (sf_bytes f) < 2 ^ 63"

lemma stream_write_in:
  assumes "\<not> sf_fail f" "a + length d \<le> length (sf_bytes f)"
  shows "stream_write (stream_seekg f a) d =
    f\<lparr>sf_bytes := overlay (sf_bytes f) a d, sf_pos := a + length d\<rparr>"
  using assms by (simp add: stream_write_def stream_seekg_def Let_def)

lemma SimFlash_read_in:
  assumes "sim_ok f" "a + n \<le> length (sf_bytes f)"
  shows "SimFlash_read f a n = Inr (n, slice a n (sf_bytes f), f\<lparr>sf_pos := a + n, sf_fail := False\<rparr>)"
proof -
  have "n < 2 ^ 64" using assms by (simp add: sim_ok_def)
  then have "nat (int n mod 2 ^ 64) = n"
    by (metis int_nat_eq mod_pos_pos_trivial nat_int of_nat_0_le_iff of_nat_less_numeral_power_cancel_iff)
  then show ?thesis
    using assms by (simp add: SimFlash_read_def stream_read_def stream_seekg_def stream_clear_def
      stream_tellg_def sim_ok_def)
qed

interpretation sim: flash_memory sim_ops sim_ok sf_bytes "\<lambda>_ _. True"
proof
  fix m :: sim_flash and a n :: nat
  assume ok: "sim_ok m"
  show "mem_size sim_ops m = length (sf_bytes m)" "length (sf_bytes m) < 2 ^ 63"
    using ok by (simp_all add: sim_ops_def sim_ok_def)
  show "mem_map_read sim_ops m a n = Inr (Some (slice a n (sf_bytes m)))"
    if "mem_can_map_read sim_ops m"
    using that by (simp add: sim_ops_def default_can_map_read_def)
  assume le: "a + n \<le> length (sf_bytes m)"
  show "\<exists>m'. mem_read sim_ops m a n = Inr (n, slice a n (sf_bytes m), m') \<and> sim_ok m' \<and>
      sf_bytes m' = sf_bytes m \<and> (\<lambda>_. True) = (\<lambda>_. True) \<and>
      mem_can_map_read sim_ops m' = mem_can_map_read sim_ops m"
    using SimFlash_read_in [OF ok le] ok
    by (simp add: sim_ops_def sim_ok_def default_can_map_read_def)
  assume "0 < n"
  then show "\<exists>m'. mem_erase sim_ops m a n = Inr m' \<and> sim_ok m' \<and>
      sf_bytes m' = overlay (sf_bytes m) a (replicate n 0xFF) \<and>
      (\<forall>i. True \<longleftrightarrow> a \<le> i \<and> i < a + n \<or> True) \<and>
      mem_can_map_read sim_ops m' = mem_can_map_read sim_ops m"
    using stream_write_in [of m a "replicate n 0xFF"] le ok
    by (simp add: sim_ops_def SimFlash_erase_def sim_ok_def default_can_map_read_def)
next
  fix m :: sim_flash and a :: nat and d :: "byte list"
  assume "sim_ok m" "a + length d \<le> length (sf_bytes m)"
  then show "\<exists>m'. mem_write sim_ops m a d = Inr (length d, m') \<and> sim_ok m' \<and>
      sf_bytes m' = overlay (sf_bytes m) a d \<and>
      (\<forall>i. \<not> (a \<le> i \<and> i < a + length d) \<longrightarrow> True = True) \<and>
      mem_can_map_read sim_ops m' = mem_can_map_read sim_ops m"
    using stream_write_in [of m a d]
    by (simp add: sim_ops_def SimFlash_write_def sim_ok_def default_can_map_read_def)
qed

section \<open>The internal flash implements the contract\<close>

text \<open>The invariant: the memory image and the file behind it agree.\<close>

definition stm32_ok :: "stm32_flash \<Rightarrow> bool" where
  "stm32_ok s \<longleftrightarrow> sim_ok (st_file s) \<and> st_mem s = sf_bytes (st_file s)
     \<and> length (st_written s) = length (st_mem s)"

definition stm32_writable :: "stm32_flash \<Rightarrow> nat \<Rightarrow> bool" where
  "stm32_writable s i \<longleftrightarrow> i < length (st_written s) \<and> st_written s ! i = 0"

lemma nth_overlay_replicate:
  "a + n \<le> length w \<Longrightarrow> i < length w \<Longrightarrow>
   overlay w a (replicate n c) ! i = (if a \<le> i \<and> i < a + n then c else w ! i)"
  by (subst nth_overlay) auto

lemma STM32_write_ok:
  assumes "stm32_ok s" "a + length d \<le> length (st_mem s)" "0 < length d"
    "\<forall>i. a \<le> i \<and> i < a + length d \<longrightarrow> stm32_writable s i"
  shows "STM32_write s a d = Inr (length d,
    s\<lparr>st_file := (st_file s)\<lparr>sf_bytes := overlay (sf_bytes (st_file s)) a d, sf_pos := a + length d\<rparr>,
      st_mem := overlay (st_mem s) a d,
      st_written := overlay (st_written s) a (replicate (length d) 0xFF)\<rparr>)"
proof -
  have "a + length d < 2 ^ 64" using assms(1,2) by (simp add: stm32_ok_def sim_ok_def)
  then have "add64 a (length d) = a + length d" by (rule add64_small)
  moreover have "\<forall>i < length d. st_written s ! (a + i) = 0"
    using assms(4) by (auto simp: stm32_writable_def)
  moreover have "(length (sf_bytes (st_file s)) \<le> a) = False"
    using assms(1-3) by (simp add: stm32_ok_def del: length_greater_0_conv)
  ultimately show ?thesis
    using assms(1-3) stream_write_in [of "st_file s" a d]
    by (auto simp: STM32_write_def SimFlash_write_def stm32_ok_def sim_ok_def)
qed

lemma STM32_erase_ok:
  assumes "stm32_ok s" "a + n \<le> length (st_mem s)" "0 < n"
  shows "STM32_erase s a n = Inr
    (s\<lparr>st_file := (st_file s)\<lparr>sf_bytes := overlay (sf_bytes (st_file s)) a (replicate n 0xFF), sf_pos := a + n\<rparr>,
      st_mem := overlay (st_mem s) a (replicate n 0xFF),
      st_written := overlay (st_written s) a (replicate n 0)\<rparr>)"
  using assms stream_write_in [of "st_file s" a "replicate n 0xFF"]
  by (simp add: STM32_erase_def SimFlash_erase_def stm32_ok_def sim_ok_def memcpy_to_ok)

interpretation stm32: flash_memory stm32_ops stm32_ok st_mem stm32_writable
proof
  fix m :: stm32_flash and a n :: nat
  assume ok: "stm32_ok m"
  show "mem_size stm32_ops m = length (st_mem m)" "length (st_mem m) < 2 ^ 63"
    using ok by (simp_all add: stm32_ops_def stm32_ok_def sim_ok_def)
  assume n: "0 < n" and le: "a + n \<le> length (st_mem m)"
  show "mem_map_read stm32_ops m a n = Inr (Some (slice a n (st_mem m)))"
    using n le by (simp add: stm32_ops_def STM32_map_read_def memcpy_from_ok)
  show "\<exists>m'. mem_read stm32_ops m a n = Inr (n, slice a n (st_mem m), m') \<and> stm32_ok m' \<and>
      st_mem m' = st_mem m \<and> stm32_writable m' = stm32_writable m \<and>
      mem_can_map_read stm32_ops m' = mem_can_map_read stm32_ops m"
    using n le ok by (simp add: stm32_ops_def STM32_read_def memcpy_from_ok)
  let ?f = "(st_file m)\<lparr>sf_bytes := overlay (sf_bytes (st_file m)) a (replicate n 0xFF), sf_pos := a + n\<rparr>"
  let ?m = "m\<lparr>st_file := ?f, st_mem := overlay (st_mem m) a (replicate n 0xFF),
      st_written := overlay (st_written m) a (replicate n 0)\<rparr>"
  have "stm32_ok ?m" using ok le by (simp add: stm32_ok_def sim_ok_def)
  moreover have "stm32_writable ?m i \<longleftrightarrow> a \<le> i \<and> i < a + n \<or> stm32_writable m i" for i
    using ok le by (cases "a \<le> i \<and> i < a + n")
      (auto simp: stm32_writable_def stm32_ok_def nth_overlay_replicate)
  ultimately show "\<exists>m'. mem_erase stm32_ops m a n = Inr m' \<and> stm32_ok m' \<and>
      st_mem m' = overlay (st_mem m) a (replicate n 0xFF) \<and>
      (\<forall>i. stm32_writable m' i \<longleftrightarrow> a \<le> i \<and> i < a + n \<or> stm32_writable m i) \<and>
      mem_can_map_read stm32_ops m' = mem_can_map_read stm32_ops m"
    using STM32_erase_ok [OF ok le n] by (auto simp: stm32_ops_def)
next
  fix m :: stm32_flash and a :: nat and d :: "byte list"
  assume ok: "stm32_ok m" and d: "0 < length d" and le: "a + length d \<le> length (st_mem m)"
    and w: "\<forall>i. a \<le> i \<and> i < a + length d \<longrightarrow> stm32_writable m i"
  let ?f = "(st_file m)\<lparr>sf_bytes := overlay (sf_bytes (st_file m)) a d, sf_pos := a + length d\<rparr>"
  let ?m = "m\<lparr>st_file := ?f, st_mem := overlay (st_mem m) a d,
      st_written := overlay (st_written m) a (replicate (length d) 0xFF)\<rparr>"
  have "stm32_ok ?m" using ok le by (simp add: stm32_ok_def sim_ok_def)
  moreover have "stm32_writable ?m i = stm32_writable m i" if "\<not> (a \<le> i \<and> i < a + length d)" for i
    using ok le that by (auto simp: stm32_writable_def stm32_ok_def nth_overlay_replicate)
  ultimately show "\<exists>m'. mem_write stm32_ops m a d = Inr (length d, m') \<and> stm32_ok m' \<and>
      st_mem m' = overlay (st_mem m) a d \<and>
      (\<forall>i. \<not> (a \<le> i \<and> i < a + length d) \<longrightarrow> stm32_writable m' i = stm32_writable m i) \<and>
      mem_can_map_read stm32_ops m' = mem_can_map_read stm32_ops m"
    using STM32_write_ok [OF ok le d w] by (auto simp: stm32_ops_def)
qed

text \<open>
  The simulated internal flash accepts a write exactly when it lies inside the memory and
  every byte has been erased since it was last written; what it then stores is read back, the
  file behind it holds the same bytes, and the same range cannot be written again.
\<close>

theorem STM32_write_once:
  assumes "stm32_ok s" "0 < length d" "a + length d < 2 ^ 64"
  shows "((\<exists>r. STM32_write s a d = Inr r) \<longleftrightarrow>
      a + length d \<le> length (st_mem s) \<and> (\<forall>i. a \<le> i \<and> i < a + length d \<longrightarrow> stm32_writable s i))
    \<and> (\<forall>n s'. STM32_write s a d = Inr (n, s') \<longrightarrow>
      n = length d \<and> stm32_ok s' \<and> st_mem s' = overlay (st_mem s) a d
      \<and> sf_bytes (st_file s') = st_mem s'
      \<and> STM32_read s' a (length d) = Inr (length d, d, s')
      \<and> STM32_write s' a d = Inl Flash_fault)"
proof (intro conjI [rotated] allI impI)
  let ?range = "a + length d \<le> length (st_mem s)"
  let ?erased = "\<forall>i. a \<le> i \<and> i < a + length d \<longrightarrow> stm32_writable s i"
  have w64: "add64 a (length d) = a + length d" using assms(3) by (rule add64_small)
  have char: "?range \<and> ?erased" if w: "STM32_write s a d = Inr r" for r
  proof (intro conjI allI impI)
    from w show r: ?range using w64 by (simp add: STM32_write_def split: if_splits)
    from w have z: "\<forall>i < length d. st_written s ! (a + i) = 0"
      by (auto simp: STM32_write_def split: if_splits)
    fix i assume "a \<le> i \<and> i < a + length d"
    then show "stm32_writable s i"
      using r assms(1) z [rule_format, of "i - a"] by (auto simp: stm32_writable_def stm32_ok_def)
  qed
  then show "(\<exists>r. STM32_write s a d = Inr r) \<longleftrightarrow> ?range \<and> ?erased"
    using STM32_write_ok [OF assms(1) _ assms(2)] by blast
  fix n s' assume wr: "STM32_write s a d = Inr (n, s')"
  from char [OF wr] have r: ?range and e: ?erased by blast+
  from STM32_write_ok [OF assms(1) r assms(2) e] wr have s': "n = length d"
    "s' = s\<lparr>st_file := (st_file s)\<lparr>sf_bytes := overlay (sf_bytes (st_file s)) a d, sf_pos := a + length d\<rparr>,
      st_mem := overlay (st_mem s) a d,
      st_written := overlay (st_written s) a (replicate (length d) 0xFF)\<rparr>" by simp_all
  show "n = length d" by (rule s'(1))
  show ok: "stm32_ok s'" using assms(1) r by (simp add: s' stm32_ok_def sim_ok_def)
  show "st_mem s' = overlay (st_mem s) a d" "sf_bytes (st_file s') = st_mem s'"
    using ok by (simp_all add: s' stm32_ok_def)
  have lt: "a < length (st_mem s)" using r assms(2) by linarith
  have "overlay (st_written s) a (replicate (length d) 0xFF) ! a = (0xFF :: byte)"
    using assms(1,2) r lt by (subst nth_overlay_replicate) (auto simp: stm32_ok_def)
  then have "st_written s' ! (a + 0) \<noteq> 0" by (simp add: s'(2))
  moreover have "0 \<in> set [0..<length d]" using assms(2) by simp
  ultimately have "\<exists>i \<in> set [0..<length d]. st_written s' ! (a + i) \<noteq> 0" by blast
  then show "STM32_write s' a d = Inl Flash_fault"
    by (simp only: STM32_write_def if_True) simp
  from lt show "STM32_read s' a (length d) = Inr (length d, d, s')"
    using r by (simp add: s'(2) STM32_read_def memcpy_from_ok)
qed

theorem STM32_write_once_witness:
  "\<exists>s'. STM32_write (STM32_open (SimFlash_create [] 8) 4 True) 2 [5, 6] = Inr (2, s')
     \<and> st_mem s' = [0, 0, 5, 6, 0, 0, 0, 0] \<and> STM32_write s' 2 [5, 6] = Inl Flash_fault"
proof -
  let ?s = "STM32_open (SimFlash_create [] 8) 4 True"
  have e: "STM32_open (SimFlash_create [] 8) 4 True =
      \<lparr>st_file = \<lparr>sf_bytes = replicate 8 0, sf_pos = 8, sf_fail = False, sf_size = 8\<rparr>,
       st_mem = replicate 8 0, st_written = replicate 8 0, st_do_mem_mapping = True, st_PAGE_SIZE = 4\<rparr>"
    by (simp add: STM32_open_def STM32_init_def SimFlash_create_def stream_read_def overlay_def slice_def)
  have ok: "stm32_ok ?s" by (simp add: e stm32_ok_def sim_ok_def)
  have h: "0 < length [5, 6 :: byte]" "2 + length [5, 6 :: byte] < 2 ^ 64" by simp_all
  have "2 + length [5, 6 :: byte] \<le> length (st_mem ?s)
      \<and> (\<forall>i. 2 \<le> i \<and> i < 2 + length [5, 6 :: byte] \<longrightarrow> stm32_writable ?s i)"
    by (auto simp: e stm32_writable_def)
  then obtain n s' where w: "STM32_write ?s 2 [5, 6] = Inr (n, s')"
    using STM32_write_once [OF ok h] by (metis surj_pair)
  have "overlay (st_mem ?s) 2 [5, 6] = [0, 0, 5, 6, 0, 0, 0, 0]"
  proof -
    have "overlay (replicate 8 0) 2 [5, 6 :: byte] = [0, 0, 5, 6, 0, 0, 0, 0]" by code_simp
    then show ?thesis by (simp only: e stm32_flash.simps)
  qed
  with STM32_write_once [OF ok h] w show ?thesis by auto
qed

text \<open>
  The file-backed flash: a write inside the file returns the number of bytes, reading the
  range returns them, and every range that does not overlap is read as before.
\<close>

theorem SimFlash_read_after_write:
  assumes "sim_ok f" "0 < length d" "a + length d \<le> length (sf_bytes f)"
    "0 < n" "b + n \<le> length (sf_bytes f)"
  shows "\<exists>f1 f2 f3. SimFlash_write f a d = Inr (length d, f1)
    \<and> SimFlash_read f1 a (length d) = Inr (length d, d, f2)
    \<and> (b + n \<le> a \<or> a + length d \<le> b \<longrightarrow> SimFlash_read f2 b n = Inr (n, slice b n (sf_bytes f), f3))"
  using sim.read_after_write [of f d a n b] assms by (simp add: sim_ops_def)

theorem SimFlash_read_after_write_witness:
  "\<exists>f1 f2 f3. SimFlash_write (SimFlash_open [1, 2, 3, 4]) 1 [9, 9] = Inr (2, f1)
    \<and> SimFlash_read f1 1 2 = Inr (2, [9, 9], f2) \<and> SimFlash_read f2 3 1 = Inr (1, [4], f3)"
proof -
  have "sim_ok (SimFlash_open [1, 2, 3, 4])" by (simp add: SimFlash_open_def sim_ok_def)
  from SimFlash_read_after_write [OF this, of "[9, 9]" 1 1 3] show ?thesis
    by (simp add: SimFlash_open_def slice_def numeral_2_eq_2)
qed

text \<open>
  A read that runs past the end of the file leaves the fail bit of the stream set, and
  from then on a write reports success without storing anything: \<open>write\<close> never clears the
  stream, and \<open>read\<close> seeks before it clears.
\<close>

theorem SimFlash_failed_read_blocks_writes:
  assumes "sim_ok f" "length (sf_bytes f) < a + n"
  shows "\<exists>k d' f'. SimFlash_read f a n = Inr (k, d', f')
    \<and> (\<forall>b d. SimFlash_write f' b d = Inr (length d, f') \<and> sf_bytes f' = sf_bytes f)
    \<and> (\<forall>b m. 0 < m \<longrightarrow> (\<exists>k' e g. SimFlash_read f' b m = Inr (k', e, g) \<and> e = [] \<and> sf_fail g))"
proof -
  have r: "SimFlash_read f a n = Inr (nat ((-1 - int a) mod 2 ^ 64), drop a (sf_bytes f),
      f\<lparr>sf_pos := max a (length (sf_bytes f)), sf_fail := True\<rparr>)"
    using assms by (simp add: SimFlash_read_def stream_read_def stream_seekg_def stream_clear_def
      stream_tellg_def sim_ok_def)
  show ?thesis
    by (intro exI conjI, rule r)
      (auto simp: SimFlash_write_def stream_write_def stream_seekg_def SimFlash_read_def
        stream_read_def stream_clear_def)
qed

theorem SimFlash_failed_read_blocks_writes_witness:
  "\<exists>k d' f'. SimFlash_read (SimFlash_open [1, 2, 3, 4]) 3 2 = Inr (k, d', f')
    \<and> SimFlash_write f' 0 [9] = Inr (1, f') \<and> sf_bytes f' = [1, 2, 3, 4]"
proof -
  have h: "sim_ok (SimFlash_open [1, 2, 3, 4])" "length (sf_bytes (SimFlash_open [1, 2, 3, 4])) < 3 + 2"
    by (simp_all add: SimFlash_open_def sim_ok_def)
  from SimFlash_failed_read_blocks_writes [OF h] obtain k d' f' where
    r: "SimFlash_read (SimFlash_open [1, 2, 3, 4]) 3 2 = Inr (k, d', f')"
    and w: "\<forall>b d. SimFlash_write f' b d = Inr (length d, f') \<and> sf_bytes f' = sf_bytes (SimFlash_open [1, 2, 3, 4])"
    by blast
  from w [rule_format, of 0 "[9]"] r show ?thesis
    by (intro exI [of _ k] exI [of _ d'] exI [of _ f']) (simp add: SimFlash_open_def)
qed

end
