(* ===== verification/FsTypes.thy ===== *)
theory FsTypes
  imports Prelude Endian PageSet FlashMemory
begin

text \<open>
  The data of \<open>src/base/SimpleFlashFsBase.h\<close>: the header of a file system, inodes, file
  handles, the table of inode versions and the state of a mounted file system. What the C++
  template takes from its \<open>Config\<close> argument, and the flash object behind the \<open>mem\<close> pointer,
  is the record \<open>config\<close> that every operation takes as its first argument.
\<close>

section \<open>The header\<close>

datatype crc_checksum = CRC32

record header =
  magic_string :: "byte list"
  fs_endianness :: endianness
  version :: nat
  page_size :: nat
  filesystem_size :: nat
  max_inodes :: nat
  max_path_len :: nat
  crc_checksum_type :: crc_checksum

text \<open>\<open>header_t h{}\<close>, and the constants of \<open>src/SimpleFlashFsConstants.cc\<close>.\<close>

definition default_header :: header where
  "default_header = \<lparr>magic_string = [], fs_endianness = LE, version = 0, page_size = 0,
     filesystem_size = 0, max_inodes = 0, max_path_len = 0, crc_checksum_type = CRC32\<rparr>"

definition bytes_of :: "string \<Rightarrow> byte list" where
  "bytes_of s = map of_char s"

definition MAGICK_STRING :: "byte list" where
  "MAGICK_STRING = bytes_of ''SimpleFlashFs''"

definition MAGICK_STRING_LEN :: nat where
  "MAGICK_STRING_LEN = 13"

definition ENDIANNESS_LE :: "byte list" where
  "ENDIANNESS_LE = bytes_of ''LE''"

definition ENDIANNESS_BE :: "byte list" where
  "ENDIANNESS_BE = bytes_of ''BE''"

definition ENDIANNESS_LEN :: nat where
  "ENDIANNESS_LEN = 2"

definition MIN_PAGE_SIZE :: nat where
  "MIN_PAGE_SIZE = 37"

section \<open>Inodes and file handles\<close>

datatype page_state = New | Stored | Deleted

record data_page =
  page_id :: nat
  dp_state :: page_state

record inode =
  inode_number :: nat
  inode_version_number :: nat
  file_name_len :: nat
  file_name :: "byte list"
  attributes :: nat
  file_len :: nat
  pages :: nat
  data_pages :: "data_page list"
  inode_data :: "byte list"

definition default_inode :: inode where
  "default_inode = \<lparr>inode_number = 0, inode_version_number = 0, file_name_len = 0,
     file_name = [], attributes = 0, file_len = 0, pages = 0, data_pages = [], inode_data = []\<rparr>"

definition count_valid_data_pages :: "inode \<Rightarrow> nat" where
  "count_valid_data_pages i = length (filter (\<lambda>p. dp_state p \<noteq> Deleted) (data_pages i))"

text \<open>
  \<open>FileHandle\<close>: \<open>connected\<close> tells whether its \<open>fs\<close> pointer is set. The two ways to construct
  one: \<open>FileHandle{}\<close> and \<open>FileHandle(this)\<close>.
\<close>

record file_handle =
  fh_inode :: inode
  fh_page :: nat
  fh_pos :: nat
  modified :: bool
  append_mode :: bool
  connected :: bool

definition empty_handle :: file_handle where
  "empty_handle = \<lparr>fh_inode = default_inode, fh_page = 0, fh_pos = 0, modified = False,
     append_mode = False, connected = False\<rparr>"

definition new_handle :: file_handle where
  "new_handle = empty_handle\<lparr>connected := True\<rparr>"

section \<open>The range of inode pages\<close>

text \<open>\<open>DefaultHeaderInodeRange\<close>; the counter is a \<open>uint32_t\<close>.\<close>

record inode_range =
  m_max :: nat
  m_current :: nat

definition DefaultHeaderInodeRange :: "header \<Rightarrow> inode_range" where
  "DefaultHeaderInodeRange h = \<lparr>m_max = max_inodes h, m_current = 0\<rparr>"

definition range_reset :: "inode_range \<Rightarrow> inode_range" where
  "range_reset r = r\<lparr>m_current := 0\<rparr>"

definition range_has_next :: "inode_range \<Rightarrow> bool" where
  "range_has_next r = (m_current r < m_max r)"

definition range_next :: "inode_range \<Rightarrow> nat \<times> inode_range" where
  "range_next r = (m_current r, r\<lparr>m_current := add32 (m_current r) 1\<rparr>)"

definition range_start :: "inode_range \<Rightarrow> nat \<times> inode_range" where
  "range_start r = range_next (range_reset r)"

section \<open>The mounted file system\<close>

record inode_version =
  iv_inode :: nat
  iv_page :: nat
  iv_version :: nat

record 'm fs =
  header :: header
  mem :: 'm
  allocated_unwritten_pages :: page_set
  free_data_pages :: page_set
  max_inode_number :: nat
  iv_storage :: "inode_version list"
  header_inode_range :: inode_range

text \<open>
  \<open>PAGE_SIZE\<close> is \<open>Config::PAGE_SIZE\<close> (0: no limit), \<open>crc32\<close> is \<open>Config::crc32\<close>,
  \<open>native\<close> the byte order of the machine, \<open>flash\<close> the member functions of the flash object and
  \<open>keeps_old_pages\<close> tells that the class overrides \<open>erase_inode_and_unused_pages\<close> with a
  function that does nothing, as \<open>SimpleFsNoDel\<close> and \<open>SimpleFlashFsReadOnly\<close> do.
\<close>

record 'm config =
  PAGE_SIZE :: nat
  crc32 :: "byte list \<Rightarrow> 32 word"
  native :: endianness
  flash :: "'m flash_ops"
  keeps_old_pages :: bool

text \<open>\<open>SimpleFlashFsBase( mem_interface )\<close>.\<close>

definition SimpleFlashFsBase :: "'m \<Rightarrow> 'm fs" where
  "SimpleFlashFsBase m = \<lparr>header = default_header, mem = m,
     allocated_unwritten_pages = PageSet_empty_set, free_data_pages = PageSet_empty_set,
     max_inode_number = 0, iv_storage = [],
     header_inode_range = DefaultHeaderInodeRange default_header\<rparr>"

definition get_number_of_free_data_pages :: "'m fs \<Rightarrow> nat" where
  "get_number_of_free_data_pages s = PageSet_size_const (free_data_pages s)"

definition set_max_inode_number :: "'m fs \<Rightarrow> nat \<Rightarrow> 'm fs" where
  "set_max_inode_number s n = s\<lparr>max_inode_number := n\<rparr>"

text \<open>
  \<open>get_max_file_size\<close>: the second product is one of two \<open>uint32_t\<close>, the rest is 64 bits wide.
\<close>

definition get_max_file_size :: "'m fs \<Rightarrow> nat" where
  "get_max_file_size s =
     sub64 (mul64 (page_size (header s)) (sub64 (filesystem_size (header s)) 1))
           (mul32 (max_inodes (header s)) (page_size (header s)))"

section \<open>Two configurations\<close>

definition sim_config ::
  "nat \<Rightarrow> (byte list \<Rightarrow> 32 word) \<Rightarrow> endianness \<Rightarrow> bool \<Rightarrow> sim_flash config" where
  "sim_config P crc e keep = \<lparr>PAGE_SIZE = P, crc32 = crc, native = e, flash = sim_ops,
     keeps_old_pages = keep\<rparr>"

definition stm32_config ::
  "nat \<Rightarrow> (byte list \<Rightarrow> 32 word) \<Rightarrow> endianness \<Rightarrow> bool \<Rightarrow> stm32_flash config" where
  "stm32_config P crc e keep = \<lparr>PAGE_SIZE = P, crc32 = crc, native = e, flash = stm32_ops,
     keeps_old_pages = keep\<rparr>"

lemma sim_config_simps [simp]:
  "PAGE_SIZE (sim_config P crc e keep) = P" "crc32 (sim_config P crc e keep) = crc"
  "native (sim_config P crc e keep) = e" "flash (sim_config P crc e keep) = sim_ops"
  "keeps_old_pages (sim_config P crc e keep) = keep"
  by (simp_all add: sim_config_def)

lemma stm32_config_simps [simp]:
  "PAGE_SIZE (stm32_config P crc e keep) = P" "crc32 (stm32_config P crc e keep) = crc"
  "native (stm32_config P crc e keep) = e" "flash (stm32_config P crc e keep) = stm32_ops"
  "keeps_old_pages (stm32_config P crc e keep) = keep"
  by (simp_all add: stm32_config_def)

lemma length_magic [simp, len_simps]:
  "length MAGICK_STRING = 13" "length ENDIANNESS_LE = 2" "length ENDIANNESS_BE = 2"
  by (simp_all add: MAGICK_STRING_def ENDIANNESS_LE_def ENDIANNESS_BE_def bytes_of_def)

lemma endianness_bytes: "ENDIANNESS_LE = [76, 69]" "ENDIANNESS_BE = [66, 69]"
  by (simp_all add: ENDIANNESS_LE_def ENDIANNESS_BE_def bytes_of_def of_char_def)

lemma endianness_strings_distinct [simp]: "ENDIANNESS_LE \<noteq> ENDIANNESS_BE" "ENDIANNESS_BE \<noteq> ENDIANNESS_LE"
  by (simp_all add: endianness_bytes)

end
