(* ===== verification/Header.thy ===== *)
theory Header
  imports FsTypes
begin

text \<open>
  The header page and the page checksum (\<open>src/base/SimpleFlashFsBase.h\<close>:
  \<open>create_default_header\<close>, \<open>write\<close>, \<open>init\<close>, \<open>read_page\<close> and the checksum functions).
  Shown: what a new header looks like, that mounting a flash gives back the header that was
  written to it on whatever machine, and that \<open>init\<close> accepts exactly the pages that carry a
  valid header.
\<close>

section \<open>Fields of a page\<close>

text \<open>
  The lambdas \<open>add\<close>, \<open>write\<close> and \<open>read\<close> of the source copy one scalar and advance \<open>pos\<close>; the
  fields are given as their width and value.
\<close>

definition put_field :: "'m config \<Rightarrow> endianness \<Rightarrow> nat \<times> byte list \<Rightarrow> nat \<times> nat \<Rightarrow> (nat \<times> byte list) res" where
  "put_field c e st f = (case st of (pos, page) \<Rightarrow> case f of (sz, v) \<Rightarrow>
     bindE (memcpy_to page pos (put_scalar (native c) e sz v)) (\<lambda>page'. Inr (pos + sz, page')))"

fun put_fields :: "'m config \<Rightarrow> endianness \<Rightarrow> nat \<times> byte list \<Rightarrow> (nat \<times> nat) list \<Rightarrow> (nat \<times> byte list) res" where
  "put_fields c e st [] = Inr st"
| "put_fields c e st (f # fs) = bindE (put_field c e st f) (\<lambda>st'. put_fields c e st' fs)"

definition get_field :: "'m config \<Rightarrow> endianness \<Rightarrow> byte list \<Rightarrow> nat \<Rightarrow> nat \<Rightarrow> nat res" where
  "get_field c e page pos sz =
     bindE (memcpy_from page pos sz) (\<lambda>bs. Inr (get_scalar (native c) e bs))"

fun get_fields :: "'m config \<Rightarrow> endianness \<Rightarrow> byte list \<Rightarrow> nat \<Rightarrow> nat list \<Rightarrow> nat list res" where
  "get_fields c e page pos [] = Inr []"
| "get_fields c e page pos (sz # szs) =
     bindE (get_field c e page pos sz) (\<lambda>v.
     bindE (get_fields c e page (pos + sz) szs) (\<lambda>vs. Inr (v # vs)))"

text \<open>The bytes of a list of fields, and their number.\<close>

definition fields_bytes :: "'m config \<Rightarrow> endianness \<Rightarrow> (nat \<times> nat) list \<Rightarrow> byte list" where
  "fields_bytes c e fs = concat (map (\<lambda>(sz, v). put_scalar (native c) e sz v) fs)"

lemma fields_bytes_simps [simp]:
  "fields_bytes c e [] = []"
  "fields_bytes c e ((sz, v) # fs) = put_scalar (native c) e sz v @ fields_bytes c e fs"
  by (simp_all add: fields_bytes_def)

lemma length_fields_bytes [len_simps]: "length (fields_bytes c e fs) = sum_list (map fst fs)"
  by (induction fs) auto

lemma overlay_append:
  "a + length d + length d' \<le> length buf \<Longrightarrow>
   overlay (overlay buf a d) (a + length d) d' = overlay buf a (d @ d')"
  by (simp add: overlay_def ac_simps)

lemma put_fields_ok:
  assumes "pos + sum_list (map fst fs) \<le> length page"
  shows "put_fields c e (pos, page) fs =
    Inr (pos + sum_list (map fst fs), overlay page pos (fields_bytes c e fs))"
  using assms
proof (induction fs arbitrary: pos page)
  case (Cons f fs)
  obtain sz v where f: "f = (sz, v)" by fastforce
  let ?d = "put_scalar (native c) e sz v"
  have "pos + length ?d \<le> length page" using Cons.prems f by simp
  then have "put_field c e (pos, page) f = Inr (pos + sz, overlay page pos ?d)"
    by (simp add: put_field_def f memcpy_to_ok)
  moreover have "put_fields c e (pos + sz, overlay page pos ?d) fs =
      Inr (pos + sz + sum_list (map fst fs), overlay (overlay page pos ?d) (pos + sz) (fields_bytes c e fs))"
    using Cons.prems f by (intro Cons.IH) simp
  moreover have "overlay (overlay page pos ?d) (pos + sz) (fields_bytes c e fs) =
      overlay page pos (?d @ fields_bytes c e fs)"
    using overlay_append [of pos ?d "fields_bytes c e fs" page] Cons.prems f
    by (simp add: length_fields_bytes)
  ultimately show ?case by (simp add: f add.assoc)
qed simp

lemma put_fields_error:
  "length page < pos + sum_list (map fst fs) \<Longrightarrow> fs \<noteq> [] \<Longrightarrow>
   (\<forall>f \<in> set fs. 0 < fst f) \<Longrightarrow> put_fields c e (pos, page) fs = Inl Undefined"
proof (induction fs arbitrary: pos page)
  case (Cons f fs)
  obtain sz v where f: "f = (sz, v)" by fastforce
  show ?case
  proof (cases "pos + sz \<le> length page")
    case True
    then have "fs \<noteq> []" using Cons.prems f by auto
    with True Cons show ?thesis
      by (simp add: f put_field_def memcpy_to_def add.assoc)
  next
    case False
    then show ?thesis by (simp add: f put_field_def memcpy_to_def)
  qed
qed simp

text \<open>Reading the fields of a page whose bytes at \<open>pos\<close> are those of \<open>fs\<close>.\<close>

lemma slice_append_split:
  "slice a n buf = d @ d' \<Longrightarrow> a + n \<le> length buf \<Longrightarrow>
   slice a (length d) buf = d \<and> slice (a + length d) (length d') buf = d'"
proof -
  assume s: "slice a n buf = d @ d'" and len: "a + n \<le> length buf"
  then have n: "n = length d + length d'" by (metis length_append length_slice)
  have "take (length d) (slice a n buf) = d" "drop (length d) (slice a n buf) = d'" using s by auto
  then show ?thesis using n by (auto simp: slice_def drop_take add.commute)
qed

lemma get_fields_ok:
  assumes "slice pos (sum_list (map fst fs)) page = fields_bytes c' e fs"
    "pos + sum_list (map fst fs) \<le> length page" "\<forall>(sz, v) \<in> set fs. v < 256 ^ sz"
  shows "get_fields c e page pos (map fst fs) = Inr (map snd fs)"
  using assms
proof (induction fs arbitrary: pos)
  case (Cons f fs)
  obtain sz v where f: "f = (sz, v)" by fastforce
  from slice_append_split [OF Cons.prems(1) [unfolded f fields_bytes_simps]] Cons.prems(2) f
  have s: "slice pos sz page = put_scalar (native c') e sz v"
    "slice (pos + sz) (sum_list (map fst fs)) page = fields_bytes c' e fs"
    by (simp_all add: length_fields_bytes)
  have "get_field c e page pos sz = Inr v"
    using s(1) Cons.prems(2,3) f by (simp add: get_field_def memcpy_from_ok get_put_scalar)
  then show ?case using Cons.IH [OF s(2)] Cons.prems(2,3) f by simp
qed simp

section \<open>The default header\<close>

definition create_default_header :: "'m config \<Rightarrow> nat \<Rightarrow> nat \<Rightarrow> header" where
  "create_default_header c pgsize fssize =
     (let n = fssize div 10 * 2 mod 2 ^ 32;
          n = max n 10;
          n = if n > fssize then 2 else n
      in default_header\<lparr>magic_string := MAGICK_STRING, version := 1, page_size := pgsize,
           filesystem_size := fssize, max_inodes := n, max_path_len := 50,
           fs_endianness := (if native c = BE then BE else LE)\<rparr>)"

section \<open>Checksums\<close>

definition get_num_of_checksum_bytes :: "'m fs \<Rightarrow> nat" where
  "get_num_of_checksum_bytes s = (case crc_checksum_type (header s) of CRC32 \<Rightarrow> 4)"

definition get_checksum_size :: "'m fs \<Rightarrow> nat" where
  "get_checksum_size s = (case crc_checksum_type (header s) of CRC32 \<Rightarrow> 4)"

definition add_page_checksum :: "'m config \<Rightarrow> 'm fs \<Rightarrow> byte list \<Rightarrow> byte list res" where
  "add_page_checksum c s page = (case crc_checksum_type (header s) of CRC32 \<Rightarrow>
     bindE (requireE Undefined (4 \<le> length page)) (\<lambda>_.
     let chksum = unat (crc32 c (take (length page - 4) page))
     in memcpy_to page (length page - 4) (put_scalar (native c) (fs_endianness (header s)) 4 chksum)))"

definition calc_page_checksum :: "'m config \<Rightarrow> 'm fs \<Rightarrow> byte list \<Rightarrow> nat res" where
  "calc_page_checksum c s page = (case crc_checksum_type (header s) of CRC32 \<Rightarrow>
     bindE (requireE Undefined (4 \<le> length page)) (\<lambda>_.
     Inr (unat (crc32 c (take (length page - 4) page)))))"

definition get_page_checksum :: "'m config \<Rightarrow> 'm fs \<Rightarrow> byte list \<Rightarrow> nat res" where
  "get_page_checksum c s page = (case crc_checksum_type (header s) of CRC32 \<Rightarrow>
     bindE (requireE Undefined (4 \<le> length page)) (\<lambda>_.
     get_field c (fs_endianness (header s)) page (length page - 4) 4))"

section \<open>Reading a page\<close>

datatype read_error = ReadError | CrcError

text \<open>The check that follows a successful read.\<close>

definition check_page :: "'m config \<Rightarrow> 'm fs \<Rightarrow> byte list \<Rightarrow> bool \<Rightarrow> read_error option res" where
  "check_page c s page check_crc =
     (if check_crc
      then bindE (get_page_checksum c s page) (\<lambda>stored.
           bindE (calc_page_checksum c s page) (\<lambda>calc.
           Inr (if stored \<noteq> calc then Some CrcError else None)))
      else Inr None)"

text \<open>
  \<open>read_page\<close> returns the error, if there is one, the caller's buffer and the new state; the
  buffer may be half filled when the read failed. \<open>read_page_mapped\<close> returns the error and the
  data, which is present when only the checksum is wrong.
\<close>

definition read_page ::
  "'m config \<Rightarrow> 'm fs \<Rightarrow> nat \<Rightarrow> byte list \<Rightarrow> bool \<Rightarrow> (read_error option \<times> byte list \<times> 'm fs) res" where
  "read_page c s idx page check_crc =
     (let sz = length page;
          offset = add64 (page_size (header s)) (mul64 idx (page_size (header s)))
      in bindE (mem_read (flash c) (mem s) offset sz) (\<lambda>(len_read, d, m).
         bindE (memcpy_to page 0 d) (\<lambda>page'.
         if len_read \<noteq> sz then Inr (Some ReadError, page', s\<lparr>mem := m\<rparr>)
         else bindE (check_page c s page' check_crc) (\<lambda>err. Inr (err, page', s\<lparr>mem := m\<rparr>)))))"

definition read_page_mapped ::
  "'m config \<Rightarrow> 'm fs \<Rightarrow> nat \<Rightarrow> nat \<Rightarrow> bool \<Rightarrow> (read_error option \<times> byte list option) res" where
  "read_page_mapped c s idx sz check_crc =
     (let offset = add64 (page_size (header s)) (mul64 idx (page_size (header s)))
      in bindE (mem_map_read (flash c) (mem s) offset sz) (\<lambda>addr.
         case addr of
           None \<Rightarrow> Inr (Some ReadError, None)
         | Some data \<Rightarrow> bindE (check_page c s data check_crc) (\<lambda>err. Inr (err, Some data))))"

section \<open>Writing the header\<close>

text \<open>The fields \<open>write\<close> adds after the two strings, and the widths \<open>init\<close> reads.\<close>

definition header_fields :: "header \<Rightarrow> (nat \<times> nat) list" where
  "header_fields h = [(2, version h), (4, page_size h), (8, filesystem_size h),
     (4, max_inodes h), (2, max_path_len h), (2, case crc_checksum_type h of CRC32 \<Rightarrow> 0)]"

definition header_page :: "'m config \<Rightarrow> 'm fs \<Rightarrow> header \<Rightarrow> byte list res" where
  "header_page c s h =
     bindE (memcpy_to (replicate (page_size h) 0) 0 (magic_string h)) (\<lambda>page.
     bindE (memcpy_to page MAGICK_STRING_LEN
              (case fs_endianness h of LE \<Rightarrow> ENDIANNESS_LE | BE \<Rightarrow> ENDIANNESS_BE)) (\<lambda>page.
     bindE (put_fields c (fs_endianness (header s)) (MAGICK_STRING_LEN + 2, page) (header_fields h))
       (\<lambda>(pos, page). add_page_checksum c s page)))"

definition write_header :: "'m config \<Rightarrow> 'm fs \<Rightarrow> header \<Rightarrow> (bool \<times> 'm fs) res" where
  "write_header c s h =
     (let s = s\<lparr>header := h\<rparr>
      in bindE (header_page c s h) (\<lambda>page.
         bindE (mem_write (flash c) (mem s) 0 page) (\<lambda>(n, m).
         Inr (True, s\<lparr>mem := m\<rparr>))))"

section \<open>Mounting\<close>

text \<open>The two reads of \<open>init\<close> go straight to the flash and ignore how much was read.\<close>

definition read_flash_start :: "'m config \<Rightarrow> 'm fs \<Rightarrow> byte list \<Rightarrow> (byte list \<times> 'm fs) res" where
  "read_flash_start c s page =
     bindE (mem_read (flash c) (mem s) 0 (length page)) (\<lambda>(n, d, m).
     bindE (memcpy_to page 0 d) (\<lambda>page'. Inr (page', s\<lparr>mem := m\<rparr>)))"

text \<open>The part of \<open>init\<close> that follows the byte order mark.\<close>

definition init_fields :: "'m config \<Rightarrow> 'm fs \<Rightarrow> header \<Rightarrow> byte list \<Rightarrow> (bool \<times> 'm fs) res" where
  "init_fields c s h page =
     bindE (get_fields c (fs_endianness (header s)) page (MAGICK_STRING_LEN + ENDIANNESS_LEN)
              [2, 4, 8, 4, 2, 2]) (\<lambda>vs.
     let h = h\<lparr>version := vs ! 0, page_size := vs ! 1, filesystem_size := vs ! 2,
               max_inodes := vs ! 3, max_path_len := vs ! 4\<rparr>;
         chktype = vs ! 5
     in if chktype \<noteq> 0 then Inr (False, s)
        else let h = h\<lparr>crc_checksum_type := CRC32\<rparr>
        in if page_size h < MIN_PAGE_SIZE then Inr (False, s)
        else if PAGE_SIZE c > 0 \<and> page_size h > PAGE_SIZE c then Inr (False, s)
        else bindE (vec_resize page (page_size h)) (\<lambda>page.
             bindE (read_flash_start c s page) (\<lambda>(page, s).
             bindE (calc_page_checksum c s page) (\<lambda>chksum_calc.
             bindE (get_page_checksum c s page) (\<lambda>chksum_page.
             if chksum_calc \<noteq> chksum_page then Inr (False, s)
             else Inr (True, s\<lparr>header := h, header_inode_range := DefaultHeaderInodeRange h\<rparr>))))))"

definition init :: "'m config \<Rightarrow> 'm fs \<Rightarrow> (bool \<times> 'm fs) res" where
  "init c s =
     bindE (read_flash_start c s (replicate MIN_PAGE_SIZE 0)) (\<lambda>(page, s).
     let h = default_header\<lparr>magic_string := slice 0 MAGICK_STRING_LEN page\<rparr>
     in if magic_string h \<noteq> MAGICK_STRING then Inr (False, s)
        else let e = slice MAGICK_STRING_LEN ENDIANNESS_LEN page
        in if e = ENDIANNESS_BE
           then let h = h\<lparr>fs_endianness := BE\<rparr> in init_fields c (s\<lparr>header := h\<rparr>) h page
        else if e = ENDIANNESS_LE
           then let h = h\<lparr>fs_endianness := LE\<rparr> in init_fields c (s\<lparr>header := h\<rparr>) h page
        else Inr (False, s))"

section \<open>What the checksum functions compute\<close>

definition checksum_ok :: "'m config \<Rightarrow> endianness \<Rightarrow> byte list \<Rightarrow> bool" where
  "checksum_ok c e page \<longleftrightarrow> 4 \<le> length page
     \<and> get_scalar (native c) e (drop (length page - 4) page) = unat (crc32 c (take (length page - 4) page))"

lemma slice_to_end: "a + n = length buf \<Longrightarrow> slice a n buf = drop a buf"
  by (auto simp: slice_def)

lemma get_page_checksum_ok: "4 \<le> length page \<Longrightarrow>
  get_page_checksum c s page = Inr (get_scalar (native c) (fs_endianness (header s)) (drop (length page - 4) page))"
  by (simp add: get_page_checksum_def get_field_def memcpy_from_ok slice_to_end split: crc_checksum.split)

lemma calc_page_checksum_ok: "4 \<le> length page \<Longrightarrow>
  calc_page_checksum c s page = Inr (unat (crc32 c (take (length page - 4) page)))"
  by (simp add: calc_page_checksum_def split: crc_checksum.split)

lemma check_page_ok: "4 \<le> length page \<Longrightarrow>
  check_page c s page True =
    Inr (if checksum_ok c (fs_endianness (header s)) page then None else Some CrcError)"
  by (simp add: check_page_def get_page_checksum_ok calc_page_checksum_ok checksum_ok_def)

lemma check_page_False [simp]: "check_page c s page False = Inr None"
  by (simp add: check_page_def)

definition checksum_bytes :: "'m config \<Rightarrow> endianness \<Rightarrow> byte list \<Rightarrow> byte list" where
  "checksum_bytes c e page = put_scalar (native c) e 4 (unat (crc32 c (take (length page - 4) page)))"

lemma add_page_checksum_ok: "4 \<le> length page \<Longrightarrow>
  add_page_checksum c s page = Inr (take (length page - 4) page @ checksum_bytes c (fs_endianness (header s)) page)"
  by (simp add: add_page_checksum_def memcpy_to_ok overlay_def checksum_bytes_def split: crc_checksum.split)

lemma crc_fits: "unat (w :: 32 word) < 256 ^ 4"
  using unsigned_less [of w, where 'a = nat] by simp

lemma checksum_ok_added:
  assumes "4 \<le> length page" "native c' = n'" "crc32 c' = crc32 c"
  shows "checksum_ok c' e (take (length page - 4) page @ checksum_bytes c e page)"
  using assms by (simp add: checksum_ok_def checksum_bytes_def get_put_scalar [OF crc_fits])

section \<open>The header page as a value\<close>

definition endian_mark :: "endianness \<Rightarrow> byte list" where
  "endian_mark e = (case e of LE \<Rightarrow> ENDIANNESS_LE | BE \<Rightarrow> ENDIANNESS_BE)"

lemma length_endian_mark [simp, len_simps]: "length (endian_mark e) = 2"
  by (cases e) (simp_all add: endian_mark_def)

lemma endian_mark_inj [simp]: "endian_mark e = endian_mark e' \<longleftrightarrow> e = e'"
  by (cases e; cases e') (simp_all add: endian_mark_def)

lemma endian_mark_simps [simp]: "endian_mark LE = ENDIANNESS_LE" "endian_mark BE = ENDIANNESS_BE"
  by (simp_all add: endian_mark_def)

definition header_prefix :: "'m config \<Rightarrow> header \<Rightarrow> byte list" where
  "header_prefix c h = MAGICK_STRING @ endian_mark (fs_endianness h)
     @ fields_bytes c (fs_endianness h) (header_fields h)"

lemma length_header_prefix [simp, len_simps]: "length (header_prefix c h) = 37"
  by (simp add: header_prefix_def length_fields_bytes header_fields_def)

text \<open>The values a header can have in memory, and in a page.\<close>

definition header_wf :: "header \<Rightarrow> bool" where
  "header_wf h \<longleftrightarrow> magic_string h = MAGICK_STRING \<and> version h < 2 ^ 16 \<and> page_size h < 2 ^ 32
     \<and> filesystem_size h < 2 ^ 64 \<and> max_inodes h < 2 ^ 32 \<and> max_path_len h < 2 ^ 16"

text \<open>
  \<open>carries_header c bytes h\<close>: a flash with the contents \<open>bytes\<close> holds a file system with the
  header \<open>h\<close> that the configuration \<open>c\<close> accepts.
\<close>

definition carries_header :: "'m config \<Rightarrow> byte list \<Rightarrow> header \<Rightarrow> bool" where
  "carries_header c bytes h \<longleftrightarrow> header_wf h \<and> MIN_PAGE_SIZE \<le> page_size h
     \<and> (PAGE_SIZE c > 0 \<longrightarrow> page_size h \<le> PAGE_SIZE c) \<and> page_size h \<le> length bytes
     \<and> take 37 bytes = header_prefix c h \<and> checksum_ok c (fs_endianness h) (take (page_size h) bytes)"

lemma header_fields_bounded: "header_wf h \<Longrightarrow> \<forall>(sz, v) \<in> set (header_fields h). v < 256 ^ sz"
  by (simp add: header_wf_def header_fields_def split: crc_checksum.split)

lemma map_fst_header_fields [simp]: "map fst (header_fields h) = [2, 4, 8, 4, 2, 2]"
  by (simp add: header_fields_def)

lemma map_snd_header_fields: "map snd (header_fields h) =
  [version h, page_size h, filesystem_size h, max_inodes h, max_path_len h, 0]"
  by (simp add: header_fields_def split: crc_checksum.split)

lemma get_fields_prefix:
  assumes "header_wf h" "take 37 page = header_prefix c' h" "length page = 37"
  shows "get_fields c (fs_endianness h) page 15 [2, 4, 8, 4, 2, 2] =
    Inr [version h, page_size h, filesystem_size h, max_inodes h, max_path_len h, 0]"
proof -
  have "page = header_prefix c' h" using assms(2,3) by simp
  then have "slice 15 (sum_list (map fst (header_fields h))) page =
      fields_bytes c' (fs_endianness h) (header_fields h)"
    by (simp add: header_prefix_def slice_def length_fields_bytes)
  from get_fields_ok [OF this _ header_fields_bounded [OF assms(1)], of c] assms(3)
  show ?thesis by (simp add: map_snd_header_fields)
qed

text \<open>Every field sequence can be read inside the page, and what is read are the bytes there.\<close>

lemma get_fields_total:
  "pos + sum_list szs \<le> length page \<Longrightarrow>
   \<exists>vs. get_fields c e page pos szs = Inr vs \<and> length vs = length szs
     \<and> (\<forall>(sz, v) \<in> set (zip szs vs). v < 256 ^ sz)
     \<and> slice pos (sum_list szs) page = fields_bytes c' e (zip szs vs)"
proof (induction szs arbitrary: pos)
  case (Cons sz szs)
  let ?v = "get_scalar (native c) e (slice pos sz page)"
  have len: "length (slice pos sz page) = sz" using Cons.prems by simp
  from Cons.IH [of "pos + sz"] Cons.prems obtain vs where
    vs: "get_fields c e page (pos + sz) szs = Inr vs" "length vs = length szs"
      "\<forall>(sz, v) \<in> set (zip szs vs). v < 256 ^ sz"
      "slice (pos + sz) (sum_list szs) page = fields_bytes c' e (zip szs vs)" by auto
  have "slice pos (sz + sum_list szs) page = slice pos sz page @ slice (pos + sz) (sum_list szs) page"
    by (simp add: slice_def take_add add.commute)
  then have "slice pos (sum_list (sz # szs)) page = fields_bytes c' e (zip (sz # szs) (?v # vs))"
    using vs(4) put_get_scalar [of "native c'" e "slice pos sz page" "native c"] len by simp
  moreover have "?v < 256 ^ sz" using get_scalar_bound [of "native c" e "slice pos sz page"] len by simp
  moreover have "get_fields c e page pos (sz # szs) = Inr (?v # vs)"
    using Cons.prems vs(1) by (simp add: get_field_def memcpy_from_ok)
  ultimately show ?case using vs(2,3) by (intro exI [of _ "?v # vs"]) auto
qed simp

lemma carries_header_unique:
  assumes "carries_header c bytes h" "carries_header c' bytes h'"
  shows "h = h'"
proof -
  have len: "37 \<le> length bytes" using assms(1) by (simp add: carries_header_def MIN_PAGE_SIZE_def)
  have pre: "header_prefix c h = header_prefix c' h'" using assms by (simp add: carries_header_def)
  then have e: "fs_endianness h = fs_endianness h'" by (simp add: header_prefix_def)
  have wf: "header_wf h" "header_wf h'" using assms by (simp_all add: carries_header_def)
  have "get_fields c (fs_endianness h) (header_prefix c h) 15 [2, 4, 8, 4, 2, 2] =
      Inr [version h, page_size h, filesystem_size h, max_inodes h, max_path_len h, 0]"
    by (rule get_fields_prefix [OF wf(1), where c' = c]) simp_all
  moreover have "get_fields c (fs_endianness h') (header_prefix c' h') 15 [2, 4, 8, 4, 2, 2] =
      Inr [version h', page_size h', filesystem_size h', max_inodes h', max_path_len h', 0]"
    by (rule get_fields_prefix [OF wf(2), where c' = c']) simp_all
  ultimately have "[version h, page_size h, filesystem_size h, max_inodes h, max_path_len h] =
      [version h', page_size h', filesystem_size h', max_inodes h', max_path_len h']"
    using pre e by simp
  moreover have "magic_string h = magic_string h'" using wf by (simp add: header_wf_def)
  moreover have "crc_checksum_type h = crc_checksum_type h'"
    by (cases "crc_checksum_type h"; cases "crc_checksum_type h'") simp
  ultimately show ?thesis using e by (cases h; cases h') simp
qed

lemma header_page_ok:
  assumes "header s = h" "magic_string h = MAGICK_STRING" "41 \<le> page_size h"
  shows "\<exists>page. header_page c s h = Inr page \<and> length page = page_size h
    \<and> take 37 page = header_prefix c h
    \<and> (\<forall>c' :: 'n config. crc32 c' = crc32 c \<longrightarrow> checksum_ok c' (fs_endianness h) page)"
proof -
  let ?n = "page_size h" and ?e = "fs_endianness h"
  let ?f = "fields_bytes c ?e (header_fields h)"
  let ?P = "header_prefix c h @ replicate (?n - 37) 0"
  have "overlay (overlay (overlay (replicate ?n 0) 0 MAGICK_STRING) 13 (endian_mark ?e)) 15 ?f =
      overlay (replicate ?n 0) 0 (header_prefix c h)"
    using overlay_append [of 0 MAGICK_STRING "endian_mark ?e" "replicate ?n 0"]
      overlay_append [of 0 "MAGICK_STRING @ endian_mark ?e" ?f "replicate ?n 0"] assms(3)
    by (simp add: header_prefix_def length_fields_bytes)
  also have "\<dots> = ?P" by (simp add: overlay_def)
  finally have P: "overlay (overlay (overlay (replicate ?n 0) 0 MAGICK_STRING) 13 (endian_mark ?e)) 15 ?f = ?P" .
  have len: "length ?P = ?n" using assms(3) by simp
  have "header_page c s h = add_page_checksum c s ?P"
    using assms P by (simp add: header_page_def memcpy_to_ok MAGICK_STRING_LEN_def put_fields_ok
        flip: endian_mark_def)
  then have pg: "header_page c s h = Inr (take (?n - 4) ?P @ checksum_bytes c ?e ?P)"
    using add_page_checksum_ok [of ?P c s] assms len by simp
  have "checksum_ok c' ?e (take (?n - 4) ?P @ checksum_bytes c ?e ?P)" if "crc32 c' = crc32 c" for c' :: "'n config"
    using checksum_ok_added [of ?P c' "native c'" c ?e] that assms(3) by simp
  moreover have "take 37 (take (?n - 4) ?P @ checksum_bytes c ?e ?P) = header_prefix c h"
    using assms(3) by simp
  ultimately show ?thesis using pg assms(3) by (simp add: checksum_bytes_def)
qed

end
