(* ===== verification/Mount.thy ===== *)
theory Mount
  imports Header
begin

text \<open>
  Writing a header to a flash and mounting the flash again. The lemmas are proved once, for
  every flash that keeps the contract of \<open>FlashMemory\<close>, and the properties state them for the
  two implementations.
\<close>

section \<open>A file system on a flash that keeps its contract\<close>

text \<open>
  The operations that change a flash, their effect on its contents, and \<open>flash_run F m ops m'\<close>:
  a caller that performed exactly the changing operations \<open>ops\<close>, in this order and with reads in
  between, has taken the flash from \<open>m\<close> to \<open>m'\<close>.
\<close>

datatype flash_op = Write_op nat "byte list" | Erase_op nat nat

fun apply_op :: "byte list \<Rightarrow> flash_op \<Rightarrow> byte list" where
  "apply_op bytes (Write_op a d) = overlay bytes a d"
| "apply_op bytes (Erase_op a n) = overlay bytes a (replicate n 0xFF)"

inductive flash_run :: "'m flash_ops \<Rightarrow> 'm \<Rightarrow> flash_op list \<Rightarrow> 'm \<Rightarrow> bool" for F where
  run_refl: "flash_run F m [] m"
| run_read: "mem_read F m a n = Inr (k, d, m') \<Longrightarrow> flash_run F m' ops m'' \<Longrightarrow> flash_run F m ops m''"
| run_write: "mem_write F m a d = Inr (k, m') \<Longrightarrow> flash_run F m' ops m'' \<Longrightarrow>
    flash_run F m (Write_op a d # ops) m''"
| run_erase: "mem_erase F m a n = Inr m' \<Longrightarrow> flash_run F m' ops m'' \<Longrightarrow>
    flash_run F m (Erase_op a n # ops) m''"

lemma flash_run_trans:
  "flash_run F m xs m' \<Longrightarrow> flash_run F m' ys m'' \<Longrightarrow> flash_run F m (xs @ ys) m''"
  by (induction rule: flash_run.induct) (auto intro: flash_run.intros)

lemmas run_one_read = run_read [OF _ run_refl]
lemmas run_one_write = run_write [OF _ run_refl]
lemmas run_one_erase = run_erase [OF _ run_refl]

text \<open>A read leaves the flash as it was, whatever the implementation moves internally.\<close>

definition same_flash :: "'m flash_ops \<Rightarrow> ('m \<Rightarrow> bool) \<Rightarrow> ('m \<Rightarrow> byte list) \<Rightarrow> ('m \<Rightarrow> nat \<Rightarrow> bool) \<Rightarrow>
    'm \<Rightarrow> 'm \<Rightarrow> bool" where
  "same_flash F ok cells writable m m' \<longleftrightarrow> ok m' \<and> cells m' = cells m \<and> writable m' = writable m
     \<and> mem_can_map_read F m' = mem_can_map_read F m \<and> flash_run F m [] m'"

lemma same_flash_trans: "same_flash F ok cells writable m m' \<Longrightarrow> same_flash F ok cells writable m' m'' \<Longrightarrow>
  same_flash F ok cells writable m m''"
  using flash_run_trans [of F m "[]" m' "[]" m''] by (simp add: same_flash_def)

lemma same_flash_refl: "ok m \<Longrightarrow> same_flash F ok cells writable m m"
  by (simp add: same_flash_def run_refl)

definition page_at :: "nat \<Rightarrow> nat \<Rightarrow> byte list \<Rightarrow> byte list" where
  "page_at ps i bytes = slice (ps + i * ps) ps bytes"

text \<open>Page \<open>i\<close> lies inside a flash of \<open>n\<close> bytes.\<close>

definition page_in :: "nat \<Rightarrow> nat \<Rightarrow> nat \<Rightarrow> bool" where
  "page_in ps i n \<longleftrightarrow> ps + i * ps + ps \<le> n"

lemma length_page_at [simp, len_simps]: "page_in ps i (length bytes) \<Longrightarrow> length (page_at ps i bytes) = ps"
  by (simp add: page_at_def page_in_def)

section \<open>The fields in a flash\<close>

lemma carries_header_fields:
  assumes "carries_header c bytes h" "slice 13 2 bytes = endian_mark e"
  shows "fs_endianness h = e \<and> get_fields c' e (take 37 bytes) 15 [2, 4, 8, 4, 2, 2] =
    Inr [version h, page_size h, filesystem_size h, max_inodes h, max_path_len h, 0]"
proof -
  have len: "37 \<le> length bytes" and pre: "take 37 bytes = header_prefix c h" and wf: "header_wf h"
    using assms(1) by (simp_all add: carries_header_def MIN_PAGE_SIZE_def)
  have "slice 13 2 bytes = slice 13 2 (take 37 bytes)" using len by (simp add: slice_def drop_take)
  also have "\<dots> = endian_mark (fs_endianness h)" by (simp add: pre header_prefix_def slice_def)
  finally have e: "fs_endianness h = e" using assms(2) by simp
  with get_fields_prefix [OF wf, of "take 37 bytes" c c'] pre len show ?thesis by simp
qed

lemma get_fields_page_size:
  assumes "get_fields c e (take 37 bytes) 15 [2, 4, 8, 4, 2, 2] = Inr vs" "37 \<le> length bytes"
  shows "vs ! 1 = get_scalar (native c) e (slice 17 4 bytes)"
proof -
  have "slice 17 4 (take 37 bytes) = slice 17 4 bytes"
    by (simp add: slice_def drop_take)
  with assms show ?thesis by (auto simp: get_field_def res_simps)
qed

text \<open>The header \<open>init\<close> assembles from the fields, when the checksum type is known.\<close>

lemma assembled_header:
  assumes len: "37 \<le> length bytes" and magic: "take 13 bytes = MAGICK_STRING"
    and mark: "slice 13 2 bytes = endian_mark e"
    and get: "get_fields c e (take 37 bytes) 15 [2, 4, 8, 4, 2, 2] = Inr vs" and ck: "vs ! 5 = 0"
    and h: "h = default_header\<lparr>magic_string := MAGICK_STRING, fs_endianness := e, version := vs ! 0,
      page_size := vs ! 1, filesystem_size := vs ! 2, max_inodes := vs ! 3, max_path_len := vs ! 4,
      crc_checksum_type := CRC32\<rparr>"
  shows "header_wf h \<and> take 37 bytes = header_prefix c h"
proof -
  from get_fields_total [of 15 "[2, 4, 8, 4, 2, 2]" "take 37 bytes" c e c] len get
  have vs: "length vs = 6" "\<forall>(sz, v) \<in> set (zip [2, 4, 8, 4, 2, 2] vs). v < 256 ^ sz"
    "slice 15 22 (take 37 bytes) = fields_bytes c e (zip [2, 4, 8, 4, 2, 2] vs)" by auto
  from vs(1) obtain a b d f g k where abc: "vs = [a, b, d, f, g, k]"
    by (auto simp: eval_nat_numeral length_Suc_conv)
  have "header_wf h" using vs(2) by (simp add: header_wf_def h abc default_header_def)
  moreover have "take 37 bytes = header_prefix c h"
  proof -
    have "take 37 bytes = take 13 bytes @ slice 13 2 bytes @ slice 15 22 bytes"
      using take_add [of 13 24 bytes] take_add [of 2 22 "drop 13 bytes"] by (simp add: slice_def)
    moreover have "slice 15 22 (take 37 bytes) = slice 15 22 bytes" by (simp add: slice_def drop_take)
    moreover have "header_fields h = zip [2, 4, 8, 4, 2, 2] vs"
      using ck by (simp add: header_fields_def h abc)
    ultimately show ?thesis using magic mark vs(3) by (simp add: header_prefix_def h)
  qed
  ultimately show ?thesis by blast
qed

section \<open>Reading and writing pages\<close>

locale fs_on_flash = flash_memory "flash c" ok cells writable
  for c :: "'m config" and ok :: "'m \<Rightarrow> bool" and cells :: "'m \<Rightarrow> byte list"
    and writable :: "'m \<Rightarrow> nat \<Rightarrow> bool"
begin

lemma read_page_in:
  assumes "ok (mem s)" "0 < page_size (header s)" "length page = page_size (header s)"
    "page_in (page_size (header s)) i (length (cells (mem s)))"
    "chk \<longrightarrow> 4 \<le> page_size (header s)"
  shows "\<exists>m'. read_page c s i page chk = Inr
      (if chk \<and> \<not> checksum_ok c (fs_endianness (header s)) (page_at (page_size (header s)) i (cells (mem s)))
       then Some CrcError else None,
       page_at (page_size (header s)) i (cells (mem s)), s\<lparr>mem := m'\<rparr>)
    \<and> same_flash (flash c) ok cells writable (mem s) m'"
proof -
  let ?ps = "page_size (header s)"
  let ?p = "page_at ?ps i (cells (mem s))"
  have le: "?ps + i * ?ps + ?ps \<le> length (cells (mem s))" using assms(4) by (simp add: page_in_def)
  then have "?ps + i * ?ps < 2 ^ 64" using size_bound [OF assms(1)] by simp
  then have off: "add64 ?ps (mul64 i ?ps) = ?ps + i * ?ps"
    by (simp add: wrap_simps)
  from read_ok [OF assms(1,2) le] obtain m' where
    m': "mem_read (flash c) (mem s) (?ps + i * ?ps) ?ps = Inr (?ps, ?p, m')"
      "same_flash (flash c) ok cells writable (mem s) m'"
    by (auto simp: same_flash_def page_at_def intro: run_one_read)
  have len: "length ?p = ?ps" using assms(4) by simp
  have ov: "memcpy_to page 0 ?p = Inr ?p" using len assms(3) by (simp add: memcpy_to_ok overlay_all)
  show ?thesis
  proof (cases chk)
    case True
    then have "check_page c s ?p chk = Inr (if checksum_ok c (fs_endianness (header s)) ?p then None else Some CrcError)"
      using check_page_ok [of ?p c s] assms(5) len by simp
    then show ?thesis using off m' ov assms(3) True
      by (intro exI [of _ m']) (simp add: read_page_def Let_def len)
  next
    case False
    then show ?thesis using off m' ov assms(3)
      by (intro exI [of _ m']) (simp add: read_page_def Let_def len)
  qed
qed

lemma read_page_mapped_in:
  assumes "ok (mem s)" "mem_can_map_read (flash c) (mem s)" "0 < page_size (header s)"
    "page_in (page_size (header s)) i (length (cells (mem s)))" "4 \<le> page_size (header s)"
  shows "read_page_mapped c s i (page_size (header s)) True = Inr
      (if checksum_ok c (fs_endianness (header s)) (page_at (page_size (header s)) i (cells (mem s)))
       then None else Some CrcError, Some (page_at (page_size (header s)) i (cells (mem s))))"
proof -
  let ?ps = "page_size (header s)"
  let ?p = "page_at ?ps i (cells (mem s))"
  have le: "?ps + i * ?ps + ?ps \<le> length (cells (mem s))" using assms(4) by (simp add: page_in_def)
  then have "?ps + i * ?ps < 2 ^ 64" using size_bound [OF assms(1)] by simp
  then have off: "add64 ?ps (mul64 i ?ps) = ?ps + i * ?ps" by (simp add: wrap_simps)
  have len: "length ?p = ?ps" using assms(4) by simp
  have "mem_map_read (flash c) (mem s) (?ps + i * ?ps) ?ps = Inr (Some ?p)"
    using map_ok [OF assms(1,2,3) le] by (simp add: page_at_def)
  then show ?thesis using check_page_ok [of ?p c s] assms(5) off len
    by (simp add: read_page_mapped_def Let_def)
qed

lemma read_flash_start_ok:
  assumes "ok (mem s)" "0 < length page" "length page \<le> length (cells (mem s))"
  shows "\<exists>m'. read_flash_start c s page = Inr (take (length page) (cells (mem s)), s\<lparr>mem := m'\<rparr>)
    \<and> same_flash (flash c) ok cells writable (mem s) m'"
proof -
  let ?n = "length page"
  have "0 + ?n \<le> length (cells (mem s))" using assms(3) by simp
  from read_ok [OF assms(1,2) this] obtain m' where
    m': "mem_read (flash c) (mem s) 0 ?n = Inr (?n, slice 0 ?n (cells (mem s)), m')"
      "same_flash (flash c) ok cells writable (mem s) m'"
    by (auto simp: same_flash_def intro: run_one_read)
  have "memcpy_to page 0 (slice 0 ?n (cells (mem s))) = Inr (take ?n (cells (mem s)))"
    using assms(3) by (simp add: memcpy_to_ok overlay_def slice_def)
  with m' show ?thesis by (intro exI [of _ m']) (simp add: read_flash_start_def)
qed

lemma write_header_ok:
  assumes "ok (mem s)" "magic_string h = MAGICK_STRING" "41 \<le> page_size h"
    "page_size h \<le> length (cells (mem s))" "\<forall>i < page_size h. writable (mem s) i"
  shows "\<exists>m' page. write_header c s h = Inr (True, s\<lparr>header := h, mem := m'\<rparr>) \<and> ok m'
    \<and> header_page c (s\<lparr>header := h\<rparr>) h = Inr page
    \<and> cells m' = overlay (cells (mem s)) 0 page
    \<and> mem_can_map_read (flash c) m' = mem_can_map_read (flash c) (mem s)"
proof -
  from header_page_ok [of "s\<lparr>header := h\<rparr>" h c] assms(2,3) obtain page where
    pg: "header_page c (s\<lparr>header := h\<rparr>) h = Inr page" "length page = page_size h" by auto
  have lt: "0 < length page" using pg(2) assms(3) by linarith
  from write_ok [OF assms(1) lt, of 0] pg(2) assms(4,5) obtain m' where
    "mem_write (flash c) (mem s) 0 page = Inr (length page, m')" "ok m'"
    "cells m' = overlay (cells (mem s)) 0 page"
    "mem_can_map_read (flash c) m' = mem_can_map_read (flash c) (mem s)" by auto
  with pg(1) show ?thesis
    by (intro exI [of _ m'] exI [of _ page]) (simp add: write_header_def Let_def)
qed

lemma init_fields_ok:
  assumes "ok (mem s)" and len: "37 \<le> length (cells (mem s))"
    and magic: "take 13 (cells (mem s)) = MAGICK_STRING"
    and mark: "slice 13 2 (cells (mem s)) = endian_mark e"
    and ps: "get_scalar (native c) e (slice 17 4 (cells (mem s))) \<le> length (cells (mem s))"
    and h: "h = default_header\<lparr>magic_string := MAGICK_STRING, fs_endianness := e\<rparr>"
    and hs: "header s = h"
  shows "\<exists>b s'. init_fields c s h (take 37 (cells (mem s))) = Inr (b, s')
    \<and> same_flash (flash c) ok cells writable (mem s) (mem s')
    \<and> (b \<longleftrightarrow> (\<exists>h'. carries_header c (cells (mem s)) h'))
    \<and> (b \<longrightarrow> carries_header c (cells (mem s)) (header s')
         \<and> header_inode_range s' = DefaultHeaderInodeRange (header s'))"
proof -
  let ?B = "cells (mem s)"
  have "15 + sum_list [2, 4, 8, 4, 2, 2] \<le> length (take 37 ?B)" using len by simp
  from get_fields_total [OF this, of c e] obtain vs where
    get: "get_fields c e (take 37 ?B) 15 [2, 4, 8, 4, 2, 2] = Inr vs" by blast
  define h1 where "h1 = default_header\<lparr>magic_string := MAGICK_STRING, fs_endianness := e, version := vs ! 0,
      page_size := vs ! 1, filesystem_size := vs ! 2, max_inodes := vs ! 3, max_path_len := vs ! 4,
      crc_checksum_type := CRC32\<rparr>"
  have h1': "h\<lparr>version := vs ! 0, page_size := vs ! 1, filesystem_size := vs ! 2, max_inodes := vs ! 3,
      max_path_len := vs ! 4, crc_checksum_type := CRC32\<rparr> = h1"
    by (simp add: h h1_def default_header_def)
  have pick: "carries_header c ?B h' \<Longrightarrow> vs ! 5 = 0 \<and> h' = h1" for h'
  proof -
    assume ca: "carries_header c ?B h'"
    from carries_header_fields [OF ca mark, of c] get
    have f: "fs_endianness h' = e" "vs = [version h', page_size h', filesystem_size h', max_inodes h', max_path_len h', 0]"
      by auto
    moreover have "magic_string h' = MAGICK_STRING" using ca by (simp add: carries_header_def header_wf_def)
    moreover have "crc_checksum_type h' = CRC32" by (cases "crc_checksum_type h'") simp
    ultimately have "h' = h1" unfolding h1_def by (cases h') (simp add: default_header_def)
    with f show ?thesis by simp
  qed
  have ps1: "page_size h1 \<le> length ?B" using get_fields_page_size [OF get len] ps by (simp add: h1_def)
  have ca1: "carries_header c ?B h1 \<longleftrightarrow> MIN_PAGE_SIZE \<le> page_size h1
      \<and> (PAGE_SIZE c > 0 \<longrightarrow> page_size h1 \<le> PAGE_SIZE c) \<and> checksum_ok c e (take (page_size h1) ?B)"
    if "vs ! 5 = 0"
    using assembled_header [OF len magic mark get that h1_def] ps1
    by (auto simp: carries_header_def) (simp_all add: h1_def)
  show ?thesis
  proof (cases "vs ! 5 = 0 \<and> MIN_PAGE_SIZE \<le> page_size h1 \<and> (PAGE_SIZE c > 0 \<longrightarrow> page_size h1 \<le> PAGE_SIZE c)")
    case False
    have "\<not> (\<exists>h'. carries_header c ?B h')"
    proof
      assume "\<exists>h'. carries_header c ?B h'"
      then obtain h' where ca: "carries_header c ?B h'" by blast
      from pick [OF ca] ca have v: "vs ! 5 = 0" and "carries_header c ?B h1" by simp_all
      with ca1 [OF v] False show False by simp
    qed
    moreover have "init_fields c s h (take 37 ?B) = Inr (False, s)"
      using False get h1' by (auto simp: init_fields_def hs MAGICK_STRING_LEN_def ENDIANNESS_LEN_def
        Let_def h default_header_def h1_def)
    ultimately show ?thesis using assms(1)
      by (intro exI [of _ False] exI [of _ s]) (simp add: same_flash_def run_refl)
  next
    case True
    let ?n = "page_size h1"
    have n: "37 \<le> ?n" "?n < 2 ^ 63" using True ps1 size_bound [OF assms(1)] by (auto simp: MIN_PAGE_SIZE_def)
    let ?pg = "take ?n (take 37 ?B) @ replicate (?n - length (take 37 ?B)) 0"
    have pg: "length ?pg = ?n" by simp
    then have "0 < length ?pg" "length ?pg \<le> length ?B" using n(1) ps1 by linarith+
    from read_flash_start_ok [OF assms(1) this] pg obtain m' where
      m': "read_flash_start c s ?pg = Inr (take ?n ?B, s\<lparr>mem := m'\<rparr>)"
        "same_flash (flash c) ok cells writable (mem s) m'" by auto
    have tl: "4 \<le> length (take ?n ?B)" using n(1) ps1 by simp
    have "init_fields c s h (take 37 ?B) = (if checksum_ok c e (take ?n ?B)
        then Inr (True, s\<lparr>mem := m', header := h1, header_inode_range := DefaultHeaderInodeRange h1\<rparr>)
        else Inr (False, s\<lparr>mem := m'\<rparr>))"
    proof -
      have r: "vec_resize (take 37 ?B) ?n = Inr ?pg" using n(2) by (simp add: vec_resize_def)
      have g: "get_page_checksum c (s\<lparr>mem := m'\<rparr>) (take ?n ?B) =
            Inr (get_scalar (native c) e (drop (length (take ?n ?B) - 4) (take ?n ?B)))"
        "calc_page_checksum c (s\<lparr>mem := m'\<rparr>) (take ?n ?B) =
            Inr (unat (crc32 c (take (length (take ?n ?B) - 4) (take ?n ?B))))"
        using get_page_checksum_ok [OF tl, of c "s\<lparr>mem := m'\<rparr>"]
          calc_page_checksum_ok [OF tl, of c "s\<lparr>mem := m'\<rparr>"] hs h by simp_all
      show ?thesis
        using True get r m'(1) g h1' tl
        by (auto simp: init_fields_def hs MAGICK_STRING_LEN_def ENDIANNESS_LEN_def Let_def h
          default_header_def h1_def checksum_ok_def)
    qed
    moreover have "(\<exists>h'. carries_header c ?B h') \<longleftrightarrow> carries_header c ?B h1"
      using pick by metis
    moreover have "carries_header c ?B h1 \<longleftrightarrow> checksum_ok c e (take ?n ?B)"
      using ca1 True by simp
    ultimately show ?thesis using m'(2) ca1 True by auto
  qed
qed

lemma init_ok:
  assumes "ok (mem s)" and len: "37 \<le> length (cells (mem s))"
    and ps: "\<And>e. slice 13 2 (cells (mem s)) = endian_mark e \<Longrightarrow>
      get_scalar (native c) e (slice 17 4 (cells (mem s))) \<le> length (cells (mem s))"
  shows "\<exists>b s'. init c s = Inr (b, s')
    \<and> same_flash (flash c) ok cells writable (mem s) (mem s')
    \<and> (b \<longleftrightarrow> (\<exists>h. carries_header c (cells (mem s)) h))
    \<and> (b \<longrightarrow> carries_header c (cells (mem s)) (header s')
         \<and> header_inode_range s' = DefaultHeaderInodeRange (header s'))"
proof -
  let ?B = "cells (mem s)"
  have "0 < length (replicate MIN_PAGE_SIZE (0 :: byte))" "length (replicate MIN_PAGE_SIZE (0 :: byte)) \<le> length ?B"
    using len by (simp_all add: MIN_PAGE_SIZE_def)
  from read_flash_start_ok [OF assms(1) this] obtain m' where
    m': "read_flash_start c s (replicate MIN_PAGE_SIZE 0) = Inr (take 37 ?B, s\<lparr>mem := m'\<rparr>)"
      "same_flash (flash c) ok cells writable (mem s) m'" by (auto simp: MIN_PAGE_SIZE_def)
  have tk: "slice 0 13 (take 37 ?B) = take 13 ?B" "slice 13 2 (take 37 ?B) = slice 13 2 ?B"
    by (simp_all add: slice_def drop_take)
  have none: "\<not> (\<exists>h. carries_header c ?B h)"
    if "take 13 ?B \<noteq> MAGICK_STRING \<or> (\<forall>e. slice 13 2 ?B \<noteq> endian_mark e)"
  proof
    assume "\<exists>h. carries_header c ?B h"
    then obtain h where h: "take 37 ?B = header_prefix c h" by (auto simp: carries_header_def)
    have "take 13 ?B = slice 0 13 (header_prefix c h)" "slice 13 2 ?B = slice 13 2 (header_prefix c h)"
      using tk by (simp_all only: h)
    then have "take 13 ?B = MAGICK_STRING" "slice 13 2 ?B = endian_mark (fs_endianness h)"
      by (simp_all add: header_prefix_def slice_def)
    with that show False by blast
  qed
  show ?thesis
  proof (cases "take 13 ?B = MAGICK_STRING \<and> (\<exists>e. slice 13 2 ?B = endian_mark e)")
    case False
    then have "init c s = Inr (False, s\<lparr>mem := m'\<rparr>)"
      using m'(1) tk
      by (simp add: init_def MAGICK_STRING_LEN_def ENDIANNESS_LEN_def Let_def default_header_def)
        (metis endian_mark_simps)
    then show ?thesis using m'(2) none False by auto
  next
    case True
    then obtain e where mark: "slice 13 2 ?B = endian_mark e" and magic: "take 13 ?B = MAGICK_STRING" by blast
    let ?h = "default_header\<lparr>magic_string := MAGICK_STRING, fs_endianness := e\<rparr>"
    let ?s = "s\<lparr>mem := m', header := ?h\<rparr>"
    have i: "init c s = init_fields c ?s ?h (take 37 ?B)"
      using m'(1) tk mark magic by (cases e)
        (simp_all add: init_def MAGICK_STRING_LEN_def ENDIANNESS_LEN_def Let_def default_header_def)
    have B: "cells (mem ?s) = ?B" "ok (mem ?s)" using m'(2) by (simp_all add: same_flash_def)
    from init_fields_ok [of ?s e ?h] B len magic mark ps [OF mark] obtain b s' where
      r: "init_fields c ?s ?h (take 37 ?B) = Inr (b, s')"
        "same_flash (flash c) ok cells writable (mem ?s) (mem s')"
        "b \<longleftrightarrow> (\<exists>h'. carries_header c ?B h')"
        "b \<longrightarrow> carries_header c ?B (header s') \<and> header_inode_range s' = DefaultHeaderInodeRange (header s')"
      by auto
    moreover have "same_flash (flash c) ok cells writable (mem s) (mem s')"
      using same_flash_trans [OF m'(2)] r(2) by simp
    ultimately show ?thesis using i by auto
  qed
qed

end

section \<open>The two flashes\<close>

interpretation fs_sim: fs_on_flash "sim_config P crc e keep" sim_ok sf_bytes "\<lambda>_ _. True"
  for P crc e keep
  by (simp add: fs_on_flash_def sim.flash_memory_axioms)

interpretation fs_stm32: fs_on_flash "stm32_config P crc e keep" stm32_ok st_mem stm32_writable
  for P crc e keep
  by (simp add: fs_on_flash_def stm32.flash_memory_axioms)

text \<open>
  A new header: for a file system of at least four pages it has at least two inode pages,
  its fields fit their widths, and the inode pages leave room for the header page and for
  data, unless the file system has exactly ten pages: there all ten are inode pages.
\<close>

theorem default_header_wf:
  assumes "4 \<le> n" "n < 2 ^ 64" "ps < 2 ^ 32"
  shows "header_wf (create_default_header c ps n)
    \<and> 2 \<le> max_inodes (create_default_header c ps n)
    \<and> (max_inodes (create_default_header c ps n) < n \<longleftrightarrow> n \<noteq> 10)
    \<and> page_size (create_default_header c ps n) = ps
    \<and> filesystem_size (create_default_header c ps n) = n
    \<and> fs_endianness (create_default_header c ps n) = native c"
proof -
  have "n div 10 * 2 mod 2 ^ 32 \<le> n div 10 * 2" "n div 10 * 2 \<le> n" "n div 10 * 2 mod 2 ^ 32 < 2 ^ 32"
    by simp_all
  moreover have "n div 10 * 2 mod 2 ^ 32 < n" using calculation(1) assms(1) by linarith
  moreover have "native c = BE \<or> native c = LE" by (cases "native c") simp_all
  ultimately show ?thesis using assms
    by (auto simp: create_default_header_def header_wf_def default_header_def Let_def max_def)
qed

theorem default_header_wf_witness:
  "max_inodes (create_default_header (sim_config 0 (\<lambda>_. 0) LE False) 64 10) = 10
   \<and> max_inodes (create_default_header (sim_config 0 (\<lambda>_. 0) LE False) 64 100) < 100"
proof -
  have "max_inodes (create_default_header (sim_config 0 (\<lambda>_. 0) LE False) 64 100) < 100"
    using default_header_wf [of 100 64 "sim_config 0 (\<lambda>_. 0) LE False"] by simp
  then show ?thesis by (simp add: create_default_header_def default_header_def)
qed

text \<open>
  C13. Whatever header is written to a flash is the header that mounting the flash returns, on
  the same machine or on one of the other byte order, and the pages behind the header page
  are not touched.
\<close>

theorem mount_returns_written_header:
  assumes "sim_ok (mem s)" "header_wf h" "41 \<le> page_size h" "page_size h \<le> length (sf_bytes (mem s))"
    "P = 0 \<or> page_size h \<le> P"
  shows "\<exists>s1 s2. write_header (sim_config P crc n keep) s h = Inr (True, s1)
    \<and> init (sim_config P crc n' keep') (SimpleFlashFsBase (mem s1)) = Inr (True, s2)
    \<and> header s2 = h \<and> header_inode_range s2 = DefaultHeaderInodeRange h
    \<and> sf_bytes (mem s2) = sf_bytes (mem s1)
    \<and> drop (page_size h) (sf_bytes (mem s1)) = drop (page_size h) (sf_bytes (mem s))"
proof -
  let ?c = "sim_config P crc n keep" and ?c' = "sim_config P crc n' keep'"
  have magic: "magic_string h = MAGICK_STRING" using assms(2) by (simp add: header_wf_def)
  from fs_sim.write_header_ok [of s h P crc n keep] assms magic obtain m1 page where
    w: "write_header ?c s h = Inr (True, s\<lparr>header := h, mem := m1\<rparr>)" "sim_ok m1"
      "header_page ?c (s\<lparr>header := h\<rparr>) h = Inr page" "sf_bytes m1 = overlay (sf_bytes (mem s)) 0 page"
    by auto
  from header_page_ok [of "s\<lparr>header := h\<rparr>" h ?c] magic assms(3) w(3) have
    pg: "length page = page_size h" "take 37 page = header_prefix ?c h"
      "\<forall>d :: sim_flash config. crc32 d = crc \<longrightarrow> checksum_ok d (fs_endianness h) page" by auto
  have tk: "take (page_size h) (sf_bytes m1) = page" and len: "length (sf_bytes m1) = length (sf_bytes (mem s))"
    using pg(1) assms(4) w(4) by (simp_all add: overlay_def)
  have "header_prefix ?c h = header_prefix ?c' h"
    by (simp add: header_prefix_def fields_bytes_def put_scalar_native)
  moreover have "take 37 (sf_bytes m1) = take 37 page"
    using assms(3) by (simp add: tk [symmetric] min_def)
  ultimately have ca: "carries_header ?c' (sf_bytes m1) h"
    using assms pg tk len by (auto simp: carries_header_def MIN_PAGE_SIZE_def)
  have ps: "get_scalar (native ?c') e (slice 17 4 (sf_bytes m1)) \<le> length (sf_bytes m1)"
    if "slice 13 2 (sf_bytes m1) = endian_mark e" for e
  proof -
    from carries_header_fields [OF ca that, of ?c'] have
      "get_fields ?c' e (take 37 (sf_bytes m1)) 15 [2, 4, 8, 4, 2, 2] =
        Inr [version h, page_size h, filesystem_size h, max_inodes h, max_path_len h, 0]" by blast
    from get_fields_page_size [OF this] assms(3,4) len show ?thesis by simp
  qed
  have "37 \<le> length (sf_bytes m1)" using len assms(3,4) by linarith
  with fs_sim.init_ok [of "SimpleFlashFsBase m1" P crc n' keep'] w(2) ps obtain b s2 where
    i: "init ?c' (SimpleFlashFsBase m1) = Inr (b, s2)" "sf_bytes (mem s2) = sf_bytes m1"
      "b \<longleftrightarrow> (\<exists>h. carries_header ?c' (sf_bytes m1) h)"
      "b \<longrightarrow> carries_header ?c' (sf_bytes m1) (header s2) \<and> header_inode_range s2 = DefaultHeaderInodeRange (header s2)"
    by (auto simp: SimpleFlashFsBase_def same_flash_def)
  moreover have "drop (page_size h) (sf_bytes m1) = drop (page_size h) (sf_bytes (mem s))"
    using w(4) pg(1) by (simp add: overlay_def)
  moreover have b using i(3) ca by blast
  moreover from this i(4) have "header s2 = h" using carries_header_unique ca by blast
  ultimately show ?thesis using w(1) by (intro exI [of _ "s\<lparr>header := h, mem := m1\<rparr>"] exI [of _ s2]) simp
qed

theorem mount_returns_written_header_witness:
  "\<exists>s1 s2. write_header (sim_config 0 (\<lambda>_. 7) LE False) (SimpleFlashFsBase (SimFlash_create [] 256))
        (create_default_header (sim_config 0 (\<lambda>_. 7) LE False) 64 4) = Inr (True, s1)
    \<and> init (sim_config 0 (\<lambda>_. 7) BE False) (SimpleFlashFsBase (mem s1)) = Inr (True, s2)
    \<and> filesystem_size (header s2) = 4"
proof -
  let ?c = "sim_config 0 (\<lambda>_. 7) LE False"
  let ?h = "create_default_header ?c 64 4"
  have f: "page_size ?h = 64" "filesystem_size ?h = 4" by (simp_all add: create_default_header_def)
  have "header_wf ?h"
    by (simp add: header_wf_def create_default_header_def default_header_def)
  moreover have "sim_ok (mem (SimpleFlashFsBase (SimFlash_create [] 256)))"
    "length (sf_bytes (mem (SimpleFlashFsBase (SimFlash_create [] 256)))) = 256"
    by (simp_all add: SimpleFlashFsBase_def SimFlash_create_def sim_ok_def)
  ultimately show ?thesis
    using mount_returns_written_header [of "SimpleFlashFsBase (SimFlash_create [] 256)" ?h 0 "\<lambda>_. 7" LE False BE False] f
    by fastforce
qed

text \<open>
  C31. \<open>init\<close> accepts a flash exactly when it carries a valid header: the magic string, a byte
  order mark, the known checksum type, an admissible page size and a matching checksum over
  the header page. Then the mounted header is the one the flash carries; in no case is the
  flash changed.
\<close>

theorem init_accepts_exactly:
  assumes "stm32_ok (mem s)" "37 \<le> length (st_mem (mem s))"
    "\<And>e. slice 13 2 (st_mem (mem s)) = endian_mark e \<Longrightarrow>
      get_scalar n e (slice 17 4 (st_mem (mem s))) \<le> length (st_mem (mem s))"
  shows "\<exists>b s'. init (stm32_config P crc n keep) s = Inr (b, s')
    \<and> st_mem (mem s') = st_mem (mem s)
    \<and> (b \<longleftrightarrow> (\<exists>h. carries_header (stm32_config P crc n keep) (st_mem (mem s)) h))
    \<and> (\<forall>h. carries_header (stm32_config P crc n keep) (st_mem (mem s)) h \<longrightarrow> header s' = h)"
proof -
  from fs_stm32.init_ok [of s P crc n keep, OF assms(1,2)] assms(3) obtain b s' where
    i: "init (stm32_config P crc n keep) s = Inr (b, s')" "st_mem (mem s') = st_mem (mem s)"
      "b \<longleftrightarrow> (\<exists>h. carries_header (stm32_config P crc n keep) (st_mem (mem s)) h)"
      "b \<longrightarrow> carries_header (stm32_config P crc n keep) (st_mem (mem s)) (header s')"
    by (auto simp: same_flash_def)
  moreover have "header s' = h" if "carries_header (stm32_config P crc n keep) (st_mem (mem s)) h" for h
    using that i(3,4) carries_header_unique by blast
  ultimately show ?thesis by blast
qed

theorem init_accepts_exactly_witness:
  "\<exists>s'. init (stm32_config 0 (\<lambda>_. 7) LE False)
     (SimpleFlashFsBase (STM32_open (SimFlash_create [] 64) 64 True)) = Inr (False, s')"
proof -
  let ?s = "SimpleFlashFsBase (STM32_open (SimFlash_create [] 64) 64 True)"
  have e: "mem ?s =
      \<lparr>st_file = \<lparr>sf_bytes = replicate 64 0, sf_pos = 64, sf_fail = False, sf_size = 64\<rparr>,
       st_mem = replicate 64 0, st_written = replicate 64 0, st_do_mem_mapping = True, st_PAGE_SIZE = 64\<rparr>"
    by (simp add: SimpleFlashFsBase_def STM32_open_def STM32_init_def SimFlash_create_def stream_read_def
      overlay_def slice_def)
  have ok: "stm32_ok (mem ?s)" by (simp add: e stm32_ok_def sim_ok_def)
  have len: "37 \<le> length (st_mem (mem ?s))" by (simp add: e)
  have "hd (slice 13 2 (st_mem (mem ?s))) = 0" by (simp add: e slice_def)
  moreover have "hd (endian_mark e') \<noteq> 0" for e' by (cases e') (simp_all add: endianness_bytes)
  ultimately have blank: "slice 13 2 (st_mem (mem ?s)) \<noteq> endian_mark e'" for e' by metis
  have "\<not> carries_header (stm32_config 0 (\<lambda>_. 7) LE False) (st_mem (mem ?s)) h" for h
  proof
    assume ca: "carries_header (stm32_config 0 (\<lambda>_. 7) LE False) (st_mem (mem ?s)) h"
    then have "take 37 (st_mem (mem ?s)) = header_prefix (stm32_config 0 (\<lambda>_. 7) LE False) h"
      by (simp add: carries_header_def)
    then have "slice 13 2 (take 37 (st_mem (mem ?s))) = endian_mark (fs_endianness h)"
      by (simp add: header_prefix_def slice_def)
    moreover have "slice 13 2 (take 37 (st_mem (mem ?s))) = slice 13 2 (st_mem (mem ?s))"
      by (simp add: slice_def drop_take)
    ultimately show False using blank by metis
  qed
  then have no: "\<not> (\<exists>h. carries_header (stm32_config 0 (\<lambda>_. 7) LE False) (st_mem (mem ?s)) h)" by simp
  have "get_scalar LE e' (slice 17 4 (st_mem (mem ?s))) \<le> length (st_mem (mem ?s))"
    if "slice 13 2 (st_mem (mem ?s)) = endian_mark e'" for e'
    using that blank by simp
  from init_accepts_exactly [of ?s LE 0 "\<lambda>_. 7" False, OF ok len this] no show ?thesis by auto
qed

end
