(* ===== verification/InodeCodec.thy ===== *)
theory InodeCodec
  imports Header
begin

text \<open>
  How an inode is stored in a page (\<open>src/base/SimpleFlashFsBase.h\<close>: \<open>inode2page\<close>,
  \<open>get_inode\<close>, \<open>get_inode_data_space_size\<close>, \<open>get_max_inode_data_pages\<close>,
  \<open>get_inode_file_name_mapped\<close>). Shown: serialising stops exactly when the list of data pages
  would reach the checksum, and reading a stored inode gives the inode back, with or without
  the error correction.
\<close>

section \<open>Space in an inode page\<close>

definition get_inode_data_space_size :: "'m fs \<Rightarrow> inode \<Rightarrow> nat" where
  "get_inode_data_space_size s i =
     sub64 (page_size (header s)) (8 + 8 + 2 + file_name_len i + 8 + 8 + 4 + get_checksum_size s)"

definition get_max_inode_data_pages :: "'m fs \<Rightarrow> inode \<Rightarrow> nat" where
  "get_max_inode_data_pages s i = get_inode_data_space_size s i div 4"

lemma inode_space: "42 + file_name_len i \<le> page_size (header s) \<Longrightarrow> page_size (header s) < 2 ^ 64 \<Longrightarrow>
  get_inode_data_space_size s i = page_size (header s) - (42 + file_name_len i)"
  by (simp add: get_inode_data_space_size_def get_checksum_size_def sub64_small split: crc_checksum.split)

section \<open>Writing an inode\<close>

text \<open>
  The lambda \<open>write\<close> of \<open>inode2page\<close>: whatever the width of the field, it wants eight bytes
  (\<open>sizeof(size)\<close>) to be left in the page.
\<close>

definition put_checked :: "'m config \<Rightarrow> endianness \<Rightarrow> nat \<times> byte list \<Rightarrow> nat \<times> nat \<Rightarrow> (nat \<times> byte list) res" where
  "put_checked c e st f =
     bindE (requireE Out_of_range (fst st + 8 \<le> length (snd st))) (\<lambda>_. put_field c e st f)"

fun put_checked_all :: "'m config \<Rightarrow> endianness \<Rightarrow> nat \<times> byte list \<Rightarrow> (nat \<times> nat) list \<Rightarrow> (nat \<times> byte list) res" where
  "put_checked_all c e st [] = Inr st"
| "put_checked_all c e st (f # fs) = bindE (put_checked c e st f) (\<lambda>st'. put_checked_all c e st' fs)"

definition inode_head :: "inode \<Rightarrow> (nat \<times> nat) list" where
  "inode_head i = [(8, inode_number i), (8, inode_version_number i), (2, file_name_len i)]"

definition inode_tail :: "inode \<Rightarrow> (nat \<times> nat) list" where
  "inode_tail i =
     (let n = length (data_pages i) mod 2 ^ 32
      in [(8, attributes i), (8, file_len i), (4, n)] @ map (\<lambda>p. (4, page_id p)) (take n (data_pages i)))"

definition inode2page :: "'m config \<Rightarrow> 'm fs \<Rightarrow> inode \<Rightarrow> byte list res" where
  "inode2page c s i =
     (let e = fs_endianness (header s); n = length (data_pages i) mod 2 ^ 32
      in bindE (put_checked_all c e (0, replicate (page_size (header s)) 0) (inode_head i)) (\<lambda>(pos, page).
         bindE (memcpy_from (file_name i) 0 (file_name_len i)) (\<lambda>name.
         bindE (memcpy_to page pos name) (\<lambda>page.
         bindE (put_checked_all c e (pos + file_name_len i, page) (inode_tail i)) (\<lambda>(pos, page).
         if n = 0 \<and> file_len i > 0 then memcpy_to page pos (inode_data i) else Inr page)))))"

section \<open>Reading an inode\<close>

text \<open>
  The error correction of a file length for a data page that does not exist. The source does
  it in \<open>int\<close>, so the length is cut to 32 bits, and the sign is extended again when it is
  stored back; that a negative length is replaced by 0 is undone by the next statement. Signed
  overflow is taken to wrap.
\<close>

definition correct_file_len :: "header \<Rightarrow> bool \<Rightarrow> nat \<Rightarrow> nat" where
  "correct_file_len h last_page len =
     (let fl = len mod 2 ^ 32;
          part_len = fl mod page_size h;
          part_len = (if part_len = 0 then page_size h else part_len);
          fl = sub32 fl (if last_page then part_len else page_size h)
      in if fl < 2 ^ 31 then fl else fl + (2 ^ 64 - 2 ^ 32))"

text \<open>
  The loop over the page numbers; \<open>n\<close> is how many are left to read, so the last one has
  \<open>n = 1\<close>. With \<open>do_error_corrections\<close> page numbers beyond the file system are skipped, and
  the loop stops once the pages cover the file.
\<close>

fun get_data_pages ::
  "'m config \<Rightarrow> 'm fs \<Rightarrow> byte list \<Rightarrow> bool \<Rightarrow> nat \<Rightarrow> nat \<Rightarrow> nat \<Rightarrow> file_handle \<Rightarrow> file_handle res" where
  "get_data_pages c s page do_error_corrections pos 0 len_read f = Inr f"
| "get_data_pages c s page do_error_corrections pos (Suc n) len_read f =
     bindE (get_field c (fs_endianness (header s)) page pos 4) (\<lambda>pid.
     if do_error_corrections \<and> pid \<ge> filesystem_size (header s) then
       bindE (requireE Undefined (0 < page_size (header s))) (\<lambda>_.
       get_data_pages c s page do_error_corrections (pos + 4) n len_read
         (f\<lparr>fh_inode := (fh_inode f)\<lparr>file_len :=
              correct_file_len (header s) (n = 0) (file_len (fh_inode f))\<rparr>,
            modified := True\<rparr>))
     else if do_error_corrections \<and> len_read \<ge> file_len (fh_inode f) then
       Inr (f\<lparr>modified := True\<rparr>)
     else
       get_data_pages c s page do_error_corrections (pos + 4) n (add64 len_read (page_size (header s)))
         (f\<lparr>fh_inode := (fh_inode f)\<lparr>data_pages :=
              data_pages (fh_inode f) @ [\<lparr>page_id = pid, dp_state = Stored\<rparr>]\<rparr>\<rparr>))"

text \<open>The data of a file that is stored in its inode.\<close>

definition get_inline_data :: "'m config \<Rightarrow> 'm fs \<Rightarrow> byte list \<Rightarrow> nat \<Rightarrow> file_handle \<Rightarrow> file_handle res" where
  "get_inline_data c s page pos f =
     (let space = get_inode_data_space_size s (fh_inode f); len = file_len (fh_inode f)
      in if len \<le> space then
           bindE (vec_resize (inode_data (fh_inode f)) space) (\<lambda>v.
           bindE (memcpy_from page pos len) (\<lambda>d.
           bindE (memcpy_to v 0 d) (\<lambda>v.
           Inr (f\<lparr>fh_inode := (fh_inode f)\<lparr>inode_data := v\<rparr>\<rparr>))))
         else Inr (f\<lparr>fh_inode := (fh_inode f)\<lparr>file_len := 0\<rparr>, modified := True\<rparr>))"

definition get_inode :: "'m config \<Rightarrow> 'm fs \<Rightarrow> byte list \<Rightarrow> bool \<Rightarrow> file_handle res" where
  "get_inode c s page do_error_corrections =
     (let e = fs_endianness (header s)
      in bindE (get_fields c e page 0 [8, 8, 2]) (\<lambda>hd.
         bindE (memcpy_from page 18 (hd ! 2)) (\<lambda>name.
         bindE (get_fields c e page (18 + hd ! 2) [8, 8, 4]) (\<lambda>tl.
         let pos = 38 + hd ! 2;
             f = new_handle\<lparr>fh_inode := default_inode\<lparr>inode_number := hd ! 0,
                   inode_version_number := hd ! 1, file_name_len := hd ! 2, file_name := name,
                   attributes := tl ! 0, file_len := tl ! 1, pages := tl ! 2\<rparr>\<rparr>
         in if tl ! 2 \<noteq> 0 then get_data_pages c s page do_error_corrections pos (tl ! 2) 0 f
            else if tl ! 1 > 0 then get_inline_data c s page pos f
            else Inr f))))"

text \<open>
  \<open>get_inode_file_name_mapped\<close>. The product of the page number and the page size is one of
  two \<open>uint32_t\<close>, and so is the sum.
\<close>

definition get_inode_file_name_mapped :: "'m config \<Rightarrow> 'm fs \<Rightarrow> file_handle \<Rightarrow> byte list option res" where
  "get_inode_file_name_mapped c s f =
     (if \<not> mem_can_map_read (flash c) (mem s) then Inr None
      else let ps = page_size (header s); offset = add32 ps (mul32 (fh_page f) ps)
      in bindE (mem_map_read (flash c) (mem s) offset ps) (\<lambda>addr.
         case addr of
           None \<Rightarrow> Inr None
         | Some page \<Rightarrow>
             bindE (get_field c (fs_endianness (header s)) page (8 + 8) 2) (\<lambda>len.
             bindE (memcpy_from page (8 + 8 + 2) len) (\<lambda>name. Inr (Some name)))))"

section \<open>Serialising\<close>

lemma put_checked_all_ok:
  assumes "\<forall>k < length fs. pos + sum_list (map fst (take k fs)) + 8 \<le> length page"
    "pos + sum_list (map fst fs) \<le> length page"
  shows "put_checked_all c e (pos, page) fs = put_fields c e (pos, page) fs"
  using assms
proof (induction fs arbitrary: pos page)
  case (Cons f fs)
  obtain sz v where f: "f = (sz, v)" by fastforce
  have a: "pos + 8 \<le> length page" using Cons.prems(1) [rule_format, of 0] by simp
  have b: "pos + sz \<le> length page" using Cons.prems(2) f by simp
  have step: "\<forall>k < length fs. (pos + sz) + sum_list (map fst (take k fs)) + 8 \<le>
      length (overlay page pos (put_scalar (native c) e sz v))"
  proof (intro allI impI)
    fix k assume "k < length fs"
    then show "(pos + sz) + sum_list (map fst (take k fs)) + 8 \<le>
        length (overlay page pos (put_scalar (native c) e sz v))"
      using Cons.prems(1) [rule_format, of "Suc k"] b by (simp add: f add.assoc)
  qed
  show ?case
    using a b Cons.IH [OF step] Cons.prems(2)
    by (simp add: f put_checked_def put_field_def memcpy_to_ok)
qed simp

lemma put_checked_all_throws:
  assumes "k < length fs" "length page < pos + sum_list (map fst (take k fs)) + 8"
    "\<forall>f \<in> set fs. fst f \<le> 8"
  shows "put_checked_all c e (pos, page) fs = Inl Out_of_range"
  using assms
proof (induction fs arbitrary: pos page k)
  case (Cons f fs)
  obtain sz v where f: "f = (sz, v)" by fastforce
  show ?case
  proof (cases "pos + 8 \<le> length page")
    case True
    then have b: "pos + sz \<le> length page" using Cons.prems(3) f by auto
    from True Cons.prems(2) obtain j where k: "k = Suc j" by (cases k) auto
    have "put_checked_all c e (pos + sz, overlay page pos (put_scalar (native c) e sz v)) fs = Inl Out_of_range"
      using Cons.prems k f b by (intro Cons.IH [of j]) (simp_all add: add.assoc)
    with True b show ?thesis by (simp add: f put_checked_def put_field_def memcpy_to_ok)
  next
    case False
    then show ?thesis by (simp add: f put_checked_def)
  qed
qed simp

text \<open>The bytes an inode occupies before its inline data, and how many they are.\<close>

definition inode_bytes :: "'m config \<Rightarrow> endianness \<Rightarrow> inode \<Rightarrow> byte list" where
  "inode_bytes c e i = fields_bytes c e (inode_head i) @ file_name i @ fields_bytes c e (inode_tail i)"

definition inode_size :: "inode \<Rightarrow> nat" where
  "inode_size i = 38 + file_name_len i + 4 * length (data_pages i)"

text \<open>The representation invariant of an inode: its fields fit their widths.\<close>

definition inode_wf :: "inode \<Rightarrow> bool" where
  "inode_wf i \<longleftrightarrow> inode_number i < 2 ^ 64 \<and> inode_version_number i < 2 ^ 64
     \<and> file_name_len i = length (file_name i) \<and> file_name_len i < 2 ^ 16 \<and> attributes i < 2 ^ 64
     \<and> file_len i < 2 ^ 64 \<and> length (data_pages i) < 2 ^ 32
     \<and> (\<forall>p \<in> set (data_pages i). page_id p < 2 ^ 32)"

lemma inode_tail_wf: "inode_wf i \<Longrightarrow> inode_tail i =
  [(8, attributes i), (8, file_len i), (4, length (data_pages i))] @ map (\<lambda>p. (4, page_id p)) (data_pages i)"
  by (simp add: inode_tail_def inode_wf_def)

lemma sum_list_const4 [simp]: "sum_list (map (\<lambda>p. 4) xs) = 4 * length xs" for xs :: "'a list"
  by (induction xs) auto

lemma map_fst_tail: "inode_wf i \<Longrightarrow> map fst (inode_tail i) = [8, 8, 4] @ map (\<lambda>p. 4) (data_pages i)"
  by (simp add: inode_tail_wf o_def)

lemma length_inode_bytes: "inode_wf i \<Longrightarrow> length (inode_bytes c e i) = inode_size i"
  by (simp add: inode_bytes_def length_fields_bytes inode_head_def map_fst_tail inode_size_def inode_wf_def)

lemma sum_take_le:
  "k < length xs \<Longrightarrow> sum_list (take k xs) + xs ! k \<le> sum_list xs" for xs :: "nat list"
proof -
  assume k: "k < length xs"
  have "sum_list xs = sum_list (take (Suc k) xs) + sum_list (drop (Suc k) xs)"
    by (metis append_take_drop_id sum_list_append)
  moreover have "sum_list (take (Suc k) xs) = sum_list (take k xs) + xs ! k"
    using k by (simp add: take_Suc_conv_app_nth)
  ultimately show ?thesis by simp
qed

lemma sum_tail: "inode_wf i \<Longrightarrow> sum_list (map fst (inode_tail i)) = 20 + 4 * length (data_pages i)"
  by (simp add: map_fst_tail)

lemma tail_width: "inode_wf i \<Longrightarrow> f \<in> set (inode_tail i) \<Longrightarrow> 4 \<le> fst f \<and> fst f \<le> 8"
  by (auto simp: inode_tail_wf)

lemma put_head_ok:
  assumes "24 \<le> length page"
  shows "put_checked_all c e (0, page) (inode_head i) =
    Inr (18, overlay page 0 (fields_bytes c e (inode_head i)))"
proof -
  have "\<forall>k < length (inode_head i). 0 + sum_list (map fst (take k (inode_head i))) + 8 \<le> length page"
    using assms by (auto simp: inode_head_def less_Suc_eq)
  moreover have "0 + sum_list (map fst (inode_head i)) \<le> length page" using assms by (simp add: inode_head_def)
  ultimately show ?thesis
    using put_fields_ok [of 0 "inode_head i" page c e] by (simp add: put_checked_all_ok) (simp add: inode_head_def)
qed

lemma put_tail_ok:
  assumes "inode_wf i" "inode_size i + 4 \<le> length page" "pos = 18 + file_name_len i"
  shows "put_checked_all c e (pos, page) (inode_tail i) =
    Inr (inode_size i, overlay page pos (fields_bytes c e (inode_tail i)))"
proof -
  let ?t = "inode_tail i"
  have tot: "pos + sum_list (map fst ?t) = inode_size i"
    using sum_tail [OF assms(1)] assms(3) by (simp add: inode_size_def)
  have "pos + sum_list (map fst (take k ?t)) + 8 \<le> length page" if "k < length ?t" for k
  proof -
    have "sum_list (take k (map fst ?t)) + map fst ?t ! k \<le> sum_list (map fst ?t)"
      using that by (intro sum_take_le) simp
    moreover have "4 \<le> map fst ?t ! k" using tail_width [OF assms(1) nth_mem [OF that]] that by simp
    ultimately show ?thesis using tot assms(2) by (simp add: take_map)
  qed
  then show ?thesis using put_fields_ok [of pos ?t page c e] tot assms(2) by (simp add: put_checked_all_ok)
qed

lemma put_tail_throws:
  assumes "inode_wf i" "length page < inode_size i + 4" "pos = 18 + file_name_len i"
  shows "put_checked_all c e (pos, page) (inode_tail i) = Inl Out_of_range"
proof -
  let ?t = "inode_tail i"
  let ?k = "length (data_pages i) + 2"
  have len: "length ?t = ?k + 1" using assms(1) by (simp add: inode_tail_wf)
  have "map fst (take ?k ?t) = butlast (map fst ?t)"
    using len by (simp add: butlast_conv_take take_map)
  also have "map fst ?t = butlast (map fst ?t) @ [4]"
    using map_fst_tail [OF assms(1)] by (cases "data_pages i" rule: rev_cases) simp_all
  then have "sum_list (map fst ?t) = sum_list (butlast (map fst ?t)) + 4"
    by (metis sum_list_append sum_list.Cons sum_list.Nil add.right_neutral)
  then have "sum_list (butlast (map fst ?t)) = 16 + 4 * length (data_pages i)"
    using sum_tail [OF assms(1)] by simp
  finally have "sum_list (map fst (take ?k ?t)) = 16 + 4 * length (data_pages i)" .
  then show ?thesis
    using assms(2,3) len tail_width [OF assms(1)]
    by (intro put_checked_all_throws [of ?k]) (auto simp: inode_size_def)
qed

definition inline_part :: "inode \<Rightarrow> byte list" where
  "inline_part i = (if data_pages i = [] \<and> file_len i > 0 then inode_data i else [])"

lemma overlay_prefix: "length d \<le> n \<Longrightarrow> overlay (replicate n z) 0 d = d @ replicate (n - length d) z"
  by (simp add: overlay_def)

lemma inode2page_ok:
  assumes "inode_wf i" "inode_size i + 4 \<le> page_size (header s)"
    "inode_size i + length (inline_part i) \<le> page_size (header s)"
  shows "inode2page c s i = Inr (inode_bytes c (fs_endianness (header s)) i @ inline_part i
    @ replicate (page_size (header s) - inode_size i - length (inline_part i)) 0)"
proof -
  let ?n = "page_size (header s)" and ?e = "fs_endianness (header s)"
  let ?h = "fields_bytes c ?e (inode_head i)" and ?t = "fields_bytes c ?e (inode_tail i)"
  let ?z = "replicate ?n 0 :: byte list"
  have wf: "file_name_len i = length (file_name i)" "length (data_pages i) mod 2 ^ 32 = length (data_pages i)"
    using assms(1) by (simp_all add: inode_wf_def)
  have len: "length ?h = 18" "length ?t = 20 + 4 * length (data_pages i)"
    by (simp_all add: length_fields_bytes inode_head_def sum_tail [OF assms(1)])
  have sz: "length (inode_bytes c ?e i) = inode_size i" by (rule length_inode_bytes [OF assms(1)])
  have fits: "24 \<le> ?n" "18 + length (file_name i) \<le> ?n" "inode_size i = 18 + length (file_name i) + length ?t"
    using assms(2) len wf by (simp_all add: inode_size_def)
  have o2: "overlay (overlay ?z 0 ?h) 18 (file_name i) = overlay ?z 0 (?h @ file_name i)"
    using overlay_append [of 0 ?h "file_name i" ?z] fits len by simp
  have o3: "overlay (overlay ?z 0 (?h @ file_name i)) (18 + length (file_name i)) ?t = overlay ?z 0 (inode_bytes c ?e i)"
    using overlay_append [of 0 "?h @ file_name i" ?t ?z] fits len assms(2) by (simp add: inode_bytes_def)
  have tl: "put_checked_all c ?e (18 + length (file_name i), overlay ?z 0 (?h @ file_name i)) (inode_tail i)
      = Inr (inode_size i, overlay ?z 0 (inode_bytes c ?e i))"
    using put_tail_ok [OF assms(1), of "overlay ?z 0 (?h @ file_name i)" _ c ?e] assms(2) wf(1) o3 len fits
    by simp
  have ov: "overlay ?z 0 (inode_bytes c ?e i) = inode_bytes c ?e i @ replicate (?n - inode_size i) 0"
    using overlay_prefix [of "inode_bytes c ?e i" ?n] sz assms(2) by simp
  have "inode2page c s i = (if data_pages i = [] \<and> file_len i > 0
      then memcpy_to (overlay ?z 0 (inode_bytes c ?e i)) (inode_size i) (inode_data i)
      else Inr (overlay ?z 0 (inode_bytes c ?e i)))"
    using put_head_ok [of ?z c ?e i] fits len o2 tl wf
    by (simp add: inode2page_def Let_def memcpy_from_ok memcpy_to_ok)
  also have "\<dots> = Inr (inode_bytes c ?e i @ inline_part i @ replicate (?n - inode_size i - length (inline_part i)) 0)"
    using assms(2,3) sz by (auto simp: inline_part_def ov memcpy_to_ok overlay_def)
  finally show ?thesis .
qed

lemma inode2page_throws:
  assumes "inode_wf i" "page_size (header s) < inode_size i + 4" "24 \<le> page_size (header s)"
    "18 + file_name_len i \<le> page_size (header s)"
  shows "inode2page c s i = Inl Out_of_range"
proof -
  let ?n = "page_size (header s)" and ?e = "fs_endianness (header s)"
  let ?h = "fields_bytes c ?e (inode_head i)"
  let ?p = "overlay (overlay (replicate ?n 0) 0 ?h) 18 (file_name i)"
  have wf: "file_name_len i = length (file_name i)" using assms(1) by (simp add: inode_wf_def)
  have len: "length ?h = 18" by (simp add: length_fields_bytes inode_head_def)
  have "length ?p = ?n" using assms(3,4) len wf by simp
  then have "put_checked_all c ?e (18 + length (file_name i), ?p) (inode_tail i) = Inl Out_of_range"
    using put_tail_throws [OF assms(1), of ?p _ c ?e] assms(2) wf by simp
  then show ?thesis
    using put_head_ok [of "replicate ?n 0" c ?e i] assms(3,4) len wf
    by (simp add: inode2page_def Let_def memcpy_from_ok memcpy_to_ok)
qed

section \<open>Reading back\<close>

text \<open>The pages an error correction would leave alone.\<close>

definition pages_plausible :: "header \<Rightarrow> inode \<Rightarrow> bool" where
  "pages_plausible h i \<longleftrightarrow> (\<forall>p \<in> set (data_pages i). page_id p < filesystem_size h)
     \<and> (data_pages i \<noteq> [] \<longrightarrow> (length (data_pages i) - 1) * page_size h < file_len i)"

definition stored_page :: "data_page \<Rightarrow> data_page" where
  "stored_page p = \<lparr>page_id = page_id p, dp_state = Stored\<rparr>"

text \<open>What reading a stored inode gives: the page list as it was written, all pages stored.\<close>

definition reread :: "nat \<Rightarrow> inode \<Rightarrow> inode" where
  "reread ps i = i\<lparr>pages := length (data_pages i), data_pages := map stored_page (data_pages i),
     inode_data := (if data_pages i = [] \<and> file_len i > 0
       then take (file_len i) (inode_data i) @ replicate (ps - (42 + file_name_len i) - file_len i) 0
       else [])\<rparr>"

lemma get_data_pages_ok:
  assumes "slice pos (4 * length ds) page = fields_bytes c' (fs_endianness (header s)) (map (\<lambda>p. (4, page_id p)) ds)"
    "pos + 4 * length ds \<le> length page" "\<forall>p \<in> set ds. page_id p < 2 ^ 32"
    "file_len (fh_inode f) < 2 ^ 64"
    "fix \<Longrightarrow> \<forall>p \<in> set ds. page_id p < filesystem_size (header s)"
    "fix \<Longrightarrow> ds \<noteq> [] \<Longrightarrow> lr + (length ds - 1) * page_size (header s) < file_len (fh_inode f)"
  shows "get_data_pages c s page fix pos (length ds) lr f =
    Inr (f\<lparr>fh_inode := (fh_inode f)\<lparr>data_pages := data_pages (fh_inode f) @ map stored_page ds\<rparr>\<rparr>)"
  using assms
proof (induction ds arbitrary: pos lr f)
  case (Cons d ds)
  let ?e = "fs_endianness (header s)" and ?ps = "page_size (header s)"
  let ?f = "f\<lparr>fh_inode := (fh_inode f)\<lparr>data_pages := data_pages (fh_inode f) @ [stored_page d]\<rparr>\<rparr>"
  have "slice pos (4 * length (d # ds)) page = put_scalar (native c') ?e 4 (page_id d)
      @ fields_bytes c' ?e (map (\<lambda>p. (4, page_id p)) ds)" using Cons.prems(1) by simp
  from slice_append_split [OF this Cons.prems(2)] have
    sl: "slice pos 4 page = put_scalar (native c') ?e 4 (page_id d)"
      "slice (pos + 4) (4 * length ds) page = fields_bytes c' ?e (map (\<lambda>p. (4, page_id p)) ds)"
    by (simp_all add: length_fields_bytes o_def)
  have g: "get_field c ?e page pos 4 = Inr (page_id d)"
    using sl(1) Cons.prems(2,3) by (simp add: get_field_def memcpy_from_ok get_put_scalar)
  have next_lr: "add64 lr ?ps + (length ds - 1) * ?ps < file_len (fh_inode ?f)" if "fix" "ds \<noteq> []"
  proof -
    have le: "lr + length ds * ?ps < file_len (fh_inode f)" using Cons.prems(6) that by simp
    moreover have "length ds * ?ps = ?ps + (length ds - 1) * ?ps" using that(2) by (cases ds) simp_all
    ultimately have "lr + ?ps + (length ds - 1) * ?ps < file_len (fh_inode f)" "lr + ?ps < 2 ^ 64"
      using Cons.prems(4) by simp_all
    then show ?thesis by (simp add: add64_small)
  qed
  have "get_data_pages c s page fix (pos + 4) (length ds) (add64 lr ?ps) ?f =
      Inr (?f\<lparr>fh_inode := (fh_inode ?f)\<lparr>data_pages := data_pages (fh_inode ?f) @ map stored_page ds\<rparr>\<rparr>)"
    using Cons.prems next_lr sl(2) by (intro Cons.IH) simp_all
  moreover have "\<not> (fix \<and> filesystem_size (header s) \<le> page_id d)" using Cons.prems(5) by auto
  moreover have "\<not> (fix \<and> file_len (fh_inode f) \<le> lr)" using Cons.prems(6) by auto
  ultimately show ?case by (auto simp: g stored_page_def)
qed simp

lemma get_inode_ok:
  assumes wf: "inode_wf i" and le: "inode_size i + 4 \<le> length page"
    and ps: "length page = page_size (header s)" "page_size (header s) < 2 ^ 63"
    and bytes: "take (inode_size i) page = inode_bytes c' (fs_endianness (header s)) i"
    and inline: "data_pages i = [] \<Longrightarrow> 0 < file_len i \<Longrightarrow> inode_size i + file_len i + 4 \<le> length page
      \<and> slice (inode_size i) (file_len i) page = take (file_len i) (inode_data i)"
    and plausible: "fix \<Longrightarrow> pages_plausible (header s) i"
  shows "get_inode c s page fix = Inr (new_handle\<lparr>fh_inode := reread (page_size (header s)) i\<rparr>)"
proof -
  let ?e = "fs_endianness (header s)" and ?nl = "file_name_len i"
  let ?h = "fields_bytes c' ?e (inode_head i)"
  let ?t3 = "[(8, attributes i), (8, file_len i), (4, length (data_pages i))]"
  let ?ids = "map (\<lambda>p. (4, page_id p)) (data_pages i)"
  have nl: "?nl = length (file_name i)" using wf by (simp add: inode_wf_def)
  have all: "slice 0 (inode_size i) page = ?h @ (file_name i @ fields_bytes c' ?e (?t3 @ ?ids))"
    using bytes by (simp add: slice_def inode_bytes_def inode_tail_wf [OF wf])
  have ll: "length ?h = 18" "length (fields_bytes c' ?e ?t3) = 20"
    "length (fields_bytes c' ?e ?ids) = 4 * length (data_pages i)"
    by (simp_all add: length_fields_bytes inode_head_def o_def)
  have split3: "fields_bytes c' ?e (?t3 @ ?ids) = fields_bytes c' ?e ?t3 @ fields_bytes c' ?e ?ids"
    by (simp add: fields_bytes_def)
  have len0: "0 + inode_size i \<le> length page" using le by simp
  from slice_append_split [OF all len0] ll have
    s1: "slice 0 18 page = ?h"
      "slice 18 (?nl + (20 + 4 * length (data_pages i))) page = file_name i @ fields_bytes c' ?e (?t3 @ ?ids)"
    by (simp_all add: split3 nl)
  from slice_append_split [OF s1(2)] le ll have
    s2: "slice 18 ?nl page = file_name i"
      "slice (18 + ?nl) (20 + 4 * length (data_pages i)) page = fields_bytes c' ?e ?t3 @ fields_bytes c' ?e ?ids"
    by (simp_all add: inode_size_def nl split3)
  from slice_append_split [OF s2(2)] le ll have
    s3: "slice (18 + ?nl) 20 page = fields_bytes c' ?e ?t3"
      "slice (38 + ?nl) (4 * length (data_pages i)) page = fields_bytes c' ?e ?ids"
    by (simp_all add: inode_size_def)
  have b: "\<forall>(sz, v) \<in> set (inode_head i). v < 256 ^ sz" "\<forall>(sz, v) \<in> set ?t3. v < 256 ^ sz"
    using wf by (simp_all add: inode_wf_def inode_head_def)
  have g1: "get_fields c ?e page 0 [8, 8, 2] = Inr [inode_number i, inode_version_number i, ?nl]"
    using get_fields_ok [of 0 "inode_head i" page c' ?e c, OF _ _ b(1)] s1(1) le
    by (simp add: inode_head_def inode_size_def)
  have g2: "get_fields c ?e page (18 + ?nl) [8, 8, 4] = Inr [attributes i, file_len i, length (data_pages i)]"
    using get_fields_ok [of "18 + ?nl" ?t3 page c' ?e c, OF _ _ b(2)] s3(1) le
    by (simp add: inode_size_def)
  have nm: "memcpy_from page 18 ?nl = Inr (file_name i)"
    using s2(1) le by (simp add: memcpy_from_ok inode_size_def)
  define f where "f = new_handle\<lparr>fh_inode := default_inode\<lparr>inode_number := inode_number i,
      inode_version_number := inode_version_number i, file_name_len := ?nl, file_name := file_name i,
      attributes := attributes i, file_len := file_len i, pages := length (data_pages i)\<rparr>\<rparr>"
  have gi: "get_inode c s page fix = (if data_pages i \<noteq> []
      then get_data_pages c s page fix (38 + ?nl) (length (data_pages i)) 0 f
      else if 0 < file_len i then get_inline_data c s page (38 + ?nl) f else Inr f)"
    using g1 g2 nm by (simp add: get_inode_def Let_def f_def)
  have f0: "fh_inode f = i\<lparr>pages := length (data_pages i), data_pages := [], inode_data := []\<rparr>"
    by (simp add: f_def default_inode_def)
  have f1: "f\<lparr>fh_inode := j\<rparr> = new_handle\<lparr>fh_inode := j\<rparr>" for j by (simp add: f_def)
  show ?thesis
  proof (cases "data_pages i = []")
    case False
    have "get_data_pages c s page fix (38 + ?nl) (length (data_pages i)) 0 f =
        Inr (f\<lparr>fh_inode := (fh_inode f)\<lparr>data_pages := data_pages (fh_inode f) @ map stored_page (data_pages i)\<rparr>\<rparr>)"
      using wf s3(2) le plausible by (intro get_data_pages_ok [where c' = c'])
        (auto simp: inode_wf_def inode_size_def f0 pages_plausible_def)
    with gi False show ?thesis by (simp only: f1) (simp add: f0 reread_def)
  next
    case True
    show ?thesis
    proof (cases "0 < file_len i")
      case False
      have "f = new_handle\<lparr>fh_inode := fh_inode f\<rparr>" by (simp add: f_def)
      with gi True False show ?thesis by (simp add: f0 reread_def)
    next
      case pos: True
      from inline [OF True pos] have il: "inode_size i + file_len i + 4 \<le> length page"
        "slice (38 + ?nl) (file_len i) page = take (file_len i) (inode_data i)"
        by (simp_all add: inode_size_def True)
      have sp: "get_inode_data_space_size s (fh_inode f) = length page - (42 + ?nl)"
        using inode_space [of "fh_inode f" s] le ps by (simp add: f0 inode_size_def)
      have tl: "length (take (file_len i) (inode_data i)) = file_len i"
        using il length_slice [of "38 + ?nl" "file_len i" page] by (simp add: inode_size_def True)
      have "get_inline_data c s page (38 + ?nl) f =
          Inr (f\<lparr>fh_inode := (fh_inode f)\<lparr>inode_data := take (file_len i) (inode_data i)
            @ replicate (length page - (42 + ?nl) - file_len i) 0\<rparr>\<rparr>)"
        using il sp tl ps le less_imp_diff_less [OF ps(2), of "42 + ?nl"]
        by (simp add: get_inline_data_def Let_def f0 vec_resize_def memcpy_from_ok memcpy_to_ok
            overlay_prefix inode_size_def True)
      with gi True pos show ?thesis by (simp only: f1) (simp add: f0 reread_def ps)
    qed
  qed
qed

section \<open>The stored form of an inode\<close>

text \<open>What happens when something does not fit: the name, and the inline data.\<close>

lemma inode2page_name_overruns:
  assumes "inode_wf i" "24 \<le> page_size (header s)" "page_size (header s) < 18 + file_name_len i"
  shows "inode2page c s i = Inl Undefined"
proof -
  have "length (fields_bytes c e (inode_head i)) = 18" for e
    by (simp add: length_fields_bytes inode_head_def)
  then show ?thesis
    using put_head_ok [of "replicate (page_size (header s)) 0" c "fs_endianness (header s)" i] assms
    by (simp add: inode2page_def Let_def memcpy_from_ok inode_wf_def) (simp add: memcpy_to_def)
qed

lemma inode2page_narrow:
  assumes "page_size (header s) < 24"
  shows "inode2page c s i = Inl Out_of_range"
proof -
  have "put_checked_all c (fs_endianness (header s)) (0, replicate (page_size (header s)) 0) (inode_head i) =
      Inl Out_of_range"
    using assms by (intro put_checked_all_throws [of 2]) (auto simp: inode_head_def)
  then show ?thesis by (simp add: inode2page_def Let_def)
qed

lemma inode2page_data_overruns:
  assumes wf: "inode_wf i" and fit: "inode_size i + 4 \<le> page_size (header s)"
    and over: "page_size (header s) < inode_size i + length (inline_part i)"
  shows "inode2page c s i = Inl Undefined"
proof -
  let ?n = "page_size (header s)" and ?e = "fs_endianness (header s)"
  let ?z = "replicate ?n 0 :: byte list"
  have il: "data_pages i = []" "0 < file_len i" "inline_part i = inode_data i"
    using over fit by (auto simp: inline_part_def split: if_splits)
  have nl: "file_name_len i = length (file_name i)" using wf by (simp add: inode_wf_def)
  have room: "24 \<le> ?n" "18 + length (file_name i) \<le> ?n" using fit nl by (simp_all add: inode_size_def)
  have len: "length (fields_bytes c ?e (inode_head i)) = 18"
    "length (fields_bytes c ?e (inode_tail i)) = 20" "inode_size i = 38 + length (file_name i)"
    using sum_tail [OF wf] il(1) nl by (simp_all add: length_fields_bytes inode_head_def inode_size_def)
  show ?thesis
    using put_head_ok [of ?z c ?e i] put_tail_ok [OF wf, of _ "18 + file_name_len i" c ?e] room fit over il nl len
    by (simp add: inode2page_def Let_def memcpy_from_ok memcpy_to_ok) (simp add: memcpy_to_def)
qed

text \<open>
  C30. What storing an inode whose fields fit their widths yields, for pages of any size \<open>n\<close>
  and in every case. Pages too narrow for the first fields throw; a name that is longer than
  the rest of the page is copied over its end, which is undefined; page numbers that would
  reach into the checksum throw; inline data that is longer than what is left of the page is
  copied over its end, which is undefined. Otherwise the page is the bytes of the inode, its
  inline data and zeros. To a page that was produced the checksum can be added, which leaves
  everything before it as it is.
\<close>

theorem inode2page_exactly:
  assumes "inode_wf i" "n = page_size (header s)" "e = fs_endianness (header s)"
  shows "inode2page c s i =
      (if n < 24 then Inl Out_of_range
       else if n < 18 + file_name_len i then Inl Undefined
       else if n < inode_size i + 4 then Inl Out_of_range
       else if n < inode_size i + length (inline_part i) then Inl Undefined
       else Inr (inode_bytes c e i @ inline_part i @ replicate (n - inode_size i - length (inline_part i)) 0))
    \<and> (\<forall>page. inode2page c s i = Inr page \<longrightarrow>
        (\<exists>page'. add_page_checksum c s page = Inr page' \<and> length page' = n
          \<and> take (n - 4) page' = take (n - 4) page \<and> checksum_ok c e page'
          \<and> take (inode_size i) page' = inode_bytes c e i))"
proof -
  let ?p = "inode_bytes c e i @ inline_part i @ replicate (n - inode_size i - length (inline_part i)) 0"
  have cases: "inode2page c s i =
      (if n < 24 then Inl Out_of_range
       else if n < 18 + file_name_len i then Inl Undefined
       else if n < inode_size i + 4 then Inl Out_of_range
       else if n < inode_size i + length (inline_part i) then Inl Undefined
       else Inr ?p)"
    using inode2page_narrow [of s c i] inode2page_name_overruns [OF assms(1), of s c]
      inode2page_throws [OF assms(1), of s c] inode2page_data_overruns [OF assms(1), of s c]
      inode2page_ok [OF assms(1), of s c] assms(2,3)
    by (simp add: not_less)
  have "\<exists>page'. add_page_checksum c s page = Inr page' \<and> length page' = n
      \<and> take (n - 4) page' = take (n - 4) page \<and> checksum_ok c e page'
      \<and> take (inode_size i) page' = inode_bytes c e i" if "inode2page c s i = Inr page" for page
  proof -
    from that have page: "page = ?p" "inode_size i + 4 \<le> n" "inode_size i + length (inline_part i) \<le> n"
      unfolding cases by (auto split: if_splits)
    have ib: "length (inode_bytes c e i) = inode_size i" by (rule length_inode_bytes [OF assms(1)])
    have len: "length page = n" using page ib by simp
    have a: "add_page_checksum c s page = Inr (take (n - 4) page @ checksum_bytes c e page)"
      using add_page_checksum_ok [of page c s] page(2) len assms(3) by simp
    have "checksum_ok c e (take (n - 4) page @ checksum_bytes c e page)"
      using checksum_ok_added [of page c "native c" c e] page(2) len by simp
    then show ?thesis
      using a page(2) len ib by (simp add: checksum_bytes_def) (simp add: page(1))
  qed
  with cases show ?thesis by blast
qed

theorem inode2page_exactly_witness:
  "\<exists>page. inode2page (sim_config 0 (\<lambda>_. 7) LE False)
     (SimpleFlashFsBase (SimFlash_create [] 256)\<lparr>header := default_header\<lparr>page_size := 64\<rparr>\<rparr>)
     (default_inode\<lparr>file_name := [97, 98], file_name_len := 2, file_len := 100,
        data_pages := [\<lparr>page_id = 5, dp_state = Stored\<rparr>, \<lparr>page_id = 9, dp_state = Stored\<rparr>]\<rparr>) = Inr page"
proof -
  let ?i = "default_inode\<lparr>file_name := [97, 98], file_name_len := 2, file_len := 100,
        data_pages := [\<lparr>page_id = 5, dp_state = Stored\<rparr>, \<lparr>page_id = 9, dp_state = Stored\<rparr>]\<rparr>"
  let ?s = "SimpleFlashFsBase (SimFlash_create [] 256)\<lparr>header := default_header\<lparr>page_size := 64\<rparr>\<rparr>"
  have wf: "inode_wf ?i" by (simp add: inode_wf_def default_inode_def)
  have "inode_size ?i = 48" "inline_part ?i = []" "page_size (header ?s) = 64"
    by (simp_all add: inode_size_def inline_part_def)
  then show ?thesis using inode2page_exactly [OF wf refl refl, of "sim_config 0 (\<lambda>_. 7) LE False" ?s] by auto
qed

text \<open>
  C12. Reading a page that was made from an inode and its checksum gives the inode back, in
  either byte order of the machine that reads, with the error correction and without it: the
  pages are stored pages, and the inline data is what the file length covers. The error
  correction does not interfere when the page numbers exist and the file reaches into its last
  page.
\<close>

theorem inode_roundtrip:
  assumes "inode_wf i" "inode_size i + 4 \<le> page_size (header s)" "page_size (header s) < 2 ^ 63"
    "data_pages i = [] \<Longrightarrow> 0 < file_len i \<Longrightarrow>
      file_len i \<le> length (inode_data i) \<and> inode_size i + length (inode_data i) + 4 \<le> page_size (header s)"
    "fix \<Longrightarrow> pages_plausible (header s) i" "header s' = header s"
  shows "\<exists>page page'. inode2page c s i = Inr page \<and> add_page_checksum c s page = Inr page'
    \<and> get_inode c' s' page' fix = Inr (new_handle\<lparr>fh_inode := reread (page_size (header s)) i\<rparr>)"
proof -
  let ?n = "page_size (header s)" and ?e = "fs_endianness (header s)"
  have fit: "inode_size i + length (inline_part i) + 4 \<le> ?n"
    using assms(2,4) by (simp add: inline_part_def)
  then have fit': "inode_size i + length (inline_part i) \<le> ?n" by simp
  define page where "page = inode_bytes c ?e i @ inline_part i
    @ replicate (?n - inode_size i - length (inline_part i)) 0"
  have e: "inode2page c s i = Inr page" unfolding page_def by (rule inode2page_ok [OF assms(1,2) fit'])
  have ib: "length (inode_bytes c ?e i) = inode_size i" by (rule length_inode_bytes [OF assms(1)])
  have len: "length page = ?n" using fit ib by (simp add: page_def)
  define page' where "page' = take (?n - 4) page @ checksum_bytes c ?e page"
  have a: "add_page_checksum c s page = Inr page'"
    using add_page_checksum_ok [of page c s] assms(2) len by (simp add: page'_def)
  have len': "length page' = ?n" using len assms(2) by (simp add: page'_def checksum_bytes_def)
  have bytes: "take (inode_size i) page' = inode_bytes c ?e i"
    using assms(2) ib len by (simp add: page'_def) (simp add: page_def)
  have inl: "inode_size i + file_len i + 4 \<le> length page'
      \<and> slice (inode_size i) (file_len i) page' = take (file_len i) (inode_data i)"
    if "data_pages i = []" "0 < file_len i"
  proof
    show "inode_size i + file_len i + 4 \<le> length page'" using assms(4) [OF that] len' by simp
    then have "inode_size i + file_len i \<le> ?n - 4" using len' by simp
    then have "slice (inode_size i) (file_len i) page' = slice (inode_size i) (file_len i) page"
      using len by (simp add: page'_def slice_def drop_take)
    also have "\<dots> = take (file_len i) (inode_data i)"
      using assms(4) [OF that] ib that by (simp add: page_def slice_def inline_part_def)
    finally show "slice (inode_size i) (file_len i) page' = take (file_len i) (inode_data i)" .
  qed
  have "get_inode c' s' page' fix = Inr (new_handle\<lparr>fh_inode := reread (page_size (header s')) i\<rparr>)"
    using assms(1-3,5,6) len' bytes inl by (intro get_inode_ok [where c' = c]) simp_all
  with e a show ?thesis using assms(6) by simp
qed

theorem inode_roundtrip_witness:
  "\<exists>page page'. inode2page (sim_config 0 (\<lambda>_. 7) LE False)
     (SimpleFlashFsBase (SimFlash_create [] 256)\<lparr>header := default_header\<lparr>page_size := 64\<rparr>\<rparr>)
     (default_inode\<lparr>inode_number := 3, file_name := [97], file_name_len := 1, file_len := 2,
        inode_data := [10, 11, 12]\<rparr>) = Inr page
   \<and> (\<exists>f. get_inode (sim_config 0 (\<lambda>_. 7) BE False)
     (SimpleFlashFsBase (SimFlash_create [] 256)\<lparr>header := default_header\<lparr>page_size := 64\<rparr>\<rparr>) page' True = Inr f
     \<and> inode_number (fh_inode f) = 3 \<and> take 2 (inode_data (fh_inode f)) = [10, 11])"
proof -
  let ?i = "default_inode\<lparr>inode_number := 3, file_name := [97], file_name_len := 1, file_len := 2,
        inode_data := [10, 11, 12]\<rparr>"
  let ?s = "SimpleFlashFsBase (SimFlash_create [] 256)\<lparr>header := default_header\<lparr>page_size := 64\<rparr>\<rparr>"
  have wf: "inode_wf ?i" by (simp add: inode_wf_def default_inode_def)
  have h: "inode_size ?i + 4 \<le> page_size (header ?s)" "page_size (header ?s) < 2 ^ 63"
    "file_len ?i \<le> length (inode_data ?i) \<and> inode_size ?i + length (inode_data ?i) + 4 \<le> page_size (header ?s)"
    "pages_plausible (header ?s) ?i"
    by (simp_all add: inode_size_def default_inode_def pages_plausible_def)
  from inode_roundtrip [OF wf h(1,2) h(3) h(4) refl, of "sim_config 0 (\<lambda>_. 7) LE False"
        "sim_config 0 (\<lambda>_. 7) BE False" True] obtain page page' where
    "inode2page (sim_config 0 (\<lambda>_. 7) LE False) ?s ?i = Inr page"
    "get_inode (sim_config 0 (\<lambda>_. 7) BE False) ?s page' True =
      Inr (new_handle\<lparr>fh_inode := reread (page_size (header ?s)) ?i\<rparr>)" by blast
  then show ?thesis
    by (intro exI [of _ page] exI [of _ page']
        exI [of _ "new_handle\<lparr>fh_inode := reread (page_size (header ?s)) ?i\<rparr>"])
      (simp add: reread_def default_inode_def)
qed

end
