(* ===== verification/Alloc.thy ===== *)
theory Alloc
  imports InodeCodec Mount
begin

text \<open>
  Allocation of pages (\<open>src/base/SimpleFlashFsBase.h\<close>: \<open>allocate_free_inode_page\<close>,
  \<open>allocate_free_inode_page_number\<close> in their mapped and unmapped variants,
  \<open>allocate_free_data_page\<close>, \<open>free_unwritten_pages\<close>) and the table of inode versions.
  An inode page is free when its checksum does not match and nobody has claimed it; data pages
  come from the set \<open>free_data_pages\<close>, lowest first.
\<close>

section \<open>The table of inode versions\<close>

datatype add_ret = replaced | inserted

text \<open>The constructor and the assignment from a file handle.\<close>

definition InodeVersion :: "file_handle \<Rightarrow> inode_version" where
  "InodeVersion f = \<lparr>iv_inode = inode_number (fh_inode f), iv_page = fh_page f,
     iv_version = inode_version_number (fh_inode f)\<rparr>"

text \<open>\<open>add\<close> with the pair it reports the previous entry in.\<close>

fun InodeVersionStore_add ::
  "inode_version list \<Rightarrow> file_handle \<Rightarrow> nat \<times> nat \<Rightarrow> add_ret \<times> (nat \<times> nat) \<times> inode_version list" where
  "InodeVersionStore_add [] f prev = (inserted, prev, [InodeVersion f])"
| "InodeVersionStore_add (iv # ivs) f prev =
     (if iv_inode iv = inode_number (fh_inode f) then
        (replaced, (iv_inode iv, iv_version iv),
         (if inode_version_number (fh_inode f) > iv_version iv
          then iv\<lparr>iv_version := inode_version_number (fh_inode f), iv_page := fh_page f\<rparr>
          else iv) # ivs)
      else (case InodeVersionStore_add ivs f prev of (r, p, ivs') \<Rightarrow> (r, p, iv # ivs')))"

text \<open>What the file system does with the table: \<open>iv_storage.add( file_handle )\<close>.\<close>

definition iv_storage_add :: "'m fs \<Rightarrow> file_handle \<Rightarrow> add_ret \<times> 'm fs" where
  "iv_storage_add s f = (case InodeVersionStore_add (iv_storage s) f (0, 0) of
     (r, _, ivs) \<Rightarrow> (r, s\<lparr>iv_storage := ivs\<rparr>))"

section \<open>Inode pages\<close>

text \<open>Does page \<open>i\<close> hold no valid inode? The two ways to find out.\<close>

definition crc_error_unmapped :: "'m config \<Rightarrow> 'm fs \<Rightarrow> nat \<Rightarrow> (bool \<times> 'm fs) res" where
  "crc_error_unmapped c s i =
     bindE (read_page c s i (replicate (page_size (header s)) 0) True)
       (\<lambda>(err, page, s). Inr (err = Some CrcError, s))"

definition crc_error_mapped :: "'m config \<Rightarrow> 'm fs \<Rightarrow> nat \<Rightarrow> (bool \<times> 'm fs) res" where
  "crc_error_mapped c s i =
     bindE (read_page_mapped c s i (page_size (header s)) True)
       (\<lambda>(err, data). Inr (err = Some CrcError, s))"

text \<open>
  The loop that the four functions share, over the range \<open>r\<close> of inode pages, with \<open>i\<close> as its
  variable. A range whose limit is not a \<open>uint32_t\<close> does not exist in the source.
\<close>

function find_free_inode_page ::
  "('m fs \<Rightarrow> nat \<Rightarrow> (bool \<times> 'm fs) res) \<Rightarrow> 'm fs \<Rightarrow> inode_range \<Rightarrow> nat \<Rightarrow>
   (nat option \<times> inode_range \<times> 'm fs) res" where
  "find_free_inode_page crc_error s r i =
     (if \<not> range_has_next r then Inr (None, r, s)
      else if m_max r \<ge> 2 ^ 32 then Inl Undefined
      else bindE (crc_error s i) (\<lambda>(free, s).
        case PageSet_count (allocated_unwritten_pages s) i of (n, claimed) \<Rightarrow>
        if free \<and> n = 0 then
          Inr (Some i, r, s\<lparr>allocated_unwritten_pages := PageSet_insert claimed i\<rparr>)
        else
          let s = (if free then s\<lparr>allocated_unwritten_pages := claimed\<rparr> else s)
          in find_free_inode_page crc_error s (snd (range_next r)) (fst (range_next r))))"
  by pat_completeness auto
termination
  by (relation "measure (\<lambda>(_, _, r, _). m_max r - m_current r)")
    (auto simp: range_has_next_def range_next_def add32_def)

declare find_free_inode_page.simps [simp del]

definition allocate_inode_page_with ::
  "('m fs \<Rightarrow> nat \<Rightarrow> (bool \<times> 'm fs) res) \<Rightarrow> 'm fs \<Rightarrow> (nat option \<times> 'm fs) res" where
  "allocate_inode_page_with crc_error s =
     (case range_start (header_inode_range s) of (i, r) \<Rightarrow>
      bindE (find_free_inode_page crc_error s r i) (\<lambda>(p, r, s).
      Inr (p, s\<lparr>header_inode_range := r\<rparr>)))"

definition allocate_free_inode_page_number_unmapped :: "'m config \<Rightarrow> 'm fs \<Rightarrow> (nat option \<times> 'm fs) res" where
  "allocate_free_inode_page_number_unmapped c s = allocate_inode_page_with (crc_error_unmapped c) s"

definition allocate_free_inode_page_number_mapped :: "'m config \<Rightarrow> 'm fs \<Rightarrow> (nat option \<times> 'm fs) res" where
  "allocate_free_inode_page_number_mapped c s = allocate_inode_page_with (crc_error_mapped c) s"

definition allocate_free_inode_page_number :: "'m config \<Rightarrow> 'm fs \<Rightarrow> (nat option \<times> 'm fs) res" where
  "allocate_free_inode_page_number c s =
     (if mem_can_map_read (flash c) (mem s) then allocate_free_inode_page_number_mapped c s
      else allocate_free_inode_page_number_unmapped c s)"

text \<open>The variants that return a handle of the page; \<open>return {}\<close> is the empty handle.\<close>

definition handle_of_page :: "nat option \<Rightarrow> file_handle" where
  "handle_of_page p = (case p of None \<Rightarrow> empty_handle | Some i \<Rightarrow> new_handle\<lparr>fh_page := i\<rparr>)"

definition allocate_free_inode_page_unmapped :: "'m config \<Rightarrow> 'm fs \<Rightarrow> (file_handle \<times> 'm fs) res" where
  "allocate_free_inode_page_unmapped c s =
     bindE (allocate_inode_page_with (crc_error_unmapped c) s) (\<lambda>(p, s). Inr (handle_of_page p, s))"

definition allocate_free_inode_page_mapped :: "'m config \<Rightarrow> 'm fs \<Rightarrow> (file_handle \<times> 'm fs) res" where
  "allocate_free_inode_page_mapped c s =
     bindE (allocate_inode_page_with (crc_error_mapped c) s) (\<lambda>(p, s). Inr (handle_of_page p, s))"

definition allocate_free_inode_page :: "'m config \<Rightarrow> 'm fs \<Rightarrow> (file_handle \<times> 'm fs) res" where
  "allocate_free_inode_page c s =
     (if mem_can_map_read (flash c) (mem s) then allocate_free_inode_page_mapped c s
      else allocate_free_inode_page_unmapped c s)"

definition free_unwritten_pages :: "'m fs \<Rightarrow> nat \<Rightarrow> 'm fs" where
  "free_unwritten_pages s p =
     s\<lparr>allocated_unwritten_pages := snd (PageSet_erase (allocated_unwritten_pages s) p)\<rparr>"

section \<open>Data pages\<close>

definition allocate_free_data_page :: "'m fs \<Rightarrow> nat option \<times> 'm fs" where
  "allocate_free_data_page s =
     (case PageSet_empty (free_data_pages s) of (is_empty, ps) \<Rightarrow>
      if is_empty then (None, s\<lparr>free_data_pages := ps\<rparr>)
      else (Some (ps_data ps ! 0), s\<lparr>free_data_pages := PageSet_erase_at ps 0\<rparr>))"

definition allocate_free_data_page_for :: "'m fs \<Rightarrow> file_handle \<Rightarrow> nat option \<times> 'm fs" where
  "allocate_free_data_page_for s f =
     (let max_pages = get_max_inode_data_pages s (fh_inode f)
      in if length (data_pages (fh_inode f)) + 1 \<ge> max_pages then (None, s)
         else allocate_free_data_page s)"

section \<open>The table keeps the newest version\<close>

definition iv_lookup :: "inode_version list \<Rightarrow> nat \<Rightarrow> inode_version option" where
  "iv_lookup ivs n = find (\<lambda>iv. iv_inode iv = n) ivs"

lemma iv_add_lookup:
  "InodeVersionStore_add ivs f prev = (r, p, ivs') \<Longrightarrow>
   iv_lookup ivs' n =
     (if n = inode_number (fh_inode f) then
        (case iv_lookup ivs n of
           None \<Rightarrow> Some (InodeVersion f)
         | Some iv \<Rightarrow> Some (if inode_version_number (fh_inode f) > iv_version iv then InodeVersion f else iv))
      else iv_lookup ivs n)
   \<and> (r = inserted \<longleftrightarrow> iv_lookup ivs (inode_number (fh_inode f)) = None)
   \<and> map iv_inode ivs' = (if r = inserted then map iv_inode ivs @ [inode_number (fh_inode f)] else map iv_inode ivs)
   \<and> p = (case iv_lookup ivs (inode_number (fh_inode f)) of None \<Rightarrow> prev | Some iv \<Rightarrow> (iv_inode iv, iv_version iv))"
proof (induction ivs arbitrary: r p ivs')
  case (Cons iv ivs)
  obtain r0 p0 ivs0 where rec: "InodeVersionStore_add ivs f prev = (r0, p0, ivs0)"
    by (metis prod_cases3)
  from Cons.IH [OF rec] Cons.prems rec show ?case
    by (auto simp: iv_lookup_def InodeVersion_def split: if_splits)
qed (auto simp: iv_lookup_def InodeVersion_def)

definition iv_add_all :: "file_handle list \<Rightarrow> inode_version list" where
  "iv_add_all fs = foldl (\<lambda>ivs f. snd (snd (InodeVersionStore_add ivs f (0, 0)))) [] fs"

lemma iv_add_all_newest:
  shows "distinct (map iv_inode (iv_add_all fs))
    \<and> (\<forall>n. iv_lookup (iv_add_all fs) n = None \<longleftrightarrow> (\<forall>f \<in> set fs. inode_number (fh_inode f) \<noteq> n))
    \<and> (\<forall>n iv. iv_lookup (iv_add_all fs) n = Some iv \<longrightarrow>
        (\<exists>f \<in> set fs. iv = InodeVersion f \<and> inode_number (fh_inode f) = n)
        \<and> (\<forall>f \<in> set fs. inode_number (fh_inode f) = n \<longrightarrow> inode_version_number (fh_inode f) \<le> iv_version iv))"
proof (induction fs rule: rev_induct)
  case Nil
  then show ?case by (simp add: iv_add_all_def iv_lookup_def)
next
  case (snoc f fs)
  let ?ivs = "iv_add_all fs" and ?k = "inode_number (fh_inode f)"
  obtain r p ivs' where a: "InodeVersionStore_add ?ivs f (0, 0) = (r, p, ivs')" by (metis prod_cases3)
  have new: "iv_add_all (fs @ [f]) = ivs'" using a by (simp add: iv_add_all_def)
  note l = iv_add_lookup [OF a]
  have None_in: "iv_lookup ?ivs n = None \<longleftrightarrow> n \<notin> set (map iv_inode ?ivs)" for n
    by (auto simp: iv_lookup_def find_None_iff)
  have "distinct (map iv_inode ivs')" using l snoc.IH None_in [of ?k] by auto
  moreover have "iv_lookup ivs' n = None \<longleftrightarrow> (\<forall>g \<in> set (fs @ [f]). inode_number (fh_inode g) \<noteq> n)" for n
    using l [of n] snoc.IH by (auto split: option.splits if_splits)
  moreover have "(\<exists>g \<in> set (fs @ [f]). iv = InodeVersion g \<and> inode_number (fh_inode g) = n)
      \<and> (\<forall>g \<in> set (fs @ [f]). inode_number (fh_inode g) = n \<longrightarrow> inode_version_number (fh_inode g) \<le> iv_version iv)"
    if lk: "iv_lookup ivs' n = Some iv" for n iv
  proof (cases "n = ?k")
    case False
    then have "iv_lookup ?ivs n = Some iv" using l [of n] lk by simp
    then show ?thesis using snoc.IH False by auto
  next
    case True
    show ?thesis
    proof (cases "iv_lookup ?ivs n")
      case None
      then have "iv = InodeVersion f" using l [of n] lk True by simp
      moreover have "\<forall>g \<in> set fs. inode_number (fh_inode g) \<noteq> n" using None snoc.IH by blast
      ultimately show ?thesis using True by (auto simp: InodeVersion_def)
    next
      case (Some iv0)
      have iv: "iv = (if inode_version_number (fh_inode f) > iv_version iv0 then InodeVersion f else iv0)"
        using l [of n] lk True Some by simp
      from Some snoc.IH have o: "\<exists>g \<in> set fs. iv0 = InodeVersion g \<and> inode_number (fh_inode g) = n"
        "\<forall>g \<in> set fs. inode_number (fh_inode g) = n \<longrightarrow> inode_version_number (fh_inode g) \<le> iv_version iv0"
        by blast+
      then show ?thesis using True unfolding iv by (auto simp: InodeVersion_def)
    qed
  qed
  ultimately show ?case unfolding new by blast
qed

text \<open>
  Adding inodes one after another to the empty table: the table ends up with one entry
  per inode number seen, and the entry of a number is a version with the highest version number
  of those seen.
\<close>

theorem version_store_keeps_newest:
  shows "distinct (map iv_inode (iv_add_all fs))
    \<and> (\<forall>n. iv_lookup (iv_add_all fs) n = None \<longleftrightarrow> (\<forall>f \<in> set fs. inode_number (fh_inode f) \<noteq> n))
    \<and> (\<forall>n iv. iv_lookup (iv_add_all fs) n = Some iv \<longrightarrow>
        (\<exists>f \<in> set fs. iv = InodeVersion f \<and> inode_number (fh_inode f) = n)
        \<and> (\<forall>f \<in> set fs. inode_number (fh_inode f) = n \<longrightarrow> inode_version_number (fh_inode f) \<le> iv_version iv))"
  by (rule iv_add_all_newest)

definition version_at :: "nat \<Rightarrow> nat \<Rightarrow> nat \<Rightarrow> file_handle" where
  "version_at n v p = empty_handle\<lparr>fh_page := p, fh_inode := default_inode\<lparr>inode_number := n, inode_version_number := v\<rparr>\<rparr>"

theorem version_store_keeps_newest_witness:
  "iv_lookup (iv_add_all [version_at 4 2 0, version_at 5 9 1, version_at 4 7 3, version_at 4 6 2]) 4
     = Some \<lparr>iv_inode = 4, iv_page = 3, iv_version = 7\<rparr>
   \<and> distinct (map iv_inode (iv_add_all [version_at 4 2 0, version_at 5 9 1, version_at 4 7 3, version_at 4 6 2]))"
  using version_store_keeps_newest [of "[version_at 4 2 0, version_at 5 9 1, version_at 4 7 3, version_at 4 6 2]"]
  by (simp add: iv_add_all_def version_at_def iv_lookup_def InodeVersion_def default_inode_def empty_handle_def)

section \<open>Which inode page is allocated\<close>

text \<open>
  The geometry of a mounted file system on a flash of \<open>n\<close> bytes: all its pages lie in the
  flash, there are data pages, and the flash is small enough for the 32-bit addresses the code
  writes with.
\<close>

definition geometry :: "header \<Rightarrow> nat \<Rightarrow> bool" where
  "geometry h n \<longleftrightarrow> 41 \<le> page_size h \<and> 2 \<le> max_inodes h \<and> max_inodes h < filesystem_size h
     \<and> filesystem_size h * page_size h \<le> n \<and> n < 2 ^ 32"

lemma geometryD:
  assumes "geometry h n"
  shows "41 \<le> page_size h" "0 < page_size h" "4 \<le> page_size h" "page_size h < 2 ^ 32" "2 \<le> max_inodes h"
    "max_inodes h < filesystem_size h" "filesystem_size h < 2 ^ 32 - 1" "n < 2 ^ 32"
    "filesystem_size h * page_size h \<le> n"
proof -
  have a: "41 \<le> page_size h" "2 \<le> max_inodes h" "max_inodes h < filesystem_size h"
    "filesystem_size h * page_size h \<le> n" "n < 2 ^ 32"
    using assms by (simp_all add: geometry_def)
  have "filesystem_size h * 41 \<le> filesystem_size h * page_size h" using a(1) by simp
  then have b: "filesystem_size h * 41 \<le> n" using a(4) by (rule order_trans)
  have "1 * page_size h \<le> filesystem_size h * page_size h" using a(2,3) by (intro mult_right_mono) auto
  then have "page_size h \<le> n" using a(4) by linarith
  with a b show "41 \<le> page_size h" "0 < page_size h" "4 \<le> page_size h" "page_size h < 2 ^ 32" "2 \<le> max_inodes h"
    "max_inodes h < filesystem_size h" "filesystem_size h < 2 ^ 32 - 1" "n < 2 ^ 32"
    "filesystem_size h * page_size h \<le> n"
    by linarith+
qed

lemma geometry_page_in:
  assumes "geometry h n" "Suc i < filesystem_size h"
  shows "page_in (page_size h) i n"
proof -
  have "(i + 2) * page_size h \<le> filesystem_size h * page_size h" using assms(2) by (intro mult_right_mono) auto
  with assms(1) show ?thesis by (simp add: geometry_def page_in_def)
qed

text \<open>An inode page is free: its checksum does not match and nobody has claimed it.\<close>

definition inode_page_free :: "'m config \<Rightarrow> header \<Rightarrow> byte list \<Rightarrow> nat set \<Rightarrow> nat \<Rightarrow> bool" where
  "inode_page_free c h bytes claimed i \<longleftrightarrow> Suc i < max_inodes h \<and> i \<notin> claimed
     \<and> \<not> checksum_ok c (fs_endianness h) (page_at (page_size h) i bytes)"

text \<open>The page that is found, as a value.\<close>

definition first_free_inode_page :: "'m config \<Rightarrow> header \<Rightarrow> byte list \<Rightarrow> nat set \<Rightarrow> nat \<Rightarrow> nat option" where
  "first_free_inode_page c h bytes claimed i =
     find (inode_page_free c h bytes claimed) [i..<max_inodes h]"

lemma first_free_step:
  "Suc i < max_inodes h \<Longrightarrow> first_free_inode_page c h bytes claimed i =
   (if inode_page_free c h bytes claimed i then Some i else first_free_inode_page c h bytes claimed (Suc i))"
  by (simp add: first_free_inode_page_def upt_conv_Cons)

lemma first_free_end:
  "\<not> Suc i < max_inodes h \<Longrightarrow> first_free_inode_page c h bytes claimed i = None"
  by (auto simp: first_free_inode_page_def find_None_iff inode_page_free_def)

context fs_on_flash
begin

lemma find_free_inode_page_ok:
  assumes probe: "\<And>s i. ok (mem s) \<Longrightarrow> header s = h \<Longrightarrow> cells (mem s) = B \<Longrightarrow>
      mem_can_map_read (flash c) (mem s) = mapped \<Longrightarrow> Suc i < max_inodes h \<Longrightarrow>
      \<exists>m'. crc_error s i = Inr (\<not> checksum_ok c (fs_endianness h) (page_at (page_size h) i B), s\<lparr>mem := m'\<rparr>)
        \<and> same_flash (flash c) ok cells writable (mem s) m'"
    and lim: "max_inodes h < 2 ^ 32"
  shows "ok (mem s) \<Longrightarrow> header s = h \<Longrightarrow> cells (mem s) = B \<Longrightarrow>
    mem_can_map_read (flash c) (mem s) = mapped \<Longrightarrow> ps_inv (allocated_unwritten_pages s) \<Longrightarrow>
    i < max_inodes h \<Longrightarrow>
    \<exists>p r' m' A. find_free_inode_page crc_error s \<lparr>m_max = max_inodes h, m_current = Suc i\<rparr> i =
        Inr (p, r', s\<lparr>mem := m', allocated_unwritten_pages := A\<rparr>)
      \<and> p = first_free_inode_page c h B (elems (allocated_unwritten_pages s)) i
      \<and> m_max r' = max_inodes h \<and> same_flash (flash c) ok cells writable (mem s) m'
      \<and> ps_inv A \<and> elems A = elems (allocated_unwritten_pages s) \<union> set_option p"
proof (induction "max_inodes h - i" arbitrary: s i rule: less_induct)
  case less
  note pre = less.prems
  let ?r = "\<lparr>m_max = max_inodes h, m_current = Suc i\<rparr>"
  show ?case
  proof (cases "Suc i < max_inodes h")
    case False
    then show ?thesis using pre
      by (subst find_free_inode_page.simps)
        (auto simp: range_has_next_def first_free_end same_flash_refl intro!: exI [of _ "mem s"]
          exI [of _ "allocated_unwritten_pages s"])
  next
    case True
    from probe [OF pre(1-4) True] obtain m' where
      m': "crc_error s i = Inr (\<not> checksum_ok c (fs_endianness h) (page_at (page_size h) i B), s\<lparr>mem := m'\<rparr>)"
        "same_flash (flash c) ok cells writable (mem s) m'" by blast
    obtain n C where cnt: "PageSet_count (allocated_unwritten_pages s) i = (n, C)" by fastforce
    have nd: "i < NO_DATA" using True lim by (simp add: NO_DATA_def)
    then have "i \<noteq> NO_DATA" by simp
    from PageSet_count_facts [OF pre(5) this] cnt have
      C: "ps_inv C" "elems C = elems (allocated_unwritten_pages s)"
        "n = 0 \<longleftrightarrow> i \<notin> elems (allocated_unwritten_pages s)" by simp_all
    let ?ok = "checksum_ok c (fs_endianness h) (page_at (page_size h) i B)"
    show ?thesis
    proof (cases "\<not> ?ok \<and> n = 0")
      case free: True
      have "find_free_inode_page crc_error s ?r i =
          Inr (Some i, ?r, s\<lparr>mem := m', allocated_unwritten_pages := PageSet_insert C i\<rparr>)"
        using True lim m'(1) cnt free by (subst find_free_inode_page.simps) (simp add: range_has_next_def)
      moreover have "first_free_inode_page c h B (elems (allocated_unwritten_pages s)) i = Some i"
        using True free C(3) by (simp add: first_free_step inode_page_free_def)
      ultimately show ?thesis
        using PageSet_insert_facts [OF C(1) nd] C(2) m'(2) by auto
    next
      case taken: False
      define s2 where "s2 = (if ?ok then s\<lparr>mem := m'\<rparr> else s\<lparr>mem := m', allocated_unwritten_pages := C\<rparr>)"
      have s2: "ok (mem s2)" "header s2 = h" "cells (mem s2) = B" "mem_can_map_read (flash c) (mem s2) = mapped"
        "ps_inv (allocated_unwritten_pages s2)"
        "elems (allocated_unwritten_pages s2) = elems (allocated_unwritten_pages s)" "mem s2 = m'"
        using m'(2) pre C by (auto simp: s2_def same_flash_def)
      have nx: "range_next ?r = (Suc i, \<lparr>m_max = max_inodes h, m_current = Suc (Suc i)\<rparr>)"
        using True lim by (simp add: range_next_def add32_small)
      have step: "find_free_inode_page crc_error s ?r i =
          find_free_inode_page crc_error s2 \<lparr>m_max = max_inodes h, m_current = Suc (Suc i)\<rparr> (Suc i)"
        using True lim m'(1) cnt taken nx
        by (subst find_free_inode_page.simps) (auto simp: range_has_next_def s2_def Let_def)
      have lt: "max_inodes h - Suc i < max_inodes h - i" using True by simp
      from less.hyps [OF lt s2(1-5) True] obtain p r' m'' A where
        ih: "find_free_inode_page crc_error s2 \<lparr>m_max = max_inodes h, m_current = Suc (Suc i)\<rparr> (Suc i) =
            Inr (p, r', s2\<lparr>mem := m'', allocated_unwritten_pages := A\<rparr>)"
          "p = first_free_inode_page c h B (elems (allocated_unwritten_pages s)) (Suc i)"
          "m_max r' = max_inodes h" "same_flash (flash c) ok cells writable m' m''"
          "ps_inv A" "elems A = elems (allocated_unwritten_pages s) \<union> set_option p"
        using s2(6,7) by auto
      have "first_free_inode_page c h B (elems (allocated_unwritten_pages s)) i = p"
        using True taken C(3) ih(2) by (auto simp: first_free_step inode_page_free_def)
      moreover have "s2\<lparr>mem := m'', allocated_unwritten_pages := A\<rparr> = s\<lparr>mem := m'', allocated_unwritten_pages := A\<rparr>"
        by (simp add: s2_def)
      ultimately show ?thesis using step ih same_flash_trans [OF m'(2)] by auto
    qed
  qed
qed

lemma crc_error_unmapped_ok:
  assumes "ok (mem s)" "geometry (header s) (length (cells (mem s)))" "Suc i < filesystem_size (header s)"
  shows "\<exists>m'. crc_error_unmapped c s i = Inr
      (\<not> checksum_ok c (fs_endianness (header s)) (page_at (page_size (header s)) i (cells (mem s))), s\<lparr>mem := m'\<rparr>)
    \<and> same_flash (flash c) ok cells writable (mem s) m'"
proof -
  note g = geometryD [OF assms(2)]
  from read_page_in [OF assms(1) g(2) _ geometry_page_in [OF assms(2,3)], of "replicate (page_size (header s)) 0" True] g(3)
  obtain m' where "read_page c s i (replicate (page_size (header s)) 0) True = Inr
      (if \<not> checksum_ok c (fs_endianness (header s)) (page_at (page_size (header s)) i (cells (mem s)))
       then Some CrcError else None, page_at (page_size (header s)) i (cells (mem s)), s\<lparr>mem := m'\<rparr>)"
    "same_flash (flash c) ok cells writable (mem s) m'" by auto
  then show ?thesis by (intro exI [of _ m']) (simp add: crc_error_unmapped_def)
qed

lemma crc_error_mapped_ok:
  assumes "ok (mem s)" "geometry (header s) (length (cells (mem s)))" "Suc i < filesystem_size (header s)"
    "mem_can_map_read (flash c) (mem s)"
  shows "\<exists>m'. crc_error_mapped c s i = Inr
      (\<not> checksum_ok c (fs_endianness (header s)) (page_at (page_size (header s)) i (cells (mem s))), s\<lparr>mem := m'\<rparr>)
    \<and> same_flash (flash c) ok cells writable (mem s) m'"
proof -
  note g = geometryD [OF assms(2)]
  from read_page_mapped_in [OF assms(1,4) g(2) geometry_page_in [OF assms(2,3)] g(3)]
  show ?thesis using assms(1) by (intro exI [of _ "mem s"]) (simp add: crc_error_mapped_def same_flash_refl)
qed

text \<open>Both variants find the first free inode page and claim it.\<close>

lemma allocate_inode_page_ok:
  assumes "ok (mem s)" "geometry (header s) (length (cells (mem s)))" "ps_inv (allocated_unwritten_pages s)"
    "m_max (header_inode_range s) = max_inodes (header s)"
  shows "\<exists>p r' m' A. allocate_free_inode_page_number c s =
        Inr (p, s\<lparr>mem := m', allocated_unwritten_pages := A, header_inode_range := r'\<rparr>)
      \<and> p = first_free_inode_page c (header s) (cells (mem s)) (elems (allocated_unwritten_pages s)) 0
      \<and> m_max r' = max_inodes (header s) \<and> same_flash (flash c) ok cells writable (mem s) m'
      \<and> ps_inv A \<and> elems A = elems (allocated_unwritten_pages s) \<union> set_option p"
proof -
  note g = geometryD [OF assms(2)]
  let ?probe = "if mem_can_map_read (flash c) (mem s) then crc_error_mapped c else crc_error_unmapped c"
  have lim: "max_inodes (header s) < 2 ^ 32" and pos: "0 < max_inodes (header s)" using g(5,6,7) by linarith+
  have st: "range_start (header_inode_range s) = (0, \<lparr>m_max = max_inodes (header s), m_current = Suc 0\<rparr>)"
    using assms(4) by (cases "header_inode_range s")
      (simp add: range_start_def range_reset_def range_next_def add32_def)
  have "\<exists>m'. ?probe t i = Inr (\<not> checksum_ok c (fs_endianness (header s)) (page_at (page_size (header s)) i (cells (mem s))), t\<lparr>mem := m'\<rparr>)
        \<and> same_flash (flash c) ok cells writable (mem t) m'"
    if "ok (mem t)" "header t = header s" "cells (mem t) = cells (mem s)"
      "mem_can_map_read (flash c) (mem t) = mem_can_map_read (flash c) (mem s)" "Suc i < max_inodes (header s)" for t i
    using crc_error_mapped_ok [of t i] crc_error_unmapped_ok [of t i] that assms(2) g(6) by auto
  from find_free_inode_page_ok [OF this lim assms(1) refl refl refl assms(3) pos]
  obtain p r' m' A where f: "find_free_inode_page ?probe s \<lparr>m_max = max_inodes (header s), m_current = Suc 0\<rparr> 0 =
        Inr (p, r', s\<lparr>mem := m', allocated_unwritten_pages := A\<rparr>)"
      "p = first_free_inode_page c (header s) (cells (mem s)) (elems (allocated_unwritten_pages s)) 0"
      "m_max r' = max_inodes (header s)" "same_flash (flash c) ok cells writable (mem s) m'"
      "ps_inv A" "elems A = elems (allocated_unwritten_pages s) \<union> set_option p"
    by blast
  then have "allocate_free_inode_page_number c s =
      Inr (p, s\<lparr>mem := m', allocated_unwritten_pages := A, header_inode_range := r'\<rparr>)"
    by (auto simp: allocate_free_inode_page_number_def allocate_free_inode_page_number_mapped_def
      allocate_free_inode_page_number_unmapped_def allocate_inode_page_with_def st split: if_splits)
  with f show ?thesis by blast
qed

end

text \<open>The handle that \<open>allocate_free_inode_page\<close> returns is the handle of the page number.\<close>

lemma allocate_free_inode_page_eq:
  "allocate_free_inode_page c s =
     bindE (allocate_free_inode_page_number c s) (\<lambda>(p, s). Inr (handle_of_page p, s))"
  by (simp add: allocate_free_inode_page_def allocate_free_inode_page_number_def
    allocate_free_inode_page_mapped_def allocate_free_inode_page_unmapped_def
    allocate_free_inode_page_number_mapped_def allocate_free_inode_page_number_unmapped_def)

lemma first_free_Some:
  "first_free_inode_page c h B C 0 = Some p \<Longrightarrow>
   inode_page_free c h B C p \<and> (\<forall>j < p. \<not> inode_page_free c h B C j)"
  unfolding first_free_inode_page_def by (auto simp: find_Some_iff)

lemma first_free_None:
  "first_free_inode_page c h B C 0 = None \<Longrightarrow> \<not> inode_page_free c h B C j"
  unfolding first_free_inode_page_def by (auto simp: find_None_iff inode_page_free_def)

lemma allocate_free_data_page_ok:
  assumes "ps_inv (free_data_pages s)"
  shows "\<exists>A. allocate_free_data_page s =
      ((if elems (free_data_pages s) = {} then None else Some (Min (elems (free_data_pages s)))),
       s\<lparr>free_data_pages := A\<rparr>)
    \<and> ps_inv A \<and> elems A = elems (free_data_pages s) - {Min (elems (free_data_pages s))}"
proof -
  obtain b E where e: "PageSet_empty (free_data_pages s) = (b, E)" by fastforce
  from PageSet_empty_facts [OF assms] e have
    f: "ps_inv E" "elems E = elems (free_data_pages s)" "b \<longleftrightarrow> elems (free_data_pages s) = {}"
      "ps_data E = sorted_list_of_set (elems E)" by simp_all
  show ?thesis
  proof (cases "elems (free_data_pages s) = {}")
    case True
    then show ?thesis using e f by (intro exI [of _ E]) (simp add: allocate_free_data_page_def)
  next
    case False
    then have "elems E \<noteq> {}" using f(2) by simp
    from PageSet_erase_first [OF f(1,4) this] show ?thesis
      using e f False by (intro exI [of _ "PageSet_erase_at E 0"]) (simp add: allocate_free_data_page_def)
  qed
qed

text \<open>
  C26. Allocating an inode page, through the mapped and the unmapped variant alike: the page
  returned is the lowest one that holds no valid inode and is not claimed
  (\<open>inode_page_free\<close>), it is claimed afterwards, and the flash is unchanged; none is returned
  only when no page qualifies. The last inode page never qualifies.
\<close>

theorem allocate_inode_page_lowest_free:
  assumes "stm32_ok (mem s)" "geometry (header s) (length (st_mem (mem s)))"
    "ps_inv (allocated_unwritten_pages s)" "m_max (header_inode_range s) = max_inodes (header s)"
  shows "\<exists>p s'. allocate_free_inode_page_number (stm32_config P crc n keep) s = Inr (p, s')
    \<and> st_mem (mem s') = st_mem (mem s) \<and> free_data_pages s' = free_data_pages s
    \<and> ps_inv (allocated_unwritten_pages s')
    \<and> elems (allocated_unwritten_pages s') = elems (allocated_unwritten_pages s) \<union> set_option p
    \<and> (\<forall>q. p = Some q \<longrightarrow>
          inode_page_free (stm32_config P crc n keep) (header s) (st_mem (mem s)) (elems (allocated_unwritten_pages s)) q)
    \<and> (\<forall>j. (case p of None \<Rightarrow> True | Some q \<Rightarrow> j < q) \<longrightarrow>
          \<not> inode_page_free (stm32_config P crc n keep) (header s) (st_mem (mem s)) (elems (allocated_unwritten_pages s)) j)"
proof -
  from fs_stm32.allocate_inode_page_ok [OF assms, of P crc n keep] obtain p r' m' A where
    a: "allocate_free_inode_page_number (stm32_config P crc n keep) s =
        Inr (p, s\<lparr>mem := m', allocated_unwritten_pages := A, header_inode_range := r'\<rparr>)"
      "p = first_free_inode_page (stm32_config P crc n keep) (header s) (st_mem (mem s))
        (elems (allocated_unwritten_pages s)) 0"
      "st_mem m' = st_mem (mem s)" "ps_inv A" "elems A = elems (allocated_unwritten_pages s) \<union> set_option p"
    by (auto simp: same_flash_def)
  let ?s' = "s\<lparr>mem := m', allocated_unwritten_pages := A, header_inode_range := r'\<rparr>"
  have "inode_page_free (stm32_config P crc n keep) (header s) (st_mem (mem s)) (elems (allocated_unwritten_pages s)) q
        \<and> (\<forall>j < q. \<not> inode_page_free (stm32_config P crc n keep) (header s) (st_mem (mem s))
              (elems (allocated_unwritten_pages s)) j)" if "p = Some q" for q
    using first_free_Some [OF trans [OF a(2) [symmetric] that]] by blast
  moreover have "\<not> inode_page_free (stm32_config P crc n keep) (header s) (st_mem (mem s))
              (elems (allocated_unwritten_pages s)) j" if "p = None" for j
    by (rule first_free_None [OF trans [OF a(2) [symmetric] that]])
  ultimately show ?thesis using a by (intro exI [of _ p] exI [of _ ?s']) (simp split: option.splits)
qed

definition small_header :: header where
  "small_header = \<lparr>magic_string = MAGICK_STRING, fs_endianness = LE, version = 1, page_size = 64,
     filesystem_size = 8, max_inodes = 4, max_path_len = 10, crc_checksum_type = CRC32\<rparr>"

text \<open>A small file system whose checksum is the constant 7, on erased flash; for the witnesses.\<close>

definition small_fs :: "'m \<Rightarrow> 'm fs" where
  "small_fs m = (SimpleFlashFsBase m)\<lparr>header := small_header,
     header_inode_range := DefaultHeaderInodeRange small_header,
     free_data_pages := \<lparr>ps_data = [4, 5, 6], unsorted = False, unshrinked = False\<rparr>\<rparr>"

lemma small_header_simps [simp]:
  "page_size small_header = 64" "filesystem_size small_header = 8" "max_inodes small_header = 4"
  "fs_endianness small_header = LE" "max_path_len small_header = 10"
  by (simp_all add: small_header_def)

lemma small_fs_simps [simp]:
  "header (small_fs m) = small_header" "mem (small_fs m) = m"
  "allocated_unwritten_pages (small_fs m) = PageSet_empty_set"
  "m_max (header_inode_range (small_fs m)) = 4"
  "free_data_pages (small_fs m) = \<lparr>ps_data = [4, 5, 6], unsorted = False, unshrinked = False\<rparr>"
  "max_inode_number (small_fs m) = 0"
  by (simp_all add: small_fs_def SimpleFlashFsBase_def DefaultHeaderInodeRange_def)

lemma geometry_small: "512 \<le> n \<Longrightarrow> n < 2 ^ 32 \<Longrightarrow> geometry small_header n"
  by (simp add: geometry_def)

definition erased :: "nat \<Rightarrow> byte list" where
  "erased n = replicate n 0xFF"

lemma length_erased [simp]: "length (erased n) = n"
  by (simp add: erased_def)

text \<open>On erased flash no page carries the checksum 7.\<close>

lemma erased_not_ok:
  assumes "page_in 64 i n" "crc32 c = (\<lambda>_. 7)"
  shows "\<not> checksum_ok c LE (page_at 64 i (erased n))"
proof -
  have p: "page_at 64 i (erased n) = replicate 64 0xFF"
    using assms(1) by (simp add: page_at_def erased_def slice_def page_in_def)
  have "replicate 4 (0xFF :: byte) = 0xFF # replicate 3 0xFF" by (simp add: numeral_eq_Suc)
  then have "get_scalar (native c) LE (replicate 4 0xFF) \<noteq> 7"
    by (simp only: get_scalar_native obj_val_def endianness.case le_val.simps) simp
  then show ?thesis by (simp add: p checksum_ok_def assms(2))
qed

theorem allocate_inode_page_lowest_free_witness:
  "\<exists>s'. allocate_free_inode_page_number (stm32_config 0 (\<lambda>_. 7) LE False)
     (small_fs (STM32_open (SimFlash_open (erased 512)) 64 True)) = Inr (Some 0, s')
   \<and> elems (allocated_unwritten_pages s') = {0}"
proof -
  let ?m = "STM32_open (SimFlash_open (erased 512)) 64 True"
  let ?s = "small_fs ?m" and ?c = "stm32_config 0 (\<lambda>_. 7) LE False"
  have e: "?m = \<lparr>st_file = \<lparr>sf_bytes = erased 512, sf_pos = 512, sf_fail = False, sf_size = 512\<rparr>,
       st_mem = erased 512, st_written = replicate 512 0, st_do_mem_mapping = True, st_PAGE_SIZE = 64\<rparr>"
    by (simp add: STM32_open_def STM32_init_def SimFlash_open_def stream_read_def overlay_def slice_def erased_def)
  have pre: "stm32_ok (mem ?s)" "geometry (header ?s) (length (st_mem (mem ?s)))"
    "ps_inv (allocated_unwritten_pages ?s)" "m_max (header_inode_range ?s) = max_inodes (header ?s)"
    by (simp_all add: e stm32_ok_def sim_ok_def geometry_small)
  have fr: "inode_page_free ?c (header ?s) (st_mem (mem ?s)) (elems (allocated_unwritten_pages ?s)) 0"
    using erased_not_ok [of 0 512 ?c] by (simp add: inode_page_free_def e page_in_def)
  from allocate_inode_page_lowest_free [OF pre, of 0 "\<lambda>_. 7" LE False] obtain p s' where
    a: "allocate_free_inode_page_number ?c ?s = Inr (p, s')"
      "elems (allocated_unwritten_pages s') = elems (allocated_unwritten_pages ?s) \<union> set_option p"
      "\<forall>j. (case p of None \<Rightarrow> True | Some q \<Rightarrow> j < q) \<longrightarrow>
         \<not> inode_page_free ?c (header ?s) (st_mem (mem ?s)) (elems (allocated_unwritten_pages ?s)) j"
    by (elim exE conjE) (rule that, assumption+)
  have "\<not> (case p of None \<Rightarrow> True | Some q \<Rightarrow> 0 < q)" using a(3) fr by blast
  then have "p = Some 0" by (simp split: option.splits)
  then show ?thesis using a(1,2) by auto
qed

end
