(* ===== verification/Flush.thy ===== *)
theory Flush
  imports Alloc
begin

text \<open>
  Writing pages and committing an inode (\<open>src/base/SimpleFlashFsBase.h\<close>: \<open>write_page\<close>,
  \<open>write_meta_page\<close>, \<open>write_zero_pages\<close>, \<open>erase_inode_and_unused_pages\<close>, \<open>flush\<close> and the
  destructor of \<open>FileHandle\<close>).
\<close>

section \<open>Writing a page\<close>

text \<open>The address a page is written to or erased at is computed in 32 bits.\<close>

definition page_address :: "'m fs \<Rightarrow> nat \<Rightarrow> nat" where
  "page_address s p = add32 (page_size (header s)) (mul32 p (page_size (header s)))"

definition write_to_page :: "'m config \<Rightarrow> 'm fs \<Rightarrow> nat \<Rightarrow> byte list \<Rightarrow> (bool \<times> 'm fs) res" where
  "write_to_page c s p page =
     bindE (mem_write (flash c) (mem s) (page_address s p) page) (\<lambda>(n, m).
     Inr (n = length page, s\<lparr>mem := m\<rparr>))"

text \<open>
  The argument \<open>page_meta\<close> of \<open>write_page\<close> is a reference: to an entry of the file's page list,
  or to the local variable of \<open>write_meta_page\<close>.
\<close>

datatype page_ref = Slot nat | Meta data_page

definition page_meta :: "file_handle \<Rightarrow> page_ref \<Rightarrow> data_page" where
  "page_meta f r = (case r of Slot k \<Rightarrow> data_pages (fh_inode f) ! k | Meta p \<Rightarrow> p)"

definition set_pages :: "file_handle \<Rightarrow> data_page list \<Rightarrow> file_handle" where
  "set_pages f ps = f\<lparr>fh_inode := (fh_inode f)\<lparr>data_pages := ps\<rparr>\<rparr>"

text \<open>\<open>page_meta.state = Stored\<close>.\<close>

definition mark_stored :: "file_handle \<Rightarrow> page_ref \<Rightarrow> file_handle" where
  "mark_stored f r = (case r of
     Slot k \<Rightarrow> set_pages f ((data_pages (fh_inode f))[k := stored_page (data_pages (fh_inode f) ! k)])
   | Meta p \<Rightarrow> f)"

text \<open>The loop that replaces the first page with the old number.\<close>

fun replace_page :: "nat \<Rightarrow> nat \<Rightarrow> data_page list \<Rightarrow> data_page list" where
  "replace_page old_page new_page [] = []"
| "replace_page old_page new_page (p # ps) =
     (if page_id p = old_page then \<lparr>page_id = new_page, dp_state = Stored\<rparr> # ps
      else p # replace_page old_page new_page ps)"

definition write_page ::
  "'m config \<Rightarrow> 'm fs \<Rightarrow> file_handle \<Rightarrow> byte list \<Rightarrow> page_ref \<Rightarrow> (bool \<times> file_handle \<times> 'm fs) res" where
  "write_page c s f page r =
     (let meta = page_meta f r
      in if dp_state meta = New then
           bindE (write_to_page c s (page_id meta) page) (\<lambda>(done, s).
           if done then Inr (True, mark_stored f r, s) else Inr (False, f, s))
         else
           (case allocate_free_data_page s of
              (None, s) \<Rightarrow> Inr (False, f, s)
            | (Some new_page, s) \<Rightarrow>
                bindE (write_to_page c s new_page page) (\<lambda>(done, s).
                if done then
                  Inr (True, set_pages f (replace_page (page_id meta) new_page (data_pages (fh_inode f))), s)
                else Inr (False, f, s))))"

definition write_meta_page ::
  "'m config \<Rightarrow> 'm fs \<Rightarrow> file_handle \<Rightarrow> byte list \<Rightarrow> nat \<Rightarrow> (bool \<times> file_handle \<times> 'm fs) res" where
  "write_meta_page c s f page idx = write_page c s f page (Meta \<lparr>page_id = idx, dp_state = New\<rparr>)"

text \<open>\<open>write_zero_pages\<close>, over the indices that are left.\<close>

fun write_zero_pages_at ::
  "'m config \<Rightarrow> 'm fs \<Rightarrow> file_handle \<Rightarrow> nat list \<Rightarrow> (bool \<times> file_handle \<times> 'm fs) res" where
  "write_zero_pages_at c s f [] = Inr (True, f, s)"
| "write_zero_pages_at c s f (k # ks) =
     (if dp_state (data_pages (fh_inode f) ! k) = New then
        bindE (write_page c s f (replicate (page_size (header s)) 0) (Slot k)) (\<lambda>(done, f, s).
        if done then write_zero_pages_at c s (mark_stored f (Slot k)) ks else Inr (False, f, s))
      else write_zero_pages_at c s f ks)"

definition write_zero_pages ::
  "'m config \<Rightarrow> 'm fs \<Rightarrow> file_handle \<Rightarrow> (bool \<times> file_handle \<times> 'm fs) res" where
  "write_zero_pages c s f = write_zero_pages_at c s f [0..<length (data_pages (fh_inode f))]"

section \<open>Erasing what an inode no longer needs\<close>

definition pages_to_erase :: "file_handle \<Rightarrow> file_handle \<Rightarrow> page_set" where
  "pages_to_erase inode_to_erase next_inode_version =
     PageSet_insert
       (foldl (\<lambda>A p. snd (PageSet_erase A (page_id p)))
         (foldl (\<lambda>A p. PageSet_unordered_insert A (page_id p)) PageSet_empty_set
            (data_pages (fh_inode inode_to_erase)))
         (data_pages (fh_inode next_inode_version)))
       (fh_page inode_to_erase)"

definition erase_page :: "'m config \<Rightarrow> 'm fs \<Rightarrow> nat \<Rightarrow> 'm fs res" where
  "erase_page c s p =
     bindE (mem_erase (flash c) (mem s) (page_address s p) (page_size (header s))) (\<lambda>m.
     let s = s\<lparr>mem := m\<rparr>
     in Inr (if p > max_inodes (header s)
             then s\<lparr>free_data_pages := PageSet_insert (free_data_pages s) p\<rparr>
             else free_unwritten_pages s p))"

fun erase_pages :: "'m config \<Rightarrow> 'm fs \<Rightarrow> nat list \<Rightarrow> 'm fs res" where
  "erase_pages c s [] = Inr s"
| "erase_pages c s (p # ps) = bindE (erase_page c s p) (\<lambda>s. erase_pages c s ps)"

definition erase_inode_and_unused_pages ::
  "'m config \<Rightarrow> 'm fs \<Rightarrow> file_handle \<Rightarrow> file_handle \<Rightarrow> (file_handle \<times> 'm fs) res" where
  "erase_inode_and_unused_pages c s inode_to_erase next_inode_version =
     (if keeps_old_pages c then Inr (inode_to_erase, s)
      else bindE (erase_pages c s (fst (PageSet_get_data (pages_to_erase inode_to_erase next_inode_version))))
             (\<lambda>s. Inr (inode_to_erase\<lparr>modified := False\<rparr>, s)))"

section \<open>Flush\<close>

definition get_disconnected_copy :: "file_handle \<Rightarrow> file_handle" where
  "get_disconnected_copy f = f\<lparr>connected := False\<rparr>"

text \<open>The branch of \<open>flush\<close> for a file that has no inode number yet.\<close>

definition flush_new :: "'m config \<Rightarrow> 'm fs \<Rightarrow> file_handle \<Rightarrow> (bool \<times> file_handle \<times> 'm fs) res" where
  "flush_new c s f =
     (let f = f\<lparr>fh_inode := (fh_inode f)\<lparr>inode_number := add64 (max_inode_number s) 1\<rparr>\<rparr>;
          s = s\<lparr>max_inode_number := inode_number (fh_inode f)\<rparr>
      in bindE (write_zero_pages c s f) (\<lambda>(_, f, s).
         bindE (inode2page c s (fh_inode f)) (\<lambda>page.
         bindE (add_page_checksum c s page) (\<lambda>page.
         bindE (write_meta_page c s f page (fh_page f)) (\<lambda>(done, f, s).
         if \<not> done then Inr (False, f, s) else Inr (True, f\<lparr>modified := False\<rparr>, s))))))"

definition drop_deleted :: "file_handle \<Rightarrow> file_handle" where
  "drop_deleted f = set_pages f (filter (\<lambda>p. dp_state p \<noteq> Deleted) (data_pages (fh_inode f)))"

text \<open>The branch for the next version of an inode, once a page has been allocated for it.\<close>

definition flush_version ::
  "'m config \<Rightarrow> 'm fs \<Rightarrow> file_handle \<Rightarrow> nat \<Rightarrow> (bool \<times> file_handle \<times> 'm fs) res" where
  "flush_version c s f p =
     (let old_file = get_disconnected_copy f;
          f = f\<lparr>fh_page := p, fh_inode := (fh_inode f)\<lparr>inode_version_number :=
                add64 (inode_version_number (fh_inode f)) 1\<rparr>\<rparr>;
          f = drop_deleted f
      in bindE (inode2page c s (fh_inode f)) (\<lambda>page.
         bindE (add_page_checksum c s page) (\<lambda>page.
         bindE (write_zero_pages c s f) (\<lambda>(_, f, s).
         bindE (write_meta_page c s f page (fh_page f)) (\<lambda>(done, f, s).
         if \<not> done then Inr (False, f, s)
         else let f = f\<lparr>modified := False\<rparr>
              in bindE (erase_inode_and_unused_pages c s old_file f) (\<lambda>(_, s).
                 Inr (True, f, s)))))))"

definition flush :: "'m config \<Rightarrow> 'm fs \<Rightarrow> file_handle \<Rightarrow> (bool \<times> file_handle \<times> 'm fs) res" where
  "flush c s f =
     (if \<not> modified f then Inr (True, f, s)
      else if inode_number (fh_inode f) = 0 then flush_new c s f
      else bindE (allocate_free_inode_page_number c s) (\<lambda>(o_page, s).
           case o_page of
             None \<Rightarrow> Inr (False, f, s)
           | Some p \<Rightarrow> flush_version c s f p))"

section \<open>The handle's own operations\<close>

text \<open>
  \<open>FileHandle::flush\<close> and the destructor. What the flush returns does not matter to it, but an
  exception that the flush throws ends the program.
\<close>

definition FileHandle_flush :: "'m config \<Rightarrow> 'm fs \<Rightarrow> file_handle \<Rightarrow> (bool \<times> file_handle \<times> 'm fs) res" where
  "FileHandle_flush c s f = bindE (requireE Null_fs (connected f)) (\<lambda>_. flush c s f)"

definition FileHandle_destroy :: "'m config \<Rightarrow> 'm fs \<Rightarrow> file_handle \<Rightarrow> 'm fs res" where
  "FileHandle_destroy c s f =
     (if connected f then
        noexceptE (bindE (flush c s f) (\<lambda>(_, f, s).
        Inr (foldl (\<lambda>s p. free_unwritten_pages s (page_id p)) (free_unwritten_pages s (fh_page f))
               (data_pages (fh_inode f)))))
      else Inr s)"

end
