(* ===== verification/Journal.thy ===== *)
theory Journal
  imports Mount
begin

text \<open>
  A flash that records the operations that change it. It is not part of the program: it is the
  observer with which the crash properties are stated, a \<open>FlashMemoryInterface\<close> that passes
  every call on to the file-backed flash and notes it. It keeps the contract of a flash, so
  the lemmas about the file system hold on it.
\<close>

definition logged :: "'m flash_ops \<Rightarrow> ('m \<times> flash_op list) flash_ops" where
  "logged F = \<lparr>mem_size = (\<lambda>(m, ops). mem_size F m),
     mem_write = (\<lambda>(m, ops) a d. bindE (mem_write F m a d) (\<lambda>(n, m). Inr (n, (m, ops @ [Write_op a d])))),
     mem_read = (\<lambda>(m, ops) a n. bindE (mem_read F m a n) (\<lambda>(k, d, m). Inr (k, d, (m, ops)))),
     mem_erase = (\<lambda>(m, ops) a n. bindE (mem_erase F m a n) (\<lambda>m. Inr (m, ops @ [Erase_op a n]))),
     mem_can_map_read = (\<lambda>(m, ops). mem_can_map_read F m),
     mem_map_read = (\<lambda>(m, ops) a n. mem_map_read F m a n)\<rparr>"

lemma logged_run: "flash_run (logged F) x ops y \<Longrightarrow> snd y = snd x @ ops"
  by (induction rule: flash_run.induct)
    (auto simp: logged_def res_simps split: prod.splits)

definition log_config ::
  "nat \<Rightarrow> (byte list \<Rightarrow> 32 word) \<Rightarrow> endianness \<Rightarrow> bool \<Rightarrow> (sim_flash \<times> flash_op list) config" where
  "log_config P crc e keep = \<lparr>PAGE_SIZE = P, crc32 = crc, native = e, flash = logged sim_ops,
     keeps_old_pages = keep\<rparr>"

lemma log_config_simps [simp]:
  "PAGE_SIZE (log_config P crc e keep) = P" "crc32 (log_config P crc e keep) = crc"
  "native (log_config P crc e keep) = e" "flash (log_config P crc e keep) = logged sim_ops"
  "keeps_old_pages (log_config P crc e keep) = keep"
  by (simp_all add: log_config_def)

definition log_ok :: "sim_flash \<times> flash_op list \<Rightarrow> bool" where
  "log_ok x = sim_ok (fst x)"

definition log_cells :: "sim_flash \<times> flash_op list \<Rightarrow> byte list" where
  "log_cells x = sf_bytes (fst x)"

interpretation logged_sim: flash_memory "logged sim_ops" log_ok log_cells "\<lambda>_ _. True"
proof
  fix x :: "sim_flash \<times> flash_op list" and a n :: nat
  obtain m ops where x: "x = (m, ops)" by fastforce
  assume "log_ok x"
  then have ok: "sim_ok m" by (simp add: log_ok_def x)
  show "mem_size (logged sim_ops) x = length (log_cells x)" "length (log_cells x) < 2 ^ 63"
    using sim.size_ok [OF ok] sim.size_bound [OF ok] by (simp_all add: x logged_def log_cells_def)
  assume n: "0 < n" and "a + n \<le> length (log_cells x)"
  then have le: "a + n \<le> length (sf_bytes m)" by (simp add: log_cells_def x)
  show "mem_map_read (logged sim_ops) x a n = Inr (Some (slice a n (log_cells x)))"
    if "mem_can_map_read (logged sim_ops) x"
    using that sim.map_ok [OF ok _ n le] by (simp add: x logged_def log_cells_def)
  from sim.read_ok [OF ok n le]
  show "\<exists>m'. mem_read (logged sim_ops) x a n = Inr (n, slice a n (log_cells x), m') \<and> log_ok m' \<and>
      log_cells m' = log_cells x \<and> (\<lambda>_. True) = (\<lambda>_. True) \<and>
      mem_can_map_read (logged sim_ops) m' = mem_can_map_read (logged sim_ops) x"
    by (auto simp: x logged_def log_cells_def log_ok_def)
  from sim.erase_ok [OF ok n le]
  show "\<exists>m'. mem_erase (logged sim_ops) x a n = Inr m' \<and> log_ok m' \<and>
      log_cells m' = overlay (log_cells x) a (replicate n 0xFF) \<and>
      (\<forall>i. True \<longleftrightarrow> a \<le> i \<and> i < a + n \<or> True) \<and>
      mem_can_map_read (logged sim_ops) m' = mem_can_map_read (logged sim_ops) x"
    by (auto simp: x logged_def log_cells_def log_ok_def)
next
  fix x :: "sim_flash \<times> flash_op list" and a :: nat and d :: "byte list"
  obtain m ops where x: "x = (m, ops)" by fastforce
  assume "log_ok x" "0 < length d" "a + length d \<le> length (log_cells x)"
  then have "sim_ok m" "0 < length d" "a + length d \<le> length (sf_bytes m)"
    by (simp_all add: log_ok_def x log_cells_def)
  from sim.write_ok [OF this]
  show "\<exists>m'. mem_write (logged sim_ops) x a d = Inr (length d, m') \<and> log_ok m' \<and>
      log_cells m' = overlay (log_cells x) a d \<and>
      (\<forall>i. \<not> (a \<le> i \<and> i < a + length d) \<longrightarrow> True = True) \<and>
      mem_can_map_read (logged sim_ops) m' = mem_can_map_read (logged sim_ops) x"
    by (auto simp: x logged_def log_cells_def log_ok_def)
qed

interpretation fs_log: fs_on_flash "log_config P crc e keep" log_ok log_cells "\<lambda>_ _. True"
  for P crc e keep
  by (simp add: fs_on_flash_def logged_sim.flash_memory_axioms)

end
