(* ===== verification/Commit.thy ===== *)
theory Commit
  imports Flush Journal
begin

text \<open>
  What a flush does to the flash. The lemmas follow the code: one page written, the pages of
  zeros, the erasing of what the previous version of the inode needed, and the two branches of
  \<open>flush\<close>. The properties: a flush that has nothing to do changes nothing; a successful flush
  makes the inode readable from the flash and leaves every page it does not own alone; and at
  whatever operation the power fails, the old version or the new one is intact.
\<close>

section \<open>Pages of a flash\<close>

lemma pages_disjoint: "q \<noteq> r \<Longrightarrow> ps + q * ps + ps \<le> ps + r * ps \<or> ps + r * ps + ps \<le> ps + q * (ps :: nat)"
proof -
  assume "q \<noteq> r"
  then have "Suc q \<le> r \<or> Suc r \<le> q" by linarith
  then have "Suc q * ps \<le> r * ps \<or> Suc r * ps \<le> q * ps" by (metis mult_le_mono1)
  then show ?thesis by (simp add: add.commute)
qed

text \<open>The contents of a flash after page \<open>p\<close> has been replaced.\<close>

definition put_page :: "nat \<Rightarrow> nat \<Rightarrow> byte list \<Rightarrow> byte list \<Rightarrow> byte list" where
  "put_page ps p d bytes = overlay bytes (ps + p * ps) d"

lemma length_put_page [simp, len_simps]:
  "page_in ps p (length bytes) \<Longrightarrow> length d = ps \<Longrightarrow> length (put_page ps p d bytes) = length bytes"
  by (simp add: put_page_def page_in_def)

lemma page_at_put_page:
  assumes "page_in ps p (length bytes)" "page_in ps q (length bytes)" "length d = ps"
  shows "page_at ps q (put_page ps p d bytes) = (if q = p then d else page_at ps q bytes)"
proof (cases "q = p")
  case True
  then show ?thesis using assms by (simp add: page_at_def put_page_def page_in_def)
next
  case False
  have "slice (ps + q * ps) ps (overlay bytes (ps + p * ps) d) = slice (ps + q * ps) ps bytes"
    using assms pages_disjoint [OF False, of ps] by (intro slice_overlay_disjoint) (auto simp: page_in_def)
  then show ?thesis using False by (simp add: page_at_def put_page_def)
qed

lemma header_put_page:
  "page_in ps p (length bytes) \<Longrightarrow> take ps (put_page ps p d bytes) = take ps bytes"
  by (simp add: put_page_def overlay_def page_in_def)

text \<open>The cells of a page may be programmed.\<close>

definition page_writable :: "('m \<Rightarrow> nat \<Rightarrow> bool) \<Rightarrow> nat \<Rightarrow> nat \<Rightarrow> 'm \<Rightarrow> bool" where
  "page_writable writable ps p m \<longleftrightarrow> (\<forall>i. ps + p * ps \<le> i \<and> i < ps + p * ps + ps \<longrightarrow> writable m i)"

lemma page_address_in:
  assumes "geometry (header s) n" "Suc p < filesystem_size (header s)"
  shows "page_address s p = page_size (header s) + p * page_size (header s)"
proof -
  have "page_in (page_size (header s)) p n" by (rule geometry_page_in [OF assms])
  moreover have "n < 2 ^ 32" using assms(1) by (rule geometryD)
  ultimately show ?thesis by (simp add: page_address_def page_in_def wrap_simps)
qed

text \<open>The operations of this file on one page.\<close>

definition write_op :: "nat \<Rightarrow> nat \<Rightarrow> byte list \<Rightarrow> flash_op" where
  "write_op ps p d = Write_op (ps + p * ps) d"

definition erase_op :: "nat \<Rightarrow> nat \<Rightarrow> flash_op" where
  "erase_op ps p = Erase_op (ps + p * ps) ps"

lemma apply_write_op: "apply_op B (write_op ps p d) = put_page ps p d B"
  by (simp add: write_op_def put_page_def)

lemma apply_erase_op: "apply_op B (erase_op ps p) = put_page ps p (replicate ps 0xFF) B"
  by (simp add: erase_op_def put_page_def)

context fs_on_flash
begin

lemma write_to_page_ok:
  assumes "ok (mem s)" "geometry (header s) (length (cells (mem s)))" "Suc p < filesystem_size (header s)"
    "length page = page_size (header s)" "page_writable writable (page_size (header s)) p (mem s)"
  shows "\<exists>m'. write_to_page c s p page = Inr (True, s\<lparr>mem := m'\<rparr>) \<and> ok m'
    \<and> cells m' = put_page (page_size (header s)) p page (cells (mem s))
    \<and> flash_run (flash c) (mem s) [write_op (page_size (header s)) p page] m'
    \<and> (\<forall>q. q \<noteq> p \<longrightarrow> page_writable writable (page_size (header s)) q (mem s) \<longrightarrow>
        page_writable writable (page_size (header s)) q m')
    \<and> mem_can_map_read (flash c) m' = mem_can_map_read (flash c) (mem s)"
proof -
  let ?ps = "page_size (header s)"
  have pos: "0 < length page" using geometryD(2) [OF assms(2)] assms(4) by linarith
  have le: "?ps + p * ?ps + length page \<le> length (cells (mem s))"
    using geometry_page_in [OF assms(2,3)] assms(4) by (simp add: page_in_def)
  have w: "\<forall>i. ?ps + p * ?ps \<le> i \<and> i < ?ps + p * ?ps + length page \<longrightarrow> writable (mem s) i"
    using assms(4,5) by (simp add: page_writable_def)
  from write_ok [OF assms(1) pos le w] obtain m' where
    m': "mem_write (flash c) (mem s) (?ps + p * ?ps) page = Inr (length page, m')" "ok m'"
      "cells m' = overlay (cells (mem s)) (?ps + p * ?ps) page"
      "\<forall>i. \<not> (?ps + p * ?ps \<le> i \<and> i < ?ps + p * ?ps + length page) \<longrightarrow> writable m' i = writable (mem s) i"
      "mem_can_map_read (flash c) m' = mem_can_map_read (flash c) (mem s)" by blast
  have "page_writable writable ?ps q m'" if "q \<noteq> p" "page_writable writable ?ps q (mem s)" for q
  proof -
    have "\<not> (?ps + p * ?ps \<le> i \<and> i < ?ps + p * ?ps + ?ps)"
      if "?ps + q * ?ps \<le> i \<and> i < ?ps + q * ?ps + ?ps" for i
      using pages_disjoint [OF \<open>q \<noteq> p\<close>, of ?ps] that by linarith
    then show ?thesis using that(2) m'(4) assms(4) by (simp add: page_writable_def)
  qed
  moreover have "write_to_page c s p page = Inr (True, s\<lparr>mem := m'\<rparr>)"
    using m'(1) by (simp add: write_to_page_def page_address_in [OF assms(2,3)])
  ultimately show ?thesis using m' run_one_write [OF m'(1)] by (auto simp: put_page_def write_op_def)
qed

lemma erase_mem_ok:
  assumes "ok (mem s)" "geometry (header s) (length (cells (mem s)))" "Suc p < filesystem_size (header s)"
  shows "\<exists>m'. mem_erase (flash c) (mem s) (page_address s p) (page_size (header s)) = Inr m' \<and> ok m'
    \<and> cells m' = put_page (page_size (header s)) p (replicate (page_size (header s)) 0xFF) (cells (mem s))
    \<and> flash_run (flash c) (mem s) [erase_op (page_size (header s)) p] m'
    \<and> (\<forall>q. q = p \<or> page_writable writable (page_size (header s)) q (mem s) \<longrightarrow>
        page_writable writable (page_size (header s)) q m')
    \<and> mem_can_map_read (flash c) m' = mem_can_map_read (flash c) (mem s)"
proof -
  let ?ps = "page_size (header s)"
  have pos: "0 < ?ps" by (rule geometryD(2) [OF assms(2)])
  have le: "?ps + p * ?ps + ?ps \<le> length (cells (mem s))"
    using geometry_page_in [OF assms(2,3)] by (simp add: page_in_def)
  from erase_ok [OF assms(1) pos le] obtain m' where
    m': "mem_erase (flash c) (mem s) (?ps + p * ?ps) ?ps = Inr m'" "ok m'"
      "cells m' = overlay (cells (mem s)) (?ps + p * ?ps) (replicate ?ps 0xFF)"
      "\<forall>i. writable m' i \<longleftrightarrow> ?ps + p * ?ps \<le> i \<and> i < ?ps + p * ?ps + ?ps \<or> writable (mem s) i"
      "mem_can_map_read (flash c) m' = mem_can_map_read (flash c) (mem s)" by blast
  then show ?thesis using run_one_erase [OF m'(1)]
    by (auto simp: put_page_def erase_op_def page_address_in [OF assms(2,3)] page_writable_def)
qed

end

section \<open>Which pages are erased\<close>

lemma unordered_inserts_facts:
  "ps_inv A \<Longrightarrow> distinct (map page_id ps) \<Longrightarrow> \<forall>p \<in> set ps. page_id p < NO_DATA \<Longrightarrow>
   elems A \<inter> page_id ` set ps = {} \<Longrightarrow>
   ps_inv (foldl (\<lambda>A p. PageSet_unordered_insert A (page_id p)) A ps)
   \<and> elems (foldl (\<lambda>A p. PageSet_unordered_insert A (page_id p)) A ps) = elems A \<union> page_id ` set ps"
proof (induction ps arbitrary: A)
  case (Cons p ps)
  from PageSet_unordered_insert_facts [OF Cons.prems(1), of "page_id p"] Cons.prems
  have f: "ps_inv (PageSet_unordered_insert A (page_id p))"
    "elems (PageSet_unordered_insert A (page_id p)) = insert (page_id p) (elems A)" by auto
  have "elems (PageSet_unordered_insert A (page_id p)) \<inter> page_id ` set ps = {}"
    using Cons.prems f(2) by auto
  from Cons.IH [OF f(1) _ _ this] Cons.prems f(2) show ?case by auto
qed simp

lemma erases_facts:
  "ps_inv A \<Longrightarrow>
   ps_inv (foldl (\<lambda>A p. snd (PageSet_erase A (page_id p))) A ps)
   \<and> elems (foldl (\<lambda>A p. snd (PageSet_erase A (page_id p))) A ps) = elems A - page_id ` set ps"
  by (induction ps arbitrary: A) (auto simp: PageSet_erase_facts)

text \<open>The pages of the old version, less those of the new one, and the old inode page.\<close>

definition obsolete :: "file_handle \<Rightarrow> file_handle \<Rightarrow> nat set" where
  "obsolete old new = insert (fh_page old)
     (page_id ` set (data_pages (fh_inode old)) - page_id ` set (data_pages (fh_inode new)))"

lemma pages_to_erase_facts:
  assumes "distinct (map page_id (data_pages (fh_inode old)))"
    "\<forall>p \<in> set (data_pages (fh_inode old)). page_id p < NO_DATA" "fh_page old < NO_DATA"
  shows "ps_inv (pages_to_erase old new)" "elems (pages_to_erase old new) = obsolete old new"
    "fst (PageSet_get_data (pages_to_erase old new)) = sorted_list_of_set (obsolete old new)"
proof -
  let ?A = "foldl (\<lambda>A p. PageSet_unordered_insert A (page_id p)) PageSet_empty_set (data_pages (fh_inode old))"
  have a: "ps_inv ?A" "elems ?A = page_id ` set (data_pages (fh_inode old))"
    using unordered_inserts_facts [of PageSet_empty_set "data_pages (fh_inode old)"] assms by simp_all
  note e = erases_facts [OF a(1), of "data_pages (fh_inode new)"]
  note i = PageSet_insert_facts [OF conjunct1 [OF e] assms(3)]
  show inv: "ps_inv (pages_to_erase old new)" unfolding pages_to_erase_def by (rule i(1))
  show el: "elems (pages_to_erase old new) = obsolete old new"
    unfolding pages_to_erase_def i(2) using e a(2) by (auto simp: obsolete_def)
  have "fst (PageSet_get_data (pages_to_erase old new)) = sorted_list_of_set (elems (pages_to_erase old new))"
    using PageSet_empty_facts(4) [OF inv] by (simp add: PageSet_empty_def PageSet_get_data_def Let_def)
  then show "fst (PageSet_get_data (pages_to_erase old new)) = sorted_list_of_set (obsolete old new)"
    by (simp add: el)
qed

lemma length_apply_ops:
  "\<forall>p \<in> set ps. page_in n p (length B) \<Longrightarrow> length (foldl apply_op B (map (erase_op n) ps)) = length B"
proof (induction ps arbitrary: B)
  case (Cons p ps)
  then have "length (apply_op B (erase_op n p)) = length B" by (simp add: apply_erase_op)
  with Cons show ?case by simp
qed simp

lemma page_at_erased:
  "\<forall>p \<in> set ps. page_in n p (length B) \<Longrightarrow> page_in n q (length B) \<Longrightarrow>
   page_at n q (foldl apply_op B (map (erase_op n) ps)) =
     (if q \<in> set ps then replicate n 0xFF else page_at n q B)"
proof (induction ps arbitrary: B)
  case (Cons p ps)
  then have "length (apply_op B (erase_op n p)) = length B" by (simp add: apply_erase_op)
  with Cons show ?case by (auto simp: apply_erase_op page_at_put_page)
qed simp

section \<open>Pages that were never written\<close>

lemma set_pages_simps [simp]:
  "data_pages (fh_inode (set_pages f ps)) = ps" "set_pages (set_pages f ps) qs = set_pages f qs"
  "fh_page (set_pages f ps) = fh_page f" "modified (set_pages f ps) = modified f"
  "connected (set_pages f ps) = connected f" "fh_pos (set_pages f ps) = fh_pos f"
  "inode_number (fh_inode (set_pages f ps)) = inode_number (fh_inode f)"
  by (simp_all add: set_pages_def)

lemma fh_inode_set_pages: "fh_inode (set_pages f ps) = (fh_inode f)\<lparr>data_pages := ps\<rparr>"
  by (simp add: set_pages_def)

lemma set_pages_same [simp]: "set_pages f (data_pages (fh_inode f)) = f"
  by (simp add: set_pages_def)

text \<open>\<open>write_zero_pages\<close> turns new pages into stored ones.\<close>

definition settled :: "data_page \<Rightarrow> data_page" where
  "settled p = (if dp_state p = New then stored_page p else p)"

definition zero_ops :: "nat \<Rightarrow> data_page list \<Rightarrow> flash_op list" where
  "zero_ops n ps = map (\<lambda>p. write_op n (page_id p) (replicate n 0)) (filter (\<lambda>p. dp_state p = New) ps)"

context fs_on_flash
begin

lemma erase_pages_ok:
  assumes "ok (mem s)" "geometry (header s) (length (cells (mem s)))"
    "ps_inv (free_data_pages s)" "ps_inv (allocated_unwritten_pages s)"
    "\<forall>p \<in> set ps. Suc p < filesystem_size (header s)"
  shows "\<exists>m' F A. erase_pages c s ps = Inr (s\<lparr>mem := m', free_data_pages := F, allocated_unwritten_pages := A\<rparr>)
    \<and> ok m' \<and> cells m' = foldl apply_op (cells (mem s)) (map (erase_op (page_size (header s))) ps)
    \<and> flash_run (flash c) (mem s) (map (erase_op (page_size (header s))) ps) m'
    \<and> (\<forall>q. q \<in> set ps \<or> page_writable writable (page_size (header s)) q (mem s) \<longrightarrow>
        page_writable writable (page_size (header s)) q m')
    \<and> mem_can_map_read (flash c) m' = mem_can_map_read (flash c) (mem s)
    \<and> ps_inv F \<and> elems F = elems (free_data_pages s) \<union> {p \<in> set ps. max_inodes (header s) < p}
    \<and> ps_inv A \<and> elems A = elems (allocated_unwritten_pages s) - {p \<in> set ps. p \<le> max_inodes (header s)}"
  using assms
proof (induction ps arbitrary: s)
  case Nil
  then show ?case
    by (intro exI [of _ "mem s"] exI [of _ "free_data_pages s"] exI [of _ "allocated_unwritten_pages s"])
      (simp add: run_refl)
next
  case (Cons p ps)
  let ?n = "page_size (header s)" and ?ff = "replicate (page_size (header s)) (0xFF :: byte)"
  have p: "Suc p < filesystem_size (header s)" using Cons.prems(5) by simp
  have nd: "p < NO_DATA" using p geometryD(7) [OF Cons.prems(2)] by (simp add: NO_DATA_def)
  have len: "length (put_page ?n p ?ff (cells (mem s))) = length (cells (mem s))"
    using geometry_page_in [OF Cons.prems(2) p] by simp
  from erase_mem_ok [OF Cons.prems(1,2) p] obtain m1 where
    m1: "mem_erase (flash c) (mem s) (page_address s p) ?n = Inr m1" "ok m1"
      "cells m1 = put_page ?n p ?ff (cells (mem s))"
      "flash_run (flash c) (mem s) [erase_op ?n p] m1"
      "\<forall>q. q = p \<or> page_writable writable ?n q (mem s) \<longrightarrow> page_writable writable ?n q m1"
      "mem_can_map_read (flash c) m1 = mem_can_map_read (flash c) (mem s)" by blast
  define F1 where "F1 = (if max_inodes (header s) < p then PageSet_insert (free_data_pages s) p else free_data_pages s)"
  define A1 where "A1 = (if max_inodes (header s) < p then allocated_unwritten_pages s
      else snd (PageSet_erase (allocated_unwritten_pages s) p))"
  define s1 where "s1 = s\<lparr>mem := m1, free_data_pages := F1, allocated_unwritten_pages := A1\<rparr>"
  have step: "erase_page c s p = Inr s1"
    using m1(1) by (simp add: erase_page_def s1_def F1_def A1_def free_unwritten_pages_def Let_def)
  have F1: "ps_inv F1" "elems F1 = elems (free_data_pages s) \<union> {q \<in> {p}. max_inodes (header s) < q}"
    using PageSet_insert_facts [OF Cons.prems(3) nd] Cons.prems(3) by (auto simp: F1_def)
  have sel: "{q \<in> {p}. q \<le> max_inodes (header s)} = (if max_inodes (header s) < p then {} else {p})" by auto
  have A1: "ps_inv A1" "elems A1 = elems (allocated_unwritten_pages s) - {q \<in> {p}. q \<le> max_inodes (header s)}"
    using PageSet_erase_facts(1,2) [OF Cons.prems(4), of p] Cons.prems(4)
    unfolding sel by (simp_all add: A1_def)
  have hs: "header s1 = header s" "mem s1 = m1" "free_data_pages s1 = F1" "allocated_unwritten_pages s1 = A1"
    by (simp_all add: s1_def)
  have g1: "geometry (header s1) (length (cells (mem s1)))"
    using Cons.prems(2) m1(3) len by (simp add: hs)
  have "ok (mem s1)" "ps_inv (free_data_pages s1)" "ps_inv (allocated_unwritten_pages s1)"
    "\<forall>q \<in> set ps. Suc q < filesystem_size (header s1)"
    using m1(2) F1(1) A1(1) Cons.prems(5) by (simp_all add: hs)
  from Cons.IH [OF this(1) g1 this(2-4)] obtain m' F A where
    ih: "erase_pages c s1 ps = Inr (s1\<lparr>mem := m', free_data_pages := F, allocated_unwritten_pages := A\<rparr>)"
      "ok m'" "cells m' = foldl apply_op (cells m1) (map (erase_op ?n) ps)"
      "flash_run (flash c) m1 (map (erase_op ?n) ps) m'"
      "\<forall>q. q \<in> set ps \<or> page_writable writable ?n q m1 \<longrightarrow> page_writable writable ?n q m'"
      "mem_can_map_read (flash c) m' = mem_can_map_read (flash c) m1"
      "ps_inv F" "elems F = elems F1 \<union> {q \<in> set ps. max_inodes (header s) < q}"
      "ps_inv A" "elems A = elems A1 - {q \<in> set ps. q \<le> max_inodes (header s)}"
    unfolding hs by (elim exE conjE) (rule that, assumption+)
  have "erase_pages c s (p # ps) = Inr (s\<lparr>mem := m', free_data_pages := F, allocated_unwritten_pages := A\<rparr>)"
    using step ih(1) by (simp add: s1_def)
  moreover have "cells m' = foldl apply_op (cells (mem s)) (map (erase_op ?n) (p # ps))"
    using ih(3) m1(3) by (simp add: apply_erase_op)
  moreover have "flash_run (flash c) (mem s) (map (erase_op ?n) (p # ps)) m'"
    using flash_run_trans [OF m1(4) ih(4)] by simp
  moreover have "\<forall>q. q \<in> set (p # ps) \<or> page_writable writable ?n q (mem s) \<longrightarrow> page_writable writable ?n q m'"
    using ih(5) m1(5) by auto
  moreover have "elems F = elems (free_data_pages s) \<union> {q \<in> set (p # ps). max_inodes (header s) < q}"
    "elems A = elems (allocated_unwritten_pages s) - {q \<in> set (p # ps). q \<le> max_inodes (header s)}"
    using ih(8,10) F1(2) A1(2) by auto
  ultimately show ?case using ih(2,6,7,9) m1(6)
    by (intro exI [of _ m'] exI [of _ F] exI [of _ A]) simp
qed

lemma write_zero_pages_at_ok:
  assumes "ok (mem s)" "geometry (header s) (length (cells (mem s)))"
    "distinct (map page_id (data_pages (fh_inode f)))"
    "\<forall>p \<in> set (data_pages (fh_inode f)). Suc (page_id p) < filesystem_size (header s)"
    "\<forall>p \<in> set (drop k (data_pages (fh_inode f))). dp_state p = New \<longrightarrow>
      page_writable writable (page_size (header s)) (page_id p) (mem s)"
    "k \<le> length (data_pages (fh_inode f))"
  shows "\<exists>m'. write_zero_pages_at c s f [k..<length (data_pages (fh_inode f))] =
      Inr (True, set_pages f (take k (data_pages (fh_inode f)) @ map settled (drop k (data_pages (fh_inode f)))),
        s\<lparr>mem := m'\<rparr>)
    \<and> ok m' \<and> cells m' = foldl apply_op (cells (mem s)) (zero_ops (page_size (header s)) (drop k (data_pages (fh_inode f))))
    \<and> flash_run (flash c) (mem s) (zero_ops (page_size (header s)) (drop k (data_pages (fh_inode f)))) m'
    \<and> (\<forall>q. (\<forall>p \<in> set (drop k (data_pages (fh_inode f))). dp_state p = New \<longrightarrow> page_id p \<noteq> q) \<longrightarrow>
        page_writable writable (page_size (header s)) q (mem s) \<longrightarrow> page_writable writable (page_size (header s)) q m')
    \<and> mem_can_map_read (flash c) m' = mem_can_map_read (flash c) (mem s)"
  using assms
proof (induction "length (data_pages (fh_inode f)) - k" arbitrary: k s f)
  case 0
  then have "k = length (data_pages (fh_inode f))" by simp
  then show ?case using "0.prems"(1) by (intro exI [of _ "mem s"]) (simp add: zero_ops_def run_refl)
next
  case (Suc n)
  let ?dp = "data_pages (fh_inode f)" and ?ps = "page_size (header s)"
  let ?p = "?dp ! k" and ?z = "replicate (page_size (header s)) (0 :: byte)"
  have k: "k < length ?dp" using Suc.hyps(2) by simp
  then have upt: "[k..<length ?dp] = k # [Suc k..<length ?dp]" by (simp add: upt_conv_Cons)
  have dr: "drop k ?dp = ?p # drop (Suc k) ?dp" using k by (simp add: Cons_nth_drop_Suc)
  have inp: "Suc (page_id ?p) < filesystem_size (header s)" using Suc.prems(4) k by simp
  show ?case
  proof (cases "dp_state ?p = New")
    case False
    have st: "settled ?p = ?p" using False by (simp add: settled_def)
    have "\<forall>p \<in> set (drop (Suc k) ?dp). dp_state p = New \<longrightarrow> page_writable writable ?ps (page_id p) (mem s)"
      using Suc.prems(5) dr by simp
    from Suc.hyps(1) [OF _ Suc.prems(1-4) this] Suc.hyps(2) k obtain m' where
      ih: "write_zero_pages_at c s f [Suc k..<length ?dp] =
          Inr (True, set_pages f (take (Suc k) ?dp @ map settled (drop (Suc k) ?dp)), s\<lparr>mem := m'\<rparr>)"
        "ok m'" "cells m' = foldl apply_op (cells (mem s)) (zero_ops ?ps (drop (Suc k) ?dp))"
        "flash_run (flash c) (mem s) (zero_ops ?ps (drop (Suc k) ?dp)) m'"
        "\<forall>q. (\<forall>p \<in> set (drop (Suc k) ?dp). dp_state p = New \<longrightarrow> page_id p \<noteq> q) \<longrightarrow>
          page_writable writable ?ps q (mem s) \<longrightarrow> page_writable writable ?ps q m'"
        "mem_can_map_read (flash c) m' = mem_can_map_read (flash c) (mem s)" by fastforce
    have z: "zero_ops ?ps (drop k ?dp) = zero_ops ?ps (drop (Suc k) ?dp)" using False by (simp add: dr zero_ops_def)
    have "take (Suc k) ?dp @ map settled (drop (Suc k) ?dp) = take k ?dp @ map settled (drop k ?dp)"
      using k st by (simp add: dr take_Suc_conv_app_nth)
    with ih False show ?thesis unfolding z by (intro exI [of _ m']) (simp add: upt dr)
  next
    case True
    have w: "page_writable writable ?ps (page_id ?p) (mem s)" using Suc.prems(5) dr True by simp
    from write_to_page_ok [OF Suc.prems(1,2) inp _ w, of ?z] obtain m1 where
      m1: "write_to_page c s (page_id ?p) ?z = Inr (True, s\<lparr>mem := m1\<rparr>)" "ok m1"
        "cells m1 = put_page ?ps (page_id ?p) ?z (cells (mem s))"
        "flash_run (flash c) (mem s) [write_op ?ps (page_id ?p) ?z] m1"
        "\<forall>q. q \<noteq> page_id ?p \<longrightarrow> page_writable writable ?ps q (mem s) \<longrightarrow> page_writable writable ?ps q m1"
        "mem_can_map_read (flash c) m1 = mem_can_map_read (flash c) (mem s)" by auto
    let ?dp1 = "?dp[k := stored_page ?p]"
    let ?f1 = "set_pages f ?dp1" and ?s1 = "s\<lparr>mem := m1\<rparr>"
    have wp: "write_page c s f ?z (Slot k) = Inr (True, ?f1, ?s1)"
      using m1(1) True by (simp add: write_page_def page_meta_def mark_stored_def)
    have mk: "mark_stored ?f1 (Slot k) = ?f1" using k by (simp add: mark_stored_def stored_page_def)
    have "map page_id ?dp1 = (map page_id ?dp)[k := map page_id ?dp ! k]"
      using k by (simp add: map_update stored_page_def)
    then have ids: "map page_id ?dp1 = map page_id ?dp" by (simp only: list_update_id)
    have dr1: "drop (Suc k) ?dp1 = drop (Suc k) ?dp" by simp
    have tk1: "take (Suc k) ?dp1 = take k ?dp @ [stored_page ?p]" using k by (simp add: take_Suc_conv_app_nth)
    have neq: "page_id q \<noteq> page_id ?p" if "q \<in> set (drop (Suc k) ?dp)" for q
    proof -
      have "distinct (map page_id (?p # drop (Suc k) ?dp))"
        using Suc.prems(3) dr by (metis distinct_drop drop_map)
      then show ?thesis using imageI [OF that, of page_id] by auto
    qed
    have len: "length (cells m1) = length (cells (mem s))"
      using m1(3) geometry_page_in [OF Suc.prems(2) inp] by simp
    have set1: "\<forall>p \<in> set ?dp1. Suc (page_id p) < filesystem_size (header s)"
    proof
      fix p assume "p \<in> set ?dp1"
      then have "page_id p \<in> set (map page_id ?dp1)" by simp
      then have "page_id p \<in> set (map page_id ?dp)" unfolding ids .
      then show "Suc (page_id p) < filesystem_size (header s)" using Suc.prems(4) by auto
    qed
    have pre: "n = length (data_pages (fh_inode ?f1)) - Suc k" "ok (mem ?s1)"
      "geometry (header ?s1) (length (cells (mem ?s1)))"
      "distinct (map page_id (data_pages (fh_inode ?f1)))"
      "\<forall>p \<in> set (data_pages (fh_inode ?f1)). Suc (page_id p) < filesystem_size (header ?s1)"
      "\<forall>p \<in> set (drop (Suc k) (data_pages (fh_inode ?f1))). dp_state p = New \<longrightarrow>
        page_writable writable (page_size (header ?s1)) (page_id p) (mem ?s1)"
      "Suc k \<le> length (data_pages (fh_inode ?f1))"
      using Suc.hyps(2) Suc.prems(2,3,5) m1(2,5) len ids set1 k dr neq by auto
    from Suc.hyps(1) [OF pre] obtain m' where
      ih: "write_zero_pages_at c ?s1 ?f1 [Suc k..<length ?dp] =
          Inr (True, set_pages f (take (Suc k) ?dp1 @ map settled (drop (Suc k) ?dp)), s\<lparr>mem := m'\<rparr>)"
        "ok m'" "cells m' = foldl apply_op (cells m1) (zero_ops ?ps (drop (Suc k) ?dp))"
        "flash_run (flash c) m1 (zero_ops ?ps (drop (Suc k) ?dp)) m'"
        "\<forall>q. (\<forall>p \<in> set (drop (Suc k) ?dp). dp_state p = New \<longrightarrow> page_id p \<noteq> q) \<longrightarrow>
          page_writable writable ?ps q m1 \<longrightarrow> page_writable writable ?ps q m'"
        "mem_can_map_read (flash c) m' = mem_can_map_read (flash c) m1" by auto
    have z: "zero_ops ?ps (drop k ?dp) = write_op ?ps (page_id ?p) ?z # zero_ops ?ps (drop (Suc k) ?dp)"
      using True by (simp add: dr zero_ops_def)
    have res: "take (Suc k) ?dp1 @ map settled (drop (Suc k) ?dp) = take k ?dp @ map settled (drop k ?dp)"
      using True by (simp add: tk1 dr settled_def)
    have run: "flash_run (flash c) (mem s) (zero_ops ?ps (drop k ?dp)) m'"
      using flash_run_trans [OF m1(4) ih(4)] by (simp add: z)
    have cl: "cells m' = foldl apply_op (cells (mem s)) (zero_ops ?ps (drop k ?dp))"
      using ih(3) m1(3) by (simp add: z apply_write_op)
    have wr: "page_writable writable ?ps q m'"
      if "\<forall>p \<in> set (drop k ?dp). dp_state p = New \<longrightarrow> page_id p \<noteq> q" "page_writable writable ?ps q (mem s)" for q
      using that ih(5) m1(5) True by (simp add: dr)
    have "write_zero_pages_at c s f [k..<length ?dp] =
        Inr (True, set_pages f (take k ?dp @ map settled (drop k ?dp)), s\<lparr>mem := m'\<rparr>)"
      using wp mk ih(1) True by (simp add: upt res)
    with run cl wr ih(2,6) m1(6) show ?thesis by (intro exI [of _ m']) simp
  qed
qed

end

lemma length_zero_ops:
  "\<forall>p \<in> set ps. page_in n (page_id p) (length B) \<Longrightarrow> length (foldl apply_op B (zero_ops n ps)) = length B"
proof (induction ps arbitrary: B)
  case (Cons p ps)
  show ?case
  proof (cases "dp_state p = New")
    case True
    let ?B = "put_page n (page_id p) (replicate n 0) B"
    have len: "length ?B = length B" using Cons.prems by simp
    with Cons.prems have "length (foldl apply_op ?B (zero_ops n ps)) = length ?B" by (intro Cons.IH) simp
    with len True show ?thesis by (simp add: zero_ops_def apply_write_op)
  next
    case False
    with Cons show ?thesis by (simp add: zero_ops_def)
  qed
qed (simp add: zero_ops_def)

lemma page_at_zeroed:
  "\<forall>p \<in> set ps. page_in n (page_id p) (length B) \<Longrightarrow> page_in n q (length B) \<Longrightarrow>
   page_at n q (foldl apply_op B (zero_ops n ps)) =
     (if \<exists>p \<in> set ps. dp_state p = New \<and> page_id p = q then replicate n 0 else page_at n q B)"
proof (induction ps arbitrary: B)
  case (Cons p ps)
  show ?case
  proof (cases "dp_state p = New")
    case True
    let ?B = "put_page n (page_id p) (replicate n 0) B"
    have len: "length ?B = length B" using Cons.prems by simp
    have "page_at n q (foldl apply_op ?B (zero_ops n ps)) =
        (if \<exists>p \<in> set ps. dp_state p = New \<and> page_id p = q then replicate n 0 else page_at n q ?B)"
      using Cons.prems len by (intro Cons.IH) simp_all
    moreover have "page_at n q ?B = (if q = page_id p then replicate n 0 else page_at n q B)"
      using Cons.prems by (intro page_at_put_page) simp_all
    ultimately show ?thesis using True by (auto simp: zero_ops_def apply_write_op)
  next
    case False
    with Cons show ?thesis by (simp add: zero_ops_def)
  qed
qed (simp add: zero_ops_def)

section \<open>The page of an inode\<close>

definition inode_image :: "'m config \<Rightarrow> header \<Rightarrow> inode \<Rightarrow> byte list" where
  "inode_image c h i =
     (let page = inode_bytes c (fs_endianness h) i @ inline_part i
            @ replicate (page_size h - inode_size i - length (inline_part i)) 0
      in take (page_size h - 4) page @ checksum_bytes c (fs_endianness h) page)"

text \<open>An inode that can be stored: its fields fit, and so does its page list or inline data.\<close>

definition inode_ok :: "header \<Rightarrow> inode \<Rightarrow> bool" where
  "inode_ok h i \<longleftrightarrow> inode_wf i \<and> inode_size i + 4 \<le> page_size h
     \<and> (data_pages i = [] \<longrightarrow> 0 < file_len i \<longrightarrow>
          file_len i \<le> length (inode_data i) \<and> inode_size i + length (inode_data i) + 4 \<le> page_size h)"

lemma inode_okD:
  assumes "inode_ok h i"
  shows "inode_wf i" "inode_size i + 4 \<le> page_size h" "inode_size i + length (inline_part i) \<le> page_size h"
    "inode_size i + length (inline_part i) + 4 \<le> page_size h"
  using assms by (auto simp: inode_ok_def inline_part_def)

lemma inode_image_made:
  assumes "inode_ok (header s) i"
  shows "\<exists>page. inode2page c s i = Inr page \<and> add_page_checksum c s page = Inr (inode_image c (header s) i)"
proof -
  note i = inode_okD [OF assms]
  let ?page = "inode_bytes c (fs_endianness (header s)) i @ inline_part i
    @ replicate (page_size (header s) - inode_size i - length (inline_part i)) 0"
  have "length ?page = page_size (header s)" using i length_inode_bytes [OF i(1), of c] by simp
  then show ?thesis
    using inode2page_ok [OF i(1-3), of c] add_page_checksum_ok [of ?page c s] i(2)
    by (simp add: inode_image_def)
qed

lemma length_inode_image [simp]:
  assumes "inode_ok h i"
  shows "length (inode_image c h i) = page_size h"
  using inode_okD [OF assms] length_inode_bytes [of i c "fs_endianness h"]
  by (simp add: inode_image_def Let_def checksum_bytes_def)

lemma inode_image_checksum:
  assumes "inode_ok h i"
  shows "checksum_ok c (fs_endianness h) (inode_image c h i)"
proof -
  note i = inode_okD [OF assms]
  define page where "page = inode_bytes c (fs_endianness h) i @ inline_part i
    @ replicate (page_size h - inode_size i - length (inline_part i)) 0"
  have len: "length page = page_size h"
    using i length_inode_bytes [OF i(1), of c "fs_endianness h"] by (simp add: page_def)
  have "inode_image c h i = take (length page - 4) page @ checksum_bytes c (fs_endianness h) page"
    unfolding inode_image_def page_def [symmetric] Let_def len ..
  moreover have "4 \<le> length page" using i(2) len by linarith
  ultimately show ?thesis using checksum_ok_added [of page c "native c" c] by simp
qed

lemma slice_take: "a + n \<le> k \<Longrightarrow> slice a n (take k xs) = slice a n xs"
  by (simp add: slice_def drop_take)

lemma inode_image_read:
  assumes "inode_ok (header s) i" "page_size (header s) < 2 ^ 63" "fix \<Longrightarrow> pages_plausible (header s) i"
  shows "get_inode c s (inode_image c' (header s) i) fix =
    Inr (new_handle\<lparr>fh_inode := reread (page_size (header s)) i\<rparr>)"
proof -
  let ?n = "page_size (header s)" and ?e = "fs_endianness (header s)"
  note i = inode_okD [OF assms(1)]
  have ib: "length (inode_bytes c' ?e i) = inode_size i" by (rule length_inode_bytes [OF i(1)])
  have bytes: "take (inode_size i) (inode_image c' (header s) i) = inode_bytes c' ?e i"
    using i(2) ib by (simp add: inode_image_def Let_def)
  have pre: "take (?n - 4) (inode_image c' (header s) i) = take (?n - 4) (inode_bytes c' ?e i @ inline_part i
      @ replicate (?n - inode_size i - length (inline_part i)) 0)"
    using i ib by (simp add: inode_image_def Let_def checksum_bytes_def)
  have "inode_size i + file_len i + 4 \<le> length (inode_image c' (header s) i)
      \<and> slice (inode_size i) (file_len i) (inode_image c' (header s) i) = take (file_len i) (inode_data i)"
    if "data_pages i = []" "0 < file_len i"
  proof
    have il: "inline_part i = inode_data i" "file_len i \<le> length (inode_data i)"
      using that assms(1) by (simp_all add: inline_part_def inode_ok_def)
    show le: "inode_size i + file_len i + 4 \<le> length (inode_image c' (header s) i)"
      using il i(4) assms(1) by simp
    have "slice (inode_size i) (file_len i) (inode_image c' (header s) i)
        = slice (inode_size i) (file_len i) (take (?n - 4) (inode_image c' (header s) i))"
      using le assms(1) by (intro slice_take [symmetric]) simp
    also have "\<dots> = slice (inode_size i) (file_len i) (inode_bytes c' ?e i @ inode_data i
        @ replicate (?n - inode_size i - length (inode_data i)) 0)"
      unfolding pre il(1) using le assms(1) by (intro slice_take) simp
    also have "\<dots> = take (file_len i) (inode_data i)" using ib il(2) by (simp add: slice_def)
    finally show "slice (inode_size i) (file_len i) (inode_image c' (header s) i) = take (file_len i) (inode_data i)" .
  qed
  then show ?thesis
    using i(1,2) assms bytes by (intro get_inode_ok [where c' = c']) simp_all
qed

text \<open>The states of the pages are not stored.\<close>

lemma inode_wf_ids:
  assumes "map page_id ps = map page_id (data_pages i)"
  shows "inode_wf (i\<lparr>data_pages := ps\<rparr>) = inode_wf i"
proof -
  have "(\<forall>p \<in> set ps. page_id p < 2 ^ 32) \<longleftrightarrow> (\<forall>x \<in> set (map page_id ps). x < 2 ^ 32)" by simp
  also have "\<dots> \<longleftrightarrow> (\<forall>p \<in> set (data_pages i). page_id p < 2 ^ 32)" unfolding assms by simp
  finally have "(\<forall>p \<in> set ps. page_id p < 2 ^ 32) \<longleftrightarrow> (\<forall>p \<in> set (data_pages i). page_id p < 2 ^ 32)" .
  moreover have "length ps = length (data_pages i)" using assms by (metis length_map)
  ultimately show ?thesis by (simp add: inode_wf_def)
qed

lemma inode_image_ids:
  assumes "map page_id ps = map page_id (data_pages i)"
  shows "inode_image c h (i\<lparr>data_pages := ps\<rparr>) = inode_image c h i"
    "inode_ok h (i\<lparr>data_pages := ps\<rparr>) = inode_ok h i"
proof -
  let ?j = "i\<lparr>data_pages := ps\<rparr>"
  have len: "length ps = length (data_pages i)" using assms by (metis length_map)
  then have nil: "ps = [] \<longleftrightarrow> data_pages i = []" by (metis length_0_conv)
  have ids: "map (\<lambda>p. (4 :: nat, page_id p)) (take n ps) = map (\<lambda>p. (4, page_id p)) (take n (data_pages i))" for n
  proof -
    have "map (\<lambda>p. (4 :: nat, page_id p)) (take n ps) = map (Pair 4) (take n (map page_id ps))"
      by (simp add: take_map o_def)
    then show ?thesis unfolding assms by (simp add: take_map o_def)
  qed
  have "inode_tail ?j = inode_tail i" "inode_head ?j = inode_head i"
    using len ids by (simp_all add: inode_tail_def inode_head_def)
  then have b: "inode_bytes c e ?j = inode_bytes c e i" for e by (simp add: inode_bytes_def)
  have z: "inode_size ?j = inode_size i" "inline_part ?j = inline_part i"
    using len nil by (simp_all add: inode_size_def inline_part_def)
  show "inode_image c h ?j = inode_image c h i" by (simp add: inode_image_def b z)
  show "inode_ok h ?j = inode_ok h i" using inode_wf_ids [OF assms] z nil by (simp add: inode_ok_def)
qed

lemma settled_ids [simp]: "page_id (settled p) = page_id p" "map page_id (map settled ps) = map page_id ps"
  by (simp_all add: settled_def stored_page_def)

section \<open>The two branches of a flush\<close>

text \<open>The handle after a successful flush: into page \<open>p\<close>, or for the first time.\<close>

definition next_version :: "file_handle \<Rightarrow> nat \<Rightarrow> file_handle" where
  "next_version f p = drop_deleted (f\<lparr>fh_page := p, fh_inode := (fh_inode f)\<lparr>inode_version_number :=
     add64 (inode_version_number (fh_inode f)) 1\<rparr>\<rparr>)"

definition settle :: "file_handle \<Rightarrow> file_handle" where
  "settle f = (set_pages f (map settled (data_pages (fh_inode f))))\<lparr>modified := False\<rparr>"

definition first_version :: "nat \<Rightarrow> file_handle \<Rightarrow> file_handle" where
  "first_version n f = f\<lparr>fh_inode := (fh_inode f)\<lparr>inode_number := n\<rparr>\<rparr>"

text \<open>Pages a file may own.\<close>

definition pages_ok :: "header \<Rightarrow> data_page list \<Rightarrow> bool" where
  "pages_ok h ps \<longleftrightarrow> distinct (map page_id ps)
     \<and> (\<forall>p \<in> set ps. max_inodes h \<le> page_id p \<and> Suc (page_id p) < filesystem_size h)"

text \<open>The operations of the two branches.\<close>

definition commit_ops :: "'m config \<Rightarrow> header \<Rightarrow> file_handle \<Rightarrow> flash_op list" where
  "commit_ops c h g = zero_ops (page_size h) (data_pages (fh_inode g))
     @ [write_op (page_size h) (fh_page g) (inode_image c h (fh_inode g))]"

definition version_ops :: "'m config \<Rightarrow> header \<Rightarrow> file_handle \<Rightarrow> nat \<Rightarrow> flash_op list" where
  "version_ops c h f p = commit_ops c h (next_version f p)
     @ (if keeps_old_pages c then []
        else map (erase_op (page_size h)) (sorted_list_of_set (obsolete f (next_version f p))))"

lemma pages_ok_filter: "pages_ok h ps \<Longrightarrow> pages_ok h (filter P ps)"
  by (auto simp: pages_ok_def distinct_map_filter)

lemma next_version_simps [simp]:
  "fh_page (next_version f p) = p"
  "data_pages (fh_inode (next_version f p)) = filter (\<lambda>q. dp_state q \<noteq> Deleted) (data_pages (fh_inode f))"
  by (simp_all add: next_version_def drop_deleted_def)

lemma obsolete_in:
  assumes "pages_ok h (data_pages (fh_inode f))" "Suc (fh_page f) < max_inodes h" "max_inodes h < filesystem_size h"
  shows "q \<in> obsolete f g \<Longrightarrow> Suc q < filesystem_size h"
  using assms by (auto simp: obsolete_def pages_ok_def)

lemma finite_obsolete [simp]: "finite (obsolete f g)"
  by (simp add: obsolete_def)

context fs_on_flash
begin

lemma commit_ok:
  assumes okm: "ok (mem s)" and geo: "geometry (header s) (length (cells (mem s)))"
    and iok: "inode_ok (header s) (fh_inode g)" and pok: "pages_ok (header s) (data_pages (fh_inode g))"
    and pg: "Suc (fh_page g) < max_inodes (header s)"
    and wr: "page_writable writable (page_size (header s)) (fh_page g) (mem s)"
      "\<forall>p \<in> set (data_pages (fh_inode g)). dp_state p = New \<longrightarrow>
        page_writable writable (page_size (header s)) (page_id p) (mem s)"
  shows "\<exists>m1 m2. write_zero_pages c s g =
      Inr (True, set_pages g (map settled (data_pages (fh_inode g))), s\<lparr>mem := m1\<rparr>)
    \<and> write_meta_page c (s\<lparr>mem := m1\<rparr>) (set_pages g (map settled (data_pages (fh_inode g))))
        (inode_image c (header s) (fh_inode g)) (fh_page g) =
        Inr (True, set_pages g (map settled (data_pages (fh_inode g))), s\<lparr>mem := m2\<rparr>)
    \<and> ok m2 \<and> cells m2 = foldl apply_op (cells (mem s)) (commit_ops c (header s) g)
    \<and> length (cells m2) = length (cells (mem s))
    \<and> flash_run (flash c) (mem s) (commit_ops c (header s) g) m2
    \<and> mem_can_map_read (flash c) m2 = mem_can_map_read (flash c) (mem s)"
proof -
  let ?ps = "page_size (header s)" and ?dp = "data_pages (fh_inode g)"
  let ?img = "inode_image c (header s) (fh_inode g)" and ?g = "set_pages g (map settled ?dp)"
  note geod = geometryD [OF geo]
  have dist: "distinct (map page_id ?dp)" and rng: "\<forall>p \<in> set ?dp. Suc (page_id p) < filesystem_size (header s)"
    using pok by (simp_all add: pages_ok_def)
  have wr0: "\<forall>p \<in> set (drop 0 ?dp). dp_state p = New \<longrightarrow> page_writable writable ?ps (page_id p) (mem s)"
    using wr(2) by simp
  from write_zero_pages_at_ok [OF okm geo dist rng wr0] obtain m1 where
    m1: "write_zero_pages c s g = Inr (True, ?g, s\<lparr>mem := m1\<rparr>)" "ok m1"
      "cells m1 = foldl apply_op (cells (mem s)) (zero_ops ?ps ?dp)"
      "flash_run (flash c) (mem s) (zero_ops ?ps ?dp) m1"
      "\<forall>q. (\<forall>p \<in> set ?dp. dp_state p = New \<longrightarrow> page_id p \<noteq> q) \<longrightarrow>
        page_writable writable ?ps q (mem s) \<longrightarrow> page_writable writable ?ps q m1"
      "mem_can_map_read (flash c) m1 = mem_can_map_read (flash c) (mem s)"
    by (auto simp: write_zero_pages_def)
  have len1: "length (cells m1) = length (cells (mem s))"
    unfolding m1(3) using rng geometry_page_in [OF geo] by (intro length_zero_ops) blast
  let ?s1 = "s\<lparr>mem := m1\<rparr>"
  have pin: "Suc (fh_page g) < filesystem_size (header s)" using pg geod(6) by linarith
  have "\<forall>p \<in> set ?dp. page_id p \<noteq> fh_page g" using pok pg by (auto simp: pages_ok_def)
  then have "page_writable writable ?ps (fh_page g) m1" using m1(5) wr(1) by blast
  with write_to_page_ok [of ?s1 "fh_page g" ?img] m1(2) geo len1 pin iok obtain m2 where
    m2: "write_to_page c ?s1 (fh_page g) ?img = Inr (True, s\<lparr>mem := m2\<rparr>)" "ok m2"
      "cells m2 = put_page ?ps (fh_page g) ?img (cells m1)"
      "flash_run (flash c) m1 [write_op ?ps (fh_page g) ?img] m2"
      "mem_can_map_read (flash c) m2 = mem_can_map_read (flash c) m1" by auto
  have "write_meta_page c ?s1 ?g ?img (fh_page g) = Inr (True, ?g, s\<lparr>mem := m2\<rparr>)"
    using m2(1) by (simp add: write_meta_page_def write_page_def page_meta_def mark_stored_def)
  moreover have "cells m2 = foldl apply_op (cells (mem s)) (commit_ops c (header s) g)"
    by (simp add: commit_ops_def m2(3) m1(3) apply_write_op)
  moreover have "length (cells m2) = length (cells (mem s))"
    using len1 m2(3) geometry_page_in [OF geo pin] iok by simp
  moreover have "flash_run (flash c) (mem s) (commit_ops c (header s) g) m2"
    unfolding commit_ops_def by (rule flash_run_trans [OF m1(4) m2(4)])
  ultimately show ?thesis using m1(1,6) m2(2,5) by (intro exI [of _ m1] exI [of _ m2]) simp
qed

lemma flush_new_ok:
  assumes okm: "ok (mem s)" and geo: "geometry (header s) (length (cells (mem s)))"
    and mx: "max_inode_number s < 2 ^ 64 - 1"
    and iok: "inode_ok (header s) ((fh_inode f)\<lparr>inode_number := Suc (max_inode_number s)\<rparr>)"
    and pok: "pages_ok (header s) (data_pages (fh_inode f))" and pg: "Suc (fh_page f) < max_inodes (header s)"
    and wr: "page_writable writable (page_size (header s)) (fh_page f) (mem s)"
      "\<forall>p \<in> set (data_pages (fh_inode f)). dp_state p = New \<longrightarrow>
        page_writable writable (page_size (header s)) (page_id p) (mem s)"
  shows "\<exists>m'. flush_new c s f = Inr (True, settle (first_version (Suc (max_inode_number s)) f),
        s\<lparr>max_inode_number := Suc (max_inode_number s), mem := m'\<rparr>)
    \<and> ok m' \<and> cells m' = foldl apply_op (cells (mem s))
        (commit_ops c (header s) (first_version (Suc (max_inode_number s)) f))
    \<and> length (cells m') = length (cells (mem s))
    \<and> flash_run (flash c) (mem s) (commit_ops c (header s) (first_version (Suc (max_inode_number s)) f)) m'
    \<and> mem_can_map_read (flash c) m' = mem_can_map_read (flash c) (mem s)"
proof -
  let ?n = "Suc (max_inode_number s)"
  let ?g = "first_version ?n f" and ?s = "s\<lparr>max_inode_number := ?n\<rparr>"
  have n: "add64 (max_inode_number s) 1 = ?n" using mx by (simp add: add64_small)
  have "inode_ok (header ?s) (fh_inode ?g)" "pages_ok (header ?s) (data_pages (fh_inode ?g))"
    "Suc (fh_page ?g) < max_inodes (header ?s)"
    "page_writable writable (page_size (header ?s)) (fh_page ?g) (mem ?s)"
    "\<forall>p \<in> set (data_pages (fh_inode ?g)). dp_state p = New \<longrightarrow>
        page_writable writable (page_size (header ?s)) (page_id p) (mem ?s)"
    "ok (mem ?s)" "geometry (header ?s) (length (cells (mem ?s)))"
    using assms by (simp_all add: first_version_def)
  from commit_ok [OF this(6,7,1-5)] obtain m1 m2 where
    m: "write_zero_pages c ?s ?g = Inr (True, set_pages ?g (map settled (data_pages (fh_inode ?g))), ?s\<lparr>mem := m1\<rparr>)"
      "write_meta_page c (?s\<lparr>mem := m1\<rparr>) (set_pages ?g (map settled (data_pages (fh_inode ?g))))
        (inode_image c (header s) (fh_inode ?g)) (fh_page ?g) =
        Inr (True, set_pages ?g (map settled (data_pages (fh_inode ?g))), ?s\<lparr>mem := m2\<rparr>)"
      "ok m2" "cells m2 = foldl apply_op (cells (mem s)) (commit_ops c (header s) ?g)"
      "length (cells m2) = length (cells (mem s))"
      "flash_run (flash c) (mem s) (commit_ops c (header s) ?g) m2"
      "mem_can_map_read (flash c) m2 = mem_can_map_read (flash c) (mem s)" by auto
  let ?i = "(fh_inode ?g)\<lparr>data_pages := map settled (data_pages (fh_inode ?g))\<rparr>"
  have "inode_ok (header (?s\<lparr>mem := m1\<rparr>)) ?i"
    using iok inode_image_ids(2) [of "map settled (data_pages (fh_inode ?g))" "fh_inode ?g" "header s"]
    by (simp add: first_version_def)
  from inode_image_made [OF this, of c] obtain page where
    pgs: "inode2page c (?s\<lparr>mem := m1\<rparr>) ?i = Inr page"
      "add_page_checksum c (?s\<lparr>mem := m1\<rparr>) page = Inr (inode_image c (header s) (fh_inode ?g))"
    using inode_image_ids(1) [of "map settled (data_pages (fh_inode ?g))" "fh_inode ?g" c "header s"] by auto
  have "flush_new c s f = Inr (True, settle ?g, ?s\<lparr>mem := m2\<rparr>)"
    using m(1,2) pgs n
    by (simp add: flush_new_def Let_def settle_def first_version_def fh_inode_set_pages)
  then show ?thesis using m(3-7) by (intro exI [of _ m2]) simp
qed

lemma flush_version_ok:
  assumes okm: "ok (mem s)" and geo: "geometry (header s) (length (cells (mem s)))"
    and sets: "ps_inv (free_data_pages s)" "ps_inv (allocated_unwritten_pages s)"
    and iok: "inode_ok (header s) (fh_inode (next_version f p))"
    and pok: "pages_ok (header s) (data_pages (fh_inode f))"
    and pg: "Suc p < max_inodes (header s)" "Suc (fh_page f) < max_inodes (header s)"
    and wr: "page_writable writable (page_size (header s)) p (mem s)"
      "\<forall>q \<in> set (data_pages (fh_inode f)). dp_state q = New \<longrightarrow>
        page_writable writable (page_size (header s)) (page_id q) (mem s)"
  shows "\<exists>m' F A. flush_version c s f p = Inr (True, settle (next_version f p),
        s\<lparr>mem := m', free_data_pages := F, allocated_unwritten_pages := A\<rparr>)
    \<and> ok m' \<and> cells m' = foldl apply_op (cells (mem s)) (version_ops c (header s) f p)
    \<and> length (cells m') = length (cells (mem s))
    \<and> flash_run (flash c) (mem s) (version_ops c (header s) f p) m'
    \<and> mem_can_map_read (flash c) m' = mem_can_map_read (flash c) (mem s)
    \<and> ps_inv F \<and> ps_inv A
    \<and> (keeps_old_pages c \<longrightarrow> F = free_data_pages s \<and> A = allocated_unwritten_pages s)
    \<and> (\<not> keeps_old_pages c \<longrightarrow>
        elems F = elems (free_data_pages s) \<union> {q \<in> obsolete f (next_version f p). max_inodes (header s) < q}
        \<and> elems A = elems (allocated_unwritten_pages s) - {q \<in> obsolete f (next_version f p). q \<le> max_inodes (header s)})"
proof -
  let ?g = "next_version f p" and ?h = "header s" and ?n = "page_size (header s)"
  note geod = geometryD [OF geo]
  have gp: "pages_ok ?h (data_pages (fh_inode ?g))" "Suc (fh_page ?g) < max_inodes ?h"
    "page_writable writable ?n (fh_page ?g) (mem s)"
    "\<forall>q \<in> set (data_pages (fh_inode ?g)). dp_state q = New \<longrightarrow> page_writable writable ?n (page_id q) (mem s)"
    using pages_ok_filter [OF pok] pg(1) wr by simp_all
  from commit_ok [OF okm geo iok gp] obtain m1 m2 where
    m: "write_zero_pages c s ?g = Inr (True, set_pages ?g (map settled (data_pages (fh_inode ?g))), s\<lparr>mem := m1\<rparr>)"
      "write_meta_page c (s\<lparr>mem := m1\<rparr>) (set_pages ?g (map settled (data_pages (fh_inode ?g))))
        (inode_image c ?h (fh_inode ?g)) (fh_page ?g) =
        Inr (True, set_pages ?g (map settled (data_pages (fh_inode ?g))), s\<lparr>mem := m2\<rparr>)"
      "ok m2" "cells m2 = foldl apply_op (cells (mem s)) (commit_ops c ?h ?g)"
      "length (cells m2) = length (cells (mem s))"
      "flash_run (flash c) (mem s) (commit_ops c ?h ?g) m2"
      "mem_can_map_read (flash c) m2 = mem_can_map_read (flash c) (mem s)" by blast
  from inode_image_made [OF iok, of c] obtain page where
    pgs: "inode2page c s (fh_inode ?g) = Inr page" "add_page_checksum c s page = Inr (inode_image c ?h (fh_inode ?g))"
    by blast
  let ?f' = "settle ?g" and ?s2 = "s\<lparr>mem := m2\<rparr>" and ?old = "get_disconnected_copy f"
  have fs: "(set_pages ?g (map settled (data_pages (fh_inode ?g))))\<lparr>modified := False\<rparr> = ?f'"
    by (simp add: settle_def)
  have fl: "flush_version c s f p =
      bindE (erase_inode_and_unused_pages c ?s2 ?old ?f') (\<lambda>(_, s). Inr (True, ?f', s))"
    using m(1,2) pgs unfolding flush_version_def Let_def next_version_def [symmetric]
    by (simp del: next_version_simps add: fs)
  have ob: "obsolete ?old ?f' = obsolete f ?g"
    by (simp add: obsolete_def get_disconnected_copy_def settle_def image_image)
  show ?thesis
  proof (cases "keeps_old_pages c")
    case True
    then show ?thesis using fl m(3-7) sets
      by (intro exI [of _ m2] exI [of _ "free_data_pages s"] exI [of _ "allocated_unwritten_pages s"])
        (simp add: erase_inode_and_unused_pages_def version_ops_def)
  next
    case False
    let ?L = "sorted_list_of_set (obsolete f ?g)"
    have inL: "\<forall>q \<in> set ?L. Suc q < filesystem_size ?h" using obsolete_in [OF pok pg(2) geod(6)] by simp
    have dist: "distinct (map page_id (data_pages (fh_inode ?old)))"
      "\<forall>q \<in> set (data_pages (fh_inode ?old)). page_id q < NO_DATA" "fh_page ?old < NO_DATA"
      using pok pg(2) geod(6,7) by (auto simp: get_disconnected_copy_def pages_ok_def NO_DATA_def)
    have L: "fst (PageSet_get_data (pages_to_erase ?old ?f')) = ?L"
      using pages_to_erase_facts(3) [OF dist] ob by simp
    have "ok (mem ?s2)" "geometry (header ?s2) (length (cells (mem ?s2)))"
      "ps_inv (free_data_pages ?s2)" "ps_inv (allocated_unwritten_pages ?s2)"
      "\<forall>q \<in> set ?L. Suc q < filesystem_size (header ?s2)"
      using m(3,5) geo sets inL by simp_all
    note ep = erase_pages_ok [OF this]
    have hs2: "header ?s2 = header s" "mem ?s2 = m2" "free_data_pages ?s2 = free_data_pages s"
      "allocated_unwritten_pages ?s2 = allocated_unwritten_pages s" by simp_all
    from ep obtain m' F A where
      e: "erase_pages c ?s2 ?L = Inr (?s2\<lparr>mem := m', free_data_pages := F, allocated_unwritten_pages := A\<rparr>)"
        "ok m'" "cells m' = foldl apply_op (cells m2) (map (erase_op ?n) ?L)"
        "flash_run (flash c) m2 (map (erase_op ?n) ?L) m'"
        "mem_can_map_read (flash c) m' = mem_can_map_read (flash c) m2"
        "ps_inv F" "elems F = elems (free_data_pages s) \<union> {q \<in> set ?L. max_inodes ?h < q}"
        "ps_inv A" "elems A = elems (allocated_unwritten_pages s) - {q \<in> set ?L. q \<le> max_inodes ?h}"
      unfolding hs2 by (elim exE conjE) (rule that, assumption+)
    have "flush_version c s f p = Inr (True, ?f', s\<lparr>mem := m', free_data_pages := F, allocated_unwritten_pages := A\<rparr>)"
      using fl False e(1) L by (simp add: erase_inode_and_unused_pages_def)
    moreover have "cells m' = foldl apply_op (cells (mem s)) (version_ops c ?h f p)"
      using False by (simp add: version_ops_def e(3) m(4))
    moreover have "flash_run (flash c) (mem s) (version_ops c ?h f p) m'"
      using flash_run_trans [OF m(6) e(4)] False by (simp add: version_ops_def)
    moreover have "length (cells m') = length (cells (mem s))"
      unfolding e(3) using length_apply_ops [of ?L ?n "cells m2"] geometry_page_in [OF geo] inL m(5) by simp
    ultimately show ?thesis using e(2,5-9) m(7) False
      by (intro exI [of _ m'] exI [of _ F] exI [of _ A]) simp
  qed
qed

end

section \<open>Which pages an operation can change\<close>

definition on_page :: "nat \<Rightarrow> nat \<Rightarrow> flash_op \<Rightarrow> nat \<Rightarrow> bool" where
  "on_page n len oper r \<longleftrightarrow> page_in n r len \<and> (oper = erase_op n r \<or> (\<exists>d. length d = n \<and> oper = write_op n r d))"

lemma untouched:
  "\<forall>oper \<in> set ops. \<exists>r. r \<noteq> q \<and> on_page n (length B) oper r \<Longrightarrow> page_in n q (length B) \<Longrightarrow>
   page_at n q (foldl apply_op B ops) = page_at n q B \<and> length (foldl apply_op B ops) = length B"
proof (induction ops arbitrary: B)
  case (Cons oper ops)
  then obtain r where r: "r \<noteq> q" "on_page n (length B) oper r" by auto
  then obtain d where d: "apply_op B oper = put_page n r d B" "length d = n" "page_in n r (length B)"
    by (auto simp: on_page_def apply_erase_op apply_write_op)
  then have "length (apply_op B oper) = length B" "page_at n q (apply_op B oper) = page_at n q B"
    using r(1) Cons.prems(2) by (simp_all add: page_at_put_page)
  with Cons show ?case by simp
qed simp

lemma untouched_length:
  "\<forall>oper \<in> set ops. \<exists>r. on_page n (length B) oper r \<Longrightarrow> length (foldl apply_op B ops) = length B"
proof (induction ops arbitrary: B)
  case (Cons oper ops)
  then obtain r where "on_page n (length B) oper r" by auto
  then have "length (apply_op B oper) = length B"
    by (auto simp: on_page_def apply_erase_op apply_write_op)
  with Cons show ?case by simp
qed simp

lemma zero_ops_on_page:
  assumes "\<forall>p \<in> set ps. page_in n (page_id p) len" "oper \<in> set (zero_ops n ps)"
  shows "\<exists>p \<in> set ps. dp_state p = New \<and> on_page n len oper (page_id p)"
  using assms by (auto simp: zero_ops_def on_page_def intro: length_replicate)

lemma erase_ops_on_page:
  assumes "\<forall>q \<in> set qs. page_in n q len" "oper \<in> set (map (erase_op n) qs)"
  shows "\<exists>q \<in> set qs. on_page n len oper q"
  using assms by (auto simp: on_page_def)

section \<open>What a flush guarantees\<close>

text \<open>The state of a mounted file system.\<close>

definition mounted :: "('m \<Rightarrow> bool) \<Rightarrow> ('m \<Rightarrow> byte list) \<Rightarrow> 'm fs \<Rightarrow> bool" where
  "mounted ok cells s \<longleftrightarrow> ok (mem s) \<and> geometry (header s) (length (cells (mem s)))
     \<and> ps_inv (free_data_pages s) \<and> ps_inv (allocated_unwritten_pages s)
     \<and> m_max (header_inode_range s) = max_inodes (header s)"

text \<open>A handle whose inode is on the flash and has a next version that fits its page.\<close>

definition flushable :: "header \<Rightarrow> file_handle \<Rightarrow> bool" where
  "flushable h f \<longleftrightarrow> modified f \<and> inode_number (fh_inode f) \<noteq> 0
     \<and> inode_ok h (fh_inode (next_version f 0)) \<and> pages_ok h (data_pages (fh_inode f))
     \<and> Suc (fh_page f) < max_inodes h"

lemma next_version_inode: "fh_inode (next_version f p) = fh_inode (next_version f 0)"
  by (simp add: next_version_def drop_deleted_def set_pages_def)

text \<open>The contents of the pages of the new version.\<close>

definition new_contents :: "nat \<Rightarrow> byte list \<Rightarrow> data_page \<Rightarrow> byte list" where
  "new_contents n B q = (if dp_state q = New then replicate n 0 else page_at n (page_id q) B)"

text \<open>
  The contents of a flash after any prefix of the operations of a flush: until the inode is
  written the old version is intact, from then on the new one, and no other page changes.
\<close>

lemma version_ops_prefix:
  assumes geo: "geometry h (length B)" and fl: "flushable h f"
    and p: "Suc p < max_inodes h" "p \<noteq> fh_page f"
  shows "(k \<le> length (zero_ops (page_size h) (data_pages (fh_inode (next_version f p)))) \<longrightarrow>
      page_at (page_size h) (fh_page f) (foldl apply_op B (take k (version_ops c h f p))) = page_at (page_size h) (fh_page f) B
      \<and> page_at (page_size h) p (foldl apply_op B (take k (version_ops c h f p))) = page_at (page_size h) p B
      \<and> (\<forall>q \<in> set (data_pages (fh_inode f)). dp_state q \<noteq> New \<longrightarrow>
          page_at (page_size h) (page_id q) (foldl apply_op B (take k (version_ops c h f p))) = page_at (page_size h) (page_id q) B))
    \<and> (length (zero_ops (page_size h) (data_pages (fh_inode (next_version f p)))) < k \<longrightarrow>
      page_at (page_size h) p (foldl apply_op B (take k (version_ops c h f p))) = inode_image c h (fh_inode (next_version f p))
      \<and> (\<forall>q \<in> set (data_pages (fh_inode (next_version f p))).
          page_at (page_size h) (page_id q) (foldl apply_op B (take k (version_ops c h f p))) = new_contents (page_size h) B q))
    \<and> (\<forall>r. r \<noteq> p \<and> r \<noteq> fh_page f \<and> r \<notin> page_id ` set (data_pages (fh_inode f)) \<and> Suc r < filesystem_size h \<longrightarrow>
        page_at (page_size h) r (foldl apply_op B (take k (version_ops c h f p))) = page_at (page_size h) r B)
    \<and> length (foldl apply_op B (take k (version_ops c h f p))) = length B"
proof -
  let ?n = "page_size h" and ?g = "next_version f p"
  let ?dp = "data_pages (fh_inode f)" and ?dg = "data_pages (fh_inode (next_version f p))"
  let ?Z = "zero_ops ?n ?dg" and ?W = "write_op ?n p (inode_image c h (fh_inode ?g))"
  define L where "L = (if keeps_old_pages c then [] else sorted_list_of_set (obsolete f ?g))"
  let ?E = "map (erase_op ?n) L"
  note geod = geometryD [OF geo]
  have iok: "inode_ok h (fh_inode ?g)" using fl next_version_inode [of f p] by (simp add: flushable_def)
  have pok: "pages_ok h ?dp" and pf: "Suc (fh_page f) < max_inodes h" using fl by (simp_all add: flushable_def)
  have gok: "pages_ok h ?dg" using pages_ok_filter [OF pok] by simp
  have ops: "version_ops c h f p = ?Z @ ?W # ?E" by (simp add: version_ops_def commit_ops_def L_def)
  have L: "q \<in> set L \<Longrightarrow> q \<in> obsolete f ?g" for q by (simp add: L_def split: if_splits)
  have inp: "page_in ?n q (length B)" if "Suc q < filesystem_size h" for q by (rule geometry_page_in [OF geo that])
  have ip: "page_in ?n p (length B)" "page_in ?n (fh_page f) (length B)" using inp p(1) pf geod(6) by simp_all
  have idp: "page_in ?n (page_id q) (length B)" if "q \<in> set ?dp" for q using inp pok that by (auto simp: pages_ok_def)
  have Zon: "\<exists>q \<in> set ?dg. dp_state q = New \<and> on_page ?n (length B) oper (page_id q)" if "oper \<in> set ?Z" for oper
    using that idp by (intro zero_ops_on_page) auto
  have Eon: "\<exists>q \<in> obsolete f ?g. on_page ?n (length B) oper q" if "oper \<in> set ?E" for oper
    using that L inp obsolete_in [OF pok pf geod(6)] erase_ops_on_page [of L ?n "length B" oper] by blast
  have Won: "on_page ?n (length B) ?W p" using ip length_inode_image [OF iok, of c] unfolding on_page_def by blast
  have small: "page_id q \<noteq> p \<and> page_id q \<noteq> fh_page f" if "q \<in> set ?dp" for q
    using that pok p(1) pf by (auto simp: pages_ok_def)
  have inj: "q = q'" if "q \<in> set ?dp" "q' \<in> set ?dp" "page_id q = page_id q'" for q q'
    using that pok by (auto simp: pages_ok_def distinct_map inj_on_def)
  have pobs: "p \<notin> obsolete f ?g" using p small by (auto simp: obsolete_def)
  have allon: "\<exists>r. on_page ?n (length B) oper r \<and> (r = p \<or> r = fh_page f \<or> r \<in> page_id ` set ?dp)"
    if oper: "oper \<in> set (version_ops c h f p)" for oper
  proof -
    consider "oper \<in> set ?Z" | "oper = ?W" | "oper \<in> set ?E" using oper unfolding ops by auto
    then show ?thesis
    proof cases
      case 1
      with Zon show ?thesis by fastforce
    next
      case 2
      with Won show ?thesis by blast
    next
      case 3
      with Eon obtain q where "q \<in> obsolete f ?g" "on_page ?n (length B) oper q" by blast
      then show ?thesis by (auto simp: obsolete_def)
    qed
  qed
  let ?B = "foldl apply_op B (take k (version_ops c h f p))"
  have len: "length ?B = length B" 
  proof (rule untouched_length [where n = ?n], rule ballI)
    fix oper assume "oper \<in> set (take k (version_ops c h f p))"
    from allon [OF in_set_takeD [OF this]] show "\<exists>r. on_page ?n (length B) oper r" by blast
  qed
  have other: "page_at ?n r ?B = page_at ?n r B"
    if "r \<noteq> p" "r \<noteq> fh_page f" "r \<notin> page_id ` set ?dp" "Suc r < filesystem_size h" for r
  proof -
    have "\<exists>r'. r' \<noteq> r \<and> on_page ?n (length B) oper r'" if "oper \<in> set (take k (version_ops c h f p))" for oper
      using allon [OF in_set_takeD [OF that]] \<open>r \<noteq> p\<close> \<open>r \<noteq> fh_page f\<close> \<open>r \<notin> page_id ` set ?dp\<close> by metis
    then show ?thesis using untouched inp [OF that(4)] by blast
  qed
  have before: "page_at ?n r ?B = page_at ?n r B"
    if "k \<le> length ?Z" "page_in ?n r (length B)" "\<forall>q \<in> set ?dg. dp_state q = New \<longrightarrow> page_id q \<noteq> r" for r
  proof -
    have tk: "take k (version_ops c h f p) = take k ?Z" using that(1) by (simp add: ops)
    have "\<exists>r'. r' \<noteq> r \<and> on_page ?n (length B) oper r'" if "oper \<in> set (take k ?Z)" for oper
      using Zon [OF in_set_takeD [OF that]] \<open>\<forall>q \<in> set ?dg. dp_state q = New \<longrightarrow> page_id q \<noteq> r\<close> by blast
    then show ?thesis unfolding tk using untouched that(2) by blast
  qed
  have after: "page_at ?n r ?B = (if r = p then inode_image c h (fh_inode ?g) else page_at ?n r (foldl apply_op B ?Z))"
    if "length ?Z < k" "page_in ?n r (length B)" "r \<notin> obsolete f ?g" for r
  proof -
    from less_imp_Suc_add [OF that(1)] obtain j where k: "k = length ?Z + Suc j" by auto
    have tk: "take k (version_ops c h f p) = ?Z @ ?W # take j ?E" by (simp add: ops k)
    let ?B1 = "foldl apply_op B ?Z" and ?B2 = "foldl apply_op B (?Z @ [?W])"
    have l1: "length ?B1 = length B" using idp by (intro length_zero_ops) simp
    have B2: "?B2 = put_page ?n p (inode_image c h (fh_inode ?g)) ?B1" by (simp add: apply_write_op)
    have l2: "length ?B2 = length B" unfolding B2 using l1 ip iok by simp
    have "\<exists>r'. r' \<noteq> r \<and> on_page ?n (length ?B2) oper r'" if "oper \<in> set (take j ?E)" for oper
      using Eon [OF in_set_takeD [OF that]] \<open>r \<notin> obsolete f ?g\<close> l2 by metis
    then have "page_at ?n r (foldl apply_op ?B2 (take j ?E)) = page_at ?n r ?B2"
      using untouched that(2) l2 by metis
    moreover have "page_at ?n r ?B2 = (if r = p then inode_image c h (fh_inode ?g) else page_at ?n r ?B1)"
      unfolding B2 using l1 ip that(2) iok by (intro page_at_put_page) simp_all
    ultimately show ?thesis unfolding tk by simp
  qed
  have newid: "\<forall>q' \<in> set ?dg. dp_state q' = New \<longrightarrow> page_id q' \<noteq> page_id q"
    if "q \<in> set ?dp" "dp_state q \<noteq> New" for q
    using inj that by auto
  have pnew: "\<forall>q \<in> set ?dg. dp_state q = New \<longrightarrow> page_id q \<noteq> p"
    "\<forall>q \<in> set ?dg. dp_state q = New \<longrightarrow> page_id q \<noteq> fh_page f" using small by simp_all
  have contents: "page_at ?n (page_id q) ?B = new_contents ?n B q" if "length ?Z < k" "q \<in> set ?dg" for q
  proof -
    have qd: "q \<in> set ?dp" using that(2) by simp
    have "page_id q \<notin> obsolete f ?g" using that(2) small [OF qd] by (auto simp: obsolete_def)
    from after [OF that(1) idp [OF qd] this] small [OF qd]
    have a: "page_at ?n (page_id q) ?B = page_at ?n (page_id q) (foldl apply_op B ?Z)" by simp
    have "\<forall>q' \<in> set ?dg. page_in ?n (page_id q') (length B)" using idp by simp
    from page_at_zeroed [OF this idp [OF qd]]
    have "page_at ?n (page_id q) (foldl apply_op B ?Z) =
        (if \<exists>q' \<in> set ?dg. dp_state q' = New \<and> page_id q' = page_id q then replicate ?n 0 else page_at ?n (page_id q) B)" .
    moreover have "(\<exists>q' \<in> set ?dg. dp_state q' = New \<and> page_id q' = page_id q) \<longleftrightarrow> dp_state q = New"
      using that(2) inj qd by auto
    ultimately show ?thesis using a by (simp add: new_contents_def)
  qed
  show ?thesis
  proof (intro conjI impI ballI allI)
    show "k \<le> length ?Z \<Longrightarrow> page_at ?n (fh_page f) ?B = page_at ?n (fh_page f) B"
      by (rule before [OF _ ip(2) pnew(2)])
    show "k \<le> length ?Z \<Longrightarrow> page_at ?n p ?B = page_at ?n p B" by (rule before [OF _ ip(1) pnew(1)])
    show "page_at ?n (page_id q) ?B = page_at ?n (page_id q) B"
      if "k \<le> length ?Z" "q \<in> set ?dp" "dp_state q \<noteq> New" for q
      by (rule before [OF that(1) idp [OF that(2)] newid [OF that(2,3)]])
    show "length ?Z < k \<Longrightarrow> page_at ?n p ?B = inode_image c h (fh_inode ?g)"
      using after [OF _ ip(1) pobs] by simp
    show "length ?Z < k \<Longrightarrow> q \<in> set ?dg \<Longrightarrow> page_at ?n (page_id q) ?B = new_contents ?n B q" for q
      by (rule contents)
    show "page_at ?n r ?B = page_at ?n r B"
      if "r \<noteq> p \<and> r \<noteq> fh_page f \<and> r \<notin> page_id ` set ?dp \<and> Suc r < filesystem_size h" for r
      using other that by blast
    show "length ?B = length B" by (rule len)
  qed
qed

context fs_on_flash
begin

lemma flush_mounted:
  assumes mnt: "mounted ok cells s" and fl: "flushable (header s) f"
    and free: "first_free_inode_page c (header s) (cells (mem s)) (elems (allocated_unwritten_pages s)) 0 = Some p"
    and valid: "checksum_ok c (fs_endianness (header s)) (page_at (page_size (header s)) (fh_page f) (cells (mem s)))
      \<or> fh_page f \<in> elems (allocated_unwritten_pages s)"
    and wr: "page_writable writable (page_size (header s)) p (mem s)"
      "\<forall>q \<in> set (data_pages (fh_inode f)). dp_state q = New \<longrightarrow>
        page_writable writable (page_size (header s)) (page_id q) (mem s)"
  shows "\<exists>s'. flush c s f = Inr (True, settle (next_version f p), s')
    \<and> mounted ok cells s' \<and> header s' = header s \<and> max_inode_number s' = max_inode_number s
    \<and> p \<noteq> fh_page f \<and> Suc p < max_inodes (header s)
    \<and> cells (mem s') = foldl apply_op (cells (mem s)) (version_ops c (header s) f p)
    \<and> flash_run (flash c) (mem s) (version_ops c (header s) f p) (mem s')
    \<and> (keeps_old_pages c \<longrightarrow> free_data_pages s' = free_data_pages s
        \<and> elems (allocated_unwritten_pages s') = insert p (elems (allocated_unwritten_pages s)))
    \<and> (\<not> keeps_old_pages c \<longrightarrow>
        elems (free_data_pages s') = elems (free_data_pages s)
          \<union> {q \<in> obsolete f (next_version f p). max_inodes (header s) < q}
        \<and> elems (allocated_unwritten_pages s') = insert p (elems (allocated_unwritten_pages s))
          - {q \<in> obsolete f (next_version f p). q \<le> max_inodes (header s)})"
proof -
  have m: "ok (mem s)" "geometry (header s) (length (cells (mem s)))" "ps_inv (free_data_pages s)"
    "ps_inv (allocated_unwritten_pages s)" "m_max (header_inode_range s) = max_inodes (header s)"
    using mnt by (simp_all add: mounted_def)
  from first_free_Some [OF free] have pf: "Suc p < max_inodes (header s)" "p \<noteq> fh_page f"
    using valid by (auto simp: inode_page_free_def)
  from allocate_inode_page_ok [OF m(1,2,4,5)] free obtain r' m0 A0 where
    a: "allocate_free_inode_page_number c s =
        Inr (Some p, s\<lparr>mem := m0, allocated_unwritten_pages := A0, header_inode_range := r'\<rparr>)"
      "m_max r' = max_inodes (header s)" "same_flash (flash c) ok cells writable (mem s) m0"
      "ps_inv A0" "elems A0 = insert p (elems (allocated_unwritten_pages s))" by auto
  let ?s0 = "s\<lparr>mem := m0, allocated_unwritten_pages := A0, header_inode_range := r'\<rparr>"
  have f: "inode_ok (header ?s0) (fh_inode (next_version f p))" "pages_ok (header ?s0) (data_pages (fh_inode f))"
    "Suc p < max_inodes (header ?s0)" "Suc (fh_page f) < max_inodes (header ?s0)"
    using fl pf next_version_inode [of f p] by (simp_all add: flushable_def)
  have w: "page_writable writable (page_size (header ?s0)) p (mem ?s0)"
    "\<forall>q \<in> set (data_pages (fh_inode f)). dp_state q = New \<longrightarrow>
        page_writable writable (page_size (header ?s0)) (page_id q) (mem ?s0)"
    "ok (mem ?s0)" "geometry (header ?s0) (length (cells (mem ?s0)))"
    "ps_inv (free_data_pages ?s0)" "ps_inv (allocated_unwritten_pages ?s0)"
    using wr a(3,4) m by (simp_all add: same_flash_def page_writable_def)
  from flush_version_ok [OF w(3-6) f w(1,2)] obtain m' F A where
    v: "flush_version c ?s0 f p = Inr (True, settle (next_version f p),
        ?s0\<lparr>mem := m', free_data_pages := F, allocated_unwritten_pages := A\<rparr>)"
      "ok m'" "cells m' = foldl apply_op (cells (mem ?s0)) (version_ops c (header ?s0) f p)"
      "length (cells m') = length (cells (mem ?s0))"
      "flash_run (flash c) (mem ?s0) (version_ops c (header ?s0) f p) m'" "ps_inv F" "ps_inv A"
      "keeps_old_pages c \<longrightarrow> F = free_data_pages ?s0 \<and> A = allocated_unwritten_pages ?s0"
      "\<not> keeps_old_pages c \<longrightarrow>
        elems F = elems (free_data_pages ?s0) \<union> {q \<in> obsolete f (next_version f p). max_inodes (header ?s0) < q}
        \<and> elems A = elems (allocated_unwritten_pages ?s0) - {q \<in> obsolete f (next_version f p). q \<le> max_inodes (header ?s0)}"
    by (elim exE conjE) (rule that, assumption+)
  let ?s' = "?s0\<lparr>mem := m', free_data_pages := F, allocated_unwritten_pages := A\<rparr>"
  have "flush c s f = Inr (True, settle (next_version f p), ?s')"
    using fl a(1) v(1) by (simp add: flush_def flushable_def)
  moreover have "mounted ok cells ?s'"
    using v(2,4,6,7) a(2,3) m(2) by (simp add: mounted_def same_flash_def)
  moreover have "flash_run (flash c) (mem s) (version_ops c (header s) f p) m'"
    using flash_run_trans [of "flash c" "mem s" "[]" m0] a(3) v(5) by (simp add: same_flash_def)
  moreover have "cells m' = foldl apply_op (cells (mem s)) (version_ops c (header s) f p)"
    using v(3) a(3) by (simp add: same_flash_def)
  ultimately show ?thesis using v(8,9) a(5) pf by (intro exI [of _ ?s']) simp
qed

end

lemma header_untouched:
  "\<forall>oper \<in> set ops. \<exists>r. on_page n (length B) oper r \<Longrightarrow> take n (foldl apply_op B ops) = take n B"
proof (induction ops arbitrary: B)
  case (Cons oper ops)
  then obtain r where "on_page n (length B) oper r" by auto
  then have "length (apply_op B oper) = length B" "take n (apply_op B oper) = take n B"
    by (auto simp: on_page_def apply_erase_op apply_write_op header_put_page)
  with Cons show ?case by simp
qed simp

lemma version_ops_on_page:
  assumes geo: "geometry h len" and fl: "flushable h f" and p: "Suc p < max_inodes h"
    and oper: "oper \<in> set (version_ops c h f p)"
  shows "\<exists>r. on_page (page_size h) len oper r"
proof -
  note geod = geometryD [OF geo]
  have iok: "inode_ok h (fh_inode (next_version f p))" and pok: "pages_ok h (data_pages (fh_inode f))"
    and pf: "Suc (fh_page f) < max_inodes h"
    using fl next_version_inode [of f p] by (simp_all add: flushable_def)
  have inp: "page_in (page_size h) q len" if "Suc q < filesystem_size h" for q
    by (rule geometry_page_in [OF geo that])
  consider "oper \<in> set (zero_ops (page_size h) (data_pages (fh_inode (next_version f p))))"
    | "oper = write_op (page_size h) p (inode_image c h (fh_inode (next_version f p)))"
    | "oper \<in> set (map (erase_op (page_size h)) (sorted_list_of_set (obsolete f (next_version f p))))"
    using oper by (auto simp: version_ops_def commit_ops_def split: if_splits)
  then show ?thesis
  proof cases
    case 1
    have "\<forall>q \<in> set (data_pages (fh_inode (next_version f p))). page_in (page_size h) (page_id q) len"
      using pok inp by (auto simp: pages_ok_def)
    from zero_ops_on_page [OF this 1] show ?thesis by blast
  next
    case 2
    then show ?thesis using length_inode_image [OF iok, of c] inp [of p] p geod(6)
      unfolding on_page_def by (metis less_trans)
  next
    case 3
    have "\<forall>q \<in> set (sorted_list_of_set (obsolete f (next_version f p))). page_in (page_size h) q len"
      using obsolete_in [OF pok pf geod(6)] inp by simp
    from erase_ops_on_page [OF this 3] show ?thesis by blast
  qed
qed

text \<open>What the new version does not need is erased.\<close>

lemma version_ops_erased:
  assumes geo: "geometry h (length B)" and fl: "flushable h f" and p: "Suc p < max_inodes h"
    and keep: "\<not> keeps_old_pages c" and q: "q \<in> obsolete f (next_version f p)"
  shows "page_at (page_size h) q (foldl apply_op B (version_ops c h f p)) = replicate (page_size h) 0xFF"
proof -
  let ?n = "page_size h" and ?g = "next_version f p"
  let ?L = "sorted_list_of_set (obsolete f ?g)" and ?C = "foldl apply_op B (commit_ops c h ?g)"
  have inL: "\<forall>q \<in> set ?L. Suc q < filesystem_size h"
    using obsolete_in [of h f _ ?g] fl geometryD(6) [OF geo] by (simp add: flushable_def)
  have "\<exists>r. on_page ?n (length B) oper r" if "oper \<in> set (commit_ops c h ?g)" for oper
    using version_ops_on_page [OF geo fl p, of oper c] that by (simp add: version_ops_def)
  then have lc: "length ?C = length B" by (intro untouched_length [where n = ?n]) blast
  have "foldl apply_op B (version_ops c h f p) = foldl apply_op ?C (map (erase_op ?n) ?L)"
    using keep by (simp add: version_ops_def)
  then show ?thesis
    using page_at_erased [of ?L ?n ?C q] inL geometry_page_in [OF geo] lc q by simp
qed

text \<open>
  C3. The flush of a file that has an inode (it has been flushed before: the first flush of a
  new file is part of the property on archives) makes the next version of its inode durable and
  keeps the file system mounted: the geometry still fits the flash, the sets of free and claimed
  pages are still well formed and have gained the pages that became free (unless the class keeps
  them) and the inode page that was chosen. The page it chose passes the checksum and reads back as the inode, with its version number one
  higher, the surviving pages as they were and the pages that were never written as zeros; the
  old inode page and the pages only it used are erased (unless the class keeps them); every
  other page, and the header page, is as before.
\<close>

theorem flush_makes_version_durable:
  assumes "mounted sim_ok sf_bytes s" "flushable (header s) f"
    "first_free_inode_page (sim_config P crc n keep) (header s) (sf_bytes (mem s))
       (elems (allocated_unwritten_pages s)) 0 = Some p"
    "checksum_ok (sim_config P crc n keep) (fs_endianness (header s))
       (page_at (page_size (header s)) (fh_page f) (sf_bytes (mem s)))"
  shows "\<exists>s' s'' page. flush (sim_config P crc n keep) s f = Inr (True, settle (next_version f p), s')
    \<and> mounted sim_ok sf_bytes s' \<and> header s' = header s \<and> max_inode_number s' = max_inode_number s
    \<and> (keep \<longrightarrow> elems (free_data_pages s') = elems (free_data_pages s)
        \<and> elems (allocated_unwritten_pages s') = insert p (elems (allocated_unwritten_pages s)))
    \<and> (\<not> keep \<longrightarrow>
        elems (free_data_pages s') = elems (free_data_pages s)
          \<union> {q \<in> obsolete f (next_version f p). max_inodes (header s) < q}
        \<and> elems (allocated_unwritten_pages s') = insert p (elems (allocated_unwritten_pages s))
          - {q \<in> obsolete f (next_version f p). q \<le> max_inodes (header s)})
    \<and> read_page (sim_config P crc n keep) s' p (replicate (page_size (header s)) 0) True = Inr (None, page, s'')
    \<and> get_inode (sim_config P crc n keep) s' page False =
        Inr (new_handle\<lparr>fh_inode := reread (page_size (header s)) (fh_inode (next_version f p))\<rparr>)
    \<and> (\<forall>q \<in> set (data_pages (fh_inode (next_version f p))).
        page_at (page_size (header s)) (page_id q) (sf_bytes (mem s')) =
        new_contents (page_size (header s)) (sf_bytes (mem s)) q)
    \<and> (\<not> keep \<longrightarrow> (\<forall>q \<in> obsolete f (next_version f p).
        page_at (page_size (header s)) q (sf_bytes (mem s')) = replicate (page_size (header s)) 0xFF))
    \<and> (\<forall>r. r \<noteq> p \<and> r \<noteq> fh_page f \<and> r \<notin> page_id ` set (data_pages (fh_inode f)) \<and> Suc r < filesystem_size (header s) \<longrightarrow>
        page_at (page_size (header s)) r (sf_bytes (mem s')) = page_at (page_size (header s)) r (sf_bytes (mem s)))
    \<and> take (page_size (header s)) (sf_bytes (mem s')) = take (page_size (header s)) (sf_bytes (mem s))"
proof -
  let ?c = "sim_config P crc n keep" and ?h = "header s" and ?B = "sf_bytes (mem s)"
  let ?n = "page_size (header s)" and ?g = "next_version f p"
  have geo: "geometry ?h (length ?B)" using assms(1) by (simp add: mounted_def)
  note geod = geometryD [OF geo]
  have w: "page_writable (\<lambda>_ _. True) ?n q (mem s)" for q by (simp add: page_writable_def)
  from fs_sim.flush_mounted [OF assms(1-3) disjI1 [OF assms(4)]] w obtain s' where
    fl: "flush ?c s f = Inr (True, settle ?g, s')" "mounted sim_ok sf_bytes s'" "header s' = ?h"
      "p \<noteq> fh_page f" "Suc p < max_inodes ?h" "sf_bytes (mem s') = foldl apply_op ?B (version_ops ?c ?h f p)"
      "max_inode_number s' = max_inode_number s"
      "keeps_old_pages ?c \<longrightarrow> free_data_pages s' = free_data_pages s
        \<and> elems (allocated_unwritten_pages s') = insert p (elems (allocated_unwritten_pages s))"
      "\<not> keeps_old_pages ?c \<longrightarrow>
        elems (free_data_pages s') = elems (free_data_pages s) \<union> {q \<in> obsolete f ?g. max_inodes ?h < q}
        \<and> elems (allocated_unwritten_pages s') = insert p (elems (allocated_unwritten_pages s))
          - {q \<in> obsolete f ?g. q \<le> max_inodes ?h}"
    by blast
  let ?ops = "version_ops ?c ?h f p" and ?B' = "sf_bytes (mem s')"
  have Zlt: "length (zero_ops ?n (data_pages (fh_inode ?g))) < length ?ops"
    by (simp add: version_ops_def commit_ops_def)
  have all: "foldl apply_op ?B (take (length ?ops) ?ops) = ?B'" using fl(6) by simp
  note pre = version_ops_prefix [OF geo assms(2) fl(5,4), of "length ?ops" ?c, unfolded all]
  have img: "page_at ?n p ?B' = inode_image ?c ?h (fh_inode ?g)" using pre Zlt by blast
  have len: "length ?B' = length ?B" using pre by blast
  have iok: "inode_ok ?h (fh_inode ?g)" using assms(2) next_version_inode [of f p] by (simp add: flushable_def)
  have ok': "sim_ok (mem s')" using fl(2) by (simp add: mounted_def)
  have in': "page_in (page_size (header s')) p (length ?B')"
    using geometry_page_in [OF geo, of p] fl(3,5) geod(6) len by simp
  from fs_sim.read_page_in [OF ok' _ _ in', of "replicate ?n 0" True P crc n keep] obtain m'' where
    rd: "read_page ?c s' p (replicate ?n 0) True = Inr (None, inode_image ?c ?h (fh_inode ?g), s'\<lparr>mem := m''\<rparr>)"
    using inode_image_checksum [OF iok, of ?c] geod(2,3) fl(3) img by auto
  have gi: "get_inode ?c s' (inode_image ?c ?h (fh_inode ?g)) False =
      Inr (new_handle\<lparr>fh_inode := reread ?n (fh_inode ?g)\<rparr>)"
    using inode_image_read [of s' "fh_inode ?g" False ?c ?c] iok geod(4) fl(3) by simp
  have er: "page_at ?n q ?B' = replicate ?n 0xFF" if "\<not> keep" "q \<in> obsolete f ?g" for q
    unfolding fl(6) using that by (intro version_ops_erased [OF geo assms(2) fl(5)]) simp_all
  have hd: "take ?n ?B' = take ?n ?B"
    unfolding fl(6) using version_ops_on_page [OF geo assms(2) fl(5)] by (intro header_untouched) blast
  have sets: "keep \<longrightarrow> elems (free_data_pages s') = elems (free_data_pages s)
        \<and> elems (allocated_unwritten_pages s') = insert p (elems (allocated_unwritten_pages s))"
      "\<not> keep \<longrightarrow> elems (free_data_pages s') = elems (free_data_pages s)
          \<union> {q \<in> obsolete f ?g. max_inodes ?h < q}
        \<and> elems (allocated_unwritten_pages s') = insert p (elems (allocated_unwritten_pages s))
          - {q \<in> obsolete f ?g. q \<le> max_inodes ?h}"
    using fl(8,9) by simp_all
  show ?thesis
    using fl(1-3,7) sets rd gi pre Zlt er hd
    by (intro exI [of _ s'] exI [of _ "s'\<lparr>mem := m''\<rparr>"] exI [of _ "inode_image ?c ?h (fh_inode ?g)"]) blast
qed

text \<open>A small flash with one inode page in use, and a handle of its inode; for the witnesses.\<close>

definition sample_bytes :: "byte list" where
  "sample_bytes = replicate 124 0 @ [7, 0, 0, 0] @ erased 384"

definition sample_file :: file_handle where
  "sample_file = new_handle\<lparr>fh_inode := default_inode\<lparr>inode_number := 3, inode_version_number := 1,
     file_name := [97], file_name_len := 1, file_len := 2, inode_data := [10, 11]\<rparr>, modified := True\<rparr>"

lemma length_sample [simp]: "length sample_bytes = 512"
  by (simp add: sample_bytes_def)

lemma sample_page_0: "crc32 c = (\<lambda>_. 7) \<Longrightarrow> checksum_ok c LE (page_at 64 0 sample_bytes)"
proof -
  assume c: "crc32 c = (\<lambda>_. 7)"
  have "page_at 64 0 sample_bytes = replicate 60 0 @ [7, 0, 0, 0]"
    by (simp add: page_at_def slice_def sample_bytes_def)
  then show ?thesis by (simp add: checksum_ok_def c get_scalar_native obj_val_def)
qed

lemma sample_page_1: "crc32 c = (\<lambda>_. 7) \<Longrightarrow> \<not> checksum_ok c LE (page_at 64 1 sample_bytes)"
proof -
  assume c: "crc32 c = (\<lambda>_. 7)"
  have "page_at 64 1 sample_bytes = page_at 64 1 (erased 512)"
    by (simp add: page_at_def slice_def sample_bytes_def erased_def)
  then show ?thesis using erased_not_ok [of 1 512 c] c by (simp add: page_in_def)
qed

lemma sample_free:
  assumes "crc32 c = (\<lambda>_. 7)"
  shows "first_free_inode_page c small_header sample_bytes {} 0 = Some 1"
  using sample_page_0 [OF assms] sample_page_1 [OF assms]
  by (simp add: first_free_step) (simp add: inode_page_free_def)

lemma sample_flushable: "flushable small_header sample_file"
  by (simp add: flushable_def sample_file_def pages_ok_def inode_ok_def inode_wf_def inode_size_def
    next_version_def drop_deleted_def set_pages_def default_inode_def new_handle_def empty_handle_def add64_def)

lemma sample_mounted:
  "ok m \<Longrightarrow> cells m = sample_bytes \<Longrightarrow> mounted ok cells (small_fs m)"
  by (auto simp: mounted_def geometry_small ps_inv_def NO_DATA_def PageSet_empty_set_def)

theorem flush_makes_version_durable_witness:
  "\<exists>s'. flush (sim_config 0 (\<lambda>_. 7) LE False) (small_fs (SimFlash_open sample_bytes)) sample_file =
      Inr (True, settle (next_version sample_file 1), s')
    \<and> page_at 64 0 (sf_bytes (mem s')) = replicate 64 0xFF"
proof -
  let ?c = "sim_config 0 (\<lambda>_. 7) LE False" and ?s = "small_fs (SimFlash_open sample_bytes)"
  have m: "mounted sim_ok sf_bytes ?s"
    by (rule sample_mounted) (simp_all add: SimFlash_open_def sim_ok_def)
  have pre: "flushable (header ?s) sample_file"
    "first_free_inode_page ?c (header ?s) (sf_bytes (mem ?s)) (elems (allocated_unwritten_pages ?s)) 0 = Some 1"
    "checksum_ok ?c (fs_endianness (header ?s)) (page_at (page_size (header ?s)) (fh_page sample_file) (sf_bytes (mem ?s)))"
    using sample_flushable sample_free [of ?c] sample_page_0 [of ?c]
    by (simp_all add: SimFlash_open_def sample_file_def new_handle_def empty_handle_def)
  have ob: "0 \<in> obsolete sample_file (next_version sample_file 1)"
    by (simp add: obsolete_def sample_file_def new_handle_def empty_handle_def)
  from flush_makes_version_durable [OF m pre] obtain s' where
    s': "flush ?c ?s sample_file = Inr (True, settle (next_version sample_file 1), s')"
      "\<not> False \<longrightarrow> (\<forall>q \<in> obsolete sample_file (next_version sample_file 1).
        page_at (page_size (header ?s)) q (sf_bytes (mem s')) = replicate (page_size (header ?s)) 0xFF)"
    by (elim exE conjE) (rule that, assumption+)
  then have "page_at 64 0 (sf_bytes (mem s')) = replicate 64 0xFF" using ob by auto
  with s'(1) show ?thesis by blast
qed

text \<open>
  C1. Power failure during a flush. The operations that the flush performs on the flash, cut
  off after any number \<open>k\<close> of them, leave one of the two versions of the file intact: the inode
  page and every stored page of the old version are unchanged, or the inode page of the new
  version is written and all its pages have their contents. Pages of other files and the
  header page never change.
\<close>

theorem flush_crash_safe:
  assumes "mounted log_ok log_cells s" "flushable (header s) f"
    "first_free_inode_page (log_config P crc n keep) (header s) (log_cells (mem s))
       (elems (allocated_unwritten_pages s)) 0 = Some p"
    "checksum_ok (log_config P crc n keep) (fs_endianness (header s))
       (page_at (page_size (header s)) (fh_page f) (log_cells (mem s)))"
  shows "\<exists>s' ops. flush (log_config P crc n keep) s f = Inr (True, settle (next_version f p), s')
    \<and> snd (mem s') = snd (mem s) @ ops \<and> log_cells (mem s') = foldl apply_op (log_cells (mem s)) ops
    \<and> (\<forall>k.
        (page_at (page_size (header s)) (fh_page f) (foldl apply_op (log_cells (mem s)) (take k ops)) =
           page_at (page_size (header s)) (fh_page f) (log_cells (mem s))
         \<and> (\<forall>q \<in> set (data_pages (fh_inode f)). dp_state q \<noteq> New \<longrightarrow>
             page_at (page_size (header s)) (page_id q) (foldl apply_op (log_cells (mem s)) (take k ops)) =
             page_at (page_size (header s)) (page_id q) (log_cells (mem s))))
        \<or> (page_at (page_size (header s)) p (foldl apply_op (log_cells (mem s)) (take k ops)) =
             inode_image (log_config P crc n keep) (header s) (fh_inode (next_version f p))
         \<and> (\<forall>q \<in> set (data_pages (fh_inode (next_version f p))).
             page_at (page_size (header s)) (page_id q) (foldl apply_op (log_cells (mem s)) (take k ops)) =
             new_contents (page_size (header s)) (log_cells (mem s)) q)))
    \<and> (\<forall>k r. r \<noteq> p \<and> r \<noteq> fh_page f \<and> r \<notin> page_id ` set (data_pages (fh_inode f)) \<and> Suc r < filesystem_size (header s) \<longrightarrow>
        page_at (page_size (header s)) r (foldl apply_op (log_cells (mem s)) (take k ops)) =
        page_at (page_size (header s)) r (log_cells (mem s)))
    \<and> (\<forall>k. take (page_size (header s)) (foldl apply_op (log_cells (mem s)) (take k ops)) =
        take (page_size (header s)) (log_cells (mem s)))"
proof -
  let ?c = "log_config P crc n keep" and ?h = "header s" and ?B = "log_cells (mem s)"
  let ?n = "page_size (header s)" and ?g = "next_version f p"
  have geo: "geometry ?h (length ?B)" using assms(1) by (simp add: mounted_def)
  have w: "page_writable (\<lambda>_ _. True) ?n q (mem s)" for q by (simp add: page_writable_def)
  from fs_log.flush_mounted [OF assms(1-3) disjI1 [OF assms(4)]] w obtain s' where
    fl: "flush ?c s f = Inr (True, settle ?g, s')" "p \<noteq> fh_page f" "Suc p < max_inodes ?h"
      "log_cells (mem s') = foldl apply_op ?B (version_ops ?c ?h f p)"
      "flash_run (flash ?c) (mem s) (version_ops ?c ?h f p) (mem s')"
    by blast
  let ?ops = "version_ops ?c ?h f p"
  have "snd (mem s') = snd (mem s) @ ?ops" using logged_run [of sim_ops] fl(5) by simp
  moreover note pre = version_ops_prefix [OF geo assms(2) fl(3,2), of _ ?c]
  have "(page_at ?n (fh_page f) (foldl apply_op ?B (take k ?ops)) = page_at ?n (fh_page f) ?B
         \<and> (\<forall>q \<in> set (data_pages (fh_inode f)). dp_state q \<noteq> New \<longrightarrow>
             page_at ?n (page_id q) (foldl apply_op ?B (take k ?ops)) = page_at ?n (page_id q) ?B))
        \<or> (page_at ?n p (foldl apply_op ?B (take k ?ops)) = inode_image ?c ?h (fh_inode ?g)
         \<and> (\<forall>q \<in> set (data_pages (fh_inode ?g)).
             page_at ?n (page_id q) (foldl apply_op ?B (take k ?ops)) = new_contents ?n ?B q))" for k
    using pre [of k] by (cases "k \<le> length (zero_ops ?n (data_pages (fh_inode ?g)))") (blast, metis not_le)
  moreover have "page_at ?n r (foldl apply_op ?B (take k ?ops)) = page_at ?n r ?B"
    if "r \<noteq> p \<and> r \<noteq> fh_page f \<and> r \<notin> page_id ` set (data_pages (fh_inode f)) \<and> Suc r < filesystem_size ?h" for k r
    using pre [of k] that by blast
  moreover have "take ?n (foldl apply_op ?B (take k ?ops)) = take ?n ?B" for k
  proof (rule header_untouched, rule ballI)
    fix oper assume "oper \<in> set (take k ?ops)"
    from version_ops_on_page [OF geo assms(2) fl(3) in_set_takeD [OF this]]
    show "\<exists>r. on_page ?n (length ?B) oper r" .
  qed
  ultimately show ?thesis using fl(1,4) by (intro exI [of _ s'] exI [of _ ?ops] conjI allI impI) assumption+
qed

theorem flush_crash_safe_witness:
  "\<exists>s'. flush (log_config 0 (\<lambda>_. 7) LE False) (small_fs (SimFlash_open sample_bytes, [])) sample_file =
      Inr (True, settle (next_version sample_file 1), s')"
proof -
  let ?c = "log_config 0 (\<lambda>_. 7) LE False" and ?s = "small_fs (SimFlash_open sample_bytes, [] :: flash_op list)"
  have m: "mounted log_ok log_cells ?s"
    by (rule sample_mounted) (simp_all add: SimFlash_open_def sim_ok_def log_ok_def log_cells_def)
  have pre: "flushable (header ?s) sample_file"
    "first_free_inode_page ?c (header ?s) (log_cells (mem ?s)) (elems (allocated_unwritten_pages ?s)) 0 = Some 1"
    "checksum_ok ?c (fs_endianness (header ?s)) (page_at (page_size (header ?s)) (fh_page sample_file) (log_cells (mem ?s)))"
    using sample_flushable sample_free [of ?c] sample_page_0 [of ?c]
    by (simp_all add: SimFlash_open_def sample_file_def new_handle_def empty_handle_def log_cells_def)
  from flush_crash_safe [OF m pre] show ?thesis by (elim exE conjE) (rule exI)
qed

end
