(* ===== verification/FileIO.thy ===== *)
theory FileIO
  imports Flush
begin

text \<open>
  Reading and writing the contents of a file (\<open>src/base/SimpleFlashFsBase.h\<close>: \<open>write\<close>,
  \<open>read\<close>, \<open>allocate_new_data_pages\<close>, \<open>allocate_new_data_page_at\<close>, \<open>enlarge_file\<close> and the
  position functions of \<open>FileHandle\<close>). Small files live in their inode; larger ones in pages,
  and a page that is on the flash is never written again, but replaced by a new one.
\<close>

section \<open>Pages for a file\<close>

definition insert_at :: "nat \<Rightarrow> 'a \<Rightarrow> 'a list \<Rightarrow> 'a list" where
  "insert_at k x xs = take k xs @ x # drop k xs"

text \<open>\<open>allocate_new_data_pages\<close>: new pages go behind the last valid one.\<close>

definition add_new_page :: "file_handle \<Rightarrow> nat \<Rightarrow> file_handle" where
  "add_new_page f n = set_pages f
     (insert_at (count_valid_data_pages (fh_inode f)) \<lparr>page_id = n, dp_state = New\<rparr> (data_pages (fh_inode f)))"

lemma count_valid_add_new_page:
  "count_valid_data_pages (fh_inode (add_new_page f n)) = Suc (count_valid_data_pages (fh_inode f))"
proof -
  let ?k = "count_valid_data_pages (fh_inode f)" and ?P = "\<lambda>p. dp_state p \<noteq> Deleted"
  let ?dp = "data_pages (fh_inode f)"
  have "length (filter ?P (take ?k ?dp)) + length (filter ?P (drop ?k ?dp)) = length (filter ?P ?dp)"
    by (metis append_take_drop_id filter_append length_append)
  then show ?thesis by (simp add: add_new_page_def count_valid_data_pages_def insert_at_def set_pages_def)
qed

function allocate_new_data_pages ::
  "'m fs \<Rightarrow> nat \<Rightarrow> file_handle \<Rightarrow> bool \<times> file_handle \<times> 'm fs" where
  "allocate_new_data_pages s page_idx f =
     (if page_idx \<ge> count_valid_data_pages (fh_inode f) then
        (case allocate_free_data_page_for s f of
           (None, s) \<Rightarrow> (False, f, s)
         | (Some n, s) \<Rightarrow> allocate_new_data_pages s page_idx (add_new_page f n))
      else (True, f, s))"
  by pat_completeness auto
termination
  by (relation "measure (\<lambda>(s, page_idx, f). Suc page_idx - count_valid_data_pages (fh_inode f))")
    (auto simp: count_valid_add_new_page)

declare allocate_new_data_pages.simps [simp del]

text \<open>\<open>data_pages.at( page_idx )\<close>.\<close>

definition page_slot :: "file_handle \<Rightarrow> nat \<Rightarrow> data_page res" where
  "page_slot f k = bindE (requireE Out_of_range (k < length (data_pages (fh_inode f))))
     (\<lambda>_. Inr (data_pages (fh_inode f) ! k))"

definition allocate_new_data_page_at ::
  "'m fs \<Rightarrow> nat \<Rightarrow> file_handle \<Rightarrow> (bool \<times> file_handle \<times> 'm fs) res" where
  "allocate_new_data_page_at s page_idx f =
     (case allocate_free_data_page_for s f of
        (None, s) \<Rightarrow> Inr (False, f, s)
      | (Some n, s) \<Rightarrow>
          bindE (page_slot f page_idx) (\<lambda>old.
          Inr (True, set_pages f
                ((data_pages (fh_inode f) @ [old\<lparr>dp_state := Deleted\<rparr>])
                   [page_idx := \<lparr>page_id = n, dp_state = New\<rparr>]), s)))"

section \<open>Writing\<close>

text \<open>Is there room inside the inode for \<open>n\<close> bytes at the position of the handle?\<close>

definition fits_inode :: "'m fs \<Rightarrow> file_handle \<Rightarrow> nat \<Rightarrow> bool" where
  "fits_inode s f n \<longleftrightarrow>
     get_inode_data_space_size s (fh_inode f) > add64 (fh_pos f) n
     \<and> file_len (fh_inode f) < get_inode_data_space_size s (fh_inode f)"

text \<open>
  The data in the inode: the vector is brought to the full size first. A position beyond the
  vector cannot come out of \<open>fits_inode\<close>, so the copy stays inside.
\<close>

definition write_inline :: "'m fs \<Rightarrow> file_handle \<Rightarrow> byte list \<Rightarrow> (nat \<times> file_handle \<times> 'm fs) res" where
  "write_inline s f d =
     (let space = get_inode_data_space_size s (fh_inode f); v = inode_data (fh_inode f)
      in bindE (if length v < space then vec_resize v space else Inr v) (\<lambda>v.
         bindE (memcpy_to v (fh_pos f) d) (\<lambda>v.
         let pos = add64 (fh_pos f) (length d)
         in Inr (length d,
              f\<lparr>fh_pos := pos, modified := True,
                fh_inode := (fh_inode f)\<lparr>inode_data := v, file_len := max pos (file_len (fh_inode f))\<rparr>\<rparr>, s))))"

text \<open>
  The part for data that does not start at a page boundary; the result tells whether the
  function goes on, and how many bytes are written by then. The two
  conditions on the state of the page are evaluated where the code has them.
\<close>

definition write_unaligned ::
  "'m config \<Rightarrow> 'm fs \<Rightarrow> file_handle \<Rightarrow> nat \<Rightarrow> byte list \<Rightarrow> (bool \<times> nat \<times> file_handle \<times> 'm fs) res" where
  "write_unaligned c s f page_idx d =
     (let ps = page_size (header s); data_start_at_page = fh_pos f mod ps
      in case (if page_idx > 0 then allocate_new_data_pages s (page_idx - 1) f else (True, f, s)) of
        (False, f, s) \<Rightarrow> Inr (False, 0, f, s)
      | (True, f, s) \<Rightarrow>
        let do_read_page = \<not> (page_idx < length (data_pages (fh_inode f))
              \<and> dp_state (data_pages (fh_inode f) ! page_idx) = New)
        in case (if do_read_page then allocate_new_data_pages s page_idx f else (True, f, s)) of
          (False, f, s) \<Rightarrow> Inr (False, 0, f, s)
        | (True, f, s) \<Rightarrow>
          bindE (page_slot f page_idx) (\<lambda>slot.
          bindE (if do_read_page then read_page c s (page_id slot) (replicate ps 0) False
                 else Inr (None, replicate ps 0, s)) (\<lambda>(err, page, s).
          if err \<noteq> None then Inr (False, 0, f, s)
          else
            let len = min (length d) (ps - data_start_at_page)
            in bindE (memcpy_to page data_start_at_page (take len d)) (\<lambda>page.
               bindE (if dp_state slot = Stored then allocate_new_data_page_at s page_idx f
                      else Inr (True, f, s)) (\<lambda>(done, f, s).
               if \<not> done then Inr (False, 0, f, s)
               else bindE (write_page c s f page (Slot page_idx)) (\<lambda>(done, f, s).
                    if \<not> done then Inr (False, 0, f, s)
                    else Inr (True, len, f\<lparr>fh_pos := add64 (fh_pos f) len\<rparr>, s)))))))"

text \<open>
  One round of the loop. With less than a page left, the rest of the page is kept; the length
  is below the page size, so its cast to 32 bits changes nothing.
\<close>

definition write_partial_page ::
  "'m config \<Rightarrow> 'm fs \<Rightarrow> file_handle \<Rightarrow> nat \<Rightarrow> byte list \<Rightarrow> (bool \<times> file_handle \<times> 'm fs) res" where
  "write_partial_page c s f page_idx d =
     (let ps = page_size (header s)
      in bindE (page_slot f page_idx) (\<lambda>slot.
         bindE (if dp_state slot = Stored then read_page c s (page_id slot) (replicate ps 0) False
                else Inr (None, replicate ps 0, s)) (\<lambda>(err, page, s).
         if err \<noteq> None then Inr (False, f, s)
         else
           let len = min (length d) ps
           in bindE (memcpy_to page 0 (take len d)) (\<lambda>page.
              bindE (if dp_state slot = Stored then allocate_new_data_page_at s page_idx f
                     else Inr (True, f, s)) (\<lambda>(done, f, s).
              if \<not> done then Inr (False, f, s)
              else bindE (write_page c s f page (Slot page_idx)) (\<lambda>(done, f, s).
                   if \<not> done then Inr (False, f, s)
                   else Inr (True, f\<lparr>fh_pos := add64 (fh_pos f) len\<rparr>, s)))))))"

definition write_full_page ::
  "'m config \<Rightarrow> 'm fs \<Rightarrow> file_handle \<Rightarrow> nat \<Rightarrow> byte list \<Rightarrow> (bool \<times> file_handle \<times> 'm fs) res" where
  "write_full_page c s f page_idx d =
     (let ps = page_size (header s)
      in bindE (page_slot f page_idx) (\<lambda>_.
         bindE (write_page c s f (take ps d) (Slot page_idx)) (\<lambda>(done, f, s).
         if \<not> done then Inr (False, f, s)
         else Inr (True, f\<lparr>fh_pos := add64 (fh_pos f) ps\<rparr>, s))))"

text \<open>
  The loop, over the data that is left to write. The page size is the one at the start of the
  call, as the header does not change.
\<close>

function write_loop ::
  "'m config \<Rightarrow> nat \<Rightarrow> 'm fs \<Rightarrow> file_handle \<Rightarrow> byte list \<Rightarrow> (bool \<times> file_handle \<times> 'm fs) res" where
  "write_loop c ps s f d =
     (if d = [] then Inr (True, f, s)
      else if ps = 0 then Inl Undefined
      else
        let page_idx = fh_pos f div ps
        in case allocate_new_data_pages s page_idx f of
          (False, f, s) \<Rightarrow> Inr (False, f, s)
        | (True, f, s) \<Rightarrow>
          if length d < ps then
            bindE (write_partial_page c s f page_idx d) (\<lambda>(done, f, s).
            if \<not> done then Inr (False, f, s) else write_loop c ps s f (drop (min (length d) ps) d))
          else
            bindE (write_full_page c s f page_idx d) (\<lambda>(done, f, s).
            if \<not> done then Inr (False, f, s) else write_loop c ps s f (drop ps d)))"
  by pat_completeness auto
termination
  by (relation "measure (\<lambda>(c, ps, s, f, d). length d)") auto

declare write_loop.simps [simp del]

text \<open>
  What follows the migration of inline data: \<open>page_idx\<close> is computed at the start of \<open>write\<close>,
  \<open>additional\<close> are the bytes the migration has written.
\<close>

definition write_tail ::
  "'m config \<Rightarrow> 'm fs \<Rightarrow> file_handle \<Rightarrow> nat \<Rightarrow> byte list \<Rightarrow> nat \<Rightarrow> (nat \<times> file_handle \<times> 'm fs) res" where
  "write_tail c s f page_idx d additional =
     (let ps = page_size (header s)
      in bindE (requireE Undefined (0 < ps)) (\<lambda>_.
         bindE (if fh_pos f mod ps \<noteq> 0 then write_unaligned c s f page_idx d else Inr (True, 0, f, s))
           (\<lambda>(go_on, bytes_written, f, s).
         if \<not> go_on then Inr (0, f, s)
         else bindE (write_loop c ps s f (drop bytes_written d)) (\<lambda>(done, f, s).
              if \<not> done then Inr (0, f, s)
              else Inr (length d + additional,
                     f\<lparr>modified := True, fh_inode := (fh_inode f)\<lparr>file_len :=
                         max (fh_pos f) (file_len (fh_inode f))\<rparr>\<rparr>, s)))))"

text \<open>
  The recursive call of \<open>write\<close>: the inline data has been cleared, so the branch that migrates
  it is not taken again.
\<close>

definition write_cleared :: "'m config \<Rightarrow> 'm fs \<Rightarrow> file_handle \<Rightarrow> byte list \<Rightarrow> (nat \<times> file_handle \<times> 'm fs) res" where
  "write_cleared c s f d =
     (if fits_inode s f (length d) then write_inline s f d
      else write_tail c s f (fh_pos f div page_size (header s)) d 0)"

text \<open>Data that was stored in the inode moves to the first page, up to the position of the handle.\<close>

definition write_migrate :: "'m config \<Rightarrow> 'm fs \<Rightarrow> file_handle \<Rightarrow> nat \<Rightarrow> byte list \<Rightarrow> (nat \<times> file_handle \<times> 'm fs) res" where
  "write_migrate c s f page_idx d =
     (let ps = page_size (header s); inode_data_size = fh_pos f;
          bytes_left = min (sub64 ps inode_data_size) (length d);
          total_size = inode_data_size + bytes_left
      in bindE (memcpy_from (inode_data (fh_inode f)) 0 inode_data_size) (\<lambda>old.
         bindE (memcpy_to (replicate ps 0) 0 old) (\<lambda>page.
         bindE (memcpy_to page inode_data_size (take bytes_left d)) (\<lambda>page.
         bindE (write_cleared c s
                  (f\<lparr>fh_pos := 0, modified := True, fh_inode := (fh_inode f)\<lparr>inode_data := []\<rparr>\<rparr>)
                  (take total_size page)) (\<lambda>(n, f, s).
         if n \<noteq> total_size then Inr (0, f, s)
         else if total_size \<le> ps \<and> length d = bytes_left then Inr (length d, f, s)
         else write_tail c s f page_idx (drop bytes_left d) bytes_left)))))"

definition fs_write :: "'m config \<Rightarrow> 'm fs \<Rightarrow> file_handle \<Rightarrow> byte list \<Rightarrow> (nat \<times> file_handle \<times> 'm fs) res" where
  "fs_write c s f d =
     bindE (requireE Undefined (0 < page_size (header s))) (\<lambda>_.
     let page_idx = fh_pos f div page_size (header s)
     in if fits_inode s f (length d) then write_inline s f d
        else if inode_data (fh_inode f) \<noteq> [] then write_migrate c s f page_idx d
        else write_tail c s f page_idx d 0)"

section \<open>Reading\<close>

text \<open>
  The functions return the bytes that were read; the source returns their number. A page that
  was never written (\<open>New\<close>) reads as zeros.
\<close>

definition read_unaligned ::
  "'m config \<Rightarrow> 'm fs \<Rightarrow> file_handle \<Rightarrow> nat \<Rightarrow> nat \<Rightarrow> (byte list option \<times> file_handle \<times> 'm fs) res" where
  "read_unaligned c s f page_idx sz =
     (let ps = page_size (header s); data_start_at_page = fh_pos f mod ps
      in if page_idx \<ge> length (data_pages (fh_inode f)) then Inr (None, f, s)
         else
           let slot = data_pages (fh_inode f) ! page_idx; len = min sz (ps - data_start_at_page)
           in if dp_state slot = New then
                Inr (Some (replicate len 0), f\<lparr>fh_pos := add64 (fh_pos f) len\<rparr>, s)
              else
                bindE (read_page c s (page_id slot) (replicate ps 0) False) (\<lambda>(err, page, s).
                if err \<noteq> None then Inr (None, f, s)
                else bindE (memcpy_from page data_start_at_page len) (\<lambda>d.
                     Inr (Some d, f\<lparr>fh_pos := add64 (fh_pos f) len\<rparr>, s))))"

text \<open>
  One round of the loop, for the \<open>n\<close> bytes that are left: the last, partial page is read when
  its state is \<open>Stored\<close>, a whole page unless its state is \<open>New\<close>.
\<close>

definition read_some ::
  "'m config \<Rightarrow> nat \<Rightarrow> 'm fs \<Rightarrow> data_page \<Rightarrow> nat \<Rightarrow> (byte list option \<times> 'm fs) res" where
  "read_some c ps s slot n =
     (if n < ps then
        bindE (if dp_state slot = Stored then read_page c s (page_id slot) (replicate ps 0) False
               else Inr (None, replicate ps 0, s)) (\<lambda>(err, page, s).
        if err \<noteq> None then Inr (None, s) else Inr (Some (take n page), s))
      else if dp_state slot = New then Inr (Some (replicate ps 0), s)
      else
        bindE (read_page c s (page_id slot) (replicate ps 0) False) (\<lambda>(err, page, s).
        if err \<noteq> None then Inr (None, s) else Inr (Some page, s)))"

function read_loop ::
  "'m config \<Rightarrow> nat \<Rightarrow> 'm fs \<Rightarrow> file_handle \<Rightarrow> nat \<Rightarrow> byte list \<Rightarrow> (byte list \<times> file_handle \<times> 'm fs) res" where
  "read_loop c ps s f n acc =
     (if n = 0 then Inr (acc, f, s)
      else if ps = 0 then Inl Undefined
      else
        let page_idx = fh_pos f div ps
        in if page_idx \<ge> length (data_pages (fh_inode f)) then Inr (acc, f, s)
           else bindE (read_some c ps s (data_pages (fh_inode f) ! page_idx) n) (\<lambda>(d, s).
             case d of
               None \<Rightarrow> Inr (acc, f, s)
             | Some d \<Rightarrow>
                 read_loop c ps s (f\<lparr>fh_pos := add64 (fh_pos f) (min n ps)\<rparr>) (n - min n ps) (acc @ d)))"
  by pat_completeness auto
termination
  by (relation "measure (\<lambda>(c, ps, s, f, n, acc). n)") auto

declare read_loop.simps [simp del]

definition fs_read :: "'m config \<Rightarrow> 'm fs \<Rightarrow> file_handle \<Rightarrow> nat \<Rightarrow> (byte list \<times> file_handle \<times> 'm fs) res" where
  "fs_read c s f n =
     bindE (requireE Undefined (0 < page_size (header s))) (\<lambda>_.
     let ps = page_size (header s);
         page_idx = fh_pos f div ps;
         left = sub64 (file_len (fh_inode f)) (fh_pos f);
         n = (if left < n then left else n)
     in if n = 0 then Inr ([], f, s)
        else if fits_inode s f n \<and> inode_data (fh_inode f) \<noteq> [] then
          let len = min left n
          in bindE (memcpy_from (inode_data (fh_inode f)) (fh_pos f) len) (\<lambda>d.
             Inr (d, f\<lparr>fh_pos := add64 (fh_pos f) len\<rparr>, s))
        else
          bindE (if fh_pos f mod ps \<noteq> 0 then read_unaligned c s f page_idx n else Inr (Some [], f, s))
            (\<lambda>(d, f, s).
          case d of
            None \<Rightarrow> Inr ([], f, s)
          | Some d \<Rightarrow> read_loop c ps s f (n - length d) d))"

section \<open>Growing, the position and truncation\<close>

definition enlarge_file :: "'m fs \<Rightarrow> file_handle \<Rightarrow> nat \<Rightarrow> (bool \<times> file_handle \<times> 'm fs) res" where
  "enlarge_file s f amount =
     (let ps = page_size (header s); target_size = add64 (file_len (fh_inode f)) amount
      in if amount \<ge> mul64 (get_number_of_free_data_pages s) ps then Inr (False, f, s)
         else if target_size \<ge> get_max_file_size s then Inr (False, f, s)
         else
           bindE (requireE Undefined (0 < ps)) (\<lambda>_.
           let page_idx = target_size div ps; space = get_inode_data_space_size s (fh_inode f)
           in bindE
                (if space \<ge> target_size then
                   bindE (if length (inode_data (fh_inode f)) < space
                          then vec_resize (inode_data (fh_inode f)) space
                          else Inr (inode_data (fh_inode f))) (\<lambda>v.
                   Inr (True, f\<lparr>fh_inode := (fh_inode f)\<lparr>inode_data := v\<rparr>\<rparr>, s))
                 else Inr (allocate_new_data_pages s page_idx f)) (\<lambda>(done, f, s).
              if \<not> done then Inr (False, f, s)
              else Inr (True, f\<lparr>modified := True, fh_inode := (fh_inode f)\<lparr>file_len :=
                          add64 (file_len (fh_inode f)) amount\<rparr>\<rparr>, s))))"

definition FileHandle_tellg :: "file_handle \<Rightarrow> nat" where
  "FileHandle_tellg f = fh_pos f"

definition FileHandle_file_size :: "file_handle \<Rightarrow> nat" where
  "FileHandle_file_size f = file_len (fh_inode f)"

definition FileHandle_eof :: "file_handle \<Rightarrow> bool" where
  "FileHandle_eof f =
     (if file_len (fh_inode f) = 0 then True else fh_pos f = sub64 (file_len (fh_inode f)) 1)"

definition FileHandle_seek :: "'m fs \<Rightarrow> file_handle \<Rightarrow> nat \<Rightarrow> (bool \<times> file_handle \<times> 'm fs) res" where
  "FileHandle_seek s f p =
     (if p < file_len (fh_inode f) \<or> p = file_len (fh_inode f) then Inr (True, f\<lparr>fh_pos := p\<rparr>, s)
      else
        bindE (requireE Null_fs (connected f)) (\<lambda>_.
        bindE (enlarge_file s f (sub64 (sub64 p (file_len (fh_inode f))) 1)) (\<lambda>(done, f, s).
        if \<not> done then Inr (False, f, s) else Inr (True, f\<lparr>fh_pos := p\<rparr>, s))))"

definition FileHandle_write :: "'m config \<Rightarrow> 'm fs \<Rightarrow> file_handle \<Rightarrow> byte list \<Rightarrow> (nat \<times> file_handle \<times> 'm fs) res" where
  "FileHandle_write c s f d =
     bindE (if append_mode f then FileHandle_seek s f (file_len (fh_inode f)) else Inr (True, f, s))
       (\<lambda>(_, f, s).
     bindE (requireE Null_fs (connected f)) (\<lambda>_. fs_write c s f d))"

definition FileHandle_read :: "'m config \<Rightarrow> 'm fs \<Rightarrow> file_handle \<Rightarrow> nat \<Rightarrow> (byte list \<times> file_handle \<times> 'm fs) res" where
  "FileHandle_read c s f n = bindE (requireE Null_fs (connected f)) (\<lambda>_. fs_read c s f n)"

definition shrink_pages :: "nat \<Rightarrow> nat \<Rightarrow> inode \<Rightarrow> inode" where
  "shrink_pages ps new_size i =
     (let needed_pages = sub64 (add64 new_size ps) 1 div ps
      in if needed_pages < length (data_pages i) then i\<lparr>data_pages := take needed_pages (data_pages i)\<rparr> else i)"

definition FileHandle_truncate :: "'m fs \<Rightarrow> file_handle \<Rightarrow> nat \<Rightarrow> (bool \<times> file_handle \<times> 'm fs) res" where
  "FileHandle_truncate s f new_size =
     (let i = fh_inode f
      in if \<not> connected f then Inr (False, f, s)
         else if new_size = file_len i then Inr (True, f, s)
         else if new_size > file_len i then enlarge_file s f (sub64 new_size (file_len i))
         else
           bindE (requireE Undefined (data_pages i = [] \<or> 0 < page_size (header s))) (\<lambda>_.
           let i = (if data_pages i = []
                    then (if length (inode_data i) > new_size then i\<lparr>inode_data := take new_size (inode_data i)\<rparr> else i)
                    else shrink_pages (page_size (header s)) new_size i)
           in Inr (True, f\<lparr>fh_inode := i\<lparr>file_len := new_size\<rparr>,
                fh_pos := (if fh_pos f > new_size then new_size else fh_pos f), modified := True\<rparr>, s)))"

end
