(* ===== verification/Writes.thy ===== *)
theory Writes
  imports Contents
begin

text \<open>
  Writing to a file, page by page: every step stores one page, in a page that was free or has
  never been written, and leaves the others alone. The lemmas follow \<open>write\<close> from the
  allocation of a page up to the whole function.
\<close>

section \<open>Steps that write only to free pages\<close>

definition new_ids :: "file_handle \<Rightarrow> nat set" where
  "new_ids f = page_id ` {q \<in> set (data_pages (fh_inode f)). dp_state q = New}"

text \<open>What a step leaves alone in the file system, in the handle and on the flash.\<close>

definition same_fs :: "'m fs \<Rightarrow> 'm fs \<Rightarrow> bool" where
  "same_fs s s' \<longleftrightarrow> header s' = header s \<and> allocated_unwritten_pages s' = allocated_unwritten_pages s
     \<and> max_inode_number s' = max_inode_number s \<and> iv_storage s' = iv_storage s
     \<and> header_inode_range s' = header_inode_range s"

definition same_handle :: "file_handle \<Rightarrow> file_handle \<Rightarrow> bool" where
  "same_handle f f' \<longleftrightarrow> (fh_inode f')\<lparr>data_pages := []\<rparr> = (fh_inode f)\<lparr>data_pages := []\<rparr>
     \<and> fh_page f' = fh_page f \<and> modified f' = modified f \<and> append_mode f' = append_mode f
     \<and> connected f' = connected f"

definition cow :: "('m \<Rightarrow> byte list) \<Rightarrow> 'm fs \<Rightarrow> file_handle \<Rightarrow> 'm fs \<Rightarrow> file_handle \<Rightarrow> bool" where
  "cow cells s f s' f' \<longleftrightarrow> same_fs s s' \<and> same_handle f f'
     \<and> elems (free_data_pages s') \<subseteq> elems (free_data_pages s)
     \<and> new_ids f' \<subseteq> new_ids f \<union> elems (free_data_pages s)
     \<and> length (cells (mem s')) = length (cells (mem s))
     \<and> take (page_size (header s)) (cells (mem s')) = take (page_size (header s)) (cells (mem s))
     \<and> (\<forall>r. Suc r < filesystem_size (header s) \<and> r \<notin> elems (free_data_pages s) \<and> r \<notin> new_ids f \<longrightarrow>
          page_at (page_size (header s)) r (cells (mem s')) = page_at (page_size (header s)) r (cells (mem s)))"

lemma same_handle_fields:
  assumes "same_handle f f'"
  shows "file_len (fh_inode f') = file_len (fh_inode f)" "inode_data (fh_inode f') = inode_data (fh_inode f)"
    "file_name_len (fh_inode f') = file_name_len (fh_inode f)" "file_name (fh_inode f') = file_name (fh_inode f)"
    "inode_number (fh_inode f') = inode_number (fh_inode f)"
    "inode_version_number (fh_inode f') = inode_version_number (fh_inode f)"
    "attributes (fh_inode f') = attributes (fh_inode f)" "modified f' = modified f" "connected f' = connected f"
    "fh_page f' = fh_page f" "append_mode f' = append_mode f"
proof -
  have "(fh_inode f')\<lparr>data_pages := []\<rparr> = (fh_inode f)\<lparr>data_pages := []\<rparr>" using assms by (simp add: same_handle_def)
  then show "file_len (fh_inode f') = file_len (fh_inode f)" "inode_data (fh_inode f') = inode_data (fh_inode f)"
    "file_name_len (fh_inode f') = file_name_len (fh_inode f)" "file_name (fh_inode f') = file_name (fh_inode f)"
    "inode_number (fh_inode f') = inode_number (fh_inode f)"
    "inode_version_number (fh_inode f') = inode_version_number (fh_inode f)"
    "attributes (fh_inode f') = attributes (fh_inode f)"
    by (metis inode.select_convs inode.update_convs inode.surjective)+
qed (use assms in \<open>simp_all add: same_handle_def\<close>)

lemma cow_header: "cow cells s f s' f' \<Longrightarrow> header s' = header s"
  by (simp add: cow_def same_fs_def)

lemma cow_handle: "cow cells s f s' f' \<Longrightarrow> same_handle f f'"
  by (simp add: cow_def)

lemma cow_trans:
  assumes "cow cells s f s1 f1" "cow cells s1 f1 s2 f2"
  shows "cow cells s f s2 f2"
proof -
  have "same_fs s s2" "same_handle f f2" using assms by (simp_all add: cow_def same_fs_def same_handle_def)
  then show ?thesis using assms cow_header [OF assms(1)] unfolding cow_def by auto
qed

lemma cow_pos [simp]: "cow cells s f s' (f'\<lparr>fh_pos := x\<rparr>) = cow cells s f s' f'"
  "cow cells s (f\<lparr>fh_pos := x\<rparr>) s' f' = cow cells s f s' f'"
  by (simp_all add: cow_def new_ids_def same_handle_def)

lemma cow_refl: "cow cells s f s f"
  by (simp add: cow_def same_fs_def same_handle_def)

lemma cow_same_flash:
  "same_flash F ok cells writable (mem s) m' \<Longrightarrow> cow cells s f (s\<lparr>mem := m'\<rparr>) f"
  by (simp add: cow_def same_fs_def same_handle_def same_flash_def)

text \<open>Room for \<open>m\<close> more pages: enough are free, and their numbers fit the inode.\<close>

definition room :: "'m fs \<Rightarrow> file_handle \<Rightarrow> nat \<Rightarrow> bool" where
  "room s f m \<longleftrightarrow> m = 0 \<or> m \<le> card (elems (free_data_pages s))
     \<and> length (data_pages (fh_inode f)) + m < get_max_inode_data_pages s (fh_inode f)"

lemma room_mono: "room s f m \<Longrightarrow> m' \<le> m \<Longrightarrow> room s f m'"
  by (auto simp: room_def)

lemma max_pages_cong:
  "file_name_len i' = file_name_len i \<Longrightarrow> header s' = header s \<Longrightarrow>
   get_max_inode_data_pages s' i' = get_max_inode_data_pages s i"
  by (simp add: get_max_inode_data_pages_def get_inode_data_space_size_def get_checksum_size_def)

lemma room_step:
  assumes "room s f (Suc m)" "header s' = header s" "file_name_len (fh_inode f') = file_name_len (fh_inode f)"
    "length (data_pages (fh_inode f')) \<le> Suc (length (data_pages (fh_inode f)))"
    "elems (free_data_pages s') = elems (free_data_pages s) - {n}"
  shows "room s' f' m"
proof -
  have "card (elems (free_data_pages s)) \<le> Suc (card (elems (free_data_pages s')))"
    unfolding assms(5) using card_Diff1_le diff_card_le_card_Diff [of "{n}" "elems (free_data_pages s)"] by auto
  then show ?thesis using assms(1,4) max_pages_cong [OF assms(3,2)] by (auto simp: room_def)
qed

lemma alloc_for:
  assumes "io_ok ok cells writable s f" "room s f (Suc m)"
  shows "\<exists>n A. allocate_free_data_page_for s f = (Some n, s\<lparr>free_data_pages := A\<rparr>)
    \<and> allocate_free_data_page s = (Some n, s\<lparr>free_data_pages := A\<rparr>)
    \<and> n \<in> elems (free_data_pages s) \<and> ps_inv A \<and> elems A = elems (free_data_pages s) - {n}"
proof -
  let ?F = "elems (free_data_pages s)"
  have r: "Suc m \<le> card ?F" "length (data_pages (fh_inode f)) + Suc m < get_max_inode_data_pages s (fh_inode f)"
    using assms(2) by (auto simp: room_def)
  have ne: "?F \<noteq> {}" using r(1) by auto
  from allocate_free_data_page_ok [OF io_okD(3) [OF assms(1)]] ne obtain A where
    A: "allocate_free_data_page s = (Some (Min ?F), s\<lparr>free_data_pages := A\<rparr>)" "ps_inv A" "elems A = ?F - {Min ?F}"
    by auto
  have "length (data_pages (fh_inode f)) < 2 ^ 64 - 1"
  proof -
    have "distinct (map page_id (data_pages (fh_inode f)))" "set (map page_id (data_pages (fh_inode f))) \<subseteq> {..<filesystem_size (header s)}"
      using io_okD(4,8) [OF assms(1)] by (auto simp: pages_ok_def intro: Suc_lessD)
    then have "length (data_pages (fh_inode f)) \<le> filesystem_size (header s)"
      by (metis card_lessThan card_mono distinct_card finite_lessThan length_map)
    then show ?thesis using geometryD(7) [OF io_okD(2) [OF assms(1)]] by simp
  qed
  then have "allocate_free_data_page_for s f = allocate_free_data_page s"
    using r(2) by (simp add: allocate_free_data_page_for_def)
  then show ?thesis using A Min_in [OF _ ne] by auto
qed

text \<open>Changing the list of pages, with pages taken from the free ones.\<close>

lemma io_change:
  assumes "io_ok ok cells writable s f" "data_pages (fh_inode f') = V @ D"
    "\<forall>p \<in> set V. dp_state p \<noteq> Deleted" "\<forall>p \<in> set D. dp_state p = Deleted"
    "distinct (map page_id (V @ D))" "ps_inv A" "elems A \<subseteq> elems (free_data_pages s)"
    "elems A \<inter> page_id ` set (V @ D) = {}"
    "page_id ` set (V @ D) \<subseteq> page_id ` set (data_pages (fh_inode f)) \<union> elems (free_data_pages s)"
    "\<forall>q \<in> set V. dp_state q = New \<longrightarrow> q \<in> set (data_pages (fh_inode f)) \<or> page_id q \<in> elems (free_data_pages s)"
  shows "io_ok ok cells writable (s\<lparr>free_data_pages := A\<rparr>) f'" "valid_pages f' = V"
proof -
  note D = io_okD [OF assms(1)]
  show v: "valid_pages f' = V"
    using assms(2-4) by (simp add: valid_pages_def filter_id_conv filter_empty_conv)
  have "pages_ok (header s) (V @ D)"
    unfolding pages_ok_def
  proof (intro conjI ballI)
    show "distinct (map page_id (V @ D))" by fact
  next
    fix p assume "p \<in> set (V @ D)"
    then have "page_id p \<in> page_id ` set (data_pages (fh_inode f)) \<union> elems (free_data_pages s)" using assms(9) by blast
    then show "max_inodes (header s) \<le> page_id p" "Suc (page_id p) < filesystem_size (header s)"
      using D(4,6) by (auto simp: pages_ok_def)
  qed
  moreover have "page_writable writable (page_size (header s)) (page_id q) (mem s)"
    if "q \<in> set (V @ D)" "dp_state q = New" for q
    using that assms(4,10) D(6,7) by fastforce
  ultimately show "io_ok ok cells writable (s\<lparr>free_data_pages := A\<rparr>) f'"
    using D(1,2,6) assms(2,4,6,7,8) v unfolding io_ok_def by auto
qed

lemma same_handle_set_pages [simp]: "same_handle f (set_pages f ps)"
  by (simp add: same_handle_def set_pages_def)

lemma cow_free:
  assumes "same_handle f f'" "new_ids f' \<subseteq> new_ids f \<union> elems (free_data_pages s)"
    "elems A \<subseteq> elems (free_data_pages s)"
  shows "cow cells s f (s\<lparr>free_data_pages := A\<rparr>) f'"
  using assms by (simp add: cow_def same_fs_def)

text \<open>A new page behind the valid ones.\<close>

lemma allocate_none:
  "k < length (valid_pages f) \<Longrightarrow> allocate_new_data_pages s k f = (True, f, s)"
  by (subst allocate_new_data_pages.simps) (simp add: count_valid)

lemma allocate_one:
  assumes "io_ok ok cells writable s f" "room s f (Suc m)"
  shows "\<exists>f' s'. allocate_new_data_pages s (length (valid_pages f)) f = (True, f', s')
    \<and> io_ok ok cells writable s' f' \<and> cow cells s f s' f' \<and> room s' f' m
    \<and> page_list cells s' f' = page_list cells s f @ [replicate (page_size (header s)) 0]
    \<and> fh_pos f' = fh_pos f
    \<and> (\<exists>n. valid_pages f' = valid_pages f @ [\<lparr>page_id = n, dp_state = New\<rparr>])"
proof -
  note io = io_okD [OF assms(1)]
  from alloc_for [OF assms] obtain n A where
    n: "allocate_free_data_page_for s f = (Some n, s\<lparr>free_data_pages := A\<rparr>)" "n \<in> elems (free_data_pages s)"
      "ps_inv A" "elems A = elems (free_data_pages s) - {n}" by blast
  let ?q = "\<lparr>page_id = n, dp_state = New\<rparr>" and ?f = "add_new_page f n" and ?s = "s\<lparr>free_data_pages := A\<rparr>"
  from io_ok_split [OF assms(1)] obtain D where
    D: "data_pages (fh_inode f) = valid_pages f @ D" "\<forall>p \<in> set D. dp_state p = Deleted" by blast
  have fresh: "n \<notin> page_id ` set (data_pages (fh_inode f))" using io(5) n(2) by blast
  have dp: "data_pages (fh_inode ?f) = (valid_pages f @ [?q]) @ D"
    by (simp add: add_new_page_def insert_at_def count_valid D(1))
  have "distinct (map page_id (data_pages (fh_inode f)))" using io(4) by (simp add: pages_ok_def)
  then have dist: "distinct (map page_id ((valid_pages f @ [?q]) @ D))" using fresh unfolding D(1) by auto
  have ids: "set ((valid_pages f @ [?q]) @ D) = insert ?q (set (data_pages (fh_inode f)))"
    by (simp add: D(1))
  have 1: "\<forall>p \<in> set (valid_pages f @ [?q]). dp_state p \<noteq> Deleted" by (auto dest: valid_states)
  have 2: "elems A \<inter> page_id ` set ((valid_pages f @ [?q]) @ D) = {}"
    "page_id ` set ((valid_pages f @ [?q]) @ D) \<subseteq> page_id ` set (data_pages (fh_inode f)) \<union> elems (free_data_pages s)"
    unfolding ids using io(5) n(2,4) by auto
  have 3: "\<forall>q \<in> set (valid_pages f @ [?q]). dp_state q = New \<longrightarrow>
      q \<in> set (data_pages (fh_inode f)) \<or> page_id q \<in> elems (free_data_pages s)"
    using n(2) by (auto dest: valid_states)
  note ch = io_change [OF assms(1) dp 1 D(2) dist n(3) _ 2 3]
  have io': "io_ok ok cells writable ?s ?f" and v: "valid_pages ?f = valid_pages f @ [?q]"
    using ch n(4) by auto
  have "allocate_new_data_pages s (length (valid_pages f)) f = (True, ?f, ?s)"
    using n(1) by (subst allocate_new_data_pages.simps) (simp add: count_valid allocate_none v)
  moreover have "page_list cells ?s ?f = page_list cells s f @ [replicate (page_size (header s)) 0]"
    by (simp add: page_list_def v new_contents_def)
  moreover have "room ?s ?f m"
  proof (rule room_step [OF assms(2)])
    show "length (data_pages (fh_inode ?f)) \<le> Suc (length (data_pages (fh_inode f)))"
      unfolding dp using arg_cong [OF D(1), of length] by simp
    show "elems (free_data_pages ?s) = elems (free_data_pages s) - {n}" using n(4) by simp
  qed (simp_all add: add_new_page_def set_pages_def)
  moreover have "cow cells s f ?s ?f"
  proof (rule cow_free)
    show "new_ids ?f \<subseteq> new_ids f \<union> elems (free_data_pages s)"
      unfolding new_ids_def dp ids using n(2) by auto
  qed (use n(4) in \<open>auto simp: add_new_page_def\<close>)
  ultimately show ?thesis using io' v by (intro exI [of _ ?f] exI [of _ ?s]) (simp add: add_new_page_def)
qed

section \<open>Storing one page\<close>

lemma update_split:
  "k < length V \<Longrightarrow> (V @ D)[k := q] = V[k := q] @ D"
  by (simp add: list_update_append)

text \<open>
  A page on the flash gives its place to a new one; whether the old one is kept as deleted
  (\<open>E\<close>) is the difference between the two ways the code replaces a page.
\<close>

lemma swap_page:
  assumes "io_ok ok cells writable s f" "k < length (valid_pages f)" "data_pages (fh_inode f) = valid_pages f @ D"
    "\<forall>p \<in> set D. dp_state p = Deleted" "n \<in> elems (free_data_pages s)" "ps_inv A"
    "elems A = elems (free_data_pages s) - {n}"
    "E = [] \<or> E = [(valid_pages f ! k)\<lparr>dp_state := Deleted\<rparr>]" "room s f (Suc m)"
    "f' = set_pages f ((valid_pages f)[k := \<lparr>page_id = n, dp_state = New\<rparr>] @ D @ E)"
  shows "io_ok ok cells writable (s\<lparr>free_data_pages := A\<rparr>) f'"
    "valid_pages f' = (valid_pages f)[k := \<lparr>page_id = n, dp_state = New\<rparr>]"
    "cow cells s f (s\<lparr>free_data_pages := A\<rparr>) f'" "room (s\<lparr>free_data_pages := A\<rparr>) f' m"
    "page_list cells (s\<lparr>free_data_pages := A\<rparr>) f' =
      (page_list cells s f)[k := replicate (page_size (header s)) 0]"
proof -
  let ?V = "valid_pages f" and ?nq = "\<lparr>page_id = n, dp_state = New\<rparr>"
  note io = io_okD [OF assms(1)]
  define xs ys q where "xs = take k ?V" "ys = drop (Suc k) ?V" "q = ?V ! k"
  have V: "?V = xs @ q # ys" "?V[k := ?nq] = xs @ ?nq # ys"
    using assms(2) by (simp_all add: xs_ys_q_def id_take_nth_drop upd_conv_take_nth_drop)
  have E: "E = [] \<or> E = [q\<lparr>dp_state := Deleted\<rparr>]" using assms(8) by (simp add: xs_ys_q_def)
  have dist: "distinct (map page_id (xs @ q # ys @ D))"
    using io(4) by (simp add: pages_ok_def assms(3) V(1))
  have fresh: "n \<notin> page_id ` set (xs @ q # ys @ D)"
    using io(5) assms(5) by (auto simp: assms(3) V(1))
  have dp: "data_pages (fh_inode f') = (xs @ ?nq # ys) @ D @ E" by (simp add: assms(10) V(2))
  have val: "\<forall>p \<in> set (xs @ ?nq # ys). dp_state p \<noteq> Deleted"
    using valid_states [of _ f] V(1) by auto
  have del: "\<forall>p \<in> set (D @ E). dp_state p = Deleted" using assms(4) E by auto
  have dist': "distinct (map page_id ((xs @ ?nq # ys) @ D @ E))" using dist fresh E by (auto dest: rev_image_eqI [of _ _ _ page_id])
  have sub: "page_id ` set ((xs @ ?nq # ys) @ D @ E) \<subseteq> page_id ` set (data_pages (fh_inode f)) \<union> elems (free_data_pages s)"
    using E assms(5) unfolding assms(3) V(1) by auto
  have dj: "elems A \<inter> page_id ` set ((xs @ ?nq # ys) @ D @ E) = {}"
    using E io(5) assms(7) unfolding assms(3) V(1) by auto
  have new: "\<forall>p \<in> set (xs @ ?nq # ys). dp_state p = New \<longrightarrow>
      p \<in> set (data_pages (fh_inode f)) \<or> page_id p \<in> elems (free_data_pages s)"
    using assms(5) unfolding assms(3) V(1) by auto
  have sub': "elems A \<subseteq> elems (free_data_pages s)" using assms(7) by auto
  show "io_ok ok cells writable (s\<lparr>free_data_pages := A\<rparr>) f'"
    by (rule io_change(1) [OF assms(1) dp val del dist' assms(6) sub' dj sub new])
  show v: "valid_pages f' = ?V[k := ?nq]"
    using io_change(2) [OF assms(1) dp val del dist' assms(6) sub' dj sub new] V(2) by simp
  show "cow cells s f (s\<lparr>free_data_pages := A\<rparr>) f'"
  proof (rule cow_free)
    show "new_ids f' \<subseteq> new_ids f \<union> elems (free_data_pages s)"
      using del new assms(5) unfolding new_ids_def dp by auto
  qed (use sub' assms(10) in simp_all)
  show "room (s\<lparr>free_data_pages := A\<rparr>) f' m"
  proof (rule room_step [OF assms(9)])
    show "length (data_pages (fh_inode f')) \<le> Suc (length (data_pages (fh_inode f)))"
      using E unfolding dp assms(3) V(1) by auto
    show "elems (free_data_pages (s\<lparr>free_data_pages := A\<rparr>)) = elems (free_data_pages s) - {n}"
      using assms(7) by simp
  qed (simp_all add: assms(10) set_pages_def)
  show "page_list cells (s\<lparr>free_data_pages := A\<rparr>) f' = (page_list cells s f)[k := replicate (page_size (header s)) 0]"
    by (simp add: page_list_def v map_update new_contents_def)
qed

lemma replace_page_at:
  "k < length ps \<Longrightarrow> distinct (map page_id ps) \<Longrightarrow>
   replace_page (page_id (ps ! k)) n ps = ps[k := \<lparr>page_id = n, dp_state = Stored\<rparr>]"
proof (induction ps arbitrary: k)
  case (Cons p ps)
  then show ?case by (cases k) auto
qed simp

context fs_on_flash
begin

lemma store_new:
  assumes "io_ok ok cells writable s f" "k < length (valid_pages f)" "dp_state (valid_pages f ! k) = New"
    "length pg = page_size (header s)"
  shows "\<exists>f' s'. write_page c s f pg (Slot k) = Inr (True, f', s')
    \<and> io_ok ok cells writable s' f' \<and> cow cells s f s' f' \<and> fh_pos f' = fh_pos f
    \<and> page_list cells s' f' = (page_list cells s f)[k := pg] \<and> (\<forall>m. room s f m \<longrightarrow> room s' f' m)"
proof -
  note io = io_okD [OF assms(1)] and slot = io_ok_slot [OF assms(1,2)]
  let ?ps = "page_size (header s)" and ?V = "valid_pages f" and ?q = "valid_pages f ! k"
  from io_ok_split [OF assms(1)] obtain D where
    D: "data_pages (fh_inode f) = ?V @ D" "\<forall>p \<in> set D. dp_state p = Deleted" by blast
  from write_to_page_ok [OF io(1,2) io(8) [OF slot(3)] assms(4) io(7) [OF slot(3) assms(3)]] obtain m' where
    m': "write_to_page c s (page_id ?q) pg = Inr (True, s\<lparr>mem := m'\<rparr>)" "ok m'"
      "cells m' = put_page ?ps (page_id ?q) pg (cells (mem s))"
      "\<forall>r. r \<noteq> page_id ?q \<longrightarrow> page_writable writable ?ps r (mem s) \<longrightarrow> page_writable writable ?ps r m'"
    by blast
  let ?f = "mark_stored f (Slot k)" and ?s = "s\<lparr>mem := m'\<rparr>"
  have inp: "page_in ?ps (page_id p) (length (cells (mem s)))" if "p \<in> set (data_pages (fh_inode f))" for p
    by (rule geometry_page_in [OF io(2) io(8) [OF that]])
  have dp: "data_pages (fh_inode ?f) = ?V[k := stored_page ?q] @ D"
    using assms(2) by (simp add: mark_stored_def slot(1)) (simp add: D(1) update_split)
  have mapid: "map page_id (?V[k := stored_page ?q]) = map page_id ?V"
    using assms(2) by (simp add: map_update stored_page_def list_update_same_conv)
  have setV: "set (?V[k := stored_page ?q]) \<subseteq> insert (stored_page ?q) (set ?V)"
    by (rule set_update_subset_insert)
  have len: "length (cells m') = length (cells (mem s))" using m'(3) inp [OF slot(3)] assms(4) by simp
  have v: "valid_pages ?f = ?V[k := stored_page ?q]"
  proof -
    have "\<forall>p \<in> set (?V[k := stored_page ?q]). dp_state p \<noteq> Deleted"
      using setV by (auto dest: valid_states simp: stored_page_def)
    then show ?thesis unfolding valid_pages_def [of ?f] dp using D(2) by (simp add: filter_id_conv filter_empty_conv)
  qed
  have ids: "map page_id (data_pages (fh_inode ?f)) = map page_id (data_pages (fh_inode f))"
    unfolding dp using mapid by (simp add: D(1))
  then have idset: "page_id ` set (data_pages (fh_inode ?f)) = page_id ` set (data_pages (fh_inode f))"
    by (metis set_map)
  have dist: "distinct (map page_id ?V)" using io(4) D(1) by (simp add: pages_ok_def)
  have other: "page_id (?V ! j) \<noteq> page_id ?q" if "j < length ?V" "j \<noteq> k" for j
    using dist assms(2) that by (metis length_map nth_eq_iff_index_eq nth_map)
  have newdp: "q \<in> set (data_pages (fh_inode f)) \<and> page_id q \<noteq> page_id ?q"
    if q: "q \<in> set (data_pages (fh_inode ?f))" "dp_state q = New" for q
  proof -
    have "q \<in> set (?V[k := stored_page ?q])" using q D(2) unfolding dp by auto
    then obtain j where j: "j < length ?V" "q = ?V[k := stored_page ?q] ! j" by (auto simp: in_set_conv_nth)
    then have "j \<noteq> k" using q(2) assms(2) by (auto simp: stored_page_def)
    then show ?thesis using j other valid_states [of q f] by simp
  qed
  have "pages_ok (header s) (data_pages (fh_inode ?f))"
  proof -
    have "\<forall>i \<in> set (map page_id (data_pages (fh_inode f))). max_inodes (header s) \<le> i \<and> Suc i < filesystem_size (header s)"
      using io(4) by (auto simp: pages_ok_def)
    then show ?thesis using io(4) unfolding pages_ok_def ids by (auto simp flip: ids)
  qed
  moreover have "page_id ?q \<notin> elems (free_data_pages s)" using io(5) slot(3) by blast
  ultimately have io': "io_ok ok cells writable ?s ?f"
    using io(2,3,5,6,7) m'(2,4) len D(2) newdp idset v unfolding io_ok_def dp by simp metis
  moreover have "page_list cells ?s ?f = (page_list cells s f)[k := pg]"
  proof (rule nth_equalityI)
    fix j assume "j < length (page_list cells ?s ?f)"
    then have j: "j < length ?V" by (simp add: v)
    show "page_list cells ?s ?f ! j = (page_list cells s f)[k := pg] ! j"
    proof (cases "j = k")
      case True
      then show ?thesis using j assms(4) inp [OF slot(3)]
        by (simp add: page_list_def v new_contents_def stored_page_def m'(3) page_at_put_page)
    next
      case False
      then show ?thesis using j other [OF j False] assms(4) inp slot(3) io_ok_slot(3) [OF assms(1) j]
        by (simp add: page_list_def v new_contents_def m'(3) page_at_put_page)
    qed
  qed (simp add: v)
  moreover have "cow cells s f ?s ?f"
  proof -
    have "page_at ?ps r (cells m') = page_at ?ps r (cells (mem s))"
      if "Suc r < filesystem_size (header s)" "r \<notin> new_ids f" for r
    proof -
      have "r \<noteq> page_id ?q" using that(2) slot(3) assms(3) by (auto simp: new_ids_def)
      then show ?thesis using m'(3) assms(4) inp [OF slot(3)] geometry_page_in [OF io(2) that(1)]
        by (simp add: page_at_put_page)
    qed
    moreover have "new_ids ?f \<subseteq> new_ids f" using newdp by (auto simp: new_ids_def)
    ultimately show ?thesis using len m'(3) header_put_page [OF inp [OF slot(3)]]
      by (auto simp: cow_def same_fs_def mark_stored_def)
  qed
  moreover have "room ?s ?f m" if "room s f m" for m
    using that max_pages_cong [of "fh_inode ?f" "fh_inode f" ?s s] arg_cong [OF ids, of length]
    by (simp add: room_def) (simp add: mark_stored_def set_pages_def)
  moreover have "write_page c s f pg (Slot k) = Inr (True, ?f, ?s)"
    using m'(1) assms(3) by (simp add: write_page_def page_meta_def slot(1))
  ultimately show ?thesis by (intro exI [of _ ?f] exI [of _ ?s]) (simp add: mark_stored_def)
qed

text \<open>A page that is on the flash is replaced, after it was moved to the end of the list, or in place.\<close>

lemma move_page:
  assumes "io_ok ok cells writable s f" "k < length (valid_pages f)" "room s f (Suc m)"
  shows "\<exists>f' s'. allocate_new_data_page_at s k f = Inr (True, f', s')
    \<and> io_ok ok cells writable s' f' \<and> cow cells s f s' f' \<and> fh_pos f' = fh_pos f \<and> room s' f' m
    \<and> length (valid_pages f') = length (valid_pages f) \<and> dp_state (valid_pages f' ! k) = New
    \<and> page_list cells s' f' = (page_list cells s f)[k := replicate (page_size (header s)) 0]"
proof -
  from io_ok_split [OF assms(1)] obtain D where
    D: "data_pages (fh_inode f) = valid_pages f @ D" "\<forall>p \<in> set D. dp_state p = Deleted" by blast
  from alloc_for [OF assms(1,3)] obtain n A where
    n: "allocate_free_data_page_for s f = (Some n, s\<lparr>free_data_pages := A\<rparr>)" "n \<in> elems (free_data_pages s)"
      "ps_inv A" "elems A = elems (free_data_pages s) - {n}" by blast
  note slot = io_ok_slot [OF assms(1,2)]
  let ?E = "[(valid_pages f ! k)\<lparr>dp_state := Deleted\<rparr>]"
  let ?f = "set_pages f ((valid_pages f)[k := \<lparr>page_id = n, dp_state = New\<rparr>] @ D @ ?E)"
  have "allocate_new_data_page_at s k f = Inr (True, ?f, s\<lparr>free_data_pages := A\<rparr>)"
    using slot(2) n(1) assms(2)
    by (simp add: allocate_new_data_page_at_def page_slot_def slot(1)) (simp add: D(1) update_split)
  then show ?thesis
    using swap_page [OF assms(1,2) D n(2-4) _ assms(3) refl, of ?E] assms(2)
    by (intro exI [of _ ?f] exI [of _ "s\<lparr>free_data_pages := A\<rparr>"]) simp
qed

lemma store_stored:
  assumes "io_ok ok cells writable s f" "k < length (valid_pages f)" "dp_state (valid_pages f ! k) = Stored"
    "length pg = page_size (header s)" "room s f (Suc m)"
  shows "\<exists>f' s'. write_page c s f pg (Slot k) = Inr (True, f', s')
    \<and> io_ok ok cells writable s' f' \<and> cow cells s f s' f' \<and> fh_pos f' = fh_pos f
    \<and> page_list cells s' f' = (page_list cells s f)[k := pg] \<and> room s' f' m"
proof -
  from io_ok_split [OF assms(1)] obtain D where
    D: "data_pages (fh_inode f) = valid_pages f @ D" "\<forall>p \<in> set D. dp_state p = Deleted" by blast
  from alloc_for [OF assms(1,5)] obtain n A where
    n: "allocate_free_data_page s = (Some n, s\<lparr>free_data_pages := A\<rparr>)" "n \<in> elems (free_data_pages s)"
      "ps_inv A" "elems A = elems (free_data_pages s) - {n}" by blast
  note slot = io_ok_slot [OF assms(1,2)]
  let ?nq = "\<lparr>page_id = n, dp_state = New\<rparr>" and ?s = "s\<lparr>free_data_pages := A\<rparr>"
  let ?g = "set_pages f ((valid_pages f)[k := ?nq] @ D @ [])"
  note sw = swap_page [OF assms(1,2) D n(2-4) _ assms(5) refl, of "[]", simplified]
  have g: "k < length (valid_pages ?g)" "valid_pages ?g ! k = ?nq" "dp_state (valid_pages ?g ! k) = New"
    "length pg = page_size (header ?s)" "io_ok ok cells writable ?s ?g"
    using sw(1,2) assms(2,4) by simp_all
  from store_new [OF g(5,1,3,4)] obtain f' s' where
    st: "write_page c ?s ?g pg (Slot k) = Inr (True, f', s')" "io_ok ok cells writable s' f'"
      "cow cells ?s ?g s' f'" "fh_pos f' = fh_pos ?g" "page_list cells s' f' = (page_list cells ?s ?g)[k := pg]"
      "\<forall>m. room ?s ?g m \<longrightarrow> room s' f' m" by blast
  have gk: "data_pages (fh_inode ?g) ! k = ?nq" using assms(2) by (simp add: nth_append)
  then have w: "write_to_page c ?s n pg = Inr (True, s')" and f': "f' = mark_stored ?g (Slot k)"
    using st(1) by (auto simp: write_page_def page_meta_def bindE_eq_Inr Let_def split: if_splits)
  have "f' = set_pages f (replace_page (page_id (valid_pages f ! k)) n (data_pages (fh_inode f)))"
  proof -
    have dist: "distinct (map page_id (data_pages (fh_inode f)))" using io_okD(4) [OF assms(1)] by (simp add: pages_ok_def)
    have "replace_page (page_id (valid_pages f ! k)) n (data_pages (fh_inode f)) =
        (data_pages (fh_inode f))[k := \<lparr>page_id = n, dp_state = Stored\<rparr>]"
      using replace_page_at [OF slot(2) dist, of n] by (simp add: slot(1))
    also have "\<dots> = (valid_pages f)[k := \<lparr>page_id = n, dp_state = Stored\<rparr>] @ D"
      using assms(2) by (simp add: D(1) update_split)
    finally show ?thesis
      unfolding f' mark_stored_def by (simp add: gk stored_page_def update_split assms(2) nth_append)
  qed
  then have "write_page c s f pg (Slot k) = Inr (True, f', s')"
    using w n(1) assms(3) by (simp add: write_page_def page_meta_def slot(1))
  moreover have "cow cells s f s' f'" using cow_trans [OF _ st(3)] sw(3) by simp
  moreover have "room s' f' m" using st(6) sw(4) by simp
  moreover have "page_list cells s' f' = (page_list cells s f)[k := pg]" using st(5) sw(5) by simp
  ultimately show ?thesis using st(2,4) by (intro exI [of _ f'] exI [of _ s']) simp
qed

end

section \<open>One page of data\<close>

text \<open>What storing a page needs: nothing for a new page, one free page for one on the flash.\<close>

definition room_at :: "'m fs \<Rightarrow> file_handle \<Rightarrow> nat \<Rightarrow> nat \<Rightarrow> bool" where
  "room_at s f k m = room s f (if dp_state (valid_pages f ! k) = New then m else Suc m)"

context fs_on_flash
begin

lemma write_full_ok:
  assumes "io_ok ok cells writable s f" "k < length (valid_pages f)" "page_size (header s) \<le> length d"
    "room_at s f k m" "fh_pos f + page_size (header s) < 2 ^ 64"
  shows "\<exists>f' s'. write_full_page c s f k d = Inr (True, f', s')
    \<and> io_ok ok cells writable s' f' \<and> cow cells s f s' f' \<and> fh_pos f' = fh_pos f + page_size (header s)
    \<and> page_list cells s' f' = (page_list cells s f)[k := take (page_size (header s)) d] \<and> room s' f' m"
proof -
  let ?ps = "page_size (header s)"
  have len: "length (take ?ps d) = ?ps" using assms(3) by simp
  have "\<exists>f' s'. write_page c s f (take ?ps d) (Slot k) = Inr (True, f', s')
    \<and> io_ok ok cells writable s' f' \<and> cow cells s f s' f' \<and> fh_pos f' = fh_pos f
    \<and> page_list cells s' f' = (page_list cells s f)[k := take ?ps d] \<and> room s' f' m"
  proof (cases "dp_state (valid_pages f ! k)")
    case New
    then show ?thesis using store_new [OF assms(1,2) New len] assms(4) unfolding room_at_def by auto
  next
    case Stored
    then show ?thesis using store_stored [OF assms(1,2) Stored len] assms(4) by (simp add: room_at_def)
  qed (use io_ok_slot(4) [OF assms(1,2)] in simp)
  then obtain f' s' where
    st: "write_page c s f (take ?ps d) (Slot k) = Inr (True, f', s')" "io_ok ok cells writable s' f'"
      "cow cells s f s' f'" "fh_pos f' = fh_pos f" "page_list cells s' f' = (page_list cells s f)[k := take ?ps d]"
      "room s' f' m" by blast
  have "write_full_page c s f k d = Inr (True, f'\<lparr>fh_pos := fh_pos f + ?ps\<rparr>, s')"
    using st(1,4) io_ok_slot(2) [OF assms(1,2)] assms(5)
    by (simp add: write_full_page_def page_slot_def add64_small)
  moreover have "room s' (f'\<lparr>fh_pos := fh_pos f + ?ps\<rparr>) m" using st(6) by (simp add: room_def)
  ultimately show ?thesis using st
    by (intro exI [of _ "f'\<lparr>fh_pos := fh_pos f + ?ps\<rparr>"] exI [of _ s']) simp
qed

text \<open>Part of a page: the rest of it is kept.\<close>

lemma patch_page_ok:
  assumes "io_ok ok cells writable s f" "k < length (valid_pages f)" "a + length d \<le> page_size (header s)"
    "room_at s f k m"
  shows "\<exists>f1 s1 s2 f' s'.
      (if dp_state (valid_pages f ! k) = Stored
       then read_page c s (page_id (valid_pages f ! k)) (replicate (page_size (header s)) 0) False
       else Inr (None, replicate (page_size (header s)) 0, s)) = Inr (None, page_list cells s f ! k, s1)
    \<and> (if dp_state (valid_pages f ! k) = Stored then allocate_new_data_page_at s1 k f else Inr (True, f, s1)) =
       Inr (True, f1, s2)
    \<and> write_page c s2 f1 (overlay (page_list cells s f ! k) a d) (Slot k) = Inr (True, f', s')
    \<and> io_ok ok cells writable s' f' \<and> cow cells s f s' f' \<and> fh_pos f' = fh_pos f \<and> room s' f' m
    \<and> page_list cells s' f' = (page_list cells s f)[k := overlay (page_list cells s f ! k) a d]"
proof -
  let ?ps = "page_size (header s)" and ?q = "valid_pages f ! k" and ?P = "page_list cells s f"
  let ?pg = "overlay (?P ! k) a d"
  have lk: "length (?P ! k) = ?ps" using io_ok_lengths(1) [OF assms(1)] assms(2) by simp
  then have lpg: "length ?pg = ?ps" using assms(3) by simp
  have Pk: "?P ! k = new_contents ?ps (cells (mem s)) ?q" using assms(2) by (simp add: page_list_def)
  show ?thesis
  proof (cases "dp_state ?q")
    case New
    from store_new [OF assms(1,2) New lpg] obtain f' s' where
      "write_page c s f ?pg (Slot k) = Inr (True, f', s')" "io_ok ok cells writable s' f'"
      "cow cells s f s' f'" "fh_pos f' = fh_pos f" "page_list cells s' f' = ?P[k := ?pg]" "room s' f' m"
      using assms(4) New unfolding room_at_def by auto
    then show ?thesis using New Pk
      by (intro exI [of _ f] exI [of _ s] exI [of _ f'] exI [of _ s']) (simp add: new_contents_def)
  next
    case Stored
    from read_slot [OF assms(1,2)] obtain m1 where
      rd: "read_page c s (page_id ?q) (replicate ?ps 0) False = Inr (None, ?P ! k, s\<lparr>mem := m1\<rparr>)"
        "same_flash (flash c) ok cells writable (mem s) m1" using Pk Stored by (auto simp: new_contents_def)
    let ?s1 = "s\<lparr>mem := m1\<rparr>"
    have io1: "io_ok ok cells writable ?s1 f" by (rule same_flash_io(1) [OF rd(2) assms(1)])
    have "room ?s1 f (Suc m)"
      using assms(4) Stored max_pages_cong [of "fh_inode f" "fh_inode f" ?s1 s] by (simp add: room_at_def room_def)
    from move_page [OF io1 assms(2) this] obtain f1 s2 where
      mv: "allocate_new_data_page_at ?s1 k f = Inr (True, f1, s2)" "io_ok ok cells writable s2 f1"
        "cow cells ?s1 f s2 f1" "fh_pos f1 = fh_pos f" "room s2 f1 m" "length (valid_pages f1) = length (valid_pages f)"
        "dp_state (valid_pages f1 ! k) = New"
        "page_list cells s2 f1 = (page_list cells ?s1 f)[k := replicate (page_size (header ?s1)) 0]" by blast
    have "k < length (valid_pages f1)" "length ?pg = page_size (header s2)"
      using mv(6) assms(2) lpg cow_header [OF mv(3)] by simp_all
    from store_new [OF mv(2) this(1) mv(7) this(2)] obtain f' s' where
      st: "write_page c s2 f1 ?pg (Slot k) = Inr (True, f', s')" "io_ok ok cells writable s' f'"
        "cow cells s2 f1 s' f'" "fh_pos f' = fh_pos f1" "page_list cells s' f' = (page_list cells s2 f1)[k := ?pg]"
        "\<forall>m. room s2 f1 m \<longrightarrow> room s' f' m" by blast
    have "cow cells s f s' f'" by (rule cow_trans [OF cow_trans [OF cow_same_flash [OF rd(2)] mv(3)] st(3)])
    moreover have "page_list cells s' f' = ?P[k := ?pg]"
      using st(5) mv(8) same_flash_io(2) [OF rd(2), of f] by simp
    ultimately show ?thesis using rd(1) mv(1,4,5) st(1,2,4,6) Stored
      by (intro exI [of _ f1] exI [of _ ?s1] exI [of _ s2] exI [of _ f'] exI [of _ s']) simp
  qed (use io_ok_slot(4) [OF assms(1,2)] in simp)
qed

lemma write_partial_ok:
  assumes "io_ok ok cells writable s f" "k < length (valid_pages f)" "length d < page_size (header s)"
    "room_at s f k m" "fh_pos f + length d < 2 ^ 64"
  shows "\<exists>f' s'. write_partial_page c s f k d = Inr (True, f', s')
    \<and> io_ok ok cells writable s' f' \<and> cow cells s f s' f' \<and> fh_pos f' = fh_pos f + length d
    \<and> page_list cells s' f' = (page_list cells s f)[k := overlay (page_list cells s f ! k) 0 d] \<and> room s' f' m"
proof -
  have "0 + length d \<le> page_size (header s)" using assms(3) by simp
  from patch_page_ok [OF assms(1,2) this assms(4)] obtain f1 s1 s2 f' s' where
    p: "(if dp_state (valid_pages f ! k) = Stored
       then read_page c s (page_id (valid_pages f ! k)) (replicate (page_size (header s)) 0) False
       else Inr (None, replicate (page_size (header s)) 0, s)) = Inr (None, page_list cells s f ! k, s1)"
      "(if dp_state (valid_pages f ! k) = Stored then allocate_new_data_page_at s1 k f else Inr (True, f, s1)) =
       Inr (True, f1, s2)"
      "write_page c s2 f1 (overlay (page_list cells s f ! k) 0 d) (Slot k) = Inr (True, f', s')"
      "io_ok ok cells writable s' f'" "cow cells s f s' f'" "fh_pos f' = fh_pos f" "room s' f' m"
      "page_list cells s' f' = (page_list cells s f)[k := overlay (page_list cells s f ! k) 0 d]"
    by (elim exE conjE) (rule that, assumption+)
  note slot = io_ok_slot [OF assms(1,2)]
  have lk: "length (page_list cells s f ! k) = page_size (header s)"
    using io_ok_lengths(1) [OF assms(1)] assms(2) by simp
  have "write_partial_page c s f k d = Inr (True, f'\<lparr>fh_pos := fh_pos f + length d\<rparr>, s')"
    unfolding write_partial_page_def Let_def page_slot_def
    using slot(1,2) p(1-3,6) lk assms(3,5)
    by (simp add: memcpy_to_ok add64_small min_absorb1 split del: if_split)
  moreover have "room s' (f'\<lparr>fh_pos := fh_pos f + length d\<rparr>) m" using p(7) by (simp add: room_def)
  ultimately show ?thesis using p(4,5,8)
    by (intro exI [of _ "f'\<lparr>fh_pos := fh_pos f + length d\<rparr>"] exI [of _ s']) simp
qed

end

section \<open>The loop\<close>

definition pages_for :: "nat \<Rightarrow> nat \<Rightarrow> nat" where
  "pages_for ps n = (n + ps - 1) div ps"

lemma pages_for_step: "0 < ps \<Longrightarrow> 0 < n \<Longrightarrow> pages_for ps n = Suc (pages_for ps (n - ps))"
  by (cases "n \<le> ps") (auto simp: pages_for_def div_if le_div_geq not_le)

lemma pages_for_0 [simp]: "pages_for ps 0 = 0"
  by (cases ps) (simp_all add: pages_for_def)

context fs_on_flash
begin

lemma write_step:
  assumes "io_ok ok cells writable s f" "k \<le> length (valid_pages f)" "room s f (Suc m)"
  shows "\<exists>f1 s1. allocate_new_data_pages s k f = (True, f1, s1) \<and> io_ok ok cells writable s1 f1
    \<and> cow cells s f s1 f1 \<and> k < length (valid_pages f1) \<and> room_at s1 f1 k m \<and> fh_pos f1 = fh_pos f
    \<and> (\<exists>Z. page_list cells s1 f1 = page_list cells s f @ Z)"
proof (cases "k < length (valid_pages f)")
  case True
  then have "room_at s f k m" using assms(3) room_mono [OF assms(3), of m] by (simp add: room_at_def)
  then show ?thesis using True allocate_none [OF True] assms(1) cow_refl
    by (intro exI [of _ f] exI [of _ s]) auto
next
  case False
  with assms(2) have k: "k = length (valid_pages f)" by simp
  from allocate_one [OF assms(1,3)] obtain f1 s1 n where
    "allocate_new_data_pages s (length (valid_pages f)) f = (True, f1, s1)"
    "io_ok ok cells writable s1 f1" "cow cells s f s1 f1" "room s1 f1 m"
    "page_list cells s1 f1 = page_list cells s f @ [replicate (page_size (header s)) 0]" "fh_pos f1 = fh_pos f"
    "valid_pages f1 = valid_pages f @ [\<lparr>page_id = n, dp_state = New\<rparr>]" by blast
  then show ?thesis unfolding k by (intro exI [of _ f1] exI [of _ s1]) (simp add: room_at_def)
qed

lemma write_round:
  assumes "io_ok ok cells writable s f" "fh_pos f = k * page_size (header s)" "k \<le> length (valid_pages f)"
    "room s f (Suc m)" "d \<noteq> []"
  shows "\<exists>f' s'. io_ok ok cells writable s' f' \<and> cow cells s f s' f'
    \<and> fh_pos f' = fh_pos f + min (length d) (page_size (header s)) \<and> Suc k \<le> length (valid_pages f')
    \<and> room s' f' m
    \<and> patched (concat (page_list cells s f)) (fh_pos f) (take (page_size (header s)) d) (concat (page_list cells s' f'))
    \<and> write_loop c (page_size (header s)) s f d = write_loop c (page_size (header s)) s' f' (drop (page_size (header s)) d)"
proof -
  let ?ps = "page_size (header s)" and ?C = "concat (page_list cells s f)"
  have ps: "0 < ?ps" by (rule geometryD(2) [OF io_okD(2) [OF assms(1)]])
  from write_step [OF assms(1,3,4)] obtain f1 s1 Z where
    st: "allocate_new_data_pages s k f = (True, f1, s1)" "io_ok ok cells writable s1 f1" "cow cells s f s1 f1"
      "k < length (valid_pages f1)" "room_at s1 f1 k m" "fh_pos f1 = fh_pos f"
      "page_list cells s1 f1 = page_list cells s f @ Z" by blast
  have h: "header s1 = header s" by (rule cow_header [OF st(3)])
  note u = io_ok_lengths [OF st(2), unfolded h]
  have idx: "fh_pos f div ?ps = k" using assms(2) ps by simp
  have "k * ?ps + ?ps \<le> length (valid_pages f1) * ?ps"
    using mult_le_mono1 [of "Suc k" "length (valid_pages f1)" ?ps] st(4) by simp
  from le_less_trans [OF this u(3)] have bound: "fh_pos f1 + ?ps < 2 ^ 64" using assms(2) st(6) by simp
  have "\<exists>f' s'. io_ok ok cells writable s' f' \<and> cow cells s1 f1 s' f'
    \<and> fh_pos f' = fh_pos f1 + min (length d) ?ps \<and> room s' f' m
    \<and> page_list cells s' f' = (page_list cells s1 f1)[k := overlay (page_list cells s1 f1 ! k) 0 (take ?ps d)]
    \<and> write_loop c ?ps s f d = write_loop c ?ps s' f' (drop ?ps d)"
  proof (cases "length d < ?ps")
    case True
    have "length d < page_size (header s1)" "fh_pos f1 + length d < 2 ^ 64" using True h bound by simp_all
    from write_partial_ok [OF st(2,4) this(1) st(5) this(2)] obtain f' s' where
      "write_partial_page c s1 f1 k d = Inr (True, f', s')" "io_ok ok cells writable s' f'" "cow cells s1 f1 s' f'"
      "fh_pos f' = fh_pos f1 + length d" "room s' f' m"
      "page_list cells s' f' = (page_list cells s1 f1)[k := overlay (page_list cells s1 f1 ! k) 0 d]" by blast
    then show ?thesis using True ps idx st(1) assms(5)
      by (intro exI [of _ f'] exI [of _ s']) (simp add: write_loop.simps [of c ?ps s f d])
  next
    case False
    then have "page_size (header s1) \<le> length d" "fh_pos f1 + page_size (header s1) < 2 ^ 64" using h bound by simp_all
    from write_full_ok [OF st(2,4) this(1) st(5) this(2)] h obtain f' s' where
      "write_full_page c s1 f1 k d = Inr (True, f', s')" "io_ok ok cells writable s' f'" "cow cells s1 f1 s' f'"
      "fh_pos f' = fh_pos f1 + ?ps" "room s' f' m"
      "page_list cells s' f' = (page_list cells s1 f1)[k := take ?ps d]" by auto
    moreover have "length (page_list cells s1 f1 ! k) = ?ps" using u(1) st(4) by simp
    ultimately show ?thesis using False ps idx st(1) assms(5)
      by (intro exI [of _ f'] exI [of _ s'])
        (simp add: write_loop.simps [of c ?ps s f d] overlay_all min_absorb2)
  qed
  then obtain f' s' where
    r: "io_ok ok cells writable s' f'" "cow cells s1 f1 s' f'" "fh_pos f' = fh_pos f1 + min (length d) ?ps"
      "room s' f' m"
      "page_list cells s' f' = (page_list cells s1 f1)[k := overlay (page_list cells s1 f1 ! k) 0 (take ?ps d)]"
      "write_loop c ?ps s f d = write_loop c ?ps s' f' (drop ?ps d)" by (elim exE conjE) (rule that, assumption+)
  have "fh_pos f \<le> length ?C"
    using io_ok_lengths(2) [OF assms(1)] assms(2,3) by simp
  then have "patched ?C (fh_pos f) [] (concat (page_list cells s1 f1))"
    unfolding st(7) by (simp add: patched_append)
  moreover have "patched (concat (page_list cells s1 f1)) (fh_pos f) (take ?ps d) (concat (page_list cells s' f'))"
    using patched_page [OF u(1), of k 0 "take ?ps d"] st(4) assms(2) unfolding r(5) by simp
  ultimately have "patched ?C (fh_pos f) (take ?ps d) (concat (page_list cells s' f'))"
    using patched_comp [of ?C "fh_pos f" "[]"] by simp
  moreover have "length (valid_pages f') = length (valid_pages f1)" using arg_cong [OF r(5), of length] by simp
  ultimately show ?thesis using r(1,3,4,6) st(4,6) cow_trans [OF st(3) r(2)]
    by (intro exI [of _ f'] exI [of _ s']) simp
qed

lemma write_loop_ok:
  "io_ok ok cells writable s f \<Longrightarrow> fh_pos f = k * page_size (header s) \<Longrightarrow> k \<le> length (valid_pages f) \<Longrightarrow>
   room s f (pages_for (page_size (header s)) (length d) + m) \<Longrightarrow>
   \<exists>f' s'. write_loop c (page_size (header s)) s f d = Inr (True, f', s')
    \<and> io_ok ok cells writable s' f' \<and> cow cells s f s' f' \<and> fh_pos f' = fh_pos f + length d \<and> room s' f' m
    \<and> patched (concat (page_list cells s f)) (fh_pos f) d (concat (page_list cells s' f'))"
proof (induction "length d" arbitrary: d s f k rule: less_induct)
  case less
  let ?ps = "page_size (header s)"
  have ps: "0 < ?ps" by (rule geometryD(2) [OF io_okD(2) [OF less.prems(1)]])
  show ?case
  proof (cases "d = []")
    case True
    have "fh_pos f \<le> length (concat (page_list cells s f))"
      using io_ok_lengths(2) [OF less.prems(1)] less.prems(2,3) by simp
    then have "patched (concat (page_list cells s f)) (fh_pos f) [] (concat (page_list cells s f))"
      by (simp add: patched_def)
    then show ?thesis using True less.prems(1,4) cow_refl room_mono
      by (intro exI [of _ f] exI [of _ s]) (auto simp: write_loop.simps [of c ?ps s f])
  next
    case False
    then have "room s f (Suc (pages_for ?ps (length d - ?ps) + m))"
      using less.prems(4) pages_for_step [OF ps, of "length d"] by simp
    from write_round [OF less.prems(1-3) this False] obtain f1 s1 where
      r: "io_ok ok cells writable s1 f1" "cow cells s f s1 f1" "fh_pos f1 = fh_pos f + min (length d) ?ps"
        "Suc k \<le> length (valid_pages f1)" "room s1 f1 (pages_for ?ps (length d - ?ps) + m)"
        "patched (concat (page_list cells s f)) (fh_pos f) (take ?ps d) (concat (page_list cells s1 f1))"
        "write_loop c ?ps s f d = write_loop c ?ps s1 f1 (drop ?ps d)" by blast
    have h: "header s1 = header s" by (rule cow_header [OF r(2)])
    show ?thesis
    proof (cases "length d \<le> ?ps")
      case True
      then show ?thesis using r room_mono [OF r(5), of m]
        by (intro exI [of _ f1] exI [of _ s1]) (simp add: write_loop.simps [of c ?ps s1 f1] min_absorb1)
    next
      case big: False
      have "length (drop ?ps d) < length d" using False ps by simp
      moreover have "fh_pos f1 = Suc k * page_size (header s1)" using r(3) less.prems(2) big h by simp
      moreover have "room s1 f1 (pages_for (page_size (header s1)) (length (drop ?ps d)) + m)" using r(5) h by simp
      ultimately obtain f' s' where
        e: "write_loop c ?ps s1 f1 (drop ?ps d) = Inr (True, f', s')" "io_ok ok cells writable s' f'"
          "cow cells s1 f1 s' f'" "fh_pos f' = fh_pos f1 + length (drop ?ps d)" "room s' f' m"
          "patched (concat (page_list cells s1 f1)) (fh_pos f1) (drop ?ps d) (concat (page_list cells s' f'))"
        using less.hyps [of "drop ?ps d" s1 f1 "Suc k"] r(1,4) unfolding h by blast
      have pos1: "fh_pos f1 = fh_pos f + length (take ?ps d)" using r(3) by simp
      from patched_comp [OF r(6) e(6) [unfolded pos1]] have
        "patched (concat (page_list cells s f)) (fh_pos f) d (concat (page_list cells s' f'))" by simp
      then show ?thesis using r(3,7) e big cow_trans [OF r(2) e(3)]
        by (intro exI [of _ f'] exI [of _ s']) simp
    qed
  qed
qed

end

section \<open>The whole write\<close>

text \<open>What is left of the flash: everything but free pages and pages never written.\<close>

definition old_pages_kept :: "('m \<Rightarrow> byte list) \<Rightarrow> 'm fs \<Rightarrow> file_handle \<Rightarrow> 'm fs \<Rightarrow> bool" where
  "old_pages_kept cells s f s' \<longleftrightarrow> same_fs s s' \<and> length (cells (mem s')) = length (cells (mem s))
     \<and> take (page_size (header s)) (cells (mem s')) = take (page_size (header s)) (cells (mem s))
     \<and> (\<forall>r. Suc r < filesystem_size (header s) \<and> r \<notin> elems (free_data_pages s) \<and> r \<notin> new_ids f \<longrightarrow>
          page_at (page_size (header s)) r (cells (mem s')) = page_at (page_size (header s)) r (cells (mem s)))"

lemma cow_old: "cow cells s f s' f' \<Longrightarrow> old_pages_kept cells s f s'"
  by (simp add: cow_def old_pages_kept_def)

text \<open>The handle after a write: what \<open>write\<close> may change.\<close>

definition same_meta :: "file_handle \<Rightarrow> file_handle \<Rightarrow> bool" where
  "same_meta f f' \<longleftrightarrow>
     (fh_inode f')\<lparr>data_pages := [], file_len := 0, inode_data := []\<rparr> =
     (fh_inode f)\<lparr>data_pages := [], file_len := 0, inode_data := []\<rparr>
     \<and> fh_page f' = fh_page f \<and> append_mode f' = append_mode f \<and> connected f' = connected f"

lemma same_meta_I:
  assumes "same_handle f f'"
  shows "same_meta f (f'\<lparr>modified := b, fh_inode := (fh_inode f')\<lparr>file_len := n\<rparr>\<rparr>)"
proof -
  have "(fh_inode f')\<lparr>data_pages := []\<rparr> = (fh_inode f)\<lparr>data_pages := []\<rparr>" using assms by (simp add: same_handle_def)
  then have "((fh_inode f')\<lparr>data_pages := []\<rparr>)\<lparr>file_len := 0, inode_data := []\<rparr> =
      ((fh_inode f)\<lparr>data_pages := []\<rparr>)\<lparr>file_len := 0, inode_data := []\<rparr>" by simp
  then show ?thesis using assms by (simp add: same_meta_def same_handle_def)
qed

lemma concat_contents:
  "inode_data (fh_inode f) = [] \<Longrightarrow>
   contents cells s f = take (file_len (fh_inode f)) (concat (page_list cells s f))"
  by (simp add: contents_def page_list_def valid_pages_def)

text \<open>How many pages a write from position \<open>p\<close> on may need.\<close>

definition touched :: "nat \<Rightarrow> nat \<Rightarrow> nat \<Rightarrow> nat" where
  "touched ps p n = (if p mod ps = 0 then pages_for ps n else Suc (pages_for ps (n - (ps - p mod ps))))"

context fs_on_flash
begin

lemma write_unaligned_ok:
  assumes "io_ok ok cells writable s f" "k < length (valid_pages f)"
    "fh_pos f = k * page_size (header s) + a" "a < page_size (header s)" "room s f (Suc m)"
  shows "\<exists>f' s'. write_unaligned c s f k d = Inr (True, min (length d) (page_size (header s) - a), f', s')
    \<and> io_ok ok cells writable s' f' \<and> cow cells s f s' f'
    \<and> fh_pos f' = fh_pos f + min (length d) (page_size (header s) - a) \<and> room s' f' m
    \<and> length (valid_pages f') = length (valid_pages f)
    \<and> patched (concat (page_list cells s f)) (fh_pos f) (take (min (length d) (page_size (header s) - a)) d)
        (concat (page_list cells s' f'))"
proof -
  let ?ps = "page_size (header s)"
  define l where "l = min (length d) (?ps - a)"
  have l: "l \<le> length d" "a + l \<le> ?ps" using assms(4) by (auto simp: l_def)
  have ra: "room_at s f k m" using assms(5) room_mono [OF assms(5), of m] by (simp add: room_at_def)
  have "a + length (take l d) \<le> ?ps" using l by simp
  from patch_page_ok [OF assms(1,2) this ra] obtain f1 s1 s2 f' s' where
    p: "(if dp_state (valid_pages f ! k) = Stored
       then read_page c s (page_id (valid_pages f ! k)) (replicate ?ps 0) False
       else Inr (None, replicate ?ps 0, s)) = Inr (None, page_list cells s f ! k, s1)"
      "(if dp_state (valid_pages f ! k) = Stored then allocate_new_data_page_at s1 k f else Inr (True, f, s1)) =
       Inr (True, f1, s2)"
      "write_page c s2 f1 (overlay (page_list cells s f ! k) a (take l d)) (Slot k) = Inr (True, f', s')"
      "io_ok ok cells writable s' f'" "cow cells s f s' f'" "fh_pos f' = fh_pos f" "room s' f' m"
      "page_list cells s' f' = (page_list cells s f)[k := overlay (page_list cells s f ! k) a (take l d)]"
    by (elim exE conjE) (rule that, assumption+)
  note slot = io_ok_slot [OF assms(1,2)] and u = io_ok_lengths [OF assms(1)]
  have lk: "length (page_list cells s f ! k) = ?ps" using u(1) assms(2) by simp
  have "k * ?ps + ?ps \<le> length (valid_pages f) * ?ps"
    using mult_le_mono1 [of "Suc k" "length (valid_pages f)" ?ps] assms(2) by simp
  then have "fh_pos f + l \<le> length (valid_pages f) * ?ps" using assms(3) l(2) by linarith
  from le_less_trans [OF this u(3)] have add: "add64 (fh_pos f) l = fh_pos f + l" by (simp add: add64_small)
  have a: "fh_pos f mod ?ps = a" using assms(3,4) by simp
  have none: "(if k > 0 then allocate_new_data_pages s (k - 1) f else (True, f, s)) = (True, f, s)"
    using allocate_none [of "k - 1" f s] assms(2) by simp
  have st: "(dp_state (valid_pages f ! k) \<noteq> New) = (dp_state (valid_pages f ! k) = Stored)"
    using slot(4) by (cases "dp_state (valid_pages f ! k)") simp_all
  have lm: "min (length d) (?ps - a) = l" by (simp add: l_def)
  have none2: "(if b then allocate_new_data_pages s k f else (True, f, s)) = (True, f, s)" for b
    using allocate_none [OF assms(2), of s] by simp
  have "write_unaligned c s f k d = Inr (True, l, f'\<lparr>fh_pos := fh_pos f + l\<rparr>, s')"
    unfolding write_unaligned_def Let_def page_slot_def none
    using slot(1,2) p(1-3,6) lk l add st
    by (simp add: a memcpy_to_ok lm none2 split del: if_split)
  moreover have "room s' (f'\<lparr>fh_pos := fh_pos f + l\<rparr>) m" using p(7) by (simp add: room_def)
  moreover have "patched (concat (page_list cells s f)) (fh_pos f) (take l d) (concat (page_list cells s' f'))"
    unfolding p(8) using patched_page [OF u(1), of k a "take l d"] assms(2,3) l by simp
  moreover have "length (valid_pages f') = length (valid_pages f)" using arg_cong [OF p(8), of length] by simp
  ultimately show ?thesis unfolding lm using p(4,5)
    by (intro exI [of _ "f'\<lparr>fh_pos := fh_pos f + l\<rparr>"] exI [of _ s']) simp
qed

lemma write_tail_ok:
  assumes "io_ok ok cells writable s f" "fh_pos f \<le> length (valid_pages f) * page_size (header s)"
    "fh_pos f mod page_size (header s) = 0 \<or> page_idx = fh_pos f div page_size (header s)"
    "room s f (touched (page_size (header s)) (fh_pos f) (length d) + m)"
  shows "\<exists>f' s'. write_tail c s f page_idx d add = Inr (length d + add,
        f'\<lparr>modified := True, fh_inode := (fh_inode f')\<lparr>file_len := max (fh_pos f') (file_len (fh_inode f'))\<rparr>\<rparr>, s')
    \<and> io_ok ok cells writable s' f' \<and> cow cells s f s' f' \<and> fh_pos f' = fh_pos f + length d \<and> room s' f' m
    \<and> patched (concat (page_list cells s f)) (fh_pos f) d (concat (page_list cells s' f'))"
proof -
  let ?ps = "page_size (header s)"
  let ?C = "concat (page_list cells s f)"
  have ps: "0 < ?ps" by (rule geometryD(2) [OF io_okD(2) [OF assms(1)]])
  show ?thesis
  proof (cases "fh_pos f mod ?ps = 0")
    case True
    then obtain k where k: "fh_pos f = k * ?ps" by (metis dvd_def mod_eq_0_iff_dvd mult.commute)
    with assms(2) ps have kl: "k \<le> length (valid_pages f)" by simp
    have "room s f (pages_for ?ps (length d) + m)" using assms(4) True by (simp add: touched_def)
    from write_loop_ok [OF assms(1) k kl this] obtain f' s' where
      "write_loop c ?ps s f d = Inr (True, f', s')" "io_ok ok cells writable s' f'" "cow cells s f s' f'"
      "fh_pos f' = fh_pos f + length d" "room s' f' m" "patched ?C (fh_pos f) d (concat (page_list cells s' f'))"
      by blast
    then show ?thesis using True ps
      by (intro exI [of _ f'] exI [of _ s']) (simp add: write_tail_def)
  next
    case False
    let ?a = "fh_pos f mod ?ps" and ?k = "fh_pos f div ?ps"
    define l where "l = min (length d) (?ps - ?a)"
    have split: "fh_pos f = ?k * ?ps + ?a" and a: "?a < ?ps" using ps by simp_all
    have "?k * ?ps < length (valid_pages f) * ?ps" using assms(2) split False by linarith
    then have k: "?k < length (valid_pages f)" by simp
    have "room s f (Suc (pages_for ?ps (length d - l) + m))"
    proof (rule room_mono [OF assms(4)])
      have "length d - l = length d - (?ps - ?a)" by (simp add: l_def)
      then show "Suc (pages_for ?ps (length d - l) + m) \<le> touched ?ps (fh_pos f) (length d) + m"
        using False by (simp add: touched_def)
    qed
    from write_unaligned_ok [OF assms(1) k split a this, of d] obtain f1 s1 where
      w: "write_unaligned c s f ?k d = Inr (True, l, f1, s1)" "io_ok ok cells writable s1 f1" "cow cells s f s1 f1"
        "fh_pos f1 = fh_pos f + l" "room s1 f1 (pages_for ?ps (length d - l) + m)"
        "length (valid_pages f1) = length (valid_pages f)"
        "patched ?C (fh_pos f) (take l d) (concat (page_list cells s1 f1))"
      unfolding l_def by blast
    have h: "header s1 = header s" by (rule cow_header [OF w(3)])
    have "\<exists>f' s'. write_loop c ?ps s1 f1 (drop l d) = Inr (True, f', s')
      \<and> io_ok ok cells writable s' f' \<and> cow cells s1 f1 s' f' \<and> fh_pos f' = fh_pos f + length d \<and> room s' f' m
      \<and> patched ?C (fh_pos f) d (concat (page_list cells s' f'))"
    proof (cases "length d \<le> l")
      case True
      then have "l = length d" by (simp add: l_def)
      then show ?thesis using w cow_refl
        by (intro exI [of _ f1] exI [of _ s1]) (simp add: write_loop.simps [of c ?ps s1 f1])
    next
      case nd: False
      then have "l = ?ps - ?a" by (simp add: l_def min_def split: if_splits)
      then have "fh_pos f1 = Suc ?k * page_size (header s1)" using w(4) split a unfolding h mult_Suc by linarith
      moreover have "Suc ?k \<le> length (valid_pages f1)" using k w(6) by simp
      moreover have "room s1 f1 (pages_for (page_size (header s1)) (length (drop l d)) + m)" using w(5) h by simp
      ultimately obtain f' s' where
        e: "write_loop c ?ps s1 f1 (drop l d) = Inr (True, f', s')" "io_ok ok cells writable s' f'"
          "cow cells s1 f1 s' f'" "fh_pos f' = fh_pos f1 + length (drop l d)" "room s' f' m"
          "patched (concat (page_list cells s1 f1)) (fh_pos f1) (drop l d) (concat (page_list cells s' f'))"
        using write_loop_ok [OF w(2), of "Suc ?k" "drop l d" m] unfolding h by blast
      have pos1: "fh_pos f1 = fh_pos f + length (take l d)" using w(4) nd by simp
      from patched_comp [OF w(7) e(6) [unfolded pos1]] have "patched ?C (fh_pos f) d (concat (page_list cells s' f'))" by simp
      then show ?thesis using e w(4) nd by (intro exI [of _ f'] exI [of _ s']) simp
    qed
    then obtain f' s' where
      e: "write_loop c ?ps s1 f1 (drop l d) = Inr (True, f', s')" "io_ok ok cells writable s' f'"
        "cow cells s1 f1 s' f'" "fh_pos f' = fh_pos f + length d" "room s' f' m"
        "patched ?C (fh_pos f) d (concat (page_list cells s' f'))" by blast
    then show ?thesis using assms(3) False ps w(1) cow_trans [OF w(3) e(3)]
      by (intro exI [of _ f'] exI [of _ s']) (simp add: write_tail_def)
  qed
qed

end

end
