(* ===== verification/FileSpec.thy ===== *)
theory FileSpec
  imports Writes
begin

text \<open>
  The contract of \<open>read\<close> and \<open>write\<close>, over the contents of the file as a byte list. The lemmas
  put the branches of \<open>write\<close> together: inside the inode, moving from the inode to a page, and
  in pages.
\<close>

section \<open>Inside the inode\<close>

lemma pages_for_bound: "0 < ps \<Longrightarrow> pages_for ps k \<le> k div ps + 1"
proof -
  assume ps: "0 < ps"
  have "k + ps - 1 \<le> k + ps" by simp
  from div_le_mono [OF this, of ps] show ?thesis using ps div_add_self2 [of ps k] by (simp add: pages_for_def)
qed

lemma touched_bound:
  assumes "0 < ps"
  shows "touched ps p n \<le> n div ps + 2"
proof -
  have "(n - (ps - p mod ps)) div ps \<le> n div ps" by (rule div_le_mono) simp
  then show ?thesis using pages_for_bound [OF assms, of n] pages_for_bound [OF assms, of "n - (ps - p mod ps)"]
    by (simp add: touched_def)
qed

lemma overlay_extends: "length C \<le> length C' \<Longrightarrow> take (length C) C' = C \<Longrightarrow> p + length d \<le> length C' \<Longrightarrow>
  patched C p d (overlay C' p d)"
  by (auto simp: patched_def nth_overlay) (metis nth_take)+

text \<open>What a write leaves behind, in one predicate.\<close>

definition written :: "('m \<Rightarrow> bool) \<Rightarrow> ('m \<Rightarrow> byte list) \<Rightarrow> ('m \<Rightarrow> nat \<Rightarrow> bool) \<Rightarrow>
    'm fs \<Rightarrow> file_handle \<Rightarrow> byte list \<Rightarrow> 'm fs \<Rightarrow> file_handle \<Rightarrow> bool" where
  "written ok cells writable s f d s' f' \<longleftrightarrow> file_ok ok cells writable s' f'
     \<and> contents cells s' f' = overlay (contents cells s f) (fh_pos f) d
     \<and> fh_pos f' = fh_pos f + length d
     \<and> file_len (fh_inode f') = max (fh_pos f + length d) (file_len (fh_inode f))
     \<and> modified f' \<and> same_meta f f' \<and> old_pages_kept cells s f s'"

lemma old_pages_kept_refl: "old_pages_kept cells s f s"
  by (simp add: old_pages_kept_def same_fs_def)

lemma write_inline_ok:
  assumes "file_ok ok cells writable s f" "fits_inode s f (length d)" "length d < 2 ^ 32"
  shows "\<exists>f'. write_inline s f d = Inr (length d, f', s) \<and> written ok cells writable s f d s f'"
proof -
  let ?i = "fh_inode f" and ?ps = "page_size (header s)"
  let ?space = "get_inode_data_space_size s (fh_inode f)" and ?v = "inode_data (fh_inode f)"
  have io: "io_ok ok cells writable s f" and pos: "fh_pos f \<le> file_len ?i" and nl: "42 + file_name_len ?i \<le> ?ps"
    using assms(1) by (simp_all add: file_ok_def)
  have fl: "file_len ?i < ?space" and fits: "add64 (fh_pos f) (length d) < ?space"
    using assms(2) by (simp_all add: fits_inode_def)
  have dp: "data_pages ?i = []" "file_len ?i \<le> length ?v" using assms(1) fl by (auto simp: file_ok_def)
  have sp: "?space \<le> ?ps" "?ps < 2 ^ 32"
    using inode_space [OF nl] geometryD(4) [OF io_okD(2) [OF io]] by simp_all
  have add: "add64 (fh_pos f) (length d) = fh_pos f + length d"
    using pos fl sp assms(3) by (intro add64_small) simp
  let ?w = "if length ?v < ?space then take ?space ?v @ replicate (?space - length ?v) 0 else ?v"
  have w: "length ?v \<le> length ?w" "take (length ?v) ?w = ?v" "?space \<le> length ?w" by auto
  have rs: "(if length ?v < ?space then vec_resize ?v ?space else Inr ?v) = Inr ?w"
    using sp by (simp add: vec_resize_def)
  let ?p = "fh_pos f + length d"
  let ?f = "f\<lparr>fh_pos := ?p, modified := True,
      fh_inode := ?i\<lparr>inode_data := overlay ?w (fh_pos f) d, file_len := max ?p (file_len ?i)\<rparr>\<rparr>"
  have in_w: "fh_pos f + length d \<le> length ?w" using fits add w(3) by linarith
  have wr: "write_inline s f d = Inr (length d, ?f, s)"
    unfolding write_inline_def Let_def rs add using in_w by (simp add: memcpy_to_ok split del: if_split)
  have "file_ok ok cells writable s ?f"
  proof -
    have "?space = get_inode_data_space_size s (fh_inode ?f)"
      by (simp add: get_inode_data_space_size_def)
    then show ?thesis using io nl dp fits fl add in_w w(1)
      by (auto simp: file_ok_def io_ok_def valid_pages_def)
  qed
  moreover have "contents cells s ?f = overlay (contents cells s f) (fh_pos f) d"
    using patched_end [OF overlay_extends [OF w(1,2) in_w] pos dp(2)] dp(1) by (simp add: contents_def)
  ultimately show ?thesis using wr
    by (intro exI [of _ ?f]) (simp add: written_def same_meta_def old_pages_kept_refl)
qed

section \<open>In pages\<close>

lemma in_pages:
  assumes "io_ok ok cells writable s' g" "header s' = header s" "inode_data (fh_inode g) = []"
    "file_name_len (fh_inode g) = file_name_len (fh_inode f)" "fh_pos g = p + length d"
    "patched C p d (concat (page_list cells s' g))"
    "42 + file_name_len (fh_inode f) \<le> page_size (header s)" "p \<le> len" "len \<le> length C"
    "get_inode_data_space_size s (fh_inode f) \<le> max (p + length d) len"
    "f' = g\<lparr>modified := True, fh_inode := (fh_inode g)\<lparr>file_len := max (p + length d) len\<rparr>\<rparr>"
  shows "file_ok ok cells writable s' f'" "contents cells s' f' = overlay (take len C) p d"
proof -
  have v: "valid_pages f' = valid_pages g" "page_list cells s' f' = page_list cells s' g"
    by (simp_all add: assms(11) valid_pages_def page_list_def)
  have io': "io_ok ok cells writable s' f'" using assms(1) by (simp add: assms(11) io_ok_def valid_pages_def)
  have "get_inode_data_space_size s' (fh_inode f') = get_inode_data_space_size s (fh_inode f)"
    using assms(2,4) by (simp add: assms(11) get_inode_data_space_size_def get_checksum_size_def)
  moreover have "max (p + length d) len \<le> length (valid_pages g) * page_size (header s')"
    using assms(6,9) io_ok_lengths(2) [OF assms(1)] by (simp add: patched_def)
  ultimately show "file_ok ok cells writable s' f'"
    using io' assms(2-5,7,10) v(1) by (simp add: file_ok_def assms(11))
  have "inode_data (fh_inode f') = []" using assms(3) by (simp add: assms(11))
  then show "contents cells s' f' = overlay (take len C) p d"
    using concat_contents [of f' cells s'] v(2) patched_end [OF assms(6,8,9)] by (simp add: assms(11))
qed

lemma old_pages_trans:
  assumes "cow cells s f s1 g" "old_pages_kept cells s1 g' s2" "new_ids g' = new_ids g"
  shows "old_pages_kept cells s f s2"
  using assms cow_header [OF assms(1)] unfolding cow_def old_pages_kept_def same_fs_def by auto

context fs_on_flash
begin

lemma write_pages_ok:
  assumes "file_ok ok cells writable s f" "inode_data (fh_inode f) = []" "\<not> fits_inode s f (length d)"
    "room s f (length d div page_size (header s) + 2)" "length d < 2 ^ 32"
  shows "\<exists>f' s'. write_tail c s f (fh_pos f div page_size (header s)) d 0 = Inr (length d, f', s')
    \<and> written ok cells writable s f d s' f'"
proof -
  let ?i = "fh_inode f" and ?ps = "page_size (header s)" and ?C = "concat (page_list cells s f)"
  have io: "io_ok ok cells writable s f" and pos: "fh_pos f \<le> file_len ?i" and nl: "42 + file_name_len ?i \<le> ?ps"
    using assms(1) by (simp_all add: file_ok_def)
  have fl: "file_len ?i \<le> length ?C"
    using assms(1,2) io_ok_lengths(2) [OF io] by (auto simp: file_ok_def)
  then have pC: "fh_pos f \<le> length (valid_pages f) * ?ps" using pos io_ok_lengths(2) [OF io] by simp
  have "fh_pos f < 2 ^ 32" using le_less_trans [OF pC io_ok_lengths(3) [OF io]] .
  then have add: "add64 (fh_pos f) (length d) = fh_pos f + length d" using assms(5) by (intro add64_small) simp
  have sp: "get_inode_data_space_size s ?i \<le> max (fh_pos f + length d) (file_len ?i)"
    using assms(3) add by (auto simp: fits_inode_def)
  have "room s f (touched ?ps (fh_pos f) (length d) + 0)"
    using room_mono [OF assms(4)] touched_bound [OF geometryD(2) [OF io_okD(2) [OF io]]] by simp
  from write_tail_ok [where page_idx = "fh_pos f div ?ps" and d = d and add = 0 and m = 0, OF io pC _ this] obtain g s' where
    g: "write_tail c s f (fh_pos f div ?ps) d 0 = Inr (length d,
        g\<lparr>modified := True, fh_inode := (fh_inode g)\<lparr>file_len := max (fh_pos g) (file_len (fh_inode g))\<rparr>\<rparr>, s')"
      "io_ok ok cells writable s' g" "cow cells s f s' g" "fh_pos g = fh_pos f + length d"
      "patched ?C (fh_pos f) d (concat (page_list cells s' g))" by auto
  let ?f = "g\<lparr>modified := True, fh_inode := (fh_inode g)\<lparr>file_len := max (fh_pos f + length d) (file_len ?i)\<rparr>\<rparr>"
  have "file_len (fh_inode g) = file_len ?i" by (rule same_handle_fields(1) [OF cow_handle [OF g(3)]])
  then have wr: "write_tail c s f (fh_pos f div ?ps) d 0 = Inr (length d, ?f, s')" using g(1,4) by simp
  note sh = same_handle_fields [OF cow_handle [OF g(3)]]
  show ?thesis
    using wr in_pages [OF g(2) cow_header [OF g(3)] sh(2) [unfolded assms(2)] sh(3) g(4,5) nl pos fl sp refl]
      cow_old [OF g(3)] concat_contents [OF assms(2), of cells s] g(4) same_meta_I [OF cow_handle [OF g(3)]]
    by (intro exI [of _ ?f] exI [of _ s']) (simp add: written_def)
qed

lemma write_migrate_ok:
  assumes "file_ok ok cells writable s f" "inode_data (fh_inode f) \<noteq> []" "\<not> fits_inode s f (length d)"
    "fh_pos f = file_len (fh_inode f)" "room s f (length d div page_size (header s) + 2)" "length d < 2 ^ 32"
  shows "\<exists>f' s'. write_migrate c s f (fh_pos f div page_size (header s)) d = Inr (length d, f', s')
    \<and> written ok cells writable s f d s' f'"
proof -
  let ?i = "fh_inode f" and ?ps = "page_size (header s)" and ?v = "inode_data (fh_inode f)"
  let ?space = "get_inode_data_space_size s (fh_inode f)" and ?p = "fh_pos f"
  have io: "io_ok ok cells writable s f" and nl: "42 + file_name_len ?i \<le> ?ps"
    using assms(1) by (simp_all add: file_ok_def)
  have dp: "data_pages ?i = []" and flv: "?p \<le> length ?v" and fls: "?p = 0 \<or> ?p < ?space"
    using assms(1,2,4) by (auto simp: file_ok_def)
  note geo = geometryD [OF io_okD(2) [OF io]]
  have sp: "?space \<le> ?ps - 42" "?space < ?ps" using inode_space [OF nl] geo(1,4) by simp_all
  have p: "?p < ?ps" using fls sp geo(2) by auto
  have add: "add64 ?p (length d) = ?p + length d" using p geo(4) assms(6) by (intro add64_small) simp
  have big: "?space \<le> ?p + length d" using assms(3,4) add fls by (auto simp: fits_inode_def)
  define bl where "bl = min (?ps - ?p) (length d)"
  have sub: "min (sub64 ?ps ?p) (length d) = bl" using p geo(4) by (simp add: bl_def sub64_small)
  define e where "e = take ?p ?v @ take bl d"
  have le: "length e = ?p + bl" "?p + bl \<le> ?ps" using flv p by (auto simp: e_def bl_def)
  have page: "take (?p + bl) (overlay (overlay (replicate ?ps 0) 0 (slice 0 ?p ?v)) ?p (take bl d)) = e"
    using flv le p by (simp add: overlay_def slice_def e_def bl_def)
  let ?f1 = "f\<lparr>fh_pos := 0, modified := True, fh_inode := ?i\<lparr>inode_data := []\<rparr>\<rparr>"
  have V: "valid_pages f = []" "page_list cells s f = []" using dp by (simp_all add: valid_pages_def page_list_def)
  have io1: "io_ok ok cells writable s ?f1" and V1: "valid_pages ?f1 = []" "page_list cells s ?f1 = []"
    using io dp by (simp_all add: io_ok_def valid_pages_def page_list_def)
  have sz: "get_inode_data_space_size s (?i\<lparr>inode_data := []\<rparr>) = ?space" by (simp add: get_inode_data_space_size_def)
  have nofit: "\<not> fits_inode s ?f1 (length e)"
    using big sp p le geo(4) by (auto simp: fits_inode_def sz add64_def bl_def)
  have pg: "pages_for ?ps (length e) \<le> 1"
    using le geo(2) pages_for_step [of ?ps "length e"] by (cases "length e = 0") simp_all
  have room1: "room s ?f1 (touched ?ps (fh_pos ?f1) (length e) + (pages_for ?ps (length d - bl)))"
  proof -
    have "(length d - bl) div ?ps \<le> length d div ?ps" by (rule div_le_mono) simp
    then have "pages_for ?ps (length d - bl) \<le> length d div ?ps + 1"
      using pages_for_bound [OF geo(2), of "length d - bl"] by simp
    then show ?thesis using pg assms(5) by (simp add: touched_def room_def get_max_inode_data_pages_def sz)
  qed
  from write_tail_ok [where page_idx = 0 and d = e and add = 0, OF io1 _ _ room1] obtain g s1 where
    g: "write_tail c s ?f1 0 e 0 = Inr (length e,
        g\<lparr>modified := True, fh_inode := (fh_inode g)\<lparr>file_len := max (fh_pos g) (file_len (fh_inode g))\<rparr>\<rparr>, s1)"
      "io_ok ok cells writable s1 g" "cow cells s ?f1 s1 g" "fh_pos g = length e"
      "room s1 g (pages_for ?ps (length d - bl))" "patched [] 0 e (concat (page_list cells s1 g))"
    using V1(2) by auto
  have h: "header s1 = header s" by (rule cow_header [OF g(3)])
  have flg: "file_len (fh_inode g) = ?p" "inode_data (fh_inode g) = []" "file_name_len (fh_inode g) = file_name_len ?i"
    using same_handle_fields [OF cow_handle [OF g(3)]] assms(4) by simp_all
  let ?f2 = "g\<lparr>modified := True, fh_inode := (fh_inode g)\<lparr>file_len := ?p + bl\<rparr>\<rparr>"
  have t1: "write_tail c s ?f1 0 e 0 = Inr (?p + bl, ?f2, s1)" using g(1,4) flg(1) le(1) by (simp add: max_absorb1)
  have mig: "write_migrate c s f (?p div ?ps) d =
      (if length d = bl then Inr (length d, ?f2, s1) else write_tail c s1 ?f2 (?p div ?ps) (drop bl d) bl)"
    unfolding write_migrate_def Let_def sub
    using flv p le t1 nofit page geo(2) by (simp add: memcpy_from_ok memcpy_to_ok write_cleared_def bl_def [symmetric])
  have old: "contents cells s f = take ?p ?v" using dp assms(4) by (simp add: contents_def)
  have meta: "same_meta f ?f2"
    using same_meta_I [where b = True and n = "?p + bl", OF cow_handle [OF g(3)]] by (simp add: same_meta_def)
  have old1: "old_pages_kept cells s f s1" using cow_old [OF g(3)] by (simp add: old_pages_kept_def new_ids_def)
  show ?thesis
  proof (cases "length d = bl")
    case True
    then have e: "e = take ?p ?v @ d" by (simp add: e_def)
    have "get_inode_data_space_size s ?i \<le> max (0 + length e) 0" using big le(1) True by simp
    note ip = in_pages [OF g(2) h flg(2,3) _ g(6) nl _ _ this refl]
    have f2: "?f2 = g\<lparr>modified := True, fh_inode := (fh_inode g)\<lparr>file_len := max (0 + length e) 0\<rparr>\<rparr>"
      using le(1) by simp
    have "file_ok ok cells writable s1 ?f2" "contents cells s1 ?f2 = e"
      unfolding f2 using ip g(4) by (simp_all add: overlay_def)
    moreover have "overlay (contents cells s f) ?p d = e" using old flv e by (simp add: overlay_def)
    ultimately show ?thesis using mig True meta old1 g(4) le(1) assms(4)
      by (intro exI [of _ ?f2] exI [of _ s1]) (simp add: written_def)
  next
    case False
    then have bl: "bl = ?ps - ?p" "bl \<le> length d" by (simp_all add: bl_def min_def split: if_splits)
    then have le_ps: "length e = ?ps" using le(1) p by simp
    have io2: "io_ok ok cells writable s1 ?f2" using g(2) by (simp add: io_ok_def valid_pages_def)
    have P2: "page_list cells s1 ?f2 = page_list cells s1 g" "length (valid_pages ?f2) = length (valid_pages g)"
      by (simp_all add: page_list_def valid_pages_def)
    have "length e \<le> length (concat (page_list cells s1 g))" using g(6) by (simp add: patched_def)
    then have t1: "fh_pos ?f2 \<le> length (valid_pages ?f2) * page_size (header s1)"
      using io_ok_lengths(2) [OF g(2)] g(4) P2(2) by simp
    have t2: "fh_pos ?f2 mod page_size (header s1) = 0 \<or> ?p div ?ps = fh_pos ?f2 div page_size (header s1)"
      using g(4) le_ps h by simp
    have t3: "room s1 ?f2 (touched (page_size (header s1)) (fh_pos ?f2) (length (drop bl d)) + 0)"
      using g(5) g(4) le_ps h by (simp add: touched_def room_def get_max_inode_data_pages_def get_inode_data_space_size_def)
    from write_tail_ok [where d = "drop bl d" and add = bl, OF io2 t1 t2 t3] obtain g' s2 where
      g': "write_tail c s1 ?f2 (?p div ?ps) (drop bl d) bl = Inr (length (drop bl d) + bl,
          g'\<lparr>modified := True, fh_inode := (fh_inode g')\<lparr>file_len := max (fh_pos g') (file_len (fh_inode g'))\<rparr>\<rparr>, s2)"
        "io_ok ok cells writable s2 g'" "cow cells s1 ?f2 s2 g'" "fh_pos g' = fh_pos ?f2 + length (drop bl d)"
        "patched (concat (page_list cells s1 ?f2)) (fh_pos ?f2) (drop bl d) (concat (page_list cells s2 g'))"
      by (elim exE conjE) (rule that, assumption+)
    note sh = same_handle_fields [OF cow_handle [OF g'(3)]]
    have all: "e @ drop bl d = take ?p ?v @ d" by (simp add: e_def)
    have "fh_pos ?f2 = 0 + length e" using g(4) by simp
    from patched_comp [OF g(6) g'(5) [unfolded P2(1) this]] have
      pt: "patched [] 0 (take ?p ?v @ d) (concat (page_list cells s2 g'))" by (simp only: all)
    have lenall: "length (take ?p ?v @ d) = ?p + length d" using flv by simp
    have pos': "fh_pos g' = 0 + length (take ?p ?v @ d)"
      using g'(4) g(4) le(1) bl(2) lenall by simp
    have h2: "header s2 = header s" using cow_header [OF g'(3)] h by simp
    have gi: "inode_data (fh_inode g') = []" "file_name_len (fh_inode g') = file_name_len ?i"
      "file_len (fh_inode g') = ?p + bl"
      using sh flg by simp_all
    have spc: "get_inode_data_space_size s ?i \<le> max (0 + length (take ?p ?v @ d)) 0" using big lenall by simp
    let ?f' = "g'\<lparr>modified := True, fh_inode := (fh_inode g')\<lparr>file_len := ?p + length d\<rparr>\<rparr>"
    have f': "?f' = g'\<lparr>modified := True, fh_inode := (fh_inode g')\<lparr>file_len := max (0 + length (take ?p ?v @ d)) 0\<rparr>\<rparr>"
      using lenall by simp
    note ip = in_pages [OF g'(2) h2 gi(1,2) pos' pt nl _ _ spc refl]
    have "file_ok ok cells writable s2 ?f'" "contents cells s2 ?f' = take ?p ?v @ d"
      unfolding f' using ip by (simp_all add: overlay_def)
    moreover have "overlay (contents cells s f) ?p d = take ?p ?v @ d" using old flv by (simp add: overlay_def)
    moreover have "same_meta f ?f'"
      using meta same_meta_I [where b = True and n = "?p + length d", OF cow_handle [OF g'(3)]] by (simp add: same_meta_def)
    moreover have "old_pages_kept cells s ?f1 s2"
      by (rule old_pages_trans [OF g(3) cow_old [OF g'(3)]]) (simp add: new_ids_def)
    then have "old_pages_kept cells s f s2" by (simp add: old_pages_kept_def new_ids_def)
    moreover have "write_migrate c s f (?p div ?ps) d = Inr (length d, ?f', s2)"
      using mig False g'(1) gi(3) pos' lenall bl(2) by (simp add: max_absorb1)
    moreover have "fh_pos ?f' = ?p + length d" using pos' lenall by simp
    ultimately show ?thesis using assms(4) by (intro exI [of _ ?f'] exI [of _ s2]) (simp add: written_def)
  qed
qed

lemma fs_write_ok:
  assumes "file_ok ok cells writable s f" "length d < 2 ^ 32"
    "fits_inode s f (length d) \<or> room s f (length d div page_size (header s) + 2)
       \<and> (inode_data (fh_inode f) = [] \<or> fh_pos f = file_len (fh_inode f))"
  shows "\<exists>f' s'. fs_write c s f d = Inr (length d, f', s') \<and> written ok cells writable s f d s' f'"
proof -
  have io: "io_ok ok cells writable s f" using assms(1) by (simp add: file_ok_def)
  have req: "requireE Undefined (0 < page_size (header s)) = Inr ()"
    using geometryD(2) [OF io_okD(2) [OF io]] by (simp add: requireE_def)
  show ?thesis
  proof (cases "fits_inode s f (length d)")
    case True
    then show ?thesis using write_inline_ok [OF assms(1) True assms(2)] req
      by (auto simp: fs_write_def)
  next
    case False
    then have r: "room s f (length d div page_size (header s) + 2)"
      and m: "inode_data (fh_inode f) = [] \<or> fh_pos f = file_len (fh_inode f)" using assms(3) by auto
    show ?thesis
    proof (cases "inode_data (fh_inode f) = []")
      case True
      then show ?thesis using write_pages_ok [OF assms(1) True False r assms(2)] False req
        by (simp add: fs_write_def)
    next
      case ne: False
      then have "fh_pos f = file_len (fh_inode f)" using m by simp
      from write_migrate_ok [OF assms(1) ne False this r assms(2)] show ?thesis using False ne req
        by (simp add: fs_write_def)
    qed
  qed
qed

end

section \<open>The operations of a handle\<close>

text \<open>A handle in append mode writes at the end of the file, wherever it stands.\<close>

definition write_pos :: "file_handle \<Rightarrow> nat" where
  "write_pos f = (if append_mode f then file_len (fh_inode f) else fh_pos f)"

text \<open>There is room for \<open>n\<close> bytes; what is stored in the inode may only be extended.\<close>

definition can_write :: "'m fs \<Rightarrow> file_handle \<Rightarrow> nat \<Rightarrow> bool" where
  "can_write s f n \<longleftrightarrow> n < 2 ^ 32 \<and> connected f
     \<and> (let f = f\<lparr>fh_pos := write_pos f\<rparr>
        in fits_inode s f n \<or> room s f (n div page_size (header s) + 2)
             \<and> (inode_data (fh_inode f) = [] \<or> fh_pos f = file_len (fh_inode f)))"

lemma room_pos [simp]: "room s (f\<lparr>fh_pos := p\<rparr>) n = room s f n"
  by (simp add: room_def)

lemma file_ok_pos: "file_ok ok cells writable s f \<Longrightarrow> p \<le> file_len (fh_inode f) \<Longrightarrow>
  file_ok ok cells writable s (f\<lparr>fh_pos := p\<rparr>)"
  by (simp add: file_ok_def)

lemma contents_pos [simp]: "contents cells s (f\<lparr>fh_pos := p\<rparr>) = contents cells s f"
  by (simp add: contents_def)

lemma same_meta_pos [simp]: "same_meta (f\<lparr>fh_pos := p\<rparr>) g = same_meta f g"
  by (simp add: same_meta_def)

lemma old_pages_kept_pos [simp]: "old_pages_kept cells s (f\<lparr>fh_pos := p\<rparr>) = old_pages_kept cells s f"
  by (rule ext) (simp add: old_pages_kept_def new_ids_def)

lemma seek_inside: "p \<le> file_len (fh_inode f) \<Longrightarrow> FileHandle_seek s f p = Inr (True, f\<lparr>fh_pos := p\<rparr>, s)"
  by (auto simp: FileHandle_seek_def)

lemma written_length: "written ok cells writable s f d s' f' \<Longrightarrow> file_ok ok cells writable s' f'"
  by (simp add: written_def)

context fs_on_flash
begin

lemma handle_write_ok:
  assumes "file_ok ok cells writable s f" "can_write s f (length d)"
  shows "\<exists>f' s'. FileHandle_write c s f d = Inr (length d, f', s')
    \<and> written ok cells writable s (f\<lparr>fh_pos := write_pos f\<rparr>) d s' f'"
proof -
  let ?f = "f\<lparr>fh_pos := write_pos f\<rparr>"
  have "write_pos f \<le> file_len (fh_inode f)" using assms(1) by (simp add: write_pos_def file_ok_def)
  then have ok: "file_ok ok cells writable s ?f" by (rule file_ok_pos [OF assms(1)])
  have c: "connected f" "length d < 2 ^ 32" using assms(2) by (simp_all add: can_write_def)
  have "(if append_mode f then FileHandle_seek s f (file_len (fh_inode f)) else Inr (True, f, s))
      = Inr (True, ?f, s)"
    by (simp add: seek_inside write_pos_def)
  then have "FileHandle_write c s f d = fs_write c s ?f d"
    using c(1) by (simp add: FileHandle_write_def requireE_def del: if_split)
  with fs_write_ok [OF ok c(2)] show ?thesis using assms(2) by (simp add: can_write_def Let_def)
qed

lemma handle_read_ok:
  assumes "file_ok ok cells writable s f" "connected f"
  shows "\<exists>m'. FileHandle_read c s f n =
      Inr (take n (drop (fh_pos f) (contents cells s f)),
        f\<lparr>fh_pos := fh_pos f + min n (file_len (fh_inode f) - fh_pos f)\<rparr>, s\<lparr>mem := m'\<rparr>)
    \<and> same_flash (flash c) ok cells writable (mem s) m'"
  using fs_read_ok [OF assms(1), of n] assms(2) by (simp add: FileHandle_read_def requireE_def)

end

end
