(* ===== verification/FileAccess.thy ===== *)
theory FileAccess
  imports FileSpec
begin

text \<open>
  What a user of an open file relies on (\<open>FileHandle::read\<close>, \<open>write\<close>, \<open>seek\<close> in
  \<open>src/base/SimpleFlashFsBase.h\<close>), on the simulated internal flash: it refuses to program a byte
  twice, so the theorems say as well that \<open>write\<close> only programs erased pages.
\<close>

lemma contents_length:
  assumes "file_ok ok cells writable s f"
  shows "length (contents cells s f) = file_len (fh_inode f)"
proof (cases "data_pages (fh_inode f) = []")
  case True
  then have "length (valid_pages f) = 0" by (simp add: valid_pages_def)
  then show ?thesis using True assms by (auto simp: contents_def file_ok_def)
next
  case False
  then show ?thesis using assms io_ok_lengths(2) [of ok cells writable s f]
    by (auto simp: contents_def file_ok_def)
qed

section \<open>A file on erased flash\<close>

text \<open>The file system and the handle of the witnesses: seven pages of 64 bytes, three of them free.\<close>

definition sample_flash :: stm32_flash where
  "sample_flash = STM32_open (SimFlash_open (erased 512)) 64 True"

lemma sample_flash:
  "st_mem sample_flash = erased 512" "stm32_ok sample_flash" "i < 512 \<Longrightarrow> stm32_writable sample_flash i"
proof -
  have e: "sample_flash = \<lparr>st_file = \<lparr>sf_bytes = erased 512, sf_pos = 512, sf_fail = False, sf_size = 512\<rparr>,
       st_mem = erased 512, st_written = replicate 512 0, st_do_mem_mapping = True, st_PAGE_SIZE = 64\<rparr>"
    by (simp add: sample_flash_def STM32_open_def STM32_init_def SimFlash_open_def stream_read_def
        overlay_def slice_def erased_def)
  show "st_mem sample_flash = erased 512" "stm32_ok sample_flash" "i < 512 \<Longrightarrow> stm32_writable sample_flash i"
    by (simp_all add: e stm32_ok_def sim_ok_def stm32_writable_def)
qed

lemma sample_pages_free: "elems (free_data_pages (small_fs m)) = {4, 5, 6}" "ps_inv (free_data_pages (small_fs m))"
  by (simp_all add: elems_def ps_inv_def NO_DATA_def)

lemma empty_file_ok: "file_ok stm32_ok st_mem stm32_writable (small_fs sample_flash) new_handle"
proof -
  have "geometry small_header 512" by (simp add: geometry_def)
  then show ?thesis using sample_pages_free [of sample_flash]
    by (simp add: file_ok_def io_ok_def sample_flash new_handle_def empty_handle_def default_inode_def
        valid_pages_def pages_ok_def page_writable_def del: small_fs_simps(5))
qed

lemma empty_can_write: "n \<le> 63 \<Longrightarrow> can_write (small_fs sample_flash) new_handle n"
  using sample_pages_free [of sample_flash]
  by (simp add: can_write_def new_handle_def empty_handle_def default_inode_def room_def Let_def
    get_max_inode_data_pages_def get_inode_data_space_size_def get_checksum_size_def
    sub64_def small_header_def wrap_simps write_pos_def del: small_fs_simps(5))

section \<open>Reading and writing\<close>

text \<open>
  C4. \<open>read\<close> returns the bytes of the file from the position of the handle on, at most as many
  as were asked for and none past the end, and moves the position behind them; the handle and
  the flash do not change otherwise.
\<close>

theorem read_returns_contents:
  assumes "file_ok stm32_ok st_mem stm32_writable s f" "connected f"
  shows "\<exists>m'. FileHandle_read (stm32_config P crc e keep) s f n =
      Inr (take n (drop (fh_pos f) (contents st_mem s f)),
        f\<lparr>fh_pos := fh_pos f + min n (file_len (fh_inode f) - fh_pos f)\<rparr>, s\<lparr>mem := m'\<rparr>)
    \<and> st_mem m' = st_mem (mem s)"
proof -
  from fs_stm32.handle_read_ok [OF assms, of P crc e keep n] obtain m' where
    "FileHandle_read (stm32_config P crc e keep) s f n =
      Inr (take n (drop (fh_pos f) (contents st_mem s f)),
        f\<lparr>fh_pos := fh_pos f + min n (file_len (fh_inode f) - fh_pos f)\<rparr>, s\<lparr>mem := m'\<rparr>)"
    "st_mem m' = st_mem (mem s)" by (auto simp: same_flash_def)
  then show ?thesis by blast
qed

text \<open>
  C2. \<open>write\<close> lays its bytes over the contents of the file at the position of the handle (at the
  end of the file in append mode), extends the file when they reach past its end, moves the
  position behind them and marks the handle as modified. It programs free pages only: every page
  that was in use before, of this file or another, still has its old contents.
\<close>

theorem write_overlays_contents:
  assumes "file_ok stm32_ok st_mem stm32_writable s f" "can_write s f (length d)"
  shows "\<exists>f' s'. FileHandle_write (stm32_config P crc e keep) s f d = Inr (length d, f', s')
    \<and> file_ok stm32_ok st_mem stm32_writable s' f'
    \<and> contents st_mem s' f' = overlay (contents st_mem s f) (write_pos f) d
    \<and> fh_pos f' = write_pos f + length d \<and> modified f' \<and> same_meta f f'
    \<and> file_len (fh_inode f') = max (write_pos f + length d) (file_len (fh_inode f))
    \<and> (\<forall>r. Suc r < filesystem_size (header s) \<and> r \<notin> elems (free_data_pages s) \<and> r \<notin> new_ids f \<longrightarrow>
         page_at (page_size (header s)) r (st_mem (mem s')) = page_at (page_size (header s)) r (st_mem (mem s)))"
proof -
  from fs_stm32.handle_write_ok [OF assms] obtain f' s' where
    "FileHandle_write (stm32_config P crc e keep) s f d = Inr (length d, f', s')"
    "written stm32_ok st_mem stm32_writable s (f\<lparr>fh_pos := write_pos f\<rparr>) d s' f'" by blast
  then show ?thesis by (intro exI [of _ f'] exI [of _ s']) (simp add: written_def old_pages_kept_def)
qed

text \<open>What was written is read back after a seek to where the write began.\<close>

theorem write_seek_read:
  assumes "file_ok stm32_ok st_mem stm32_writable s f" "can_write s f (length d)"
  shows "\<exists>f1 s1 f2 f3 s3. FileHandle_write (stm32_config P crc e keep) s f d = Inr (length d, f1, s1)
    \<and> FileHandle_seek s1 f1 (write_pos f) = Inr (True, f2, s1)
    \<and> FileHandle_read (stm32_config P crc e keep) s1 f2 (length d) = Inr (d, f3, s3)"
proof -
  from fs_stm32.handle_write_ok [OF assms] obtain f1 s1 where
    w: "FileHandle_write (stm32_config P crc e keep) s f d = Inr (length d, f1, s1)"
      "written stm32_ok st_mem stm32_writable s (f\<lparr>fh_pos := write_pos f\<rparr>) d s1 f1" by blast
  let ?f2 = "f1\<lparr>fh_pos := write_pos f\<rparr>"
  have le: "write_pos f \<le> file_len (fh_inode f1)" using w(2) by (simp add: written_def)
  have ok: "file_ok stm32_ok st_mem stm32_writable s1 ?f2"
    by (rule file_ok_pos [OF written_length [OF w(2)] le])
  have c: "connected ?f2" using w(2) assms(2) by (simp add: written_def same_meta_def can_write_def)
  have "length (contents st_mem s f) = file_len (fh_inode f)" by (rule contents_length [OF assms(1)])
  then have "take (length d) (drop (write_pos f) (overlay (contents st_mem s f) (write_pos f) d)) = d"
    using assms(1) by (simp add: overlay_def write_pos_def file_ok_def)
  then have "\<exists>m'. FileHandle_read (stm32_config P crc e keep) s1 ?f2 (length d) =
      Inr (d, ?f2\<lparr>fh_pos := write_pos f + min (length d) (file_len (fh_inode f1) - write_pos f)\<rparr>, s1\<lparr>mem := m'\<rparr>)"
    using fs_stm32.handle_read_ok [OF ok c, of P crc e keep "length d"] w(2) by (auto simp: written_def)
  with w(1) seek_inside [OF le, of s1] show ?thesis by blast
qed

text \<open>
  Thirty bytes do not fit the 22 bytes of an inode page of the sample: the first write goes to a
  data page.
\<close>

theorem read_returns_contents_witness:
  "\<exists>m'. FileHandle_read (stm32_config 0 (\<lambda>_. 7) LE False) (small_fs sample_flash) new_handle 5 =
     Inr ([], new_handle\<lparr>fh_pos := 0\<rparr>, (small_fs sample_flash)\<lparr>mem := m'\<rparr>) \<and> st_mem m' = erased 512"
proof -
  have "connected new_handle" by (simp add: new_handle_def)
  from read_returns_contents [OF empty_file_ok this, of 0 "\<lambda>_. 7" LE False 5] show ?thesis
    by (simp add: contents_def new_handle_def empty_handle_def default_inode_def sample_flash)
qed

theorem write_overlays_contents_witness:
  "\<exists>f' s'. FileHandle_write (stm32_config 0 (\<lambda>_. 7) LE False) (small_fs sample_flash) new_handle
       (replicate 30 5) = Inr (30, f', s')
     \<and> contents st_mem s' f' = replicate 30 5 \<and> file_len (fh_inode f') = 30"
proof -
  have "can_write (small_fs sample_flash) new_handle (length (replicate 30 (5 :: byte)))"
    by (simp add: empty_can_write)
  from write_overlays_contents [OF empty_file_ok this, of 0 "\<lambda>_. 7" LE False] obtain f' s' where
    "FileHandle_write (stm32_config 0 (\<lambda>_. 7) LE False) (small_fs sample_flash) new_handle
       (replicate 30 5) = Inr (30, f', s')"
    "contents st_mem s' f' = overlay (contents st_mem (small_fs sample_flash) new_handle) (write_pos new_handle)
       (replicate 30 5)"
    "file_len (fh_inode f') = max (write_pos new_handle + 30) (file_len (fh_inode new_handle))"
    by auto
  then show ?thesis
    by (simp add: contents_def new_handle_def empty_handle_def default_inode_def write_pos_def overlay_def)
qed

theorem write_seek_read_witness:
  "\<exists>f1 s1 f2 f3 s3. FileHandle_write (stm32_config 0 (\<lambda>_. 7) LE False) (small_fs sample_flash) new_handle
       (replicate 60 9) = Inr (60, f1, s1)
     \<and> FileHandle_seek s1 f1 0 = Inr (True, f2, s1)
     \<and> FileHandle_read (stm32_config 0 (\<lambda>_. 7) LE False) s1 f2 60 = Inr (replicate 60 9, f3, s3)"
proof -
  have "can_write (small_fs sample_flash) new_handle (length (replicate 60 (9 :: byte)))"
    by (simp add: empty_can_write)
  from write_seek_read [OF empty_file_ok this, of 0 "\<lambda>_. 7" LE False]
  show ?thesis by (simp add: write_pos_def new_handle_def empty_handle_def default_inode_def)
qed

end
