(* ===== verification/Files.thy ===== *)
theory Files
  imports FileIO
begin

text \<open>
  Files by name (\<open>src/base/SimpleFlashFsBase.h\<close>: \<open>find_file\<close> in its mapped and unmapped
  variants, \<open>open\<close>, \<open>delete_file\<close>, \<open>rename_file\<close> and their wrappers in \<open>FileHandle\<close>).
\<close>

section \<open>Looking up a name\<close>

text \<open>The two ways to get at an inode page whose checksum is right.\<close>

definition load_unmapped :: "'m config \<Rightarrow> 'm fs \<Rightarrow> nat \<Rightarrow> (byte list option \<times> 'm fs) res" where
  "load_unmapped c s i =
     bindE (read_page c s i (replicate (page_size (header s)) 0) True) (\<lambda>(err, page, s).
     Inr (if err = None then Some page else None, s))"

definition load_mapped :: "'m config \<Rightarrow> 'm fs \<Rightarrow> nat \<Rightarrow> (byte list option \<times> 'm fs) res" where
  "load_mapped c s i =
     bindE (read_page_mapped c s i (page_size (header s)) True) (\<lambda>(err, data).
     Inr (if err = None then data else None, s))"

text \<open>
  The first loop enters every inode into the table of versions. The handle of each round is a
  temporary: it is destroyed at the end of the round.
\<close>

fun scan_inodes ::
  "('m fs \<Rightarrow> nat \<Rightarrow> (byte list option \<times> 'm fs) res) \<Rightarrow> 'm config \<Rightarrow> 'm fs \<Rightarrow> nat list \<Rightarrow> 'm fs res" where
  "scan_inodes load c s [] = Inr s"
| "scan_inodes load c s (i # is) =
     bindE (load s i) (\<lambda>(data, s).
     case data of
       None \<Rightarrow> scan_inodes load c s is
     | Some page \<Rightarrow>
         bindE (get_inode c s page False) (\<lambda>f.
         let f = f\<lparr>fh_page := i\<rparr>
         in bindE (FileHandle_destroy c (snd (iv_storage_add s f)) f) (\<lambda>s.
            scan_inodes load c s is)))"

text \<open>The second loop looks at the newest version of every inode.\<close>

fun pick_file ::
  "('m fs \<Rightarrow> nat \<Rightarrow> (byte list option \<times> 'm fs) res) \<Rightarrow> 'm config \<Rightarrow> byte list \<Rightarrow> 'm fs \<Rightarrow> inode_version list \<Rightarrow>
   (file_handle \<times> 'm fs) res" where
  "pick_file load c name s [] = Inr (empty_handle, s)"
| "pick_file load c name s (iv # ivs) =
     bindE (load s (iv_page iv)) (\<lambda>(data, s).
     case data of
       None \<Rightarrow> pick_file load c name s ivs
     | Some page \<Rightarrow>
         bindE (get_inode c s page True) (\<lambda>f.
         let f = f\<lparr>fh_page := iv_page iv\<rparr>
         in if file_name (fh_inode f) \<noteq> [] \<and> file_name (fh_inode f) = name then Inr (f, s)
            else bindE (FileHandle_destroy c s f) (\<lambda>s. pick_file load c name s ivs)))"

definition find_file_with ::
  "('m fs \<Rightarrow> nat \<Rightarrow> (byte list option \<times> 'm fs) res) \<Rightarrow> 'm config \<Rightarrow> 'm fs \<Rightarrow> byte list \<Rightarrow>
   (file_handle \<times> 'm fs) res" where
  "find_file_with load c s name =
     bindE (scan_inodes load c (s\<lparr>iv_storage := []\<rparr>) [0..<max_inodes (header s)]) (\<lambda>s.
     pick_file load c name s (iv_storage s))"

definition find_file_unmapped :: "'m config \<Rightarrow> 'm fs \<Rightarrow> byte list \<Rightarrow> (file_handle \<times> 'm fs) res" where
  "find_file_unmapped c s name = find_file_with (load_unmapped c) c s name"

definition find_file_mapped :: "'m config \<Rightarrow> 'm fs \<Rightarrow> byte list \<Rightarrow> (file_handle \<times> 'm fs) res" where
  "find_file_mapped c s name = find_file_with (load_mapped c) c s name"

definition find_file :: "'m config \<Rightarrow> 'm fs \<Rightarrow> byte list \<Rightarrow> (file_handle \<times> 'm fs) res" where
  "find_file c s name =
     (if mem_can_map_read (flash c) (mem s) then find_file_mapped c s name else find_file_unmapped c s name)"

section \<open>Opening\<close>

record open_mode =
  mode_out :: bool
  mode_app :: bool
  mode_ate :: bool
  mode_trunc :: bool

definition handle_append_mode :: "open_mode \<Rightarrow> file_handle \<Rightarrow> file_handle" where
  "handle_append_mode m f =
     (let f = (if mode_app m then f\<lparr>append_mode := True\<rparr> else f)
      in if mode_ate m \<and> file_len (fh_inode f) > 0
         then f\<lparr>fh_pos := file_len (fh_inode f) - 1\<rparr> else f)"

text \<open>The branch for a name that does not exist.\<close>

definition open_new :: "'m config \<Rightarrow> 'm fs \<Rightarrow> byte list \<Rightarrow> open_mode \<Rightarrow> (file_handle \<times> 'm fs) res" where
  "open_new c s name m =
     (if \<not> mode_out m \<and> \<not> mode_app m then Inr (empty_handle, s)
      else bindE (allocate_free_inode_page c s) (\<lambda>(f, s).
        if \<not> connected f then Inr (empty_handle, s)
        else if length name > max_path_len (header s) then
          bindE (FileHandle_destroy c s f) (\<lambda>s. Inr (empty_handle, s))
        else
          let f = f\<lparr>modified := True, fh_inode := (fh_inode f)\<lparr>file_name := name,
                      file_name_len := length name mod 2 ^ 16\<rparr>\<rparr>
          in Inr (handle_append_mode m f, s)))"

text \<open>The branch that truncates: a new page, the old inode without its contents.\<close>

definition open_trunc :: "'m config \<Rightarrow> 'm fs \<Rightarrow> file_handle \<Rightarrow> (file_handle \<times> 'm fs) res" where
  "open_trunc c s f =
     bindE (allocate_free_inode_page c s) (\<lambda>(g, s).
     let g = (if connected g
              then g\<lparr>fh_inode := (fh_inode f)\<lparr>file_len := 0, pages := 0, data_pages := [], inode_data := []\<rparr>\<rparr>
              else empty_handle)
     in bindE (FileHandle_destroy c s f) (\<lambda>s. Inr (g, s)))"

definition open_file :: "'m config \<Rightarrow> 'm fs \<Rightarrow> byte list \<Rightarrow> open_mode \<Rightarrow> (file_handle \<times> 'm fs) res" where
  "open_file c s name m =
     bindE (find_file c s name) (\<lambda>(f, s).
     if \<not> connected f then open_new c s name m
     else if mode_trunc m then open_trunc c s f
     else Inr (handle_append_mode m f, s))"

section \<open>Deleting and renaming\<close>

definition delete_file :: "'m config \<Rightarrow> 'm fs \<Rightarrow> file_handle \<Rightarrow> (bool \<times> file_handle \<times> 'm fs) res" where
  "delete_file c s f =
     (let f = f\<lparr>modified := True, fh_inode := (fh_inode f)\<lparr>file_name := [], file_name_len := 0,
            pages := 0, data_pages := [], inode_data := [], file_len := 0\<rparr>\<rparr>
      in bindE (FileHandle_flush c s f) (\<lambda>(done, f, s).
         if \<not> done then Inr (False, f, s) else Inr (True, f\<lparr>connected := False\<rparr>, s)))"

text \<open>The handle of the file that had the new name is destroyed at the end of \<open>rename_file\<close>.\<close>

definition rename_file :: "'m config \<Rightarrow> 'm fs \<Rightarrow> file_handle \<Rightarrow> byte list \<Rightarrow> (bool \<times> file_handle \<times> 'm fs) res" where
  "rename_file c s f new_name =
     bindE (find_file c s new_name) (\<lambda>(other, s).
     bindE (if connected other then delete_file c s other else Inr (False, other, s)) (\<lambda>(_, other, s).
     let f = f\<lparr>modified := True, fh_inode := (fh_inode f)\<lparr>file_name := new_name,
            file_name_len := length new_name mod 2 ^ 16\<rparr>\<rparr>
     in bindE (FileHandle_flush c s f) (\<lambda>(_, f, s).
        bindE (FileHandle_destroy c s other) (\<lambda>s. Inr (True, f, s)))))"

definition FileHandle_delete_file :: "'m config \<Rightarrow> 'm fs \<Rightarrow> file_handle \<Rightarrow> (bool \<times> file_handle \<times> 'm fs) res" where
  "FileHandle_delete_file c s f = bindE (requireE Null_fs (connected f)) (\<lambda>_. delete_file c s f)"

definition FileHandle_rename_file ::
  "'m config \<Rightarrow> 'm fs \<Rightarrow> file_handle \<Rightarrow> byte list \<Rightarrow> (bool \<times> file_handle \<times> 'm fs) res" where
  "FileHandle_rename_file c s f new_name =
     bindE (requireE Null_fs (connected f)) (\<lambda>_. rename_file c s f new_name)"

end
