(* ===== verification/Dynamic.thy ===== *)
theory Dynamic
  imports Files Mount Crc
begin

text \<open>
  The classes on top of the base: \<open>create\<close> (the same text in
  \<open>src/static/SimpleFlashFsStatic.h\<close> and \<open>src/dynamic/SimpleFlashFsDynamic.cc\<close>), the listing of
  files of the static class, and what the dynamic class does when it mounts a flash: it
  collects the free data pages and erases outdated versions of inodes. \<open>SimpleFlashFsReadOnly\<close>
  (\<open>src_simple_flash_fs_tar\<close>) is the dynamic class with \<open>keeps_old_pages\<close>.
\<close>

section \<open>Creating a file system\<close>

text \<open>\<open>create\<close>, with the \<open>init\<close> of the class as an argument.\<close>

definition create ::
  "('m config \<Rightarrow> 'm fs \<Rightarrow> (bool \<times> 'm fs) res) \<Rightarrow> 'm config \<Rightarrow> 'm fs \<Rightarrow> header \<Rightarrow> (bool \<times> 'm fs) res" where
  "create init_fs c s h =
     (if mul64 (page_size h) (filesystem_size h) > mem_size (flash c) (mem s) then Inr (False, s)
      else if page_size h = 0 \<or> filesystem_size h = 0 then Inr (False, s)
      else if page_size h < MIN_PAGE_SIZE then Inr (False, s)
      else if filesystem_size h < 4 then Inr (False, s)
      else
        bindE (mem_erase (flash c) (mem s) 0 (mul64 (page_size h) (filesystem_size h))) (\<lambda>m.
        bindE (write_header c (s\<lparr>mem := m\<rparr>) h) (\<lambda>(done, s).
        if \<not> done then Inr (False, s) else init_fs c s)))"

definition static_create :: "'m config \<Rightarrow> 'm fs \<Rightarrow> header \<Rightarrow> (bool \<times> 'm fs) res" where
  "static_create c s h = create init c s h"

section \<open>Listing the files\<close>

text \<open>
  The loop over the newest versions; the callback gets the handle and may use the file system,
  its state \<open>x\<close> is passed along. A handle is destroyed at the end of its round.
\<close>

fun list_loop ::
  "'m config \<Rightarrow> (file_handle \<Rightarrow> bool) option \<Rightarrow>
   (file_handle \<Rightarrow> 'm fs \<Rightarrow> 'x \<Rightarrow> (bool \<times> file_handle \<times> 'm fs \<times> 'x) res) \<Rightarrow>
   'm fs \<Rightarrow> 'x \<Rightarrow> inode_version list \<Rightarrow> ('m fs \<times> 'x) res" where
  "list_loop c file_filter callback s x [] = Inr (s, x)"
| "list_loop c file_filter callback s x (iv # ivs) =
     bindE (load_unmapped c s (iv_page iv)) (\<lambda>(data, s).
     case data of
       None \<Rightarrow> list_loop c file_filter callback s x ivs
     | Some page \<Rightarrow>
         bindE (get_inode c s page True) (\<lambda>f.
         let f = f\<lparr>fh_page := iv_page iv\<rparr>
         in if file_name (fh_inode f) = [] \<or> (case file_filter of None \<Rightarrow> False | Some p \<Rightarrow> \<not> p f) then
              bindE (FileHandle_destroy c s f) (\<lambda>s. list_loop c file_filter callback s x ivs)
            else
              bindE (callback f s x) (\<lambda>(go_on, f, s, x).
              bindE (FileHandle_destroy c s f) (\<lambda>s.
              if go_on then list_loop c file_filter callback s x ivs else Inr (s, x)))))"

definition list_files ::
  "'m config \<Rightarrow> (file_handle \<Rightarrow> bool) option \<Rightarrow>
   (file_handle \<Rightarrow> 'm fs \<Rightarrow> 'x \<Rightarrow> (bool \<times> file_handle \<times> 'm fs \<times> 'x) res) \<Rightarrow>
   'm fs \<Rightarrow> 'x \<Rightarrow> ('m fs \<times> 'x) res" where
  "list_files c file_filter callback s x =
     bindE (scan_inodes (load_unmapped c) c (s\<lparr>iv_storage := []\<rparr>) [0..<max_inodes (header s)]) (\<lambda>s.
     list_loop c file_filter callback s x (iv_storage s))"

section \<open>Mounting with the dynamic class\<close>

text \<open>The pages between the inode pages and the end, less the header page.\<close>

definition all_data_pages :: "header \<Rightarrow> nat list" where
  "all_data_pages h = [max_inodes h..<sub64 (filesystem_size h) 1]"

definition fill_free_data_pages :: "'m fs \<Rightarrow> 'm fs" where
  "fill_free_data_pages s =
     s\<lparr>free_data_pages := foldl PageSet_unordered_insert (PageSet_clear (free_data_pages s))
         (all_data_pages (header s))\<rparr>"

text \<open>\<open>std::map\<close> from inode numbers to lists of handles, and its \<open>inodes[ number ].push_back\<close>.\<close>

fun map_push_back :: "nat \<Rightarrow> 'a \<Rightarrow> (nat \<times> 'a list) list \<Rightarrow> (nat \<times> 'a list) list" where
  "map_push_back k v [] = [(k, [v])]"
| "map_push_back k v ((k', vs) # m) =
     (if k = k' then (k', vs @ [v]) # m
      else if k < k' then (k, [v]) # (k', vs) # m
      else (k', vs) # map_push_back k v m)"

fun collect_inodes ::
  "'m config \<Rightarrow> 'm fs \<Rightarrow> (nat \<times> file_handle list) list \<Rightarrow> nat list \<Rightarrow>
   ((nat \<times> file_handle list) list \<times> 'm fs) res" where
  "collect_inodes c s inodes [] = Inr (inodes, s)"
| "collect_inodes c s inodes (i # is) =
     bindE (load_unmapped c s i) (\<lambda>(data, s).
     case data of
       None \<Rightarrow> collect_inodes c s inodes is
     | Some page \<Rightarrow>
         bindE (get_inode c s page False) (\<lambda>f.
         let f = f\<lparr>fh_page := i\<rparr>;
             s = s\<lparr>max_inode_number := max (max_inode_number s) (inode_number (fh_inode f))\<rparr>
         in collect_inodes c s (map_push_back (inode_number (fh_inode f)) f inodes) is))"

text \<open>
  \<open>while( list.size() > 1 )\<close>: the oldest version is erased against the next one, and its
  handle destroyed. \<open>std::list::sort\<close> is stable.
\<close>

fun erase_old_versions ::
  "'m config \<Rightarrow> 'm fs \<Rightarrow> file_handle list \<Rightarrow> (file_handle list \<times> 'm fs) res" where
  "erase_old_versions c s (f # g # fs) =
     bindE (erase_inode_and_unused_pages c s f g) (\<lambda>(f, s).
     bindE (FileHandle_destroy c s f) (\<lambda>s. erase_old_versions c s (g # fs)))"
| "erase_old_versions c s fs = Inr (fs, s)"

definition sort_versions :: "file_handle list \<Rightarrow> file_handle list" where
  "sort_versions fs = (if length fs > 1 then sort_key (\<lambda>f. inode_version_number (fh_inode f)) fs else fs)"

fun clear_old_inodes ::
  "'m config \<Rightarrow> 'm fs \<Rightarrow> (nat \<times> file_handle list) list \<Rightarrow> ((nat \<times> file_handle list) list \<times> 'm fs) res" where
  "clear_old_inodes c s [] = Inr ([], s)"
| "clear_old_inodes c s ((k, fs) # m) =
     bindE (erase_old_versions c s (sort_versions fs)) (\<lambda>(fs, s).
     bindE (clear_old_inodes c s m) (\<lambda>(m, s). Inr ((k, fs) # m, s)))"

definition take_used_pages :: "'m fs \<Rightarrow> file_handle \<Rightarrow> 'm fs" where
  "take_used_pages s f = s\<lparr>free_data_pages :=
     foldl (\<lambda>A p. snd (PageSet_erase A (page_id p))) (free_data_pages s) (data_pages (fh_inode f))\<rparr>"

fun destroy_all :: "'m config \<Rightarrow> 'm fs \<Rightarrow> file_handle list \<Rightarrow> 'm fs res" where
  "destroy_all c s [] = Inr s"
| "destroy_all c s (f # fs) = bindE (FileHandle_destroy c s f) (\<lambda>s. destroy_all c s fs)"

text \<open>
  The lists in the map are not empty, so \<open>list.front()\<close> exists. The handles left in the map are
  destroyed with it, here in the order of the keys; \<open>free_data_pages.size()\<close> in the debug
  output sorts the set.
\<close>

definition dynamic_read_all_free_data_pages :: "'m config \<Rightarrow> 'm fs \<Rightarrow> 'm fs res" where
  "dynamic_read_all_free_data_pages c s =
     bindE (collect_inodes c (fill_free_data_pages s) [] [0..<max_inodes (header s)]) (\<lambda>(inodes, s).
     bindE (clear_old_inodes c s inodes) (\<lambda>(inodes, s).
     let s = foldl (\<lambda>s (k, fs). take_used_pages s (hd fs)) s inodes;
         s = s\<lparr>free_data_pages := snd (PageSet_size (free_data_pages s))\<rparr>
     in destroy_all c s (concat (map snd inodes))))"

definition dynamic_init :: "'m config \<Rightarrow> 'm fs \<Rightarrow> (bool \<times> 'm fs) res" where
  "dynamic_init c s =
     bindE (init c s) (\<lambda>(done, s).
     if \<not> done then Inr (False, s)
     else bindE (dynamic_read_all_free_data_pages c s) (\<lambda>s. Inr (True, s)))"

definition dynamic_create :: "'m config \<Rightarrow> 'm fs \<Rightarrow> header \<Rightarrow> (bool \<times> 'm fs) res" where
  "dynamic_create c s h = create dynamic_init c s h"

fun get_all_inodes_loop ::
  "'m config \<Rightarrow> bool \<Rightarrow> 'm fs \<Rightarrow> file_handle list \<Rightarrow> nat list \<Rightarrow> (file_handle list \<times> 'm fs) res" where
  "get_all_inodes_loop c do_error_corrections s acc [] = Inr (acc, s)"
| "get_all_inodes_loop c do_error_corrections s acc (i # is) =
     bindE (load_unmapped c s i) (\<lambda>(data, s).
     case data of
       None \<Rightarrow> get_all_inodes_loop c do_error_corrections s acc is
     | Some page \<Rightarrow>
         bindE (get_inode c s page do_error_corrections) (\<lambda>f.
         get_all_inodes_loop c do_error_corrections s (acc @ [f\<lparr>fh_page := i\<rparr>]) is))"

definition get_all_inodes :: "'m config \<Rightarrow> 'm fs \<Rightarrow> bool \<Rightarrow> (file_handle list \<times> 'm fs) res" where
  "get_all_inodes c s do_error_corrections =
     get_all_inodes_loop c do_error_corrections s [] [0..<max_inodes (header s)]"

text \<open>The configuration of the dynamic class: no page size limit, and the table driven CRC.\<close>

definition dynamic_config :: "endianness \<Rightarrow> 'm flash_ops \<Rightarrow> 'm config" where
  "dynamic_config e F = \<lparr>PAGE_SIZE = 0, crc32 = crcFast (crcTable (crcInit crc_state0)), native = e, flash = F,
     keeps_old_pages = False\<rparr>"

definition read_only_config :: "endianness \<Rightarrow> 'm flash_ops \<Rightarrow> 'm config" where
  "read_only_config e F = (dynamic_config e F)\<lparr>keeps_old_pages := True\<rparr>"

end
