(* ===== verification/FileInterface.thy ===== *)
theory FileInterface
  imports Prelude
begin

text \<open>
  The interface \<open>FileInterface\<close> (\<open>src/SimpleFlashFsFileInterface.h\<close>) as a record of its virtual
  member functions over the state of the file, and the contract of an open file that the users
  of the interface rely on.
\<close>

section \<open>The virtual functions\<close>

text \<open>
  \<open>fi_read\<close> returns the bytes, of which the source returns the number; \<open>fi_valid\<close> is the
  negation of \<open>operator!\<close>.
\<close>

record 's file_ops =
  fi_valid :: "'s \<Rightarrow> bool"
  fi_write :: "'s \<Rightarrow> byte list \<Rightarrow> (nat \<times> 's) res"
  fi_read :: "'s \<Rightarrow> nat \<Rightarrow> (byte list \<times> 's) res"
  fi_flush :: "'s \<Rightarrow> (bool \<times> 's) res"
  fi_tellg :: "'s \<Rightarrow> nat"
  fi_file_size :: "'s \<Rightarrow> nat"
  fi_eof :: "'s \<Rightarrow> bool"
  fi_seek :: "'s \<Rightarrow> nat \<Rightarrow> (bool \<times> 's) res"
  fi_delete_file :: "'s \<Rightarrow> (bool \<times> 's) res"
  fi_rename_file :: "'s \<Rightarrow> byte list \<Rightarrow> (bool \<times> 's) res"
  fi_truncate :: "'s \<Rightarrow> nat \<Rightarrow> (bool \<times> 's) res"
  fi_get_file_name :: "'s \<Rightarrow> byte list"
  fi_is_append_mode :: "'s \<Rightarrow> bool"

section \<open>The contract of an open file\<close>

text \<open>
  A file is a list of bytes \<open>cont\<close> and a position in it. \<open>can s p n\<close> says that \<open>n\<close> bytes may be
  written at position \<open>p\<close>; reading and seeking do not take that away.
\<close>

locale open_file_contract =
  fixes F :: "'s file_ops"
    and good :: "'s \<Rightarrow> bool"
    and cont :: "'s \<Rightarrow> byte list"
    and can :: "'s \<Rightarrow> nat \<Rightarrow> nat \<Rightarrow> bool"
  assumes size_eq: "good s \<Longrightarrow> fi_file_size F s = length (cont s)"
    and size_bound: "good s \<Longrightarrow> length (cont s) < 2 ^ 62"
    and tell_le: "good s \<Longrightarrow> fi_tellg F s \<le> length (cont s)"
    and no_append: "good s \<Longrightarrow> \<not> fi_is_append_mode F s"
    and seek_ok: "good s \<Longrightarrow> p \<le> length (cont s) \<Longrightarrow> \<exists>s'. fi_seek F s p = Inr (True, s')
      \<and> good s' \<and> cont s' = cont s \<and> fi_tellg F s' = p \<and> can s' = can s"
    and read_ok: "good s \<Longrightarrow> \<exists>s'. fi_read F s n = Inr (take n (drop (fi_tellg F s) (cont s)), s')
      \<and> good s' \<and> cont s' = cont s \<and> fi_tellg F s' = fi_tellg F s + min n (length (cont s) - fi_tellg F s)
      \<and> can s' = can s"
    and write_ok: "good s \<Longrightarrow> can s (fi_tellg F s) (length d) \<Longrightarrow> \<exists>s'. fi_write F s d = Inr (length d, s')
      \<and> good s' \<and> cont s' = overlay (cont s) (fi_tellg F s) d \<and> fi_tellg F s' = fi_tellg F s + length d"
    and eof_ok: "good s \<Longrightarrow> Suc (fi_tellg F s) < length (cont s) \<Longrightarrow> \<not> fi_eof F s"
begin

text \<open>A seek and a read, and a seek and a write.\<close>

lemma seek_read:
  assumes "good s" "p \<le> length (cont s)"
  shows "\<exists>s1 s2. fi_seek F s p = Inr (True, s1) \<and> fi_tellg F s1 = p \<and> good s1 \<and> cont s1 = cont s
    \<and> fi_read F s1 n = Inr (take n (drop p (cont s)), s2)
    \<and> good s2 \<and> cont s2 = cont s \<and> fi_tellg F s2 = p + min n (length (cont s) - p) \<and> can s2 = can s"
proof -
  from seek_ok [OF assms] obtain s1 where
    s1: "fi_seek F s p = Inr (True, s1)" "good s1" "cont s1 = cont s" "fi_tellg F s1 = p" "can s1 = can s" by blast
  from read_ok [OF s1(2), of n] show ?thesis using s1 by auto
qed

lemma seek_write:
  assumes "good s" "p \<le> length (cont s)" "can s p (length d)"
  shows "\<exists>s1 s2. fi_seek F s p = Inr (True, s1) \<and> fi_write F s1 d = Inr (length d, s2)
    \<and> good s2 \<and> cont s2 = overlay (cont s) p d \<and> fi_tellg F s2 = p + length d"
proof -
  from seek_ok [OF assms(1,2)] obtain s1 where
    s1: "fi_seek F s p = Inr (True, s1)" "good s1" "cont s1 = cont s" "fi_tellg F s1 = p" "can s1 = can s" by blast
  with write_ok [OF s1(2), of d] assms(3) show ?thesis by auto
qed

end

text \<open>
  A file that is valid while it is in order, and one that can grow up to \<open>N\<close> bytes whatever is
  done with it in between.
\<close>

locale connected_file = open_file_contract F good cont can
  for F :: "'s file_ops" and good :: "'s \<Rightarrow> bool" and cont :: "'s \<Rightarrow> byte list"
    and can :: "'s \<Rightarrow> nat \<Rightarrow> nat \<Rightarrow> bool" +
  assumes good_valid: "good s \<Longrightarrow> fi_valid F s"

locale bounded_file = connected_file F good cont "\<lambda>_ p n. p + n \<le> N"
  for F :: "'s file_ops" and good :: "'s \<Rightarrow> bool" and cont :: "'s \<Rightarrow> byte list" and N :: nat

end
