(* ===== verification/FileBuffer.thy ===== *)
theory FileBuffer
  imports FileInterface
begin

text \<open>
  A buffer in front of a file (\<open>src_2face/SimpleFlashFsFileBuffer.h\<close> and \<open>.cc\<close>). The buffer holds
  a piece of the file that was read, or bytes that are still to be written.
\<close>

section \<open>State\<close>

text \<open>
  \<open>fb_data\<close> is the memory of \<open>buffer\<close>. Every span the source stores in \<open>current_buffer\<close> starts at
  the first byte of it, so its length \<open>fb_len\<close> is kept; it is empty when that is zero.
\<close>

record 's file_buffer =
  fb_file :: 's
  fb_data :: "byte list"
  fb_len :: nat
  fb_start :: nat
  fb_pos :: nat
  fb_modified :: bool

definition FileBuffer :: "'s \<Rightarrow> byte list \<Rightarrow> 's file_buffer" where
  "FileBuffer file buf = \<lparr>fb_file = file, fb_data = buf, fb_len = 0, fb_start = 0, fb_pos = 0,
     fb_modified = False\<rparr>"

definition get_buffer_size :: "'s file_buffer \<Rightarrow> nat" where
  "get_buffer_size b = length (fb_data b)"

text \<open>\<open>current_buffer.subspan( p, n )\<close> must lie inside of \<open>current_buffer\<close>.\<close>

definition current_subspan :: "'s file_buffer \<Rightarrow> nat \<Rightarrow> nat \<Rightarrow> byte list res" where
  "current_subspan b p n = bindE (requireE Undefined (p + n \<le> fb_len b)) (\<lambda>_. memcpy_from (fb_data b) p n)"

text \<open>\<open>current_buffer = buffer.subspan( 0, n )\<close>.\<close>

definition set_current :: "'s file_buffer \<Rightarrow> nat \<Rightarrow> 's file_buffer res" where
  "set_current b n = bindE (requireE Undefined (n \<le> length (fb_data b))) (\<lambda>_. Inr (b\<lparr>fb_len := n\<rparr>))"

section \<open>Position and size\<close>

definition FileBuffer_valid :: "'s file_ops \<Rightarrow> 's file_buffer \<Rightarrow> bool" where
  "FileBuffer_valid F b = fi_valid F (fb_file b)"

definition FileBuffer_tellg :: "'s file_ops \<Rightarrow> 's file_buffer \<Rightarrow> nat" where
  "FileBuffer_tellg F b = (if fb_len b \<noteq> 0 then add64 (fb_start b) (fb_pos b) else fi_tellg F (fb_file b))"

definition FileBuffer_file_size :: "'s file_ops \<Rightarrow> 's file_buffer \<Rightarrow> nat" where
  "FileBuffer_file_size F b =
     (if fb_len b \<noteq> 0 \<and> fb_modified b then max (add64 (fb_start b) (fb_len b)) (fi_file_size F (fb_file b))
      else max (add64 (fb_start b) (fb_pos b)) (fi_file_size F (fb_file b)))"

definition FileBuffer_eof :: "'s file_ops \<Rightarrow> 's file_buffer \<Rightarrow> bool" where
  "FileBuffer_eof F b =
     (if fb_len b \<noteq> 0 then add64 (fb_start b) (fb_pos b) \<ge> FileBuffer_file_size F b else fi_eof F (fb_file b))"

section \<open>Writing the buffer back\<close>

definition flush_buffer :: "'s file_ops \<Rightarrow> 's file_buffer \<Rightarrow> (bool \<times> 's file_buffer) res" where
  "flush_buffer F b =
     (if fb_modified b then
        bindE (fi_seek F (fb_file b) (fb_start b)) (\<lambda>(_, file).
        bindE (fi_write F file (take (fb_len b) (fb_data b))) (\<lambda>(n, file).
        if n \<noteq> fb_len b then Inr (False, b\<lparr>fb_file := file\<rparr>)
        else Inr (True, b\<lparr>fb_file := file, fb_modified := False\<rparr>)))
      else Inr (True, b))"

definition discard_buffer :: "'s file_ops \<Rightarrow> 's file_buffer \<Rightarrow> (bool \<times> 's file_buffer) res" where
  "discard_buffer F b =
     bindE (flush_buffer F b) (\<lambda>(done, b).
     if \<not> done then Inr (False, b) else Inr (True, b\<lparr>fb_pos := 0, fb_start := 0, fb_len := 0\<rparr>))"

definition FileBuffer_flush :: "'s file_ops \<Rightarrow> 's file_buffer \<Rightarrow> (bool \<times> 's file_buffer) res" where
  "FileBuffer_flush F b =
     bindE (flush_buffer F b) (\<lambda>(done, b).
     if \<not> done then Inr (False, b)
     else bindE (fi_flush F (fb_file b)) (\<lambda>(done, file). Inr (done, b\<lparr>fb_file := file\<rparr>)))"

text \<open>The destructor, and the one of \<open>AutoDiscard\<close>; \<open>None\<close> is a guard that was released.\<close>

definition FileBuffer_destroy :: "'s file_ops \<Rightarrow> 's file_buffer \<Rightarrow> 's res" where
  "FileBuffer_destroy F b = noexceptE (bindE (FileBuffer_flush F b) (\<lambda>(_, b). Inr (fb_file b)))"

definition AutoDiscard_destroy :: "'s file_ops \<Rightarrow> 's file_buffer option \<Rightarrow> 's file_buffer option res" where
  "AutoDiscard_destroy F guard =
     (case guard of None \<Rightarrow> Inr None | Some b \<Rightarrow> noexceptE (bindE (discard_buffer F b) (\<lambda>(_, b). Inr (Some b))))"

definition FileBuffer_truncate :: "'s file_ops \<Rightarrow> 's file_buffer \<Rightarrow> nat \<Rightarrow> (bool \<times> 's file_buffer) res" where
  "FileBuffer_truncate F b n =
     bindE (discard_buffer F b) (\<lambda>(done, b).
     if \<not> done then Inr (False, b)
     else bindE (fi_truncate F (fb_file b) n) (\<lambda>(done, file). Inr (done, b\<lparr>fb_file := file\<rparr>)))"

definition FileBuffer_delete_file :: "'s file_ops \<Rightarrow> 's file_buffer \<Rightarrow> (bool \<times> 's file_buffer) res" where
  "FileBuffer_delete_file F b =
     bindE (fi_delete_file F (fb_file b)) (\<lambda>(done, file). Inr (done, b\<lparr>fb_file := file\<rparr>))"

definition FileBuffer_rename_file ::
  "'s file_ops \<Rightarrow> 's file_buffer \<Rightarrow> byte list \<Rightarrow> (bool \<times> 's file_buffer) res" where
  "FileBuffer_rename_file F b name =
     bindE (fi_rename_file F (fb_file b) name) (\<lambda>(done, file). Inr (done, b\<lparr>fb_file := file\<rparr>))"

section \<open>Reading\<close>

text \<open>
  The first computed size of the source is overwritten by the second. A read that comes up short
  discards the buffer.
\<close>

definition read_to_buffer :: "'s file_ops \<Rightarrow> 's file_buffer \<Rightarrow> nat \<Rightarrow> (bool \<times> 's file_buffer) res" where
  "read_to_buffer F b sz =
     (let file = fb_file b; b = b\<lparr>fb_start := fi_tellg F file\<rparr>;
          size_to_read = min (sub64 (fi_file_size F file) (fi_tellg F file)) (length (fb_data b))
      in if size_to_read = 0 then Inr (False, b)
         else
           bindE (fi_read F file size_to_read) (\<lambda>(d, file).
           bindE (memcpy_to (fb_data b) 0 d) (\<lambda>data.
           let b = b\<lparr>fb_len := size_to_read, fb_file := file, fb_data := data\<rparr>
           in if length d \<noteq> size_to_read then bindE (discard_buffer F b) (\<lambda>(_, b). Inr (False, b))
              else Inr (True, b\<lparr>fb_pos := (if size_to_read < sz then size_to_read else sz)\<rparr>))))"

text \<open>\<open>read( size )\<close>: a view of the buffer.\<close>

definition read_view :: "'s file_ops \<Rightarrow> 's file_buffer \<Rightarrow> nat \<Rightarrow> (byte list \<times> 's file_buffer) res" where
  "read_view F b sz =
     (if sz > length (fb_data b) then Inr ([], b)
      else if fb_len b \<noteq> 0 \<and> add64 (fb_pos b) sz < fb_len b then
        bindE (current_subspan b (fb_pos b) sz) (\<lambda>d. Inr (d, b\<lparr>fb_pos := add64 (fb_pos b) sz\<rparr>))
      else if fb_len b \<noteq> 0 \<and> add64 (fb_start b) (fb_len b) \<ge> FileBuffer_file_size F b then
        let size_to_read = min sz (sub64 (fb_len b) (fb_pos b))
        in bindE (current_subspan b (fb_pos b) size_to_read) (\<lambda>d.
           Inr (d, b\<lparr>fb_pos := add64 (fb_pos b) size_to_read\<rparr>))
      else
        bindE (if fb_len b \<noteq> 0 then
                 let pos_in_file = add64 (fb_start b) (fb_pos b)
                 in bindE (discard_buffer F b) (\<lambda>(done, b).
                    if \<not> done then Inr (False, b)
                    else bindE (fi_seek F (fb_file b) pos_in_file) (\<lambda>(_, file).
                         Inr (True, b\<lparr>fb_file := file\<rparr>)))
               else Inr (True, b)) (\<lambda>(done, b).
        if \<not> done then Inr ([], b)
        else bindE (read_to_buffer F b sz) (\<lambda>(done, b).
             if \<not> done then Inr ([], b)
             else bindE (current_subspan b 0 (min sz (fb_len b))) (\<lambda>d. Inr (d, b)))))"

text \<open>\<open>read( data, size )\<close>.\<close>

definition FileBuffer_read :: "'s file_ops \<Rightarrow> 's file_buffer \<Rightarrow> nat \<Rightarrow> (byte list \<times> 's file_buffer) res" where
  "FileBuffer_read F b sz =
     (if sz > length (fb_data b) then
        bindE (discard_buffer F b) (\<lambda>(done, b).
        if \<not> done then Inr ([], b)
        else bindE (fi_read F (fb_file b) sz) (\<lambda>(d, file). Inr (d, b\<lparr>fb_file := file\<rparr>)))
      else read_view F b sz)"

definition get_char :: "'s file_ops \<Rightarrow> 's file_buffer \<Rightarrow> (byte option \<times> 's file_buffer) res" where
  "get_char F b = bindE (read_view F b 1) (\<lambda>(d, b). Inr (if d = [] then None else Some (hd d), b))"

section \<open>Seeking\<close>

definition FileBuffer_seek :: "'s file_ops \<Rightarrow> 's file_buffer \<Rightarrow> nat \<Rightarrow> (bool \<times> 's file_buffer) res" where
  "FileBuffer_seek F b p =
     (if fb_len b \<noteq> 0 \<and> fb_start b \<le> p \<and> p < add64 (fb_start b) (fb_len b) then
        bindE (fi_seek F (fb_file b) p) (\<lambda>(done, file).
        Inr (done, b\<lparr>fb_pos := sub64 p (fb_start b), fb_file := file\<rparr>))
      else if fi_tellg F (fb_file b) = p \<and> (fb_len b = 0 \<or> \<not> fb_modified b) then Inr (True, b)
      else
        bindE (discard_buffer F b) (\<lambda>(done, b).
        if \<not> done then Inr (False, b)
        else bindE (fi_seek F (fb_file b) p) (\<lambda>(done, file). Inr (done, b\<lparr>fb_file := file\<rparr>))))"

section \<open>Writing\<close>

text \<open>The last branch of \<open>write\<close>, for an empty buffer.\<close>

definition write_empty :: "'s file_ops \<Rightarrow> 's file_buffer \<Rightarrow> byte list \<Rightarrow> (nat \<times> 's file_buffer) res" where
  "write_empty F b d =
     bindE (set_current b (length d)) (\<lambda>b.
     bindE (memcpy_to (fb_data b) 0 d) (\<lambda>data.
     Inr (length d, b\<lparr>fb_start := fi_tellg F (fb_file b), fb_data := data, fb_modified := True,
       fb_pos := length d\<rparr>)))"

text \<open>
  The branch for a buffer in use. The size of \<open>current_buffer\<close> becomes \<open>pos + size\<close> whenever that
  leaves room in the buffer, or when \<open>pos\<close> is at its end and the subtraction wraps. The recursive
  call finds the buffer empty and the file not in append mode, or with nothing to discard.
\<close>

definition write_current :: "'s file_ops \<Rightarrow> 's file_buffer \<Rightarrow> byte list \<Rightarrow> (nat \<times> 's file_buffer) res" where
  "write_current F b d =
     (let n = length d
      in bindE (if sub64 (length (fb_data b)) (add64 (fb_pos b) 1) > n
                then set_current b (add64 (fb_pos b) n) else Inr b) (\<lambda>b.
         if add64 (fb_pos b) n \<le> fb_len b then
           bindE (requireE Undefined (fb_pos b < fb_len b)) (\<lambda>_.
           bindE (memcpy_to (fb_data b) (fb_pos b) d) (\<lambda>data.
           Inr (n, b\<lparr>fb_data := data, fb_modified := True, fb_pos := add64 (fb_pos b) n\<rparr>)))
         else
           let pos_in_file = add64 (fb_start b) (fb_pos b)
           in bindE (discard_buffer F b) (\<lambda>(done, b).
              if \<not> done then Inr (0, b)
              else bindE (fi_seek F (fb_file b) pos_in_file) (\<lambda>(done, file).
                   let b = b\<lparr>fb_file := file\<rparr>
                   in if \<not> done then Inr (0, b) else write_empty F b d))))"

definition FileBuffer_write :: "'s file_ops \<Rightarrow> 's file_buffer \<Rightarrow> byte list \<Rightarrow> (nat \<times> 's file_buffer) res" where
  "FileBuffer_write F b d =
     (if length d > length (fb_data b) then
        let pos_in_file = fi_tellg F (fb_file b)
        in bindE (discard_buffer F b) (\<lambda>(done, b).
           if \<not> done then Inr (0, b)
           else bindE (fi_seek F (fb_file b) pos_in_file) (\<lambda>(done, file).
                let b = b\<lparr>fb_file := file\<rparr>
                in if \<not> done then Inr (0, b)
                   else bindE (fi_write F file d) (\<lambda>(n, file). Inr (n, b\<lparr>fb_file := file\<rparr>))))
      else
        bindE (if fb_len b \<noteq> 0 \<and> \<not> fb_modified b \<and> fi_is_append_mode F (fb_file b)
               then discard_buffer F b else Inr (True, b)) (\<lambda>(done, b).
        if \<not> done then Inr (0, b)
        else if fb_len b \<noteq> 0 then write_current F b d else write_empty F b d))"

section \<open>Lines\<close>

text \<open>
  The string the line is put in is a template argument, of a class that is not part of the
  repository: its capacity and its \<open>push_back\<close>, which may throw when the string is full.
\<close>

record string_class =
  str_capacity :: "byte list \<Rightarrow> nat"
  str_push_back :: "byte list \<Rightarrow> byte \<Rightarrow> byte list res"

text \<open>The loop over the bytes of a piece: up to a line feed, whose index is returned.\<close>

fun scan_line :: "string_class \<Rightarrow> nat \<Rightarrow> byte list \<Rightarrow> byte list \<Rightarrow> (nat option \<times> byte list) res" where
  "scan_line S i ret [] = Inr (None, ret)"
| "scan_line S i ret (x # xs) =
     (if x = 10 then Inr (Some i, ret)
      else bindE (str_push_back S ret x) (\<lambda>ret. scan_line S (Suc i) ret xs))"

text \<open>
  The loop of \<open>get_line\<close>. Every round that goes on has read a byte, so the number of bytes left in
  the file bounds the rounds; the first argument counts them.
\<close>

fun get_line_loop :: "nat \<Rightarrow> string_class \<Rightarrow> 's file_ops \<Rightarrow> 's file_buffer \<Rightarrow> byte list \<Rightarrow>
    (byte list option \<times> 's file_buffer) res option" where
  "get_line_loop 0 S F b ret = None"
| "get_line_loop (Suc k) S F b ret =
     (let finish = (\<lambda>b. Some (Inr (if ret \<noteq> [] then Some ret else None, b)))
      in if FileBuffer_eof F b then finish b
         else
           let n = get_buffer_size b;
               size_to_read = (if str_capacity S ret > 0 then min (str_capacity S ret) n else n)
           in if size_to_read = 0 then finish b
              else
                let pos_before_read = FileBuffer_tellg F b
                in case read_view F b size_to_read of
                     Inl e \<Rightarrow> Some (Inl e)
                   | Inr (d, b) \<Rightarrow>
                       if d = [] then finish b
                       else (case scan_line S 0 ret d of
                           Inl e \<Rightarrow> Some (Inl e)
                         | Inr (Some i, ret) \<Rightarrow>
                             Some (bindE (FileBuffer_seek F b (add64 (add64 pos_before_read i) 1)) (\<lambda>(_, b).
                             Inr (Some ret, b)))
                         | Inr (None, ret) \<Rightarrow> get_line_loop k S F b ret))"

definition get_line :: "string_class \<Rightarrow> 's file_ops \<Rightarrow> 's file_buffer \<Rightarrow>
    (byte list option \<times> 's file_buffer) res option" where
  "get_line S F b = get_line_loop (Suc (Suc (FileBuffer_file_size F b))) S F b []"

end
