(* ===== verification/BufferSpec.thy ===== *)
theory BufferSpec
  imports FileBuffer
begin

text \<open>
  What the buffer promises when the file keeps its contract: reads give the bytes of the file
  with the buffered bytes laid over it, writes change those, and writing the buffer back makes
  them the contents of the file.
\<close>

section \<open>The bytes behind a buffer\<close>

definition buffered :: "'s file_buffer \<Rightarrow> byte list" where
  "buffered b = take (fb_len b) (fb_data b)"

definition view :: "('s \<Rightarrow> byte list) \<Rightarrow> 's file_buffer \<Rightarrow> byte list" where
  "view cont b = (if fb_modified b then overlay (cont (fb_file b)) (fb_start b) (buffered b)
     else cont (fb_file b))"

definition fb_ok :: "('s \<Rightarrow> bool) \<Rightarrow> ('s \<Rightarrow> byte list) \<Rightarrow> 's file_buffer \<Rightarrow> bool" where
  "fb_ok good cont b \<longleftrightarrow> good (fb_file b) \<and> length (fb_data b) < 2 ^ 62
     \<and> fb_len b \<le> length (fb_data b) \<and> fb_pos b \<le> fb_len b
     \<and> fb_start b \<le> length (cont (fb_file b))
     \<and> (fb_len b = 0 \<longrightarrow> \<not> fb_modified b)
     \<and> (\<not> fb_modified b \<longrightarrow> fb_start b + fb_len b \<le> length (cont (fb_file b))
          \<and> buffered b = slice (fb_start b) (fb_len b) (cont (fb_file b)))"

text \<open>The buffered bytes can be written back.\<close>

definition savable :: "('s \<Rightarrow> nat \<Rightarrow> nat \<Rightarrow> bool) \<Rightarrow> 's file_buffer \<Rightarrow> bool" where
  "savable can b \<longleftrightarrow> fb_modified b \<longrightarrow> can (fb_file b) (fb_start b) (fb_len b)"

text \<open>The file does not stand before the buffered piece; only then can \<open>seek\<close> go back for certain.\<close>

definition anchored :: "'s file_ops \<Rightarrow> 's file_buffer \<Rightarrow> bool" where
  "anchored F b \<longleftrightarrow> fb_len b \<noteq> 0 \<longrightarrow> fb_start b \<le> fi_tellg F (fb_file b)"

lemma length_buffered [simp]: "fb_len b \<le> length (fb_data b) \<Longrightarrow> length (buffered b) = fb_len b"
  by (simp add: buffered_def)

lemma length_overlay_max: "a \<le> length C \<Longrightarrow> length (overlay C a d) = max (a + length d) (length C)"
  by (auto simp: overlay_def max_def)

lemma length_view:
  assumes "fb_ok good cont b"
  shows "length (view cont b) = (if fb_modified b then max (fb_start b + fb_len b) (length (cont (fb_file b)))
    else length (cont (fb_file b)))"
  using assms by (auto simp: view_def fb_ok_def length_overlay_max)

lemma drop_overlay:
  assumes "a \<le> length C" "k \<le> length d"
  shows "drop (a + k) (overlay C a d) = drop k d @ drop (a + length d) C"
  using assms by (simp add: overlay_def)

text \<open>What the buffer holds is a piece of the view.\<close>

lemma view_piece:
  assumes "fb_ok good cont b" "p + n \<le> fb_len b"
  shows "slice p n (fb_data b) = take n (drop (fb_start b + p) (view cont b))"
proof -
  have "slice p n (fb_data b) = take n (drop p (buffered b))"
    using assms(2) by (simp add: slice_def buffered_def drop_take min_def)
  moreover have "take n (drop p (buffered b)) = take n (drop (fb_start b + p) (view cont b))"
  proof (cases "fb_modified b")
    case True
    then show ?thesis using assms by (simp add: view_def fb_ok_def drop_overlay)
  next
    case False
    then have "buffered b = slice (fb_start b) (fb_len b) (cont (fb_file b))" using assms by (simp add: fb_ok_def)
    then have "take n (drop p (buffered b)) = take n (drop p (take (fb_len b) (drop (fb_start b) (cont (fb_file b)))))"
      by (simp add: slice_def)
    also have "\<dots> = take n (drop (fb_start b + p) (cont (fb_file b)))"
      using assms(2) by (simp add: drop_take min_def add.commute)
    finally show ?thesis using False by (simp add: view_def)
  qed
  ultimately show ?thesis by simp
qed

text \<open>Two writes over a file, the second into the end of the first, and writes of what is there.\<close>

lemma overlay_overlay:
  assumes "a \<le> length C" "k \<le> length x" "length x \<le> k + length d"
  shows "overlay (overlay C a x) (a + k) d = overlay C a (take k x @ d)"
proof -
  have "drop (k + length d) x = []" using assms(3) by simp
  then show ?thesis using assms by (simp add: overlay_def) (simp add: add.commute add.left_commute)
qed

lemma overlay_slice:
  assumes "a + m \<le> length C" "k \<le> m"
  shows "overlay C a (take k (slice a m C) @ d) = overlay C (a + k) d"
  using assms by (simp add: overlay_def slice_def take_add min_def add.assoc)

lemma overlay_slice_inside:
  assumes "a + m \<le> length C" "k + length d \<le> m"
  shows "overlay C a (overlay (slice a m C) k d) = overlay C (a + k) d"
proof -
  have "drop (k + length d) (slice a m C) @ drop (a + m) C = drop (k + length d) (drop a C)"
    using assms append_take_drop_id [of "m - (k + length d)" "drop (a + k + length d) C"]
    by (simp add: slice_def drop_take) (simp add: add.commute add.left_commute)
  then show ?thesis using assms by (simp add: overlay_def slice_def take_add min_def add.commute add.left_commute)
qed

lemma take_overlay: "k + length d \<le> m \<Longrightarrow> m \<le> length x \<Longrightarrow> take m (overlay x k d) = overlay (take m x) k d"
  by (intro nth_equalityI) (auto simp: nth_overlay)

text \<open>The string holds the line: every \<open>push_back\<close> on the way appends.\<close>

definition holds_line :: "string_class \<Rightarrow> byte list \<Rightarrow> bool" where
  "holds_line S w \<longleftrightarrow> (\<forall>u x v. w = u @ x # v \<longrightarrow> str_push_back S u x = Inr (u @ [x]))"

lemma scan_line_eq: "holds_line S (ret @ takeWhile (\<lambda>x. x \<noteq> 10) xs) \<Longrightarrow> scan_line S i ret xs =
  Inr (if 10 \<in> set xs then (Some (i + length (takeWhile (\<lambda>x. x \<noteq> 10) xs)), ret @ takeWhile (\<lambda>x. x \<noteq> 10) xs)
   else (None, ret @ xs))"
proof (induction xs arbitrary: i ret)
  case (Cons x xs)
  show ?case
  proof (cases "x = 10")
    case False
    then have "str_push_back S ret x = Inr (ret @ [x])" using Cons.prems by (simp add: holds_line_def)
    moreover have "holds_line S ((ret @ [x]) @ takeWhile (\<lambda>x. x \<noteq> 10) xs)" using Cons.prems False by simp
    ultimately show ?thesis using Cons.IH [of "ret @ [x]" "Suc i"] False by auto
  qed simp
qed simp

lemma holds_line_prefix: "holds_line S (u @ v) \<Longrightarrow> holds_line S u"
  by (auto simp: holds_line_def)

lemma takeWhile_less: "a \<in> set xs \<Longrightarrow> length (takeWhile (\<lambda>x. x \<noteq> a) xs) < length xs"
  by (induction xs) auto

context open_file_contract
begin

lemma bounds:
  assumes "fb_ok good cont b"
  shows "fb_start b + fb_len b < 2 ^ 63" "fb_start b + fb_pos b < 2 ^ 63" "fi_tellg F (fb_file b) < 2 ^ 62"
    "fi_tellg F (fb_file b) \<le> length (cont (fb_file b))" "length (cont (fb_file b)) < 2 ^ 62"
  using assms size_bound [of "fb_file b"] tell_le [of "fb_file b"] by (auto simp: fb_ok_def)

lemma tellg_eq:
  assumes "fb_ok good cont b"
  shows "FileBuffer_tellg F b = (if fb_len b \<noteq> 0 then fb_start b + fb_pos b else fi_tellg F (fb_file b))"
    "FileBuffer_tellg F b \<le> length (view cont b)"
  using assms bounds [OF assms] length_view [OF assms]
  by (auto simp: FileBuffer_tellg_def add64_small fb_ok_def)

lemma file_size_eq:
  assumes "fb_ok good cont b"
  shows "FileBuffer_file_size F b = length (view cont b)"
  using assms bounds [OF assms] length_view [OF assms] size_eq [of "fb_file b"]
  by (auto simp: FileBuffer_file_size_def add64_small fb_ok_def)

lemma flush_buffer_ok:
  assumes "fb_ok good cont b" "savable can b"
  shows "\<exists>fl. flush_buffer F b = Inr (True, b\<lparr>fb_file := fl, fb_modified := False\<rparr>)
    \<and> good fl \<and> cont fl = view cont b \<and> (fb_modified b \<longrightarrow> fi_tellg F fl = fb_start b + fb_len b)"
proof (cases "fb_modified b")
  case True
  have "can (fb_file b) (fb_start b) (length (buffered b))"
    using assms True by (simp add: savable_def fb_ok_def)
  then obtain s1 s2 where "fi_seek F (fb_file b) (fb_start b) = Inr (True, s1)"
      "fi_write F s1 (buffered b) = Inr (length (buffered b), s2)"
      "good s2" "cont s2 = overlay (cont (fb_file b)) (fb_start b) (buffered b)"
      "fi_tellg F s2 = fb_start b + length (buffered b)"
    using seek_write [of "fb_file b" "fb_start b" "buffered b"] assms(1) by (auto simp: fb_ok_def)
  then show ?thesis using True assms(1)
    by (intro exI [of _ s2]) (simp add: flush_buffer_def view_def buffered_def fb_ok_def)
next
  case False
  then show ?thesis using assms(1) by (intro exI [of _ "fb_file b"]) (simp add: flush_buffer_def view_def fb_ok_def)
qed

lemma discard_ok:
  assumes "fb_ok good cont b" "savable can b"
  shows "\<exists>fl. discard_buffer F b =
      Inr (True, b\<lparr>fb_file := fl, fb_modified := False, fb_pos := 0, fb_start := 0, fb_len := 0\<rparr>)
    \<and> good fl \<and> cont fl = view cont b"
proof -
  from flush_buffer_ok [OF assms] obtain fl where
    "flush_buffer F b = Inr (True, b\<lparr>fb_file := fl, fb_modified := False\<rparr>)" "good fl" "cont fl = view cont b" by blast
  then show ?thesis by (intro exI [of _ fl]) (simp add: discard_buffer_def)
qed

lemma read_to_buffer_ok:
  assumes "fb_ok good cont b" "fb_len b = 0" "n \<le> length (fb_data b)" "0 < length (fb_data b)"
  shows "\<exists>b'. fb_ok good cont b' \<and> savable can b' \<and> view cont b' = cont (fb_file b) \<and> \<not> fb_modified b'
    \<and> (if fi_tellg F (fb_file b) = length (cont (fb_file b))
       then read_to_buffer F b n = Inr (False, b') \<and> fb_len b' = 0 \<and> fi_tellg F (fb_file b') = fi_tellg F (fb_file b)
       else read_to_buffer F b n = Inr (True, b') \<and> fb_len b' \<noteq> 0 \<and> fb_start b' = fi_tellg F (fb_file b)
         \<and> fb_pos b' = min n (length (cont (fb_file b)) - fi_tellg F (fb_file b))
         \<and> (fb_len b' < n \<longrightarrow> fb_start b' + fb_len b' = length (cont (fb_file b))))
    \<and> length (fb_data b') = length (fb_data b) \<and> fi_tellg F (fb_file b') = fb_start b' + fb_len b'"
proof -
  let ?C = "cont (fb_file b)" and ?t = "fi_tellg F (fb_file b)"
  have i: "good (fb_file b)" "length (fb_data b) < 2 ^ 62" "\<not> fb_modified b" "fb_pos b = 0" using assms(1,2) by (simp_all add: fb_ok_def)
  have t: "?t \<le> length ?C" "length ?C < 2 ^ 62" using bounds [OF assms(1)] by simp_all
  have sub: "sub64 (fi_file_size F (fb_file b)) ?t = length ?C - ?t"
    using t size_eq [OF i(1)] by (simp add: sub64_small)
  define k where "k = min (length ?C - ?t) (length (fb_data b))"
  show ?thesis
  proof (cases "?t = length ?C")
    case True
    let ?b = "b\<lparr>fb_start := ?t\<rparr>"
    have "read_to_buffer F b n = Inr (False, ?b)" using sub True by (simp add: read_to_buffer_def)
    moreover have "fb_ok good cont ?b" "view cont ?b = ?C" "savable can ?b"
      using i assms(2) True by (simp_all add: fb_ok_def buffered_def view_def savable_def)
    ultimately show ?thesis using True assms(2) i(3) by (intro exI [of _ ?b]) simp
  next
    case False
    then have k: "0 < k" "k \<le> length (fb_data b)" "?t + k \<le> length ?C" using t assms(4) by (auto simp: k_def)
    from read_ok [OF i(1), of k] obtain fl where
      f: "fi_read F (fb_file b) k = Inr (take k (drop ?t ?C), fl)" "good fl" "cont fl = ?C"
        "fi_tellg F fl = ?t + min k (length ?C - ?t)" by blast
    let ?d = "take k (drop ?t ?C)"
    let ?b = "b\<lparr>fb_start := ?t, fb_len := k, fb_file := fl, fb_data := overlay (fb_data b) 0 ?d,
      fb_pos := (if k < n then k else n)\<rparr>"
    have ld: "length ?d = k" using k(3) by simp
    have "read_to_buffer F b n = Inr (True, ?b)"
      using k f ld sub by (simp add: read_to_buffer_def Let_def k_def [symmetric] memcpy_to_ok)
    moreover have "buffered ?b = slice ?t k ?C" using ld by (simp add: buffered_def overlay_def slice_def)
    moreover have "length (overlay (fb_data b) 0 ?d) = length (fb_data b)" using ld k(2) by simp
    ultimately show ?thesis using False k f i assms(3) t(1)
      by (intro exI [of _ ?b]) (auto simp: fb_ok_def view_def savable_def k_def)
  qed
qed

text \<open>Reading with an empty buffer, the last part of \<open>read\<close>.\<close>

lemma read_fresh:
  assumes "fb_ok good cont b" "fb_len b = 0" "n \<le> length (fb_data b)" "0 < length (fb_data b)"
  shows "\<exists>b'. bindE (read_to_buffer F b n) (\<lambda>(done, b).
        if \<not> done then Inr ([], b)
        else bindE (current_subspan b 0 (min n (fb_len b))) (\<lambda>d. Inr (d, b)))
      = Inr (take n (drop (fi_tellg F (fb_file b)) (cont (fb_file b))), b')
    \<and> fb_ok good cont b' \<and> savable can b' \<and> view cont b' = cont (fb_file b) \<and> length (fb_data b') = length (fb_data b)
    \<and> FileBuffer_tellg F b' = fi_tellg F (fb_file b) + min n (length (cont (fb_file b)) - fi_tellg F (fb_file b))
    \<and> (fb_len b' = 0 \<longrightarrow> fi_tellg F (fb_file b) = length (cont (fb_file b)))
    \<and> (fb_len b' \<noteq> 0 \<longrightarrow> fb_start b' \<le> fi_tellg F (fb_file b)) \<and> \<not> fb_modified b'
    \<and> fi_tellg F (fb_file b') = fb_start b' + fb_len b'
    \<and> (fi_tellg F (fb_file b) = length (cont (fb_file b)) \<longrightarrow> fb_len b' = 0)"
proof -
  let ?C = "cont (fb_file b)" and ?t = "fi_tellg F (fb_file b)"
  from read_to_buffer_ok [OF assms] obtain b' where
    b': "fb_ok good cont b'" "savable can b'" "view cont b' = ?C" "\<not> fb_modified b'" "length (fb_data b') = length (fb_data b)"
      "fi_tellg F (fb_file b') = fb_start b' + fb_len b'"
    and r: "if ?t = length ?C
       then read_to_buffer F b n = Inr (False, b') \<and> fb_len b' = 0 \<and> fi_tellg F (fb_file b') = ?t
       else read_to_buffer F b n = Inr (True, b') \<and> fb_len b' \<noteq> 0 \<and> fb_start b' = ?t
         \<and> fb_pos b' = min n (length ?C - ?t)
         \<and> (fb_len b' < n \<longrightarrow> fb_start b' + fb_len b' = length ?C)"
    by (elim exE conjE) (rule that, assumption+)
  show ?thesis
  proof (cases "?t = length ?C")
    case True
    then show ?thesis using r b' tellg_eq [OF b'(1)] by (intro exI [of _ b']) simp
  next
    case False
    then have r': "read_to_buffer F b n = Inr (True, b')" "fb_len b' \<noteq> 0" "fb_start b' = ?t"
      "fb_pos b' = min n (length ?C - ?t)" "fb_len b' < n \<longrightarrow> fb_start b' + fb_len b' = length ?C"
      using r by auto
    let ?m = "min n (fb_len b')"
    have le: "fb_len b' \<le> length (fb_data b')" using b'(1) by (simp add: fb_ok_def)
    then have "current_subspan b' 0 ?m = Inr (slice 0 ?m (fb_data b'))"
      by (simp add: current_subspan_def memcpy_from_ok)
    moreover have "slice 0 ?m (fb_data b') = take ?m (drop ?t ?C)"
      using view_piece [OF b'(1), of 0 ?m] r'(3) b'(3) by simp
    moreover have "take ?m (drop ?t ?C) = take n (drop ?t ?C)"
      using r'(3,5) by (cases "fb_len b' < n") (simp_all add: min_def)
    ultimately show ?thesis using False r' b' tellg_eq [OF b'(1)] by (intro exI [of _ b']) simp
  qed
qed

lemma read_view_ok:
  assumes "fb_ok good cont b" "savable can b" "n \<le> length (fb_data b)" "0 < length (fb_data b)"
  shows "\<exists>b'. read_view F b n = Inr (take n (drop (FileBuffer_tellg F b) (view cont b)), b')
    \<and> fb_ok good cont b' \<and> savable can b' \<and> view cont b' = view cont b \<and> length (fb_data b') = length (fb_data b)
    \<and> FileBuffer_tellg F b' = FileBuffer_tellg F b + min n (length (view cont b) - FileBuffer_tellg F b)
    \<and> (fb_len b' = 0 \<longrightarrow> FileBuffer_tellg F b = length (view cont b))
    \<and> (fb_len b' \<noteq> 0 \<longrightarrow> fb_start b' \<le> FileBuffer_tellg F b) \<and> (fb_modified b' \<longrightarrow> fb_modified b)
    \<and> (fb_pos b' = fb_len b' \<longrightarrow> fb_start b' + fb_len b' = length (view cont b)
         \<or> \<not> fb_modified b' \<and> fi_tellg F (fb_file b') = fb_start b' + fb_len b')
    \<and> (fb_modified b' \<longrightarrow> b' = b\<lparr>fb_pos := fb_pos b'\<rparr>)
    \<and> (FileBuffer_tellg F b = length (view cont b) \<longrightarrow>
         fb_len b' = 0 \<or> fb_len b' = fb_len b \<and> fb_modified b' = fb_modified b)
    \<and> (anchored F b \<longrightarrow> anchored F b')"
proof (cases "fb_len b = 0")
  case True
  then have nm: "\<not> fb_modified b" using assms(1) by (simp add: fb_ok_def)
  then have V: "view cont b = cont (fb_file b)" by (simp add: view_def)
  have t: "FileBuffer_tellg F b = fi_tellg F (fb_file b)" using tellg_eq [OF assms(1)] True by simp
  have "read_view F b n = bindE (read_to_buffer F b n) (\<lambda>(done, b).
      if \<not> done then Inr ([], b)
      else bindE (current_subspan b 0 (min n (fb_len b))) (\<lambda>d. Inr (d, b)))"
    using True assms(3) by (simp add: read_view_def)
  moreover from read_fresh [OF assms(1) True assms(3,4)] obtain b' where
    "bindE (read_to_buffer F b n) (\<lambda>(done, b).
      if \<not> done then Inr ([], b)
      else bindE (current_subspan b 0 (min n (fb_len b))) (\<lambda>d. Inr (d, b)))
    = Inr (take n (drop (fi_tellg F (fb_file b)) (cont (fb_file b))), b')"
    "fb_ok good cont b'" "savable can b'" "view cont b' = cont (fb_file b)" "length (fb_data b') = length (fb_data b)"
    "FileBuffer_tellg F b' = fi_tellg F (fb_file b) + min n (length (cont (fb_file b)) - fi_tellg F (fb_file b))"
    "fb_len b' = 0 \<longrightarrow> fi_tellg F (fb_file b) = length (cont (fb_file b))"
    "fb_len b' \<noteq> 0 \<longrightarrow> fb_start b' \<le> fi_tellg F (fb_file b)" "\<not> fb_modified b'"
    "fi_tellg F (fb_file b') = fb_start b' + fb_len b'"
    "fi_tellg F (fb_file b) = length (cont (fb_file b)) \<longrightarrow> fb_len b' = 0"
    by (elim exE conjE) (rule that, assumption+)
  ultimately show ?thesis unfolding V t by (intro exI [of _ b']) (simp add: anchored_def)
next
  case False
  let ?V = "view cont b" and ?t = "fb_start b + fb_pos b"
  note bd = bounds [OF assms(1)]
  have t: "FileBuffer_tellg F b = ?t" using tellg_eq [OF assms(1)] False by simp
  have ok: "fb_pos b \<le> fb_len b" "fb_len b \<le> length (fb_data b)" "length (fb_data b) < 2 ^ 62"
    "fb_start b + fb_len b \<le> length ?V"
    using assms(1) length_view [OF assms(1)] by (auto simp: fb_ok_def)
  have pn: "add64 (fb_pos b) n = fb_pos b + n" "add64 (fb_start b) (fb_len b) = fb_start b + fb_len b"
    "add64 (fb_start b) (fb_pos b) = ?t" "sub64 (fb_len b) (fb_pos b) = fb_len b - fb_pos b"
    using ok bd assms(3) by (simp_all add: add64_small sub64_small)
  have moved: "fb_ok good cont (b\<lparr>fb_pos := p\<rparr>)" "savable can (b\<lparr>fb_pos := p\<rparr>)" "view cont (b\<lparr>fb_pos := p\<rparr>) = ?V"
    "FileBuffer_tellg F (b\<lparr>fb_pos := p\<rparr>) = fb_start b + p" if "p \<le> fb_len b" for p
    using assms(1,2) that tellg_eq [of "b\<lparr>fb_pos := p\<rparr>"] False
    by (simp_all add: fb_ok_def savable_def view_def buffered_def)
  have sub: "current_subspan b (fb_pos b) m = Inr (take m (drop ?t ?V))" if "fb_pos b + m \<le> fb_len b" for m
    using view_piece [OF assms(1) that] that ok by (simp add: current_subspan_def memcpy_from_ok)
  consider (inside) "fb_pos b + n < fb_len b" | (final) "fb_len b \<le> fb_pos b + n" "fb_start b + fb_len b = length ?V"
    | (refill) "fb_len b \<le> fb_pos b + n" "fb_start b + fb_len b < length ?V" using ok(4) by linarith
  then show ?thesis
  proof cases
    case inside
    then have "read_view F b n = Inr (take n (drop ?t ?V), b\<lparr>fb_pos := fb_pos b + n\<rparr>)"
      using False assms(3) pn sub [of n] by (simp add: read_view_def)
    then show ?thesis using moved [of "fb_pos b + n"] inside ok t False
      by (intro exI [of _ "b\<lparr>fb_pos := fb_pos b + n\<rparr>"]) (simp add: anchored_def)
  next
    case final
    let ?m = "min n (fb_len b - fb_pos b)"
    have m: "?m = min n (length ?V - ?t)" "take ?m (drop ?t ?V) = take n (drop ?t ?V)" "fb_pos b + ?m \<le> fb_len b"
      using final ok by (auto simp: min_def)
    have am: "add64 (fb_pos b) ?m = fb_pos b + ?m" using ok by (simp add: add64_small)
    have "read_view F b n = Inr (take ?m (drop ?t ?V), b\<lparr>fb_pos := fb_pos b + ?m\<rparr>)"
      using False assms(3) pn sub [OF m(3)] final file_size_eq [OF assms(1)] am
      by (simp add: read_view_def Let_def)
    then show ?thesis using moved [OF m(3)] t m False final(2)
      by (intro exI [of _ "b\<lparr>fb_pos := fb_pos b + ?m\<rparr>"]) (simp add: anchored_def)
  next
    case refill
    from discard_ok [OF assms(1,2)] obtain fl where
      fl: "discard_buffer F b = Inr (True, b\<lparr>fb_file := fl, fb_modified := False, fb_pos := 0, fb_start := 0, fb_len := 0\<rparr>)"
        "good fl" "cont fl = ?V" by blast
    from seek_ok [OF fl(2), of ?t] obtain fl' where
      fl': "fi_seek F fl ?t = Inr (True, fl')" "good fl'" "cont fl' = ?V" "fi_tellg F fl' = ?t"
      using fl(3) ok by auto
    let ?b = "b\<lparr>fb_modified := False, fb_pos := 0, fb_start := 0, fb_len := 0, fb_file := fl'\<rparr>"
    have b: "fb_ok good cont ?b" "fb_len ?b = 0" "n \<le> length (fb_data ?b)" "0 < length (fb_data ?b)"
      using fl'(2) ok(3) assms(3,4) by (simp_all add: fb_ok_def buffered_def)
    have "read_view F b n = bindE (read_to_buffer F ?b n) (\<lambda>(done, b).
        if \<not> done then Inr ([], b)
        else bindE (current_subspan b 0 (min n (fb_len b))) (\<lambda>d. Inr (d, b)))"
      using False assms(3) pn refill file_size_eq [OF assms(1)] fl(1) fl'(1) by (simp add: read_view_def Let_def)
    moreover from read_fresh [OF b] obtain b' where
      "bindE (read_to_buffer F ?b n) (\<lambda>(done, b).
        if \<not> done then Inr ([], b)
        else bindE (current_subspan b 0 (min n (fb_len b))) (\<lambda>d. Inr (d, b)))
      = Inr (take n (drop (fi_tellg F (fb_file ?b)) (cont (fb_file ?b))), b')"
      "fb_ok good cont b'" "savable can b'" "view cont b' = cont (fb_file ?b)" "length (fb_data b') = length (fb_data ?b)"
      "FileBuffer_tellg F b' = fi_tellg F (fb_file ?b) + min n (length (cont (fb_file ?b)) - fi_tellg F (fb_file ?b))"
      "fb_len b' = 0 \<longrightarrow> fi_tellg F (fb_file ?b) = length (cont (fb_file ?b))"
      "fb_len b' \<noteq> 0 \<longrightarrow> fb_start b' \<le> fi_tellg F (fb_file ?b)" "\<not> fb_modified b'"
      "fi_tellg F (fb_file b') = fb_start b' + fb_len b'"
      by (elim exE conjE) (rule that, assumption+)
    moreover have "FileBuffer_tellg F b \<noteq> length ?V" using t refill(2) ok(1) by simp
    ultimately show ?thesis using t fl'(3,4) by (intro exI [of _ b']) (simp add: anchored_def)
  qed
qed

lemma write_empty_ok:
  assumes "fb_ok good cont b" "fb_len b = 0" "d \<noteq> []" "length d \<le> length (fb_data b)"
  shows "\<exists>b'. write_empty F b d = Inr (length d, b') \<and> fb_ok good cont b'
    \<and> view cont b' = overlay (cont (fb_file b)) (fi_tellg F (fb_file b)) d \<and> fb_modified b'
    \<and> FileBuffer_tellg F b' = fi_tellg F (fb_file b) + length d \<and> length (fb_data b') = length (fb_data b)
    \<and> fb_pos b' = length d \<and> fb_len b' = length d"
proof -
  let ?b = "b\<lparr>fb_len := length d, fb_start := fi_tellg F (fb_file b), fb_data := overlay (fb_data b) 0 d,
    fb_modified := True, fb_pos := length d\<rparr>"
  have w: "write_empty F b d = Inr (length d, ?b)"
    using assms(4) by (simp add: write_empty_def set_current_def memcpy_to_ok)
  have ok: "fb_ok good cont ?b" using assms bounds(4) [OF assms(1)] by (simp add: fb_ok_def)
  have "view cont ?b = overlay (cont (fb_file b)) (fi_tellg F (fb_file b)) d"
    by (simp add: view_def buffered_def overlay_def)
  then show ?thesis using w ok tellg_eq(1) [OF ok] assms(3,4) by (intro exI [of _ ?b]) simp
qed

text \<open>The bytes go into the buffer, at its position.\<close>

lemma write_here:
  assumes "fb_ok good cont b" "fb_len b \<noteq> 0" "d \<noteq> []" "fb_pos b + length d \<le> m" "m \<le> length (fb_data b)"
    "fb_modified b \<longrightarrow> m = fb_pos b + length d \<and> fb_len b \<le> m"
    "m = fb_pos b + length d \<or> m = fb_len b"
    "b' = b\<lparr>fb_len := m, fb_data := overlay (fb_data b) (fb_pos b) d, fb_modified := True,
       fb_pos := fb_pos b + length d\<rparr>"
  shows "fb_ok good cont b'" "view cont b' = overlay (view cont b) (fb_start b + fb_pos b) d"
    "FileBuffer_tellg F b' = fb_start b + fb_pos b + length d"
proof -
  let ?C = "cont (fb_file b)" and ?p = "fb_pos b" and ?a = "fb_start b"
  have ok: "?a \<le> length ?C" "?p \<le> fb_len b" "fb_len b \<le> length (fb_data b)"
    using assms(1) by (simp_all add: fb_ok_def)
  have "0 < m" using assms(3,4) by (cases d) simp_all
  show okb: "fb_ok good cont b'" using \<open>0 < m\<close> assms(1,3-5,8) by (simp add: fb_ok_def)
  show "FileBuffer_tellg F b' = ?a + ?p + length d" using tellg_eq(1) [OF okb] \<open>0 < m\<close> assms(8) by simp
  have v: "view cont b' = overlay ?C ?a (overlay (take m (fb_data b)) ?p d)"
    using assms(4,5,8) by (simp add: view_def buffered_def take_overlay)
  have short: "overlay (take m (fb_data b)) ?p d = take ?p (buffered b) @ d" if "m = ?p + length d"
    using that ok assms(5) by (simp add: overlay_def buffered_def min_def)
  show "view cont b' = overlay (view cont b) (?a + ?p) d"
  proof (cases "fb_modified b")
    case True
    then show ?thesis using v short assms(6) ok overlay_overlay [of ?a ?C ?p "buffered b" d]
      by (simp add: view_def)
  next
    case False
    then have un: "buffered b = slice ?a (fb_len b) ?C" "?a + fb_len b \<le> length ?C"
      using assms(1) by (simp_all add: fb_ok_def)
    show ?thesis
    proof (cases "m = ?p + length d")
      case True
      then show ?thesis using v short un overlay_slice [OF un(2) ok(2), of d] False by (simp add: view_def)
    next
      case no: False
      then have "m = fb_len b" using assms(7) by simp
      then show ?thesis using v un overlay_slice_inside [OF un(2), of ?p d] assms(4) False
        by (simp add: view_def buffered_def)
    qed
  qed
qed

text \<open>
  A write keeps the bytes behind it when the buffer held nothing unwritten there; the position may
  not be at the very end of the memory of the buffer.
\<close>

lemma buffer_write_ok:
  assumes "fb_ok good cont b" "savable can b" "d \<noteq> []" "length d \<le> length (fb_data b)"
    "fb_pos b < length (fb_data b)" "fb_modified b \<longrightarrow> fb_len b \<le> fb_pos b + length d"
  shows "\<exists>b'. FileBuffer_write F b d = Inr (length d, b') \<and> fb_ok good cont b' \<and> fb_modified b'
    \<and> view cont b' = overlay (view cont b) (FileBuffer_tellg F b) d
    \<and> FileBuffer_tellg F b' = FileBuffer_tellg F b + length d \<and> length (fb_data b') = length (fb_data b)
    \<and> (fb_pos b' = fb_len b'
        \<or> Suc (fb_pos b') = fb_len b' \<and> fb_start b' + fb_len b' \<le> length (cont (fb_file b')))
    \<and> (fb_pos b' < length (fb_data b) \<or> fb_pos b + length d \<le> fb_len b \<or> length d = length (fb_data b))"
proof -
  have ok: "good (fb_file b)" "fb_pos b \<le> fb_len b" "fb_len b \<le> length (fb_data b)" "length (fb_data b) < 2 ^ 62"
    using assms(1) by (simp_all add: fb_ok_def)
  note bd = bounds [OF assms(1)]
  have na: "\<not> fi_is_append_mode F (fb_file b)" by (rule no_append [OF ok(1)])
  show ?thesis
  proof (cases "fb_len b = 0")
    case True
    then have "view cont b = cont (fb_file b)" using assms(1) by (simp add: fb_ok_def view_def)
    moreover have "FileBuffer_write F b d = write_empty F b d" using True assms(4) na by (simp add: FileBuffer_write_def)
    ultimately show ?thesis using write_empty_ok [OF assms(1) True assms(3,4)] tellg_eq(1) [OF assms(1)] True assms(4) by auto
  next
    case False
    let ?p = "fb_pos b" and ?n = "length d"
    have wr: "FileBuffer_write F b d = write_current F b d" using False assms(4) na by (simp add: FileBuffer_write_def)
    have t: "FileBuffer_tellg F b = fb_start b + ?p" using tellg_eq(1) [OF assms(1)] False by simp
    have ar: "add64 ?p ?n = ?p + ?n" "add64 ?p 1 = ?p + 1" "add64 (fb_start b) ?p = fb_start b + ?p"
      "sub64 (length (fb_data b)) (?p + 1) = length (fb_data b) - (?p + 1)"
      using ok bd assms(4,5) by (simp_all add: add64_small sub64_small)
    consider (resize) "length (fb_data b) - (?p + 1) > ?n" | (inside) "\<not> length (fb_data b) - (?p + 1) > ?n" "?p + ?n \<le> fb_len b"
      | (full) "\<not> length (fb_data b) - (?p + 1) > ?n" "fb_len b < ?p + ?n" by linarith
    then show ?thesis
    proof cases
      case resize
      have le: "?p + ?n \<le> length (fb_data b)" "?p + ?n < length (fb_data b)" using resize by linarith+
      let ?b = "b\<lparr>fb_len := ?p + ?n, fb_data := overlay (fb_data b) ?p d, fb_modified := True, fb_pos := ?p + ?n\<rparr>"
      have "write_current F b d = Inr (?n, ?b)"
        using resize ar assms(3) le by (simp add: write_current_def set_current_def Let_def memcpy_to_ok)
      then show ?thesis using write_here [OF assms(1) False assms(3), where m = "?p + ?n" and b' = ?b] resize assms(6) wr t le(2)
        by (intro exI [of _ ?b]) simp
    next
      case inside
      have lt: "?p < fb_len b" using inside(2) assms(3) by (cases d) simp_all
      have en: "?p + ?n = fb_len b \<or> Suc (?p + ?n) = fb_len b \<and> fb_start b + fb_len b \<le> length (cont (fb_file b))"
        using inside ok(3) assms(1,6) by (cases "fb_modified b") (auto simp: fb_ok_def)
      let ?b = "b\<lparr>fb_len := fb_len b, fb_data := overlay (fb_data b) ?p d, fb_modified := True, fb_pos := ?p + ?n\<rparr>"
      have "write_current F b d = Inr (?n, ?b)"
        using inside ar lt ok by (simp add: write_current_def Let_def memcpy_to_ok)
      then show ?thesis using write_here [OF assms(1) False assms(3), where m = "fb_len b" and b' = ?b] inside assms(6) ok wr t en
        by (intro exI [of _ ?b]) simp
    next
      case full
      from discard_ok [OF assms(1,2)] obtain fl where
        fl: "discard_buffer F b = Inr (True, b\<lparr>fb_file := fl, fb_modified := False, fb_pos := 0, fb_start := 0, fb_len := 0\<rparr>)"
          "good fl" "cont fl = view cont b" by blast
      have "fb_start b + ?p \<le> length (view cont b)" using tellg_eq(2) [OF assms(1)] t by simp
      with seek_ok [OF fl(2), of "fb_start b + ?p"] obtain fl' where
        fl': "fi_seek F fl (fb_start b + ?p) = Inr (True, fl')" "good fl'" "cont fl' = view cont b"
          "fi_tellg F fl' = fb_start b + ?p"
        using fl(3) by auto
      let ?b = "b\<lparr>fb_modified := False, fb_pos := 0, fb_start := 0, fb_len := 0, fb_file := fl'\<rparr>"
      have b: "fb_ok good cont ?b" "fb_len ?b = 0" "length d \<le> length (fb_data ?b)"
        using fl'(2) ok(4) assms(4) by (simp_all add: fb_ok_def buffered_def)
      have "write_current F b d = write_empty F ?b d"
        using full ar fl(1) fl'(1) by (simp add: write_current_def Let_def)
      with write_empty_ok [OF b(1,2) assms(3) b(3)] show ?thesis using wr t fl' assms(4) by auto
    qed
  qed
qed

section \<open>Seeking and lines\<close>

text \<open>
  The position is one of the buffered bytes, or it is not where the file itself stands: then
  \<open>seek\<close> goes there.
\<close>

lemma buffer_seek_ok:
  assumes "fb_ok good cont b" "\<not> fb_modified b" "p \<le> length (view cont b)"
    "fb_len b \<noteq> 0 \<and> (p < fb_start b \<or> fb_start b + fb_len b \<le> p) \<and> fi_tellg F (fb_file b) = p \<longrightarrow>
       p = fb_start b + fb_pos b"
  shows "\<exists>b'. FileBuffer_seek F b p = Inr (True, b') \<and> fb_ok good cont b' \<and> \<not> fb_modified b'
    \<and> view cont b' = view cont b \<and> FileBuffer_tellg F b' = p \<and> length (fb_data b') = length (fb_data b)
    \<and> (fb_len b' = 0 \<longrightarrow> fb_len b = 0 \<or> p < fb_start b
         \<or> fb_start b + fb_len b \<le> p \<and> fi_tellg F (fb_file b) \<noteq> p)
    \<and> (fb_len b' = 0 \<or> fb_len b' = fb_len b \<and> fb_start b' = fb_start b) \<and> (anchored F b \<longrightarrow> anchored F b')
    \<and> fi_tellg F (fb_file b') = p \<and> (fb_start b + fb_len b \<le> p \<and> fi_tellg F (fb_file b) \<noteq> p \<longrightarrow> fb_len b' = 0)"
proof -
  have C: "view cont b = cont (fb_file b)" using assms(2) by (simp add: view_def)
  have g: "good (fb_file b)" "length (fb_data b) < 2 ^ 62" using assms(1) by (simp_all add: fb_ok_def)
  have add: "add64 (fb_start b) (fb_len b) = fb_start b + fb_len b" using bounds(1) [OF assms(1)] by (simp add: add64_small)
  note tl = tellg_eq [OF assms(1)]
  consider (window) "fb_len b \<noteq> 0" "fb_start b \<le> p" "p < fb_start b + fb_len b"
    | (here) "fb_len b = 0 \<or> p < fb_start b \<or> fb_start b + fb_len b \<le> p" "fi_tellg F (fb_file b) = p"
    | (away) "fb_len b = 0 \<or> p < fb_start b \<or> fb_start b + fb_len b \<le> p" "fi_tellg F (fb_file b) \<noteq> p" by linarith
  then show ?thesis
  proof cases
    case window
    from seek_ok [OF g(1), of p] obtain fl where
      fl: "fi_seek F (fb_file b) p = Inr (True, fl)" "good fl" "cont fl = cont (fb_file b)" "fi_tellg F fl = p"
      using assms(3) C by auto
    let ?b = "b\<lparr>fb_pos := p - fb_start b, fb_file := fl\<rparr>"
    have "FileBuffer_seek F b p = Inr (True, ?b)"
      using window add fl(1) bounds(1) [OF assms(1)] by (simp add: FileBuffer_seek_def sub64_small)
    moreover have ok: "fb_ok good cont ?b"
      using assms(1,2) window fl(2,3) by (auto simp: fb_ok_def buffered_def)
    moreover have "FileBuffer_tellg F ?b = p" using tellg_eq(1) [OF ok] window by simp
    ultimately show ?thesis using assms(2) C fl(3,4) window by (intro exI [of _ ?b]) (simp add: view_def anchored_def)
  next
    case here
    then have "FileBuffer_seek F b p = Inr (True, b)" using add assms(2) by (auto simp: FileBuffer_seek_def)
    moreover have "FileBuffer_tellg F b = p" using here assms(4) tl(1) by auto
    ultimately show ?thesis using assms(1,2) here by (intro exI [of _ b]) auto
  next
    case away
    have d: "discard_buffer F b = Inr (True, b\<lparr>fb_pos := 0, fb_start := 0, fb_len := 0\<rparr>)"
      using assms(2) by (simp add: discard_buffer_def flush_buffer_def)
    from seek_ok [OF g(1), of p] obtain fl where
      fl: "fi_seek F (fb_file b) p = Inr (True, fl)" "good fl" "cont fl = cont (fb_file b)" "fi_tellg F fl = p"
      using assms(3) C by auto
    let ?b = "b\<lparr>fb_pos := 0, fb_start := 0, fb_len := 0, fb_file := fl\<rparr>"
    have "FileBuffer_seek F b p = Inr (True, ?b)" using away add d fl(1) by (auto simp: FileBuffer_seek_def)
    moreover have ok: "fb_ok good cont ?b" using assms(2) g fl(2) by (simp add: fb_ok_def buffered_def)
    moreover have "FileBuffer_tellg F ?b = p" using tellg_eq(1) [OF ok] fl(4) by simp
    ultimately show ?thesis using assms(2) C fl(3,4) away by (intro exI [of _ ?b]) (auto simp: view_def anchored_def)
  qed
qed

text \<open>Going back is always possible in a clean buffer whose file does not stand before it.\<close>

lemma seek_back_ok:
  assumes "fb_ok good cont b" "\<not> fb_modified b" "anchored F b" "p \<le> FileBuffer_tellg F b"
  shows "\<exists>b'. FileBuffer_seek F b p = Inr (True, b') \<and> fb_ok good cont b' \<and> \<not> fb_modified b' \<and> anchored F b'
    \<and> view cont b' = view cont b \<and> FileBuffer_tellg F b' = p \<and> length (fb_data b') = length (fb_data b)
    \<and> fi_tellg F (fb_file b') = p \<and> (p < FileBuffer_tellg F b \<longrightarrow> fb_len b' = 0 \<or> fb_pos b' < fb_len b')"
proof -
  have pos: "fb_len b \<noteq> 0 \<Longrightarrow> p \<le> fb_start b + fb_pos b" "fb_pos b \<le> fb_len b"
    using tellg_eq(1) [OF assms(1)] assms(1,4) by (auto simp: fb_ok_def)
  with assms(3) have here: "fb_len b \<noteq> 0 \<and> (p < fb_start b \<or> fb_start b + fb_len b \<le> p) \<and> fi_tellg F (fb_file b) = p
      \<longrightarrow> p = fb_start b + fb_pos b" using assms(3) by (auto simp: anchored_def)
  have "p \<le> length (view cont b)" using tellg_eq(2) [OF assms(1)] assms(4) by simp
  from buffer_seek_ok [OF assms(1,2) this here] assms(3) obtain b' where
    b': "FileBuffer_seek F b p = Inr (True, b')" "fb_ok good cont b'" "\<not> fb_modified b'" "anchored F b'"
      "view cont b' = view cont b" "FileBuffer_tellg F b' = p" "length (fb_data b') = length (fb_data b)"
      "fi_tellg F (fb_file b') = p" "fb_len b' = 0 \<or> fb_len b' = fb_len b \<and> fb_start b' = fb_start b" by blast
  have "p < FileBuffer_tellg F b \<longrightarrow> fb_len b' = 0 \<or> fb_pos b' < fb_len b'"
    using b'(6,9) tellg_eq(1) [OF assms(1)] tellg_eq(1) [OF b'(2)] pos(2) by auto
  then show ?thesis using b' by blast
qed

text \<open>
  With unwritten bytes in the buffer, \<open>seek\<close> stays in it when it can, and writes them back when
  not; in the buffer the file itself must reach that far.
\<close>

lemma seek_modified_ok:
  assumes "fb_ok good cont b" "fb_modified b" "savable can b" "p \<le> length (view cont b)"
    "fb_start b \<le> p \<and> p < fb_start b + fb_len b \<longrightarrow> p \<le> length (cont (fb_file b))"
  shows "\<exists>b'. FileBuffer_seek F b p = Inr (True, b') \<and> fb_ok good cont b' \<and> view cont b' = view cont b
    \<and> FileBuffer_tellg F b' = p \<and> length (fb_data b') = length (fb_data b)
    \<and> (if fb_start b \<le> p \<and> p < fb_start b + fb_len b
       then fb_modified b' \<and> fb_pos b' = p - fb_start b \<and> fb_len b' = fb_len b \<and> fb_start b' = fb_start b
         \<and> cont (fb_file b') = cont (fb_file b) else \<not> fb_modified b' \<and> fb_len b' = 0)"
proof -
  have g: "good (fb_file b)" "length (fb_data b) < 2 ^ 62" "fb_len b \<noteq> 0" using assms(1,2) by (auto simp: fb_ok_def)
  have add: "add64 (fb_start b) (fb_len b) = fb_start b + fb_len b" using bounds(1) [OF assms(1)] by (simp add: add64_small)
  show ?thesis
  proof (cases "fb_start b \<le> p \<and> p < fb_start b + fb_len b")
    case True
    from seek_ok [OF g(1), of p] obtain fl where
      fl: "fi_seek F (fb_file b) p = Inr (True, fl)" "good fl" "cont fl = cont (fb_file b)"
      using assms(5) True by auto
    let ?b = "b\<lparr>fb_pos := p - fb_start b, fb_file := fl\<rparr>"
    have "FileBuffer_seek F b p = Inr (True, ?b)"
      using True add fl(1) g(3) bounds(1) [OF assms(1)] by (simp add: FileBuffer_seek_def sub64_small)
    moreover have ok: "fb_ok good cont ?b" using assms(1,2) True fl(2,3) by (auto simp: fb_ok_def)
    moreover have "FileBuffer_tellg F ?b = p" using tellg_eq(1) [OF ok] True g(3) by simp
    moreover have "view cont ?b = view cont b" using fl(3) by (simp add: view_def buffered_def)
    ultimately show ?thesis using True assms(2) fl(3) by (intro exI [of _ ?b]) simp
  next
    case False
    from discard_ok [OF assms(1,3)] obtain fl where
      d: "discard_buffer F b = Inr (True, b\<lparr>fb_file := fl, fb_modified := False, fb_pos := 0, fb_start := 0, fb_len := 0\<rparr>)"
        "good fl" "cont fl = view cont b" by blast
    from seek_ok [OF d(2), of p] obtain fl' where
      fl: "fi_seek F fl p = Inr (True, fl')" "good fl'" "cont fl' = view cont b" "fi_tellg F fl' = p"
      using assms(4) d(3) by auto
    let ?b = "b\<lparr>fb_modified := False, fb_pos := 0, fb_start := 0, fb_len := 0, fb_file := fl'\<rparr>"
    have "FileBuffer_seek F b p = Inr (True, ?b)" using False add d(1) fl(1) g(3) assms(2) by (auto simp: FileBuffer_seek_def)
    moreover have ok: "fb_ok good cont ?b" using g(2) fl(2) by (simp add: fb_ok_def buffered_def)
    moreover have "FileBuffer_tellg F ?b = p" using tellg_eq(1) [OF ok] fl(4) by simp
    moreover have "view cont ?b = view cont b" using fl(3) by (simp add: view_def)
    ultimately show ?thesis using False by (intro exI [of _ ?b]) auto
  qed
qed

lemma get_line_loop_ok:
  assumes "fb_ok good cont b" "\<not> fb_modified b" "0 < length (fb_data b)"
    "length (view cont b) - FileBuffer_tellg F b < k"
    "fb_len b = 0 \<longrightarrow> length (view cont b) \<noteq> Suc (FileBuffer_tellg F b)"
    "R = drop (FileBuffer_tellg F b) (view cont b)" "holds_line S (ret @ takeWhile (\<lambda>x. x \<noteq> 10) R)"
  shows "\<exists>b'. get_line_loop k S F b ret =
      Some (Inr (if 10 \<in> set R then Some (ret @ takeWhile (\<lambda>x. x \<noteq> 10) R)
        else if ret @ R = [] then None else Some (ret @ R), b'))
    \<and> fb_ok good cont b' \<and> \<not> fb_modified b' \<and> view cont b' = view cont b
    \<and> FileBuffer_tellg F b' = (if 10 \<in> set R then FileBuffer_tellg F b + length (takeWhile (\<lambda>x. x \<noteq> 10) R) + 1
        else length (view cont b))
    \<and> length (fb_data b') = length (fb_data b) \<and> (fb_len b' = 0 \<longrightarrow> FileBuffer_tellg F b' = length (view cont b))
    \<and> (anchored F b \<longrightarrow> anchored F b')"
  using assms
proof (induction k arbitrary: b ret R)
  case (Suc k)
  let ?V = "view cont b" and ?t = "FileBuffer_tellg F b"
  have sv: "savable can b" using Suc.prems(2) by (simp add: savable_def)
  have lt: "?t \<le> length ?V" "length ?V < 2 ^ 62"
    using tellg_eq(2) [OF Suc.prems(1)] length_view [OF Suc.prems(1)] bounds(5) [OF Suc.prems(1)] Suc.prems(2) by simp_all
  have gt: "good (fb_file b)" using Suc.prems(1) by (simp add: fb_ok_def)
  show ?case
  proof (cases "FileBuffer_eof F b")
    case True
    have "R = []"
    proof (cases "fb_len b = 0")
      case z: True
      have "view cont b = cont (fb_file b)" using Suc.prems(2) by (simp add: view_def)
      then have "\<not> Suc ?t < length ?V" using z True eof_ok [OF gt] tellg_eq(1) [OF Suc.prems(1)]
        by (auto simp: FileBuffer_eof_def)
      then show ?thesis using Suc.prems(5,6) z lt(1) by simp
    next
      case False
      then show ?thesis using True file_size_eq [OF Suc.prems(1)] Suc.prems(6)
        by (simp add: FileBuffer_eof_def FileBuffer_tellg_def)
    qed
    then show ?thesis using True Suc.prems(1,2,6) lt(1) by (intro exI [of _ b]) simp
  next
    case False
    define n where "n = (if str_capacity S ret > 0 then min (str_capacity S ret) (get_buffer_size b) else get_buffer_size b)"
    have n: "0 < n" "n \<le> length (fb_data b)" using Suc.prems(3) by (auto simp: n_def get_buffer_size_def)
    from read_view_ok [OF Suc.prems(1) sv n(2) Suc.prems(3)] obtain b' where
      r: "read_view F b n = Inr (take n (drop ?t ?V), b')" and ok: "fb_ok good cont b'" "view cont b' = ?V"
        "length (fb_data b') = length (fb_data b)" and t': "FileBuffer_tellg F b' = ?t + min n (length ?V - ?t)"
      and l': "fb_len b' = 0 \<longrightarrow> ?t = length ?V" "fb_len b' \<noteq> 0 \<longrightarrow> fb_start b' \<le> ?t"
      and nm: "\<not> fb_modified b'" and an: "anchored F b \<longrightarrow> anchored F b'"
      and en: "fb_pos b' = fb_len b' \<longrightarrow> fb_start b' + fb_len b' = length ?V \<or> fi_tellg F (fb_file b') = fb_start b' + fb_len b'"
      using Suc.prems(2) by auto
    have R: "take n (drop ?t ?V) = take n R" using Suc.prems(6) by simp
    have step: "get_line_loop (Suc k) S F b ret =
        (if take n R = [] then Some (Inr (if ret \<noteq> [] then Some ret else None, b'))
         else case scan_line S 0 ret (take n R) of
             Inl e \<Rightarrow> Some (Inl e)
           | Inr (Some i, ret) \<Rightarrow> Some (bindE (FileBuffer_seek F b' (add64 (add64 ?t i) 1)) (\<lambda>(_, b). Inr (Some ret, b)))
           | Inr (None, ret) \<Rightarrow> get_line_loop k S F b' ret)"
      using False n(1) r R by (simp add: n_def [symmetric])
    show ?thesis
    proof (cases "R = []")
      case True
      then show ?thesis using step ok nm an t' lt(1) Suc.prems(6) by (intro exI [of _ b']) simp
    next
      case ne: False
      have lR: "length R = length ?V - ?t" using Suc.prems(6) by simp
      have nz: "fb_len b' \<noteq> 0" using l'(1) ne Suc.prems(6) by auto
      show ?thesis
      proof (cases "10 \<in> set (take n R)")
        case True
        let ?w = "takeWhile (\<lambda>x. x \<noteq> 10) (take n R)"
        have w: "?w = takeWhile (\<lambda>x. x \<noteq> 10) R" "10 \<in> set R"
          using True takeWhile_append1 [of 10 "take n R" "\<lambda>x. x \<noteq> 10" "drop n R"] by (auto dest: in_set_takeD)
        have lw: "length ?w < length (take n R)" by (rule takeWhile_less [OF True])
        let ?p = "?t + length ?w + 1"
        have p: "?p \<le> ?t + min n (length R)" using lw by simp
        have "length ?w < length R" using lw by simp
        then have pV: "?p \<le> length ?V" using lR lt(1) by linarith
        then have "?p < 2 ^ 62" using lt(2) by simp
        then have ad: "add64 (add64 ?t (length ?w)) 1 = ?p" by (simp add: add64_def)
        have "fb_start b' + fb_pos b' = ?t + min n (length R)" using tellg_eq(1) [OF ok(1)] nz t' lR by simp
        then have win: "fb_start b' + fb_len b' \<le> ?p \<longrightarrow> ?p = fb_start b' + fb_pos b'" "fb_start b' \<le> ?p"
        proof -
          assume e: "fb_start b' + fb_pos b' = ?t + min n (length R)"
          have pl: "fb_pos b' \<le> fb_len b'" using ok(1) by (simp add: fb_ok_def)
          show "fb_start b' + fb_len b' \<le> ?p \<longrightarrow> ?p = fb_start b' + fb_pos b'" using e pl p by linarith
          show "fb_start b' \<le> ?p" using l'(2) nz by simp
        qed
        from pV have pV: "?p \<le> length (view cont b')" using ok(2) by simp
        from buffer_seek_ok [OF ok(1) nm pV] win obtain b'' where
          "FileBuffer_seek F b' ?p = Inr (True, b'')" "fb_ok good cont b''" "\<not> fb_modified b''"
          "view cont b'' = ?V" "FileBuffer_tellg F b'' = ?p" "length (fb_data b'') = length (fb_data b)"
          "anchored F b \<longrightarrow> anchored F b''"
          and gone: "fb_len b'' = 0 \<longrightarrow> fb_start b' + fb_len b' \<le> ?p \<and> fi_tellg F (fb_file b') \<noteq> ?p"
          using ok(2,3) nz an by auto
        moreover have "fb_len b'' = 0 \<longrightarrow> ?p = length ?V"
        proof
          assume z: "fb_len b'' = 0"
          have "fb_pos b' \<le> fb_len b'" using ok(1) by (simp add: fb_ok_def)
          then have "fb_pos b' = fb_len b'" "?p = fb_start b' + fb_len b'" using win(1) gone z by auto
          then show "?p = length ?V" using en gone z by auto
        qed
        moreover have "scan_line S 0 ret (take n R) = Inr (Some (length ?w), ret @ ?w)"
          using scan_line_eq [of S ret "take n R" 0] Suc.prems(7) True w(1) by simp
        ultimately show ?thesis using step w ad ne n(1) by (intro exI [of _ b'']) simp
      next
        case no: False
        have fewer: "length (view cont b') - FileBuffer_tellg F b' < k"
          using Suc.prems(4) t' lt(1) n(1) ne lR ok(2) by (cases R) auto
        have R': "drop n R = drop (FileBuffer_tellg F b') (view cont b')"
          using Suc.prems(6) t' ok(2) by (simp add: add.commute min_def)
        have "set R = set (take n R) \<union> set (drop n R)" by (metis append_take_drop_id set_append)
        then have mem: "10 \<in> set R \<longleftrightarrow> 10 \<in> set (drop n R)" using no by auto
        have tw: "takeWhile (\<lambda>x. x \<noteq> 10) R = take n R @ takeWhile (\<lambda>x. x \<noteq> 10) (drop n R)"
          using takeWhile_append2 [of "take n R" "\<lambda>x. x \<noteq> 10" "drop n R"] no by auto
        have tn: "takeWhile (\<lambda>x. x \<noteq> 10) (take n R) = take n R" using no by (auto simp: takeWhile_eq_all_conv)
        have hl: "holds_line S ((ret @ take n R) @ takeWhile (\<lambda>x. x \<noteq> 10) (drop n R))"
          using Suc.prems(7) tw by simp
        then have "scan_line S 0 ret (take n R) = Inr (None, ret @ take n R)"
          using scan_line_eq [of S ret "take n R" 0] holds_line_prefix [OF hl] no tn by simp
        then have step': "get_line_loop (Suc k) S F b ret = get_line_loop k S F b' (ret @ take n R)"
          using step ne n(1) by simp
        have h: "0 < length (fb_data b')" "fb_len b' = 0 \<longrightarrow> length (view cont b') \<noteq> Suc (FileBuffer_tellg F b')"
          using ok(3) Suc.prems(3) nz by simp_all
        from Suc.IH [OF ok(1) nm h(1) fewer h(2) R' hl] obtain b'' where
          "get_line_loop k S F b' (ret @ take n R) =
             Some (Inr (if 10 \<in> set (drop n R) then Some ((ret @ take n R) @ takeWhile (\<lambda>x. x \<noteq> 10) (drop n R))
               else if (ret @ take n R) @ drop n R = [] then None else Some ((ret @ take n R) @ drop n R), b''))"
          and b'': "fb_ok good cont b''" "\<not> fb_modified b''" "view cont b'' = view cont b'"
          "length (fb_data b'') = length (fb_data b')" "fb_len b'' = 0 \<longrightarrow> FileBuffer_tellg F b'' = length (view cont b')"
          "anchored F b' \<longrightarrow> anchored F b''"
          and tb: "FileBuffer_tellg F b'' = (if 10 \<in> set (drop n R)
             then FileBuffer_tellg F b' + length (takeWhile (\<lambda>x. x \<noteq> 10) (drop n R)) + 1 else length (view cont b'))"
          by (elim exE conjE) (rule that, assumption+)
        then have "get_line_loop (Suc k) S F b ret = Some (Inr (if 10 \<in> set R then Some (ret @ takeWhile (\<lambda>x. x \<noteq> 10) R)
          else if ret @ R = [] then None else Some (ret @ R), b''))"
          unfolding step' mem tw by simp
        moreover have "FileBuffer_tellg F b'' = (if 10 \<in> set R then ?t + length (takeWhile (\<lambda>x. x \<noteq> 10) R) + 1
          else length (view cont b))"
        proof (cases "10 \<in> set (drop n R)")
          case True
          then have "drop n R \<noteq> []" by auto
          then have "n < length R" by simp
          then show ?thesis using tb True t' lR unfolding mem tw by (simp add: min_def)
        next
          case False
          then show ?thesis using tb ok(2) unfolding mem by simp
        qed
        ultimately show ?thesis using b'' an ok(2,3) by (intro exI [of _ b'']) simp
      qed
    qed
  qed
qed simp

end

end
