(* ===== verification/HandleFile.thy ===== *)
theory HandleFile
  imports FileAccess BufferSpec Files
begin

text \<open>
  \<open>FileHandle\<close> as an implementation of \<open>FileInterface\<close>: an open file is a file system and a handle,
  and on a flash that keeps its contract it keeps the contract of an open file. What the buffer
  promises over any such file then holds for the files of this file system.
\<close>

section \<open>A handle as a file\<close>

definition handle_res :: "('a \<times> file_handle \<times> 'm fs) res \<Rightarrow> ('a \<times> ('m fs \<times> file_handle)) res" where
  "handle_res r = bindE r (\<lambda>(x, f, s). Inr (x, (s, f)))"

definition handle_ops :: "'m config \<Rightarrow> ('m fs \<times> file_handle) file_ops" where
  "handle_ops c = \<lparr>
     fi_valid = (\<lambda>(s, f). connected f),
     fi_write = (\<lambda>(s, f) d. handle_res (FileHandle_write c s f d)),
     fi_read = (\<lambda>(s, f) n. handle_res (FileHandle_read c s f n)),
     fi_flush = (\<lambda>(s, f). handle_res (FileHandle_flush c s f)),
     fi_tellg = (\<lambda>(s, f). FileHandle_tellg f),
     fi_file_size = (\<lambda>(s, f). FileHandle_file_size f),
     fi_eof = (\<lambda>(s, f). FileHandle_eof f),
     fi_seek = (\<lambda>(s, f) p. handle_res (FileHandle_seek s f p)),
     fi_delete_file = (\<lambda>(s, f). handle_res (FileHandle_delete_file c s f)),
     fi_rename_file = (\<lambda>(s, f) name. handle_res (FileHandle_rename_file c s f name)),
     fi_truncate = (\<lambda>(s, f) n. handle_res (FileHandle_truncate s f n)),
     fi_get_file_name = (\<lambda>(s, f). file_name (fh_inode f)),
     fi_is_append_mode = (\<lambda>(s, f). append_mode f)\<rparr>"

definition handle_good ::
  "('m \<Rightarrow> bool) \<Rightarrow> ('m \<Rightarrow> byte list) \<Rightarrow> ('m \<Rightarrow> nat \<Rightarrow> bool) \<Rightarrow> 'm fs \<times> file_handle \<Rightarrow> bool" where
  "handle_good ok cells writable = (\<lambda>(s, f). file_ok ok cells writable s f \<and> connected f \<and> \<not> append_mode f)"

definition handle_cont :: "('m \<Rightarrow> byte list) \<Rightarrow> 'm fs \<times> file_handle \<Rightarrow> byte list" where
  "handle_cont cells = (\<lambda>(s, f). contents cells s f)"

definition handle_can :: "'m fs \<times> file_handle \<Rightarrow> nat \<Rightarrow> nat \<Rightarrow> bool" where
  "handle_can = (\<lambda>(s, f) p n. can_write s (f\<lparr>fh_pos := p\<rparr>) n)"

lemma can_write_pos:
  assumes "\<not> append_mode f"
  shows "can_write (s\<lparr>mem := m\<rparr>) (f\<lparr>fh_pos := q, fh_pos := p\<rparr>) n = can_write s (f\<lparr>fh_pos := p\<rparr>) n"
  using assms by (simp add: can_write_def write_pos_def fits_inode_def room_def get_inode_data_space_size_def
      get_max_inode_data_pages_def get_checksum_size_def)

lemma file_len_bound:
  assumes "file_ok ok cells writable s f"
  shows "file_len (fh_inode f) < 2 ^ 32"
proof -
  have io: "io_ok ok cells writable s f" and nl: "42 + file_name_len (fh_inode f) \<le> page_size (header s)"
    using assms by (simp_all add: file_ok_def)
  note geo = geometryD [OF io_okD(2) [OF io]]
  have "get_inode_data_space_size s (fh_inode f) = page_size (header s) - (42 + file_name_len (fh_inode f))"
    using inode_space [OF nl] geo(4) by simp
  then show ?thesis using assms io_ok_lengths(3) [OF io] geo(4) by (auto simp: file_ok_def)
qed

context fs_on_flash
begin

lemma handle_contract: "open_file_contract (handle_ops c) (handle_good ok cells writable) (handle_cont cells) handle_can"
proof
  fix x :: "'m fs \<times> file_handle" and p n :: nat and d :: "byte list"
  obtain s f where x: "x = (s, f)" by (cases x)
  assume "handle_good ok cells writable x"
  then have g: "file_ok ok cells writable s f" "connected f" "\<not> append_mode f" by (simp_all add: handle_good_def x)
  have len: "length (handle_cont cells x) = file_len (fh_inode f)"
    by (simp add: handle_cont_def x contents_length [OF g(1)])
  have pos: "fh_pos f \<le> file_len (fh_inode f)" using g(1) by (simp add: file_ok_def)
  show "fi_file_size (handle_ops c) x = length (handle_cont cells x)"
    "\<not> fi_is_append_mode (handle_ops c) x" "fi_tellg (handle_ops c) x \<le> length (handle_cont cells x)"
    using g(3) pos unfolding len by (simp_all add: handle_ops_def x FileHandle_file_size_def FileHandle_tellg_def)
  show "length (handle_cont cells x) < 2 ^ 62" using file_len_bound [OF g(1)] by (simp add: len)
  show "\<not> fi_eof (handle_ops c) x" if "Suc (fi_tellg (handle_ops c) x) < length (handle_cont cells x)"
    using that file_len_bound [OF g(1)] unfolding len
    by (simp add: handle_ops_def x FileHandle_eof_def FileHandle_tellg_def sub64_small)
  show "\<exists>s'. fi_seek (handle_ops c) x p = Inr (True, s') \<and> handle_good ok cells writable s'
      \<and> handle_cont cells s' = handle_cont cells x \<and> fi_tellg (handle_ops c) s' = p \<and> handle_can s' = handle_can x"
    if "p \<le> length (handle_cont cells x)"
  proof -
    have p: "p \<le> file_len (fh_inode f)" using that by (simp add: len)
    show ?thesis using seek_inside [OF p, of s] file_ok_pos [OF g(1) p] g(2,3)
      by (intro exI [of _ "(s, f\<lparr>fh_pos := p\<rparr>)"])
        (simp add: handle_ops_def handle_res_def x handle_good_def handle_cont_def FileHandle_tellg_def handle_can_def)
  qed
  show "\<exists>s'. fi_read (handle_ops c) x n = Inr (take n (drop (fi_tellg (handle_ops c) x) (handle_cont cells x)), s')
      \<and> handle_good ok cells writable s' \<and> handle_cont cells s' = handle_cont cells x
      \<and> fi_tellg (handle_ops c) s' = fi_tellg (handle_ops c) x
          + min n (length (handle_cont cells x) - fi_tellg (handle_ops c) x)
      \<and> handle_can s' = handle_can x"
  proof -
    let ?f = "f\<lparr>fh_pos := fh_pos f + min n (file_len (fh_inode f) - fh_pos f)\<rparr>"
    from handle_read_ok [OF g(1,2), of n] obtain m' where
      m: "FileHandle_read c s f n = Inr (take n (drop (fh_pos f) (contents cells s f)), ?f, s\<lparr>mem := m'\<rparr>)"
        "same_flash (flash c) ok cells writable (mem s) m'" by blast
    have io: "io_ok ok cells writable (s\<lparr>mem := m'\<rparr>) f" "contents cells (s\<lparr>mem := m'\<rparr>) f = contents cells s f"
      using same_flash_io [OF m(2), of f] g(1) by (simp_all add: file_ok_def contents_def)
    have sp: "get_inode_data_space_size (s\<lparr>mem := m'\<rparr>) i = get_inode_data_space_size s i" for i
      by (simp add: get_inode_data_space_size_def get_checksum_size_def)
    have "file_ok ok cells writable (s\<lparr>mem := m'\<rparr>) ?f" using g(1) io(1) pos by (simp add: file_ok_def sp)
    moreover have "handle_can (s\<lparr>mem := m'\<rparr>, ?f) = handle_can x"
      using can_write_pos [OF g(3)] by (intro ext) (simp add: handle_can_def x)
    ultimately show ?thesis using m(1) io(2) g(2,3) unfolding len
      by (intro exI [of _ "(s\<lparr>mem := m'\<rparr>, ?f)"])
        (simp add: handle_ops_def handle_res_def x handle_good_def handle_cont_def FileHandle_tellg_def)
  qed
  show "\<exists>s'. fi_write (handle_ops c) x d = Inr (length d, s') \<and> handle_good ok cells writable s'
      \<and> handle_cont cells s' = overlay (handle_cont cells x) (fi_tellg (handle_ops c) x) d
      \<and> fi_tellg (handle_ops c) s' = fi_tellg (handle_ops c) x + length d"
    if "handle_can x (fi_tellg (handle_ops c) x) (length d)"
  proof -
    have "can_write s f (length d)" using that by (simp add: handle_can_def handle_ops_def x FileHandle_tellg_def)
    from handle_write_ok [OF g(1) this] obtain f' s' where
      "FileHandle_write c s f d = Inr (length d, f', s')"
      "written ok cells writable s (f\<lparr>fh_pos := write_pos f\<rparr>) d s' f'" by blast
    then show ?thesis using g(2,3)
      by (intro exI [of _ "(s', f')"])
        (simp add: handle_ops_def handle_res_def x handle_good_def handle_cont_def FileHandle_tellg_def
          written_def same_meta_def write_pos_def)
  qed
qed

end

interpretation hf: open_file_contract "handle_ops (stm32_config P crc e keep)"
  "handle_good stm32_ok st_mem stm32_writable" "handle_cont st_mem" handle_can
  for P crc e keep
  by (rule fs_stm32.handle_contract)

section \<open>Files through a buffer\<close>

text \<open>A buffer in front of a file on the simulated internal flash.\<close>

abbreviation hb_ok :: "(stm32_flash fs \<times> file_handle) file_buffer \<Rightarrow> bool" where
  "hb_ok \<equiv> fb_ok (handle_good stm32_ok st_mem stm32_writable) (handle_cont st_mem)"

abbreviation hb_view :: "(stm32_flash fs \<times> file_handle) file_buffer \<Rightarrow> byte list" where
  "hb_view \<equiv> view (handle_cont st_mem)"

lemma hb_new:
  assumes "handle_good stm32_ok st_mem stm32_writable x" "length buf < 2 ^ 62"
  shows "hb_ok (FileBuffer x buf)" "hb_view (FileBuffer x buf) = handle_cont st_mem x" "savable can (FileBuffer x buf)"
  using assms by (simp_all add: fb_ok_def FileBuffer_def view_def savable_def buffered_def)

lemma hb_new_fields [simp]:
  "fb_len (FileBuffer x buf) = 0" "fb_data (FileBuffer x buf) = buf" "\<not> fb_modified (FileBuffer x buf)"
  "fb_pos (FileBuffer x buf) = 0" "fb_file (FileBuffer x buf) = x"
  by (simp_all add: FileBuffer_def)

text \<open>A file of fewer than 22 bytes is stored in its inode; the witnesses use such files.\<close>

definition inline_file :: "byte list \<Rightarrow> file_handle" where
  "inline_file d = new_handle\<lparr>fh_inode := default_inode\<lparr>file_len := length d, inode_data := d\<rparr>\<rparr>"

lemma inline_file_space: "get_inode_data_space_size (small_fs sample_flash) (fh_inode (inline_file d)) = 22"
  by (simp add: inline_file_def new_handle_def empty_handle_def default_inode_def small_header_def
      get_inode_data_space_size_def get_checksum_size_def sub64_def)

lemma inline_file_good:
  assumes "length d < 22"
  shows "handle_good stm32_ok st_mem stm32_writable (small_fs sample_flash, inline_file d)"
    "handle_cont st_mem (small_fs sample_flash, inline_file d) = d"
    "fi_tellg (handle_ops c) (small_fs sample_flash, inline_file d) = 0"
proof -
  have io: "io_ok stm32_ok st_mem stm32_writable (small_fs sample_flash) (inline_file d)"
    using empty_file_ok by (simp add: file_ok_def io_ok_def inline_file_def valid_pages_def new_handle_def
      empty_handle_def default_inode_def)
  have f: "data_pages (fh_inode (inline_file d)) = []" "file_len (fh_inode (inline_file d)) = length d"
    "inode_data (fh_inode (inline_file d)) = d" "fh_pos (inline_file d) = 0" "file_name_len (fh_inode (inline_file d)) = 0"
    "connected (inline_file d)" "\<not> append_mode (inline_file d)"
    by (simp_all add: inline_file_def new_handle_def empty_handle_def default_inode_def)
  show "handle_good stm32_ok st_mem stm32_writable (small_fs sample_flash, inline_file d)"
    using io f assms by (simp add: handle_good_def file_ok_def inline_file_space)
  show "handle_cont st_mem (small_fs sample_flash, inline_file d) = d"
    using f by (simp add: handle_cont_def contents_def)
  show "fi_tellg (handle_ops c) (small_fs sample_flash, inline_file d) = 0"
    using f by (simp add: handle_ops_def FileHandle_tellg_def)
qed

text \<open>
  C17. Reading through the buffer is reading the file: whatever was read or written before, a read
  of at most the size of the buffer returns the bytes of the file, with those laid over it that
  are still to be written, from the position on.
\<close>

theorem buffered_read_returns_bytes:
  assumes "hb_ok b" "savable handle_can b" "n \<le> length (fb_data b)" "0 < length (fb_data b)"
    "F = handle_ops (stm32_config P crc e keep)"
  shows "\<exists>b'. FileBuffer_read F b n = Inr (take n (drop (FileBuffer_tellg F b) (hb_view b)), b')
    \<and> hb_ok b' \<and> hb_view b' = hb_view b
    \<and> FileBuffer_tellg F b' = FileBuffer_tellg F b + min n (length (hb_view b) - FileBuffer_tellg F b)"
proof -
  have "FileBuffer_read F b n = read_view F b n" using assms(3) by (simp add: FileBuffer_read_def)
  with hf.read_view_ok [OF assms(1-4), of P crc e keep] show ?thesis unfolding assms(5) by (elim exE conjE) (intro exI conjI, simp_all)
qed

theorem buffered_read_returns_bytes_witness:
  "\<exists>b'. FileBuffer_read (handle_ops (stm32_config 0 (\<lambda>_. 7) LE False))
     (FileBuffer (small_fs sample_flash, inline_file [10, 20, 30, 40, 50]) [0, 0, 0, 0]) 3 = Inr ([10, 20, 30], b')"
proof -
  let ?x = "(small_fs sample_flash, inline_file [10, 20, 30, 40, 50])"
  let ?c = "stm32_config 0 (\<lambda>_. 7) LE False"
  have g: "handle_good stm32_ok st_mem stm32_writable ?x" "handle_cont st_mem ?x = [10, 20, 30, 40, 50]"
    "fi_tellg (handle_ops ?c) ?x = 0"
    using inline_file_good [of "[10, 20, 30, 40, 50]"] by simp_all
  let ?b = "FileBuffer ?x [0, 0, 0, 0]"
  have n: "hb_ok ?b" "savable handle_can ?b" "hb_view ?b = [10, 20, 30, 40, 50]" "FileBuffer_tellg (handle_ops ?c) ?b = 0"
    using hb_new [OF g(1), of "[0, 0, 0, 0]"] g(2,3) by (simp_all add: FileBuffer_tellg_def)
  have "3 \<le> length (fb_data ?b)" "0 < length (fb_data ?b)" by simp_all
  from buffered_read_returns_bytes [OF n(1,2) this refl, of 0 "\<lambda>_. 7" LE False] obtain b' where
    "FileBuffer_read (handle_ops ?c) ?b 3 = Inr (take 3 (drop (FileBuffer_tellg (handle_ops ?c) ?b) (hb_view ?b)), b')"
    by blast
  then show ?thesis unfolding n by (simp add: eval_nat_numeral)
qed



text \<open>
  C18. \<open>get_line\<close> returns: the bytes up to the next line feed, or all that are left when there is
  none, and nothing at the end of the file; the position moves behind the line feed. This holds for
  every class of strings that can hold the line, whatever capacity it reports. The last byte of a
  file is not seen as one by \<open>eof\<close> of the file, so it must not be the only one left for an empty
  buffer.
\<close>

theorem get_line_returns_line:
  assumes "hb_ok b" "\<not> fb_modified b" "0 < length (fb_data b)"
    "fb_len b = 0 \<longrightarrow> length (hb_view b) \<noteq> Suc (FileBuffer_tellg F b)"
    "F = handle_ops (stm32_config P crc e keep)" "R = drop (FileBuffer_tellg F b) (hb_view b)"
    "holds_line S (takeWhile (\<lambda>x. x \<noteq> 10) R)"
  shows "\<exists>b'. get_line S F b =
      Some (Inr (if 10 \<in> set R then Some (takeWhile (\<lambda>x. x \<noteq> 10) R) else if R = [] then None else Some R, b'))
    \<and> hb_ok b' \<and> hb_view b' = hb_view b
    \<and> FileBuffer_tellg F b' = (if 10 \<in> set R then FileBuffer_tellg F b + length (takeWhile (\<lambda>x. x \<noteq> 10) R) + 1
        else length (hb_view b))"
proof -
  have "length (hb_view b) - FileBuffer_tellg F b < Suc (Suc (FileBuffer_file_size F b))"
    using hf.file_size_eq [OF assms(1), of P crc e keep] assms(5) by simp
  from hf.get_line_loop_ok [OF assms(1-3) this [unfolded assms(5)] assms(4) [unfolded assms(5)]
      assms(6) [unfolded assms(5)], of S "[]", folded assms(5)] assms(7)
  obtain b' where b': "get_line_loop (Suc (Suc (FileBuffer_file_size F b))) S F b [] =
      Some (Inr (if 10 \<in> set R then Some ([] @ takeWhile (\<lambda>x. x \<noteq> 10) R)
        else if [] @ R = [] then None else Some ([] @ R), b'))"
    "hb_ok b'" "hb_view b' = hb_view b"
    "FileBuffer_tellg F b' = (if 10 \<in> set R then FileBuffer_tellg F b + length (takeWhile (\<lambda>x. x \<noteq> 10) R) + 1
        else length (hb_view b))" by auto
  then show ?thesis unfolding get_line_def by (intro exI [of _ b']) simp
qed

text \<open>Strings of a fixed capacity, that throw when they are full.\<close>

definition bounded_string :: "nat \<Rightarrow> string_class" where
  "bounded_string n = \<lparr>str_capacity = (\<lambda>_. n),
     str_push_back = (\<lambda>s x. if length s < n then Inr (s @ [x]) else Inl Length_error)\<rparr>"

lemma bounded_string_holds: "length w \<le> n \<Longrightarrow> holds_line (bounded_string n) w"
  by (auto simp: holds_line_def bounded_string_def)

theorem get_line_returns_line_witness:
  "\<exists>b'. get_line (bounded_string 15) (handle_ops (stm32_config 0 (\<lambda>_. 7) LE False))
     (FileBuffer (small_fs sample_flash, inline_file [65, 66, 67, 10, 68]) [0, 0]) = Some (Inr (Some [65, 66, 67], b'))"
proof -
  let ?x = "(small_fs sample_flash, inline_file [65, 66, 67, 10, 68])"
  let ?c = "stm32_config 0 (\<lambda>_. 7) LE False"
  have g: "handle_good stm32_ok st_mem stm32_writable ?x" "handle_cont st_mem ?x = [65, 66, 67, 10, 68]"
    "fi_tellg (handle_ops ?c) ?x = 0"
    using inline_file_good [of "[65, 66, 67, 10, 68]"] by simp_all
  let ?b = "FileBuffer ?x [0, 0]"
  have n: "hb_ok ?b" "hb_view ?b = [65, 66, 67, 10, 68]" "FileBuffer_tellg (handle_ops ?c) ?b = 0"
    using hb_new [OF g(1), of "[0, 0]"] g(2,3) by (simp_all add: FileBuffer_tellg_def)
  have "\<not> fb_modified ?b" "0 < length (fb_data ?b)"
    "fb_len ?b = 0 \<longrightarrow> length (hb_view ?b) \<noteq> Suc (FileBuffer_tellg (handle_ops ?c) ?b)" using n(2,3) by simp_all
  from get_line_returns_line [OF n(1) this refl refl, of "bounded_string 15"] show ?thesis unfolding n
    by (auto simp: bounded_string_holds)
qed

section \<open>Where the buffer goes wrong\<close>

text \<open>
  C40. When the bytes in the buffer fill its memory and the position is behind them, the free room
  \<open>buffer.size() - (pos + 1)\<close> wraps around to the largest number, and the next write, of whatever
  length, leaves the memory of the buffer: the behaviour is undefined.
\<close>

theorem full_buffer_write_undefined:
  assumes "0 < fb_len b" "fb_len b = length (fb_data b)" "fb_pos b = fb_len b" "fb_modified b"
    "length (fb_data b) < 2 ^ 62" "d \<noteq> []" "length d \<le> length (fb_data b)"
  shows "FileBuffer_write F b d = Inl Undefined"
proof -
  have "sub64 (length (fb_data b)) (add64 (fb_pos b) 1) = 2 ^ 64 - 1"
    using assms(2,3,5) by (simp add: add64_small sub64_def)
  moreover have "add64 (fb_pos b) (length d) = fb_pos b + length d" using assms(2,3,5,7) by (simp add: add64_small)
  moreover have "0 < length d" using assms(6) by simp
  ultimately show ?thesis using assms by (simp add: FileBuffer_write_def write_current_def set_current_def Let_def)
qed

theorem full_buffer_write_undefined_witness:
  "FileBuffer_write (handle_ops (stm32_config 0 (\<lambda>_. 7) LE False))
     \<lparr>fb_file = (small_fs sample_flash, new_handle), fb_data = [1, 2, 3, 4], fb_len = 4, fb_start = 0, fb_pos = 4,
       fb_modified = True\<rparr> [5] = Inl Undefined"
  by (rule full_buffer_write_undefined) simp_all

text \<open>
  A write in the middle of unwritten bytes drops those behind it: \<open>current_buffer\<close> is cut to
  end with the new bytes whenever the buffer would have room to grow.
\<close>

theorem overwrite_drops_unwritten_bytes:
  assumes "hb_ok b" "fb_modified b" "d \<noteq> []" "fb_pos b + length d < fb_len b"
    "fb_pos b + length d + 1 < length (fb_data b)"
  shows "\<exists>b'. FileBuffer_write F b d = Inr (length d, b') \<and> buffered b' = take (fb_pos b) (buffered b) @ d
    \<and> length (buffered b') < length (buffered b)"
proof -
  let ?b = "b\<lparr>fb_len := fb_pos b + length d, fb_data := overlay (fb_data b) (fb_pos b) d, fb_pos := fb_pos b + length d\<rparr>"
  have l: "length (fb_data b) < 2 ^ 62" "fb_len b \<le> length (fb_data b)" using assms(1) by (simp_all add: fb_ok_def)
  then have ar: "add64 (fb_pos b) (length d) = fb_pos b + length d" "add64 (fb_pos b) 1 = fb_pos b + 1"
    "sub64 (length (fb_data b)) (fb_pos b + 1) = length (fb_data b) - (fb_pos b + 1)"
    using assms(4,5) by (simp_all add: add64_small sub64_small)
  have "0 < length d" using assms(3) by simp
  then have "FileBuffer_write F b d = Inr (length d, ?b)"
    using ar assms(2,4,5) l
    by (simp add: FileBuffer_write_def write_current_def set_current_def Let_def memcpy_to_ok)
  moreover have "buffered ?b = take (fb_pos b) (buffered b) @ d"
    using assms(4) l by (simp add: buffered_def overlay_def min_def)
  ultimately show ?thesis using assms(4) l by (intro exI [of _ ?b]) (simp add: min_def)
qed

theorem overwrite_drops_unwritten_bytes_witness:
  "\<exists>b'. FileBuffer_write (handle_ops (stm32_config 0 (\<lambda>_. 7) LE False))
     \<lparr>fb_file = (small_fs sample_flash, inline_file []), fb_data = [1, 2, 3, 4, 0, 0], fb_len = 4, fb_start = 0,
       fb_pos = 0, fb_modified = True\<rparr> [9] = Inr (1, b') \<and> buffered b' = [9]"
proof -
  let ?b = "\<lparr>fb_file = (small_fs sample_flash, inline_file []), fb_data = [1, 2, 3, 4, 0, 0], fb_len = 4,
    fb_start = 0, fb_pos = 0, fb_modified = True\<rparr>"
  have "hb_ok ?b" using inline_file_good(1) [of "[]"] by (simp add: fb_ok_def)
  from overwrite_drops_unwritten_bytes [OF this, of "[9]"] show ?thesis by (auto simp: buffered_def)
qed

text \<open>
  A seek to the byte behind a piece that was read is ignored: the file itself stands there,
  so \<open>seek\<close> returns success without a change, and the position stays inside the piece.
\<close>

theorem seek_behind_buffer_ignored:
  assumes "hb_ok b" "\<not> fb_modified b" "fb_len b \<noteq> 0" "F = handle_ops (stm32_config P crc e keep)"
    "fi_tellg F (fb_file b) = fb_start b + fb_len b"
  shows "FileBuffer_seek F b (fb_start b + fb_len b) = Inr (True, b) \<and> FileBuffer_tellg F b = fb_start b + fb_pos b"
proof -
  have "add64 (fb_start b) (fb_len b) = fb_start b + fb_len b"
    using hf.bounds(1) [OF assms(1), of] by (simp add: add64_small)
  then show ?thesis using assms(2-5) hf.tellg_eq(1) [OF assms(1), of P crc e keep]
    by (simp add: FileBuffer_seek_def)
qed

theorem seek_behind_buffer_ignored_witness:
  "\<exists>b. FileBuffer_seek (handle_ops (stm32_config 0 (\<lambda>_. 7) LE False)) b 2 = Inr (True, b)
     \<and> FileBuffer_tellg (handle_ops (stm32_config 0 (\<lambda>_. 7) LE False)) b = 1"
proof -
  let ?c = "stm32_config 0 (\<lambda>_. 7) LE False"
  let ?f = "(inline_file [4, 5, 6])\<lparr>fh_pos := 2\<rparr>"
  let ?b = "\<lparr>fb_file = (small_fs sample_flash, ?f), fb_data = [4, 5], fb_len = 2, fb_start = 0, fb_pos = 1,
    fb_modified = False\<rparr>"
  have "file_len (fh_inode (inline_file [4, 5, 6])) = 3" by (simp add: inline_file_def)
  then have "handle_good stm32_ok st_mem stm32_writable (small_fs sample_flash, ?f)"
    "handle_cont st_mem (small_fs sample_flash, ?f) = [4, 5, 6]"
    using inline_file_good(1,2) [of "[4, 5, 6]"]
      file_ok_pos [where p = 2 and f = "inline_file [4, 5, 6]" and s = "small_fs sample_flash"]
    by (simp_all add: handle_good_def handle_cont_def)
  then have ok: "hb_ok ?b" by (simp add: fb_ok_def buffered_def slice_def)
  have "fi_tellg (handle_ops ?c) (small_fs sample_flash, ?f) = 2" by (simp add: handle_ops_def FileHandle_tellg_def)
  then show ?thesis using seek_behind_buffer_ignored [OF ok _ _ refl, of 0 "\<lambda>_. 7" LE False]
    by (intro exI [of _ ?b]) (simp add: numeral_2_eq_2)
qed

end
