(* ===== verification/NoDel.thy ===== *)
theory NoDel
  imports Dynamic
begin

text \<open>
  The file system that never erases (\<open>src_2face/SimpleFlashFsNoDel.h\<close>): the static class with
  an \<open>erase_inode_and_unused_pages\<close> that does nothing (\<open>keeps_old_pages\<close> of its configuration) and
  with statistics that are collected when it is mounted.
\<close>

section \<open>State\<close>

record stat =
  largest_file_size :: nat
  trash_size :: nat
  used_inodes :: nat
  trash_inodes :: nat
  free_inodes :: nat

definition empty_stat :: stat where
  "empty_stat = \<lparr>largest_file_size = 0, trash_size = 0, used_inodes = 0, trash_inodes = 0, free_inodes = 0\<rparr>"

record 'm nodel =
  nd_fs :: "'m fs"
  nd_stat :: stat

text \<open>The constructor; \<open>crcInit\<close> fills the table that the checksum function of the configuration uses.\<close>

definition SimpleFsNoDel :: "'m \<Rightarrow> 'm nodel" where
  "SimpleFsNoDel m = \<lparr>nd_fs = SimpleFlashFsBase m, nd_stat = empty_stat\<rparr>"

section \<open>Reading the inodes\<close>

definition is_empty :: "byte list \<Rightarrow> bool" where
  "is_empty page = (case dropWhile (\<lambda>b. b = 0xFF) page of [] \<Rightarrow> True | _ \<Rightarrow> False)"

text \<open>
  \<open>read_inode\<close>: \<open>None\<close> is the empty optional. For mapped memory, a page with a wrong checksum that
  is not empty is parsed all the same, for the debug output; that handle is destroyed at once.
\<close>

definition read_inode_mapped :: "'m config \<Rightarrow> 'm fs \<Rightarrow> nat \<Rightarrow> (file_handle option \<times> 'm fs) res" where
  "read_inode_mapped c s i =
     bindE (read_page_mapped c s i (page_size (header s)) True) (\<lambda>(err, data).
     case err of
       Some ReadError \<Rightarrow> Inr (None, s)
     | Some CrcError \<Rightarrow>
         (case data of
            None \<Rightarrow> Inr (None, s)
          | Some page \<Rightarrow>
              if is_empty page then Inr (Some empty_handle, s)
              else bindE (get_inode c s page False) (\<lambda>f.
                   bindE (FileHandle_destroy c s f) (\<lambda>s. Inr (None, s))))
     | None \<Rightarrow>
         bindE (get_inode c s (the data) False) (\<lambda>f. Inr (Some f, s)))"

definition read_inode_unmapped :: "'m config \<Rightarrow> 'm fs \<Rightarrow> nat \<Rightarrow> (file_handle option \<times> 'm fs) res" where
  "read_inode_unmapped c s i =
     bindE (read_page c s i (replicate (page_size (header s)) 0) True) (\<lambda>(err, page, s).
     case err of
       Some ReadError \<Rightarrow> Inr (None, s)
     | Some CrcError \<Rightarrow> Inr (if is_empty page then Some empty_handle else None, s)
     | None \<Rightarrow> bindE (get_inode c s page False) (\<lambda>f. Inr (Some f, s)))"

definition read_inode :: "'m config \<Rightarrow> 'm fs \<Rightarrow> nat \<Rightarrow> (file_handle option \<times> 'm fs) res" where
  "read_inode c s i =
     (if mem_can_map_read (flash c) (mem s) then read_inode_mapped c s i else read_inode_unmapped c s i)"

section \<open>Mounting\<close>

text \<open>
  The body of the loop over the inode pages. The handle is destroyed at the end of its round. An
  inode page is never among the free data pages, so the \<open>erase\<close> after a read error has no effect;
  it is made all the same.
\<close>

definition note_inode :: "'m config \<Rightarrow> 'm fs \<Rightarrow> stat \<Rightarrow> nat \<Rightarrow> file_handle \<Rightarrow> ('m fs \<times> stat) res" where
  "note_inode c s st i f =
     (let f = f\<lparr>fh_page := i\<rparr>;
          s = s\<lparr>max_inode_number := max (max_inode_number s) (inode_number (fh_inode f))\<rparr>;
          (r, s) = iv_storage_add s f;
          st = (if r = replaced then st\<lparr>trash_inodes := trash_inodes st + 1\<rparr>
                else st\<lparr>used_inodes := used_inodes st + 1\<rparr>);
          st = st\<lparr>largest_file_size := max (largest_file_size st) (file_len (fh_inode f))\<rparr>;
          st = st\<lparr>trash_size := add64 (trash_size st)
                 (mul64 (length (data_pages (fh_inode f))) (page_size (header s)))\<rparr>;
          s = take_used_pages s f
      in bindE (FileHandle_destroy c s f) (\<lambda>s. Inr (s, st)))"

fun nodel_loop :: "'m config \<Rightarrow> 'm fs \<Rightarrow> stat \<Rightarrow> nat list \<Rightarrow> ('m fs \<times> stat) res" where
  "nodel_loop c s st [] = Inr (s, st)"
| "nodel_loop c s st (i # is) =
     bindE (read_inode c s i) (\<lambda>(r, s).
     case r of
       None \<Rightarrow>
         nodel_loop c (s\<lparr>free_data_pages := snd (PageSet_erase (free_data_pages s) i)\<rparr>) st is
     | Some f \<Rightarrow>
         if \<not> connected f then nodel_loop c s st is
         else bindE (note_inode c s st i f) (\<lambda>(s, st). nodel_loop c s st is))"

definition nodel_read_all_free_data_pages :: "'m config \<Rightarrow> 'm nodel \<Rightarrow> 'm nodel res" where
  "nodel_read_all_free_data_pages c n =
     (let s = (fill_free_data_pages (nd_fs n))\<lparr>iv_storage := []\<rparr>
      in bindE (nodel_loop c s empty_stat [0..<max_inodes (header s)]) (\<lambda>(s, st).
         Inr \<lparr>nd_fs = s, nd_stat = st\<lparr>free_inodes :=
           sub64 (sub64 (max_inodes (header s)) (used_inodes st)) (trash_inodes st)\<rparr>\<rparr>))"

definition nodel_init :: "'m config \<Rightarrow> 'm nodel \<Rightarrow> (bool \<times> 'm nodel) res" where
  "nodel_init c n =
     bindE (init c (nd_fs n)) (\<lambda>(done, s).
     if \<not> done then Inr (False, n\<lparr>nd_fs := s\<rparr>)
     else bindE (nodel_read_all_free_data_pages c (n\<lparr>nd_fs := s\<rparr>)) (\<lambda>n. Inr (True, n)))"

text \<open>
  \<open>create\<close>: the parameters are \<open>Config::MAX_SIZE\<close> and \<open>Config::FILE_NAME_MAX\<close>. The last thing
  \<open>create\<close> of the base does is to call \<open>init\<close>, which is the one of this class.
\<close>

definition nodel_create :: "nat \<Rightarrow> nat \<Rightarrow> 'm config \<Rightarrow> 'm nodel \<Rightarrow> (bool \<times> 'm nodel) res" where
  "nodel_create max_size name_max c n =
     bindE (requireE Undefined (0 < PAGE_SIZE c)) (\<lambda>_.
     let h = (create_default_header c (PAGE_SIZE c) (max_size div PAGE_SIZE c))\<lparr>max_path_len := name_max mod 2 ^ 16\<rparr>
     in bindE (create (\<lambda>c s. Inr (True, s)) c (nd_fs n) h) (\<lambda>(done, s).
        if \<not> done then Inr (False, n\<lparr>nd_fs := s\<rparr>) else nodel_init c (n\<lparr>nd_fs := s\<rparr>)))"

end
