(* ===== verification/MountSpec.thy ===== *)
theory MountSpec
  imports NoDel Commit
begin

text \<open>
  What mounting finds out about the flash: the free data pages are exactly those no valid inode
  refers to, and no inode number above the one that is kept is in use.
\<close>

section \<open>The inodes on the flash\<close>

definition stored_inode :: "'m config \<Rightarrow> ('m \<Rightarrow> byte list) \<Rightarrow> 'm fs \<Rightarrow> nat \<Rightarrow> file_handle option" where
  "stored_inode c cells s i =
     (let p = page_at (page_size (header s)) i (cells (mem s))
      in if checksum_ok c (fs_endianness (header s)) p
         then (case get_inode c s p False of Inr f \<Rightarrow> Some f | Inl _ \<Rightarrow> None) else None)"

definition used_pages :: "'m config \<Rightarrow> ('m \<Rightarrow> byte list) \<Rightarrow> 'm fs \<Rightarrow> nat list \<Rightarrow> nat set" where
  "used_pages c cells s is = (\<Union>i \<in> set is. case stored_inode c cells s i of None \<Rightarrow> {}
     | Some f \<Rightarrow> page_id ` set (data_pages (fh_inode f)))"

text \<open>
  Every inode page that is written can be parsed, and needs no correction. Pages with a wrong
  checksum count as well when \<open>mapped\<close>: they are parsed for the debug output.
\<close>

definition readable_inodes :: "'m config \<Rightarrow> ('m \<Rightarrow> byte list) \<Rightarrow> 'm fs \<Rightarrow> bool" where
  "readable_inodes c cells s \<longleftrightarrow> (\<forall>i < max_inodes (header s).
     let p = page_at (page_size (header s)) i (cells (mem s))
     in checksum_ok c (fs_endianness (header s)) p \<or> mem_can_map_read (flash c) (mem s) \<and> \<not> is_empty p \<longrightarrow>
        (\<exists>f. get_inode c s p False = Inr f \<and> \<not> modified f))"

lemma get_data_pages_cong:
  "header s = header s' \<Longrightarrow>
   get_data_pages c s page b pos n len_read f = get_data_pages c s' page b pos n len_read f"
  by (induction n arbitrary: pos len_read f) (simp_all only: get_data_pages.simps)

lemma get_inode_cong: "header s = header s' \<Longrightarrow> get_inode c s page b = get_inode c s' page b"
  unfolding get_inode_def get_inline_data_def get_inode_data_space_size_def get_checksum_size_def
  by (simp only: get_data_pages_cong [of s s'])

lemma get_data_pages_connected:
  "get_data_pages c s page b pos n len_read f = Inr g \<Longrightarrow> connected g = connected f"
proof (induction n arbitrary: b pos len_read f)
  case (Suc n)
  then show ?case by (auto simp: res_simps split: if_splits dest!: Suc.IH)
qed simp

lemma get_inode_connected: "get_inode c s page b = Inr f \<Longrightarrow> connected f"
  by (auto simp: get_inode_def get_inline_data_def Let_def new_handle_def res_simps
      dest!: get_data_pages_connected split: if_splits)

lemma stored_inode_cong:
  "header s' = header s \<Longrightarrow> cells (mem s') = cells (mem s) \<Longrightarrow> stored_inode c cells s' = stored_inode c cells s"
  using get_inode_cong [of s' s c] by (intro ext) (simp add: stored_inode_def Let_def cong: if_cong)

lemma readable_inodes_cong:
  "header s' = header s \<Longrightarrow> cells (mem s') = cells (mem s) \<Longrightarrow>
   mem_can_map_read (flash c) (mem s') = mem_can_map_read (flash c) (mem s) \<Longrightarrow>
   readable_inodes c cells s' = readable_inodes c cells s"
  using get_inode_cong [of s' s c] by (simp add: readable_inodes_def Let_def)

text \<open>The destructor of a handle that was only read.\<close>

definition kept_claims :: "page_set \<Rightarrow> page_set \<Rightarrow> bool" where
  "kept_claims C A \<longleftrightarrow> (ps_inv C \<longrightarrow> ps_inv A \<and> elems A \<subseteq> elems C)"

lemma kept_claims_refl [simp]: "kept_claims C C"
  by (simp add: kept_claims_def)

lemma kept_claims_trans: "kept_claims C A \<Longrightarrow> kept_claims A B \<Longrightarrow> kept_claims C B"
  by (auto simp: kept_claims_def)

lemma kept_claims_erase: "kept_claims C (snd (PageSet_erase C p))"
  using PageSet_erase_facts by (auto simp: kept_claims_def)

lemma frees_facts:
  "\<exists>A. foldl (\<lambda>s p. free_unwritten_pages s (page_id p)) s ps = s\<lparr>allocated_unwritten_pages := A\<rparr>
    \<and> kept_claims (allocated_unwritten_pages s) A"
proof (induction ps arbitrary: s)
  case Nil
  show ?case by (intro exI [of _ "allocated_unwritten_pages s"]) simp
next
  case (Cons p ps)
  from Cons.IH [of "free_unwritten_pages s (page_id p)"] obtain A where
    "foldl (\<lambda>s p. free_unwritten_pages s (page_id p)) (free_unwritten_pages s (page_id p)) ps
      = (free_unwritten_pages s (page_id p))\<lparr>allocated_unwritten_pages := A\<rparr>"
    "kept_claims (snd (PageSet_erase (allocated_unwritten_pages s) (page_id p))) A" by (auto simp: free_unwritten_pages_def)
  then show ?case using kept_claims_trans [OF kept_claims_erase]
    by (intro exI [of _ A]) (simp add: free_unwritten_pages_def)
qed

lemma destroy_unmodified_claims:
  assumes "\<not> modified f"
  shows "\<exists>A. FileHandle_destroy c s f = Inr (s\<lparr>allocated_unwritten_pages := A\<rparr>)
    \<and> kept_claims (allocated_unwritten_pages s) A"
proof (cases "connected f")
  case True
  then have "FileHandle_destroy c s f = Inr (foldl (\<lambda>s p. free_unwritten_pages s (page_id p))
      (free_unwritten_pages s (fh_page f)) (data_pages (fh_inode f)))"
    using assms by (simp add: FileHandle_destroy_def flush_def)
  with frees_facts [of "free_unwritten_pages s (fh_page f)" "data_pages (fh_inode f)"] show ?thesis
    using kept_claims_trans [OF kept_claims_erase] by (auto simp: free_unwritten_pages_def)
next
  case False
  then show ?thesis by (intro exI [of _ "allocated_unwritten_pages s"]) (simp add: FileHandle_destroy_def)
qed

lemma destroy_unmodified:
  assumes "\<not> modified f"
  shows "\<exists>A. FileHandle_destroy c s f = Inr (s\<lparr>allocated_unwritten_pages := A\<rparr>)"
  using destroy_unmodified_claims [OF assms] by blast

lemma fill_ok:
  assumes "geometry (header s) n"
  shows "ps_inv (free_data_pages (fill_free_data_pages s))"
    "elems (free_data_pages (fill_free_data_pages s)) = {max_inodes (header s)..<filesystem_size (header s) - 1}"
    "header (fill_free_data_pages s) = header s" "mem (fill_free_data_pages s) = mem s"
    "max_inode_number (fill_free_data_pages s) = max_inode_number s"
proof -
  note geo = geometryD [OF assms]
  have all: "all_data_pages (header s) = [max_inodes (header s)..<filesystem_size (header s) - 1]"
    using geo(6,7) by (simp add: all_data_pages_def sub64_small)
  have "ps_inv (foldl PageSet_unordered_insert A [a..<b])
      \<and> elems (foldl PageSet_unordered_insert A [a..<b]) = elems A \<union> {a..<b}"
    if "ps_inv A" "elems A \<inter> {a..<b} = {}" "b \<le> NO_DATA" for A a b
    using unordered_inserts_facts [of A "map (\<lambda>n. \<lparr>page_id = n, dp_state = New\<rparr>) [a..<b]"] that
    by (simp add: foldl_map comp_def image_image)
  from this [of "PageSet_clear (free_data_pages s)" "max_inodes (header s)" "filesystem_size (header s) - 1"]
  have "ps_inv (free_data_pages (fill_free_data_pages s))
      \<and> elems (free_data_pages (fill_free_data_pages s)) = {max_inodes (header s)..<filesystem_size (header s) - 1}"
    using geo(7) by (simp add: fill_free_data_pages_def all NO_DATA_def)
  then show "ps_inv (free_data_pages (fill_free_data_pages s))"
    "elems (free_data_pages (fill_free_data_pages s)) = {max_inodes (header s)..<filesystem_size (header s) - 1}" by simp_all
  show "header (fill_free_data_pages s) = header s" "mem (fill_free_data_pages s) = mem s"
    "max_inode_number (fill_free_data_pages s) = max_inode_number s" by (simp_all add: fill_free_data_pages_def)
qed

section \<open>Mounting without erasing\<close>

context fs_on_flash
begin

lemma read_inode_ok:
  assumes "ok (mem s)" "geometry (header s) (length (cells (mem s)))" "readable_inodes c cells s"
    "i < max_inodes (header s)"
  shows "\<exists>r m' A. read_inode c s i = Inr (r, s\<lparr>mem := m', allocated_unwritten_pages := A\<rparr>)
    \<and> same_flash (flash c) ok cells writable (mem s) m'
    \<and> (case stored_inode c cells s i of Some f \<Rightarrow> r = Some f \<and> connected f \<and> \<not> modified f
       | None \<Rightarrow> r = None \<or> r = Some empty_handle)"
proof -
  let ?ps = "page_size (header s)"
  let ?p = "page_at ?ps i (cells (mem s))"
  note geo = geometryD [OF assms(2)]
  have pin: "page_in ?ps i (length (cells (mem s)))"
    by (rule geometry_page_in [OF assms(2)]) (use assms(4) geo(6) in linarith)
  have rd: "checksum_ok c (fs_endianness (header s)) ?p \<or> mem_can_map_read (flash c) (mem s) \<and> \<not> is_empty ?p \<Longrightarrow>
      \<exists>f. get_inode c s ?p False = Inr f \<and> \<not> modified f"
    using assms(3,4) unfolding readable_inodes_def Let_def by blast
  have same: "same_flash (flash c) ok cells writable (mem s) (mem s)" by (rule same_flash_refl [of ok, OF assms(1)])
  show ?thesis
  proof (cases "mem_can_map_read (flash c) (mem s)")
    case True
    note m = read_page_mapped_in [OF assms(1) True geo(2) pin geo(3)]
    show ?thesis
    proof (cases "checksum_ok c (fs_endianness (header s)) ?p")
      case valid: True
      with rd obtain f where f: "get_inode c s ?p False = Inr f" "\<not> modified f" by blast
      then show ?thesis using True valid m get_inode_connected [OF f(1)] same
        by (intro exI [of _ "Some f"] exI [of _ "mem s"] exI [of _ "allocated_unwritten_pages s"])
          (simp add: read_inode_def read_inode_mapped_def stored_inode_def Let_def)
    next
      case invalid: False
      show ?thesis
      proof (cases "is_empty ?p")
        case empty: True
        then show ?thesis using True invalid m same
          by (intro exI [of _ "Some empty_handle"] exI [of _ "mem s"] exI [of _ "allocated_unwritten_pages s"])
            (simp add: read_inode_def read_inode_mapped_def stored_inode_def Let_def)
      next
        case False
        with True rd obtain f where f: "get_inode c s ?p False = Inr f" "\<not> modified f" by blast
        from destroy_unmodified [OF f(2), of c s] obtain A where
          "FileHandle_destroy c s f = Inr (s\<lparr>allocated_unwritten_pages := A\<rparr>)" by blast
        then show ?thesis using True invalid False m f same
          by (intro exI [of _ None] exI [of _ "mem s"] exI [of _ A])
            (simp add: read_inode_def read_inode_mapped_def stored_inode_def Let_def)
      qed
    qed
  next
    case False
    from read_page_in [OF assms(1) geo(2) _ pin, of "replicate ?ps 0" True] geo(3) obtain m' where
      m: "read_page c s i (replicate ?ps 0) True = Inr
        (if \<not> checksum_ok c (fs_endianness (header s)) ?p then Some CrcError else None, ?p, s\<lparr>mem := m'\<rparr>)"
        "same_flash (flash c) ok cells writable (mem s) m'" by auto
    show ?thesis
    proof (cases "checksum_ok c (fs_endianness (header s)) ?p")
      case valid: True
      with rd obtain f where f: "get_inode c s ?p False = Inr f" "\<not> modified f" by blast
      then have "get_inode c (s\<lparr>mem := m'\<rparr>) ?p False = Inr f" using get_inode_cong [of s "s\<lparr>mem := m'\<rparr>" c] by simp
      then show ?thesis using False valid m f get_inode_connected [OF f(1)]
        by (intro exI [of _ "Some f"] exI [of _ m'] exI [of _ "allocated_unwritten_pages s"])
          (simp add: read_inode_def read_inode_unmapped_def stored_inode_def Let_def)
    next
      case invalid: False
      then show ?thesis using False m
        by (intro exI [of _ "if is_empty ?p then Some empty_handle else None"] exI [of _ m']
            exI [of _ "allocated_unwritten_pages s"])
          (simp add: read_inode_def read_inode_unmapped_def stored_inode_def Let_def)
    qed
  qed
qed

lemma note_inode_ok:
  assumes "\<not> modified f" "ps_inv (free_data_pages s)"
  shows "\<exists>s' st'. note_inode c s st i f = Inr (s', st') \<and> header s' = header s \<and> mem s' = mem s
    \<and> ps_inv (free_data_pages s') \<and> elems (free_data_pages s') = elems (free_data_pages s) - page_id ` set (data_pages (fh_inode f))
    \<and> max_inode_number s' = max (max_inode_number s) (inode_number (fh_inode f))
    \<and> used_inodes st' + trash_inodes st' = Suc (used_inodes st + trash_inodes st)"
proof -
  let ?f = "f\<lparr>fh_page := i\<rparr>"
  let ?s = "s\<lparr>max_inode_number := max (max_inode_number s) (inode_number (fh_inode f))\<rparr>"
  obtain r prev ivs where a: "InodeVersionStore_add (iv_storage s) ?f (0, 0) = (r, prev, ivs)"
    by (metis prod_cases3)
  have add: "iv_storage_add ?s ?f = (r, ?s\<lparr>iv_storage := ivs\<rparr>)" using a by (simp add: iv_storage_add_def)
  have "\<not> modified ?f" using assms(1) by simp
  from destroy_unmodified [OF this, of c "take_used_pages (?s\<lparr>iv_storage := ivs\<rparr>) ?f"] obtain A where
    d: "FileHandle_destroy c (take_used_pages (?s\<lparr>iv_storage := ivs\<rparr>) ?f) ?f =
      Inr ((take_used_pages (?s\<lparr>iv_storage := ivs\<rparr>) ?f)\<lparr>allocated_unwritten_pages := A\<rparr>)" by blast
  have e: "ps_inv (foldl (\<lambda>A p. snd (PageSet_erase A (page_id p))) (free_data_pages s) (data_pages (fh_inode f)))"
    "elems (foldl (\<lambda>A p. snd (PageSet_erase A (page_id p))) (free_data_pages s) (data_pages (fh_inode f)))
      = elems (free_data_pages s) - page_id ` set (data_pages (fh_inode f))"
    using erases_facts [OF assms(2), of "data_pages (fh_inode f)"] by simp_all
  let ?st = "st\<lparr>used_inodes := (if r = replaced then used_inodes st else used_inodes st + 1),
    trash_inodes := (if r = replaced then trash_inodes st + 1 else trash_inodes st),
    largest_file_size := max (largest_file_size st) (file_len (fh_inode f)),
    trash_size := add64 (trash_size st) (mul64 (length (data_pages (fh_inode f))) (page_size (header s)))\<rparr>"
  have "note_inode c s st i f =
      Inr ((take_used_pages (?s\<lparr>iv_storage := ivs\<rparr>) ?f)\<lparr>allocated_unwritten_pages := A\<rparr>, ?st)"
    using add d by (simp add: note_inode_def Let_def)
  then show ?thesis using e
    by (intro exI [of _ "(take_used_pages (?s\<lparr>iv_storage := ivs\<rparr>) ?f)\<lparr>allocated_unwritten_pages := A\<rparr>"] exI [of _ ?st])
      (simp add: take_used_pages_def)
qed

lemma nodel_loop_ok:
  assumes "ok (mem s)" "geometry (header s) (length (cells (mem s)))" "readable_inodes c cells s"
    "\<forall>i \<in> set is. i < max_inodes (header s)" "ps_inv (free_data_pages s)"
    "\<forall>p \<in> elems (free_data_pages s). max_inodes (header s) \<le> p"
  shows "\<exists>s' st'. nodel_loop c s st is = Inr (s', st') \<and> header s' = header s
    \<and> same_flash (flash c) ok cells writable (mem s) (mem s')
    \<and> ps_inv (free_data_pages s') \<and> elems (free_data_pages s') = elems (free_data_pages s) - used_pages c cells s is
    \<and> max_inode_number s \<le> max_inode_number s'
    \<and> (\<forall>i \<in> set is. \<forall>f. stored_inode c cells s i = Some f \<longrightarrow> inode_number (fh_inode f) \<le> max_inode_number s')
    \<and> used_inodes st' + trash_inodes st' =
        used_inodes st + trash_inodes st + length (filter (\<lambda>i. stored_inode c cells s i \<noteq> None) is)"
  using assms
proof (induction "is" arbitrary: s st)
  case Nil
  then show ?case using same_flash_refl [of ok, OF Nil.prems(1)]
    by (intro exI [of _ s] exI [of _ st]) (simp add: used_pages_def)
next
  case (Cons i "is")
  have i: "i < max_inodes (header s)" using Cons.prems(4) by simp
  from read_inode_ok [OF Cons.prems(1-3) i] obtain r m' A where
    r: "read_inode c s i = Inr (r, s\<lparr>mem := m', allocated_unwritten_pages := A\<rparr>)"
      "same_flash (flash c) ok cells writable (mem s) m'"
      "case stored_inode c cells s i of Some f \<Rightarrow> r = Some f \<and> connected f \<and> \<not> modified f
       | None \<Rightarrow> r = None \<or> r = Some empty_handle" by blast
  let ?s = "s\<lparr>mem := m', allocated_unwritten_pages := A\<rparr>"
  have m': "ok m'" "cells m' = cells (mem s)" "mem_can_map_read (flash c) m' = mem_can_map_read (flash c) (mem s)"
    using r(2) by (simp_all add: same_flash_def)
  have go: "\<exists>s' st'. nodel_loop c t st2 is = Inr (s', st') \<and> header s' = header s
    \<and> same_flash (flash c) ok cells writable (mem s) (mem s')
    \<and> ps_inv (free_data_pages s') \<and> elems (free_data_pages s') = elems (free_data_pages t) - used_pages c cells s is
    \<and> max_inode_number t \<le> max_inode_number s'
    \<and> (\<forall>i \<in> set is. \<forall>f. stored_inode c cells s i = Some f \<longrightarrow> inode_number (fh_inode f) \<le> max_inode_number s')
    \<and> used_inodes st' + trash_inodes st' =
        used_inodes st2 + trash_inodes st2 + length (filter (\<lambda>i. stored_inode c cells s i \<noteq> None) is)"
    if t: "header t = header s" "mem t = m'" "ps_inv (free_data_pages t)"
      "elems (free_data_pages t) \<subseteq> elems (free_data_pages s)" for t st2
  proof -
    have ct: "stored_inode c cells t = stored_inode c cells s" "readable_inodes c cells t"
      "used_pages c cells t is = used_pages c cells s is"
      using stored_inode_cong [of t s cells c] readable_inodes_cong [of t s cells c] t(1,2) m' Cons.prems(3)
      by (simp_all add: used_pages_def)
    have pre: "ok (mem t)" "geometry (header t) (length (cells (mem t)))"
      "\<forall>i \<in> set is. i < max_inodes (header t)" "\<forall>p \<in> elems (free_data_pages t). max_inodes (header t) \<le> p"
      using t m' Cons.prems(2,4,6) by auto
    from Cons.IH [OF pre(1,2) ct(2) pre(3) t(3) pre(4), of st2] show ?thesis
      using same_flash_trans [OF r(2)] t(1,2) ct(1,3) by auto
  qed
  show ?case
  proof (cases "stored_inode c cells s i")
    case None
    have sub: "elems (free_data_pages s) - {i} = elems (free_data_pages s)" using Cons.prems(6) i by auto
    let ?t = "if r = None then ?s\<lparr>free_data_pages := snd (PageSet_erase (free_data_pages s) i)\<rparr> else ?s"
    have loop: "nodel_loop c s st (i # is) = nodel_loop c ?t st is"
      using r(1,3) None by (auto simp: empty_handle_def)
    have t: "header ?t = header s" "mem ?t = m'" "ps_inv (free_data_pages ?t)"
      "elems (free_data_pages ?t) = elems (free_data_pages s)" "max_inode_number ?t = max_inode_number s"
      using PageSet_erase_facts(1,2) [OF Cons.prems(5), of i] Cons.prems(5) sub by simp_all
    have u: "used_pages c cells s (i # is) = used_pages c cells s is" using None by (simp add: used_pages_def)
    from go [OF t(1-3), of st] t(4,5) show ?thesis unfolding loop u using None by simp
  next
    case (Some f)
    then have f: "r = Some f" "connected f" "\<not> modified f" using r(3) by simp_all
    have "ps_inv (free_data_pages ?s)" using Cons.prems(5) by simp
    from note_inode_ok [OF f(3) this, of st i] obtain t st2 where
      n: "note_inode c ?s st i f = Inr (t, st2)" and t: "header t = header s" "mem t = m'"
        "ps_inv (free_data_pages t)" "elems (free_data_pages t) = elems (free_data_pages s) - page_id ` set (data_pages (fh_inode f))"
        "max_inode_number t = max (max_inode_number s) (inode_number (fh_inode f))"
        "used_inodes st2 + trash_inodes st2 = Suc (used_inodes st + trash_inodes st)" by auto
    have loop: "nodel_loop c s st (i # is) = nodel_loop c t st2 is" using r(1) f n by simp
    have u: "used_pages c cells s (i # is) = page_id ` set (data_pages (fh_inode f)) \<union> used_pages c cells s is"
      using Some by (simp add: used_pages_def)
    have "elems (free_data_pages t) \<subseteq> elems (free_data_pages s)" using t(4) by blast
    from go [OF t(1-3) this, of st2] obtain s' st' where
      g: "nodel_loop c t st2 is = Inr (s', st')" "header s' = header s"
        "same_flash (flash c) ok cells writable (mem s) (mem s')"
        "ps_inv (free_data_pages s')" "elems (free_data_pages s') = elems (free_data_pages t) - used_pages c cells s is"
        "max_inode_number t \<le> max_inode_number s'"
        "\<forall>i \<in> set is. \<forall>f. stored_inode c cells s i = Some f \<longrightarrow> inode_number (fh_inode f) \<le> max_inode_number s'"
        "used_inodes st' + trash_inodes st' =
          used_inodes st2 + trash_inodes st2 + length (filter (\<lambda>i. stored_inode c cells s i \<noteq> None) is)"
      by (elim exE conjE) (rule that, assumption+)
    then show ?thesis unfolding loop u using t(4-6) Some
      by (intro exI [of _ s'] exI [of _ st']) auto
  qed
qed

end

end
