(* ===== verification/MountProps.thy ===== *)
theory MountProps
  imports MountSpec FileAccess
begin

text \<open>The properties of mounting, on the simulated internal flash.\<close>

lemma sample_page: "i < 7 \<Longrightarrow> page_at 64 i (st_mem sample_flash) = replicate 64 0xFF"
  by (simp add: sample_flash page_at_def erased_def slice_def)

lemma sample_readable:
  assumes "crc32 c = (\<lambda>_. 7)"
  shows "readable_inodes c st_mem (small_fs sample_flash)" "i < 4 \<Longrightarrow> stored_inode c st_mem (small_fs sample_flash) i = None"
proof -
  have "\<not> checksum_ok c LE (page_at 64 i (st_mem sample_flash))" if "i < 4" for i
    using erased_not_ok [of i 512 c] that assms by (simp add: sample_flash page_in_def)
  moreover have "is_empty (replicate 64 0xFF)" by (simp add: is_empty_def dropWhile_eq_Nil_conv)
  ultimately show "readable_inodes c st_mem (small_fs sample_flash)"
    "i < 4 \<Longrightarrow> stored_inode c st_mem (small_fs sample_flash) i = None"
    by (simp_all add: readable_inodes_def stored_inode_def sample_page Let_def)
qed

text \<open>
  C14. Mounting the file system that never erases leaves the flash alone and finds the free pages:
  those between the inode pages and the end that no valid inode, of whatever version, refers to. No
  inode number in use is above the one that new files start from, and \<open>free_inodes\<close> counts the
  inode pages that hold no valid inode.
\<close>

theorem nodel_mount_finds_free_pages:
  assumes "stm32_ok (mem s)" "geometry (header s) (length (st_mem (mem s)))"
    "c = stm32_config P crc e keep" "readable_inodes c st_mem s"
  shows "\<exists>n. nodel_read_all_free_data_pages c \<lparr>nd_fs = s, nd_stat = st\<rparr> = Inr n
    \<and> st_mem (mem (nd_fs n)) = st_mem (mem s) \<and> header (nd_fs n) = header s \<and> ps_inv (free_data_pages (nd_fs n))
    \<and> elems (free_data_pages (nd_fs n)) =
        {max_inodes (header s)..<filesystem_size (header s) - 1} - used_pages c st_mem s [0..<max_inodes (header s)]
    \<and> (\<forall>i < max_inodes (header s). \<forall>f. stored_inode c st_mem s i = Some f \<longrightarrow>
         inode_number (fh_inode f) \<le> max_inode_number (nd_fs n))
    \<and> free_inodes (nd_stat n) = max_inodes (header s)
        - card {i. i < max_inodes (header s) \<and> stored_inode c st_mem s i \<noteq> None}"
proof -
  let ?s = "(fill_free_data_pages s)\<lparr>iv_storage := []\<rparr>" and ?n = "max_inodes (header s)"
  note fill = fill_ok [OF assms(2)]
  have cg: "stored_inode c st_mem ?s = stored_inode c st_mem s" "readable_inodes c st_mem ?s"
    "used_pages c st_mem ?s is = used_pages c st_mem s is" for "is"
    using stored_inode_cong [of ?s s st_mem c] readable_inodes_cong [of ?s s st_mem c] fill(3,4) assms(4)
    by (simp_all add: used_pages_def)
  have pre: "stm32_ok (mem ?s)" "geometry (header ?s) (length (st_mem (mem ?s)))"
    "\<forall>i \<in> set [0..<?n]. i < max_inodes (header ?s)" "ps_inv (free_data_pages ?s)"
    "\<forall>p \<in> elems (free_data_pages ?s). max_inodes (header ?s) \<le> p"
    using assms(1,2) fill by simp_all
  from fs_stm32.nodel_loop_ok [OF pre(1,2) cg(2) [unfolded assms(3)] pre(3-5), of empty_stat, folded assms(3)] obtain s' st' where
    l: "nodel_loop c ?s empty_stat [0..<?n] = Inr (s', st')" "header s' = header ?s"
      "same_flash (flash c) stm32_ok st_mem stm32_writable (mem ?s) (mem s')" "ps_inv (free_data_pages s')"
      "elems (free_data_pages s') = elems (free_data_pages ?s) - used_pages c st_mem ?s [0..<?n]"
      "max_inode_number ?s \<le> max_inode_number s'"
      "\<forall>i \<in> set [0..<?n]. \<forall>f. stored_inode c st_mem ?s i = Some f \<longrightarrow> inode_number (fh_inode f) \<le> max_inode_number s'"
      "used_inodes st' + trash_inodes st' =
        used_inodes empty_stat + trash_inodes empty_stat + length (filter (\<lambda>i. stored_inode c st_mem ?s i \<noteq> None) [0..<?n])"
    by (elim exE conjE) (rule that, assumption+)
  let ?k = "length (filter (\<lambda>i. stored_inode c st_mem s i \<noteq> None) [0..<?n])"
  have "?k = card {i. i < ?n \<and> stored_inode c st_mem s i \<noteq> None}"
    using distinct_card [of "filter (\<lambda>i. stored_inode c st_mem s i \<noteq> None) [0..<?n]"] by (auto simp: conj_commute)
  moreover have "?k \<le> ?n" using length_filter_le [of _ "[0..<?n]"] by simp
  moreover have "used_inodes st' + trash_inodes st' = ?k" using l(8) unfolding cg(1) by (simp add: empty_stat_def)
  moreover have "?n < 2 ^ 32" using geometryD(6,7) [OF assms(2)] by simp
  ultimately have free: "sub64 (sub64 ?n (used_inodes st')) (trash_inodes st') =
      ?n - card {i. i < ?n \<and> stored_inode c st_mem s i \<noteq> None}" by (simp add: sub64_small)
  let ?r = "\<lparr>nd_fs = s', nd_stat = st'\<lparr>free_inodes := sub64 (sub64 (max_inodes (header s')) (used_inodes st')) (trash_inodes st')\<rparr>\<rparr>"
  have "nodel_read_all_free_data_pages c \<lparr>nd_fs = s, nd_stat = st\<rparr> = Inr ?r"
    using l(1) fill(3) by (simp add: nodel_read_all_free_data_pages_def Let_def)
  then show ?thesis using l fill free unfolding cg
    by (intro exI [of _ ?r]) (simp add: same_flash_def)
qed

theorem nodel_mount_finds_free_pages_witness:
  "\<exists>n. nodel_read_all_free_data_pages (stm32_config 0 (\<lambda>_. 7) LE True)
      \<lparr>nd_fs = small_fs sample_flash, nd_stat = empty_stat\<rparr> = Inr n
    \<and> elems (free_data_pages (nd_fs n)) = {4, 5, 6} \<and> free_inodes (nd_stat n) = 4"
proof -
  let ?c = "stm32_config 0 (\<lambda>_. 7) LE True" and ?s = "small_fs sample_flash"
  have pre: "stm32_ok (mem ?s)" "geometry (header ?s) (length (st_mem (mem ?s)))"
    by (simp_all add: sample_flash geometry_def)
  have c: "crc32 ?c = (\<lambda>_. 7)" by simp
  from nodel_mount_finds_free_pages [OF pre refl sample_readable(1) [OF c], of empty_stat] obtain n where
    n: "nodel_read_all_free_data_pages ?c \<lparr>nd_fs = ?s, nd_stat = empty_stat\<rparr> = Inr n"
      "elems (free_data_pages (nd_fs n)) =
        {max_inodes (header ?s)..<filesystem_size (header ?s) - 1} - used_pages ?c st_mem ?s [0..<max_inodes (header ?s)]"
      "free_inodes (nd_stat n) = max_inodes (header ?s)
        - card {i. i < max_inodes (header ?s) \<and> stored_inode ?c st_mem ?s i \<noteq> None}"
    by (elim exE conjE) (rule that, assumption+)
  have none: "stored_inode ?c st_mem ?s i = None" if "i < 4" for i by (rule sample_readable(2) [OF c that])
  have "used_pages ?c st_mem ?s [0..<4] = {}" using none by (auto simp: used_pages_def)
  moreover have e: "{i. i < 4 \<and> stored_inode ?c st_mem ?s i \<noteq> None} = {}" using none by auto
  moreover have "{4..<7 :: nat} = {4, 5, 6}" by auto
  ultimately have "elems (free_data_pages (nd_fs n)) = {4, 5, 6}" using n(2) by simp
  moreover have "free_inodes (nd_stat n) = 4" using n(3) unfolding small_fs_simps small_header_simps e by simp
  ultimately show ?thesis using n(1) by blast
qed

end
