(* ===== verification/LookupSpec.thy ===== *)
theory LookupSpec
  imports MountSpec FileAccess
begin

text \<open>
  Looking up a name (\<open>find_file\<close>): both variants go through the same inodes, and what they find is
  the newest version of the file.
\<close>

section \<open>The inodes in the order of their pages\<close>

text \<open>Every valid inode page can be parsed, with the same result whether or not errors are corrected.\<close>

definition clean_inodes :: "'m config \<Rightarrow> ('m \<Rightarrow> byte list) \<Rightarrow> 'm fs \<Rightarrow> bool" where
  "clean_inodes c cells s \<longleftrightarrow> (\<forall>i < max_inodes (header s).
     let p = page_at (page_size (header s)) i (cells (mem s))
     in checksum_ok c (fs_endianness (header s)) p \<longrightarrow>
        (\<exists>f. get_inode c s p False = Inr f \<and> get_inode c s p True = Inr f \<and> \<not> modified f))"

definition found_inodes :: "'m config \<Rightarrow> ('m \<Rightarrow> byte list) \<Rightarrow> 'm fs \<Rightarrow> nat list \<Rightarrow> file_handle list" where
  "found_inodes c cells s is =
     concat (map (\<lambda>i. case stored_inode c cells s i of None \<Rightarrow> [] | Some f \<Rightarrow> [f\<lparr>fh_page := i\<rparr>]) is)"

lemma clean_inodes_cong:
  "header s' = header s \<Longrightarrow> cells (mem s') = cells (mem s) \<Longrightarrow> clean_inodes c cells s' = clean_inodes c cells s"
  using get_inode_cong [of s' s c] by (simp add: clean_inodes_def Let_def)

lemma found_inodes_Cons: "found_inodes c cells s (i # is) =
  (case stored_inode c cells s i of None \<Rightarrow> [] | Some f \<Rightarrow> [f\<lparr>fh_page := i\<rparr>]) @ found_inodes c cells s is"
  by (simp add: found_inodes_def)

lemma set_found_inodes: "f \<in> set (found_inodes c cells s is) \<longleftrightarrow>
  (\<exists>i \<in> set is. \<exists>g. stored_inode c cells s i = Some g \<and> f = g\<lparr>fh_page := i\<rparr>)"
  by (force simp: found_inodes_def split: option.splits)

definition add_version :: "inode_version list \<Rightarrow> file_handle \<Rightarrow> inode_version list" where
  "add_version ivs f = snd (snd (InodeVersionStore_add ivs f (0, 0)))"

lemma iv_add_all_eq: "iv_add_all fs = foldl add_version [] fs"
  by (simp add: iv_add_all_def add_version_def [abs_def])

lemma iv_lookup_member: "distinct (map iv_inode ivs) \<Longrightarrow> iv \<in> set ivs \<Longrightarrow> iv_lookup ivs (iv_inode iv) = Some iv"
  by (induction ivs) (auto simp: iv_lookup_def)

lemma iv_storage_add_eq: "snd (iv_storage_add s f) = s\<lparr>iv_storage := add_version (iv_storage s) f\<rparr>"
  by (simp add: iv_storage_add_def add_version_def split: prod.split)

text \<open>A function that gets at the inode pages.\<close>

definition good_load :: "'m config \<Rightarrow> ('m \<Rightarrow> bool) \<Rightarrow> ('m \<Rightarrow> byte list) \<Rightarrow> ('m \<Rightarrow> nat \<Rightarrow> bool) \<Rightarrow>
    ('m fs \<Rightarrow> nat \<Rightarrow> (byte list option \<times> 'm fs) res) \<Rightarrow> 'm fs \<Rightarrow> bool" where
  "good_load c ok cells writable load s \<longleftrightarrow> (\<forall>t i. header t = header s
     \<and> same_flash (flash c) ok cells writable (mem s) (mem t) \<and> i < max_inodes (header s) \<longrightarrow>
     (\<exists>m'. load t i = Inr (let p = page_at (page_size (header s)) i (cells (mem s))
          in if checksum_ok c (fs_endianness (header s)) p then Some p else None, t\<lparr>mem := m'\<rparr>)
        \<and> same_flash (flash c) ok cells writable (mem s) m'))"

definition names_file :: "byte list \<Rightarrow> file_handle \<Rightarrow> bool" where
  "names_file name f \<longleftrightarrow> file_name (fh_inode f) \<noteq> [] \<and> file_name (fh_inode f) = name"

definition newest_named :: "'m config \<Rightarrow> ('m \<Rightarrow> byte list) \<Rightarrow> 'm fs \<Rightarrow> byte list \<Rightarrow> file_handle" where
  "newest_named c cells s name =
     (case find (\<lambda>iv. names_file name (the (stored_inode c cells s (iv_page iv))))
             (iv_add_all (found_inodes c cells s [0..<max_inodes (header s)])) of
        None \<Rightarrow> empty_handle
      | Some iv \<Rightarrow> (the (stored_inode c cells s (iv_page iv)))\<lparr>fh_page := iv_page iv\<rparr>)"

context fs_on_flash
begin

lemma load_unmapped_good:
  assumes "ok (mem s)" "geometry (header s) (length (cells (mem s)))"
  shows "good_load c ok cells writable (load_unmapped c) s"
  unfolding good_load_def
proof (intro allI impI)
  fix t :: "'m fs" and i
  assume a: "header t = header s \<and> same_flash (flash c) ok cells writable (mem s) (mem t) \<and> i < max_inodes (header s)"
  then have t: "header t = header s" "ok (mem t)" "cells (mem t) = cells (mem s)" "i < max_inodes (header s)"
    by (simp_all add: same_flash_def)
  note geo = geometryD [OF assms(2)]
  have "page_in (page_size (header s)) i (length (cells (mem s)))"
    by (rule geometry_page_in [OF assms(2)]) (use t(4) geo(6) in linarith)
  with read_page_in [OF t(2), of "replicate (page_size (header s)) 0" i True] t geo obtain m' where
    "read_page c t i (replicate (page_size (header s)) 0) True = Inr
      (if \<not> checksum_ok c (fs_endianness (header s)) (page_at (page_size (header s)) i (cells (mem s)))
       then Some CrcError else None, page_at (page_size (header s)) i (cells (mem s)), t\<lparr>mem := m'\<rparr>)"
    "same_flash (flash c) ok cells writable (mem t) m'" by auto
  then show "\<exists>m'. load_unmapped c t i = Inr (let p = page_at (page_size (header s)) i (cells (mem s))
        in if checksum_ok c (fs_endianness (header s)) p then Some p else None, t\<lparr>mem := m'\<rparr>)
      \<and> same_flash (flash c) ok cells writable (mem s) m'"
    using same_flash_trans a t(1) by (intro exI [of _ m']) (auto simp: load_unmapped_def Let_def)
qed

lemma load_mapped_good:
  assumes "ok (mem s)" "geometry (header s) (length (cells (mem s)))" "mem_can_map_read (flash c) (mem s)"
  shows "good_load c ok cells writable (load_mapped c) s"
  unfolding good_load_def
proof (intro allI impI)
  fix t :: "'m fs" and i
  assume a: "header t = header s \<and> same_flash (flash c) ok cells writable (mem s) (mem t) \<and> i < max_inodes (header s)"
  then have t: "header t = header s" "ok (mem t)" "cells (mem t) = cells (mem s)" "i < max_inodes (header s)"
    "mem_can_map_read (flash c) (mem t)"
    using assms(3) by (simp_all add: same_flash_def)
  note geo = geometryD [OF assms(2)]
  have "page_in (page_size (header s)) i (length (cells (mem s)))"
    by (rule geometry_page_in [OF assms(2)]) (use t(4) geo(6) in linarith)
  then have "read_page_mapped c t i (page_size (header s)) True = Inr
      (if checksum_ok c (fs_endianness (header s)) (page_at (page_size (header s)) i (cells (mem s)))
       then None else Some CrcError, Some (page_at (page_size (header s)) i (cells (mem s))))"
    using read_page_mapped_in [OF t(2,5), of i] t geo by simp
  then show "\<exists>m'. load_mapped c t i = Inr (let p = page_at (page_size (header s)) i (cells (mem s))
        in if checksum_ok c (fs_endianness (header s)) p then Some p else None, t\<lparr>mem := m'\<rparr>)
      \<and> same_flash (flash c) ok cells writable (mem s) m'"
    using a t(1) by (intro exI [of _ "mem t"]) (simp add: load_mapped_def Let_def)
qed

lemma scan_inodes_ok:
  assumes "good_load c ok cells writable load s0" "clean_inodes c cells s0" "header s = header s0"
    "same_flash (flash c) ok cells writable (mem s0) (mem s)" "\<forall>i \<in> set is. i < max_inodes (header s0)"
  shows "\<exists>m' A. scan_inodes load c s is = Inr (s\<lparr>mem := m', allocated_unwritten_pages := A,
      iv_storage := foldl add_version (iv_storage s) (found_inodes c cells s0 is)\<rparr>)
    \<and> same_flash (flash c) ok cells writable (mem s0) m' \<and> kept_claims (allocated_unwritten_pages s) A"
  using assms(3-5)
proof (induction "is" arbitrary: s)
  case Nil
  then show ?case
    by (intro exI [of _ "mem s"] exI [of _ "allocated_unwritten_pages s"]) (simp add: found_inodes_def)
next
  case (Cons i "is")
  let ?p = "page_at (page_size (header s0)) i (cells (mem s0))"
  have i: "i < max_inodes (header s0)" "\<forall>i \<in> set is. i < max_inodes (header s0)" using Cons.prems(3) by simp_all
  from assms(1) Cons.prems(1,2) i(1) obtain m' where
    l: "load s i = Inr (let p = ?p in if checksum_ok c (fs_endianness (header s0)) p then Some p else None, s\<lparr>mem := m'\<rparr>)"
      "same_flash (flash c) ok cells writable (mem s0) m'"
    unfolding good_load_def by blast
  show ?case
  proof (cases "checksum_ok c (fs_endianness (header s0)) ?p")
    case False
    then have "scan_inodes load c s (i # is) = scan_inodes load c (s\<lparr>mem := m'\<rparr>) is" "stored_inode c cells s0 i = None"
      using l(1) by (simp_all add: stored_inode_def)
    with Cons.IH [of "s\<lparr>mem := m'\<rparr>"] Cons.prems(1) l(2) i(2) show ?thesis by (simp add: found_inodes_Cons)
  next
    case True
    then obtain f where f: "get_inode c s0 ?p False = Inr f" "\<not> modified f"
      using assms(2) i(1) by (auto simp: clean_inodes_def Let_def)
    let ?f = "f\<lparr>fh_page := i\<rparr>"
    have "\<not> modified ?f" using f(2) by simp
    from destroy_unmodified_claims [OF this, of c "s\<lparr>mem := m', iv_storage := add_version (iv_storage s) ?f\<rparr>"] obtain A where
      d: "FileHandle_destroy c (s\<lparr>mem := m', iv_storage := add_version (iv_storage s) ?f\<rparr>) ?f =
        Inr (s\<lparr>mem := m', iv_storage := add_version (iv_storage s) ?f, allocated_unwritten_pages := A\<rparr>)" and
      k: "kept_claims (allocated_unwritten_pages s) A" by auto
    let ?s = "s\<lparr>mem := m', iv_storage := add_version (iv_storage s) ?f, allocated_unwritten_pages := A\<rparr>"
    have g: "get_inode c (s\<lparr>mem := m'\<rparr>) ?p False = Inr f"
      using f(1) get_inode_cong [of s0 "s\<lparr>mem := m'\<rparr>" c] Cons.prems(1) by simp
    have st: "stored_inode c cells s0 i = Some f" using True f(1) by (simp add: stored_inode_def)
    have "scan_inodes load c s (i # is) = scan_inodes load c ?s is"
      using l(1) True g d by (simp add: iv_storage_add_eq Let_def)
    with Cons.IH [of ?s] Cons.prems(1) l(2) i(2) st show ?thesis using kept_claims_trans [OF k] by (auto simp: found_inodes_Cons)
  qed
qed

lemma pick_file_ok:
  assumes "good_load c ok cells writable load s0" "clean_inodes c cells s0" "header s = header s0"
    "same_flash (flash c) ok cells writable (mem s0) (mem s)"
    "\<forall>iv \<in> set ivs. iv_page iv < max_inodes (header s0) \<and> stored_inode c cells s0 (iv_page iv) \<noteq> None"
  shows "\<exists>m' A. pick_file load c name s ivs = Inr
      (case find (\<lambda>iv. names_file name (the (stored_inode c cells s0 (iv_page iv)))) ivs of
         None \<Rightarrow> empty_handle | Some iv \<Rightarrow> (the (stored_inode c cells s0 (iv_page iv)))\<lparr>fh_page := iv_page iv\<rparr>,
       s\<lparr>mem := m', allocated_unwritten_pages := A\<rparr>)
    \<and> same_flash (flash c) ok cells writable (mem s0) m' \<and> kept_claims (allocated_unwritten_pages s) A"
  using assms(3-5)
proof (induction ivs arbitrary: s)
  case Nil
  then show ?case by (intro exI [of _ "mem s"] exI [of _ "allocated_unwritten_pages s"]) simp
next
  case (Cons iv ivs)
  let ?i = "iv_page iv"
  let ?p = "page_at (page_size (header s0)) ?i (cells (mem s0))"
  have i: "?i < max_inodes (header s0)" "stored_inode c cells s0 ?i \<noteq> None"
    "\<forall>iv \<in> set ivs. iv_page iv < max_inodes (header s0) \<and> stored_inode c cells s0 (iv_page iv) \<noteq> None"
    using Cons.prems(3) by simp_all
  have valid: "checksum_ok c (fs_endianness (header s0)) ?p"
    using i(2) by (auto simp: stored_inode_def Let_def split: if_splits)
  from assms(1) Cons.prems(1,2) i(1) obtain m' where
    l: "load s ?i = Inr (let p = ?p in if checksum_ok c (fs_endianness (header s0)) p then Some p else None, s\<lparr>mem := m'\<rparr>)"
      "same_flash (flash c) ok cells writable (mem s0) m'"
    unfolding good_load_def by blast
  from valid obtain f where f: "get_inode c s0 ?p True = Inr f" "get_inode c s0 ?p False = Inr f" "\<not> modified f"
    using assms(2) i(1) by (auto simp: clean_inodes_def Let_def)
  have st: "stored_inode c cells s0 ?i = Some f" using valid f(2) by (simp add: stored_inode_def)
  have g: "get_inode c (s\<lparr>mem := m'\<rparr>) ?p True = Inr f"
    using f(1) get_inode_cong [of s0 "s\<lparr>mem := m'\<rparr>" c] Cons.prems(1) by simp
  show ?case
  proof (cases "names_file name f")
    case True
    then show ?thesis using l g valid st
      by (intro exI [of _ m'] exI [of _ "allocated_unwritten_pages s"]) (auto simp: names_file_def Let_def)
  next
    case False
    have "\<not> modified (f\<lparr>fh_page := ?i\<rparr>)" using f(3) by simp
    from destroy_unmodified_claims [OF this, of c "s\<lparr>mem := m'\<rparr>"] obtain A where
      d: "FileHandle_destroy c (s\<lparr>mem := m'\<rparr>) (f\<lparr>fh_page := ?i\<rparr>) = Inr (s\<lparr>mem := m', allocated_unwritten_pages := A\<rparr>)" and
      k: "kept_claims (allocated_unwritten_pages s) A" by auto
    let ?s = "s\<lparr>mem := m', allocated_unwritten_pages := A\<rparr>"
    have "pick_file load c name s (iv # ivs) = pick_file load c name ?s ivs"
      using l(1) valid g d False by (auto simp: names_file_def Let_def)
    with Cons.IH [of ?s] Cons.prems(1) l(2) i(3) st False show ?thesis using kept_claims_trans [OF k] by auto
  qed
qed

text \<open>What both variants find.\<close>

lemma find_file_with_ok:
  assumes "good_load c ok cells writable load s" "clean_inodes c cells s" "ok (mem s)"
    "ivs = iv_add_all (found_inodes c cells s [0..<max_inodes (header s)])"
  shows "\<exists>s'. find_file_with load c s name = Inr (newest_named c cells s name, s')
    \<and> header s' = header s \<and> max_inode_number s' = max_inode_number s
    \<and> free_data_pages s' = free_data_pages s \<and> iv_storage s' = ivs
    \<and> header_inode_range s' = header_inode_range s \<and> kept_claims (allocated_unwritten_pages s) (allocated_unwritten_pages s')
    \<and> same_flash (flash c) ok cells writable (mem s) (mem s')"
proof -
  let ?s = "s\<lparr>iv_storage := []\<rparr>"
  have cs: "clean_inodes c cells ?s" "stored_inode c cells ?s = stored_inode c cells s"
    using clean_inodes_cong [of ?s s cells c] stored_inode_cong [of ?s s cells c] assms(2) by simp_all
  have gl: "good_load c ok cells writable load ?s" using assms(1) by (simp add: good_load_def)
  have fo: "found_inodes c cells ?s = found_inodes c cells s" by (intro ext) (simp add: found_inodes_def cs(2))
  have sf: "same_flash (flash c) ok cells writable (mem ?s) (mem ?s)"
    using assms(3) same_flash_refl [of ok "mem s"] by simp
  from scan_inodes_ok [OF gl cs(1) refl sf, of "[0..<max_inodes (header s)]"] obtain m' A where
    sc: "scan_inodes load c ?s [0..<max_inodes (header s)] = Inr (s\<lparr>mem := m', allocated_unwritten_pages := A, iv_storage := ivs\<rparr>)"
      "same_flash (flash c) ok cells writable (mem s) m'" "kept_claims (allocated_unwritten_pages s) A"
    using fo by (auto simp: assms(4) iv_add_all_eq)
  let ?t = "s\<lparr>mem := m', allocated_unwritten_pages := A, iv_storage := ivs\<rparr>"
  have "iv_page iv < max_inodes (header s) \<and> stored_inode c cells s (iv_page iv) \<noteq> None" if "iv \<in> set ivs" for iv
  proof -
    have "distinct (map iv_inode ivs)" using iv_add_all_newest by (simp add: assms(4))
    then have "iv_lookup ivs (iv_inode iv) = Some iv" using that by (rule iv_lookup_member)
    then obtain f where "f \<in> set (found_inodes c cells s [0..<max_inodes (header s)])" "iv = InodeVersion f"
      using iv_add_all_newest [of "found_inodes c cells s [0..<max_inodes (header s)]"] assms(4) by blast
    then show ?thesis by (auto simp: set_found_inodes InodeVersion_def)
  qed
  with pick_file_ok [OF assms(1,2), of ?t ivs name] sc(2) obtain m2 A2 where
    "pick_file load c name ?t ivs = Inr
      (case find (\<lambda>iv. names_file name (the (stored_inode c cells s (iv_page iv)))) ivs of
         None \<Rightarrow> empty_handle | Some iv \<Rightarrow> (the (stored_inode c cells s (iv_page iv)))\<lparr>fh_page := iv_page iv\<rparr>,
       ?t\<lparr>mem := m2, allocated_unwritten_pages := A2\<rparr>)"
    "same_flash (flash c) ok cells writable (mem s) m2" "kept_claims A A2" by auto
  then show ?thesis using sc(1) kept_claims_trans [OF sc(3)]
    by (intro exI [of _ "?t\<lparr>mem := m2, allocated_unwritten_pages := A2\<rparr>"]) (simp add: find_file_with_def newest_named_def assms(4))
qed

end

section \<open>The newest version of the name\<close>

lemma iv_entries:
  assumes "ivs = iv_add_all (found_inodes c cells s is)" "iv \<in> set ivs"
  shows "\<exists>i \<in> set is. \<exists>g. stored_inode c cells s i = Some g \<and> iv_page iv = i \<and> iv_inode iv = inode_number (fh_inode g)
    \<and> iv_version iv = inode_version_number (fh_inode g)
    \<and> (\<forall>j \<in> set is. \<forall>h. stored_inode c cells s j = Some h \<and> inode_number (fh_inode h) = inode_number (fh_inode g) \<longrightarrow>
         inode_version_number (fh_inode h) \<le> inode_version_number (fh_inode g))"
proof -
  note new = iv_add_all_newest [of "found_inodes c cells s is", folded assms(1)]
  have "iv_lookup ivs (iv_inode iv) = Some iv" using iv_lookup_member [OF _ assms(2)] new by blast
  then obtain f where f: "f \<in> set (found_inodes c cells s is)" "iv = InodeVersion f"
    "\<forall>h \<in> set (found_inodes c cells s is). inode_number (fh_inode h) = iv_inode iv \<longrightarrow>
       inode_version_number (fh_inode h) \<le> iv_version iv"
    using new by metis
  from f(1) obtain i g where g: "i \<in> set is" "stored_inode c cells s i = Some g" "f = g\<lparr>fh_page := i\<rparr>"
    by (auto simp: set_found_inodes)
  have "inode_version_number (fh_inode h) \<le> inode_version_number (fh_inode g)"
    if "j \<in> set is" "stored_inode c cells s j = Some h" "inode_number (fh_inode h) = inode_number (fh_inode g)" for j h
  proof -
    have "h\<lparr>fh_page := j\<rparr> \<in> set (found_inodes c cells s is)" using that(1,2) by (auto simp: set_found_inodes)
    then show ?thesis using f(2,3) g(3) that(3) by (auto simp: InodeVersion_def)
  qed
  then show ?thesis using f(2) g by (intro bexI [of _ i] exI [of _ g]) (auto simp: InodeVersion_def)
qed

lemma iv_covers:
  assumes "ivs = iv_add_all (found_inodes c cells s is)" "i \<in> set is" "stored_inode c cells s i = Some g"
  shows "\<exists>iv \<in> set ivs. iv_inode iv = inode_number (fh_inode g)"
proof -
  have "g\<lparr>fh_page := i\<rparr> \<in> set (found_inodes c cells s is)" using assms(2,3) by (auto simp: set_found_inodes)
  then have "iv_lookup ivs (inode_number (fh_inode g)) \<noteq> None"
    using iv_add_all_newest [of "found_inodes c cells s is"] assms(1) by force
  then show ?thesis by (auto simp: iv_lookup_def find_None_iff)
qed

lemma stored_connected: "stored_inode c cells s i = Some g \<Longrightarrow> connected g"
  by (auto simp: stored_inode_def Let_def get_inode_connected split: if_splits sum.splits)

text \<open>What is found, and what it means that nothing is.\<close>

lemma found_newest:
  assumes "f = newest_named c cells s name" "is = [0..<max_inodes (header s)]"
  shows "connected f \<Longrightarrow> \<exists>i \<in> set is. \<exists>g. stored_inode c cells s i = Some g \<and> f = g\<lparr>fh_page := i\<rparr> \<and> names_file name g
      \<and> (\<forall>j \<in> set is. \<forall>h. stored_inode c cells s j = Some h \<and> inode_number (fh_inode h) = inode_number (fh_inode g) \<longrightarrow>
           inode_version_number (fh_inode h) \<le> inode_version_number (fh_inode g))"
    "\<not> connected f \<Longrightarrow> i \<in> set is \<Longrightarrow> stored_inode c cells s i = Some g \<Longrightarrow> names_file name g \<Longrightarrow>
      \<exists>j \<in> set is. \<exists>h. j \<noteq> i \<and> stored_inode c cells s j = Some h \<and> inode_number (fh_inode h) = inode_number (fh_inode g)
        \<and> inode_version_number (fh_inode g) \<le> inode_version_number (fh_inode h)"
proof -
  let ?P = "\<lambda>iv. names_file name (the (stored_inode c cells s (iv_page iv)))"
  define ivs where "ivs = iv_add_all (found_inodes c cells s is)"
  have f: "f = (case find ?P ivs of None \<Rightarrow> empty_handle
      | Some iv \<Rightarrow> (the (stored_inode c cells s (iv_page iv)))\<lparr>fh_page := iv_page iv\<rparr>)"
    by (simp add: assms newest_named_def ivs_def)
  assume con: "connected f"
  then obtain iv where iv: "find ?P ivs = Some iv" using f by (cases "find ?P ivs") (simp_all add: empty_handle_def)
  then have "iv \<in> set ivs" "?P iv" by (auto simp: find_Some_iff)
  with iv_entries [OF ivs_def, of iv] iv f show "\<exists>i \<in> set is. \<exists>g. stored_inode c cells s i = Some g
      \<and> f = g\<lparr>fh_page := i\<rparr> \<and> names_file name g
      \<and> (\<forall>j \<in> set is. \<forall>h. stored_inode c cells s j = Some h \<and> inode_number (fh_inode h) = inode_number (fh_inode g) \<longrightarrow>
           inode_version_number (fh_inode h) \<le> inode_version_number (fh_inode g))"
    by fastforce
next
  let ?P = "\<lambda>iv. names_file name (the (stored_inode c cells s (iv_page iv)))"
  define ivs where "ivs = iv_add_all (found_inodes c cells s is)"
  have f: "f = (case find ?P ivs of None \<Rightarrow> empty_handle
      | Some iv \<Rightarrow> (the (stored_inode c cells s (iv_page iv)))\<lparr>fh_page := iv_page iv\<rparr>)"
    by (simp add: assms newest_named_def ivs_def)
  assume con: "\<not> connected f" and i: "i \<in> set is" "stored_inode c cells s i = Some g" "names_file name g"
  have "find ?P ivs = None"
  proof (rule ccontr)
    assume "find ?P ivs \<noteq> None"
    then obtain iv where iv: "find ?P ivs = Some iv" by blast
    then have "iv \<in> set ivs" by (auto simp: find_Some_iff)
    with iv_entries [OF ivs_def] obtain h where "stored_inode c cells s (iv_page iv) = Some h" by blast
    then show False using con iv f stored_connected by fastforce
  qed
  then have no: "\<forall>iv \<in> set ivs. \<not> ?P iv" by (auto simp: find_None_iff)
  from iv_covers [OF ivs_def i(1,2)] obtain iv where iv: "iv \<in> set ivs" "iv_inode iv = inode_number (fh_inode g)" by blast
  from iv_entries [OF ivs_def iv(1)] obtain j h where
    h: "j \<in> set is" "stored_inode c cells s j = Some h" "iv_page iv = j" "iv_inode iv = inode_number (fh_inode h)"
      "\<forall>k \<in> set is. \<forall>h'. stored_inode c cells s k = Some h' \<and> inode_number (fh_inode h') = inode_number (fh_inode h) \<longrightarrow>
         inode_version_number (fh_inode h') \<le> inode_version_number (fh_inode h)" by blast
  have "\<not> names_file name h" using no iv(1) h(2,3) by fastforce
  then have "j \<noteq> i" using i(2,3) h(2) by auto
  then show "\<exists>j \<in> set is. \<exists>h. j \<noteq> i \<and> stored_inode c cells s j = Some h \<and> inode_number (fh_inode h) = inode_number (fh_inode g)
        \<and> inode_version_number (fh_inode g) \<le> inode_version_number (fh_inode h)"
    using h iv(2) i(1,2) by (intro bexI [of _ j] exI [of _ h]) auto
qed

section \<open>A flash with one file\<close>

definition one_file_bytes :: "'m config \<Rightarrow> byte list" where
  "one_file_bytes c = erased 64 @ inode_image c small_header (fh_inode sample_file) @ erased 384"

definition one_file_fs :: "stm32_flash config \<Rightarrow> stm32_flash fs" where
  "one_file_fs c = small_fs (STM32_open (SimFlash_open (one_file_bytes c)) 64 True)"

lemma STM32_open_bytes:
  assumes "length b < 2 ^ 63"
  shows "st_mem (STM32_open (SimFlash_open b) ps m) = b" "stm32_ok (STM32_open (SimFlash_open b) ps m)"
    "st_do_mem_mapping (STM32_open (SimFlash_open b) ps m) = m"
proof -
  have "STM32_open (SimFlash_open b) ps m = \<lparr>st_file = \<lparr>sf_bytes = b, sf_pos = length b, sf_fail = False, sf_size = length b\<rparr>,
       st_mem = b, st_written = replicate (length b) 0, st_do_mem_mapping = m, st_PAGE_SIZE = ps\<rparr>"
    by (simp add: STM32_open_def STM32_init_def SimFlash_open_def stream_read_def overlay_def slice_def Let_def)
  then show "st_mem (STM32_open (SimFlash_open b) ps m) = b" "stm32_ok (STM32_open (SimFlash_open b) ps m)"
    "st_do_mem_mapping (STM32_open (SimFlash_open b) ps m) = m"
    using assms by (simp_all add: stm32_ok_def sim_ok_def)
qed

lemma sample_inode_ok: "inode_ok small_header (fh_inode sample_file)"
  by (simp add: inode_ok_def inode_wf_def inode_size_def sample_file_def default_inode_def new_handle_def empty_handle_def)

lemma length_one_file [simp]: "length (one_file_bytes c) = 512"
  using length_inode_image [OF sample_inode_ok] by (simp add: one_file_bytes_def)

lemma one_file_stored:
  assumes "crc32 c = (\<lambda>_. 7)" "cells (mem s) = one_file_bytes c" "header s = small_header"
  shows "clean_inodes c cells s" "stored_inode c cells s i \<noteq> None \<Longrightarrow> i < 4 \<Longrightarrow> i = 0"
    "stored_inode c cells s 0 = Some (new_handle\<lparr>fh_inode := reread 64 (fh_inode sample_file)\<rparr>)"
proof -
  let ?I = "inode_image c small_header (fh_inode sample_file)"
  have lI: "length ?I = 64" using length_inode_image [OF sample_inode_ok] by simp
  have p0: "page_at 64 0 (one_file_bytes c) = ?I" using lI by (simp add: page_at_def slice_def one_file_bytes_def)
  have er: "page_at 64 i (one_file_bytes c) = page_at 64 i (erased 512)" if "0 < i" "i < 4" for i
  proof -
    have "drop (64 + i * 64) (one_file_bytes c) = drop (i * 64 - 64) (erased 384)"
      using that lI by (simp add: one_file_bytes_def)
    then show ?thesis using that by (simp add: page_at_def slice_def erased_def)
  qed
  have bad: "\<not> checksum_ok c LE (page_at 64 i (one_file_bytes c))" if "0 < i" "i < 4" for i
    using er [OF that] erased_not_ok [of i 512 c] that assms(1) by (simp add: page_in_def)
  have good: "checksum_ok c LE ?I" using inode_image_checksum [OF sample_inode_ok, of c] by simp
  have gi: "get_inode c s ?I e = Inr (new_handle\<lparr>fh_inode := reread 64 (fh_inode sample_file)\<rparr>)" for e
    using inode_image_read [of s "fh_inode sample_file" e c c] sample_inode_ok assms(3)
    by (simp add: pages_plausible_def sample_file_def new_handle_def empty_handle_def default_inode_def)
  show "clean_inodes c cells s"
    unfolding clean_inodes_def Let_def assms(2,3)
  proof (intro allI impI)
    fix i
    assume "i < max_inodes small_header" "checksum_ok c (fs_endianness small_header) (page_at (page_size small_header) i (one_file_bytes c))"
    then have "i = 0" using bad [of i] by (cases "i = 0") simp_all
    then show "\<exists>f. get_inode c s (page_at (page_size small_header) i (one_file_bytes c)) False = Inr f
      \<and> get_inode c s (page_at (page_size small_header) i (one_file_bytes c)) True = Inr f \<and> \<not> modified f"
      using p0 gi by (simp add: new_handle_def empty_handle_def)
  qed
  show "i = 0" if "stored_inode c cells s i \<noteq> None" "i < 4"
    using that bad [of i] assms(2,3) by (cases "i = 0") (simp_all add: stored_inode_def Let_def)
  show "stored_inode c cells s 0 = Some (new_handle\<lparr>fh_inode := reread 64 (fh_inode sample_file)\<rparr>)"
    using p0 good gi assms(2,3) by (simp add: stored_inode_def)
qed

lemma one_file:
  assumes "crc32 c = (\<lambda>_. 7)"
  shows "stm32_ok (mem (one_file_fs c))" "geometry (header (one_file_fs c)) (length (st_mem (mem (one_file_fs c))))"
    "st_do_mem_mapping (mem (one_file_fs c))" "clean_inodes c st_mem (one_file_fs c)"
    "stored_inode c st_mem (one_file_fs c) i \<noteq> None \<Longrightarrow> i < 4 \<Longrightarrow> i = 0"
    "\<exists>g. stored_inode c st_mem (one_file_fs c) 0 = Some g \<and> file_name (fh_inode g) = [97] \<and> inode_number (fh_inode g) = 3
      \<and> inode_version_number (fh_inode g) = 1"
proof -
  have m: "st_mem (mem (one_file_fs c)) = one_file_bytes c" "header (one_file_fs c) = small_header"
    by (simp_all add: one_file_fs_def STM32_open_bytes(1))
  note pages = one_file_stored [of c st_mem "one_file_fs c", OF assms m]
  show "stm32_ok (mem (one_file_fs c))" "st_do_mem_mapping (mem (one_file_fs c))"
    using STM32_open_bytes(2,3) [of "one_file_bytes c"] by (simp_all add: one_file_fs_def)
  show "geometry (header (one_file_fs c)) (length (st_mem (mem (one_file_fs c))))" using m by (simp add: geometry_def)
  show "clean_inodes c st_mem (one_file_fs c)" by (rule pages(1))
  show "stored_inode c st_mem (one_file_fs c) i \<noteq> None \<Longrightarrow> i < 4 \<Longrightarrow> i = 0" by (rule pages(2))
  show "\<exists>g. stored_inode c st_mem (one_file_fs c) 0 = Some g \<and> file_name (fh_inode g) = [97] \<and> inode_number (fh_inode g) = 3
      \<and> inode_version_number (fh_inode g) = 1"
    using pages(3) by (simp add: reread_def sample_file_def)
qed

text \<open>
  C10. \<open>find_file\<close> does not change the flash. The handle it returns is the inode of a valid inode
  page, it has the name, and no version of that inode is newer. When it finds nothing, every valid
  inode page with the name has a version at least as new on another page, under another name.
\<close>

theorem find_file_finds_newest:
  assumes "stm32_ok (mem s)" "geometry (header s) (length (st_mem (mem s)))"
    "c = stm32_config P crc e keep" "clean_inodes c st_mem s"
  shows "\<exists>f s'. find_file c s name = Inr (f, s') \<and> st_mem (mem s') = st_mem (mem s)
    \<and> (connected f \<longrightarrow> (\<exists>i < max_inodes (header s). \<exists>g. stored_inode c st_mem s i = Some g
         \<and> f = g\<lparr>fh_page := i\<rparr> \<and> names_file name g
         \<and> (\<forall>j < max_inodes (header s). \<forall>h. stored_inode c st_mem s j = Some h
              \<and> inode_number (fh_inode h) = inode_number (fh_inode g) \<longrightarrow>
              inode_version_number (fh_inode h) \<le> inode_version_number (fh_inode g))))
    \<and> (\<not> connected f \<longrightarrow> (\<forall>i < max_inodes (header s). \<forall>g. stored_inode c st_mem s i = Some g \<and> names_file name g \<longrightarrow>
         (\<exists>j < max_inodes (header s). \<exists>h. j \<noteq> i \<and> stored_inode c st_mem s j = Some h
              \<and> inode_number (fh_inode h) = inode_number (fh_inode g)
              \<and> inode_version_number (fh_inode g) \<le> inode_version_number (fh_inode h))))"
proof -
  let ?f = "newest_named c st_mem s name"
  note cl = assms(4) [unfolded assms(3)]
  have "\<exists>s'. find_file c s name = Inr (?f, s') \<and> st_mem (mem s') = st_mem (mem s)"
  proof (cases "mem_can_map_read stm32_ops (mem s)")
    case True
    then show ?thesis
      using fs_stm32.find_file_with_ok [OF fs_stm32.load_mapped_good [OF assms(1,2), of P crc e keep] cl assms(1) refl, of name]
      by (auto simp: find_file_def find_file_mapped_def same_flash_def assms(3))
  next
    case False
    then show ?thesis
      using fs_stm32.find_file_with_ok [OF fs_stm32.load_unmapped_good [OF assms(1,2), of P crc e keep] cl assms(1) refl, of name]
      by (auto simp: find_file_def find_file_unmapped_def same_flash_def assms(3))
  qed
  then obtain s' where s': "find_file c s name = Inr (?f, s')" "st_mem (mem s') = st_mem (mem s)" by blast
  note new = found_newest [OF refl refl, of c st_mem s name, unfolded set_upt]
  have A: "\<exists>i < max_inodes (header s). \<exists>g. stored_inode c st_mem s i = Some g
         \<and> ?f = g\<lparr>fh_page := i\<rparr> \<and> names_file name g
         \<and> (\<forall>j < max_inodes (header s). \<forall>h. stored_inode c st_mem s j = Some h
              \<and> inode_number (fh_inode h) = inode_number (fh_inode g) \<longrightarrow>
              inode_version_number (fh_inode h) \<le> inode_version_number (fh_inode g))" if "connected ?f"
      using new(1) [OF that] by (auto simp: Bex_def Ball_def)
  have B: "\<exists>j < max_inodes (header s). \<exists>h. j \<noteq> i \<and> stored_inode c st_mem s j = Some h
              \<and> inode_number (fh_inode h) = inode_number (fh_inode g)
              \<and> inode_version_number (fh_inode g) \<le> inode_version_number (fh_inode h)"
      if "\<not> connected ?f" "i < max_inodes (header s)" "stored_inode c st_mem s i = Some g \<and> names_file name g" for i g
    using new(2) [OF that(1), of i g] that(2,3) by (auto simp: Bex_def)
  show ?thesis using s' A B by blast
qed

text \<open>
  Both variants of the lookup return the same handle and leave the same file system: it makes
  no difference whether the flash is mapped or read page by page.
\<close>

theorem find_file_variants_agree:
  assumes "stm32_ok (mem s)" "geometry (header s) (length (st_mem (mem s)))" "st_do_mem_mapping (mem s)"
    "c = stm32_config P crc e keep" "clean_inodes c st_mem s"
  shows "\<exists>f s1 s2. find_file_mapped c s name = Inr (f, s1) \<and> find_file_unmapped c s name = Inr (f, s2)
    \<and> st_mem (mem s1) = st_mem (mem s) \<and> st_mem (mem s2) = st_mem (mem s)
    \<and> iv_storage s1 = iv_storage s2 \<and> free_data_pages s1 = free_data_pages s2 \<and> header s1 = header s2"
proof -
  have map: "mem_can_map_read (flash (stm32_config P crc e keep)) (mem s)" using assms(3) by (simp add: stm32_ops_def)
  note cl = assms(5) [unfolded assms(4)]
  from fs_stm32.find_file_with_ok [OF fs_stm32.load_mapped_good [OF assms(1,2) map] cl assms(1) refl, of name, folded assms(4)]
  obtain s1 where 1: "find_file_with (load_mapped c) c s name = Inr (newest_named c st_mem s name, s1)"
    "header s1 = header s" "free_data_pages s1 = free_data_pages s"
    "iv_storage s1 = iv_add_all (found_inodes c st_mem s [0..<max_inodes (header s)])"
    "st_mem (mem s1) = st_mem (mem s)" by (auto simp: same_flash_def)
  from fs_stm32.find_file_with_ok [OF fs_stm32.load_unmapped_good [OF assms(1,2), of P crc e keep] cl assms(1) refl, of name, folded assms(4)]
  obtain s2 where 2: "find_file_with (load_unmapped c) c s name = Inr (newest_named c st_mem s name, s2)"
    "header s2 = header s" "free_data_pages s2 = free_data_pages s"
    "iv_storage s2 = iv_add_all (found_inodes c st_mem s [0..<max_inodes (header s)])"
    "st_mem (mem s2) = st_mem (mem s)" by (auto simp: same_flash_def)
  show ?thesis using 1 2 by (auto simp: find_file_mapped_def find_file_unmapped_def)
qed

theorem find_file_finds_newest_witness:
  "\<exists>f s'. find_file (stm32_config 0 (\<lambda>_. 7) LE False) (one_file_fs (stm32_config 0 (\<lambda>_. 7) LE False)) [97] = Inr (f, s')
    \<and> connected f \<and> inode_number (fh_inode f) = 3"
proof -
  let ?c = "stm32_config 0 (\<lambda>_. 7) LE False"
  let ?s = "one_file_fs ?c"
  have c: "crc32 ?c = (\<lambda>_. 7)" by simp
  note o = one_file [OF c]
  have h: "max_inodes (header ?s) = 4" by (simp add: one_file_fs_def)
  from o(6) obtain g where g: "stored_inode ?c st_mem ?s 0 = Some g" "file_name (fh_inode g) = [97]" "inode_number (fh_inode g) = 3" by blast
  from find_file_finds_newest [OF o(1,2) refl o(4), of "[97]"] obtain f s' where
    f: "find_file ?c ?s [97] = Inr (f, s')"
      "connected f \<longrightarrow> (\<exists>i < 4. \<exists>g. stored_inode ?c st_mem ?s i = Some g \<and> f = g\<lparr>fh_page := i\<rparr>)"
      "\<not> connected f \<longrightarrow> (\<forall>i < 4. \<forall>g. stored_inode ?c st_mem ?s i = Some g \<and> names_file [97] g \<longrightarrow>
         (\<exists>j < 4. \<exists>h. j \<noteq> i \<and> stored_inode ?c st_mem ?s j = Some h))"
    unfolding h by (elim exE conjE) (rule that, assumption, blast, blast)
  have con: "connected f"
  proof (rule ccontr)
    assume "\<not> connected f"
    moreover have "names_file [97] g" using g(2) by (simp add: names_file_def)
    ultimately obtain j k where "j < 4" "j \<noteq> 0" "stored_inode ?c st_mem ?s j = Some k"
      using f(3) g(1) by (metis zero_less_numeral)
    then show False using o(5) [of j] by simp
  qed
  then obtain i k where "i < 4" "stored_inode ?c st_mem ?s i = Some k" "f = k\<lparr>fh_page := i\<rparr>" using f(2) by blast
  then have "inode_number (fh_inode f) = 3" using o(5) [of i] g by simp
  with f(1) con show ?thesis by blast
qed

theorem find_file_variants_agree_witness:
  "\<exists>f s1 s2. find_file_mapped (stm32_config 0 (\<lambda>_. 7) LE False) (one_file_fs (stm32_config 0 (\<lambda>_. 7) LE False)) [97] = Inr (f, s1)
    \<and> find_file_unmapped (stm32_config 0 (\<lambda>_. 7) LE False) (one_file_fs (stm32_config 0 (\<lambda>_. 7) LE False)) [97] = Inr (f, s2)"
proof -
  let ?c = "stm32_config 0 (\<lambda>_. 7) LE False"
  have c: "crc32 ?c = (\<lambda>_. 7)" by simp
  note o = one_file [OF c]
  from find_file_variants_agree [OF o(1-3) refl o(4), of "[97]"] show ?thesis by blast
qed

end
