(* ===== verification/TwoFlashPages.thy ===== *)
theory TwoFlashPages
  imports Complex_Main NoDel
begin

text \<open>
  Two file systems that never erase, of which one is active (\<open>src_2face/SimpleFlashFs2FlashPages.h\<close>).
  When the active one is full of old versions it is sealed, its files are copied to the other one,
  and that becomes the active one; two special files record how far this got.
\<close>

section \<open>The special files\<close>

definition COPY_COMPLETED_FILE_NAME :: "byte list" where
  "COPY_COMPLETED_FILE_NAME = bytes_of ''.FS_COPY_COMPLETED''"

definition FILESYSTEM_SEALED_FILE_NAME :: "byte list" where
  "FILESYSTEM_SEALED_FILE_NAME = bytes_of ''.FS_SEALED''"

text \<open>\<open>InodeAttribute::SPECIAL\<close> is bit 0 of the attributes.\<close>

definition set_special :: "file_handle \<Rightarrow> file_handle" where
  "set_special f = f\<lparr>fh_inode := (fh_inode f)\<lparr>attributes := or (attributes (fh_inode f)) 1\<rparr>, modified := True\<rparr>"

definition special_file_filter :: "file_handle \<Rightarrow> bool" where
  "special_file_filter f = (and (attributes (fh_inode f)) 1 = 0)"

section \<open>State\<close>

text \<open>
  A component: \<open>cp_mem\<close> is the flash while no file system is attached to it, otherwise the file
  system holds the state of the flash. \<open>two_active\<close> is the pointer \<open>fs\<close>.
\<close>

record 'm component =
  cp_fs :: "'m nodel option"
  cp_mem :: 'm

datatype side = Fs1 | Fs2

record 'm two_fs =
  comp1 :: "'m component"
  comp2 :: "'m component"
  two_active :: "side option"

definition component_valid :: "'m component \<Rightarrow> bool" where
  "component_valid p = (cp_fs p \<noteq> None)"

definition component_mem :: "'m component \<Rightarrow> 'm" where
  "component_mem p = (case cp_fs p of None \<Rightarrow> cp_mem p | Some n \<Rightarrow> mem (nd_fs n))"

text \<open>\<open>fs.reset()\<close> and \<open>fs.emplace( mem )\<close>.\<close>

definition component_reset :: "'m component \<Rightarrow> 'm component" where
  "component_reset p = \<lparr>cp_fs = None, cp_mem = component_mem p\<rparr>"

definition component_emplace :: "'m component \<Rightarrow> 'm component" where
  "component_emplace p = \<lparr>cp_fs = Some (SimpleFsNoDel (component_mem p)), cp_mem = component_mem p\<rparr>"

definition SimpleFs2FlashPages :: "'m \<Rightarrow> 'm \<Rightarrow> 'm two_fs" where
  "SimpleFs2FlashPages m1 m2 = \<lparr>comp1 = \<lparr>cp_fs = None, cp_mem = m1\<rparr>, comp2 = \<lparr>cp_fs = None, cp_mem = m2\<rparr>,
     two_active = None\<rparr>"

definition the_component :: "'m two_fs \<Rightarrow> side \<Rightarrow> 'm component" where
  "the_component t sd = (case sd of Fs1 \<Rightarrow> comp1 t | Fs2 \<Rightarrow> comp2 t)"

definition set_component :: "'m two_fs \<Rightarrow> side \<Rightarrow> 'm component \<Rightarrow> 'm two_fs" where
  "set_component t sd p = (case sd of Fs1 \<Rightarrow> t\<lparr>comp1 := p\<rparr> | Fs2 \<Rightarrow> t\<lparr>comp2 := p\<rparr>)"

text \<open>
  A dereferenced optional, \<open>fs.value()\<close>, which checks and throws, and the file system behind \<open>fs\<close>.
\<close>

definition component_fs :: "'m component \<Rightarrow> 'm nodel res" where
  "component_fs p = (case cp_fs p of None \<Rightarrow> Inl Undefined | Some n \<Rightarrow> Inr n)"

definition component_value :: "'m component \<Rightarrow> 'm nodel res" where
  "component_value p = (case cp_fs p of None \<Rightarrow> Inl Bad_access | Some n \<Rightarrow> Inr n)"

definition active_fs :: "'m two_fs \<Rightarrow> 'm nodel res" where
  "active_fs t = (case two_active t of None \<Rightarrow> Inl Null_fs | Some sd \<Rightarrow> component_fs (the_component t sd))"

definition get_active :: "'m two_fs \<Rightarrow> side" where
  "get_active t = (if component_valid (comp1 t) then Fs1 else Fs2)"

definition get_inactive :: "'m two_fs \<Rightarrow> side" where
  "get_inactive t = (if \<not> component_valid (comp1 t) then Fs1 else Fs2)"

section \<open>Attaching a component\<close>

definition component_init :: "'m config \<Rightarrow> 'm component \<Rightarrow> (bool \<times> 'm component) res" where
  "component_init c p =
     (let p = component_emplace p
      in bindE (component_fs p) (\<lambda>n.
         bindE (nodel_init c n) (\<lambda>(done, n).
         let p = p\<lparr>cp_fs := Some n\<rparr>
         in if \<not> done then Inr (False, component_reset p) else Inr (True, p))))"

text \<open>
  \<open>create\<close> mounts the new file system in its own \<open>create\<close> already, and then once more.
\<close>

definition component_create :: "nat \<Rightarrow> nat \<Rightarrow> 'm config \<Rightarrow> 'm component \<Rightarrow> (bool \<times> 'm component) res" where
  "component_create max_size name_max c p =
     bindE (mem_erase (flash c) (component_mem p) 0 (mem_size (flash c) (component_mem p))) (\<lambda>m.
     let p = component_emplace \<lparr>cp_fs = None, cp_mem = m\<rparr>
     in bindE (component_fs p) (\<lambda>n.
        bindE (nodel_create max_size name_max c n) (\<lambda>(done, n).
        if \<not> done then Inr (False, component_reset (p\<lparr>cp_fs := Some n\<rparr>))
        else bindE (nodel_init c n) (\<lambda>(done, n).
             let p = p\<lparr>cp_fs := Some n\<rparr>
             in if \<not> done then Inr (False, component_reset p) else Inr (True, p)))))"

section \<open>Which component is the active one?\<close>

text \<open>
  The decision of \<open>init_fs\<close> when both components could be mounted: which of the two special files
  exists on which, and the largest inode numbers. The other component is detached.
\<close>

record fs_flags =
  copy_completed :: bool
  sealed :: bool

definition choose_side :: "fs_flags \<Rightarrow> fs_flags \<Rightarrow> nat \<Rightarrow> nat \<Rightarrow> side" where
  "choose_side f1 f2 m1 m2 =
     (if copy_completed f1 \<and> sealed f2 then Fs1
      else if copy_completed f2 \<and> sealed f1 then Fs2
      else if \<not> copy_completed f1 \<and> sealed f2 then Fs2
      else if \<not> copy_completed f2 \<and> sealed f1 then Fs1
      else if m1 > m2 then Fs1 else Fs2)"

definition in_mode :: open_mode where
  "in_mode = \<lparr>mode_out = False, mode_app = False, mode_ate = False, mode_trunc = False\<rparr>"

text \<open>\<open>c1.fs->open( name, std::ios_base::in ).valid()\<close>.\<close>

definition file_exists :: "'m config \<Rightarrow> 'm component \<Rightarrow> byte list \<Rightarrow> (bool \<times> 'm component) res" where
  "file_exists c p name =
     bindE (component_fs p) (\<lambda>n.
     bindE (open_file c (nd_fs n) name in_mode) (\<lambda>(f, s).
     bindE (FileHandle_destroy c s f) (\<lambda>s.
     Inr (connected f, p\<lparr>cp_fs := Some (n\<lparr>nd_fs := s\<rparr>)\<rparr>))))"

definition two_init_fs :: "nat \<Rightarrow> nat \<Rightarrow> 'm config \<Rightarrow> 'm two_fs \<Rightarrow> (bool \<times> 'm two_fs) res" where
  "two_init_fs max_size name_max c t =
     bindE (component_init c (comp1 t)) (\<lambda>(_, p1).
     bindE (component_init c (comp2 t)) (\<lambda>(_, p2).
     bindE (if \<not> component_valid p1 \<and> \<not> component_valid p2 then
              bindE (component_create max_size name_max c p1) (\<lambda>(done1, p1).
              if \<not> done1 then Inr (Some False, p1, p2)
              else bindE (component_create max_size name_max c p2) (\<lambda>(done2, p2).
                   Inr (if \<not> done2 then Some False else None, p1, p2)))
            else if component_valid p1 \<noteq> component_valid p2 then Inr (Some True, p1, p2)
            else Inr (None, p1, p2)) (\<lambda>(ret, p1, p2).
     case ret of
       Some r \<Rightarrow> Inr (r, t\<lparr>comp1 := p1, comp2 := p2\<rparr>)
     | None \<Rightarrow>
         bindE (file_exists c p1 COPY_COMPLETED_FILE_NAME) (\<lambda>(completed1, p1).
         bindE (file_exists c p2 COPY_COMPLETED_FILE_NAME) (\<lambda>(completed2, p2).
         bindE (file_exists c p1 FILESYSTEM_SEALED_FILE_NAME) (\<lambda>(sealed1, p1).
         bindE (file_exists c p2 FILESYSTEM_SEALED_FILE_NAME) (\<lambda>(sealed2, p2).
         bindE (component_fs p1) (\<lambda>n1.
         bindE (component_fs p2) (\<lambda>n2.
         Inr (True,
           case choose_side \<lparr>copy_completed = completed1, sealed = sealed1\<rparr>
                  \<lparr>copy_completed = completed2, sealed = sealed2\<rparr>
                  (max_inode_number (nd_fs n1)) (max_inode_number (nd_fs n2)) of
             Fs1 \<Rightarrow> t\<lparr>comp1 := p1, comp2 := component_reset p2\<rparr>
           | Fs2 \<Rightarrow> t\<lparr>comp1 := component_reset p1, comp2 := p2\<rparr>))))))))))"

section \<open>When to clean up\<close>

text \<open>
  The shares are computed in \<open>double\<close>; \<open>rnd\<close> rounds a result to the nearest one. The conversion
  to \<open>unsigned\<close> drops the fraction; it is undefined for what does not fit, and for the infinity
  that a division by zero gives.
\<close>

definition percent_used :: "(rat \<Rightarrow> rat) \<Rightarrow> nat \<Rightarrow> nat \<Rightarrow> nat res" where
  "percent_used rnd n free =
     bindE (requireE Undefined (0 < n)) (\<lambda>_.
     let x = rnd (100 - rnd (rnd (100 / of_nat n) * of_nat free))
     in bindE (requireE Undefined (-1 < x \<and> x < 2 ^ 32)) (\<lambda>_. Inr (nat \<lfloor>x\<rfloor>)))"

definition should_cleanup :: "(rat \<Rightarrow> rat) \<Rightarrow> 'm two_fs \<Rightarrow> nat \<Rightarrow> bool res" where
  "should_cleanup rnd t treshold_percentage =
     bindE (active_fs t) (\<lambda>n.
     let h = header (nd_fs n); st = nd_stat n;
         all_data_pages = sub64 (filesystem_size h) (max_inodes h) mod 2 ^ 32
     in bindE (percent_used rnd all_data_pages (get_number_of_free_data_pages (nd_fs n))) (\<lambda>data_pages_usage.
        bindE (percent_used rnd (max_inodes h) (free_inodes st)) (\<lambda>inode_usage.
        Inr (if trash_inodes st > 0 \<or> trash_size st > 0
             then inode_usage > treshold_percentage \<or> data_pages_usage > treshold_percentage
             else False))))"

section \<open>Copying and cleaning up\<close>

text \<open>
  The loop of \<open>copy\<close>: \<open>done\<close> bytes have been read so far. The capacity of the buffer is the page
  size of the configuration. A read that returns nothing is tried again, so the loop may not
  end; the first argument bounds its rounds, and running out of them is \<open>No_return\<close>.
\<close>

fun copy_loop :: "nat \<Rightarrow> 'm config \<Rightarrow> nat \<Rightarrow> 'm fs \<Rightarrow> file_handle \<Rightarrow> 'm fs \<Rightarrow> file_handle \<Rightarrow>
    (bool \<times> ('m fs \<times> file_handle) \<times> 'm fs \<times> file_handle) res" where
  "copy_loop 0 c cnt s f s' f' = Inl No_return"
| "copy_loop (Suc k) c cnt s f s' f' =
     (if cnt < file_len (fh_inode f) then
        let max_read = min (sub64 (file_len (fh_inode f)) cnt) (PAGE_SIZE c)
        in bindE (FileHandle_read c s f max_read) (\<lambda>(d, f, s).
           bindE (FileHandle_write c s' f' d) (\<lambda>(n, f', s').
           if n \<noteq> length d then Inr (False, (s, f), s', f')
           else copy_loop k c (add64 cnt (length d)) s f s' f'))
      else Inr (True, (s, f), s', f'))"

definition copy_file :: "'m config \<Rightarrow> 'm fs \<Rightarrow> file_handle \<Rightarrow> 'm fs \<Rightarrow> file_handle \<Rightarrow>
    (bool \<times> ('m fs \<times> file_handle) \<times> 'm fs \<times> file_handle) res" where
  "copy_file c s f s' f' = copy_loop (Suc (file_len (fh_inode f))) c 0 s f s' f'"

definition trunc_mode :: open_mode where
  "trunc_mode = \<lparr>mode_out = True, mode_app = False, mode_ate = False, mode_trunc = True\<rparr>"

definition copy_mode :: open_mode where
  "copy_mode = \<lparr>mode_out = True, mode_app = True, mode_ate = False, mode_trunc = True\<rparr>"

text \<open>\<open>seal_fs\<close>: the handle is written when it goes out of scope.\<close>

definition seal_fs :: "'m config \<Rightarrow> 'm fs \<Rightarrow> (bool \<times> 'm fs) res" where
  "seal_fs c s =
     bindE (open_file c s FILESYSTEM_SEALED_FILE_NAME trunc_mode) (\<lambda>(f, s).
     if \<not> connected f then Inr (False, s)
     else bindE (FileHandle_destroy c s (set_special f)) (\<lambda>s. Inr (True, s)))"

text \<open>The notification that all files are copied; the handle is looked at after it was changed.\<close>

definition complete_copy :: "'m config \<Rightarrow> 'm fs \<Rightarrow> (bool \<times> 'm fs) res" where
  "complete_copy c s =
     bindE (open_file c s COPY_COMPLETED_FILE_NAME copy_mode) (\<lambda>(f, s).
     bindE (FileHandle_destroy c s (set_special f)) (\<lambda>s. Inr (connected f, s)))"

text \<open>The callback of \<open>list_files\<close>; its state is the file system of the target and the error flag.\<close>

definition copy_callback :: "'m config \<Rightarrow> file_handle \<Rightarrow> 'm fs \<Rightarrow> 'm fs \<times> bool \<Rightarrow>
    (bool \<times> file_handle \<times> 'm fs \<times> ('m fs \<times> bool)) res" where
  "copy_callback c f s = (\<lambda>(target, copy_error).
     bindE (open_file c target (file_name (fh_inode f)) copy_mode) (\<lambda>(g, target).
     bindE (copy_file c s f target g) (\<lambda>(done, (s, f), target, g).
     bindE (FileHandle_destroy c target g) (\<lambda>target.
     Inr (if \<not> done then (False, f, s, target, True) else (True, f, s, target, copy_error))))))"

definition copy_files :: "'m config \<Rightarrow> 'm nodel \<Rightarrow> 'm nodel \<Rightarrow> (bool \<times> 'm nodel \<times> 'm nodel) res" where
  "copy_files c source target =
     bindE (list_files c (Some special_file_filter) (copy_callback c) (nd_fs source) (nd_fs target, False))
       (\<lambda>(s, target_fs, copy_error).
     Inr (\<not> copy_error, source\<lparr>nd_fs := s\<rparr>, target\<lparr>nd_fs := target_fs\<rparr>))"

definition cleanup :: "nat \<Rightarrow> nat \<Rightarrow> 'm config \<Rightarrow> 'm two_fs \<Rightarrow> (bool \<times> 'm two_fs) res" where
  "cleanup max_size name_max c t =
     (let inactive = get_inactive t; active = get_active t
      in bindE (component_fs (the_component t active)) (\<lambda>n.
         bindE (seal_fs c (nd_fs n)) (\<lambda>(done, s).
         let n = n\<lparr>nd_fs := s\<rparr>; t = set_component t active ((the_component t active)\<lparr>cp_fs := Some n\<rparr>)
         in if \<not> done then Inr (False, t)
         else bindE (component_create max_size name_max c (the_component t inactive)) (\<lambda>(done, p).
         let t = set_component t inactive p
         in if \<not> done then Inr (False, t)
         else bindE (component_fs p) (\<lambda>target.
         let target = target\<lparr>nd_fs := set_max_inode_number (nd_fs target) (add64 (max_inode_number (nd_fs n)) 1)\<rparr>
         in bindE (copy_files c n target) (\<lambda>(done, n, target).
         let t = set_component t active ((the_component t active)\<lparr>cp_fs := Some n\<rparr>);
             t = set_component t inactive (p\<lparr>cp_fs := Some target\<rparr>)
         in if \<not> done then Inr (False, t)
         else bindE (complete_copy c (nd_fs target)) (\<lambda>(done, s).
         let t = set_component t inactive (p\<lparr>cp_fs := Some (target\<lparr>nd_fs := s\<rparr>)\<rparr>)
         in if \<not> done then Inr (False, t)
         else Inr (True, (set_component t active (component_reset (the_component t active)))
                \<lparr>two_active := Some inactive\<rparr>))))))))"

definition two_init :: "(rat \<Rightarrow> rat) \<Rightarrow> nat \<Rightarrow> nat \<Rightarrow> 'm config \<Rightarrow> 'm two_fs \<Rightarrow> (bool \<times> 'm two_fs) res" where
  "two_init rnd max_size name_max c t =
     bindE (two_init_fs max_size name_max c t) (\<lambda>(done, t).
     if \<not> done then Inr (False, t)
     else
       bindE (component_value (the_component t (get_active t))) (\<lambda>_.
       let t = t\<lparr>two_active := Some (get_active t)\<rparr>
       in bindE (should_cleanup rnd t 80) (\<lambda>full.
          bindE (if full then cleanup max_size name_max c t else Inr (True, t)) (\<lambda>(_, t).
          bindE (component_value (the_component t (get_active t))) (\<lambda>_.
          Inr (True, t\<lparr>two_active := Some (get_active t)\<rparr>))))))"

definition two_open :: "'m config \<Rightarrow> 'm two_fs \<Rightarrow> byte list \<Rightarrow> open_mode \<Rightarrow> (file_handle \<times> 'm two_fs) res" where
  "two_open c t name mode =
     bindE (active_fs t) (\<lambda>n.
     bindE (open_file c (nd_fs n) name mode) (\<lambda>(f, s).
     let sd = the (two_active t)
     in Inr (f, set_component t sd ((the_component t sd)\<lparr>cp_fs := Some (n\<lparr>nd_fs := s\<rparr>)\<rparr>))))"

definition recreate :: "(rat \<Rightarrow> rat) \<Rightarrow> nat \<Rightarrow> nat \<Rightarrow> 'm config \<Rightarrow> 'm two_fs \<Rightarrow> (bool \<times> 'm two_fs) res" where
  "recreate rnd max_size name_max c t =
     bindE (component_create max_size name_max c (component_reset (comp1 t))) (\<lambda>(done, p1).
     if \<not> done then Inr (False, t\<lparr>comp1 := p1, comp2 := component_reset (comp2 t)\<rparr>)
     else bindE (component_create max_size name_max c (component_reset (comp2 t))) (\<lambda>(done, p2).
          let t = t\<lparr>comp1 := p1, comp2 := p2\<rparr>
          in if \<not> done then Inr (False, t) else two_init rnd max_size name_max c t))"

end
