(* ===== verification/TwoSpec.thy ===== *)
theory TwoSpec
  imports TwoFlashPages
begin

text \<open>
  The protocol of the two file systems: which special files exist while one is cleaned up into the
  other, and which one a mount chooses after the power was lost at any point of that.
\<close>

section \<open>The steps of a clean-up\<close>

text \<open>
  What \<open>cleanup\<close> leaves on the flash one after the other: the active file system is sealed, the
  other one is created anew, and when all files are copied the notification is written, which is
  the moment the other one becomes the active one. A restart takes the side that \<open>choose_side\<close>
  picks; before the first clean-up only the second file system was written to, so its inode
  numbers are not below those of the first.
\<close>

datatype phase = Idle | Sealed | Recreated

record protocol =
  pr_active :: side
  pr_flags :: "side \<Rightarrow> fs_flags"
  pr_phase :: phase

definition other :: "side \<Rightarrow> side" where
  "other sd = (case sd of Fs1 \<Rightarrow> Fs2 | Fs2 \<Rightarrow> Fs1)"

definition no_flags :: fs_flags where
  "no_flags = \<lparr>copy_completed = False, sealed = False\<rparr>"

definition fresh :: protocol where
  "fresh = \<lparr>pr_active = Fs2, pr_flags = (\<lambda>_. no_flags), pr_phase = Idle\<rparr>"

definition chosen :: "protocol \<Rightarrow> nat \<Rightarrow> nat \<Rightarrow> side" where
  "chosen p m1 m2 = choose_side (pr_flags p Fs1) (pr_flags p Fs2) m1 m2"

inductive cleanup_step :: "protocol \<Rightarrow> protocol \<Rightarrow> bool" where
  seal: "pr_phase p = Idle \<Longrightarrow>
    cleanup_step p (p\<lparr>pr_flags := (pr_flags p)(pr_active p := (pr_flags p (pr_active p))\<lparr>sealed := True\<rparr>),
      pr_phase := Sealed\<rparr>)"
| recreate: "pr_phase p = Sealed \<Longrightarrow>
    cleanup_step p (p\<lparr>pr_flags := (pr_flags p)(other (pr_active p) := no_flags), pr_phase := Recreated\<rparr>)"
| complete: "pr_phase p = Recreated \<Longrightarrow>
    cleanup_step p (p\<lparr>pr_flags := (pr_flags p)(other (pr_active p) := (pr_flags p (other (pr_active p)))\<lparr>copy_completed := True\<rparr>),
      pr_active := other (pr_active p), pr_phase := Idle\<rparr>)"
| restart: "(pr_flags p = (\<lambda>_. no_flags) \<Longrightarrow> m1 \<le> m2) \<Longrightarrow>
    cleanup_step p (p\<lparr>pr_active := chosen p m1 m2, pr_phase := Idle\<rparr>)"

inductive cleanup_reach :: "protocol \<Rightarrow> bool" where
  start: "cleanup_reach fresh"
| step: "cleanup_reach p \<Longrightarrow> cleanup_step p q \<Longrightarrow> cleanup_reach q"

inductive_cases cleanup_stepE: "cleanup_step p q"

text \<open>The flags as pairs, and the states that are reached.\<close>

definition flag_pair :: "protocol \<Rightarrow> side \<Rightarrow> bool \<times> bool" where
  "flag_pair p sd = (copy_completed (pr_flags p sd), sealed (pr_flags p sd))"

definition protocol_states :: "(side \<times> (bool \<times> bool) \<times> (bool \<times> bool) \<times> phase) set" where
  "protocol_states =
     {(Fs2, (False, False), (False, False), Idle)}
     \<union> {(Fs2, (False, False), (False, True), ph) | ph. True}
     \<union> {(Fs1, (True, False), (False, True), Idle)}
     \<union> {(Fs1, (True, True), (False, True), ph) | ph. ph \<noteq> Recreated}
     \<union> {(Fs1, (True, True), (False, False), ph) | ph. True}
     \<union> {(Fs2, (True, True), (True, False), Idle), (Fs2, (True, True), (True, True), Sealed)}
     \<union> {(Fs2, (False, False), (True, True), ph) | ph. True}
     \<union> {(Fs1, (True, False), (True, True), Idle)}
     \<union> {(Fs1, (True, True), (True, True), ph) | ph. ph \<noteq> Recreated}"

definition protocol_state :: "protocol \<Rightarrow> side \<times> (bool \<times> bool) \<times> (bool \<times> bool) \<times> phase" where
  "protocol_state p = (pr_active p, flag_pair p Fs1, flag_pair p Fs2, pr_phase p)"

lemma no_flags_iff: "f = no_flags \<longleftrightarrow> \<not> copy_completed f \<and> \<not> sealed f"
  by (cases f) (simp add: no_flags_def)

lemma all_no_flags: "pr_flags p = (\<lambda>_. no_flags) \<longleftrightarrow> flag_pair p Fs1 = (False, False) \<and> flag_pair p Fs2 = (False, False)"
proof -
  have "pr_flags p = (\<lambda>_. no_flags) \<longleftrightarrow> pr_flags p Fs1 = no_flags \<and> pr_flags p Fs2 = no_flags"
    by (auto simp: fun_eq_iff) (metis side.exhaust)
  then show ?thesis by (auto simp: no_flags_iff flag_pair_def)
qed

lemma reach_states:
  assumes "cleanup_reach p"
  shows "protocol_state p \<in> protocol_states"
  using assms
proof induction
  case start
  show ?case by (simp add: protocol_states_def protocol_state_def fresh_def flag_pair_def no_flags_def)
next
  case (step p q)
  from step(2,3) show ?case
  proof cases
    case seal
    then show ?thesis using step(3)
      by (cases "pr_active p") (auto simp: protocol_states_def protocol_state_def flag_pair_def)
  next
    case recreate
    then show ?thesis using step(3)
      by (cases "pr_active p") (auto simp: protocol_states_def protocol_state_def flag_pair_def other_def no_flags_def)
  next
    case complete
    then show ?thesis using step(3)
      by (cases "pr_active p") (auto simp: protocol_states_def protocol_state_def flag_pair_def other_def)
  next
    case (restart m1 m2)
    then show ?thesis using step(3) all_no_flags [of p]
      by (cases "pr_active p") (auto simp: protocol_states_def protocol_state_def flag_pair_def chosen_def choose_side_def)
  qed
qed

text \<open>The choice, over the pairs.\<close>

fun pick :: "bool \<times> bool \<Rightarrow> bool \<times> bool \<Rightarrow> nat \<Rightarrow> nat \<Rightarrow> side" where
  "pick (c1, s1) (c2, s2) m1 m2 =
     (if c1 \<and> s2 then Fs1 else if c2 \<and> s1 then Fs2 else if s2 then Fs2 else if s1 then Fs1
      else if m1 > m2 then Fs1 else Fs2)"

lemma chosen_pick: "chosen p m1 m2 = pick (flag_pair p Fs1) (flag_pair p Fs2) m1 m2"
  by (simp add: chosen_def choose_side_def flag_pair_def)

lemma flag_full: "flag_pair p sd = (True, True) \<longleftrightarrow> pr_flags p sd = \<lparr>copy_completed = True, sealed = True\<rparr>"
  by (cases "pr_flags p sd") (simp add: flag_pair_def)

lemma pick_states:
  "q \<in> protocol_states \<Longrightarrow>
   case q of (a, p1, p2, ph) \<Rightarrow> (p1 = (False, False) \<and> p2 = (False, False) \<longrightarrow> m1 \<le> m2) \<longrightarrow>
     pick p1 p2 m1 m2 = a \<or> a = Fs2 \<and> ph = Sealed \<and> p1 = (True, True) \<and> p2 = (True, True)"
  by (auto simp: protocol_states_def)



text \<open>A whole clean-up.\<close>

definition clean_once :: "protocol \<Rightarrow> protocol" where
  "clean_once p = \<lparr>pr_active = other (pr_active p),
     pr_flags = (pr_flags p)(pr_active p := (pr_flags p (pr_active p))\<lparr>sealed := True\<rparr>,
       other (pr_active p) := no_flags\<lparr>copy_completed := True\<rparr>), pr_phase = Idle\<rparr>"

lemma other_neq [simp]: "other sd \<noteq> sd" "sd \<noteq> other sd"
  by (simp_all add: other_def split: side.split)

lemma clean_once_reach: "cleanup_reach p \<Longrightarrow> pr_phase p = Idle \<Longrightarrow> cleanup_reach (clean_once p)"
proof -
  assume r: "cleanup_reach p" and i: "pr_phase p = Idle"
  let ?q = "p\<lparr>pr_flags := (pr_flags p)(pr_active p := (pr_flags p (pr_active p))\<lparr>sealed := True\<rparr>), pr_phase := Sealed\<rparr>"
  let ?r = "?q\<lparr>pr_flags := (pr_flags ?q)(other (pr_active ?q) := no_flags), pr_phase := Recreated\<rparr>"
  have "cleanup_reach ?q" by (rule cleanup_reach.step [OF r cleanup_step.seal [OF i]])
  moreover have "cleanup_step ?q ?r" by (rule cleanup_step.recreate) simp
  ultimately have rr: "cleanup_reach ?r" by (rule cleanup_reach.step)
  have "clean_once p = ?r\<lparr>pr_flags := (pr_flags ?r)(other (pr_active ?r) := (pr_flags ?r (other (pr_active ?r)))\<lparr>copy_completed := True\<rparr>),
      pr_active := other (pr_active ?r), pr_phase := Idle\<rparr>"
    by (cases p) (simp add: clean_once_def)
  moreover have "pr_phase ?r = Recreated" by simp
  ultimately have "cleanup_step ?r (clean_once p)" using cleanup_step.complete [of ?r] by metis
  with rr show ?thesis by (rule cleanup_reach.step)
qed

text \<open>
  The exception is reached: at the third clean-up, after the second file system was sealed and
  before the first one is created anew, a restart chooses the first one, which holds the files as
  they were before the second clean-up.
\<close>

theorem interrupted_seal_picks_old_side:
  "\<exists>p. cleanup_reach p \<and> pr_active p = Fs2 \<and> (\<exists>m1 m2. m1 < m2 \<and> chosen p m1 m2 = Fs1)"
proof -
  let ?p = "clean_once (clean_once fresh)"
  let ?q = "?p\<lparr>pr_flags := (pr_flags ?p)(pr_active ?p := (pr_flags ?p (pr_active ?p))\<lparr>sealed := True\<rparr>), pr_phase := Sealed\<rparr>"
  have p: "cleanup_reach ?p" by (intro clean_once_reach start) (simp_all add: fresh_def clean_once_def)
  have "pr_phase ?p = Idle" by (simp add: clean_once_def)
  then have "cleanup_reach ?q" by (rule cleanup_reach.step [OF p cleanup_step.seal])
  moreover have "pr_active ?q = Fs2" "chosen ?q 1 2 = Fs1"
    by (simp_all add: clean_once_def fresh_def other_def no_flags_def chosen_def choose_side_def)
  ultimately show ?thesis by (intro exI [of _ ?q] conjI exI [of _ 1] exI [of _ 2]) simp_all
qed

end
