(* ===== verification/VfsFile.thy ===== *)
theory VfsFile
  imports BufferSpec Files
begin

text \<open>
  The file that the virtual file system gives to those who open one
  (\<open>src_vfs/SimpleFlashFsVfsServer.cc\<close>: \<open>OpenFile\<close>, \<open>ThreadedFileHandle\<close>). All openers of a file
  share the handle of the drive; every opener has a position of its own. An operation holds the
  mutex of the shared file from its beginning to its end, so operations of different openers
  follow one another in some order.
\<close>

section \<open>The shared file and an opener\<close>

text \<open>The shared file is \<open>None\<close> when its \<open>handle\<close> is a null pointer.\<close>

record threaded =
  th_pos :: nat
  th_append :: bool

definition uh_ok :: "'s file_ops \<Rightarrow> 's option \<Rightarrow> bool" where
  "uh_ok F e = (case e of None \<Rightarrow> False | Some s \<Rightarrow> fi_valid F s)"

definition ThreadedFileHandle :: "'s file_ops \<Rightarrow> 's option \<Rightarrow> open_mode \<Rightarrow> threaded" where
  "ThreadedFileHandle F e m =
     \<lparr>th_pos = (if mode_ate m \<and> uh_ok F e then fi_file_size F (the e) else 0), th_append = mode_app m\<rparr>"

section \<open>The operations\<close>

text \<open>The seek to the position of the opener, when the shared handle stands elsewhere.\<close>

definition th_sync :: "'s file_ops \<Rightarrow> 's \<Rightarrow> nat \<Rightarrow> 's res" where
  "th_sync F s target =
     (if fi_tellg F s \<noteq> target then bindE (fi_seek F s target) (\<lambda>(_, s). Inr s) else Inr s)"

definition th_write :: "'s file_ops \<Rightarrow> 's option \<times> threaded \<Rightarrow> byte list \<Rightarrow> (nat \<times> 's option \<times> threaded) res" where
  "th_write F = (\<lambda>(e, t) d.
     if \<not> uh_ok F e then Inr (0, e, t)
     else
       let s = the e; target = (if th_append t then fi_file_size F s else th_pos t)
       in bindE (th_sync F s target) (\<lambda>s.
          bindE (fi_write F s d) (\<lambda>(n, s). Inr (n, Some s, t\<lparr>th_pos := fi_tellg F s\<rparr>))))"

definition th_read :: "'s file_ops \<Rightarrow> 's option \<times> threaded \<Rightarrow> nat \<Rightarrow> (byte list \<times> 's option \<times> threaded) res" where
  "th_read F = (\<lambda>(e, t) n.
     if \<not> uh_ok F e then Inr ([], e, t)
     else
       bindE (th_sync F (the e) (th_pos t)) (\<lambda>s.
       bindE (fi_read F s n) (\<lambda>(d, s). Inr (d, Some s, t\<lparr>th_pos := fi_tellg F s\<rparr>))))"

definition th_lift :: "('s \<Rightarrow> (bool \<times> 's) res) \<Rightarrow> 's file_ops \<Rightarrow> 's option \<times> threaded \<Rightarrow>
    (bool \<times> 's option \<times> threaded) res" where
  "th_lift f F = (\<lambda>(e, t).
     if \<not> uh_ok F e then Inr (False, e, t) else bindE (f (the e)) (\<lambda>(done, s). Inr (done, Some s, t)))"

definition th_flush :: "'s file_ops \<Rightarrow> 's option \<times> threaded \<Rightarrow> (bool \<times> 's option \<times> threaded) res" where
  "th_flush F = th_lift (fi_flush F) F"

definition th_tellg :: "'s option \<times> threaded \<Rightarrow> nat" where
  "th_tellg = (\<lambda>(e, t). th_pos t)"

definition th_file_size :: "'s file_ops \<Rightarrow> 's option \<times> threaded \<Rightarrow> nat" where
  "th_file_size F = (\<lambda>(e, t). if \<not> uh_ok F e then 0 else fi_file_size F (the e))"

definition th_eof :: "'s file_ops \<Rightarrow> 's option \<times> threaded \<Rightarrow> bool" where
  "th_eof F = (\<lambda>(e, t).
     if \<not> uh_ok F e then True
     else let sz = fi_file_size F (the e) in if sz = 0 then True else th_pos t \<ge> sz)"

definition th_seek :: "'s option \<times> threaded \<Rightarrow> nat \<Rightarrow> (bool \<times> 's option \<times> threaded) res" where
  "th_seek = (\<lambda>(e, t) p. Inr (True, e, t\<lparr>th_pos := p\<rparr>))"

definition th_delete_file :: "'s file_ops \<Rightarrow> 's option \<times> threaded \<Rightarrow> (bool \<times> 's option \<times> threaded) res" where
  "th_delete_file F = th_lift (fi_delete_file F) F"

definition th_rename_file ::
  "'s file_ops \<Rightarrow> 's option \<times> threaded \<Rightarrow> byte list \<Rightarrow> (bool \<times> 's option \<times> threaded) res" where
  "th_rename_file F x name = th_lift (\<lambda>s. fi_rename_file F s name) F x"

definition th_truncate ::
  "'s file_ops \<Rightarrow> 's option \<times> threaded \<Rightarrow> nat \<Rightarrow> (bool \<times> 's option \<times> threaded) res" where
  "th_truncate F x new_size =
     bindE (th_lift (\<lambda>s. fi_truncate F s new_size) F x) (\<lambda>(done, e, t).
     Inr (done, e, if done \<and> th_pos t > new_size then t\<lparr>th_pos := new_size\<rparr> else t))"

definition th_get_file_name :: "'s file_ops \<Rightarrow> 's option \<times> threaded \<Rightarrow> byte list" where
  "th_get_file_name F = (\<lambda>(e, t). if \<not> uh_ok F e then [] else fi_get_file_name F (the e))"

definition threaded_ops :: "'s file_ops \<Rightarrow> ('s option \<times> threaded) file_ops" where
  "threaded_ops F = \<lparr>
     fi_valid = (\<lambda>(e, t). uh_ok F e),
     fi_write = th_write F,
     fi_read = th_read F,
     fi_flush = th_flush F,
     fi_tellg = th_tellg,
     fi_file_size = th_file_size F,
     fi_eof = th_eof F,
     fi_seek = th_seek,
     fi_delete_file = th_delete_file F,
     fi_rename_file = th_rename_file F,
     fi_truncate = th_truncate F,
     fi_get_file_name = th_get_file_name F,
     fi_is_append_mode = (\<lambda>(e, t). th_append t)\<rparr>"

section \<open>An opener keeps the contract of an open file\<close>

definition th_cont :: "('s \<Rightarrow> byte list) \<Rightarrow> 's option \<times> threaded \<Rightarrow> byte list" where
  "th_cont cont = (\<lambda>(e, t). cont (the e))"

definition th_good :: "('s \<Rightarrow> bool) \<Rightarrow> ('s \<Rightarrow> byte list) \<Rightarrow> 's option \<times> threaded \<Rightarrow> bool" where
  "th_good good cont = (\<lambda>(e, t). e \<noteq> None \<and> good (the e) \<and> \<not> th_append t \<and> th_pos t \<le> length (cont (the e)))"

definition th_can :: "('s \<Rightarrow> nat \<Rightarrow> nat \<Rightarrow> bool) \<Rightarrow> 's option \<times> threaded \<Rightarrow> nat \<Rightarrow> nat \<Rightarrow> bool" where
  "th_can can = (\<lambda>(e, t). can (the e))"

text \<open>Where an opener writes.\<close>

definition th_target :: "nat \<Rightarrow> threaded \<Rightarrow> nat" where
  "th_target n t = (if th_append t then n else th_pos t)"

context connected_file
begin

lemma sync_ok:
  assumes "good s" "p \<le> length (cont s)"
  shows "\<exists>s'. th_sync F s p = Inr s' \<and> good s' \<and> cont s' = cont s \<and> fi_tellg F s' = p \<and> can s' = can s"
proof (cases "fi_tellg F s = p")
  case True
  then show ?thesis using assms by (simp add: th_sync_def)
next
  case False
  then show ?thesis using seek_ok [OF assms] by (auto simp: th_sync_def)
qed

lemma uh_ok_good [simp]: "good s \<Longrightarrow> uh_ok F (Some s)"
  by (simp add: uh_ok_def good_valid)

lemma th_read_ok:
  assumes "good s" "th_pos t \<le> length (cont s)"
  shows "\<exists>s'. th_read F (Some s, t) n = Inr (take n (drop (th_pos t) (cont s)), Some s',
      t\<lparr>th_pos := th_pos t + min n (length (cont s) - th_pos t)\<rparr>)
    \<and> good s' \<and> cont s' = cont s \<and> can s' = can s"
proof -
  from sync_ok [OF assms] obtain s1 where
    s1: "th_sync F s (th_pos t) = Inr s1" "good s1" "cont s1 = cont s" "fi_tellg F s1 = th_pos t" "can s1 = can s" by blast
  from read_ok [OF s1(2), of n] obtain s2 where
    "fi_read F s1 n = Inr (take n (drop (th_pos t) (cont s)), s2)" "good s2" "cont s2 = cont s"
    "fi_tellg F s2 = th_pos t + min n (length (cont s) - th_pos t)" "can s2 = can s" unfolding s1(3-5) by blast
  then show ?thesis using assms(1) s1(1) by (intro exI [of _ s2]) (simp add: th_read_def)
qed

lemma th_write_ok:
  assumes "good s" "q = th_target (length (cont s)) t" "q \<le> length (cont s)" "can s q (length d)"
  shows "\<exists>s'. th_write F (Some s, t) d = Inr (length d, Some s', t\<lparr>th_pos := q + length d\<rparr>)
    \<and> good s' \<and> cont s' = overlay (cont s) q d"
proof -
  from sync_ok [OF assms(1,3)] obtain s1 where
    s1: "th_sync F s q = Inr s1" "good s1" "cont s1 = cont s" "fi_tellg F s1 = q" "can s1 = can s" by blast
  from assms(4) have "can s1 (fi_tellg F s1) (length d)" unfolding s1(4,5) .
  from write_ok [OF s1(2) this] obtain s2 where
    "fi_write F s1 d = Inr (length d, s2)" "good s2" "cont s2 = overlay (cont s) q d" "fi_tellg F s2 = q + length d"
    unfolding s1(3,4) by blast
  moreover have "(if th_append t then fi_file_size F s else th_pos t) = q"
    using assms(2) size_eq [OF assms(1)] by (simp add: th_target_def)
  ultimately show ?thesis using assms(1) s1(1) by (intro exI [of _ s2]) (simp add: th_write_def Let_def)
qed

end

sublocale connected_file \<subseteq> opener: open_file_contract "threaded_ops F" "th_good good cont" "th_cont cont" "th_can can"
proof
  fix x :: "'s option \<times> threaded" and p n :: nat and d :: "byte list"
  assume "th_good good cont x"
  then obtain s t where x: "x = (Some s, t)" and g: "good s" "\<not> th_append t" "th_pos t \<le> length (cont s)"
    by (cases x) (auto simp: th_good_def)
  have c: "th_cont cont x = cont s" by (simp add: x th_cont_def)
  have tell: "fi_tellg (threaded_ops F) x = th_pos t" by (simp add: threaded_ops_def th_tellg_def x)
  show "fi_file_size (threaded_ops F) x = length (th_cont cont x)"
    using g(1) size_eq by (simp add: threaded_ops_def th_file_size_def x th_cont_def)
  show "length (th_cont cont x) < 2 ^ 62" "fi_tellg (threaded_ops F) x \<le> length (th_cont cont x)"
    using size_bound [OF g(1)] g(3) unfolding c tell by simp_all
  show "\<not> fi_is_append_mode (threaded_ops F) x" using g(2) by (simp add: threaded_ops_def x)
  show "\<exists>x'. fi_seek (threaded_ops F) x p = Inr (True, x') \<and> th_good good cont x' \<and> th_cont cont x' = th_cont cont x
      \<and> fi_tellg (threaded_ops F) x' = p \<and> th_can can x' = th_can can x" if "p \<le> length (th_cont cont x)"
    using g that unfolding c by (auto simp: threaded_ops_def th_seek_def x th_good_def th_cont_def th_tellg_def th_can_def)
  show "\<exists>x'. fi_read (threaded_ops F) x n =
        Inr (take n (drop (fi_tellg (threaded_ops F) x) (th_cont cont x)), x')
      \<and> th_good good cont x' \<and> th_cont cont x' = th_cont cont x
      \<and> fi_tellg (threaded_ops F) x' = fi_tellg (threaded_ops F) x
          + min n (length (th_cont cont x) - fi_tellg (threaded_ops F) x)
      \<and> th_can can x' = th_can can x"
    unfolding c tell using th_read_ok [OF g(1,3), of n] g(2,3)
    by (auto simp: threaded_ops_def x th_good_def th_cont_def th_tellg_def th_can_def)
  show "\<exists>x'. fi_write (threaded_ops F) x d = Inr (length d, x') \<and> th_good good cont x'
      \<and> th_cont cont x' = overlay (th_cont cont x) (fi_tellg (threaded_ops F) x) d
      \<and> fi_tellg (threaded_ops F) x' = fi_tellg (threaded_ops F) x + length d"
    if "th_can can x (fi_tellg (threaded_ops F) x) (length d)"
  proof -
    have "th_target (length (cont s)) t = th_pos t" using g(2) by (simp add: th_target_def)
    then show ?thesis unfolding c tell
      using th_write_ok [OF g(1) refl, of t d] g(2,3) that length_overlay_max [OF g(3), of d] unfolding tell
      by (auto simp: threaded_ops_def x th_good_def th_cont_def th_tellg_def th_can_def)
  qed
  show "\<not> fi_eof (threaded_ops F) x" if "Suc (fi_tellg (threaded_ops F) x) < length (th_cont cont x)"
    using that size_eq [OF g(1)] g(1) unfolding c tell by (auto simp: threaded_ops_def th_eof_def x Let_def)
qed

section \<open>Several openers\<close>

text \<open>
  A schedule is a list of operations, each with the opener that performs it. \<open>run_openers\<close> lets
  them take their turns on the shared file.
\<close>

datatype opener_op = Op_read nat | Op_write "byte list" | Op_seek nat

datatype opener_result = Bytes "byte list" | Count nat | Done bool

fun th_op :: "'s file_ops \<Rightarrow> 's option \<times> threaded \<Rightarrow> opener_op \<Rightarrow> (opener_result \<times> 's option \<times> threaded) res" where
  "th_op F x (Op_read n) = bindE (th_read F x n) (\<lambda>(d, x). Inr (Bytes d, x))"
| "th_op F x (Op_write d) = bindE (th_write F x d) (\<lambda>(n, x). Inr (Count n, x))"
| "th_op F x (Op_seek p) = bindE (th_seek x p) (\<lambda>(done, x). Inr (Done done, x))"

fun run_openers :: "'s file_ops \<Rightarrow> 's option \<Rightarrow> threaded list \<Rightarrow> (nat \<times> opener_op) list \<Rightarrow>
    (opener_result list \<times> 's option \<times> threaded list) res" where
  "run_openers F e ts [] = Inr ([], e, ts)"
| "run_openers F e ts ((i, op) # ops) =
     bindE (th_op F (e, ts ! i) op) (\<lambda>(r, e, t).
     bindE (run_openers F e (ts[i := t]) ops) (\<lambda>(rs, e, ts). Inr (r # rs, e, ts)))"

text \<open>What they may rely on: one byte list, and a position for each of them.\<close>

fun spec_op :: "byte list \<Rightarrow> threaded \<Rightarrow> opener_op \<Rightarrow> opener_result \<times> byte list \<times> threaded" where
  "spec_op C t (Op_read n) = (Bytes (take n (drop (th_pos t) C)), C,
     t\<lparr>th_pos := th_pos t + min n (length C - th_pos t)\<rparr>)"
| "spec_op C t (Op_write d) = (Count (length d), overlay C (th_target (length C) t) d,
     t\<lparr>th_pos := th_target (length C) t + length d\<rparr>)"
| "spec_op C t (Op_seek p) = (Done True, C, t\<lparr>th_pos := p\<rparr>)"

fun spec_run :: "byte list \<Rightarrow> threaded list \<Rightarrow> (nat \<times> opener_op) list \<Rightarrow>
    opener_result list \<times> byte list \<times> threaded list" where
  "spec_run C ts [] = ([], C, ts)"
| "spec_run C ts ((i, op) # ops) =
     (let (r, C, t) = spec_op C (ts ! i) op; (rs, C, ts) = spec_run C (ts[i := t]) ops in (r # rs, C, ts))"

text \<open>Seeks stay inside of the file, and writes below the limit.\<close>

fun op_allowed :: "nat \<Rightarrow> byte list \<Rightarrow> threaded \<Rightarrow> opener_op \<Rightarrow> bool" where
  "op_allowed N C t (Op_read n) = True"
| "op_allowed N C t (Op_write d) = (th_target (length C) t + length d \<le> N)"
| "op_allowed N C t (Op_seek p) = (p \<le> length C)"

fun run_allowed :: "nat \<Rightarrow> byte list \<Rightarrow> threaded list \<Rightarrow> (nat \<times> opener_op) list \<Rightarrow> bool" where
  "run_allowed N C ts [] = True"
| "run_allowed N C ts ((i, op) # ops) =
     (i < length ts \<and> op_allowed N C (ts ! i) op
      \<and> (let (r, C, t) = spec_op C (ts ! i) op in run_allowed N C (ts[i := t]) ops))"

context bounded_file
begin

lemma op_refines:
  assumes "good s" "th_pos t \<le> length (cont s)" "op_allowed N (cont s) t op" "spec_op (cont s) t op = (r, C, t')"
  shows "\<exists>s'. th_op F (Some s, t) op = Inr (r, Some s', t') \<and> good s' \<and> cont s' = C
    \<and> th_pos t' \<le> length C \<and> length (cont s) \<le> length C"
proof (cases op)
  case (Op_read n)
  then show ?thesis using th_read_ok [OF assms(1,2), of n] assms(2,4) by auto
next
  case (Op_write d)
  let ?q = "th_target (length (cont s)) t"
  have q: "?q \<le> length (cont s)" using assms(2) by (simp add: th_target_def)
  have "?q + length d \<le> N" using assms(3) Op_write by simp
  from th_write_ok [OF assms(1) refl q this] obtain s' where
    "th_write F (Some s, t) d = Inr (length d, Some s', t\<lparr>th_pos := ?q + length d\<rparr>)"
    "good s'" "cont s' = overlay (cont s) ?q d" by blast
  then show ?thesis using assms(4) Op_write length_overlay_max [OF q, of d] by auto
next
  case (Op_seek p)
  then show ?thesis using assms by (auto simp: th_seek_def)
qed

lemma run_refines:
  assumes "good s" "\<forall>t\<in>set ts. th_pos t \<le> length (cont s)" "run_allowed N (cont s) ts ops"
    "spec_run (cont s) ts ops = (rs, C, ts')"
  shows "\<exists>s'. run_openers F (Some s) ts ops = Inr (rs, Some s', ts') \<and> good s' \<and> cont s' = C
    \<and> (\<forall>t\<in>set ts'. th_pos t \<le> length C)"
  using assms
proof (induction ops arbitrary: s ts rs)
  case (Cons a ops)
  obtain i op where a: "a = (i, op)" by (cases a)
  obtain r D t where st: "spec_op (cont s) (ts ! i) op = (r, D, t)" by (cases "spec_op (cont s) (ts ! i) op")
  have i: "i < length ts" "op_allowed N (cont s) (ts ! i) op" "run_allowed N D (ts[i := t]) ops"
    using Cons.prems(3) by (simp_all add: a st)
  obtain rs1 where sr: "spec_run D (ts[i := t]) ops = (rs1, C, ts')" "rs = r # rs1"
    using Cons.prems(4) by (auto simp: a st split: prod.splits)
  have "th_pos (ts ! i) \<le> length (cont s)" using Cons.prems(2) i(1) by simp
  from op_refines [OF Cons.prems(1) this i(2) st] obtain s1 where
    s1: "th_op F (Some s, ts ! i) op = Inr (r, Some s1, t)" "good s1" "cont s1 = D" "th_pos t \<le> length D"
      "length (cont s) \<le> length D" by blast
  have "\<forall>t\<in>set (ts[i := t]). th_pos t \<le> length (cont s1)"
  proof
    fix u assume "u \<in> set (ts[i := t])"
    then have "u = t \<or> u \<in> set ts" using set_update_subset_insert [of ts i t] by auto
    then show "th_pos u \<le> length (cont s1)" using Cons.prems(2) s1(3-5) by auto
  qed
  from Cons.IH [OF s1(2) this] i(3) sr(1) s1(3) obtain s2 where
    "run_openers F (Some s1) (ts[i := t]) ops = Inr (rs1, Some s2, ts')" "good s2" "cont s2 = C"
    "\<forall>t\<in>set ts'. th_pos t \<le> length C" by auto
  then show ?case using s1(1) sr(2) by (simp add: a)
qed simp

end

end
