(* ===== verification/InlineFile.thy ===== *)
theory InlineFile
  imports HandleFile VfsFile
begin

text \<open>
  Files that are stored in their inode. They can be written again and again without a new page, up
  to a size that depends on the page and on the length of the name; so a composed program that
  writes many times can be followed on them. On the simulated internal flash a handle of such a
  file is a \<open>bounded_file\<close>.
\<close>

definition inline_good :: "('m \<Rightarrow> bool) \<Rightarrow> ('m \<Rightarrow> byte list) \<Rightarrow> ('m \<Rightarrow> nat \<Rightarrow> bool) \<Rightarrow> nat \<Rightarrow>
    'm fs \<times> file_handle \<Rightarrow> bool" where
  "inline_good ok cells writable N x \<longleftrightarrow> handle_good ok cells writable x
     \<and> get_inode_data_space_size (fst x) (fh_inode (snd x)) = Suc N
     \<and> file_len (fh_inode (snd x)) \<le> N"

lemma inline_fits:
  assumes "inline_good ok cells writable N (s, f)" "fh_pos f + n \<le> N"
  shows "fits_inode s f n" "n < 2 ^ 32"
proof -
  have ok: "file_ok ok cells writable s f" and sp: "get_inode_data_space_size s (fh_inode f) = Suc N"
    and l: "file_len (fh_inode f) \<le> N"
    using assms(1) by (simp_all add: inline_good_def handle_good_def)
  have io: "io_ok ok cells writable s f" and nl: "42 + file_name_len (fh_inode f) \<le> page_size (header s)"
    using ok by (simp_all add: file_ok_def)
  have "page_size (header s) < 2 ^ 32" using geometryD(4) [OF io_okD(2) [OF io]] by simp
  then have N: "N < 2 ^ 32" using inode_space [OF nl] sp by simp
  then show "n < 2 ^ 32" using assms(2) by simp
  have "add64 (fh_pos f) n = fh_pos f + n" using N assms(2) by (simp add: add64_small)
  then show "fits_inode s f n" using assms(2) sp l by (simp add: fits_inode_def)
qed

lemma inline_can:
  assumes "inline_good ok cells writable N (s, f)" "fh_pos f + n \<le> N"
  shows "can_write s f n"
proof -
  have "write_pos f = fh_pos f" "connected f" using assms(1) by (simp_all add: inline_good_def handle_good_def write_pos_def)
  then show ?thesis using inline_fits [OF assms] by (simp add: can_write_def Let_def)
qed

text \<open>Whatever keeps the header, the name and the limit keeps the file in its inode.\<close>

lemma inline_kept:
  assumes "inline_good ok cells writable N (s, f)" "handle_good ok cells writable (s', f')"
    "header s' = header s" "file_name_len (fh_inode f') = file_name_len (fh_inode f)"
    "length (handle_cont cells (s', f')) \<le> N"
  shows "inline_good ok cells writable N (s', f')"
proof -
  have "length (handle_cont cells (s', f')) = file_len (fh_inode f')"
    using assms(2) contents_length [of ok cells writable s' f'] by (simp add: handle_good_def handle_cont_def)
  moreover have "get_inode_data_space_size s' (fh_inode f') = get_inode_data_space_size s (fh_inode f)"
    using assms(3,4) by (simp add: get_inode_data_space_size_def get_checksum_size_def)
  ultimately show ?thesis using assms by (simp add: inline_good_def)
qed

context fs_on_flash
begin

lemma inline_contract: "bounded_file (handle_ops c) (inline_good ok cells writable N) (handle_cont cells) N"
proof
  fix x :: "'m fs \<times> file_handle" and p n :: nat and d :: "byte list"
  obtain s f where x: "x = (s, f)" by (cases x)
  assume ig: "inline_good ok cells writable N x"
  then have g: "handle_good ok cells writable x" by (simp add: inline_good_def)
  then have ok: "file_ok ok cells writable s f" "connected f" "\<not> append_mode f" by (simp_all add: handle_good_def x)
  have len: "length (handle_cont cells x) = file_len (fh_inode f)"
    by (simp add: handle_cont_def x contents_length [OF ok(1)])
  have lN: "length (handle_cont cells x) \<le> N" using ig unfolding len by (simp add: inline_good_def x)
  note h = handle_contract
  show "fi_file_size (handle_ops c) x = length (handle_cont cells x)" by (rule open_file_contract.size_eq [OF h g])
  show "length (handle_cont cells x) < 2 ^ 62" by (rule open_file_contract.size_bound [OF h g])
  show "fi_tellg (handle_ops c) x \<le> length (handle_cont cells x)" by (rule open_file_contract.tell_le [OF h g])
  show "\<not> fi_is_append_mode (handle_ops c) x" by (rule open_file_contract.no_append [OF h g])
  show "fi_valid (handle_ops c) x" using ok(2) by (simp add: handle_ops_def x)
  show "\<not> fi_eof (handle_ops c) x" if "Suc (fi_tellg (handle_ops c) x) < length (handle_cont cells x)"
    using that by (rule open_file_contract.eof_ok [OF h g])
  show "\<exists>x'. fi_seek (handle_ops c) x p = Inr (True, x') \<and> inline_good ok cells writable N x'
      \<and> handle_cont cells x' = handle_cont cells x \<and> fi_tellg (handle_ops c) x' = p
      \<and> (\<lambda>p n. p + n \<le> N) = (\<lambda>p n. p + n \<le> N)" if "p \<le> length (handle_cont cells x)"
  proof -
    from open_file_contract.seek_ok [OF h g that] obtain x' where
      x': "fi_seek (handle_ops c) x p = Inr (True, x')" "handle_good ok cells writable x'"
        "handle_cont cells x' = handle_cont cells x" "fi_tellg (handle_ops c) x' = p" by blast
    have "fi_seek (handle_ops c) x p = Inr (True, (s, f\<lparr>fh_pos := p\<rparr>))"
      using seek_inside [OF that [unfolded len], of s] by (simp add: handle_ops_def handle_res_def x)
    then have "x' = (s, f\<lparr>fh_pos := p\<rparr>)" using x'(1) by simp
    then show ?thesis using x' inline_kept [OF ig [unfolded x], of s "f\<lparr>fh_pos := p\<rparr>"] lN by simp
  qed
  show "\<exists>x'. fi_read (handle_ops c) x n = Inr (take n (drop (fi_tellg (handle_ops c) x) (handle_cont cells x)), x')
      \<and> inline_good ok cells writable N x' \<and> handle_cont cells x' = handle_cont cells x
      \<and> fi_tellg (handle_ops c) x' = fi_tellg (handle_ops c) x
          + min n (length (handle_cont cells x) - fi_tellg (handle_ops c) x)
      \<and> (\<lambda>p n. p + n \<le> N) = (\<lambda>p n. p + n \<le> N)"
  proof -
    from open_file_contract.read_ok [OF h g, of n] obtain x' where
      x': "fi_read (handle_ops c) x n = Inr (take n (drop (fi_tellg (handle_ops c) x) (handle_cont cells x)), x')"
        "handle_good ok cells writable x'" "handle_cont cells x' = handle_cont cells x"
        "fi_tellg (handle_ops c) x' = fi_tellg (handle_ops c) x
          + min n (length (handle_cont cells x) - fi_tellg (handle_ops c) x)" by blast
    from handle_read_ok [OF ok(1,2), of n] obtain m' where
      "FileHandle_read c s f n = Inr (take n (drop (fh_pos f) (contents cells s f)),
        f\<lparr>fh_pos := fh_pos f + min n (file_len (fh_inode f) - fh_pos f)\<rparr>, s\<lparr>mem := m'\<rparr>)" by blast
    then have e: "x' = (s\<lparr>mem := m'\<rparr>, f\<lparr>fh_pos := fh_pos f + min n (file_len (fh_inode f) - fh_pos f)\<rparr>)"
      using x'(1) by (simp add: handle_ops_def handle_res_def x)
    have "inline_good ok cells writable N x'"
      using inline_kept [OF ig [unfolded x] x'(2) [unfolded e]] x'(3) lN by (simp add: e)
    then show ?thesis using x' by blast
  qed
  show "\<exists>x'. fi_write (handle_ops c) x d = Inr (length d, x') \<and> inline_good ok cells writable N x'
      \<and> handle_cont cells x' = overlay (handle_cont cells x) (fi_tellg (handle_ops c) x) d
      \<and> fi_tellg (handle_ops c) x' = fi_tellg (handle_ops c) x + length d"
    if "fi_tellg (handle_ops c) x + length d \<le> N"
  proof -
    have pos: "fi_tellg (handle_ops c) x = fh_pos f" by (simp add: handle_ops_def x FileHandle_tellg_def)
    have cw: "can_write s f (length d)" using inline_can [OF ig [unfolded x]] that unfolding pos by simp
    then have "handle_can x (fi_tellg (handle_ops c) x) (length d)" unfolding pos by (simp add: handle_can_def x)
    from open_file_contract.write_ok [OF h g this] obtain x' where
      x': "fi_write (handle_ops c) x d = Inr (length d, x')" "handle_good ok cells writable x'"
        "handle_cont cells x' = overlay (handle_cont cells x) (fi_tellg (handle_ops c) x) d"
        "fi_tellg (handle_ops c) x' = fi_tellg (handle_ops c) x + length d" by blast
    from handle_write_ok [OF ok(1) cw] obtain f' s' where
      w: "FileHandle_write c s f d = Inr (length d, f', s')"
        "written ok cells writable s (f\<lparr>fh_pos := write_pos f\<rparr>) d s' f'" by blast
    then have e: "x' = (s', f')" using x'(1) by (simp add: handle_ops_def handle_res_def x)
    have hd: "header s' = header s" using w(2) by (simp add: written_def old_pages_kept_def same_fs_def)
    have "file_name_len (fh_inode f') = file_name_len (fh_inode f)"
      using w(2) unfolding written_def same_meta_def by (auto dest: arg_cong [where f = file_name_len])
    moreover have "length (handle_cont cells x') \<le> N"
      using length_overlay_max [OF open_file_contract.tell_le [OF h g]] that lN unfolding x'(3) by simp
    ultimately have "inline_good ok cells writable N x'"
      using inline_kept [OF ig [unfolded x] x'(2) [unfolded e] hd] by (simp add: e)
    then show ?thesis using x' by blast
  qed
qed

lemma handle_connected:
  "connected_file (handle_ops c) (handle_good ok cells writable) (handle_cont cells) handle_can"
  by (intro connected_file.intro handle_contract connected_file_axioms.intro)
    (auto simp: handle_good_def handle_ops_def)

end

interpretation sf: connected_file "handle_ops (stm32_config P crc e keep)"
  "handle_good stm32_ok st_mem stm32_writable" "handle_cont st_mem" handle_can
  for P crc e keep
  by (rule fs_stm32.handle_connected)

interpretation il: bounded_file "handle_ops (stm32_config P crc e keep)"
  "inline_good stm32_ok st_mem stm32_writable N" "handle_cont st_mem" N
  for P crc e keep N
  by (rule fs_stm32.inline_contract)

lemma inline_file_inline_good:
  assumes "length d < 22"
  shows "inline_good stm32_ok st_mem stm32_writable 21 (small_fs sample_flash, inline_file d)"
  using inline_file_good(1) [OF assms] inline_file_space [of d] assms
  by (simp add: inline_good_def) (simp add: inline_file_def)

end
