(* ===== verification/VfsServer.thy ===== *)
theory VfsServer
  imports VfsFile
begin

text \<open>
  The virtual file system server (\<open>src_vfs/SimpleFlashFsVfs.h\<close>,
  \<open>src_vfs/SimpleFlashFsVfsServer.h\<close> and \<open>.cc\<close>): drives with names, paths that begin with the name
  of a drive, and a table of the files that are open, so that all who open one share its handle.
  Every operation holds the mutex of the server, so they follow one another.
\<close>

section \<open>Drives and the state of the server\<close>

text \<open>
  The virtual functions of \<open>VfsDriveInterface\<close>, over the state \<open>'w\<close> of everything behind the
  drives; \<open>'h\<close> are the handles they give out (\<open>None\<close>: a null pointer), and \<open>'a\<close> is what a callback
  collects. \<open>dr_destroy\<close> is the destructor of a handle.
\<close>

record ('w, 'h, 'a) drive =
  dr_name :: "byte list"
  dr_open :: "'w \<Rightarrow> byte list \<Rightarrow> open_mode \<Rightarrow> ('h option \<times> 'w) res"
  dr_list_files :: "'w \<Rightarrow> ('a \<Rightarrow> byte list \<Rightarrow> nat \<Rightarrow> bool \<times> 'a) \<Rightarrow> 'a \<Rightarrow> (bool \<times> 'a \<times> 'w) res"
  dr_create :: "'w \<Rightarrow> 'w res"
  dr_init :: "'w \<Rightarrow> (bool \<times> 'w) res"
  dr_initialized :: "'w \<Rightarrow> bool"
  dr_cleanup :: "'w \<Rightarrow> 'w res"

text \<open>
  An \<open>OpenFile\<close> lives as long as some opener holds a \<open>shared_ptr\<close> to it, so it is kept with the
  number of those. The table has \<open>weak_ptr\<close>s: \<open>lock\<close> finds the file as long as it lives.
\<close>

record 'h shared_entry =
  of_handle :: "'h option"
  of_refs :: nat

record ('w, 'h, 'a) vfs =
  vs_world :: 'w
  vs_drives :: "('w, 'h, 'a) drive list"
  vs_current :: "byte list"
  vs_open_files :: "byte list \<Rightarrow> nat option"
  vs_entries :: "nat \<Rightarrow> 'h shared_entry option"
  vs_next :: nat

record opener =
  op_entry :: nat
  op_th :: threaded

definition SimpleFlashFsVfsServer :: "'w \<Rightarrow> ('w, 'h, 'a) vfs" where
  "SimpleFlashFsVfsServer w = \<lparr>vs_world = w, vs_drives = [], vs_current = [],
     vs_open_files = (\<lambda>_. None), vs_entries = (\<lambda>_. None), vs_next = 0\<rparr>"

definition register_drive :: "('w, 'h, 'a) vfs \<Rightarrow> ('w, 'h, 'a) drive \<Rightarrow> bool \<times> ('w, 'h, 'a) vfs" where
  "register_drive v d = (True, v\<lparr>vs_drives := vs_drives v @ [d]\<rparr>)"

section \<open>Paths\<close>

definition slash :: byte where "slash = 47"

definition starts_with :: "byte \<Rightarrow> byte list \<Rightarrow> bool" where
  "starts_with x s = (s \<noteq> [] \<and> hd s = x)"

text \<open>The index of the first \<open>x\<close>; the length stands for \<open>npos\<close>.\<close>

definition find_char :: "byte \<Rightarrow> byte list \<Rightarrow> nat" where
  "find_char x s = length (takeWhile (\<lambda>y. y \<noteq> x) s)"

definition get_drive_name :: "byte list \<Rightarrow> byte list" where
  "get_drive_name path =
     (let name = (if starts_with slash path then drop 1 path else path); pos = find_char slash name
      in if pos \<noteq> length name then take pos name else name)"

text \<open>The name of the drive, and what is left of the path.\<close>

definition parse_drive_name :: "byte list \<Rightarrow> byte list \<times> byte list" where
  "parse_drive_name path =
     (let start = (if starts_with slash path then 1 else 0); name = drop start path; pos = find_char slash name
      in if pos \<noteq> length name then
           let path = drop (pos + start) path; path = (if starts_with slash path then drop 1 path else path)
           in (take pos name, path)
         else (name, path))"

definition vfs_key :: "byte list \<Rightarrow> byte list" where
  "vfs_key path = (let (drive_name, file_path) = parse_drive_name path in drive_name @ [58] @ file_path)"

section \<open>Opening and closing\<close>

text \<open>An opener of an entry that exists; one \<open>shared_ptr\<close> more.\<close>

definition make_opener :: "('w \<times> 'h) file_ops \<Rightarrow> ('w, 'h, 'a) vfs \<Rightarrow> nat \<Rightarrow> open_mode \<Rightarrow> opener \<times> ('w, 'h, 'a) vfs" where
  "make_opener F v k m =
     (case vs_entries v k of
        None \<Rightarrow> (\<lparr>op_entry = k, op_th = ThreadedFileHandle F None m\<rparr>, v)
      | Some e \<Rightarrow>
          (\<lparr>op_entry = k, op_th = ThreadedFileHandle F (map_option (Pair (vs_world v)) (of_handle e)) m\<rparr>,
           v\<lparr>vs_entries := (vs_entries v)(k \<mapsto> e\<lparr>of_refs := Suc (of_refs e)\<rparr>)\<rparr>))"

definition entry_valid :: "('w \<times> 'h) file_ops \<Rightarrow> ('w, 'h, 'a) vfs \<Rightarrow> nat \<Rightarrow> bool" where
  "entry_valid F v k = (case vs_entries v k of None \<Rightarrow> False
     | Some e \<Rightarrow> uh_ok F (map_option (Pair (vs_world v)) (of_handle e)))"

text \<open>The first part of \<open>open\<close>: the file is open already, and is truncated when the mode says so.\<close>

definition open_shared :: "('w \<times> 'h) file_ops \<Rightarrow> ('w, 'h, 'a) vfs \<Rightarrow> nat \<Rightarrow> open_mode \<Rightarrow>
    (opener option \<times> ('w, 'h, 'a) vfs) res" where
  "open_shared F v k m =
     (let e = the (vs_entries v k)
      in bindE (if mode_trunc m then
                  bindE (fi_truncate F (vs_world v, the (of_handle e)) 0) (\<lambda>(_, w, h).
                  Inr (v\<lparr>vs_world := w, vs_entries := (vs_entries v)(k \<mapsto> e\<lparr>of_handle := Some h\<rparr>)\<rparr>))
                else Inr v) (\<lambda>v.
         let (t, v) = make_opener F v k m in Inr (Some t, v)))"

text \<open>The loop over the drives.\<close>

fun open_on_drives :: "('w \<times> 'h) file_ops \<Rightarrow> ('w, 'h, 'a) vfs \<Rightarrow> byte list \<Rightarrow> byte list \<Rightarrow> byte list \<Rightarrow>
    open_mode \<Rightarrow> ('w, 'h, 'a) drive list \<Rightarrow> (opener option \<times> ('w, 'h, 'a) vfs) res" where
  "open_on_drives F v key drive_name file_path m [] = Inr (None, v)"
| "open_on_drives F v key drive_name file_path m (d # ds) =
     (if dr_name d \<noteq> drive_name then open_on_drives F v key drive_name file_path m ds
      else
        bindE (if \<not> dr_initialized d (vs_world v) then dr_init d (vs_world v) else Inr (True, vs_world v))
          (\<lambda>(done, w).
        if \<not> done then Inr (None, v\<lparr>vs_world := w\<rparr>)
        else
          bindE (dr_open d w file_path m) (\<lambda>(file, w).
          let v = v\<lparr>vs_world := w\<rparr>
          in case file of
               None \<Rightarrow> open_on_drives F v key drive_name file_path m ds
             | Some h \<Rightarrow>
                 let k = vs_next v;
                     v = v\<lparr>vs_entries := (vs_entries v)(k \<mapsto> \<lparr>of_handle = Some h, of_refs = 0\<rparr>),
                           vs_open_files := (vs_open_files v)(key \<mapsto> k), vs_next := Suc k\<rparr>;
                     (t, v) = make_opener F v k m
                 in Inr (Some t, v))))"

definition vfs_open :: "('w \<times> 'h) file_ops \<Rightarrow> ('w, 'h, 'a) vfs \<Rightarrow> byte list \<Rightarrow> open_mode \<Rightarrow>
    (opener option \<times> ('w, 'h, 'a) vfs) res" where
  "vfs_open F v path m =
     (let (drive_name, file_path) = parse_drive_name path; key = drive_name @ [58] @ file_path
      in case vs_open_files v key of
           Some k \<Rightarrow>
             if entry_valid F v k then open_shared F v k m
             else open_on_drives F (v\<lparr>vs_open_files := (vs_open_files v)(key := None)\<rparr>) key drive_name file_path m
                    (vs_drives v)
         | None \<Rightarrow> open_on_drives F v key drive_name file_path m (vs_drives v))"

text \<open>
  An operation of an opener, on the entry it holds. Its destructor gives the \<open>shared_ptr\<close> back; the
  last one destroys the handle.
\<close>

definition opener_run :: "(('w \<times> 'h) option \<times> threaded \<Rightarrow> ('r \<times> ('w \<times> 'h) option \<times> threaded) res) \<Rightarrow>
    ('w, 'h, 'a) vfs \<Rightarrow> opener \<Rightarrow> ('r \<times> opener \<times> ('w, 'h, 'a) vfs) res" where
  "opener_run f v t =
     (case vs_entries v (op_entry t) of
        None \<Rightarrow> Inl Undefined
      | Some e \<Rightarrow>
          bindE (f (map_option (Pair (vs_world v)) (of_handle e), op_th t)) (\<lambda>(r, x, th).
          Inr (r, t\<lparr>op_th := th\<rparr>,
            v\<lparr>vs_world := (case x of None \<Rightarrow> vs_world v | Some (w, _) \<Rightarrow> w),
              vs_entries := (vs_entries v)(op_entry t \<mapsto> e\<lparr>of_handle := map_option snd x\<rparr>)\<rparr>)))"

definition opener_close :: "('w \<Rightarrow> 'h \<Rightarrow> 'w res) \<Rightarrow> ('w, 'h, 'a) vfs \<Rightarrow> opener \<Rightarrow> ('w, 'h, 'a) vfs res" where
  "opener_close destroy v t =
     (case vs_entries v (op_entry t) of
        None \<Rightarrow> Inl Undefined
      | Some e \<Rightarrow>
          if of_refs e > 1 then
            Inr (v\<lparr>vs_entries := (vs_entries v)(op_entry t \<mapsto> e\<lparr>of_refs := of_refs e - 1\<rparr>)\<rparr>)
          else
            bindE (case of_handle e of None \<Rightarrow> Inr (vs_world v) | Some h \<Rightarrow> destroy (vs_world v) h) (\<lambda>w.
            Inr (v\<lparr>vs_world := w, vs_entries := (vs_entries v)(op_entry t := None)\<rparr>)))"

section \<open>The other operations\<close>

definition get_drive_names :: "('w, 'h, 'a) vfs \<Rightarrow> byte list list" where
  "get_drive_names v = map dr_name (vs_drives v)"

fun list_drives :: "('a \<Rightarrow> byte list \<Rightarrow> nat \<Rightarrow> bool \<times> 'a) \<Rightarrow> byte list \<Rightarrow> 'a \<Rightarrow> 'w \<Rightarrow>
    ('w, 'h, 'a) drive list \<Rightarrow> (bool \<times> 'a \<times> 'w) res" where
  "list_drives callback drive_name a w [] = Inr (True, a, w)"
| "list_drives callback drive_name a w (d # ds) =
     (if drive_name \<noteq> [] \<and> dr_name d \<noteq> drive_name then list_drives callback drive_name a w ds
      else
        bindE (if \<not> dr_initialized d w then dr_init d w else Inr (True, w)) (\<lambda>(done, w).
        if \<not> done then list_drives callback drive_name a w ds
        else
          bindE (dr_list_files d w callback a) (\<lambda>(done, a, w).
          if \<not> done then Inr (False, a, w) else list_drives callback drive_name a w ds)))"

definition vfs_list_files :: "('a \<Rightarrow> byte list \<Rightarrow> nat \<Rightarrow> bool \<times> 'a) \<Rightarrow> byte list \<Rightarrow> 'a \<Rightarrow> ('w, 'h, 'a) vfs \<Rightarrow>
    (bool \<times> 'a \<times> ('w, 'h, 'a) vfs) res" where
  "vfs_list_files callback drive_name a v =
     bindE (list_drives callback drive_name a (vs_world v) (vs_drives v)) (\<lambda>(done, a, w).
     Inr (done, a, v\<lparr>vs_world := w\<rparr>))"

text \<open>The first drive of a name.\<close>

definition find_drive :: "('w, 'h, 'a) vfs \<Rightarrow> byte list \<Rightarrow> ('w, 'h, 'a) drive option" where
  "find_drive v drive_name = find (\<lambda>d. dr_name d = drive_name) (vs_drives v)"

definition vfs_create :: "('w, 'h, 'a) vfs \<Rightarrow> byte list \<Rightarrow> ('w, 'h, 'a) vfs res" where
  "vfs_create v drive_name =
     (case find_drive v drive_name of
        None \<Rightarrow> Inr v
      | Some d \<Rightarrow> bindE (dr_create d (vs_world v)) (\<lambda>w. Inr (v\<lparr>vs_world := w\<rparr>)))"

definition get_current_drive :: "('w, 'h, 'a) vfs \<Rightarrow> byte list" where
  "get_current_drive v = vs_current v"

definition set_current_drive :: "('w, 'h, 'a) vfs \<Rightarrow> byte list \<Rightarrow> (bool \<times> ('w, 'h, 'a) vfs) res" where
  "set_current_drive v drive_name =
     (case find_drive v drive_name of
        None \<Rightarrow> Inr (False, v)
      | Some d \<Rightarrow>
          let v = v\<lparr>vs_current := drive_name\<rparr>
          in if dr_initialized d (vs_world v) then Inr (True, v)
             else bindE (dr_init d (vs_world v)) (\<lambda>(done, w). Inr (done, v\<lparr>vs_world := w\<rparr>)))"

fun cleanup_drives :: "'w \<Rightarrow> ('w, 'h, 'a) drive list \<Rightarrow> 'w res" where
  "cleanup_drives w [] = Inr w"
| "cleanup_drives w (d # ds) = bindE (dr_cleanup d w) (\<lambda>w. cleanup_drives w ds)"

definition purge_expired_open_files :: "('w, 'h, 'a) vfs \<Rightarrow> ('w, 'h, 'a) vfs" where
  "purge_expired_open_files v = v\<lparr>vs_open_files := (\<lambda>key. case vs_open_files v key of None \<Rightarrow> None
     | Some k \<Rightarrow> if vs_entries v k = None then None else Some k)\<rparr>"

definition vfs_cleanup :: "('w, 'h, 'a) vfs \<Rightarrow> ('w, 'h, 'a) vfs res" where
  "vfs_cleanup v = bindE (cleanup_drives (vs_world v) (vs_drives v)) (\<lambda>w.
     Inr (purge_expired_open_files (v\<lparr>vs_world := w\<rparr>)))"

definition is_drive_initialized :: "('w, 'h, 'a) vfs \<Rightarrow> byte list \<Rightarrow> bool option" where
  "is_drive_initialized v drive_name = map_option (\<lambda>d. dr_initialized d (vs_world v)) (find_drive v drive_name)"

end
