(* ===== verification/VfsProps.thy ===== *)
theory VfsProps
  imports VfsServer InlineFile
begin

text \<open>
  The properties of the virtual file system: what several openers of one file see, which paths
  mean the same file, and the table of open files as an invariant over everything that can happen
  to the server.
\<close>

section \<open>What can happen\<close>

text \<open>
  The state is the server and the openers that exist, each with the key of the path it was opened
  with (which the server does not keep).
\<close>

inductive vfs_reach :: "('w \<times> 'h) file_ops \<Rightarrow> ('w \<Rightarrow> 'h \<Rightarrow> 'w res) \<Rightarrow> ('w, 'h, 'a) vfs \<Rightarrow>
    (byte list \<times> opener) list \<Rightarrow> bool" for F destroy where
  start: "vfs_reach F destroy (SimpleFlashFsVfsServer w) []"
| drive: "vfs_reach F destroy v os \<Longrightarrow> vfs_reach F destroy (snd (register_drive v d)) os"
| opened: "vfs_reach F destroy v os \<Longrightarrow> vfs_open F v path m = Inr (Some t, v') \<Longrightarrow>
    vfs_reach F destroy v' ((vfs_key path, t) # os)"
| not_opened: "vfs_reach F destroy v os \<Longrightarrow> vfs_open F v path m = Inr (None, v') \<Longrightarrow> vfs_reach F destroy v' os"
| access: "vfs_reach F destroy v os \<Longrightarrow> i < length os \<Longrightarrow> os ! i = (key, t) \<Longrightarrow>
    opener_run (\<lambda>x. th_op F x op) v t = Inr (r, t', v') \<Longrightarrow> vfs_reach F destroy v' (os[i := (key, t')])"
| flushed: "vfs_reach F destroy v os \<Longrightarrow> i < length os \<Longrightarrow> os ! i = (key, t) \<Longrightarrow>
    opener_run (th_flush F) v t = Inr (done, t', v') \<Longrightarrow> vfs_reach F destroy v' (os[i := (key, t')])"
| deleted: "vfs_reach F destroy v os \<Longrightarrow> i < length os \<Longrightarrow> os ! i = (key, t) \<Longrightarrow>
    opener_run (th_delete_file F) v t = Inr (done, t', v') \<Longrightarrow> vfs_reach F destroy v' (os[i := (key, t')])"
| renamed: "vfs_reach F destroy v os \<Longrightarrow> i < length os \<Longrightarrow> os ! i = (key, t) \<Longrightarrow>
    opener_run (\<lambda>x. th_rename_file F x name) v t = Inr (done, t', v') \<Longrightarrow> vfs_reach F destroy v' (os[i := (key, t')])"
| truncated: "vfs_reach F destroy v os \<Longrightarrow> i < length os \<Longrightarrow> os ! i = (key, t) \<Longrightarrow>
    opener_run (\<lambda>x. th_truncate F x n) v t = Inr (done, t', v') \<Longrightarrow> vfs_reach F destroy v' (os[i := (key, t')])"
| closed: "vfs_reach F destroy v os \<Longrightarrow> i < length os \<Longrightarrow> opener_close destroy v (snd (os ! i)) = Inr v' \<Longrightarrow>
    vfs_reach F destroy v' (take i os @ drop (Suc i) os)"
| listed: "vfs_reach F destroy v os \<Longrightarrow> vfs_list_files callback name a v = Inr (done, b, v') \<Longrightarrow>
    vfs_reach F destroy v' os"
| created: "vfs_reach F destroy v os \<Longrightarrow> vfs_create v name = Inr v' \<Longrightarrow> vfs_reach F destroy v' os"
| current: "vfs_reach F destroy v os \<Longrightarrow> set_current_drive v name = Inr (done, v') \<Longrightarrow> vfs_reach F destroy v' os"
| cleaned: "vfs_reach F destroy v os \<Longrightarrow> vfs_cleanup v = Inr v' \<Longrightarrow> vfs_reach F destroy v' os"

section \<open>The invariant\<close>

definition holders :: "(byte list \<times> opener) list \<Rightarrow> nat \<Rightarrow> nat" where
  "holders os k = length (filter (\<lambda>x. op_entry (snd x) = k) os)"

lemma holders_simps [simp]:
  "holders [] k = 0" "holders (x # os) k = (if op_entry (snd x) = k then Suc (holders os k) else holders os k)"
  "holders (xs @ ys) k = holders xs k + holders ys k"
  by (simp_all add: holders_def)

lemma holders_pos: "(key, t) \<in> set os \<Longrightarrow> 0 < holders os (op_entry t)"
  by (force simp: holders_def filter_empty_conv)

lemma holders_update:
  assumes "i < length os" "os ! i = (key, t)" "op_entry t' = op_entry t"
  shows "holders (os[i := (key, t')]) k = holders os k"
proof -
  have "os = take i os @ (key, t) # drop (Suc i) os" using id_take_nth_drop [OF assms(1)] assms(2) by simp
  moreover have "os[i := (key, t')] = take i os @ (key, t') # drop (Suc i) os"
    using upd_conv_take_nth_drop [OF assms(1)] by simp
  ultimately show ?thesis using assms(3) by (metis holders_simps(2,3) snd_conv)
qed

lemma holders_remove:
  assumes "i < length os"
  shows "holders (take i os @ drop (Suc i) os) k = holders os k - (if op_entry (snd (os ! i)) = k then 1 else 0)"
proof -
  have "os = take i os @ os ! i # drop (Suc i) os" using id_take_nth_drop [OF assms] .
  then have "holders os k = holders (take i os) k + holders (os ! i # drop (Suc i) os) k" by (metis holders_simps(3))
  then show ?thesis by simp
qed

text \<open>
  Every entry lives as long as it has openers, and counts them; the table points to entries that
  exist; and an opener holds the entry the table has for its path, unless the file is gone.
\<close>

definition vfs_inv :: "('w \<times> 'h) file_ops \<Rightarrow> ('w, 'h, 'a) vfs \<Rightarrow> (byte list \<times> opener) list \<Rightarrow> bool" where
  "vfs_inv F v os \<longleftrightarrow>
     (\<forall>k. case vs_entries v k of None \<Rightarrow> holders os k = 0 | Some e \<Rightarrow> of_refs e = holders os k \<and> 0 < holders os k)
     \<and> (\<forall>k\<ge>vs_next v. vs_entries v k = None) \<and> (\<forall>key k. vs_open_files v key = Some k \<longrightarrow> k < vs_next v)
     \<and> (\<forall>(key, t)\<in>set os. vs_open_files v key = Some (op_entry t) \<or> \<not> entry_valid F v (op_entry t))"

lemma vfs_invI:
  assumes "\<And>k e. vs_entries v k = Some e \<Longrightarrow> of_refs e = holders os k \<and> 0 < holders os k"
    "\<And>k. vs_entries v k = None \<Longrightarrow> holders os k = 0"
    "\<And>k. vs_next v \<le> k \<Longrightarrow> vs_entries v k = None"
    "\<And>key k. vs_open_files v key = Some k \<Longrightarrow> k < vs_next v"
    "\<And>key t. (key, t) \<in> set os \<Longrightarrow> entry_valid F v (op_entry t) \<Longrightarrow> vs_open_files v key = Some (op_entry t)"
  shows "vfs_inv F v os"
  using assms by (auto simp: vfs_inv_def split: option.split)

lemma vfs_invD:
  assumes "vfs_inv F v os"
  shows "vs_entries v k = Some e \<Longrightarrow> of_refs e = holders os k \<and> 0 < holders os k"
    "vs_entries v k = None \<Longrightarrow> holders os k = 0"
    "vs_next v \<le> k \<Longrightarrow> vs_entries v k = None"
    "vs_open_files v key = Some k \<Longrightarrow> k < vs_next v"
    "(key, t) \<in> set os \<Longrightarrow> entry_valid F v (op_entry t) \<Longrightarrow> vs_open_files v key = Some (op_entry t)"
proof -
  have a: "case vs_entries v k of None \<Rightarrow> holders os k = 0 | Some e \<Rightarrow> of_refs e = holders os k \<and> 0 < holders os k"
    using assms by (simp add: vfs_inv_def)
  show "vs_entries v k = Some e \<Longrightarrow> of_refs e = holders os k \<and> 0 < holders os k"
    "vs_entries v k = None \<Longrightarrow> holders os k = 0" using a by simp_all
  show "vs_next v \<le> k \<Longrightarrow> vs_entries v k = None" "vs_open_files v key = Some k \<Longrightarrow> k < vs_next v"
    "(key, t) \<in> set os \<Longrightarrow> entry_valid F v (op_entry t) \<Longrightarrow> vs_open_files v key = Some (op_entry t)"
    using assms by (auto simp: vfs_inv_def)
qed

lemma entry_valid_live: "entry_valid F v k \<Longrightarrow> \<exists>e. vs_entries v k = Some e \<and> of_handle e \<noteq> None"
  by (auto simp: entry_valid_def uh_ok_def split: option.splits)

text \<open>
  The validity of a handle is a matter of the handle alone; then nothing that happens elsewhere
  makes a file valid or invalid.
\<close>

locale handle_files =
  fixes F :: "('w \<times> 'h) file_ops"
  assumes valid_of_handle: "fi_valid F (w, h) = fi_valid F (w', h)"
begin

lemma entry_valid_cong:
  assumes "map_option of_handle (vs_entries v' k) = map_option of_handle (vs_entries v k)"
  shows "entry_valid F v' k = entry_valid F v k"
proof -
  have u: "uh_ok F (map_option (Pair w) h) = uh_ok F (map_option (Pair w') h)" for w w' h
    using valid_of_handle by (cases h) (auto simp: uh_ok_def)
  show ?thesis using assms u [of "vs_world v'" _ "vs_world v"]
    by (cases "vs_entries v' k"; cases "vs_entries v k") (auto simp: entry_valid_def)
qed

lemma inv_frame:
  assumes "vfs_inv F v os" "vs_entries v' = vs_entries v" "vs_open_files v' = vs_open_files v" "vs_next v' = vs_next v"
  shows "vfs_inv F v' os"
proof -
  have "entry_valid F v' k = entry_valid F v k" for k by (rule entry_valid_cong) (simp add: assms(2))
  then show ?thesis using assms by (simp add: vfs_inv_def)
qed

lemma inv_run:
  assumes "vfs_inv F v os" "i < length os" "os ! i = (key, t)" "opener_run f v t = Inr (r, t', v')"
    "\<And>e u r e' u'. f (e, u) = Inr (r, e', u') \<Longrightarrow> \<not> uh_ok F e \<Longrightarrow> e' = e"
  shows "vfs_inv F v' (os[i := (key, t')])"
proof -
  let ?k = "op_entry t" and ?x = "\<lambda>e. map_option (Pair (vs_world v)) (of_handle e)"
  from assms(4) obtain e where e: "vs_entries v ?k = Some e" by (auto simp: opener_run_def split: option.splits)
  from assms(4) e obtain x th where f: "f (?x e, op_th t) = Inr (r, x, th)" and t': "t' = t\<lparr>op_th := th\<rparr>"
    and "v' = v\<lparr>vs_world := (case x of None \<Rightarrow> vs_world v | Some (w, _) \<Rightarrow> w),
              vs_entries := (vs_entries v)(?k \<mapsto> e\<lparr>of_handle := map_option snd x\<rparr>)\<rparr>"
    unfolding opener_run_def by (cases "f (?x e, op_th t)") auto
  then have v': "vs_entries v' = (vs_entries v)(?k \<mapsto> e\<lparr>of_handle := map_option snd x\<rparr>)"
    "vs_open_files v' = vs_open_files v" "vs_next v' = vs_next v" by simp_all
  have h: "holders (os[i := (key, t')]) k = holders os k" for k
    by (rule holders_update [OF assms(2,3)]) (simp add: t')
  have ev: "entry_valid F v' k \<longrightarrow> entry_valid F v k" for k
  proof (cases "k = ?k")
    case True
    show ?thesis
    proof (cases "uh_ok F (?x e)")
      case ok: True
      then show ?thesis using True e by (simp add: entry_valid_def)
    next
      case False
      then have "x = ?x e" using assms(5) [OF f] by simp
      then have "map_option snd x = of_handle e" by (cases "of_handle e") simp_all
      then have "entry_valid F v' k = entry_valid F v k" by (intro entry_valid_cong) (simp add: v' True e)
      then show ?thesis by simp
    qed
  next
    case False
    then have "entry_valid F v' k = entry_valid F v k" by (intro entry_valid_cong) (simp add: v')
    then show ?thesis by simp
  qed
  have mem: "(key', u) \<in> set (os[i := (key, t')]) \<Longrightarrow> \<exists>u'. (key', u') \<in> set os \<and> op_entry u' = op_entry u" for key' u
    using subsetD [OF set_update_subset_insert, of "(key', u)" os i "(key, t')"] nth_mem [OF assms(2)] assms(3)
    by (auto simp: t')
  note D = vfs_invD [OF assms(1)]
  show ?thesis
  proof (rule vfs_invI)
    show "of_refs e' = holders (os[i := (key, t')]) k \<and> 0 < holders (os[i := (key, t')]) k"
      if "vs_entries v' k = Some e'" for k e'
      using that D(1) [OF e] D(1) [of k e'] unfolding h by (auto simp: v' split: if_splits)
    show "holders (os[i := (key, t')]) k = 0" if "vs_entries v' k = None" for k
      using that D(2) [of k] unfolding h by (auto simp: v' split: if_splits)
    show "vs_entries v' k = None" if "vs_next v' \<le> k" for k
      using that D(3) [of k] e by (auto simp: v')
    show "k < vs_next v'" if "vs_open_files v' key' = Some k" for key' k using that D(4) by (simp add: v')
    show "vs_open_files v' key' = Some (op_entry u)"
      if "(key', u) \<in> set (os[i := (key, t')])" "entry_valid F v' (op_entry u)" for key' u
      using mem [OF that(1)] that(2) ev [of "op_entry u"] D(5) [of key'] v'(2) by metis
  qed
qed

lemma inv_close:
  assumes "vfs_inv F v os" "i < length os" "opener_close destroy v (snd (os ! i)) = Inr v'"
  shows "vfs_inv F v' (take i os @ drop (Suc i) os)"
proof -
  let ?os = "take i os @ drop (Suc i) os" and ?k = "op_entry (snd (os ! i))"
  note D = vfs_invD [OF assms(1)] and h = holders_remove [OF assms(2)]
  have sub: "set ?os \<subseteq> set os" by (auto dest: in_set_takeD in_set_dropD)
  from assms(3) obtain e where e: "vs_entries v ?k = Some e" by (auto simp: opener_close_def split: option.splits)
  have r: "of_refs e = holders os ?k" "0 < holders os ?k" using D(1) [OF e] by simp_all
  define n where "n = (if of_refs e > 1 then Some (e\<lparr>of_refs := of_refs e - 1\<rparr>) else None)"
  have v': "vs_entries v' = (vs_entries v)(?k := n)" "vs_open_files v' = vs_open_files v" "vs_next v' = vs_next v"
    using assms(3) e by (auto simp: opener_close_def n_def res_simps split: if_splits)
  have ev: "entry_valid F v' k \<longrightarrow> entry_valid F v k" for k
  proof (cases "vs_entries v' k = None")
    case False
    then have "entry_valid F v' k = entry_valid F v k"
      by (intro entry_valid_cong) (auto simp: v' n_def e split: if_splits)
    then show ?thesis by simp
  qed (simp add: entry_valid_def)
  show ?thesis
  proof (rule vfs_invI)
    show "of_refs e' = holders ?os k \<and> 0 < holders ?os k" if "vs_entries v' k = Some e'" for k e'
      using that r D(1) [of k e'] unfolding h by (auto simp: v' n_def split: if_splits)
    show "holders ?os k = 0" if "vs_entries v' k = None" for k
      using that r D(2) [of k] unfolding h by (auto simp: v' n_def split: if_splits)
    show "vs_entries v' k = None" if "vs_next v' \<le> k" for k using that D(3) [of k] e by (auto simp: v' n_def)
    show "k < vs_next v'" if "vs_open_files v' key' = Some k" for key' k using that D(4) by (simp add: v')
    show "vs_open_files v' key' = Some (op_entry u)"
      if "(key', u) \<in> set ?os" "entry_valid F v' (op_entry u)" for key' u
      using that ev [of "op_entry u"] sub D(5) [of key' u] by (auto simp: v')
  qed
qed

text \<open>The entry of a new or another opener.\<close>

lemma inv_make_opener:
  assumes "make_opener F v k m = (t, v')" "vs_entries v k = Some e" "of_refs e = holders os k"
    "\<And>j d. j \<noteq> k \<Longrightarrow> vs_entries v j = Some d \<Longrightarrow> of_refs d = holders os j \<and> 0 < holders os j"
    "\<And>j. vs_entries v j = None \<Longrightarrow> holders os j = 0"
    "\<And>j. vs_next v \<le> j \<Longrightarrow> vs_entries v j = None"
    "\<And>key j. vs_open_files v key = Some j \<Longrightarrow> j < vs_next v"
    "\<And>key t. (key, t) \<in> set os \<Longrightarrow> entry_valid F v (op_entry t) \<Longrightarrow> vs_open_files v key = Some (op_entry t)"
    "vs_open_files v key = Some k"
  shows "vfs_inv F v' ((key, t) # os)"
proof -
  have t: "op_entry t = k" and v': "vs_entries v' = (vs_entries v)(k \<mapsto> e\<lparr>of_refs := Suc (of_refs e)\<rparr>)"
    "vs_open_files v' = vs_open_files v" "vs_next v' = vs_next v"
    using assms(1,2) by (auto simp: make_opener_def)
  have ev: "entry_valid F v' j = entry_valid F v j" for j
    by (rule entry_valid_cong) (simp add: v' assms(2))
  show ?thesis
  proof (rule vfs_invI)
    show "of_refs d = holders ((key, t) # os) j \<and> 0 < holders ((key, t) # os) j" if "vs_entries v' j = Some d" for j d
      using that assms(3) assms(4) [of j d] t by (auto simp: v' split: if_splits)
    show "holders ((key, t) # os) j = 0" if "vs_entries v' j = None" for j
      using that assms(5) [of j] t by (auto simp: v' split: if_splits)
    show "vs_entries v' j = None" if "vs_next v' \<le> j" for j using that assms(6) [of j] assms(2) by (auto simp: v')
    show "j < vs_next v'" if "vs_open_files v' key' = Some j" for key' j using that assms(7) by (simp add: v')
    show "vs_open_files v' key' = Some (op_entry u)"
      if "(key', u) \<in> set ((key, t) # os)" "entry_valid F v' (op_entry u)" for key' u
      using that t assms(8) [of key' u] assms(9) ev by (auto simp: v')
  qed
qed

lemma inv_open_shared:
  assumes "vfs_inv F v os" "vs_open_files v key = Some k" "entry_valid F v k"
    "open_shared F v k m = Inr (t, v')"
  shows "\<exists>u. t = Some u \<and> vfs_inv F v' ((key, u) # os)"
proof -
  note D = vfs_invD [OF assms(1)]
  obtain e where e: "vs_entries v k = Some e" using entry_valid_live [OF assms(3)] by blast
  obtain v1 d u where v1: "vs_entries v1 = (vs_entries v)(k \<mapsto> d)" "of_refs d = of_refs e"
    "vs_open_files v1 = vs_open_files v" "vs_next v1 = vs_next v"
    and mk: "make_opener F v1 k m = (u, v')" and t: "t = Some u"
  proof (cases "mode_trunc m")
    case True
    from assms(4) obtain b w h where tr: "fi_truncate F (vs_world v, the (of_handle e)) 0 = Inr (b, w, h)"
      using True by (auto simp: open_shared_def e res_simps)
    let ?v = "v\<lparr>vs_world := w, vs_entries := (vs_entries v)(k \<mapsto> e\<lparr>of_handle := Some h\<rparr>)\<rparr>"
    obtain u v2 where mk: "make_opener F ?v k m = (u, v2)" by (cases "make_opener F ?v k m")
    then have "t = Some u" "v' = v2" using assms(4) tr True e by (simp_all add: open_shared_def)
    then show thesis using mk by (intro that [of ?v "e\<lparr>of_handle := Some h\<rparr>" u]) simp_all
  next
    case False
    obtain u v2 where mk: "make_opener F v k m = (u, v2)" by (cases "make_opener F v k m")
    then have "t = Some u" "v' = v2" using assms(4) False e by (simp_all add: open_shared_def)
    then show thesis using mk e by (intro that [of v e u]) (simp_all add: fun_upd_idem)
  qed
  have ev: "j \<noteq> k \<Longrightarrow> entry_valid F v1 j = entry_valid F v j" for j
    by (rule entry_valid_cong) (simp add: v1)
  have "vfs_inv F v' ((key, u) # os)"
  proof (rule inv_make_opener [OF mk])
    show "vs_entries v1 k = Some d" by (simp add: v1)
    show "of_refs d = holders os k" using D(1) [OF e] v1(2) by simp
    show "of_refs d' = holders os j \<and> 0 < holders os j" if "j \<noteq> k" "vs_entries v1 j = Some d'" for j d'
      using that D(1) by (simp add: v1)
    show "holders os j = 0" if "vs_entries v1 j = None" for j using that D(2) [of j] by (auto simp: v1 split: if_splits)
    show "vs_entries v1 j = None" if "vs_next v1 \<le> j" for j using that D(3) [of j] e by (auto simp: v1)
    show "j < vs_next v1" if "vs_open_files v1 key' = Some j" for key' j using that D(4) by (simp add: v1)
    show "vs_open_files v1 key' = Some (op_entry x)" if "(key', x) \<in> set os" "entry_valid F v1 (op_entry x)" for key' x
    proof (cases "op_entry x = k")
      case True
      then show ?thesis using D(5) [OF that(1)] assms(3) by (simp add: v1)
    next
      case False
      then show ?thesis using D(5) [OF that(1)] that(2) ev by (simp add: v1)
    qed
    show "vs_open_files v1 key = Some k" using assms(2) by (simp add: v1)
  qed
  then show ?thesis using t by blast
qed

lemma inv_open_on_drives:
  assumes "vfs_inv F v os" "\<And>t. (key, t) \<in> set os \<Longrightarrow> \<not> entry_valid F v (op_entry t)"
    "open_on_drives F v key name file m ds = Inr (t, v')"
  shows "case t of None \<Rightarrow> vfs_inv F v' os | Some u \<Rightarrow> vfs_inv F v' ((key, u) # os)"
  using assms
proof (induction ds arbitrary: v)
  case (Cons d ds)
  show ?case
  proof (cases "dr_name d = name")
    case False
    then show ?thesis using Cons by simp
  next
    case True
    obtain b w where i: "(if \<not> dr_initialized d (vs_world v) then dr_init d (vs_world v) else Inr (True, vs_world v))
        = Inr (b, w)"
      using Cons.prems(3) True by (cases "dr_initialized d (vs_world v)") (auto simp: res_simps)
    have world: "vfs_inv F (v\<lparr>vs_world := x\<rparr>) os" for x by (rule inv_frame [OF Cons.prems(1)]) simp_all
    have gone: "(key, t) \<in> set os \<Longrightarrow> \<not> entry_valid F (v\<lparr>vs_world := x\<rparr>) (op_entry t)" for t x
      using Cons.prems(2) entry_valid_cong [of "v\<lparr>vs_world := x\<rparr>" "op_entry t" v] by simp
    show ?thesis
    proof (cases b)
      case False
      then show ?thesis using Cons.prems(3) True i world by (auto simp del: if_split)
    next
      case b: True
      obtain file' w' where o: "dr_open d w file m = Inr (file', w')"
        using Cons.prems(3) True i b by (cases "dr_open d w file m") (auto simp del: if_split)
      show ?thesis
      proof (cases file')
        case None
        then have "open_on_drives F (v\<lparr>vs_world := w'\<rparr>) key name file m ds = Inr (t, v')"
          using Cons.prems(3) True i b o by (simp del: if_split)
        then show ?thesis using Cons.IH [OF world gone] by blast
      next
        case (Some h)
        let ?k = "vs_next v"
        let ?v = "v\<lparr>vs_world := w', vs_entries := (vs_entries v)(?k \<mapsto> \<lparr>of_handle = Some h, of_refs = 0\<rparr>),
          vs_open_files := (vs_open_files v)(key \<mapsto> ?k), vs_next := Suc ?k\<rparr>"
        obtain u where mk: "make_opener F ?v ?k m = (u, v')" and t: "t = Some u"
          using Cons.prems(3) True i b o Some by (auto simp: Let_def simp del: if_split split: prod.splits)
        note D = vfs_invD [OF Cons.prems(1)]
        have n: "vs_entries v ?k = None" "holders os ?k = 0" using D(3) D(2) by simp_all
        have "vfs_inv F v' ((key, u) # os)"
        proof (rule inv_make_opener [OF mk])
          show "vs_entries ?v ?k = Some \<lparr>of_handle = Some h, of_refs = 0\<rparr>" by simp
          show "of_refs \<lparr>of_handle = Some h, of_refs = 0\<rparr> = holders os ?k" using n by simp
          show "of_refs d' = holders os j \<and> 0 < holders os j" if "j \<noteq> ?k" "vs_entries ?v j = Some d'" for j d'
            using that D(1) by simp
          show "holders os j = 0" if "vs_entries ?v j = None" for j using that D(2) [of j] by (auto split: if_splits)
          show "vs_entries ?v j = None" if "vs_next ?v \<le> j" for j using that D(3) [of j] by auto
          show "j < vs_next ?v" if "vs_open_files ?v key' = Some j" for key' j
            using that D(4) [of key' j] by (auto split: if_splits)
          show "vs_open_files ?v key' = Some (op_entry x)"
            if "(key', x) \<in> set os" "entry_valid F ?v (op_entry x)" for key' x
          proof -
            have "op_entry x \<noteq> ?k" using that(1) n(2) holders_pos by force
            then have ev: "entry_valid F v (op_entry x)"
              using that(2) entry_valid_cong [of ?v "op_entry x" v] by simp
            then have "key' \<noteq> key" using Cons.prems(2) that(1) by blast
            then show ?thesis using D(5) [OF that(1) ev] by simp
          qed
          show "vs_open_files ?v key = Some ?k" by simp
        qed
        then show ?thesis using t by simp
      qed
    qed
  qed
qed simp

lemma inv_open:
  assumes "vfs_inv F v os" "vfs_open F v path m = Inr (t, v')"
  shows "case t of None \<Rightarrow> vfs_inv F v' os | Some u \<Rightarrow> vfs_inv F v' ((vfs_key path, u) # os)"
proof -
  obtain name rest where p: "parse_drive_name path = (name, rest)" by (cases "parse_drive_name path")
  let ?key = "vfs_key path"
  have key: "name @ [58] @ rest = ?key" by (simp add: vfs_key_def p)
  note D = vfs_invD [OF assms(1)]
  show ?thesis
  proof (cases "vs_open_files v ?key")
    case None
    then have "\<not> entry_valid F v (op_entry u)" if "(?key, u) \<in> set os" for u using D(5) [OF that] by auto
    then show ?thesis using inv_open_on_drives [OF assms(1)] assms(2) None
      by (simp add: vfs_open_def p key [simplified])
  next
    case (Some k)
    show ?thesis
    proof (cases "entry_valid F v k")
      case True
      then show ?thesis using inv_open_shared [OF assms(1) Some True, of m t v'] assms(2) Some
        by (auto simp: vfs_open_def p key [simplified])
    next
      case False
      let ?v = "v\<lparr>vs_open_files := (vs_open_files v)(?key := None)\<rparr>"
      have ev: "entry_valid F ?v j = entry_valid F v j" for j by (rule entry_valid_cong) simp
      have gone: "\<not> entry_valid F v (op_entry u)" if "(?key, u) \<in> set os" for u using D(5) [OF that] Some False by auto
      have "vfs_inv F ?v os"
      proof (rule vfs_invI)
        show "of_refs e = holders os j \<and> 0 < holders os j" if "vs_entries ?v j = Some e" for j e using that D(1) by simp
        show "holders os j = 0" if "vs_entries ?v j = None" for j using that D(2) by simp
        show "vs_entries ?v j = None" if "vs_next ?v \<le> j" for j using that D(3) by simp
        show "j < vs_next ?v" if "vs_open_files ?v key' = Some j" for key' j using that D(4) by (auto split: if_splits)
        show "vs_open_files ?v key' = Some (op_entry u)" if "(key', u) \<in> set os" "entry_valid F ?v (op_entry u)" for key' u
          using that gone D(5) [OF that(1)] ev by auto
      qed
      moreover have "open_on_drives F ?v ?key name rest m (vs_drives v) = Inr (t, v')"
        using assms(2) Some False by (simp add: vfs_open_def p key [simplified] Let_def)
      ultimately show ?thesis using inv_open_on_drives [of ?v os ?key name rest m "vs_drives v" t v'] gone ev by blast
    qed
  qed
qed

lemma inv_purge:
  assumes "vfs_inv F v os"
  shows "vfs_inv F (purge_expired_open_files v) os"
proof -
  let ?v = "purge_expired_open_files v"
  note D = vfs_invD [OF assms]
  have e: "vs_entries ?v = vs_entries v" "vs_next ?v = vs_next v" by (simp_all add: purge_expired_open_files_def)
  have ev: "entry_valid F ?v j = entry_valid F v j" for j by (rule entry_valid_cong) (simp add: e)
  show ?thesis
  proof (rule vfs_invI)
    show "of_refs d = holders os j \<and> 0 < holders os j" if "vs_entries ?v j = Some d" for j d using that D(1) by (simp add: e)
    show "holders os j = 0" if "vs_entries ?v j = None" for j using that D(2) by (simp add: e)
    show "vs_entries ?v j = None" if "vs_next ?v \<le> j" for j using that D(3) by (simp add: e)
    show "j < vs_next ?v" if "vs_open_files ?v key = Some j" for key j
      using that D(4) [of key j] by (auto simp: purge_expired_open_files_def split: option.splits if_splits)
    show "vs_open_files ?v key = Some (op_entry u)" if "(key, u) \<in> set os" "entry_valid F ?v (op_entry u)" for key u
    proof -
      have "entry_valid F v (op_entry u)" using that(2) ev by simp
      then show ?thesis using D(5) [OF that(1)] entry_valid_live [of F v "op_entry u"]
        by (auto simp: purge_expired_open_files_def)
    qed
  qed
qed

text \<open>The operations of an opener leave a file that is not valid alone.\<close>

lemma th_keeps_invalid:
  assumes "\<not> uh_ok F e"
  shows "th_op F (e, u) op = Inr (r, e', u') \<Longrightarrow> e' = e" "th_flush F (e, u) = Inr (b, e', u') \<Longrightarrow> e' = e"
    "th_delete_file F (e, u) = Inr (b, e', u') \<Longrightarrow> e' = e" "th_rename_file F (e, u) name = Inr (b, e', u') \<Longrightarrow> e' = e"
    "th_truncate F (e, u) n = Inr (b, e', u') \<Longrightarrow> e' = e"
  using assms
  by (cases op; simp_all add: th_read_def th_write_def th_seek_def th_flush_def th_delete_file_def th_rename_file_def
      th_truncate_def th_lift_def)+

lemma reach_inv: "vfs_reach F destroy v os \<Longrightarrow> vfs_inv F v os"
proof (induction rule: vfs_reach.induct)
  case (start w)
  show ?case by (rule vfs_invI) (simp_all add: SimpleFlashFsVfsServer_def)
next
  case (drive v os d)
  then show ?case by (elim inv_frame) (simp_all add: register_drive_def)
next
  case (opened v os path m t v')
  then show ?case using inv_open [of v os path m "Some t" v'] by simp
next
  case (not_opened v os path m v')
  then show ?case using inv_open [of v os path m None v'] by simp
next
  case (access v os i key t op r t' v')
  then show ?case using th_keeps_invalid(1) by (intro inv_run [of v os i key t _ r]) blast+
next
  case (flushed v os i key t b t' v')
  then show ?case using th_keeps_invalid(2) by (intro inv_run [of v os i key t _ b]) blast+
next
  case (deleted v os i key t b t' v')
  then show ?case using th_keeps_invalid(3) by (intro inv_run [of v os i key t _ b]) blast+
next
  case (renamed v os i key t name b t' v')
  then show ?case using th_keeps_invalid(4) by (intro inv_run [of v os i key t _ b]) blast+
next
  case (truncated v os i key t n b t' v')
  then show ?case using th_keeps_invalid(5) by (intro inv_run [of v os i key t _ b]) blast+
next
  case (closed v os i v')
  then show ?case by (intro inv_close)
next
  case (listed v os callback name a b c v')
  then show ?case by (elim inv_frame) (auto simp: vfs_list_files_def res_simps)
next
  case (created v os name v')
  then show ?case by (elim inv_frame) (auto simp: vfs_create_def res_simps split: option.splits)
next
  case (current v os name b v')
  then show ?case by (elim inv_frame) (auto simp: set_current_drive_def Let_def res_simps split: option.splits if_splits)
next
  case (cleaned v os v')
  then obtain w where "v' = purge_expired_open_files (v\<lparr>vs_world := w\<rparr>)" by (auto simp: vfs_cleanup_def res_simps)
  moreover have "vfs_inv F (v\<lparr>vs_world := w\<rparr>) os" by (rule inv_frame [OF cleaned.IH]) simp_all
  ultimately show ?case using inv_purge by blast
qed

end

interpretation hv: handle_files "handle_ops c" for c :: "'m config"
  by unfold_locales (simp add: handle_ops_def)

section \<open>Several openers of one file\<close>

text \<open>
  C15. However the reads, writes and seeks of the openers of a file follow one another, each of
  them gets what it would get from one list of bytes and a position of its own: the position of
  the shared handle, which every operation moves, is never seen. Stated for a file in its inode,
  on the simulated internal flash, with seeks inside of the file and writes below its limit.
\<close>

theorem openers_share_one_file:
  assumes "inline_good stm32_ok st_mem stm32_writable N x" "F = handle_ops (stm32_config P crc e keep)"
    "\<forall>t\<in>set ts. th_pos t \<le> length (handle_cont st_mem x)" "run_allowed N (handle_cont st_mem x) ts ops"
    "spec_run (handle_cont st_mem x) ts ops = (rs, C, ts')"
  shows "\<exists>y. run_openers F (Some x) ts ops = Inr (rs, Some y, ts')
    \<and> inline_good stm32_ok st_mem stm32_writable N y \<and> handle_cont st_mem y = C"
  using il.run_refines [OF assms(1,3-5)] unfolding assms(2) by blast

theorem openers_share_one_file_witness:
  "\<exists>y ts'. run_openers (handle_ops (stm32_config 0 (\<lambda>_. 7) LE False))
       (Some (small_fs sample_flash, inline_file [1, 2, 3]))
       [\<lparr>th_pos = 0, th_append = False\<rparr>, \<lparr>th_pos = 1, th_append = False\<rparr>]
       [(0, Op_read 1), (1, Op_write [8, 9]), (0, Op_read 5), (1, Op_read 5), (1, Op_seek 0), (1, Op_read 2)]
     = Inr ([Bytes [1], Count 2, Bytes [8, 9], Bytes [], Done True, Bytes [1, 8]], Some y, ts')"
proof -
  let ?x = "(small_fs sample_flash, inline_file [1, 2, 3])"
  let ?ts = "[\<lparr>th_pos = 0, th_append = False\<rparr>, \<lparr>th_pos = 1, th_append = False\<rparr>]"
  let ?ops = "[(0, Op_read 1), (1, Op_write [8, 9]), (0, Op_read 5), (1, Op_read 5), (1, Op_seek 0), (1, Op_read 2)]"
  have g: "inline_good stm32_ok st_mem stm32_writable 21 ?x" "handle_cont st_mem ?x = [1, 2, 3]"
    using inline_file_inline_good [of "[1, 2, 3]"] inline_file_good(2) [of "[1, 2, 3]"] by simp_all
  have "\<forall>t\<in>set ?ts. th_pos t \<le> length (handle_cont st_mem ?x)" unfolding g(2) by simp
  moreover have "run_allowed 21 (handle_cont st_mem ?x) ?ts ?ops" unfolding g(2)
    by (simp add: th_target_def overlay_def eval_nat_numeral)
  moreover have "\<exists>ts'. spec_run (handle_cont st_mem ?x) ?ts ?ops =
      ([Bytes [1], Count 2, Bytes [8, 9], Bytes [], Done True, Bytes [1, 8]], [1, 8, 9], ts')" unfolding g(2)
    by (simp add: th_target_def overlay_def eval_nat_numeral)
  ultimately show ?thesis using openers_share_one_file [OF g(1) refl, of ?ts ?ops] by blast
qed

section \<open>The table of open files\<close>

text \<open>
  C35. Whatever the openers do, and in whatever order files are opened and closed: an entry exists
  as long as it has openers, and counts them, so that it is destroyed with the last one; every
  opener finds its entry; and two openers with the same path share one handle, unless the file of
  one of them was deleted.
\<close>

theorem vfs_table_invariant:
  assumes "vfs_reach (handle_ops c) destroy v os"
  shows "(\<forall>k e. vs_entries v k = Some e \<longrightarrow> of_refs e = holders os k \<and> 0 < of_refs e)
    \<and> (\<forall>(key, t)\<in>set os. vs_entries v (op_entry t) \<noteq> None)
    \<and> (\<forall>(key, t)\<in>set os. \<forall>(key', u)\<in>set os. key = key' \<longrightarrow> op_entry t = op_entry u
         \<or> \<not> entry_valid (handle_ops c) v (op_entry t) \<or> \<not> entry_valid (handle_ops c) v (op_entry u))"
proof -
  have "vfs_inv (handle_ops c) v os" using assms by (rule hv.reach_inv)
  note D = vfs_invD [OF this]
  have "vs_entries v (op_entry t) \<noteq> None" if "(key, t) \<in> set os" for key t
    using D(2) [of "op_entry t"] holders_pos [OF that] by auto
  moreover have "op_entry t = op_entry u" if "(key, t) \<in> set os" "(key, u) \<in> set os"
    "entry_valid (handle_ops c) v (op_entry t)" "entry_valid (handle_ops c) v (op_entry u)" for key t u
    using D(5) [OF that(1,3)] D(5) [OF that(2,4)] by simp
  moreover have "of_refs e = holders os k \<and> 0 < of_refs e" if "vs_entries v k = Some e" for k e
    using D(1) [OF that] by simp
  ultimately show ?thesis by (intro conjI allI impI ballI) (blast | clarsimp)+
qed

text \<open>A drive that gives out the same small file for every name.\<close>

definition sample_drive :: "(stm32_flash fs, file_handle, 'a) drive" where
  "sample_drive = \<lparr>dr_name = [97], dr_open = (\<lambda>w path m. Inr (Some (inline_file [1, 2, 3]), w)),
     dr_list_files = (\<lambda>w callback a. Inr (True, a, w)), dr_create = Inr, dr_init = (\<lambda>w. Inr (True, w)),
     dr_initialized = (\<lambda>w. True), dr_cleanup = Inr\<rparr>"

lemma inline_valid: "fi_valid (handle_ops c) (w, inline_file d)"
  by (simp add: handle_ops_def inline_file_def new_handle_def)

theorem vfs_table_invariant_witness:
  "\<exists>(v :: (stm32_flash fs, file_handle, unit) vfs) t u. vfs_reach (handle_ops (stm32_config 0 (\<lambda>_. 7) LE False)) (\<lambda>w h. Inr w) v
       [([97, 58, 102], t), ([97, 58, 102], u)]
     \<and> vs_entries v 0 = Some \<lparr>of_handle = Some (inline_file [1, 2, 3]), of_refs = 2\<rparr> \<and> op_entry t = op_entry u"
proof -
  let ?c = "stm32_config 0 (\<lambda>_. 7) LE False" and ?m = "\<lparr>mode_out = True, mode_app = False, mode_ate = False, mode_trunc = False\<rparr>"
  let ?F = "handle_ops ?c" and ?R = "vfs_reach (handle_ops ?c) (\<lambda>w h. Inr w)"
  let ?v0 = "SimpleFlashFsVfsServer (small_fs sample_flash)"
  let ?v1 = "snd (register_drive ?v0 sample_drive) :: (_, _, unit) vfs"
  have r1: "?R ?v1 []" by (intro vfs_reach.intros)
  have key: "vfs_key [47, 97, 47, 102] = [97, 58, 102]" "vfs_key [97, 47, 102] = [97, 58, 102]"
    by (simp_all add: vfs_key_def parse_drive_name_def starts_with_def slash_def find_char_def)
  note ev = vfs_open_def parse_drive_name_def starts_with_def slash_def find_char_def make_opener_def
    ThreadedFileHandle_def register_drive_def SimpleFlashFsVfsServer_def sample_drive_def Let_def
    entry_valid_def open_shared_def uh_ok_def inline_valid
  obtain t v2 where o1: "vfs_open ?F ?v1 [47, 97, 47, 102] ?m = Inr (Some t, v2)"
    and v2: "v2 = ?v1\<lparr>vs_entries := [0 \<mapsto> \<lparr>of_handle = Some (inline_file [1, 2, 3]), of_refs = 1\<rparr>],
      vs_open_files := [[97, 58, 102] \<mapsto> 0], vs_next := 1\<rparr>"
    by (simp add: ev)
  have r2: "?R v2 [([97, 58, 102], t)]" using vfs_reach.opened [OF r1 o1] by (simp add: key)
  obtain u v3 where o2: "vfs_open ?F v2 [97, 47, 102] ?m = Inr (Some u, v3)"
    and v3: "vs_entries v3 = [0 \<mapsto> \<lparr>of_handle = Some (inline_file [1, 2, 3]), of_refs = Suc (Suc 0)\<rparr>]"
    unfolding v2 by (simp add: ev)
  have r3: "?R v3 [([97, 58, 102], u), ([97, 58, 102], t)]" using vfs_reach.opened [OF r2 o2] by (simp add: key)
  from vfs_table_invariant [OF r3] have "op_entry u = op_entry t
      \<or> \<not> entry_valid ?F v3 (op_entry u) \<or> \<not> entry_valid ?F v3 (op_entry t)"
    "vs_entries v3 (op_entry u) \<noteq> None" "vs_entries v3 (op_entry t) \<noteq> None" by auto
  then have "op_entry u = op_entry t" by (auto simp: v3 split: if_splits)
  then show ?thesis using r3 v3 by (intro exI [of _ v3] exI [of _ u] exI [of _ t]) (simp add: numeral_2_eq_2)
qed

section \<open>Paths\<close>

lemma find_char_append: "x \<notin> set d \<Longrightarrow> find_char x (d @ x # f) = length d"
  by (simp add: find_char_def takeWhile_append)

lemma parse_plain:
  assumes "slash \<notin> set d" "d \<noteq> []"
  shows "parse_drive_name (d @ slash # f) = (d, f)"
proof -
  have "\<not> starts_with slash (d @ slash # f)" using assms by (cases d) (auto simp: starts_with_def)
  moreover have "starts_with slash (slash # f)" by (simp add: starts_with_def)
  ultimately show ?thesis using find_char_append [OF assms(1), of f] by (simp add: parse_drive_name_def)
qed

lemma parse_absolute:
  assumes "slash \<notin> set d"
  shows "parse_drive_name (slash # d @ slash # f) = (d, f)"
proof -
  have "starts_with slash (slash # d @ slash # f)" "starts_with slash (slash # f)" by (simp_all add: starts_with_def)
  then show ?thesis using find_char_append [OF assms, of f] by (simp add: parse_drive_name_def)
qed

text \<open>
  A path of a drive and a file is taken apart into those two, with and without a slash in
  front, and the key of the table identifies them: the same key means the same drive and the same
  file, when the names of the drives have no colon.
\<close>

theorem vfs_paths:
  assumes "slash \<notin> set d" "d \<noteq> []" "slash \<notin> set d'" "d' \<noteq> []" "58 \<notin> set d" "58 \<notin> set d'"
  shows "parse_drive_name (d @ slash # f) = (d, f) \<and> parse_drive_name (slash # d @ slash # f) = (d, f)
    \<and> vfs_key (slash # d @ slash # f) = vfs_key (d @ slash # f)
    \<and> (vfs_key (d @ slash # f) = vfs_key (d' @ slash # f') \<longleftrightarrow> d = d' \<and> f = f')"
proof -
  have "d @ 58 # f = d' @ 58 # f' \<longleftrightarrow> d = d' \<and> f = f'"
  proof
    assume e: "d @ 58 # f = d' @ 58 # f'"
    then have "takeWhile (\<lambda>x. x \<noteq> 58) (d @ 58 # f) = takeWhile (\<lambda>x. x \<noteq> 58) (d' @ 58 # f')" by simp
    moreover have "\<forall>x\<in>set d. x \<noteq> 58" "\<forall>x\<in>set d'. x \<noteq> 58" using assms(5,6) by auto
    ultimately have "d = d'" by (simp add: takeWhile_append2)
    then show "d = d' \<and> f = f'" using e by simp
  qed simp
  then show ?thesis using parse_plain [OF assms(1,2)] parse_absolute [OF assms(1)] parse_plain [OF assms(3,4)]
    by (simp add: vfs_key_def)
qed

theorem vfs_paths_witness:
  "vfs_key [47, 97, 47, 102] = vfs_key [97, 47, 102] \<and> vfs_key [97, 47, 102] \<noteq> vfs_key [98, 47, 102]"
  using vfs_paths [of "[97]" "[98]" "[102]" "[102]"] by (simp add: slash_def)

text \<open>
  With a colon they need not: \<open>a/b:c\<close> and \<open>a:b/c\<close> have the same key. And a path without a file is
  not normalised: \<open>a\<close> and \<open>/a\<close> differ.
\<close>

lemma vfs_key_collision:
  "vfs_key [97, 47, 98, 58, 99] = vfs_key [97, 58, 98, 47, 99]" "vfs_key [97] \<noteq> vfs_key [47, 97]"
  by (simp_all add: vfs_key_def parse_drive_name_def starts_with_def slash_def find_char_def Let_def)

end
