(* ===== verification/Ini.thy ===== *)
theory Ini
  imports FileBuffer
begin

text \<open>
  Ini files on top of a file buffer (\<open>src_2face/SimpleIni.h\<close> and \<open>.cc\<close>). The views that the source
  keeps into the line buffer are byte lists here: the arguments of a function are taken not to
  point into it.
\<close>

section \<open>What belongs to other libraries\<close>

text \<open>
  \<open>ini_string\<close> is the class of the line buffer, \<open>strip_ws\<close> and \<open>strip_chars\<close> are the two ways
  \<open>strip_view\<close> is called (with its default argument and with the characters to strip), \<open>append_to\<close>
  is \<open>operator+=\<close> of a string of the given capacity, and the \<open>fmt\<close> functions are the calls of
  \<open>static_format\<close>, by their format. \<open>ini_N\<close> is the template argument, \<open>line_buffer_size\<close> and
  \<open>comment_signs\<close> are the two \<open>properties\<close>.
\<close>

record ini_config =
  line_buffer_size :: nat
  comment_signs :: "byte list"
  ini_N :: nat
  ini_string :: string_class
  strip_ws :: "byte list \<Rightarrow> byte list"
  strip_chars :: "byte list \<Rightarrow> byte list \<Rightarrow> byte list"
  append_to :: "nat \<Rightarrow> byte list \<Rightarrow> byte list \<Rightarrow> byte list res"
  fmt_c :: "byte \<Rightarrow> byte list"
  fmt_d :: "int \<Rightarrow> byte list"
  fmt_0xX :: "int \<Rightarrow> byte list"
  fmt_02X :: "byte \<Rightarrow> byte list"
  fmt_note :: "byte list \<Rightarrow> byte list \<Rightarrow> byte list"
  fmt_note_f :: "byte list \<Rightarrow> nat \<Rightarrow> nat \<Rightarrow> byte list"

text \<open>\<open>std::from_chars\<close>: the digits at the beginning; \<open>None\<close> when there is none or the number is too large.\<close>

definition digit_value :: "byte \<Rightarrow> nat option" where
  "digit_value x =
     (if 48 \<le> x \<and> x \<le> 57 then Some (unat x - 48)
      else if 97 \<le> x \<and> x \<le> 102 then Some (unat x - 87)
      else if 65 \<le> x \<and> x \<le> 70 then Some (unat x - 55) else None)"

definition is_digit :: "nat \<Rightarrow> byte \<Rightarrow> bool" where
  "is_digit base x = (case digit_value x of None \<Rightarrow> False | Some v \<Rightarrow> v < base)"

definition from_digits :: "nat \<Rightarrow> byte list \<Rightarrow> nat option" where
  "from_digits base s =
     (let ds = takeWhile (is_digit base) s
      in if ds = [] then None else Some (foldl (\<lambda>v x. v * base + the (digit_value x)) 0 ds))"

definition from_chars_unsigned :: "nat \<Rightarrow> nat \<Rightarrow> byte list \<Rightarrow> nat option" where
  "from_chars_unsigned w base s =
     (case from_digits base s of None \<Rightarrow> None | Some n \<Rightarrow> if n < 2 ^ w then Some n else None)"

definition from_chars_signed :: "nat \<Rightarrow> nat \<Rightarrow> byte list \<Rightarrow> int option" where
  "from_chars_signed w base s =
     (let neg = (s \<noteq> [] \<and> hd s = 45)
      in case from_digits base (if neg then tl s else s) of
           None \<Rightarrow> None
         | Some n \<Rightarrow>
             let v = (if neg then - int n else int n)
             in if - (2 ^ (w - 1)) \<le> v \<and> v < 2 ^ (w - 1) then Some v else None)"

section \<open>Lines\<close>

definition is_comment :: "ini_config \<Rightarrow> byte list \<Rightarrow> bool" where
  "is_comment I line = (line \<noteq> [] \<and> hd line \<in> set (comment_signs I))"

text \<open>A line that says something, without the white space around it.\<close>

definition ini_text :: "ini_config \<Rightarrow> byte list \<Rightarrow> byte list option" where
  "ini_text I line =
     (if line = [] \<or> is_comment I line then None
      else let sv = strip_ws I line in if sv = [] then None else Some sv)"

definition get_section_name :: "ini_config \<Rightarrow> byte list \<Rightarrow> byte list" where
  "get_section_name I line = strip_ws I (strip_chars I [91, 93] line)"

definition get_key_value :: "ini_config \<Rightarrow> byte list \<Rightarrow> byte list \<times> byte list" where
  "get_key_value I line =
     (if 61 \<notin> set line then ([], [])
      else let pos = length (takeWhile (\<lambda>x. x \<noteq> 61) line)
           in (strip_ws I (take pos line), strip_ws I (drop (pos + 1) line)))"

definition ini_get_line :: "ini_config \<Rightarrow> 's file_ops \<Rightarrow> 's file_buffer \<Rightarrow>
    (byte list option \<times> 's file_buffer) res" where
  "ini_get_line I F b = (case get_line (ini_string I) F b of None \<Rightarrow> Inl No_return | Some r \<Rightarrow> r)"

section \<open>Reading\<close>

text \<open>
  The loops read a line in every round, so the size of the file bounds the rounds; the first
  argument counts them.
\<close>

fun ini_read_loop :: "nat \<Rightarrow> ini_config \<Rightarrow> 's file_ops \<Rightarrow> byte list \<Rightarrow> byte list \<Rightarrow> bool \<Rightarrow> 's file_buffer \<Rightarrow>
    (byte list option \<times> 's file_buffer) res" where
  "ini_read_loop 0 I F sec key found b = Inl No_return"
| "ini_read_loop (Suc k) I F sec key found b =
     bindE (ini_get_line I F b) (\<lambda>(line, b).
     case line of
       None \<Rightarrow> Inr (None, b)
     | Some line \<Rightarrow>
         (case ini_text I line of
            None \<Rightarrow> ini_read_loop k I F sec key found b
          | Some sv \<Rightarrow>
              if hd sv = 91 then ini_read_loop k I F sec key (get_section_name I sv = sec) b
              else if \<not> found then ini_read_loop k I F sec key found b
              else if 61 \<notin> set sv then ini_read_loop k I F sec key found b
              else
                let (current_key, current_value) = get_key_value I sv
                in if current_key \<noteq> key then ini_read_loop k I F sec key found b
                   else Inr (Some current_value, b)))"

definition ini_read :: "ini_config \<Rightarrow> 's file_ops \<Rightarrow> 's file_buffer \<Rightarrow> byte list \<Rightarrow> byte list \<Rightarrow>
    (byte list option \<times> 's file_buffer) res" where
  "ini_read I F b sec key =
     bindE (FileBuffer_seek F b 0) (\<lambda>(_, b).
     ini_read_loop (Suc (Suc (FileBuffer_file_size F b))) I F sec key False b)"

definition ini_read_default :: "ini_config \<Rightarrow> 's file_ops \<Rightarrow> 's file_buffer \<Rightarrow> byte list \<Rightarrow> byte list \<Rightarrow>
    byte list \<Rightarrow> (byte list \<times> 's file_buffer) res" where
  "ini_read_default I F b sec key default_value =
     bindE (ini_read I F b sec key) (\<lambda>(v, b). Inr (case v of None \<Rightarrow> default_value | Some v \<Rightarrow> v, b))"

text \<open>The conversions of a value that was read; \<open>None\<close> leaves the variable of the caller alone.\<close>

definition ini_convert :: "(byte list \<Rightarrow> 'v option) \<Rightarrow> ini_config \<Rightarrow> 's file_ops \<Rightarrow> 's file_buffer \<Rightarrow> byte list \<Rightarrow>
    byte list \<Rightarrow> ('v option \<times> 's file_buffer) res" where
  "ini_convert f I F b sec key =
     bindE (ini_read I F b sec key) (\<lambda>(v, b). Inr (case v of None \<Rightarrow> None | Some v \<Rightarrow> f v, b))"

definition remove_hex_prefix :: "byte list \<Rightarrow> byte list" where
  "remove_hex_prefix s = (if take 2 s = [48, 120] \<or> take 2 s = [48, 88] then drop 2 s else s)"

definition ini_read_signed :: "nat \<Rightarrow> ini_config \<Rightarrow> 's file_ops \<Rightarrow> 's file_buffer \<Rightarrow> byte list \<Rightarrow>
    byte list \<Rightarrow> (int option \<times> 's file_buffer) res" where
  "ini_read_signed w = ini_convert (from_chars_signed w 10)"

definition ini_read_unsigned :: "nat \<Rightarrow> ini_config \<Rightarrow> 's file_ops \<Rightarrow> 's file_buffer \<Rightarrow> byte list \<Rightarrow>
    byte list \<Rightarrow> (nat option \<times> 's file_buffer) res" where
  "ini_read_unsigned w = ini_convert (from_chars_unsigned w 10)"

text \<open>Floating point numbers are stored by their bits, in 32 or 64 of them.\<close>

definition ini_read_float :: "nat \<Rightarrow> ini_config \<Rightarrow> 's file_ops \<Rightarrow> 's file_buffer \<Rightarrow> byte list \<Rightarrow>
    byte list \<Rightarrow> (nat option \<times> 's file_buffer) res" where
  "ini_read_float w = ini_convert (\<lambda>s. from_chars_unsigned w 16 (remove_hex_prefix s))"

definition ini_read_char :: "ini_config \<Rightarrow> 's file_ops \<Rightarrow> 's file_buffer \<Rightarrow> byte list \<Rightarrow>
    byte list \<Rightarrow> (byte option \<times> 's file_buffer) res" where
  "ini_read_char = ini_convert (\<lambda>s. map_option word_of_int (from_chars_signed 32 16 (remove_hex_prefix s)))"

text \<open>
  The bytes of a blob; the result tells whether all could be read, and gives the memory of the
  caller with the bytes before that, cut to them when all could be read.
\<close>

fun blob_loop :: "byte list \<Rightarrow> nat \<Rightarrow> byte list \<Rightarrow> bool \<times> nat \<times> byte list" where
  "blob_loop [] i blob = (True, i, blob)"
| "blob_loop [x] i blob = (False, i, blob)"
| "blob_loop (x # y # s) i blob =
     (case from_chars_unsigned 32 16 [x, y] of
        None \<Rightarrow> (False, i, blob)
      | Some v \<Rightarrow> blob_loop s (Suc i) (blob[i := of_nat v]))"

definition ini_read_blob :: "ini_config \<Rightarrow> 's file_ops \<Rightarrow> 's file_buffer \<Rightarrow> byte list \<Rightarrow> byte list \<Rightarrow>
    byte list \<Rightarrow> (bool \<times> byte list \<times> 's file_buffer) res" where
  "ini_read_blob I F b sec key blob =
     bindE (ini_read I F b sec key) (\<lambda>(v, b).
     case v of
       None \<Rightarrow> Inr (False, blob, b)
     | Some v \<Rightarrow>
         if length v mod 2 \<noteq> 0 then Inr (False, blob, b)
         else if length v div 2 > length blob then Inr (False, blob, b)
         else
           let (done, n, blob) = blob_loop v 0 blob
           in Inr (done, if done \<and> n < length blob then take n blob else blob, b))"

section \<open>Finding a place\<close>

text \<open>The searches for a section: by its name, and the next one from here on.\<close>

fun find_section_loop :: "nat \<Rightarrow> ini_config \<Rightarrow> 's file_ops \<Rightarrow> (byte list \<Rightarrow> bool) \<Rightarrow> 's file_buffer \<Rightarrow>
    (nat option \<times> 's file_buffer) res" where
  "find_section_loop 0 I F wanted b = Inl No_return"
| "find_section_loop (Suc k) I F wanted b =
     bindE (ini_get_line I F b) (\<lambda>(line, b).
     case line of
       None \<Rightarrow> Inr (None, b)
     | Some line \<Rightarrow>
         (case ini_text I line of
            None \<Rightarrow> find_section_loop k I F wanted b
          | Some sv \<Rightarrow>
              if hd sv = 91 \<and> wanted sv then Inr (Some (FileBuffer_tellg F b), b)
              else find_section_loop k I F wanted b))"

definition find_section :: "ini_config \<Rightarrow> 's file_ops \<Rightarrow> 's file_buffer \<Rightarrow> byte list \<Rightarrow>
    (nat option \<times> 's file_buffer) res" where
  "find_section I F b sec =
     bindE (FileBuffer_seek F b 0) (\<lambda>(_, b).
     find_section_loop (Suc (Suc (FileBuffer_file_size F b))) I F (\<lambda>sv. get_section_name I sv = sec) b)"

definition find_next_section :: "ini_config \<Rightarrow> 's file_ops \<Rightarrow> 's file_buffer \<Rightarrow> (nat option \<times> 's file_buffer) res" where
  "find_next_section I F b = find_section_loop (Suc (Suc (FileBuffer_file_size F b))) I F (\<lambda>_. True) b"

text \<open>The position of the next line with a key; at a new section the position goes back to that.\<close>

fun find_next_key_loop :: "nat \<Rightarrow> ini_config \<Rightarrow> 's file_ops \<Rightarrow> 's file_buffer \<Rightarrow> (nat option \<times> 's file_buffer) res" where
  "find_next_key_loop 0 I F b = Inl No_return"
| "find_next_key_loop (Suc k) I F b =
     (let pos_before_read_line = FileBuffer_tellg F b
      in bindE (ini_get_line I F b) (\<lambda>(line, b).
         case line of
           None \<Rightarrow> Inr (None, b)
         | Some line \<Rightarrow>
             (case ini_text I line of
                None \<Rightarrow> find_next_key_loop k I F b
              | Some sv \<Rightarrow>
                  if hd sv = 91 then bindE (FileBuffer_seek F b pos_before_read_line) (\<lambda>(_, b). Inr (None, b))
                  else if 61 \<notin> set sv then find_next_key_loop k I F b
                  else Inr (Some pos_before_read_line, b))))"

definition find_next_key :: "ini_config \<Rightarrow> 's file_ops \<Rightarrow> 's file_buffer \<Rightarrow> (nat option \<times> 's file_buffer) res" where
  "find_next_key I F b = find_next_key_loop (Suc (Suc (FileBuffer_file_size F b))) I F b"

section \<open>Writing\<close>

definition ini_put :: "'s file_ops \<Rightarrow> 's file_buffer \<Rightarrow> byte list \<Rightarrow> (bool \<times> 's file_buffer) res" where
  "ini_put F b s = bindE (FileBuffer_write F b s) (\<lambda>(len_written, b). Inr (len_written = length s, b))"

fun ini_put_all :: "'s file_ops \<Rightarrow> 's file_buffer \<Rightarrow> byte list list \<Rightarrow> (bool \<times> 's file_buffer) res" where
  "ini_put_all F b [] = Inr (True, b)"
| "ini_put_all F b (s # ss) =
     bindE (ini_put F b s) (\<lambda>(done, b). if \<not> done then Inr (False, b) else ini_put_all F b ss)"

definition get_comment_sign :: "ini_config \<Rightarrow> byte list res" where
  "get_comment_sign I = (case comment_signs I of [] \<Rightarrow> Inl Undefined | c # _ \<Rightarrow> Inr (fmt_c I c))"

text \<open>The pieces of a line with a key: \<open>\t key = value\n\<close>, and those of the line with its comment.\<close>

definition key_pieces :: "byte list \<Rightarrow> byte list \<Rightarrow> byte list list" where
  "key_pieces key v = [[9], key, [32, 61, 32], v, [10]]"

definition comment_pieces :: "byte list \<Rightarrow> byte list \<Rightarrow> byte list list" where
  "comment_pieces cs comment = [cs, [9], comment, [10]]"

definition append_section :: "'s file_ops \<Rightarrow> 's file_buffer \<Rightarrow> byte list \<Rightarrow> (bool \<times> 's file_buffer) res" where
  "append_section F b sec =
     bindE (if FileBuffer_file_size F b > 0 then
              bindE (FileBuffer_seek F b (sub64 (FileBuffer_file_size F b) 1)) (\<lambda>(_, b).
              bindE (get_char F b) (\<lambda>(c, b).
              if c \<noteq> None \<and> c \<noteq> Some 10 then ini_put F b [10] else Inr (True, b)))
            else Inr (True, b)) (\<lambda>(done, b).
     if \<not> done then Inr (False, b)
     else
       bindE (if FileBuffer_tellg F b > 0 then ini_put F b [10] else Inr (True, b)) (\<lambda>(done, b).
       if \<not> done then Inr (False, b) else ini_put_all F b [[91], sec, [93, 10]]))"

definition append_key :: "ini_config \<Rightarrow> 's file_ops \<Rightarrow> 's file_buffer \<Rightarrow> byte list \<Rightarrow> byte list \<Rightarrow> byte list \<Rightarrow>
    (bool \<times> 's file_buffer) res" where
  "append_key I F b key v comment =
     bindE (if comment \<noteq> [] then
              bindE (get_comment_sign I) (\<lambda>cs. ini_put_all F b (comment_pieces cs comment))
            else Inr (True, b)) (\<lambda>(done, b).
     if \<not> done then Inr (False, b) else ini_put_all F b (key_pieces key v))"

text \<open>
  \<open>insert\<close> moves what follows with two buffers: \<open>cur\<close> is to be written next, and before that as many
  bytes as a buffer holds are read from where it goes. The file grows up to \<open>new_file_size\<close>, and
  every round writes at least one byte.
\<close>

fun concat_to :: "ini_config \<Rightarrow> nat \<Rightarrow> byte list \<Rightarrow> byte list list \<Rightarrow> byte list res" where
  "concat_to I n s [] = Inr s"
| "concat_to I n s (x # xs) = bindE (append_to I n s x) (\<lambda>s. concat_to I n s xs)"

fun insert_round :: "nat \<Rightarrow> 's file_ops \<Rightarrow> nat \<Rightarrow> nat \<Rightarrow> nat \<Rightarrow> byte list \<Rightarrow> 's file_buffer \<Rightarrow> (bool \<times> 's file_buffer) res" where
  "insert_round 0 F buffer_size new_file_size p cur b = Inl No_return"
| "insert_round (Suc k) F buffer_size new_file_size p cur b =
     (if p < new_file_size \<and> cur \<noteq> [] then
        let pos_before_read = FileBuffer_tellg F b
        in bindE (FileBuffer_read F b buffer_size) (\<lambda>(nxt, b).
           bindE (FileBuffer_seek F b pos_before_read) (\<lambda>(_, b).
           bindE (FileBuffer_write F b cur) (\<lambda>(n, b).
           if n \<noteq> length cur then Inr (False, b)
           else insert_round k F buffer_size new_file_size (add64 p (length cur)) nxt b)))
      else Inr (True, b))"

definition ini_insert :: "ini_config \<Rightarrow> 's file_ops \<Rightarrow> 's file_buffer \<Rightarrow> nat \<Rightarrow> byte list list \<Rightarrow>
    (bool \<times> 's file_buffer) res" where
  "ini_insert I F b pos_in_file values =
     bindE (FileBuffer_seek F b pos_in_file) (\<lambda>(_, b).
     let len = sum_list (map length values); buffer_size = line_buffer_size I mod 2 ^ 32
     in bindE (concat_to I buffer_size [] values) (\<lambda>cur.
        let new_file_size = add64 (FileBuffer_file_size F b) len
        in insert_round (Suc new_file_size) F buffer_size new_file_size pos_in_file cur b))"

text \<open>
  A key line that gets shorter: the new line is written, what follows is moved forward, and the
  file is cut. When that cannot be done, the line is filled with spaces.
\<close>

definition pad_with_spaces :: "'s file_ops \<Rightarrow> 's file_buffer \<Rightarrow> nat \<Rightarrow> byte list list \<Rightarrow> nat \<Rightarrow>
    (bool \<times> 's file_buffer) res" where
  "pad_with_spaces F b start sl shrink_amount =
     bindE (FileBuffer_seek F b start) (\<lambda>(_, b).
     bindE (ini_put_all F b (butlast sl)) (\<lambda>(done, b).
     if \<not> done then Inr (False, b)
     else bindE (ini_put_all F b (replicate shrink_amount [32])) (\<lambda>(done, b).
          if \<not> done then Inr (False, b) else ini_put F b [10])))"

text \<open>The result tells whether everything was moved, or what to return.\<close>

fun shift_tail :: "nat \<Rightarrow> 's file_ops \<Rightarrow> nat \<Rightarrow> nat \<Rightarrow> nat \<Rightarrow> nat \<Rightarrow> nat \<Rightarrow> byte list list \<Rightarrow> nat \<Rightarrow> 's file_buffer \<Rightarrow>
    (bool option \<times> 's file_buffer) res" where
  "shift_tail 0 F buffer_size bytes_remaining read_pos write_pos start sl shrink_amount b = Inl No_return"
| "shift_tail (Suc k) F buffer_size bytes_remaining read_pos write_pos start sl shrink_amount b =
     (if bytes_remaining = 0 then Inr (None, b)
      else
        let chunk = min bytes_remaining buffer_size
        in bindE (FileBuffer_seek F b read_pos) (\<lambda>(_, b).
           bindE (FileBuffer_read F b chunk) (\<lambda>(d, b).
           if d = [] then
             bindE (pad_with_spaces F b start sl shrink_amount) (\<lambda>(done, b). Inr (Some done, b))
           else
             bindE (FileBuffer_seek F b write_pos) (\<lambda>(_, b).
             bindE (FileBuffer_write F b d) (\<lambda>(n, b).
             if n \<noteq> length d then Inr (Some False, b)
             else shift_tail k F buffer_size (sub64 bytes_remaining (length d)) (add64 read_pos (length d))
                    (add64 write_pos (length d)) start sl shrink_amount b)))))"

definition shrink_key :: "ini_config \<Rightarrow> 's file_ops \<Rightarrow> 's file_buffer \<Rightarrow> nat \<Rightarrow> nat \<Rightarrow> nat \<Rightarrow> byte list list \<Rightarrow>
    (bool \<times> 's file_buffer) res" where
  "shrink_key I F b start size_to_overwrite len_to_write sl =
     (let shrink_amount = sub64 size_to_overwrite len_to_write;
          tail_start_old = add64 start size_to_overwrite; old_file_size = FileBuffer_file_size F b;
          tail_size = (if old_file_size > tail_start_old then sub64 old_file_size tail_start_old else 0);
          new_file_size = sub64 old_file_size shrink_amount
      in bindE (FileBuffer_seek F b start) (\<lambda>(_, b).
         bindE (ini_put_all F b sl) (\<lambda>(done, b).
         if \<not> done then Inr (False, b)
         else
           bindE (shift_tail (Suc tail_size) F (line_buffer_size I) tail_size tail_start_old
                    (sub64 tail_start_old shrink_amount) start sl shrink_amount b) (\<lambda>(ret, b).
           case ret of
             Some r \<Rightarrow> Inr (r, b)
           | None \<Rightarrow>
               bindE (FileBuffer_truncate F b new_file_size) (\<lambda>(done, b).
               if \<not> done then pad_with_spaces F b start sl shrink_amount else Inr (True, b))))))"

text \<open>The other branch: what fits the old line overwrites it, the rest is inserted.\<close>

definition grow_key :: "ini_config \<Rightarrow> 's file_ops \<Rightarrow> 's file_buffer \<Rightarrow> nat \<Rightarrow> byte list list \<Rightarrow>
    (bool \<times> 's file_buffer) res" where
  "grow_key I F b size_to_overwrite sl =
     (let text = concat sl
      in bindE (ini_put F b (take size_to_overwrite text)) (\<lambda>(done, b).
         if \<not> done then Inr (False, b)
         else bindE (ini_insert I F b (FileBuffer_tellg F b) [drop size_to_overwrite text]) (\<lambda>(done, b).
              if \<not> done then Inr (False, b) else Inr (True, b))))"

definition write_pieces :: "ini_config \<Rightarrow> byte list \<Rightarrow> byte list \<Rightarrow> byte list \<Rightarrow> byte list list res" where
  "write_pieces I key v comment =
     bindE (get_comment_sign I) (\<lambda>cs.
     Inr ((if comment \<noteq> [] then comment_pieces cs comment else []) @ key_pieces key v))"

text \<open>The line of the key, which ends at the position, and what is before it down to the key above.\<close>

definition replace_key :: "ini_config \<Rightarrow> 's file_ops \<Rightarrow> byte list \<Rightarrow> byte list \<Rightarrow> byte list \<Rightarrow> nat \<Rightarrow> 's file_buffer \<Rightarrow>
    (bool \<times> 's file_buffer) res" where
  "replace_key I F key v comment start b =
     (let fin = FileBuffer_tellg F b
      in bindE (FileBuffer_seek F b start) (\<lambda>(_, b).
         bindE (write_pieces I key v comment) (\<lambda>sl.
         let len_to_write = sum_list (map length sl); size_to_overwrite = sub64 fin start
         in if size_to_overwrite > len_to_write then shrink_key I F b start size_to_overwrite len_to_write sl
            else grow_key I F b size_to_overwrite sl)))"

text \<open>
  The loop over the keys of the section: \<open>Some\<close> what to return, or \<open>None\<close> with the end of the last
  key when there is no such key.
\<close>

fun write_key_loop :: "nat \<Rightarrow> ini_config \<Rightarrow> 's file_ops \<Rightarrow> byte list \<Rightarrow> byte list \<Rightarrow> byte list \<Rightarrow> nat \<Rightarrow> nat option \<Rightarrow>
    's file_buffer \<Rightarrow> (bool option \<times> nat option \<times> 's file_buffer) res" where
  "write_key_loop 0 I F key v comment section_keys_start last_key_end b = Inl No_return"
| "write_key_loop (Suc k) I F key v comment section_keys_start last_key_end b =
     bindE (find_next_key I F b) (\<lambda>(next_key_pos, b).
     case next_key_pos of
       None \<Rightarrow> Inr (None, last_key_end, b)
     | Some p \<Rightarrow>
         bindE (FileBuffer_seek F b p) (\<lambda>(_, b).
         bindE (ini_get_line I F b) (\<lambda>(line, b).
         case line of
           None \<Rightarrow> Inr (Some False, last_key_end, b)
         | Some line \<Rightarrow>
             let (current_key, current_value) = get_key_value I line
             in if current_key \<noteq> key then
                  write_key_loop k I F key v comment section_keys_start (Some (FileBuffer_tellg F b)) b
                else if current_value = v then Inr (Some True, last_key_end, b)
                else
                  bindE (replace_key I F key v comment (case last_key_end of None \<Rightarrow> section_keys_start | Some e \<Rightarrow> e) b)
                    (\<lambda>(done, b). Inr (Some done, last_key_end, b)))))"

definition ini_write :: "ini_config \<Rightarrow> 's file_ops \<Rightarrow> 's file_buffer \<Rightarrow> byte list \<Rightarrow> byte list \<Rightarrow> byte list \<Rightarrow>
    byte list \<Rightarrow> (bool \<times> 's file_buffer) res" where
  "ini_write I F b sec key v comment =
     bindE (find_section I F b sec) (\<lambda>(section_pos, b).
     if section_pos = None then
       bindE (append_section F b sec) (\<lambda>(done, b).
       if \<not> done then Inr (False, b) else append_key I F b key v comment)
     else
       bindE (write_key_loop (Suc (Suc (FileBuffer_file_size F b))) I F key v comment (FileBuffer_tellg F b) None b)
         (\<lambda>(ret, last_key_end, b).
       case ret of
         Some r \<Rightarrow> Inr (r, b)
       | None \<Rightarrow>
           let current_pos = FileBuffer_tellg F b
           in bindE (if current_pos > 0 then
                       bindE (FileBuffer_seek F b (sub64 current_pos 1)) (\<lambda>(_, b).
                       bindE (get_char F b) (\<lambda>(c, b).
                       if c = Some 10 then bindE (FileBuffer_seek F b (sub64 current_pos 1)) (\<lambda>(_, b). Inr b)
                       else Inr b))
                     else Inr b) (\<lambda>b.
              bindE (write_pieces I key v comment) (\<lambda>sl.
              bindE (ini_insert I F b (case last_key_end of None \<Rightarrow> FileBuffer_tellg F b | Some e \<Rightarrow> e) sl)
                (\<lambda>(done, b).
              if \<not> done then Inr (False, b) else Inr (True, b))))))"

text \<open>The conversions of a value to be written.\<close>

definition ini_write_int :: "ini_config \<Rightarrow> 's file_ops \<Rightarrow> 's file_buffer \<Rightarrow> byte list \<Rightarrow> byte list \<Rightarrow> int \<Rightarrow>
    byte list \<Rightarrow> (bool \<times> 's file_buffer) res" where
  "ini_write_int I F b sec key v comment = ini_write I F b sec key (fmt_d I v) comment"

text \<open>The character is handed to the format as a C string: the character 0 is the empty string.\<close>

definition char_text :: "byte \<Rightarrow> byte list" where
  "char_text v = (if v = 10 then [92, 110] else if v = 9 then [92, 116] else if v = 13 then [92, 114]
     else if v = 0 then [] else [v])"

definition ini_write_char :: "ini_config \<Rightarrow> 's file_ops \<Rightarrow> 's file_buffer \<Rightarrow> byte list \<Rightarrow> byte list \<Rightarrow> byte \<Rightarrow>
    byte list \<Rightarrow> (bool \<times> 's file_buffer) res" where
  "ini_write_char I F b sec key v comment =
     ini_write I F b sec key (fmt_0xX I (sint v)) (fmt_note I comment (char_text v))"

definition ini_write_float :: "nat \<Rightarrow> ini_config \<Rightarrow> 's file_ops \<Rightarrow> 's file_buffer \<Rightarrow> byte list \<Rightarrow> byte list \<Rightarrow> nat \<Rightarrow>
    byte list \<Rightarrow> (bool \<times> 's file_buffer) res" where
  "ini_write_float w I F b sec key v comment =
     ini_write I F b sec key (fmt_0xX I (int v)) (fmt_note_f I comment w v)"

fun blob_text :: "ini_config \<Rightarrow> byte list \<Rightarrow> byte list \<Rightarrow> byte list option res" where
  "blob_text I s [] = Inr (Some s)"
| "blob_text I s (x # xs) =
     (if length s + 2 > str_capacity (ini_string I) s then Inr None
      else bindE (append_to I (ini_N I) s (fmt_02X I x)) (\<lambda>s. blob_text I s xs))"

definition ini_write_blob :: "ini_config \<Rightarrow> 's file_ops \<Rightarrow> 's file_buffer \<Rightarrow> byte list \<Rightarrow> byte list \<Rightarrow> byte list \<Rightarrow>
    byte list \<Rightarrow> (bool \<times> 's file_buffer) res" where
  "ini_write_blob I F b sec key blob comment =
     (if mul64 (length blob) 2 \<ge> ini_N I then Inr (False, b)
      else
        bindE (blob_text I [] blob) (\<lambda>s.
        case s of
          None \<Rightarrow> Inr (False, b)
        | Some s \<Rightarrow>
            if length s \<ge> str_capacity (ini_string I) [] then Inr (False, b)
            else ini_write I F b sec key s comment))"

end
