(* ===== verification/IniSpec.thy ===== *)
theory IniSpec
  imports Ini HandleFile
begin

text \<open>
  What the ini files promise over any file that keeps its contract: reading a value is looking it
  up in the lines of the file, inserting moves the rest of the file, and what was written is found
  again.
\<close>

section \<open>The lines of a file\<close>

function file_lines :: "byte list \<Rightarrow> byte list list" where
  "file_lines R = (if R = [] then []
     else takeWhile (\<lambda>x. x \<noteq> 10) R # file_lines (drop (Suc (length (takeWhile (\<lambda>x. x \<noteq> 10) R))) R))"
  by pat_completeness auto

termination by (relation "measure length") auto

declare file_lines.simps [simp del]

lemma file_lines_Nil [simp]: "file_lines [] = []"
  by (simp add: file_lines.simps)

lemma file_lines_line: "10 \<notin> set w \<Longrightarrow> file_lines (w @ 10 # R) = w # file_lines R"
proof -
  assume w: "10 \<notin> set w"
  have "takeWhile (\<lambda>x. x \<noteq> 10) (w @ 10 # R) = w" using w by (subst takeWhile_append2) auto
  then show ?thesis by (subst file_lines.simps) simp
qed

lemma file_lines_last: "10 \<notin> set w \<Longrightarrow> w \<noteq> [] \<Longrightarrow> file_lines w = [w]"
proof -
  assume w: "10 \<notin> set w" "w \<noteq> []"
  have "takeWhile (\<lambda>x. x \<noteq> 10) w = w" using w(1) by (auto simp: takeWhile_eq_all_conv)
  then have "file_lines w = w # file_lines (drop (Suc (length w)) w)"
    using w(2) by (subst file_lines.simps) (simp only: if_False)
  then show ?thesis by simp
qed

lemma split_line:
  obtains (last) "10 \<notin> set R" | (line) w R' where "R = w @ 10 # R'" "10 \<notin> set w"
  using split_list_first [of 10 R] by blast

lemma file_lines_append: "A = [] \<or> last A = 10 \<Longrightarrow> file_lines (A @ B) = file_lines A @ file_lines B"
proof (induction A rule: length_induct)
  case (1 A)
  show ?case
  proof (cases A rule: split_line)
    case last
    then have "A = []" using 1(2) last_in_set [of A] by metis
    then show ?thesis by simp
  next
    case (line w R')
    then have "R' = [] \<or> last R' = 10" using 1(2) by (auto split: if_splits)
    then have "file_lines (R' @ B) = file_lines R' @ file_lines B" using 1(1) line by auto
    then show ?thesis using line by (simp add: file_lines_line)
  qed
qed

lemma file_lines_open: "A \<noteq> [] \<Longrightarrow> last A \<noteq> 10 \<Longrightarrow> file_lines (A @ 10 # B) = file_lines A @ file_lines B"
proof (induction A rule: length_induct)
  case (1 A)
  show ?case
  proof (cases A rule: split_line)
    case last
    then show ?thesis using 1(2) by (simp add: file_lines_line file_lines_last)
  next
    case (line w R')
    then have R': "R' \<noteq> []" "last R' \<noteq> 10" using 1(3) by (auto split: if_splits)
    then have "file_lines (R' @ 10 # B) = file_lines R' @ file_lines B" using 1(1) line by auto
    then show ?thesis using line by (simp add: file_lines_line)
  qed
qed

section \<open>Looking up a value\<close>

text \<open>
  The value of a key: of the lines below a line with the name of the section, up to the next line
  with a section, the first with the key.
\<close>

fun lookup_lines :: "ini_config \<Rightarrow> byte list \<Rightarrow> byte list \<Rightarrow> bool \<Rightarrow> byte list list \<Rightarrow> byte list option" where
  "lookup_lines I sec key found [] = None"
| "lookup_lines I sec key found (line # ls) =
     (case ini_text I line of
        None \<Rightarrow> lookup_lines I sec key found ls
      | Some sv \<Rightarrow>
          if hd sv = 91 then lookup_lines I sec key (get_section_name I sv = sec) ls
          else if found \<and> 61 \<in> set sv \<and> fst (get_key_value I sv) = key then Some (snd (get_key_value I sv))
          else lookup_lines I sec key found ls)"

definition is_section :: "ini_config \<Rightarrow> byte list \<Rightarrow> byte list \<Rightarrow> bool" where
  "is_section I sec line = (case ini_text I line of None \<Rightarrow> False
     | Some sv \<Rightarrow> hd sv = 91 \<and> get_section_name I sv = sec)"

lemma lookup_elsewhere:
  "\<forall>line\<in>set ls. \<not> is_section I sec line \<Longrightarrow>
     lookup_lines I sec key False (ls @ ls') = lookup_lines I sec key False ls'"
  by (induction ls) (auto simp: is_section_def split: option.splits)

text \<open>
  A buffer without unwritten bytes, from which lines can be read, what is left of the file, and a
  buffer with which one can go back to the beginning.
\<close>

definition reading :: "'s file_ops \<Rightarrow> ('s \<Rightarrow> bool) \<Rightarrow> ('s \<Rightarrow> byte list) \<Rightarrow> 's file_buffer \<Rightarrow> bool" where
  "reading F good cont b \<longleftrightarrow> fb_ok good cont b \<and> \<not> fb_modified b \<and> 0 < length (fb_data b) \<and> anchored F b
     \<and> (fb_len b = 0 \<longrightarrow> length (view cont b) \<noteq> Suc (FileBuffer_tellg F b))"

definition appending :: "'s file_ops \<Rightarrow> ('s \<Rightarrow> bool) \<Rightarrow> ('s \<Rightarrow> byte list) \<Rightarrow> 's file_buffer \<Rightarrow> bool" where
  "appending F good cont b \<longleftrightarrow> fb_ok good cont b \<and> FileBuffer_tellg F b = length (view cont b)
     \<and> fb_pos b < length (fb_data b)"

definition rest :: "'s file_ops \<Rightarrow> ('s \<Rightarrow> byte list) \<Rightarrow> 's file_buffer \<Rightarrow> byte list" where
  "rest F cont b = drop (FileBuffer_tellg F b) (view cont b)"

definition rewindable :: "'s file_ops \<Rightarrow> ('s \<Rightarrow> bool) \<Rightarrow> ('s \<Rightarrow> byte list) \<Rightarrow> 's file_buffer \<Rightarrow> bool" where
  "rewindable F good cont b \<longleftrightarrow> fb_ok good cont b \<and> \<not> fb_modified b \<and> 0 < length (fb_data b)
     \<and> length (view cont b) \<noteq> 1 \<and> anchored F b"

text \<open>What is left of the file below the first line that is wanted.\<close>

function below_line :: "(byte list \<Rightarrow> bool) \<Rightarrow> byte list \<Rightarrow> byte list option" where
  "below_line P R = (if R = [] then None
     else let w = takeWhile (\<lambda>x. x \<noteq> 10) R; R' = drop (Suc (length w)) R
       in if P w then Some R' else below_line P R')"
  by pat_completeness auto

termination by (relation "measure (length \<circ> snd)") auto

declare below_line.simps [simp del]

lemma below_line_None: "\<forall>w\<in>set (file_lines R). \<not> P w \<Longrightarrow> below_line P R = None"
proof (induction P R rule: below_line.induct)
  case (1 P R)
  show ?case
  proof (cases "R = []")
    case False
    let ?w = "takeWhile (\<lambda>x. x \<noteq> 10) R"
    have "file_lines R = ?w # file_lines (drop (Suc (length ?w)) R)" using False by (subst file_lines.simps) simp
    then have "\<not> P ?w" "\<forall>w\<in>set (file_lines (drop (Suc (length ?w)) R)). \<not> P w" using 1(2) by auto
    then have "below_line P (drop (Suc (length ?w)) R) = None" using 1(1) [OF False refl refl] by blast
    then show ?thesis using False \<open>\<not> P ?w\<close> by (subst below_line.simps) (simp add: Let_def)
  qed (simp add: below_line.simps)
qed

context open_file_contract
begin

lemma rest_empty: "fb_ok good cont b \<Longrightarrow> rest F cont b = [] \<longleftrightarrow> FileBuffer_tellg F b = length (view cont b)"
  using tellg_eq(2) [of b] by (auto simp: rest_def)

lemma line_read:
  assumes "reading F good cont b" "\<forall>line\<in>set (file_lines (rest F cont b)). holds_line (ini_string I) line"
    "w = takeWhile (\<lambda>x. x \<noteq> 10) (rest F cont b)"
  shows "\<exists>b'. ini_get_line I F b = Inr (if rest F cont b = [] then None else Some w, b')
    \<and> reading F good cont b' \<and> view cont b' = view cont b \<and> length (fb_data b') = length (fb_data b)
    \<and> rest F cont b' = drop (Suc (length w)) (rest F cont b)
    \<and> FileBuffer_tellg F b' = min (length (view cont b)) (FileBuffer_tellg F b + Suc (length w))"
proof -
  let ?R = "rest F cont b" and ?V = "view cont b" and ?t = "FileBuffer_tellg F b"
  have ok: "fb_ok good cont b" "\<not> fb_modified b" "0 < length (fb_data b)"
    "fb_len b = 0 \<longrightarrow> length ?V \<noteq> Suc ?t" using assms(1) by (simp_all add: reading_def)
  have t: "?t \<le> length ?V" by (rule tellg_eq(2) [OF ok(1)])
  have lR: "length ?R = length ?V - ?t" by (simp add: rest_def)
  have fuel: "length ?V - ?t < Suc (Suc (FileBuffer_file_size F b))" using file_size_eq [OF ok(1)] by simp
  have hl: "holds_line (ini_string I) ([] @ takeWhile (\<lambda>x. x \<noteq> 10) ?R)"
  proof (cases "?R = []")
    case False
    then have "takeWhile (\<lambda>x. x \<noteq> 10) ?R \<in> set (file_lines ?R)" by (subst file_lines.simps) simp
    then show ?thesis using assms(2) by simp
  qed (simp add: holds_line_def)
  from get_line_loop_ok [OF ok(1-3) fuel ok(4) rest_def hl] obtain b' where
    g: "get_line_loop (Suc (Suc (FileBuffer_file_size F b))) (ini_string I) F b [] =
      Some (Inr (if 10 \<in> set ?R then Some ([] @ takeWhile (\<lambda>x. x \<noteq> 10) ?R)
        else if [] @ ?R = [] then None else Some ([] @ ?R), b'))"
    and b': "fb_ok good cont b'" "\<not> fb_modified b'" "view cont b' = ?V" "length (fb_data b') = length (fb_data b)"
      "fb_len b' = 0 \<longrightarrow> FileBuffer_tellg F b' = length ?V" "anchored F b \<longrightarrow> anchored F b'"
    and t': "FileBuffer_tellg F b' = (if 10 \<in> set ?R then ?t + length (takeWhile (\<lambda>x. x \<noteq> 10) ?R) + 1 else length ?V)"
    by (elim exE conjE) (rule that, assumption+)
  have w: "10 \<notin> set ?R \<Longrightarrow> w = ?R" using assms(3) by (auto simp: takeWhile_eq_all_conv)
  have less: "10 \<in> set ?R \<Longrightarrow> length w < length ?R" unfolding assms(3) by (rule takeWhile_less)
  have tm: "FileBuffer_tellg F b' = min (length ?V) (?t + Suc (length w))"
  proof (cases "10 \<in> set ?R")
    case True
    then show ?thesis using t' less lR t assms(3) by simp
  next
    case False
    then show ?thesis using t' w lR t by simp
  qed
  have "ini_get_line I F b = Inr (if ?R = [] then None else Some w, b')"
  proof (cases "10 \<in> set ?R")
    case True
    then show ?thesis using g assms(3) by (auto simp: ini_get_line_def get_line_def simp del: get_line_loop.simps)
  next
    case False
    then show ?thesis using g w [OF False] by (simp add: ini_get_line_def get_line_def del: get_line_loop.simps)
  qed
  moreover have "reading F good cont b'" using b' ok(3) assms(1) by (simp add: reading_def)
  moreover have "rest F cont b' = drop (Suc (length w)) ?R"
    unfolding rest_def b'(3) tm by (simp add: min_def add.commute)
  ultimately show ?thesis using b'(3,4) tm by blast
qed

lemma read_loop_ok:
  assumes "reading F good cont b" "length (rest F cont b) < k" "\<forall>line\<in>set (file_lines (rest F cont b)). holds_line (ini_string I) line"
  shows "\<exists>b'. ini_read_loop k I F sec key found b = Inr (lookup_lines I sec key found (file_lines (rest F cont b)), b')
    \<and> reading F good cont b' \<and> view cont b' = view cont b \<and> length (fb_data b') = length (fb_data b)"
  using assms
proof (induction k arbitrary: b found)
  case (Suc k)
  let ?w = "takeWhile (\<lambda>x. x \<noteq> 10) (rest F cont b)"
  from line_read [OF Suc.prems(1,3) refl] obtain b1 where
    g: "ini_get_line I F b = Inr (if rest F cont b = [] then None else Some ?w, b1)"
    and b1: "reading F good cont b1" "view cont b1 = view cont b" "length (fb_data b1) = length (fb_data b)"
      "rest F cont b1 = drop (Suc (length ?w)) (rest F cont b)"
    by (elim exE conjE) (rule that, assumption+)
  show ?case
  proof (cases "rest F cont b = []")
    case True
    then show ?thesis using g b1 by (intro exI [of _ b1]) simp
  next
    case False
    then have fl: "file_lines (rest F cont b) = ?w # file_lines (rest F cont b1)" by (subst file_lines.simps) (simp add: b1(4))
    have "length (rest F cont b1) < k" using Suc.prems(2) False by (cases "rest F cont b") (auto simp: b1(4))
    moreover have "\<forall>line\<in>set (file_lines (rest F cont b1)). holds_line (ini_string I) line" using Suc.prems(3) fl by simp
    ultimately have IH: "\<exists>b'. ini_read_loop k I F sec key f b1 =
          Inr (lookup_lines I sec key f (file_lines (rest F cont b1)), b')
        \<and> reading F good cont b' \<and> view cont b' = view cont b \<and> length (fb_data b') = length (fb_data b)" for f
      using Suc.IH [OF b1(1), of f] unfolding b1(2,3) by blast
    show ?thesis
    proof (cases "ini_text I ?w")
      case None
      then show ?thesis using g False fl IH by simp
    next
      case (Some sv)
      then show ?thesis using g False fl IH b1
        by (cases "get_key_value I sv") (auto simp: Some)
    qed
  qed
qed simp

text \<open>Going back, to any place that does not leave just one byte.\<close>

lemma back_ok:
  assumes "reading F good cont b" "p \<le> FileBuffer_tellg F b" "length (view cont b) \<noteq> Suc p"
  shows "\<exists>b'. FileBuffer_seek F b p = Inr (True, b') \<and> reading F good cont b' \<and> view cont b' = view cont b
    \<and> FileBuffer_tellg F b' = p \<and> rest F cont b' = drop p (view cont b) \<and> length (fb_data b') = length (fb_data b)"
proof -
  have ok: "fb_ok good cont b" "\<not> fb_modified b" "anchored F b" using assms(1) by (simp_all add: reading_def)
  from seek_back_ok [OF ok assms(2)] obtain b' where
    "FileBuffer_seek F b p = Inr (True, b')" "fb_ok good cont b'" "\<not> fb_modified b'" "anchored F b'"
    "view cont b' = view cont b" "FileBuffer_tellg F b' = p" "length (fb_data b') = length (fb_data b)" by blast
  then show ?thesis using assms(1,3) by (intro exI [of _ b']) (simp add: reading_def rest_def)
qed

lemma rewind_ok:
  assumes "rewindable F good cont b"
  shows "\<exists>b'. FileBuffer_seek F b 0 = Inr (True, b') \<and> reading F good cont b' \<and> view cont b' = view cont b
    \<and> FileBuffer_tellg F b' = 0 \<and> rest F cont b' = view cont b \<and> length (fb_data b') = length (fb_data b)"
proof -
  have ok: "fb_ok good cont b" "\<not> fb_modified b" "anchored F b" using assms by (simp_all add: rewindable_def)
  from seek_back_ok [OF ok, of 0] obtain b' where
    "FileBuffer_seek F b 0 = Inr (True, b')" "fb_ok good cont b'" "\<not> fb_modified b'" "anchored F b'"
    "view cont b' = view cont b" "FileBuffer_tellg F b' = 0" "length (fb_data b') = length (fb_data b)" by blast
  then show ?thesis using assms by (intro exI [of _ b']) (simp add: reading_def rewindable_def rest_def)
qed

lemma ini_read_ok:
  assumes "rewindable F good cont b" "\<forall>line\<in>set (file_lines (view cont b)). holds_line (ini_string I) line"
  shows "\<exists>b'. ini_read I F b sec key = Inr (lookup_lines I sec key False (file_lines (view cont b)), b')
    \<and> reading F good cont b' \<and> view cont b' = view cont b \<and> length (fb_data b') = length (fb_data b)"
proof -
  from rewind_ok [OF assms(1)] obtain b1 where
    b1: "FileBuffer_seek F b 0 = Inr (True, b1)" "reading F good cont b1" "view cont b1 = view cont b"
      "rest F cont b1 = view cont b" "length (fb_data b1) = length (fb_data b)" by blast
  have "fb_ok good cont b1" using b1(2) by (simp add: reading_def)
  then have "length (rest F cont b1) < Suc (Suc (FileBuffer_file_size F b1))" using file_size_eq by (simp add: rest_def)
  from read_loop_ok [OF b1(2) this, of I] assms(2) b1 show ?thesis by (simp add: ini_read_def)
qed

text \<open>The searches stop below the line that is wanted, or at the end.\<close>

lemma find_loop_ok:
  assumes "reading F good cont b" "length (rest F cont b) < k"
    "\<forall>line\<in>set (file_lines (rest F cont b)). holds_line (ini_string I) line"
    "R = below_line (\<lambda>line. case ini_text I line of None \<Rightarrow> False | Some sv \<Rightarrow> hd sv = 91 \<and> wanted sv) (rest F cont b)"
  shows "\<exists>b'. find_section_loop k I F wanted b = Inr (map_option (\<lambda>_. FileBuffer_tellg F b') R, b')
    \<and> reading F good cont b' \<and> view cont b' = view cont b \<and> length (fb_data b') = length (fb_data b)
    \<and> rest F cont b' = (case R of None \<Rightarrow> [] | Some R' \<Rightarrow> R')"
  using assms
proof (induction k arbitrary: b R)
  case (Suc k)
  let ?w = "takeWhile (\<lambda>x. x \<noteq> 10) (rest F cont b)"
  from line_read [OF Suc.prems(1,3) refl] obtain b1 where
    g: "ini_get_line I F b = Inr (if rest F cont b = [] then None else Some ?w, b1)"
    and b1: "reading F good cont b1" "view cont b1 = view cont b" "length (fb_data b1) = length (fb_data b)"
      "rest F cont b1 = drop (Suc (length ?w)) (rest F cont b)"
    by (elim exE conjE) (rule that, assumption+)
  show ?case
  proof (cases "rest F cont b = []")
    case True
    then show ?thesis using g b1 Suc.prems(4) by (intro exI [of _ b1]) (simp add: below_line.simps)
  next
    case False
    let ?P = "\<lambda>line. case ini_text I line of None \<Rightarrow> False | Some sv \<Rightarrow> hd sv = 91 \<and> wanted sv"
    have fl: "file_lines (rest F cont b) = ?w # file_lines (rest F cont b1)"
      using False by (subst file_lines.simps) (simp add: b1(4))
    have R: "R = (if ?P ?w then Some (rest F cont b1) else below_line ?P (rest F cont b1))"
      using False unfolding Suc.prems(4) b1(4) by (subst below_line.simps) (simp add: Let_def)
    have "length (rest F cont b1) < k" using Suc.prems(2) False by (cases "rest F cont b") (auto simp: b1(4))
    moreover have "\<forall>line\<in>set (file_lines (rest F cont b1)). holds_line (ini_string I) line" using Suc.prems(3) fl by simp
    ultimately have IH: "\<exists>b'. find_section_loop k I F wanted b1 =
          Inr (map_option (\<lambda>_. FileBuffer_tellg F b') (below_line ?P (rest F cont b1)), b')
        \<and> reading F good cont b' \<and> view cont b' = view cont b \<and> length (fb_data b') = length (fb_data b)
        \<and> rest F cont b' = (case below_line ?P (rest F cont b1) of None \<Rightarrow> [] | Some R' \<Rightarrow> R')"
      using Suc.IH [OF b1(1) _ _ refl] unfolding b1(2,3) by blast
    show ?thesis
    proof (cases "?P ?w")
      case True
      then show ?thesis using g False R b1 by (intro exI [of _ b1]) (auto split: option.splits)
    next
      case no: False
      then have "find_section_loop (Suc k) I F wanted b = find_section_loop k I F wanted b1"
        using g False by (auto split: option.splits)
      then show ?thesis using IH R no by simp
    qed
  qed
qed simp

lemma find_section_ok:
  assumes "rewindable F good cont b" "\<forall>line\<in>set (file_lines (view cont b)). holds_line (ini_string I) line"
    "R = below_line (is_section I sec) (view cont b)"
  shows "\<exists>b'. find_section I F b sec = Inr (map_option (\<lambda>_. FileBuffer_tellg F b') R, b')
    \<and> reading F good cont b' \<and> view cont b' = view cont b \<and> length (fb_data b') = length (fb_data b)
    \<and> rest F cont b' = (case R of None \<Rightarrow> [] | Some R' \<Rightarrow> R')"
proof -
  from rewind_ok [OF assms(1)] obtain b1 where
    b1: "FileBuffer_seek F b 0 = Inr (True, b1)" "reading F good cont b1" "view cont b1 = view cont b"
      "rest F cont b1 = view cont b" "length (fb_data b1) = length (fb_data b)" by blast
  have "fb_ok good cont b1" using b1(2) by (simp add: reading_def)
  then have k: "length (rest F cont b1) < Suc (Suc (FileBuffer_file_size F b1))" using file_size_eq by (simp add: rest_def)
  have R: "R = below_line (\<lambda>line. case ini_text I line of None \<Rightarrow> False
      | Some sv \<Rightarrow> hd sv = 91 \<and> get_section_name I sv = sec) (rest F cont b1)"
    unfolding assms(3) b1(4) is_section_def ..
  from find_loop_ok [OF b1(2) k _ R] assms(2) b1 show ?thesis by (simp add: find_section_def)
qed

end

end
