(* ===== verification/IniWrites.thy ===== *)
theory IniWrites
  imports IniSpec InlineFile
begin

text \<open>
  What writing to an ini file does to its bytes: a new section and its first key go to the end of
  the file, and what is inserted moves the bytes behind it, as long as those fit the buffers.
\<close>

section \<open>The text of a new section\<close>

text \<open>An empty line before the section, and the line feed that the last line may lack.\<close>

definition section_text :: "byte list \<Rightarrow> byte list \<Rightarrow> byte list" where
  "section_text V sec =
     (if V = [] then [] else if last V = 10 then [10] else [10, 10]) @ [91] @ sec @ [93, 10]"

definition key_text :: "ini_config \<Rightarrow> byte list \<Rightarrow> byte list \<Rightarrow> byte list \<Rightarrow> byte list" where
  "key_text I key v comment =
     (if comment = [] then [] else concat (comment_pieces (fmt_c I (hd (comment_signs I))) comment))
     @ concat (key_pieces key v)"

definition new_entry :: "ini_config \<Rightarrow> byte list \<Rightarrow> byte list \<Rightarrow> byte list \<Rightarrow> byte list \<Rightarrow> byte list \<Rightarrow> byte list" where
  "new_entry I V sec key v comment = section_text V sec @ key_text I key v comment"

text \<open>The strings that are written are not empty and shorter than the buffer.\<close>

definition fits :: "nat \<Rightarrow> byte list \<Rightarrow> bool" where
  "fits n d \<longleftrightarrow> d \<noteq> [] \<and> length d < n"

section \<open>Writing at the end\<close>

context bounded_file
begin

lemma savable_bound: "fb_ok good cont b \<Longrightarrow> length (view cont b) \<le> N \<Longrightarrow> savable (\<lambda>_ p n. p + n \<le> N) b"
  using length_view [of good cont b] by (auto simp: savable_def)

lemma append_ok:
  assumes "appending F good cont b" "fits (length (fb_data b)) d" "length (view cont b) \<le> N"
  shows "\<exists>b'. ini_put F b d = Inr (True, b') \<and> appending F good cont b' \<and> view cont b' = view cont b @ d
    \<and> length (fb_data b') = length (fb_data b) \<and> fb_modified b'"
proof -
  have ok: "fb_ok good cont b" "FileBuffer_tellg F b = length (view cont b)" "fb_pos b < length (fb_data b)"
    using assms(1) by (simp_all add: appending_def)
  have d: "d \<noteq> []" "length d < length (fb_data b)" using assms(2) by (simp_all add: fits_def)
  have pos: "fb_len b \<le> fb_pos b"
    using length_view [OF ok(1)] tellg_eq(1) [OF ok(1)] ok(1,2) by (auto simp: fb_ok_def split: if_splits)
  then have "fb_modified b \<longrightarrow> fb_len b \<le> fb_pos b + length d" by simp
  from buffer_write_ok [OF ok(1) savable_bound [OF ok(1) assms(3)] d(1) _ ok(3) this] d(2) obtain b' where
    w: "FileBuffer_write F b d = Inr (length d, b')" and b': "fb_ok good cont b'" "fb_modified b'"
      "view cont b' = overlay (view cont b) (FileBuffer_tellg F b) d"
      "FileBuffer_tellg F b' = FileBuffer_tellg F b + length d" "length (fb_data b') = length (fb_data b)"
    and p: "fb_pos b' < length (fb_data b) \<or> fb_pos b + length d \<le> fb_len b \<or> length d = length (fb_data b)"
    by (auto simp: less_imp_le)
  have "view cont b' = view cont b @ d" using b'(3) ok(2) by (simp add: overlay_def)
  moreover have "fb_pos b' < length (fb_data b')" using p pos d b'(5) by (cases d) auto
  ultimately show ?thesis using w b' ok(2) by (intro exI [of _ b']) (simp add: ini_put_def appending_def)
qed

lemma append_all_ok:
  assumes "appending F good cont b" "\<forall>d\<in>set ds. fits (length (fb_data b)) d"
    "length (view cont b) + length (concat ds) \<le> N"
  shows "\<exists>b'. ini_put_all F b ds = Inr (True, b') \<and> appending F good cont b' \<and> view cont b' = view cont b @ concat ds
    \<and> length (fb_data b') = length (fb_data b) \<and> (ds \<noteq> [] \<longrightarrow> fb_modified b')"
  using assms
proof (induction ds arbitrary: b)
  case (Cons d ds)
  have "fits (length (fb_data b)) d" "length (view cont b) \<le> N" using Cons.prems by simp_all
  from append_ok [OF Cons.prems(1) this] obtain b1 where
    b1: "ini_put F b d = Inr (True, b1)" "appending F good cont b1" "view cont b1 = view cont b @ d"
      "length (fb_data b1) = length (fb_data b)" "fb_modified b1" by blast
  have "\<forall>d\<in>set ds. fits (length (fb_data b1)) d" "length (view cont b1) + length (concat ds) \<le> N"
    using Cons.prems b1 by simp_all
  from Cons.IH [OF b1(2) this] obtain b2 where
    "ini_put_all F b1 ds = Inr (True, b2)" "appending F good cont b2" "view cont b2 = view cont b1 @ concat ds"
      "length (fb_data b2) = length (fb_data b1)" "ds \<noteq> [] \<longrightarrow> fb_modified b2" by blast
  then show ?case using b1 by (cases ds) auto
qed simp

lemma last_byte_ok:
  assumes "reading F good cont b" "FileBuffer_tellg F b = length (view cont b)" "view cont b \<noteq> []"
    "length (view cont b) < length (fb_data b)"
  shows "\<exists>b1 b'. FileBuffer_seek F b (length (view cont b) - 1) = Inr (True, b1)
    \<and> get_char F b1 = Inr (Some (last (view cont b)), b') \<and> appending F good cont b' \<and> view cont b' = view cont b
    \<and> length (fb_data b') = length (fb_data b)"
proof -
  let ?V = "view cont b"
  have ok: "fb_ok good cont b" "\<not> fb_modified b" using assms(1) by (simp_all add: reading_def)
  have "fb_len b \<noteq> 0 \<Longrightarrow> fb_start b + fb_len b = length ?V"
    using tellg_eq(1) [OF ok(1)] length_view [OF ok(1)] ok assms(2) by (auto simp: fb_ok_def)
  then have "fb_len b \<noteq> 0 \<and> (length ?V - 1 < fb_start b \<or> fb_start b + fb_len b \<le> length ?V - 1)
      \<and> fi_tellg F (fb_file b) = length ?V - 1 \<longrightarrow> length ?V - 1 = fb_start b + fb_pos b"
    using assms(3) by (cases "fb_len b") auto
  from buffer_seek_ok [OF ok _ this] obtain b1 where
    b1: "FileBuffer_seek F b (length ?V - 1) = Inr (True, b1)" "fb_ok good cont b1" "\<not> fb_modified b1"
      "view cont b1 = ?V" "FileBuffer_tellg F b1 = length ?V - 1" "length (fb_data b1) = length (fb_data b)"
    by auto
  have "savable (\<lambda>_ p n. p + n \<le> N) b1" using b1(3) by (simp add: savable_def)
  moreover have "1 \<le> length (fb_data b1)" "0 < length (fb_data b1)" using b1(6) assms(4) by linarith+
  ultimately obtain b' where
    r: "read_view F b1 1 = Inr (take 1 (drop (length ?V - 1) ?V), b')"
    and b': "fb_ok good cont b'" "view cont b' = ?V" "length (fb_data b') = length (fb_data b)"
      "FileBuffer_tellg F b' = length ?V - 1 + min 1 (length ?V - (length ?V - 1))" "fb_modified b' \<longrightarrow> fb_modified b1"
    using read_view_ok [OF b1(2), of 1] unfolding b1(4-6) by blast
  have "take 1 (drop (length ?V - 1) ?V) = [last ?V]" using assms(3) by (cases ?V rule: rev_cases) simp_all
  moreover have "FileBuffer_tellg F b' = length ?V" using b'(4) assms(3) by (cases ?V) simp_all
  moreover have "fb_pos b' < length (fb_data b')"
    using b' b1(3) length_view [OF b'(1)] assms(4) by (auto simp: fb_ok_def)
  ultimately show ?thesis using b1(1) r b' by (auto simp: get_char_def appending_def)
qed

lemma append_section_ok:
  assumes "reading F good cont b" "FileBuffer_tellg F b = length (view cont b)"
    "length (view cont b) < length (fb_data b)" "fits (length (fb_data b)) sec" "2 < length (fb_data b)"
    "length (view cont b @ section_text (view cont b) sec) \<le> N"
  shows "\<exists>b'. append_section F b sec = Inr (True, b') \<and> appending F good cont b'
    \<and> view cont b' = view cont b @ section_text (view cont b) sec \<and> length (fb_data b') = length (fb_data b)"
proof -
  let ?V = "view cont b" and ?n = "length (fb_data b)"
  have ok: "fb_ok good cont b" "\<not> fb_modified b" using assms(1) by (simp_all add: reading_def)
  have fit: "fits ?n [10]" "\<forall>d\<in>set [[91], sec, [93, 10]]. fits ?n d" using assms(4,5) by (auto simp: fits_def)
  note size = file_size_eq [OF ok(1)]
  have fin: "\<exists>b'. ini_put_all F b1 [[91], sec, [93, 10]] = Inr (True, b') \<and> appending F good cont b'
      \<and> view cont b' = W @ [91] @ sec @ [93, 10] \<and> length (fb_data b') = ?n"
    if "appending F good cont b1" "view cont b1 = W" "length (fb_data b1) = ?n" "length W + length sec + 3 \<le> N" for b1 W
    using append_all_ok [OF that(1), of "[[91], sec, [93, 10]]"] fit(2) that(2-4) by auto
  show ?thesis
  proof (cases "?V = []")
    case True
    have "fb_len b = 0" using ok True by (auto simp: fb_ok_def view_def)
    then have "appending F good cont b" using ok assms(2,5) by (auto simp: appending_def fb_ok_def)
    moreover have "append_section F b sec = ini_put_all F b [[91], sec, [93, 10]]"
      using True size assms(2) by (simp add: append_section_def)
    ultimately show ?thesis using fin [of b "[]"] True assms(6) by (simp add: section_text_def)
  next
    case False
    from last_byte_ok [OF assms(1,2) False assms(3)] obtain b1 b2 where
      b2: "FileBuffer_seek F b (length ?V - 1) = Inr (True, b1)" "get_char F b1 = Inr (Some (last ?V), b2)"
        "appending F good cont b2" "view cont b2 = ?V" "length (fb_data b2) = ?n" by blast
    have lN: "length ?V + 3 + length sec < N" "last ?V \<noteq> 10 \<longrightarrow> length ?V + 4 + length sec < N"
      using assms(6) False by (simp_all add: section_text_def split: if_splits)
    have len: "length ?V < 2 ^ 62" using size_bound [of "fb_file b"] ok by (simp add: fb_ok_def view_def)
    have sub: "sub64 (length ?V) 1 = length ?V - 1" "FileBuffer_file_size F b = length ?V"
      using len sub64_small [of 1 "length ?V"] False size assms(2) by (simp_all add: Suc_le_eq)
    define W where "W = (if last ?V = 10 then ?V else ?V @ [10])"
    have "\<exists>b3. (if last ?V \<noteq> 10 then ini_put F b2 [10] else Inr (True, b2)) = Inr (True, b3)
        \<and> appending F good cont b3 \<and> view cont b3 = W \<and> length (fb_data b3) = ?n"
      using append_ok [OF b2(3), of "[10]"] fit(1) b2 lN unfolding W_def by (cases "last ?V = 10") auto
    then obtain b3 where b3: "(if last ?V \<noteq> 10 then ini_put F b2 [10] else Inr (True, b2)) = Inr (True, b3)"
        "appending F good cont b3" "view cont b3 = W" "length (fb_data b3) = ?n" by blast
    have lW: "length W + 3 + length sec < N" "W \<noteq> []" using lN False by (auto simp: W_def)
    from append_ok [OF b3(2), of "[10]"] fit(1) b3(3,4) lW(1) obtain b4 where
      b4: "ini_put F b3 [10] = Inr (True, b4)" "appending F good cont b4" "view cont b4 = W @ [10]"
        "length (fb_data b4) = ?n" by auto
    have "FileBuffer_tellg F b3 > 0" using b3(2,3) lW(2) by (simp add: appending_def)
    then have "append_section F b sec = ini_put_all F b4 [[91], sec, [93, 10]]"
      using b2(1,2) b3(1) b4(1) sub False by (auto simp: append_section_def split: if_splits)
    moreover have "W @ [10] @ [91] @ sec @ [93, 10] = ?V @ section_text ?V sec"
      using False by (simp add: W_def section_text_def)
    ultimately show ?thesis using fin [OF b4(2,3,4)] lW(1) by simp
  qed
qed

lemma append_key_ok:
  assumes "appending F good cont b" "fits (length (fb_data b)) key" "fits (length (fb_data b)) v" "3 < length (fb_data b)"
    "comment \<noteq> [] \<longrightarrow> comment_signs I \<noteq> [] \<and> fits (length (fb_data b)) comment
       \<and> fits (length (fb_data b)) (fmt_c I (hd (comment_signs I)))"
    "length (view cont b @ key_text I key v comment) \<le> N"
  shows "\<exists>b'. append_key I F b key v comment = Inr (True, b') \<and> appending F good cont b'
    \<and> view cont b' = view cont b @ key_text I key v comment \<and> length (fb_data b') = length (fb_data b) \<and> fb_modified b'"
proof -
  let ?n = "length (fb_data b)"
  have fin: "\<exists>b'. ini_put_all F b1 (key_pieces key v) = Inr (True, b') \<and> appending F good cont b'
      \<and> view cont b' = view cont b1 @ concat (key_pieces key v) \<and> length (fb_data b') = ?n \<and> fb_modified b'"
    if "appending F good cont b1" "length (fb_data b1) = ?n" "length (view cont b1 @ concat (key_pieces key v)) \<le> N" for b1
  proof -
    have "\<forall>d\<in>set (key_pieces key v). fits (length (fb_data b1)) d" using assms(2-4) that(2) by (auto simp: key_pieces_def fits_def)
    from append_all_ok [OF that(1) this] that(2,3) show ?thesis by (auto simp: key_pieces_def)
  qed
  show ?thesis
  proof (cases "comment = []")
    case True
    then show ?thesis using fin [OF assms(1)] assms(6) by (simp add: append_key_def key_text_def)
  next
    case False
    let ?cs = "fmt_c I (hd (comment_signs I))"
    have cs: "get_comment_sign I = Inr ?cs" using False assms(5) by (cases "comment_signs I") (simp_all add: get_comment_sign_def)
    have "\<forall>d\<in>set (comment_pieces ?cs comment). fits ?n d" using False assms(4,5) by (auto simp: comment_pieces_def fits_def)
    from append_all_ok [OF assms(1) this] assms(6) False obtain b1 where
      b1: "ini_put_all F b (comment_pieces ?cs comment) = Inr (True, b1)" "appending F good cont b1"
        "view cont b1 = view cont b @ concat (comment_pieces ?cs comment)" "length (fb_data b1) = ?n"
      by (auto simp: key_text_def)
    then have "append_key I F b key v comment = ini_put_all F b1 (key_pieces key v)"
      using cs False by (simp add: append_key_def)
    then show ?thesis using fin [OF b1(2,4)] b1(3) assms(6) False by (simp add: key_text_def)
  qed
qed

lemma flush_rewindable:
  assumes "fb_ok good cont b" "fb_modified b" "length (view cont b) \<le> N" "length (view cont b) \<noteq> 1"
  shows "\<exists>b'. flush_buffer F b = Inr (True, b') \<and> rewindable F good cont b' \<and> view cont b' = view cont b
    \<and> cont (fb_file b') = view cont b \<and> length (fb_data b') = length (fb_data b)"
proof -
  from flush_buffer_ok [OF assms(1) savable_bound [OF assms(1,3)]] assms(2) obtain fl where
    fl: "flush_buffer F b = Inr (True, b\<lparr>fb_file := fl, fb_modified := False\<rparr>)" "good fl" "cont fl = view cont b"
      "fi_tellg F fl = fb_start b + fb_len b" by auto
  have len: "fb_len b \<noteq> 0" "fb_len b \<le> length (fb_data b)" using assms(1,2) by (auto simp: fb_ok_def)
  have "buffered b = slice (fb_start b) (fb_len b) (view cont b)"
    using view_piece [OF assms(1), of 0 "fb_len b"] len by (simp add: buffered_def slice_def)
  moreover have "fb_start b + fb_len b \<le> length (view cont b)" using length_view [OF assms(1)] assms(2) by simp
  ultimately have "fb_ok good cont (b\<lparr>fb_file := fl, fb_modified := False\<rparr>)"
    using assms(1) fl(2,3) by (simp add: fb_ok_def buffered_def)
  moreover have "fb_data b \<noteq> []" using len by auto
  ultimately show ?thesis using fl len assms(4)
    by (intro exI [of _ "b\<lparr>fb_file := fl, fb_modified := False\<rparr>"]) (simp add: rewindable_def view_def anchored_def)
qed

end

section \<open>Reading what was written\<close>

text \<open>The strings of the library append up to their capacity.\<close>

definition appends :: "ini_config \<Rightarrow> nat \<Rightarrow> bool" where
  "appends I n \<longleftrightarrow> (\<forall>s x. length s + length x \<le> n \<longrightarrow> append_to I n s x = Inr (s @ x))"

text \<open>
  What is documented of the library functions: stripping removes the characters of a set from both
  ends, and \<open>%c\<close> prints a character.
\<close>

definition strips :: "(byte list \<Rightarrow> byte list) \<Rightarrow> byte set \<Rightarrow> bool" where
  "strips f W \<longleftrightarrow> (\<forall>u w v. set u \<subseteq> W \<and> set v \<subseteq> W \<and> (w \<noteq> [] \<longrightarrow> hd w \<notin> W \<and> last w \<notin> W) \<longrightarrow> f (u @ w @ v) = w)"

definition ini_library :: "ini_config \<Rightarrow> byte set \<Rightarrow> bool" where
  "ini_library I W \<longleftrightarrow> strips (strip_ws I) W \<and> (\<forall>cs. strips (strip_chars I cs) (set cs)) \<and> (\<forall>c. fmt_c I c = [c])
     \<and> 9 \<in> W \<and> 32 \<in> W \<and> 61 \<notin> W \<and> 91 \<notin> W \<and> 93 \<notin> W
     \<and> comment_signs I \<noteq> [] \<and> 9 \<notin> set (comment_signs I) \<and> 91 \<notin> set (comment_signs I)
     \<and> 10 \<notin> set (comment_signs I)"

text \<open>The strings that can be told apart from the text around them.\<close>

definition clean :: "byte set \<Rightarrow> byte list \<Rightarrow> bool" where
  "clean W w \<longleftrightarrow> w \<noteq> [] \<and> 10 \<notin> set w \<and> hd w \<notin> W \<and> last w \<notin> W"

definition clean_entry :: "byte set \<Rightarrow> byte list \<Rightarrow> byte list \<Rightarrow> byte list \<Rightarrow> byte list \<Rightarrow> bool" where
  "clean_entry W sec key v comment \<longleftrightarrow> clean W sec \<and> clean {91, 93} sec \<and> clean W key \<and> 61 \<notin> set key \<and> hd key \<noteq> 91
     \<and> clean W v \<and> 10 \<notin> set comment"

lemma stripsD: "strips f W \<Longrightarrow> set u \<subseteq> W \<Longrightarrow> set v \<subseteq> W \<Longrightarrow> (w \<noteq> [] \<longrightarrow> hd w \<notin> W \<and> last w \<notin> W) \<Longrightarrow> f (u @ w @ v) = w"
  by (simp add: strips_def)

lemma strips_same: "strips f W \<Longrightarrow> hd w \<notin> W \<Longrightarrow> last w \<notin> W \<Longrightarrow> f w = w"
  using stripsD [of f W "[]" "[]" w] by simp

lemma section_line:
  assumes "ini_library I W" "clean_entry W sec key v comment"
  shows "ini_text I ([91] @ sec @ [93]) = Some ([91] @ sec @ [93])" "get_section_name I ([91] @ sec @ [93]) = sec"
proof -
  have st: "strips (strip_ws I) W" "strips (strip_chars I [91, 93]) {91, 93}" "91 \<notin> W" "93 \<notin> W"
    "91 \<notin> set (comment_signs I)"
    using assms(1) by (auto simp: ini_library_def dest: spec [of _ "[91, 93]"])
  have sec: "hd sec \<notin> W" "last sec \<notin> W" "hd sec \<notin> {91, 93}" "last sec \<notin> {91, 93}"
    using assms(2) by (simp_all add: clean_entry_def clean_def)
  show "ini_text I ([91] @ sec @ [93]) = Some ([91] @ sec @ [93])"
    using strips_same [OF st(1), of "[91] @ sec @ [93]"] st(3-5) by (simp add: ini_text_def is_comment_def)
  show "get_section_name I ([91] @ sec @ [93]) = sec"
    using stripsD [OF st(2), of "[91]" "[93]" sec] strips_same [OF st(1) sec(1,2)] sec(3,4)
    by (simp add: get_section_name_def)
qed

lemma key_line:
  assumes "ini_library I W" "clean_entry W sec key v comment"
  shows "ini_text I ([9] @ key @ [32, 61, 32] @ v) = Some (key @ [32, 61, 32] @ v)"
    "get_key_value I (key @ [32, 61, 32] @ v) = (key, v)"
proof -
  have st: "strips (strip_ws I) W" "9 \<in> W" "32 \<in> W" "9 \<notin> set (comment_signs I)"
    using assms(1) by (simp_all add: ini_library_def)
  have k: "key \<noteq> []" "hd key \<notin> W" "last key \<notin> W" "v \<noteq> []" "hd v \<notin> W" "last v \<notin> W" "61 \<notin> set key"
    using assms(2) by (simp_all add: clean_entry_def clean_def)
  show "ini_text I ([9] @ key @ [32, 61, 32] @ v) = Some (key @ [32, 61, 32] @ v)"
    using stripsD [OF st(1), of "[9]" "[]" "key @ [32, 61, 32] @ v"] st(2,4) k by (simp add: ini_text_def is_comment_def)
  have tw: "takeWhile (\<lambda>x. x \<noteq> 61) (key @ [32, 61, 32] @ v) = key @ [32]"
    using k(7) by (subst takeWhile_append2) auto
  have "strip_ws I (key @ [32]) = key" using stripsD [OF st(1), of "[]" "[32]" key] st(3) k by simp
  moreover have "strip_ws I (32 # v) = v" using stripsD [OF st(1), of "[32]" "[]" v] st(3) k by simp
  ultimately show "get_key_value I (key @ [32, 61, 32] @ v) = (key, v)"
    unfolding get_key_value_def tw by simp
qed

lemma lookup_key_text:
  assumes "ini_library I W" "clean_entry W sec key v comment"
  shows "lookup_lines I sec key True (file_lines (key_text I key v comment)) = Some v"
proof -
  have sg: "fmt_c I c = [c]" "comment_signs I \<noteq> []" "10 \<notin> set (comment_signs I)" for c
    using assms(1) by (simp_all add: ini_library_def)
  have e: "10 \<notin> set key" "10 \<notin> set v" "10 \<notin> set comment" "hd key \<noteq> 91" "key \<noteq> []"
    using assms(2) by (simp_all add: clean_entry_def clean_def)
  have "concat (key_pieces key v) = ([9] @ key @ [32, 61, 32] @ v) @ 10 # []" by (simp add: key_pieces_def)
  moreover have "10 \<notin> set ([9] @ key @ [32, 61, 32] @ v)" using e by simp
  ultimately have fl: "file_lines (concat (key_pieces key v)) = [[9] @ key @ [32, 61, 32] @ v]"
    using file_lines_line by (metis file_lines_Nil)
  have k: "lookup_lines I sec key True [[9] @ key @ [32, 61, 32] @ v] = Some v"
    using key_line [OF assms] e(4,5) by simp
  show ?thesis
  proof (cases "comment = []")
    case True
    then show ?thesis using fl k by (simp add: key_text_def)
  next
    case False
    let ?c = "hd (comment_signs I)"
    have c: "?c \<in> set (comment_signs I)" "?c \<noteq> 10" using sg(2,3) by (cases "comment_signs I"; auto)+
    have "key_text I key v comment = ([?c] @ [9] @ comment) @ 10 # concat (key_pieces key v)"
      using False sg(1) by (simp add: key_text_def comment_pieces_def)
    moreover have "10 \<notin> set ([?c] @ [9] @ comment)" using e c by auto
    ultimately have "file_lines (key_text I key v comment) = ([?c] @ [9] @ comment) # [[9] @ key @ [32, 61, 32] @ v]"
      using fl file_lines_line by metis
    moreover have "ini_text I ([?c] @ [9] @ comment) = None" using c(1) by (simp add: ini_text_def is_comment_def)
    ultimately show ?thesis using k by simp
  qed
qed

lemma lookup_new_entry:
  assumes "ini_library I W" "clean_entry W sec key v comment" "\<forall>line\<in>set (file_lines V). \<not> is_section I sec line"
  shows "lookup_lines I sec key False (file_lines (V @ new_entry I V sec key v comment)) = Some v"
proof -
  let ?K = "key_text I key v comment"
  let ?S = "([91] @ sec @ [93]) @ 10 # ?K"
  have e: "10 \<notin> set ([91] @ sec @ [93])" using assms(2) by (simp add: clean_entry_def clean_def)
  have S: "lookup_lines I sec key False (file_lines ?S) = Some v"
    unfolding file_lines_line [OF e] using section_line [OF assms(1,2)] lookup_key_text [OF assms(1,2)] by simp
  have empty: "lookup_lines I sec key False ([] # ls) = lookup_lines I sec key False ls" for ls
    by (simp add: ini_text_def)
  have nl: "file_lines (10 # R) = [] # file_lines R" for R using file_lines_line [of "[]" R] by simp
  consider "V = []" | "V \<noteq> []" "last V = 10" | "V \<noteq> []" "last V \<noteq> 10" by blast
  then show ?thesis
  proof cases
    case 1
    then show ?thesis using S by (simp add: new_entry_def section_text_def)
  next
    case 2
    then have "V @ new_entry I V sec key v comment = V @ 10 # ?S" by (simp add: new_entry_def section_text_def)
    moreover have "file_lines (V @ 10 # ?S) = file_lines V @ [] # file_lines ?S"
      using file_lines_append [of V "10 # ?S"] 2 nl by simp
    ultimately show ?thesis using lookup_elsewhere [OF assms(3)] S empty by metis
  next
    case 3
    then have "V @ new_entry I V sec key v comment = V @ 10 # 10 # ?S" by (simp add: new_entry_def section_text_def)
    moreover have "file_lines (V @ 10 # 10 # ?S) = file_lines V @ [] # file_lines ?S"
      using file_lines_open [of V "10 # ?S"] 3 nl by simp
    ultimately show ?thesis using lookup_elsewhere [OF assms(3)] S empty by metis
  qed
qed

text \<open>
  An entry that can be appended: there is no such section yet, its strings and the old file are
  shorter than the buffer, and the new file is not larger than the file may grow.
\<close>

definition appendable :: "nat \<Rightarrow> nat \<Rightarrow> ini_config \<Rightarrow> byte set \<Rightarrow> byte list \<Rightarrow> byte list \<Rightarrow> byte list \<Rightarrow> byte list \<Rightarrow>
    byte list \<Rightarrow> bool" where
  "appendable n N I W V sec key v comment \<longleftrightarrow> ini_library I W \<and> clean_entry W sec key v comment
     \<and> (\<forall>line\<in>set (file_lines V). \<not> is_section I sec line)
     \<and> (\<forall>line\<in>set (file_lines (V @ new_entry I V sec key v comment)). holds_line (ini_string I) line)
     \<and> length V < n \<and> 3 < n \<and> length sec < n \<and> length key < n \<and> length v < n \<and> length comment < n
     \<and> length (V @ new_entry I V sec key v comment) \<le> N"

lemma file_lines_new_entry:
  "set (file_lines V) \<subseteq> set (file_lines (V @ new_entry I V sec key v comment))"
proof -
  obtain S where "new_entry I V sec key v comment = (if V = [] then S else if last V = 10 then 10 # S else 10 # 10 # S)"
    by (simp add: new_entry_def section_text_def)
  then show ?thesis by (auto simp: file_lines_append file_lines_open split: if_splits)
qed

context bounded_file
begin

lemma write_new_section_ok:
  assumes "rewindable F good cont b" "appendable (length (fb_data b)) N I W (view cont b) sec key v comment"
  shows "\<exists>b'. ini_write I F b sec key v comment = Inr (True, b') \<and> fb_ok good cont b' \<and> fb_modified b'
    \<and> view cont b' = view cont b @ new_entry I (view cont b) sec key v comment \<and> length (fb_data b') = length (fb_data b)"
proof -
  let ?V = "view cont b" and ?n = "length (fb_data b)"
  have lib: "ini_library I W" "clean_entry W sec key v comment"
    and lines: "\<forall>line\<in>set (file_lines ?V). \<not> is_section I sec line" "\<forall>line\<in>set (file_lines ?V). holds_line (ini_string I) line"
    and n: "length ?V < ?n" "3 < ?n" "length sec < ?n" "length key < ?n" "length v < ?n" "length comment < ?n"
    and N: "length (?V @ new_entry I ?V sec key v comment) \<le> N"
    using assms(2) file_lines_new_entry [of ?V I sec key v comment] by (auto simp: appendable_def)
  from find_section_ok [OF assms(1) lines(2) refl, of sec] below_line_None [OF lines(1)] obtain b1 where
    b1: "find_section I F b sec = Inr (None, b1)" "reading F good cont b1" "view cont b1 = ?V"
      "length (fb_data b1) = ?n" "rest F cont b1 = []" by auto
  have "FileBuffer_tellg F b1 = length ?V" using rest_empty [of b1] b1(2,3,5) by (simp add: reading_def)
  moreover have fit: "fits ?n sec" "fits ?n key" "fits ?n v"
    using lib(2) n by (auto simp: fits_def clean_entry_def clean_def)
  ultimately obtain b2 where
    b2: "append_section F b1 sec = Inr (True, b2)" "appending F good cont b2"
      "view cont b2 = ?V @ section_text ?V sec" "length (fb_data b2) = ?n"
    using append_section_ok [OF b1(2), of sec] n N b1(3,4) by (auto simp: new_entry_def)
  have "comment \<noteq> [] \<longrightarrow> comment_signs I \<noteq> [] \<and> fits ?n comment \<and> fits ?n (fmt_c I (hd (comment_signs I)))"
    using lib(1) n by (auto simp: ini_library_def fits_def)
  then obtain b3 where
    b3: "append_key I F b2 key v comment = Inr (True, b3)" "appending F good cont b3" "fb_modified b3"
      "view cont b3 = view cont b2 @ key_text I key v comment" "length (fb_data b3) = ?n"
    using append_key_ok [OF b2(2), of key v comment I] fit n(2) N b2(3,4) by (auto simp: new_entry_def)
  have "ini_write I F b sec key v comment = Inr (True, b3)" using b1(1) b2(1) b3(1) by (simp add: ini_write_def)
  then show ?thesis using b2(3) b3 by (simp add: new_entry_def appending_def)
qed

lemma read_new_section_ok:
  assumes "rewindable F good cont b" "appendable (length (fb_data b)) N I W (view cont b) sec key v comment"
    "V' = view cont b @ new_entry I (view cont b) sec key v comment"
  shows "\<exists>b1 b2 b3. ini_write I F b sec key v comment = Inr (True, b1) \<and> view cont b1 = V'
    \<and> flush_buffer F b1 = Inr (True, b2) \<and> cont (fb_file b2) = V' \<and> ini_read I F b2 sec key = Inr (Some v, b3)"
proof -
  from write_new_section_ok [OF assms(1,2)] obtain b1 where
    b1: "ini_write I F b sec key v comment = Inr (True, b1)" "fb_ok good cont b1" "fb_modified b1" "view cont b1 = V'"
    unfolding assms(3) by blast
  have "length V' \<le> N" and lib: "ini_library I W" "clean_entry W sec key v comment"
    and lines: "\<forall>line\<in>set (file_lines (view cont b)). \<not> is_section I sec line"
      "\<forall>line\<in>set (file_lines V'). holds_line (ini_string I) line"
    using assms(2) unfolding assms(3) by (simp_all add: appendable_def)
  moreover have "length V' \<noteq> 1" unfolding assms(3) by (simp add: new_entry_def key_text_def key_pieces_def)
  ultimately obtain b2 where
    b2: "flush_buffer F b1 = Inr (True, b2)" "rewindable F good cont b2" "view cont b2 = V'" "cont (fb_file b2) = V'"
    using flush_rewindable [OF b1(2,3)] b1(4) by auto
  from ini_read_ok [OF b2(2), of I sec key] lines(2) b2(3) obtain b3 where
    "ini_read I F b2 sec key = Inr (lookup_lines I sec key False (file_lines V'), b3)" by auto
  moreover have "lookup_lines I sec key False (file_lines V') = Some v"
    unfolding assms(3) by (rule lookup_new_entry [OF lib lines(1)])
  ultimately show ?thesis using b1 b2 by (intro exI [of _ b1] exI [of _ b2] exI [of _ b3]) simp
qed

end

end
