(* ===== verification/IniInsert.thy ===== *)
theory IniInsert
  imports IniWrites
begin

text \<open>
  \<open>SimpleIniBase::insert\<close>, followed round by round: it moves the bytes behind the place as long as
  they fit one buffer, and copies some of them twice when they do not.
\<close>

text \<open>
  Where a round of the loop starts: the position, and that the bytes in the buffer end there, or
  one byte behind.
\<close>

definition inserting_at :: "'s file_ops \<Rightarrow> ('s \<Rightarrow> bool) \<Rightarrow> ('s \<Rightarrow> byte list) \<Rightarrow> nat \<Rightarrow> 's file_buffer \<Rightarrow> bool" where
  "inserting_at F good cont p b \<longleftrightarrow> fb_ok good cont b \<and> FileBuffer_tellg F b = p
     \<and> (if fb_modified b then fb_pos b = fb_len b
            \<or> Suc (fb_pos b) = fb_len b \<and> fb_start b + fb_len b \<le> length (cont (fb_file b))
        else fb_len b < length (fb_data b) \<or> p < length (view cont b))"

lemma concat_to_eq: "appends I n \<Longrightarrow> length s + length (concat xs) \<le> n \<Longrightarrow> concat_to I n s xs = Inr (s @ concat xs)"
  by (induction xs arbitrary: s) (simp_all add: appends_def)

text \<open>
  What \<open>insert\<close> needs: that \<open>seek\<close> finds the place, in a file that was read or where bytes were just
  written; a line buffer that the file buffer can fill, and values that fit it.
\<close>

definition insertable :: "'s file_ops \<Rightarrow> ('s \<Rightarrow> bool) \<Rightarrow> ('s \<Rightarrow> byte list) \<Rightarrow> ini_config \<Rightarrow> 's file_buffer \<Rightarrow> nat \<Rightarrow>
    byte list list \<Rightarrow> bool" where
  "insertable F good cont I b p values \<longleftrightarrow>
     (if fb_modified b then inserting_at F good cont p b
      else fb_ok good cont b \<and> p \<le> length (view cont b)
        \<and> (fb_len b < length (fb_data b) \<or> p < length (view cont b) \<or> fi_tellg F (fb_file b) \<noteq> p)
        \<and> (fb_len b \<noteq> 0 \<and> (p < fb_start b \<or> fb_start b + fb_len b \<le> p) \<and> fi_tellg F (fb_file b) = p
             \<longrightarrow> p = fb_start b + fb_pos b))
     \<and> 0 < line_buffer_size I mod 2 ^ 32 \<and> line_buffer_size I mod 2 ^ 32 \<le> length (fb_data b)
     \<and> appends I (line_buffer_size I mod 2 ^ 32) \<and> length (concat values) \<le> line_buffer_size I mod 2 ^ 32"

declare insert_round.simps [simp del]

context bounded_file
begin

text \<open>The bytes of a buffer are read, and the position goes back.\<close>

lemma read_back_ok:
  assumes "inserting_at F good cont p b" "n \<le> length (fb_data b)" "0 < n" "length (view cont b) \<le> N"
  shows "\<exists>b1 b2. FileBuffer_read F b n = Inr (take n (drop p (view cont b)), b1) \<and> FileBuffer_seek F b1 p = Inr (True, b2)
    \<and> fb_ok good cont b2 \<and> view cont b2 = view cont b \<and> FileBuffer_tellg F b2 = p \<and> length (fb_data b2) = length (fb_data b)
    \<and> fb_pos b2 < length (fb_data b) \<and> (fb_modified b2 \<longrightarrow> fb_len b2 \<le> Suc (fb_pos b2))"
proof -
  let ?V = "view cont b"
  have ok: "fb_ok good cont b" and t: "FileBuffer_tellg F b = p" using assms(1) by (simp_all add: inserting_at_def)
  have data: "0 < length (fb_data b)" using assms(2,3) by linarith
  have p: "p \<le> length ?V" using tellg_eq(2) [OF ok] t by simp
  from read_view_ok [OF ok savable_bound [OF ok assms(4)] assms(2) data] obtain b1 where
    r: "read_view F b n = Inr (take n (drop p ?V), b1)" and b1: "fb_ok good cont b1" "view cont b1 = ?V"
      "length (fb_data b1) = length (fb_data b)" "FileBuffer_tellg F b1 = p + min n (length ?V - p)"
    and l: "fb_len b1 = 0 \<longrightarrow> p = length ?V" "fb_len b1 \<noteq> 0 \<longrightarrow> fb_start b1 \<le> p" and m: "fb_modified b1 \<longrightarrow> fb_modified b"
      "fb_modified b1 \<longrightarrow> b1 = b\<lparr>fb_pos := fb_pos b1\<rparr>" and e: "p = length ?V \<longrightarrow> fb_len b1 = 0 \<or> fb_len b1 = fb_len b \<and> fb_modified b1 = fb_modified b"
    unfolding t by (elim exE conjE) (rule that, assumption+)
  have rd: "FileBuffer_read F b n = Inr (take n (drop p ?V), b1)" using r assms(2) by (simp add: FileBuffer_read_def)
  have len1: "fb_len b1 \<le> length (fb_data b)" "fb_pos b1 \<le> fb_len b1" using b1(1,3) by (auto simp: fb_ok_def)
  have t1: "fb_len b1 \<noteq> 0 \<Longrightarrow> fb_start b1 + fb_pos b1 = p + min n (length ?V - p)" using tellg_eq(1) [OF b1(1)] b1(4) by simp
  show ?thesis
  proof (cases "fb_modified b1")
    case True
    then have mb: "fb_modified b" "b1 = b\<lparr>fb_pos := fb_pos b1\<rparr>" using m by blast+
    then have same: "fb_start b1 = fb_start b" "fb_len b1 = fb_len b" "fb_file b1 = fb_file b" by (metis file_buffer.select_convs(1,3,4) file_buffer.surjective file_buffer.update_convs(5))+
    have nz: "fb_len b \<noteq> 0" using ok mb(1) by (auto simp: fb_ok_def)
    have pb: "p = fb_start b + fb_pos b" using tellg_eq(1) [OF ok] nz t by simp
    have inv: "fb_pos b = fb_len b \<or> Suc (fb_pos b) = fb_len b \<and> fb_start b + fb_len b \<le> length (cont (fb_file b))"
      using assms(1) mb(1) by (simp add: inserting_at_def)
    have "fb_start b1 \<le> p \<and> p < fb_start b1 + fb_len b1 \<longrightarrow> p \<le> length (cont (fb_file b1))"
      using inv pb same by auto
    from seek_modified_ok [OF b1(1) True savable_bound [OF b1(1)] _ this] assms(4) p b1(2) obtain b2 where
      b2: "FileBuffer_seek F b1 p = Inr (True, b2)" "fb_ok good cont b2" "view cont b2 = ?V" "FileBuffer_tellg F b2 = p"
        "length (fb_data b2) = length (fb_data b1)"
        "if fb_start b1 \<le> p \<and> p < fb_start b1 + fb_len b1
         then fb_modified b2 \<and> fb_pos b2 = p - fb_start b1 \<and> fb_len b2 = fb_len b1 else \<not> fb_modified b2 \<and> fb_len b2 = 0"
      by auto
    have "fb_pos b2 \<le> fb_len b2" using b2(2) by (simp add: fb_ok_def)
    then have "fb_pos b2 < length (fb_data b) \<and> (fb_modified b2 \<longrightarrow> fb_len b2 \<le> Suc (fb_pos b2))"
      using b2(6) inv pb same data len1 by (auto split: if_splits)
    then show ?thesis using rd b2 b1(3) by (intro exI [of _ b1] exI [of _ b2]) simp
  next
    case False
    have here: "fb_len b1 \<noteq> 0 \<and> (p < fb_start b1 \<or> fb_start b1 + fb_len b1 \<le> p) \<and> fi_tellg F (fb_file b1) = p
        \<longrightarrow> p = fb_start b1 + fb_pos b1"
      using l t1 len1(2) by auto
    from buffer_seek_ok [OF b1(1) False _ here] p b1(2) obtain b2 where
      b2: "FileBuffer_seek F b1 p = Inr (True, b2)" "fb_ok good cont b2" "\<not> fb_modified b2" "view cont b2 = ?V"
        "FileBuffer_tellg F b2 = p" "length (fb_data b2) = length (fb_data b1)" "fb_len b2 = 0 \<or> fb_len b2 = fb_len b1 \<and> fb_start b2 = fb_start b1"
      by auto
    have "fb_pos b2 < length (fb_data b)"
    proof (rule ccontr)
      assume "\<not> fb_pos b2 < length (fb_data b)"
      then have full: "fb_len b2 = length (fb_data b)" "fb_pos b2 = fb_len b2" using b2(2,6) b1(3) by (auto simp: fb_ok_def)
      then have b21: "fb_len b1 = length (fb_data b)" "fb_start b2 = fb_start b1" using b2(7) data by auto
      have p2: "p = fb_start b1 + fb_len b1" using tellg_eq(1) [OF b2(2)] b2(5) full b21 data by simp
      have "p = length ?V"
      proof (rule ccontr)
        assume "p \<noteq> length ?V"
        then have "p < fb_start b1 + fb_pos b1" using t1 b21(1) data p assms(3) by simp
        then show False using p2 len1(2) by simp
      qed
      then have "fb_len b = length (fb_data b)" "\<not> fb_modified b" using e b21(1) data False by auto
      then show False using assms(1) \<open>p = length ?V\<close> by (simp add: inserting_at_def)
    qed
    then show ?thesis using rd b2 b1(3) by (intro exI [of _ b1] exI [of _ b2]) simp
  qed
qed

lemma insert_round_ok:
  assumes "inserting_at F good cont p b" "n \<le> length (fb_data b)" "0 < n" "cur \<noteq> []" "length cur \<le> length (fb_data b)"
    "p < sz" "max (p + length cur) (length (view cont b)) \<le> N" "N < 2 ^ 62"
  shows "\<exists>b'. insert_round (Suc k) F n sz p cur b = insert_round k F n sz (p + length cur) (take n (drop p (view cont b))) b'
    \<and> inserting_at F good cont (p + length cur) b' \<and> view cont b' = overlay (view cont b) p cur
    \<and> length (fb_data b') = length (fb_data b)"
proof -
  let ?V = "view cont b"
  have t: "FileBuffer_tellg F b = p" using assms(1) by (simp add: inserting_at_def)
  from read_back_ok [OF assms(1-3)] assms(7) obtain b1 b2 where
    r: "FileBuffer_read F b n = Inr (take n (drop p ?V), b1)" "FileBuffer_seek F b1 p = Inr (True, b2)"
    and b2: "fb_ok good cont b2" "view cont b2 = ?V" "FileBuffer_tellg F b2 = p" "length (fb_data b2) = length (fb_data b)"
      "fb_pos b2 < length (fb_data b)" "fb_modified b2 \<longrightarrow> fb_len b2 \<le> Suc (fb_pos b2)" by auto
  have N: "length (view cont b2) \<le> N" using assms(7) b2(2) by simp
  have c: "length cur \<le> length (fb_data b2)" "fb_pos b2 < length (fb_data b2)" "fb_modified b2 \<longrightarrow> fb_len b2 \<le> fb_pos b2 + length cur"
    using assms(4,5) b2(4-6) by (cases cur; auto)+
  from buffer_write_ok [OF b2(1) savable_bound [OF b2(1) N] assms(4) c] obtain b3 where
    w: "FileBuffer_write F b2 cur = Inr (length cur, b3)" and b3: "fb_ok good cont b3" "fb_modified b3"
      "view cont b3 = overlay ?V p cur" "FileBuffer_tellg F b3 = p + length cur" "length (fb_data b3) = length (fb_data b)"
      "fb_pos b3 = fb_len b3 \<or> Suc (fb_pos b3) = fb_len b3 \<and> fb_start b3 + fb_len b3 \<le> length (cont (fb_file b3))"
    unfolding b2(2-4) by (elim exE conjE) (rule that, assumption+)
  have "add64 p (length cur) = p + length cur" using assms(7,8) by (simp add: add64_small)
  then have "insert_round (Suc k) F n sz p cur b =
      insert_round k F n sz (p + length cur) (take n (drop p ?V)) b3"
    using assms(4,6) t r w by (simp add: insert_round.simps Let_def)
  then show ?thesis using b3 by (intro exI [of _ b3]) (simp add: inserting_at_def)
qed

lemma insert_round_end [simp]: "insert_round (Suc k) F n sz p [] b = Inr (True, b)"
  by (simp add: insert_round.simps)

lemma insert_round_size [simp]: "insert_round (Suc k) F n sz sz cur b = Inr (True, b)"
  by (simp add: insert_round.simps)

lemma inserting_at_pos: "inserting_at F good cont p b \<Longrightarrow> fb_ok good cont b \<and> p \<le> length (view cont b)"
  using tellg_eq(2) [of b] by (auto simp: inserting_at_def)

lemma insertable_pos: "insertable F good cont I b p values \<Longrightarrow> p \<le> length (view cont b)"
  using inserting_at_pos [of p b] by (auto simp: insertable_def split: if_splits)

text \<open>The first seek, without and with unwritten bytes.\<close>

lemma seek_clean_insert:
  assumes "insertable F good cont I b p values" "\<not> fb_modified b"
  shows "\<exists>b'. FileBuffer_seek F b p = Inr (True, b') \<and> inserting_at F good cont p b' \<and> view cont b' = view cont b
    \<and> length (fb_data b') = length (fb_data b)"
proof -
  let ?V = "view cont b"
  have ok: "fb_ok good cont b" "p \<le> length ?V" and data: "0 < length (fb_data b)"
    and room: "fb_len b < length (fb_data b) \<or> p < length ?V \<or> fi_tellg F (fb_file b) \<noteq> p"
    and here: "fb_len b \<noteq> 0 \<and> (p < fb_start b \<or> fb_start b + fb_len b \<le> p) \<and> fi_tellg F (fb_file b) = p
        \<longrightarrow> p = fb_start b + fb_pos b"
    using assms by (auto simp: insertable_def)
  from buffer_seek_ok [OF ok(1) assms(2) ok(2) here] obtain b1 where
    b1: "FileBuffer_seek F b p = Inr (True, b1)" "fb_ok good cont b1" "\<not> fb_modified b1" "view cont b1 = ?V"
      "FileBuffer_tellg F b1 = p" "length (fb_data b1) = length (fb_data b)"
      "fb_len b1 = 0 \<or> fb_len b1 = fb_len b \<and> fb_start b1 = fb_start b"
      "fb_start b + fb_len b \<le> p \<and> fi_tellg F (fb_file b) \<noteq> p \<longrightarrow> fb_len b1 = 0" by blast
  have "fb_start b + fb_len b \<le> length ?V" using length_view [OF ok(1)] ok(1) assms(2) by (simp add: fb_ok_def)
  then have "fb_len b1 < length (fb_data b1) \<or> p < length (view cont b1)"
    using b1(4,6-8) room data by (cases "fb_len b1 = 0") auto
  then show ?thesis using b1 by (intro exI [of _ b1]) (simp add: inserting_at_def)
qed

lemma seek_written_insert:
  assumes "insertable F good cont I b p values" "fb_modified b" "length (view cont b) \<le> N"
  shows "\<exists>b'. FileBuffer_seek F b p = Inr (True, b') \<and> inserting_at F good cont p b' \<and> view cont b' = view cont b
    \<and> length (fb_data b') = length (fb_data b)"
proof -
  have at: "inserting_at F good cont p b" and data: "0 < length (fb_data b)" using assms(1,2) by (auto simp: insertable_def)
  have ok: "fb_ok good cont b" "p \<le> length (view cont b)" using inserting_at_pos [OF at] by blast+
  have t: "p = fb_start b + fb_pos b" using at tellg_eq(1) [OF ok(1)] assms(2) ok(1) by (auto simp: inserting_at_def fb_ok_def)
  have en: "fb_pos b = fb_len b \<or> Suc (fb_pos b) = fb_len b \<and> fb_start b + fb_len b \<le> length (cont (fb_file b))"
    using at assms(2) by (simp add: inserting_at_def)
  have "fb_start b \<le> p \<and> p < fb_start b + fb_len b \<longrightarrow> p \<le> length (cont (fb_file b))" using en t by auto
  from seek_modified_ok [OF ok(1) assms(2) savable_bound [OF ok(1) assms(3)] ok(2) this] obtain b1 where
    b1: "FileBuffer_seek F b p = Inr (True, b1)" "fb_ok good cont b1" "view cont b1 = view cont b"
      "FileBuffer_tellg F b1 = p" "length (fb_data b1) = length (fb_data b)"
      "if fb_start b \<le> p \<and> p < fb_start b + fb_len b
       then fb_modified b1 \<and> fb_pos b1 = p - fb_start b \<and> fb_len b1 = fb_len b \<and> fb_start b1 = fb_start b
         \<and> cont (fb_file b1) = cont (fb_file b) else \<not> fb_modified b1 \<and> fb_len b1 = 0" by blast
  then have "inserting_at F good cont p b1" using en t data by (auto simp: inserting_at_def split: if_splits)
  then show ?thesis using b1 by blast
qed

lemma insert_start:
  assumes "insertable F good cont I b p values" "length (view cont b) + length (concat values) \<le> N" "N < 2 ^ 62"
  shows "\<exists>b'. ini_insert I F b p values = insert_round (Suc (length (view cont b) + length (concat values))) F
        (line_buffer_size I mod 2 ^ 32) (length (view cont b) + length (concat values)) p (concat values) b'
    \<and> inserting_at F good cont p b' \<and> view cont b' = view cont b \<and> length (fb_data b') = length (fb_data b)"
proof -
  let ?V = "view cont b" and ?n = "line_buffer_size I mod 2 ^ 32"
  have len: "appends I ?n" "length (concat values) \<le> ?n" using assms(1) by (simp_all add: insertable_def)
  obtain b1 where
    b1: "FileBuffer_seek F b p = Inr (True, b1)" "inserting_at F good cont p b1" "view cont b1 = ?V"
      "length (fb_data b1) = length (fb_data b)"
    using seek_clean_insert [OF assms(1)] seek_written_insert [OF assms(1)] assms(2) by (cases "fb_modified b") auto
  have ok: "fb_ok good cont b1" "FileBuffer_tellg F b1 = p" "p \<le> length ?V"
    using b1(2) inserting_at_pos [OF b1(2)] b1(3) by (simp_all add: inserting_at_def)
  have "concat_to I ?n [] values = Inr (concat values)" using concat_to_eq [OF len(1), of "[]" "values"] len(2) by simp
  moreover have "add64 (FileBuffer_file_size F b1) (sum_list (map length values)) = length ?V + length (concat values)"
    using file_size_eq [OF ok(1)] b1(3) ok(2,3) assms(2,3) by (simp add: add64_small length_concat max_def)
  ultimately show ?thesis using b1 by (intro exI [of _ b1]) (simp add: ini_insert_def Let_def)
qed

lemma overlay_at_end: "length A = p \<Longrightarrow> overlay (A @ R) p d = A @ d @ drop (length d) R"
  by (auto simp: overlay_def)

text \<open>The bytes behind the place fit one buffer: two rounds.\<close>

lemma insert_ok:
  assumes "insertable F good cont I b p values" "length (view cont b) + length (concat values) \<le> N" "N < 2 ^ 62"
    "length (view cont b) - p \<le> line_buffer_size I mod 2 ^ 32"
  shows "\<exists>b'. ini_insert I F b p values = Inr (True, b') \<and> fb_ok good cont b'
    \<and> view cont b' = take p (view cont b) @ concat values @ drop p (view cont b) \<and> length (fb_data b') = length (fb_data b)"
proof -
  let ?V = "view cont b" and ?n = "line_buffer_size I mod 2 ^ 32" and ?c = "concat values"
  let ?R = "drop p ?V" and ?sz = "length ?V + length ?c"
  have p: "p \<le> length ?V" "length ?c \<le> length (fb_data b)" "?n \<le> length (fb_data b)" "0 < ?n"
    using assms(1) insertable_pos [OF assms(1)] by (simp_all add: insertable_def)
  from insert_start [OF assms(1-3)] obtain b0 where
    b0: "ini_insert I F b p values = insert_round (Suc ?sz) F ?n ?sz p ?c b0" "inserting_at F good cont p b0"
      "view cont b0 = ?V" "length (fb_data b0) = length (fb_data b)" by blast
  show ?thesis
  proof (cases "?c = []")
    case True
    then have "take p ?V @ ?c @ ?R = ?V" by (simp only: append_Nil append_take_drop_id)
    moreover have "ini_insert I F b p values = Inr (True, b0)" using b0(1) unfolding True by simp
    ultimately show ?thesis using b0(2-4) by (simp add: inserting_at_def del: concat_eq_Nil_conv)
  next
    case False
    then have "p < ?sz" using p(1) by (cases ?c) auto
    with insert_round_ok [OF b0(2), of ?n ?c ?sz ?sz] False p assms(2,3) b0(3,4) obtain b1 where
      b1: "insert_round (Suc ?sz) F ?n ?sz p ?c b0 = insert_round ?sz F ?n ?sz (p + length ?c) (take ?n ?R) b1"
        "inserting_at F good cont (p + length ?c) b1" "view cont b1 = overlay ?V p ?c" "length (fb_data b1) = length (fb_data b)"
      by auto
    have R: "take ?n ?R = ?R" using assms(4) by simp
    have V1: "view cont b1 = take p ?V @ ?c @ drop (length ?c) ?R"
      using overlay_at_end [of "take p ?V" p ?R ?c] p(1) b1(3) by simp
    obtain k where k: "?sz = Suc k" using \<open>p < ?sz\<close> by (cases ?sz) auto
    show ?thesis
    proof (cases "?R = []")
      case True
      then have "insert_round ?sz F ?n ?sz (p + length ?c) (take ?n ?R) b1 = Inr (True, b1)" unfolding k by simp
      then show ?thesis using b0(1) b1 V1 True by (simp add: inserting_at_def)
    next
      case no: False
      have lr: "length ?R = length ?V - p" by simp
      have "p + length ?c < ?sz" using no p(1) by simp
      moreover have "max (p + length ?c + length ?R) (length (view cont b1)) \<le> N" using V1 p(1) assms(2) by simp
      ultimately obtain b2 where
        b2: "insert_round ?sz F ?n ?sz (p + length ?c) ?R b1 =
            insert_round k F ?n ?sz (p + length ?c + length ?R) (take ?n (drop (p + length ?c) (view cont b1))) b2"
          "inserting_at F good cont (p + length ?c + length ?R) b2" "view cont b2 = overlay (view cont b1) (p + length ?c) ?R"
          "length (fb_data b2) = length (fb_data b1)"
        using insert_round_ok [OF b1(2), of ?n ?R ?sz k] no p b1(4) assms(3,4) unfolding k by auto
      have e: "p + length ?c + length ?R = ?sz" using p(1) by simp
      have "0 < k" using k no p(1) False by (cases ?c) auto
      then have "insert_round k F ?n ?sz (p + length ?c + length ?R) (take ?n (drop (p + length ?c) (view cont b1))) b2 = Inr (True, b2)"
        unfolding e by (cases k) simp_all
      moreover have "view cont b2 = (take p ?V @ ?c) @ ?R"
        using overlay_at_end [of "take p ?V @ ?c" "p + length ?c" "drop (length ?c) ?R" ?R] p(1) b2(3) V1 by simp
      ultimately show ?thesis using b0(1) b1(1,4) b2 R by (simp add: inserting_at_def)
    qed
  qed
qed

text \<open>
  When the bytes behind the place do not fit one buffer, those that the values cover are read twice:
  once with the first buffer, and again because the second read starts behind the values.
\<close>

lemma insert_twice:
  assumes "insertable F good cont I b p values" "n = line_buffer_size I mod 2 ^ 32" "R = drop p (view cont b)"
    "concat values \<noteq> []" "length (concat values) < n" "n < length R" "length R \<le> n + length (concat values)"
    "length (view cont b) + n \<le> N" "N < 2 ^ 62"
  shows "\<exists>b'. ini_insert I F b p values = Inr (True, b') \<and> fb_ok good cont b'
    \<and> view cont b' = take p (view cont b) @ concat values @ take n R @ drop (length (concat values)) R"
proof -
  let ?V = "view cont b" and ?c = "concat values"
  let ?sz = "length ?V + length ?c"
  have p: "p \<le> length ?V" "length ?c \<le> length (fb_data b)" "n \<le> length (fb_data b)" "0 < n"
    using assms(1,2) insertable_pos [OF assms(1)] by (simp_all add: insertable_def)
  have lR: "length R = length ?V - p" by (simp add: assms(3))
  have lt: "?sz \<le> N" "1 \<le> length ?c" using assms(4,5,8) by (simp, cases ?c, auto)
  from insert_start [OF assms(1) lt(1) assms(9)] obtain b0 where
    b0: "ini_insert I F b p values = insert_round (Suc ?sz) F n ?sz p ?c b0" "inserting_at F good cont p b0"
      "view cont b0 = ?V" "length (fb_data b0) = length (fb_data b)" unfolding assms(2) by blast
  have "3 \<le> ?sz" using assms(5,6) p(1) lt(2) lR by linarith
  then obtain k where "?sz = 3 + k" using le_Suc_ex by blast
  then have k: "?sz = Suc (Suc (Suc k))" by simp
  from insert_round_ok [OF b0(2), of n ?c ?sz ?sz] assms(4,6,9) p lt lR b0(3,4) obtain b1 where
    b1: "insert_round (Suc ?sz) F n ?sz p ?c b0 = insert_round ?sz F n ?sz (p + length ?c) (take n R) b1"
      "inserting_at F good cont (p + length ?c) b1" "view cont b1 = overlay ?V p ?c" "length (fb_data b1) = length (fb_data b)"
    unfolding assms(3) by auto
  have V1: "view cont b1 = (take p ?V @ ?c) @ drop (length ?c) R"
    using overlay_at_end [of "take p ?V" p R ?c] p(1) b1(3) by (simp add: assms(3))
  have l1: "length (view cont b1) = length ?V" using V1 p(1) lR assms(5,6) by simp
  have lt: "length (take n R) = n" using assms(6) by simp
  have a: "take n R \<noteq> []" "p + length ?c < ?sz" "p + length ?c + n \<le> N" using assms(5,6,8) p(4) lR by auto
  have "n \<le> length (fb_data b1)" "length (take n R) \<le> length (fb_data b1)"
    "max (p + length ?c + length (take n R)) (length (view cont b1)) \<le> N"
    using lt a(3) p(3) b1(4) l1 assms(8) by simp_all
  from insert_round_ok [OF b1(2) this(1) p(4) a(1) this(2) a(2) this(3) assms(9), of "Suc (Suc k)", folded k] obtain b2 where
    b2: "insert_round ?sz F n ?sz (p + length ?c) (take n R) b1 = insert_round (Suc (Suc k)) F n ?sz (p + length ?c + n)
          (take n (drop (p + length ?c) (view cont b1))) b2"
      "inserting_at F good cont (p + length ?c + n) b2" "view cont b2 = overlay (view cont b1) (p + length ?c) (take n R)"
      "length (fb_data b2) = length (fb_data b1)"
    unfolding lt by blast
  have nxt: "take n (drop (p + length ?c) (view cont b1)) = drop (length ?c) R"
    using V1 p(1) lR assms(7) by simp
  have V2: "view cont b2 = take p ?V @ ?c @ take n R"
    using overlay_at_end [of "take p ?V @ ?c" "p + length ?c" "drop (length ?c) R" "take n R"] p(1) b2(3) V1 assms(6,7) by simp
  have l2: "length (view cont b2) = p + length ?c + n" using V2 p(1) assms(6) by simp
  have ld: "length (drop (length ?c) R) = length R - length ?c" by simp
  have a: "drop (length ?c) R \<noteq> []" "p + length ?c + n < ?sz" using assms(5,6) lR by auto
  have "n \<le> length (fb_data b2)" "length (drop (length ?c) R) \<le> length (fb_data b2)"
    "max (p + length ?c + n + length (drop (length ?c) R)) (length (view cont b2)) \<le> N"
    using p(3) b1(4) b2(4) l2 lR assms(5-8) by simp_all
  from insert_round_ok [OF b2(2) this(1) p(4) a(1) this(2) a(2) this(3) assms(9), of "Suc k"] obtain b3 where
    b3: "insert_round (Suc (Suc k)) F n ?sz (p + length ?c + n) (drop (length ?c) R) b2 =
          insert_round (Suc k) F n ?sz (p + length ?c + n + (length R - length ?c)) (take n (drop (p + length ?c + n) (view cont b2))) b3"
      "fb_ok good cont b3" "view cont b3 = overlay (view cont b2) (p + length ?c + n) (drop (length ?c) R)"
    unfolding ld by (auto simp: inserting_at_def)
  have "take n (drop (p + length ?c + n) (view cont b2)) = []" using l2 by simp
  then have "ini_insert I F b p values = Inr (True, b3)"
    using b0(1) b1(1) b2(1) b3(1) nxt by (simp only: insert_round_end)
  moreover have "view cont b3 = (take p ?V @ ?c @ take n R) @ drop (length ?c) R"
    using overlay_at_end [of "view cont b2" "p + length ?c + n" "[]" "drop (length ?c) R"] l2 b3(3) V2 by simp
  ultimately show ?thesis using b3(2) by (intro exI [of _ b3]) simp
qed

end

end
