(* ===== verification/IniBlob.thy ===== *)
theory IniBlob
  imports IniWrites
begin

text \<open>
  Binary values of ini files, which are stored as two hexadecimal digits per byte.
\<close>

definition hex_digit :: "nat \<Rightarrow> byte" where
  "hex_digit n = of_nat (if n < 10 then 48 + n else 55 + n)"

definition two_digits :: "byte \<Rightarrow> byte list" where
  "two_digits x = [hex_digit (unat x div 16), hex_digit (unat x mod 16)]"

definition blob_digits :: "byte list \<Rightarrow> byte list" where
  "blob_digits xs = concat (map two_digits xs)"

lemma digit_value_hex: "n < 16 \<Longrightarrow> digit_value (hex_digit n) = Some n"
proof -
  assume "n < 16"
  moreover have "\<forall>n\<in>set [0..<16]. digit_value (hex_digit n) = Some n"
    by (simp add: upt_rec hex_digit_def digit_value_def word_le_nat_alt)
  ultimately show ?thesis by simp
qed

lemma from_two_digits: "from_chars_unsigned 32 16 (two_digits x) = Some (unat x)"
proof -
  have x: "unat x < 256" using unsigned_less [of x] by simp
  then have "unat x div 16 < 16" by linarith
  then have d: "digit_value (hex_digit (unat x div 16)) = Some (unat x div 16)"
    "digit_value (hex_digit (unat x mod 16)) = Some (unat x mod 16)" using digit_value_hex by simp_all
  have "unat x div 16 * 16 + unat x mod 16 = unat x" by simp
  moreover have "unat x < 2 ^ 32" using x by simp
  ultimately show ?thesis using d \<open>unat x div 16 < 16\<close>
    by (simp add: from_chars_unsigned_def from_digits_def two_digits_def is_digit_def)
qed

lemma blob_loop_digits:
  "i + length xs \<le> length dst \<Longrightarrow>
     blob_loop (blob_digits xs) i dst = (True, i + length xs, take i dst @ xs @ drop (i + length xs) dst)"
proof (induction xs arbitrary: i dst)
  case (Cons x xs)
  have l: "Suc i + length xs \<le> length (dst[i := x])" "i < length dst" using Cons.prems by simp_all
  have "blob_loop (blob_digits (x # xs)) i dst = blob_loop (blob_digits xs) (Suc i) (dst[i := x])"
    using from_two_digits [of x] by (simp add: blob_digits_def two_digits_def)
  moreover have "take (Suc i) (dst[i := x]) = take i dst @ [x]" using l(2) by (simp add: take_Suc_conv_app_nth)
  moreover have "drop (Suc i + length xs) (dst[i := x]) = drop (Suc i + length xs) dst" by simp
  ultimately show ?case using Cons.IH [OF l(1)] by simp
qed (simp add: blob_digits_def)

text \<open>The blob fits the strings, whose class holds and reports the capacity it has.\<close>

definition blob_library :: "ini_config \<Rightarrow> byte list \<Rightarrow> bool" where
  "blob_library I blob \<longleftrightarrow> (\<forall>x. fmt_02X I x = two_digits x) \<and> appends I (ini_N I)
     \<and> (\<forall>s. str_capacity (ini_string I) s = ini_N I) \<and> 2 * length blob < ini_N I \<and> ini_N I < 2 ^ 62"

lemma length_blob_digits [simp]: "length (blob_digits xs) = 2 * length xs"
  by (induction xs) (simp_all add: blob_digits_def two_digits_def)

lemma blob_text_digits:
  assumes "blob_library I blob" "length s + 2 * length xs \<le> ini_N I"
  shows "blob_text I s xs = Inr (Some (s @ blob_digits xs))"
  using assms(2)
proof (induction xs arbitrary: s)
  case (Cons x xs)
  have "append_to I (ini_N I) s (two_digits x) = Inr (s @ two_digits x)"
    using assms(1) Cons.prems by (simp add: blob_library_def appends_def two_digits_def)
  moreover have "fmt_02X I x = two_digits x" "str_capacity (ini_string I) s = ini_N I"
    using assms(1) by (simp_all add: blob_library_def)
  moreover have "length (s @ two_digits x) + 2 * length xs \<le> ini_N I" using Cons.prems by (simp add: two_digits_def)
  ultimately show ?case using Cons.IH [of "s @ two_digits x"] Cons.prems by (simp add: blob_digits_def)
qed (simp add: blob_digits_def)

lemma write_blob_text:
  assumes "blob_library I blob"
  shows "ini_write_blob I F b sec key blob comment = ini_write I F b sec key (blob_digits blob) comment"
proof -
  have "mul64 (length blob) 2 = 2 * length blob" using assms by (simp add: blob_library_def mul64_def)
  then show ?thesis using assms blob_text_digits [OF assms, of "[]" blob]
    by (simp add: ini_write_blob_def blob_library_def)
qed

lemma read_blob_text:
  assumes "ini_read I F b sec key = Inr (Some (blob_digits blob), b')" "length blob \<le> length dst"
  shows "ini_read_blob I F b sec key dst = Inr (True, blob, b')"
proof -
  have "blob_loop (blob_digits blob) 0 dst = (True, length blob, blob @ drop (length blob) dst)"
    using blob_loop_digits [of 0 blob dst] assms(2) by simp
  then show ?thesis using assms by (simp add: ini_read_blob_def)
qed

end
