(* ===== verification/IniKeys.thy ===== *)
theory IniKeys
  imports IniWrites
begin

text \<open>
  Where the key of a section is in the bytes of an ini file, and what the file should be after the
  key was written.
\<close>

section \<open>The lines of the section\<close>

text \<open>A file whose last line is complete.\<close>

definition closed :: "byte list \<Rightarrow> bool" where
  "closed R \<longleftrightarrow> R = [] \<or> last R = 10"

text \<open>
  The bytes before the next line with a key, and whether there is one; the lines of the section end
  at the next section.
\<close>

function skip_lines :: "ini_config \<Rightarrow> byte list \<Rightarrow> bool \<times> nat" where
  "skip_lines I R = (if R = [] then (False, 0)
     else
       let w = takeWhile (\<lambda>x. x \<noteq> 10) R; n = Suc (length w);
           next = (let (found, m) = skip_lines I (drop n R) in (found, n + m))
       in case ini_text I w of
            None \<Rightarrow> next
          | Some sv \<Rightarrow> if hd sv = 91 then (False, 0) else if 61 \<notin> set sv then next else (True, 0))"
  by pat_completeness auto

termination by (relation "measure (length \<circ> snd)") auto

declare skip_lines.simps [simp del]

text \<open>
  The place of the key in the bytes \<open>R\<close> that begin at \<open>t\<close>: the end of the key before, if any, and
  the end of its line with its value, or where the section ends.
\<close>

datatype key_place = Missing "nat option" nat | Found "nat option" nat "byte list"

lemma skip_lines_Nil [simp]: "skip_lines I [] = (False, 0)"
  by (simp add: skip_lines.simps)

lemma skip_lines_found: "(True, n) = skip_lines I R \<Longrightarrow> 0 < length R"
  by (cases R) auto

function find_key :: "ini_config \<Rightarrow> byte list \<Rightarrow> byte list \<Rightarrow> nat \<Rightarrow> nat option \<Rightarrow> key_place" where
  "find_key I key R t prev =
     (let (found, n) = skip_lines I R
      in if \<not> found then Missing prev (t + n)
         else
           let w = takeWhile (\<lambda>x. x \<noteq> 10) (drop n R); e = t + n + Suc (length w); kv = get_key_value I w
           in if fst kv \<noteq> key then find_key I key (drop (Suc (length w)) (drop n R)) e (Some e)
              else Found prev e (snd kv))"
  by pat_completeness auto

termination
  by (relation "measure (\<lambda>(I, key, R, t, prev). length R)") (auto dest: skip_lines_found)

declare find_key.simps [simp del]

definition key_update :: "ini_config \<Rightarrow> byte list \<Rightarrow> byte list \<Rightarrow> byte list \<Rightarrow> byte list \<Rightarrow> byte list \<Rightarrow>
    byte list option" where
  "key_update I V sec key v comment =
     (case below_line (is_section I sec) V of
        None \<Rightarrow> None
      | Some R \<Rightarrow>
          let s = length V - length R; text = key_text I key v comment
          in case find_key I key R s None of
               Missing None e \<Rightarrow> None
             | Missing (Some a) e \<Rightarrow> Some (take a V @ text @ drop a V)
             | Found prev e old \<Rightarrow>
                 let a = (case prev of None \<Rightarrow> s | Some a \<Rightarrow> a)
                 in if old = v then Some V
                    else if e - a \<le> length text then Some (take a V @ text @ drop e V) else None)"

section \<open>Lines and white space\<close>

lemma closed_drop: "closed R \<Longrightarrow> closed (drop n R)"
  by (cases "n < length R") (auto simp: closed_def last_drop)

lemma closed_append: "closed A \<Longrightarrow> closed B \<Longrightarrow> closed (A @ B)"
  by (auto simp: closed_def last_append)

lemma closed_line: "closed (w @ [10])"
  by (simp add: closed_def)

lemma first_line:
  assumes "closed R" "R \<noteq> []" "w = takeWhile (\<lambda>x. x \<noteq> 10) R"
  shows "R = w @ 10 # drop (Suc (length w)) R" "length w < length R" "10 \<notin> set w"
proof -
  have "10 \<in> set R" using assms(1,2) last_in_set [of R] by (simp add: closed_def)
  then obtain u R' where R: "R = u @ 10 # R'" "10 \<notin> set u" using split_list_first by metis
  then have "w = u" unfolding assms(3) by (subst R(1), subst takeWhile_append2) auto
  then show "R = w @ 10 # drop (Suc (length w)) R" "length w < length R" "10 \<notin> set w" using R by simp_all
qed

lemma file_lines_closed: "closed A \<Longrightarrow> file_lines (A @ B) = file_lines A @ file_lines B"
  using file_lines_append by (simp add: closed_def)

text \<open>Stripping does not see white space at the ends.\<close>

lemma strip_parts: "\<exists>u w v. x = u @ w @ v \<and> set u \<subseteq> W \<and> set v \<subseteq> W \<and> (w \<noteq> [] \<longrightarrow> hd w \<notin> W \<and> last w \<notin> W)"
proof -
  define u where "u = takeWhile (\<lambda>y. y \<in> W) x"
  define y where "y = dropWhile (\<lambda>y. y \<in> W) x"
  define v where "v = rev (takeWhile (\<lambda>y. y \<in> W) (rev y))"
  define w where "w = rev (dropWhile (\<lambda>y. y \<in> W) (rev y))"
  have y: "w @ v = y" unfolding w_def v_def rev_append [symmetric] by simp
  have x: "x = u @ w @ v" unfolding y by (simp add: u_def y_def)
  have "last w \<notin> W" if "w \<noteq> []" using that hd_dropWhile [of "\<lambda>y. y \<in> W" "rev y"] by (simp add: w_def last_rev)
  moreover have "hd w \<notin> W" if "w \<noteq> []"
  proof -
    have "y \<noteq> []" "hd w = hd y" using that by (auto simp: y [symmetric])
    then show ?thesis using hd_dropWhile [of "\<lambda>y. y \<in> W" x] by (simp add: y_def)
  qed
  moreover have "set u \<subseteq> W" "set v \<subseteq> W" by (auto simp: u_def v_def dest: set_takeWhileD)
  ultimately show ?thesis using x by blast
qed

lemma strips_ends:
  assumes "strips f W" "set u \<subseteq> W" "set v \<subseteq> W"
  shows "f (u @ x @ v) = f x"
proof -
  obtain u' w v' where x: "x = u' @ w @ v'" "set u' \<subseteq> W" "set v' \<subseteq> W" "w \<noteq> [] \<longrightarrow> hd w \<notin> W \<and> last w \<notin> W"
    using strip_parts by metis
  have "f ((u @ u') @ w @ (v' @ v)) = w" using assms x by (intro stripsD [OF assms(1)]) auto
  moreover have "f (u' @ w @ v') = w" using x by (intro stripsD [OF assms(1)])
  ultimately show ?thesis using x(1) by simp
qed

lemma get_key_value_stripped:
  assumes "ini_library I W" "ini_text I line = Some sv"
  shows "get_key_value I line = get_key_value I sv"
proof -
  have st: "strips (strip_ws I) W" "61 \<notin> W" using assms(1) by (simp_all add: ini_library_def)
  have sv: "sv = strip_ws I line" using assms(2) by (auto simp: ini_text_def Let_def split: if_splits)
  obtain u w v where l: "line = u @ w @ v" "set u \<subseteq> W" "set v \<subseteq> W" "w \<noteq> [] \<longrightarrow> hd w \<notin> W \<and> last w \<notin> W"
    using strip_parts by metis
  have w: "sv = w" unfolding sv l(1) by (rule stripsD [OF st(1) l(2-4)])
  have eq: "61 \<in> set line \<longleftrightarrow> 61 \<in> set w" using l st(2) by auto
  show ?thesis
  proof (cases "61 \<in> set w")
    case True
    let ?k = "takeWhile (\<lambda>x. x \<noteq> 61) w"
    have "\<forall>x\<in>set u. x \<noteq> 61" using l(2) st(2) by auto
    moreover have "takeWhile (\<lambda>x. x \<noteq> 61) (w @ v) = ?k" using True by (intro takeWhile_append1) auto
    ultimately have tw: "takeWhile (\<lambda>x. x \<noteq> 61) line = u @ ?k" unfolding l(1) by (subst takeWhile_append2) auto
    have kw: "length ?k < length w" using takeWhile_less [OF True] .
    have "take (length (u @ ?k)) line = u @ take (length ?k) w" unfolding l(1) using kw by simp
    moreover have "drop (length (u @ ?k) + 1) line = drop (length ?k + 1) w @ v" unfolding l(1) using kw by simp
    moreover have "strip_ws I (u @ take (length ?k) w) = strip_ws I (take (length ?k) w)"
      using strips_ends [OF st(1) l(2), of "[]" "take (length ?k) w"] by simp
    moreover have "strip_ws I (drop (length ?k + 1) w @ v) = strip_ws I (drop (length ?k + 1) w)"
      using strips_ends [OF st(1) _ l(3), of "[]" "drop (length ?k + 1) w"] by simp
    ultimately show ?thesis using True eq unfolding w get_key_value_def tw by (simp add: Let_def)
  next
    case False
    then show ?thesis using eq unfolding w by (simp add: get_key_value_def)
  qed
qed

section \<open>Looking up across the place\<close>

definition passed :: "ini_config \<Rightarrow> byte list \<Rightarrow> byte list \<Rightarrow> bool" where
  "passed I key line \<longleftrightarrow> (case ini_text I line of None \<Rightarrow> True
     | Some sv \<Rightarrow> hd sv \<noteq> 91 \<and> (61 \<in> set sv \<longrightarrow> fst (get_key_value I sv) \<noteq> key))"

lemma lookup_passed:
  "\<forall>line\<in>set ls. passed I key line \<Longrightarrow> lookup_lines I sec key True (ls @ ls') = lookup_lines I sec key True ls'"
  by (induction ls) (auto simp: passed_def split: option.splits)

lemma lookup_first:
  "lookup_lines I sec key found ls = Some v \<Longrightarrow> lookup_lines I sec key found (ls @ ls') = Some v"
  by (induction ls arbitrary: found) (auto split: option.splits)

text \<open>The first line of a closed text, and how the parts of it are cut.\<close>

lemma take_line:
  assumes "closed R" "R \<noteq> []" "w = takeWhile (\<lambda>x. x \<noteq> 10) R"
  shows "take (Suc (length w) + m) R = (w @ [10]) @ take m (drop (Suc (length w)) R)"
    "file_lines (take (Suc (length w) + m) R) = w # file_lines (take m (drop (Suc (length w)) R))"
    "closed (take m (drop (Suc (length w)) R)) \<Longrightarrow> closed (take (Suc (length w) + m) R)"
proof -
  note fl = first_line [OF assms]
  show t: "take (Suc (length w) + m) R = (w @ [10]) @ take m (drop (Suc (length w)) R)"
    by (subst fl(1)) simp
  show "file_lines (take (Suc (length w) + m) R) = w # file_lines (take m (drop (Suc (length w)) R))"
    unfolding t using file_lines_line [OF fl(3)] by simp
  show "closed (take (Suc (length w) + m) R)" if "closed (take m (drop (Suc (length w)) R))"
    unfolding t using closed_append [OF closed_line that] .
qed

lemma skip_lines_ok:
  assumes "closed R" "skip_lines I R = (found, n)"
  shows "n \<le> length R" "closed (take n R)" "\<forall>line\<in>set (file_lines (take n R)). passed I key line"
    "found \<Longrightarrow> n < length R" "found \<Longrightarrow> \<exists>sv. ini_text I (takeWhile (\<lambda>x. x \<noteq> 10) (drop n R)) = Some sv \<and> hd sv \<noteq> 91 \<and> 61 \<in> set sv"
proof -
  have "n \<le> length R \<and> closed (take n R) \<and> (\<forall>line\<in>set (file_lines (take n R)). passed I key line)
      \<and> (found \<longrightarrow> n < length R \<and> (\<exists>sv. ini_text I (takeWhile (\<lambda>x. x \<noteq> 10) (drop n R)) = Some sv \<and> hd sv \<noteq> 91 \<and> 61 \<in> set sv))"
    using assms
  proof (induction R arbitrary: found n rule: length_induct)
    case (1 R)
    show ?case
    proof (cases "R = []")
      case True
      then show ?thesis using 1(3) by (simp add: closed_def)
    next
      case False
      define w where "w = takeWhile (\<lambda>x. x \<noteq> 10) R"
      note fl = first_line [OF 1(2) False w_def] and tl = take_line [OF 1(2) False w_def]
      let ?R = "drop (Suc (length w)) R"
      have un: "skip_lines I R = (let next = (let (found, m) = skip_lines I ?R in (found, Suc (length w) + m))
           in case ini_text I w of None \<Rightarrow> next
            | Some sv \<Rightarrow> if hd sv = 91 then (False, 0) else if 61 \<notin> set sv then next else (True, 0))"
        unfolding w_def by (subst skip_lines.simps) (simp only: False if_False Let_def)
      obtain f m where fm: "skip_lines I ?R = (f, m)" by fastforce
      have IH: "m \<le> length ?R" "closed (take m ?R)" "\<forall>line\<in>set (file_lines (take m ?R)). passed I key line"
        "f \<longrightarrow> m < length ?R \<and> (\<exists>sv. ini_text I (takeWhile (\<lambda>x. x \<noteq> 10) (drop m ?R)) = Some sv \<and> hd sv \<noteq> 91 \<and> 61 \<in> set sv)"
        using 1(1) [rule_format, OF _ closed_drop [OF 1(2)] fm] False by auto
      have dm: "drop (Suc (length w) + m) R = drop m ?R" by (simp add: add.commute)
      consider (skip) "found = f" "n = Suc (length w) + m" "passed I key w"
        | (sect) "found = False" "n = 0" | (key) sv where "found = True" "n = 0" "ini_text I w = Some sv" "hd sv \<noteq> 91" "61 \<in> set sv"
        using 1(3) un fm by (cases "ini_text I w") (auto simp: passed_def split: if_splits)
      then show ?thesis
      proof cases
        case skip
        have "n \<le> length R" using skip(2) IH(1) fl(2) by simp
        moreover have "closed (take n R)" unfolding skip(2) by (rule tl(3) [OF IH(2)])
        moreover have "\<forall>line\<in>set (file_lines (take n R)). passed I key line"
          unfolding skip(2) tl(2) using IH(3) skip(3) by simp
        moreover have "f \<longrightarrow> n < length R" using skip(2) IH(4) fl(2) by auto
        ultimately show ?thesis using IH(4) skip(1) dm unfolding skip(2) by auto
      next
        case sect
        then show ?thesis by (simp add: closed_def)
      next
        case key
        then show ?thesis using False w_def by (simp add: closed_def)
      qed
    qed
  qed
  then show "n \<le> length R" "closed (take n R)" "\<forall>line\<in>set (file_lines (take n R)). passed I key line"
    "found \<Longrightarrow> n < length R" "found \<Longrightarrow> \<exists>sv. ini_text I (takeWhile (\<lambda>x. x \<noteq> 10) (drop n R)) = Some sv \<and> hd sv \<noteq> 91 \<and> 61 \<in> set sv"
    by blast+
qed

fun place_prev :: "key_place \<Rightarrow> nat option" where
  "place_prev (Missing prev e) = prev"
| "place_prev (Found prev e v) = prev"

fun place_end :: "key_place \<Rightarrow> nat" where
  "place_end (Missing prev e) = e"
| "place_end (Found prev e v) = e"

definition place_start :: "nat \<Rightarrow> key_place \<Rightarrow> nat" where
  "place_start t pl = (case place_prev pl of None \<Rightarrow> t | Some a \<Rightarrow> a)"

text \<open>The line with a key that \<open>skip_lines\<close> stops at.\<close>

lemma key_line_at:
  assumes "closed R" "skip_lines I R = (True, n)" "w = takeWhile (\<lambda>x. x \<noteq> 10) (drop n R)"
  shows "n + Suc (length w) \<le> length R" "w \<noteq> []" "closed (take (n + Suc (length w)) R)"
    "take (n + Suc (length w) + m) R = take (n + Suc (length w)) R @ take m (drop (Suc (length w)) (drop n R))"
    "file_lines (take (n + Suc (length w)) R) = file_lines (take n R) @ [w]"
    "file_lines R = file_lines (take n R) @ w # file_lines (drop (Suc (length w)) (drop n R))"
proof -
  note sk = skip_lines_ok [OF assms(1,2)]
  have ne: "drop n R \<noteq> []" using sk(4) by simp
  note fl = first_line [OF closed_drop [OF assms(1)] ne assms(3)]
  show len: "n + Suc (length w) \<le> length R" using fl(2) by simp
  show "w \<noteq> []" using sk(5) assms(3) by (auto simp: ini_text_def)
  have "take (n + Suc (length w)) R = take n R @ take (Suc (length w)) (drop n R)" by (rule take_add)
  also have "take (Suc (length w)) (drop n R) = w @ [10]" by (subst fl(1)) simp
  finally have t: "take (n + Suc (length w)) R = take n R @ (w @ [10])" .
  then show cl: "closed (take (n + Suc (length w)) R)" using closed_append [OF sk(2) closed_line] by simp
  show fw: "file_lines (take (n + Suc (length w)) R) = file_lines (take n R) @ [w]"
    unfolding t file_lines_closed [OF sk(2)] using file_lines_line [OF fl(3), of "[]"] by simp
  show "take (n + Suc (length w) + m) R = take (n + Suc (length w)) R @ take m (drop (Suc (length w)) (drop n R))"
    unfolding drop_drop by (subst add.commute [of "Suc (length w)" n]) (rule take_add)
  have "file_lines (take (n + Suc (length w)) R @ drop (n + Suc (length w)) R)
      = (file_lines (take n R) @ [w]) @ file_lines (drop (n + Suc (length w)) R)"
    unfolding file_lines_closed [OF cl] fw ..
  then show "file_lines R = file_lines (take n R) @ w # file_lines (drop (Suc (length w)) (drop n R))"
    unfolding append_take_drop_id drop_drop add.commute [of "Suc (length w)" n] by simp
qed

lemma find_key_ok:
  assumes "ini_library I W" "closed R" "prev = None \<or> prev = Some t" "pl = find_key I key R t prev" "a = place_start t pl"
  shows "t \<le> a \<and> a \<le> place_end pl \<and> place_end pl \<le> t + length R \<and> closed (take (a - t) R) \<and> closed (take (place_end pl - t) R)
    \<and> (\<forall>line\<in>set (file_lines (take (a - t) R)). passed I key line) \<and> (prev \<noteq> None \<longrightarrow> place_prev pl \<noteq> None)
    \<and> (\<forall>p e v. pl = Found p e v \<longrightarrow> a + 2 \<le> e \<and> lookup_lines I sec key True (file_lines R) = Some v)"
  using assms(2-5)
proof (induction R arbitrary: t prev pl a rule: length_induct)
  case (1 R)
  note R = 1(2) and prev = 1(3) and pl = 1(4) and a = 1(5)
  obtain found n where sl: "skip_lines I R = (found, n)" by fastforce
  note sk = skip_lines_ok [OF R sl]
  have start: "place_start t (Missing prev e) = t" "place_start t (Found prev e v) = t" for e v
    using prev by (auto simp: place_start_def)
  show ?case
  proof (cases found)
    case False
    then have "pl = Missing prev (t + n)" using pl sl by (subst (asm) find_key.simps) simp
    then show ?thesis using a start sk(1,2) by (simp add: closed_def)
  next
    case True
    define w where "w = takeWhile (\<lambda>x. x \<noteq> 10) (drop n R)"
    have "skip_lines I R = (True, n)" using sl True by simp
    note kl = key_line_at [OF R this w_def]
    let ?e = "t + n + Suc (length w)" and ?R = "drop (Suc (length w)) (drop n R)"
    obtain sv where sv: "ini_text I w = Some sv" "hd sv \<noteq> 91" "61 \<in> set sv" using sk(5) True w_def by auto
    note kv = get_key_value_stripped [OF assms(1) sv(1)]
    have un: "pl = (if fst (get_key_value I w) \<noteq> key then find_key I key ?R ?e (Some ?e)
        else Found prev ?e (snd (get_key_value I w)))"
      using pl sl True unfolding w_def by (subst (asm) find_key.simps) (simp add: Let_def)
    show ?thesis
    proof (cases "fst (get_key_value I w) = key")
      case False
      then have p: "passed I key w" using sv kv by (simp add: passed_def)
      have pl': "pl = find_key I key ?R ?e (Some ?e)" using un False by simp
      have "length ?R < length R" using kl(1) by simp
      then have IH: "?e \<le> place_start ?e pl \<and> place_start ?e pl \<le> place_end pl \<and> place_end pl \<le> ?e + length ?R
          \<and> closed (take (place_start ?e pl - ?e) ?R) \<and> closed (take (place_end pl - ?e) ?R)
          \<and> (\<forall>line\<in>set (file_lines (take (place_start ?e pl - ?e) ?R)). passed I key line) \<and> place_prev pl \<noteq> None
          \<and> (\<forall>p e v. pl = Found p e v \<longrightarrow> place_start ?e pl + 2 \<le> e \<and> lookup_lines I sec key True (file_lines ?R) = Some v)"
        using 1(1) [rule_format, OF _ closed_drop [OF closed_drop [OF R]] disjI2 [OF refl] pl' refl] by simp
      then have a': "a = place_start ?e pl" using a by (auto simp: place_start_def)
      have cut: "take (b - t) R = take (n + Suc (length w)) R @ take (b - ?e) ?R" if "?e \<le> b" for b
      proof -
        have "n + Suc (length w) + (b - ?e) = b - t" using that by linarith
        with kl(4) [of "b - ?e"] show ?thesis by (simp only:)
      qed
      have lines: "file_lines (take (a - t) R) = (file_lines (take n R) @ [w]) @ file_lines (take (a - ?e) ?R)"
        using cut [of a] IH a' file_lines_closed [OF kl(3)] kl(5) by simp
      have look: "lookup_lines I sec key True (file_lines R) = lookup_lines I sec key True (file_lines ?R)"
        using lookup_passed [of "file_lines (take n R) @ [w]" I key sec "file_lines ?R"] sk(3) [of key] p unfolding kl(6) by simp
      show ?thesis
        using IH a' lines look sk(3) [of key] p cut [of a] cut [of "place_end pl"] closed_append [OF kl(3)] kl(1) by auto
    next
      case same: True
      then have pl': "pl = Found prev ?e (snd (get_key_value I w))" using un by simp
      then have a': "a = t" using a start by simp
      have "lookup_lines I sec key True (file_lines R) = Some (snd (get_key_value I w))"
        using lookup_passed [of "file_lines (take n R)" I key sec "w # file_lines ?R"] sk(3) [of key] sv kv same unfolding kl(6) by simp
      then show ?thesis using pl' a' kl(1-3) by (cases w) (auto simp: closed_def)
    qed
  qed
qed

section \<open>The file after the key was written\<close>

lemma below_line_split:
  assumes "closed V" "below_line P V = Some R"
  shows "\<exists>A w. V = A @ w @ 10 # R \<and> closed A \<and> 10 \<notin> set w \<and> P w \<and> (\<forall>line\<in>set (file_lines A). \<not> P line)"
  using assms
proof (induction V rule: length_induct)
  case (1 V)
  show ?case
  proof (cases "V = []")
    case True
    then show ?thesis using 1(3) by (simp add: below_line.simps)
  next
    case False
    define w where "w = takeWhile (\<lambda>x. x \<noteq> 10) V"
    note fl = first_line [OF 1(2) False w_def]
    let ?V = "drop (Suc (length w)) V"
    have b: "below_line P V = (if P w then Some ?V else below_line P ?V)"
      unfolding w_def by (subst below_line.simps) (simp only: False if_False Let_def)
    show ?thesis
    proof (cases "P w")
      case True
      then have "V = [] @ w @ 10 # R" using fl(1) b 1(3) by simp
      then show ?thesis using True fl(3) by (intro exI [of _ "[]"] exI [of _ w]) (simp add: closed_def)
    next
      case no: False
      then have "below_line P ?V = Some R" using b 1(3) by simp
      then obtain A w' where A: "?V = A @ w' @ 10 # R" "closed A" "10 \<notin> set w'" "P w'" "\<forall>line\<in>set (file_lines A). \<not> P line"
        using 1(1) [rule_format, OF _ closed_drop [OF 1(2)], of "Suc (length w)"] False by auto
      have "V = ((w @ [10]) @ A) @ w' @ 10 # R" using fl(1) A(1) by simp
      moreover have "closed ((w @ [10]) @ A)" by (rule closed_append [OF closed_line A(2)])
      moreover have "file_lines ((w @ [10]) @ A) = w # file_lines A" using file_lines_line [OF fl(3)] by simp
      ultimately show ?thesis using A(3-5) no by (intro exI [of _ "(w @ [10]) @ A"] exI [of _ w']) simp
    qed
  qed
qed

lemma closed_key_text: "closed (key_text I key v comment)"
  by (simp add: closed_def key_text_def key_pieces_def)

text \<open>The parts of a file with a section: what is before it, and where its keys begin.\<close>

lemma section_parts:
  assumes "closed V" "below_line (is_section I sec) V = Some R" "s = length V - length R"
  shows "s \<le> length V" "0 < s" "drop s V = R" "closed (take s V)" "closed R"
    "s \<le> a \<Longrightarrow> take a V = take s V @ take (a - s) R"
    "lookup_lines I sec key False (file_lines (take s V @ X)) = lookup_lines I sec key True (file_lines X)"
proof -
  from below_line_split [OF assms(1,2)] obtain A w where
    V: "V = A @ w @ 10 # R" and A: "closed A" "10 \<notin> set w" "is_section I sec w" "\<forall>line\<in>set (file_lines A). \<not> is_section I sec line"
    by blast
  have s: "s = length (A @ w @ [10])" using assms(3) V by simp
  then show "s \<le> length V" "0 < s" "drop s V = R" using V by simp_all
  have t: "take s V = A @ w @ [10]" using V s by simp
  then show "closed (take s V)" by (simp add: closed_def)
  show "closed R" using closed_drop [OF assms(1), of s] \<open>drop s V = R\<close> by simp
  show "take a V = take s V @ take (a - s) R" if "s \<le> a" using that take_add [of s "a - s" V] \<open>drop s V = R\<close> by simp
  have "file_lines (take s V @ X) = file_lines A @ w # file_lines X"
    unfolding t using file_lines_closed [OF A(1), of "w @ 10 # X"] file_lines_line [OF A(2), of X] by simp
  then show "lookup_lines I sec key False (file_lines (take s V @ X)) = lookup_lines I sec key True (file_lines X)"
    using lookup_elsewhere [OF A(4)] A(3) by (auto simp: is_section_def split: option.splits)
qed

lemma lookup_update:
  assumes "ini_library I W" "clean_entry W sec key v comment" "closed V" "key_update I V sec key v comment = Some V'"
  shows "lookup_lines I sec key False (file_lines V') = Some v"
proof -
  let ?T = "key_text I key v comment"
  obtain R where R: "below_line (is_section I sec) V = Some R" using assms(4) by (auto simp: key_update_def split: option.splits)
  define s where "s = length V - length R"
  define pl where "pl = find_key I key R s None"
  note sp = section_parts [OF assms(3) R s_def]
  have fk: "s \<le> place_start s pl" "closed (take (place_start s pl - s) R)"
    "\<forall>line\<in>set (file_lines (take (place_start s pl - s) R)). passed I key line"
    "pl = Found p e v' \<Longrightarrow> lookup_lines I sec key True (file_lines R) = Some v'" for p e v'
    using find_key_ok [OF assms(1) sp(5) disjI1 [OF refl] pl_def refl, of sec] by blast+
  have found: "lookup_lines I sec key True (file_lines (?T @ X)) = Some v" for X
    unfolding file_lines_closed [OF closed_key_text] by (rule lookup_first [OF lookup_key_text [OF assms(1,2)]])
  have new: "lookup_lines I sec key False (file_lines (take (place_start s pl) V @ ?T @ X)) = Some v" for X
    using sp(7) [of key "take (place_start s pl - s) R @ ?T @ X"] lookup_passed [OF fk(3)] found
    unfolding sp(6) [OF fk(1)] append_assoc file_lines_closed [OF fk(2)] by simp
  have same: "lookup_lines I sec key False (file_lines V) = Some v'" if "pl = Found p e v'" for p e v'
    using sp(7) [of key R] fk(4) [OF that] sp(3) by (metis append_take_drop_id)
  have "(\<exists>X. V' = take (place_start s pl) V @ ?T @ X) \<or> V' = V \<and> (\<exists>p e. pl = Found p e v)"
    using assms(4) R unfolding key_update_def s_def [symmetric] pl_def [symmetric]
    by (auto simp: s_def [symmetric] pl_def [symmetric] Let_def place_start_def split: key_place.splits option.splits if_splits)
  then show ?thesis using new same by blast
qed

end
