(* ===== verification/IniUpdate.thy ===== *)
theory IniUpdate
  imports IniKeys IniInsert
begin

text \<open>
  Writing a key of a section that the ini file already has: the search for the key, the replacement
  of its line, and the insertion of a line below the last key.
\<close>

lemma skip_lines_line:
  assumes "R \<noteq> []" "w = takeWhile (\<lambda>x. x \<noteq> 10) R" "skip_lines I (drop (Suc (length w)) R) = (f, m)"
  shows "skip_lines I R = (case ini_text I w of None \<Rightarrow> (f, Suc (length w) + m)
    | Some sv \<Rightarrow> if hd sv = 91 then (False, 0) else if 61 \<notin> set sv then (f, Suc (length w) + m) else (True, 0))"
  using assms(3) unfolding assms(2) by (subst skip_lines.simps) (simp only: assms(1) if_False Let_def prod.case)

lemma write_pieces_text:
  assumes "ini_library I W"
  shows "\<exists>sl. write_pieces I key v comment = Inr sl \<and> concat sl = key_text I key v comment"
proof -
  have "get_comment_sign I = Inr (fmt_c I (hd (comment_signs I)))"
    using assms by (cases "comment_signs I") (simp_all add: ini_library_def get_comment_sign_def)
  then show ?thesis by (simp add: write_pieces_def key_text_def)
qed

context bounded_file
begin

section \<open>Finding the key\<close>

text \<open>A line of a closed file is read, and the position is behind it.\<close>

lemma whole_line_read:
  assumes "reading F good cont b" "closed (view cont b)" "rest F cont b \<noteq> []"
    "\<forall>line\<in>set (file_lines (rest F cont b)). holds_line (ini_string I) line"
    "w = takeWhile (\<lambda>x. x \<noteq> 10) (rest F cont b)"
  shows "\<exists>b'. ini_get_line I F b = Inr (Some w, b') \<and> reading F good cont b' \<and> view cont b' = view cont b
    \<and> length (fb_data b') = length (fb_data b) \<and> FileBuffer_tellg F b' = FileBuffer_tellg F b + Suc (length w)
    \<and> rest F cont b' = drop (Suc (length w)) (rest F cont b)
    \<and> (\<forall>line\<in>set (file_lines (rest F cont b')). holds_line (ini_string I) line)
    \<and> FileBuffer_tellg F b + Suc (length w) \<le> length (view cont b)"
proof -
  from line_read [OF assms(1,4,5)] assms(3) obtain b1 where
    b1: "ini_get_line I F b = Inr (Some w, b1)" "reading F good cont b1" "view cont b1 = view cont b"
      "length (fb_data b1) = length (fb_data b)" "rest F cont b1 = drop (Suc (length w)) (rest F cont b)"
      "FileBuffer_tellg F b1 = min (length (view cont b)) (FileBuffer_tellg F b + Suc (length w))" by auto
  have "closed (rest F cont b)" using closed_drop [OF assms(2)] by (simp add: rest_def)
  note fl = first_line [OF this assms(3,5)]
  have "FileBuffer_tellg F b + Suc (length w) \<le> length (view cont b)" using fl(2) by (simp add: rest_def)
  moreover have "file_lines (rest F cont b) = w # file_lines (rest F cont b1)"
    unfolding b1(5) by (subst fl(1)) (rule file_lines_line [OF fl(3)])
  ultimately show ?thesis using b1 assms(4) by (intro exI [of _ b1]) simp
qed

lemma next_key_loop_ok:
  assumes "reading F good cont b" "closed (view cont b)" "length (rest F cont b) < k"
    "\<forall>line\<in>set (file_lines (rest F cont b)). holds_line (ini_string I) line"
    "skip_lines I (rest F cont b) = (found, n)"
  shows "\<exists>b'. find_next_key_loop k I F b = Inr (if found then Some (FileBuffer_tellg F b + n) else None, b')
    \<and> reading F good cont b' \<and> view cont b' = view cont b \<and> length (fb_data b') = length (fb_data b)
    \<and> FileBuffer_tellg F b' = FileBuffer_tellg F b + n
        + (if found then Suc (length (takeWhile (\<lambda>x. x \<noteq> 10) (drop n (rest F cont b)))) else 0)"
  using assms
proof (induction k arbitrary: b found n)
  case (Suc k)
  show ?case
  proof (cases "rest F cont b = []")
    case True
    from line_read [OF Suc.prems(1,4) refl] True obtain b1 where
      "ini_get_line I F b = Inr (None, b1)" "reading F good cont b1" "view cont b1 = view cont b"
        "length (fb_data b1) = length (fb_data b)"
        "FileBuffer_tellg F b1 = min (length (view cont b)) (FileBuffer_tellg F b + Suc 0)" by auto
    moreover have "FileBuffer_tellg F b = length (view cont b)"
      using True rest_empty [of b] Suc.prems(1) by (simp add: reading_def)
    ultimately show ?thesis using Suc.prems(5) True by (intro exI [of _ b1]) (simp add: Let_def)
  next
    case False
    define w where "w = takeWhile (\<lambda>x. x \<noteq> 10) (rest F cont b)"
    from whole_line_read [OF Suc.prems(1,2) False Suc.prems(4) w_def] obtain b1 where
      g: "ini_get_line I F b = Inr (Some w, b1)" and b1: "reading F good cont b1" "view cont b1 = view cont b"
        "length (fb_data b1) = length (fb_data b)" "FileBuffer_tellg F b1 = FileBuffer_tellg F b + Suc (length w)"
        "rest F cont b1 = drop (Suc (length w)) (rest F cont b)"
        "\<forall>line\<in>set (file_lines (rest F cont b1)). holds_line (ini_string I) line"
      and len: "FileBuffer_tellg F b + Suc (length w) \<le> length (view cont b)" by blast
    obtain f m where fm: "skip_lines I (rest F cont b1) = (f, m)" by fastforce
    note sl = skip_lines_line [OF False w_def fm [unfolded b1(5)]]
    have "length (rest F cont b1) < k" using Suc.prems(3) False b1(5) by (cases "rest F cont b") auto
    moreover have "closed (view cont b1)" using Suc.prems(2) b1(2) by simp
    ultimately have IH: "\<exists>b'. find_next_key_loop k I F b1 = Inr (if f then Some (FileBuffer_tellg F b1 + m) else None, b')
        \<and> reading F good cont b' \<and> view cont b' = view cont b1 \<and> length (fb_data b') = length (fb_data b1)
        \<and> FileBuffer_tellg F b' = FileBuffer_tellg F b1 + m
            + (if f then Suc (length (takeWhile (\<lambda>x. x \<noteq> 10) (drop m (rest F cont b1)))) else 0)"
      using Suc.IH [OF b1(1) _ _ b1(6) fm] by blast
    consider (skip) "find_next_key_loop (Suc k) I F b = find_next_key_loop k I F b1" "found = f" "n = Suc (length w) + m"
      | (sect) "find_next_key_loop (Suc k) I F b = bindE (FileBuffer_seek F b1 (FileBuffer_tellg F b)) (\<lambda>(_, b). Inr (None, b))"
          "\<not> found" "n = 0" "w \<noteq> []"
      | (key) "find_next_key_loop (Suc k) I F b = Inr (Some (FileBuffer_tellg F b), b1)" "found" "n = 0"
      using Suc.prems(5) sl g by (cases "ini_text I w") (auto simp: Let_def ini_text_def split: if_splits)
    then show ?thesis
    proof cases
      case skip
      have "drop n (rest F cont b) = drop m (rest F cont b1)" unfolding b1(5) skip(3) by (simp add: add.commute)
      then show ?thesis using IH skip b1(2-4) by (auto simp: ac_simps)
    next
      case sect
      have "0 < length w" using sect(4) by simp
      then have "length (view cont b1) \<noteq> Suc (FileBuffer_tellg F b)" using len unfolding b1(2) by linarith
      with back_ok [OF b1(1), of "FileBuffer_tellg F b"] b1(4) obtain b2 where
        "FileBuffer_seek F b1 (FileBuffer_tellg F b) = Inr (True, b2)" "reading F good cont b2" "view cont b2 = view cont b1"
        "FileBuffer_tellg F b2 = FileBuffer_tellg F b" "length (fb_data b2) = length (fb_data b1)" by auto
      then show ?thesis using sect b1(2,3) by (intro exI [of _ b2]) simp
    next
      case key
      then show ?thesis using b1 w_def by (intro exI [of _ b1]) simp
    qed
  qed
qed simp

text \<open>The state in which the loop over the keys has found the place.\<close>

lemma write_key_loop_ok:
  assumes "reading F good cont b" "closed (view cont b)" "length (rest F cont b) < k"
    "\<forall>line\<in>set (file_lines (rest F cont b)). holds_line (ini_string I) line"
    "pl = find_key I key (rest F cont b) (FileBuffer_tellg F b) prev"
  shows "\<exists>b'. reading F good cont b' \<and> view cont b' = view cont b \<and> length (fb_data b') = length (fb_data b)
    \<and> FileBuffer_tellg F b' = place_end pl
    \<and> write_key_loop k I F key v comment s prev b =
        (case pl of
           Missing p e \<Rightarrow> Inr (None, p, b')
         | Found p e v' \<Rightarrow>
             if v' = v then Inr (Some True, p, b')
             else bindE (replace_key I F key v comment (case p of None \<Rightarrow> s | Some a \<Rightarrow> a) b')
                    (\<lambda>(done, b). Inr (Some done, p, b)))"
  using assms
proof (induction k arbitrary: b prev pl)
  case (Suc k)
  let ?R = "rest F cont b" and ?t = "FileBuffer_tellg F b"
  have okb: "fb_ok good cont b" using Suc.prems(1) by (simp add: reading_def)
  have cR: "closed ?R" using closed_drop [OF Suc.prems(2)] by (simp add: rest_def)
  obtain found n where sl: "skip_lines I ?R = (found, n)" by fastforce
  have "length ?R < Suc (Suc (FileBuffer_file_size F b))" using file_size_eq [OF okb] by (simp add: rest_def)
  from next_key_loop_ok [OF Suc.prems(1,2) this Suc.prems(4) sl] obtain b1 where
    g: "find_next_key I F b = Inr (if found then Some (?t + n) else None, b1)"
    and b1: "reading F good cont b1" "view cont b1 = view cont b" "length (fb_data b1) = length (fb_data b)"
      "FileBuffer_tellg F b1 = ?t + n + (if found then Suc (length (takeWhile (\<lambda>x. x \<noteq> 10) (drop n ?R))) else 0)"
    unfolding find_next_key_def by blast
  show ?case
  proof (cases found)
    case False
    then have "pl = Missing prev (?t + n)" using Suc.prems(5) sl by (subst (asm) find_key.simps) simp
    then show ?thesis using g b1 False by (intro exI [of _ b1]) simp
  next
    case True
    define w where "w = takeWhile (\<lambda>x. x \<noteq> 10) (drop n ?R)"
    have "skip_lines I ?R = (True, n)" using sl True by simp
    note kl = key_line_at [OF cR this w_def]
    let ?e = "?t + n + Suc (length w)" and ?R' = "drop (Suc (length w)) (drop n ?R)"
    have pl: "pl = (if fst (get_key_value I w) \<noteq> key then find_key I key ?R' ?e (Some ?e)
        else Found prev ?e (snd (get_key_value I w)))"
      using Suc.prems(5) sl True unfolding w_def by (subst (asm) find_key.simps) (simp add: Let_def)
    have "length ?R = length (view cont b) - ?t" by (simp add: rest_def)
    moreover have "0 < length w" using kl(2) by simp
    ultimately have nl: "length (view cont b1) \<noteq> Suc (?t + n)" using kl(1) unfolding b1(2) by linarith
    have "?t + n \<le> FileBuffer_tellg F b1" using b1(4) by simp
    from back_ok [OF b1(1) this nl] obtain b2 where
      b2: "FileBuffer_seek F b1 (?t + n) = Inr (True, b2)" "reading F good cont b2" "view cont b2 = view cont b"
        "FileBuffer_tellg F b2 = ?t + n" "rest F cont b2 = drop n ?R" "length (fb_data b2) = length (fb_data b)"
      using b1(2,3) by (auto simp: rest_def add.commute)
    have lines: "file_lines ?R = file_lines (take n ?R) @ w # file_lines ?R'" by (rule kl(6))
    have r2: "closed (view cont b2)" "rest F cont b2 \<noteq> []" "w = takeWhile (\<lambda>x. x \<noteq> 10) (rest F cont b2)"
      using Suc.prems(2) b2(3,5) kl(1) by (auto simp: w_def)
    have "file_lines (rest F cont b2) = w # file_lines ?R'"
      using first_line [OF closed_drop [OF cR, of n] _ w_def] r2(2) b2(5) file_lines_line by metis
    then have "\<forall>line\<in>set (file_lines (rest F cont b2)). holds_line (ini_string I) line" using Suc.prems(4) lines by simp
    from whole_line_read [OF b2(2) r2(1,2) this r2(3)] obtain b3 where
      b3: "ini_get_line I F b2 = Inr (Some w, b3)" "reading F good cont b3" "view cont b3 = view cont b"
        "length (fb_data b3) = length (fb_data b)" "FileBuffer_tellg F b3 = ?e" "rest F cont b3 = ?R'"
        "\<forall>line\<in>set (file_lines (rest F cont b3)). holds_line (ini_string I) line"
      unfolding b2(3-6) by (elim exE conjE) (rule that, assumption+)
    have step: "write_key_loop (Suc k) I F key v comment s prev b =
        (if fst (get_key_value I w) \<noteq> key then write_key_loop k I F key v comment s (Some ?e) b3
         else if snd (get_key_value I w) = v then Inr (Some True, prev, b3)
         else bindE (replace_key I F key v comment (case prev of None \<Rightarrow> s | Some a \<Rightarrow> a) b3)
                (\<lambda>(done, b). Inr (Some done, prev, b)))"
      using g True b2(1) b3(1,5) by (cases "get_key_value I w") simp
    show ?thesis
    proof (cases "fst (get_key_value I w) = key")
      case True
      then show ?thesis using step pl b3 by (intro exI [of _ b3]) simp
    next
      case False
      have "length (rest F cont b3) < k" using b3(6) kl(1) Suc.prems(3) by simp
      moreover have "closed (view cont b3)" using Suc.prems(2) b3(3) by simp
      moreover have "pl = find_key I key (rest F cont b3) (FileBuffer_tellg F b3) (Some ?e)" using pl False b3(5,6) by simp
      ultimately obtain b4 where "reading F good cont b4" "view cont b4 = view cont b3" "length (fb_data b4) = length (fb_data b3)"
        "FileBuffer_tellg F b4 = place_end pl"
        "write_key_loop k I F key v comment s (Some ?e) b3 =
          (case pl of
             Missing p e \<Rightarrow> Inr (None, p, b4)
           | Found p e v' \<Rightarrow>
               if v' = v then Inr (Some True, p, b4)
               else bindE (replace_key I F key v comment (case p of None \<Rightarrow> s | Some a \<Rightarrow> a) b4)
                      (\<lambda>(done, b). Inr (Some done, p, b)))"
        using Suc.IH [OF b3(2) _ _ b3(7)] by blast
      then show ?thesis using step False b3(3,4) by (intro exI [of _ b4]) simp
    qed
  qed
qed simp

section \<open>Changing the file\<close>

lemma replace_key_ok:
  assumes "reading F good cont b" "FileBuffer_tellg F b = e" "start + 2 \<le> e" "ini_library I W"
    "T = key_text I key v comment" "e - start \<le> length T" "length T \<le> n" "length (view cont b) - e \<le> n"
    "n = line_buffer_size I mod 2 ^ 32" "n \<le> length (fb_data b)" "appends I n"
    "length (view cont b) + length T \<le> N + (e - start)" "N < 2 ^ 62"
  shows "\<exists>b'. replace_key I F key v comment start b = Inr (True, b') \<and> fb_ok good cont b'
    \<and> view cont b' = take start (view cont b) @ T @ drop e (view cont b)"
proof -
  let ?V = "view cont b" and ?m = "e - start"
  have ok: "fb_ok good cont b" "\<not> fb_modified b" "anchored F b" using assms(1) by (simp_all add: reading_def)
  have e: "e \<le> length ?V" using tellg_eq(2) [OF ok(1)] assms(2) by simp
  have "start \<le> FileBuffer_tellg F b" "start < FileBuffer_tellg F b" using assms(2,3) by simp_all
  from seek_back_ok [OF ok this(1)] this(2) obtain b1 where
    b1: "FileBuffer_seek F b start = Inr (True, b1)" "fb_ok good cont b1" "\<not> fb_modified b1" "view cont b1 = ?V"
      "FileBuffer_tellg F b1 = start" "length (fb_data b1) = length (fb_data b)" "fb_len b1 = 0 \<or> fb_pos b1 < fb_len b1" by blast
  obtain sl where sl: "write_pieces I key v comment = Inr sl" "concat sl = T"
    using write_pieces_text [OF assms(4)] assms(5) by blast
  have lsl: "sum_list (map length sl) = length T" using sl(2) by (metis length_concat)
  have "length ?V < 2 ^ 62" using size_bound [of "fb_file b"] ok by (simp add: fb_ok_def view_def)
  then have sub: "sub64 e start = ?m" using assms(3) e by (simp add: sub64_small)
  have rk: "replace_key I F key v comment start b = grow_key I F b1 ?m sl"
    using b1(1) sl(1) lsl sub assms(2,6) by (simp add: replace_key_def Let_def)
  let ?d = "take ?m T"
  have d: "length ?d = ?m" "?d \<noteq> []" "length ?d \<le> length (fb_data b1)"
    using assms(3,6,7,10) b1(6) by auto
  have "fb_pos b1 < length (fb_data b1)" using b1(2,7) d by (auto simp: fb_ok_def)
  moreover have "fb_modified b1 \<longrightarrow> fb_len b1 \<le> fb_pos b1 + length ?d" "savable (\<lambda>_ p n. p + n \<le> N) b1"
    using b1(3) by (simp_all add: savable_def)
  ultimately obtain b2 where
    w: "FileBuffer_write F b1 ?d = Inr (length ?d, b2)" and b2: "fb_ok good cont b2" "fb_modified b2"
      "view cont b2 = overlay ?V start ?d" "FileBuffer_tellg F b2 = start + length ?d"
      "length (fb_data b2) = length (fb_data b)"
      "fb_pos b2 = fb_len b2 \<or> Suc (fb_pos b2) = fb_len b2 \<and> fb_start b2 + fb_len b2 \<le> length (cont (fb_file b2))"
    using buffer_write_ok [OF b1(2) _ d(2,3)] unfolding b1(4-6) by blast
  have t2: "FileBuffer_tellg F b2 = e" using b2(4) d(1) assms(3) by simp
  have V2: "view cont b2 = take start ?V @ ?d @ drop e ?V"
    using b2(3) d(1) assms(3) by (simp add: overlay_def)
  have l2: "length (view cont b2) = length ?V" using V2 d(1) e assms(3) by simp
  have at: "inserting_at F good cont e b2" using b2(1,2,6) t2 by (simp add: inserting_at_def)
  have "0 < n" using assms(3,6,7) by linarith
  then have ins: "insertable F good cont I b2 e [drop ?m T]"
    using at b2(2,5) assms(7,9-11) by (simp add: insertable_def)
  have "length (view cont b2) + length (concat [drop ?m T]) \<le> N" using l2 assms(6,12) by simp
  from insert_ok [OF ins this assms(13)] l2 assms(8,9) obtain b3 where
    b3: "ini_insert I F b2 e [drop ?m T] = Inr (True, b3)" "fb_ok good cont b3"
      "view cont b3 = take e (view cont b2) @ concat [drop ?m T] @ drop e (view cont b2)" by auto
  have "grow_key I F b1 ?m sl = Inr (True, b3)" using w t2 b3(1) sl(2) by (simp add: grow_key_def ini_put_def)
  moreover have "take e (view cont b2) = take start ?V @ ?d" "drop e (view cont b2) = drop e ?V"
    unfolding V2 using d(1) e assms(3) by (simp_all add: min_def)
  then have "view cont b3 = take start ?V @ T @ drop e ?V" unfolding b3(3) by (simp del: take_append)
  ultimately show ?thesis using rk b3(2) by simp
qed

text \<open>The position goes one back, before the line feed at the end of the section.\<close>

lemma before_end_ok:
  assumes "reading F good cont b" "FileBuffer_tellg F b = e" "0 < e" "closed (take e (view cont b))"
  shows "\<exists>b1 b2 b3. FileBuffer_seek F b (e - 1) = Inr (True, b1) \<and> get_char F b1 = Inr (Some 10, b2)
    \<and> FileBuffer_seek F b2 (e - 1) = Inr (True, b3) \<and> fb_ok good cont b3 \<and> \<not> fb_modified b3 \<and> view cont b3 = view cont b
    \<and> length (fb_data b3) = length (fb_data b) \<and> FileBuffer_tellg F b3 = e - 1 \<and> fi_tellg F (fb_file b3) = e - 1"
proof -
  let ?V = "view cont b"
  have ok: "fb_ok good cont b" "\<not> fb_modified b" "anchored F b" and data: "0 < length (fb_data b)"
    using assms(1) by (simp_all add: reading_def)
  have e: "e \<le> length ?V" using tellg_eq(2) [OF ok(1)] assms(2) by simp
  have "last (take e ?V) = 10" using assms(3,4) e by (auto simp: closed_def)
  then have "?V ! (e - 1) = 10" using e assms(3) by (subst (asm) last_conv_nth) auto
  then have c: "take 1 (drop (e - 1) ?V) = [10]" using e assms(3) by (simp add: take_Suc_conv_app_nth hd_drop_conv_nth take_Suc)
  have "e - 1 \<le> FileBuffer_tellg F b" using assms(2) by simp
  from seek_back_ok [OF ok this] obtain b1 where
    b1: "FileBuffer_seek F b (e - 1) = Inr (True, b1)" "fb_ok good cont b1" "\<not> fb_modified b1" "anchored F b1" "view cont b1 = ?V"
      "FileBuffer_tellg F b1 = e - 1" "length (fb_data b1) = length (fb_data b)" by blast
  have "savable (\<lambda>_ p n. p + n \<le> N) b1" "Suc 0 \<le> length (fb_data b1)" "0 < length (fb_data b1)"
    using b1(3,7) data by (simp_all only: savable_def Suc_le_eq simp_thms)
  from read_view_ok [OF b1(2) this] obtain b2 where
    b2: "read_view F b1 (Suc 0) = Inr (take (Suc 0) (drop (e - 1) ?V), b2)" "fb_ok good cont b2" "view cont b2 = ?V"
      "length (fb_data b2) = length (fb_data b)" "FileBuffer_tellg F b2 = e - 1 + min (Suc 0) (length ?V - (e - 1))"
      "fb_modified b2 \<longrightarrow> fb_modified b1" "anchored F b1 \<longrightarrow> anchored F b2"
    unfolding b1(5-7) by (elim exE conjE) (rule that, assumption+)
  have cl2: "\<not> fb_modified b2" "anchored F b2" "e - 1 \<le> FileBuffer_tellg F b2" using b1(3,4) b2(5-7) by simp_all
  from seek_back_ok [OF b2(2) cl2] obtain b3 where
    "FileBuffer_seek F b2 (e - 1) = Inr (True, b3)" "fb_ok good cont b3" "\<not> fb_modified b3" "view cont b3 = view cont b2"
    "FileBuffer_tellg F b3 = e - 1" "length (fb_data b3) = length (fb_data b2)" "fi_tellg F (fb_file b3) = e - 1" by blast
  moreover have "get_char F b1 = Inr (Some 10, b2)" using b2(1) c by (simp add: get_char_def)
  ultimately show ?thesis using b1(1) b2(3,4) by (intro exI [of _ b1] exI [of _ b2] exI [of _ b3]) simp
qed

end

declare write_key_loop.simps [simp del]

text \<open>
  The library does what it should, the strings hold the lines, and what is written and the section
  with all that follows fit the line buffer.
\<close>

definition updatable :: "nat \<Rightarrow> ini_config \<Rightarrow> byte set \<Rightarrow> byte list \<Rightarrow> byte list \<Rightarrow> byte list \<Rightarrow> byte list \<Rightarrow> byte list \<Rightarrow>
    bool" where
  "updatable n I W V sec key v comment \<longleftrightarrow> ini_library I W \<and> clean_entry W sec key v comment \<and> closed V
     \<and> (\<forall>line\<in>set (file_lines V). holds_line (ini_string I) line)
     \<and> (let m = line_buffer_size I mod 2 ^ 32
        in m \<le> n \<and> appends I m \<and> length (key_text I key v comment) \<le> m
           \<and> (\<forall>R. below_line (is_section I sec) V = Some R \<longrightarrow> length R \<le> m))"

context bounded_file
begin

lemma update_key_ok:
  assumes "rewindable F good cont b" "updatable (length (fb_data b)) I W (view cont b) sec key v comment"
    "key_update I (view cont b) sec key v comment = Some V'" "length V' \<le> N" "N < 2 ^ 62"
  shows "\<exists>b'. ini_write I F b sec key v comment = Inr (True, b') \<and> fb_ok good cont b' \<and> view cont b' = V'"
proof -
  let ?V = "view cont b" and ?T = "key_text I key v comment"
  define n where "n = line_buffer_size I mod 2 ^ 32"
  obtain R where R: "below_line (is_section I sec) ?V = Some R" using assms(3) by (auto simp: key_update_def split: option.splits)
  have lib: "ini_library I W" "closed ?V" "\<forall>line\<in>set (file_lines ?V). holds_line (ini_string I) line"
    and n: "n \<le> length (fb_data b)" "appends I n" "length ?T \<le> n" "length R \<le> n"
    using assms(2) R by (simp_all add: updatable_def Let_def n_def)
  define s where "s = length ?V - length R"
  define pl where "pl = find_key I key R s None"
  note sp = section_parts [OF lib(2) R s_def]
  from find_section_ok [OF assms(1) lib(3) refl, of sec] R obtain b1 where
    b1: "find_section I F b sec = Inr (Some (FileBuffer_tellg F b1), b1)" "reading F good cont b1" "view cont b1 = ?V"
      "length (fb_data b1) = length (fb_data b)" "rest F cont b1 = R" by auto
  have ok1: "fb_ok good cont b1" using b1(2) by (simp add: reading_def)
  have t1: "FileBuffer_tellg F b1 = s"
    using b1(3,5) tellg_eq(2) [OF ok1] s_def by (auto simp: rest_def)
  have held: "\<forall>line\<in>set (file_lines (rest F cont b1)). holds_line (ini_string I) line"
  proof -
    have "file_lines ?V = file_lines (take s ?V) @ file_lines R"
      using file_lines_closed [OF sp(4), of R] sp(3) by (metis append_take_drop_id)
    then show ?thesis using lib(3) b1(5) by simp
  qed
  have "closed (view cont b1)" "length (rest F cont b1) < Suc (Suc (FileBuffer_file_size F b1))"
    using lib(2) b1(3) file_size_eq [OF ok1] by (simp_all add: rest_def)
  from write_key_loop_ok [OF b1(2) this held refl, of key None v comment s] obtain b2 where
    b2: "reading F good cont b2" "view cont b2 = ?V" "length (fb_data b2) = length (fb_data b)"
      "FileBuffer_tellg F b2 = place_end pl"
    and loop: "write_key_loop (Suc (Suc (FileBuffer_file_size F b1))) I F key v comment s None b1 =
        (case pl of
           Missing p e \<Rightarrow> Inr (None, p, b2)
         | Found p e v' \<Rightarrow>
             if v' = v then Inr (Some True, p, b2)
             else bindE (replace_key I F key v comment (case p of None \<Rightarrow> s | Some a \<Rightarrow> a) b2)
                    (\<lambda>(done, b). Inr (Some done, p, b)))"
    unfolding b1(3-5) t1 pl_def [symmetric] by blast
  have ok2: "fb_ok good cont b2" using b2(1) by (simp add: reading_def)
  have fk: "s \<le> place_start s pl" "place_start s pl \<le> place_end pl" "closed (take (place_end pl - s) R)"
    "pl = Found p e v' \<Longrightarrow> place_start s pl + 2 \<le> e" "place_end pl \<le> s + length R" for p e v'
    using find_key_ok [OF lib(1) sp(5) disjI1 [OF refl] pl_def refl] by blast+
  have lV: "length ?V = s + length R" using sp(1,3) by (metis length_drop le_add_diff_inverse)
  have up: "Some V' = (case pl of
        Missing None e \<Rightarrow> None
      | Missing (Some a) e \<Rightarrow> Some (take a ?V @ ?T @ drop a ?V)
      | Found p e old \<Rightarrow>
          let a = (case p of None \<Rightarrow> s | Some a \<Rightarrow> a)
          in if old = v then Some ?V
             else if e - a \<le> length ?T then Some (take a ?V @ ?T @ drop e ?V) else None)"
    using assms(3) R unfolding key_update_def s_def [symmetric] pl_def [symmetric] by (simp add: Let_def s_def [symmetric] pl_def [symmetric])
  note wr = ini_write_def [of I F b sec key v comment]
  show ?thesis
  proof (cases pl)
    case (Found p e v')
    show ?thesis
    proof (cases "v' = v")
      case True
      then show ?thesis using b1(1) t1 loop up Found b2(2) ok2 unfolding wr by (intro exI [of _ b2]) simp
    next
      case False
      define a where "a = (case p of None \<Rightarrow> s | Some a \<Rightarrow> a)"
      have a: "a = place_start s pl" by (simp add: a_def Found place_start_def)
      have V': "e - a \<le> length ?T" "V' = take a ?V @ ?T @ drop e ?V"
        using up Found False by (auto simp: a_def Let_def split: if_splits)
      have e: "a + 2 \<le> e" "e \<le> length ?V" "s \<le> a" using fk(1,5) fk(4) [OF Found] a Found lV by simp_all
      have tail: "length (view cont b2) - e \<le> n" using e n(4) lV b2(2) by simp
      have "length (view cont b2) + length ?T \<le> N + (e - a)" using assms(4) V'(2) e b2(2) by simp
      from replace_key_ok [OF b2(1) _ e(1) lib(1) refl V'(1) n(3) tail n_def _ n(2) this assms(5)] b2(2-4) n(1) Found obtain b3 where
        "replace_key I F key v comment a b2 = Inr (True, b3)" "fb_ok good cont b3" "view cont b3 = V'"
        using V'(2) by auto
      then show ?thesis using b1(1) t1 loop Found False unfolding wr by (intro exI [of _ b3]) (simp add: a_def)
    qed
  next
    case (Missing p e)
    then obtain a where p: "p = Some a" and V': "V' = take a ?V @ ?T @ drop a ?V" using up by (cases p) auto
    have a: "s \<le> a" "a \<le> e" "e \<le> length ?V" using fk(1,2,5) Missing p lV by (simp_all add: place_start_def)
    have "closed (take e ?V)" using sp(4) sp(6) [of e] closed_append fk(3) a Missing by simp
    moreover have "0 < e" using sp(2) a by simp
    moreover have te: "FileBuffer_tellg F b2 = e" using b2(4) Missing by simp
    ultimately obtain b3 b4 b5 where
      b5: "FileBuffer_seek F b2 (e - 1) = Inr (True, b3)" "get_char F b3 = Inr (Some 10, b4)"
        "FileBuffer_seek F b4 (e - 1) = Inr (True, b5)" "fb_ok good cont b5" "\<not> fb_modified b5" "view cont b5 = ?V"
        "length (fb_data b5) = length (fb_data b)" "FileBuffer_tellg F b5 = e - 1" "fi_tellg F (fb_file b5) = e - 1"
      using before_end_ok [OF b2(1), of e] b2(2,3) by auto
    obtain sl where sl: "write_pieces I key v comment = Inr sl" "concat sl = ?T" using write_pieces_text [OF lib(1)] by blast
    have "?T \<noteq> []" by (simp add: key_text_def key_pieces_def)
    then have "0 < n" using n(3) by (cases n) auto
    have "fb_len b5 \<noteq> 0 \<Longrightarrow> e - 1 = fb_start b5 + fb_pos b5" using tellg_eq(1) [OF b5(4)] b5(8) by simp
    then have ins: "insertable F good cont I b5 a sl"
      using b5(4-9) a \<open>0 < e\<close> \<open>0 < n\<close> n(1-3) sl(2) unfolding n_def insertable_def by auto
    have "length (view cont b5) + length (concat sl) \<le> N" using assms(4) V' b5(6) sl(2) a by simp
    moreover have "length (view cont b5) - a \<le> line_buffer_size I mod 2 ^ 32"
      using a n(4) lV unfolding b5(6) n_def by linarith
    ultimately obtain b6 where
      b6: "ini_insert I F b5 a sl = Inr (True, b6)" "fb_ok good cont b6" "view cont b6 = V'"
      using insert_ok [OF ins _ assms(5)] unfolding b5(6) sl(2) V' by blast
    have "e < 2 ^ 62" using size_bound [of "fb_file b5"] b5(4-6) a(3) by (simp add: fb_ok_def view_def)
    then have "sub64 e 1 = e - 1" using \<open>0 < e\<close> by (simp add: sub64_small)
    then have "ini_write I F b sec key v comment = Inr (True, b6)"
      using b1(1) t1 loop Missing p te \<open>0 < e\<close> b5(1-3) sl(1) b6(1) unfolding wr by simp
    then show ?thesis using b6(2,3) by blast
  qed
qed

end

end
