(* ===== verification/IniProps.thy ===== *)
theory IniProps
  imports IniUpdate IniBlob
begin

text \<open>
  The properties of the ini files, for files of the simulated internal flash behind a buffer.
\<close>

section \<open>A concrete library\<close>

text \<open>Functions that do what is documented of the library; the witnesses use them.\<close>

definition trim :: "byte set \<Rightarrow> byte list \<Rightarrow> byte list" where
  "trim W w = rev (dropWhile (\<lambda>x. x \<in> W) (rev (dropWhile (\<lambda>x. x \<in> W) w)))"

lemma dropWhile_all: "set u \<subseteq> W \<Longrightarrow> dropWhile (\<lambda>x. x \<in> W) (u @ w) = dropWhile (\<lambda>x. x \<in> W) w"
  by (induction u) auto

lemma trim_strips: "strips (trim W) W"
proof -
  have "trim W (u @ w @ v) = w" if "set u \<subseteq> W" "set v \<subseteq> W" "w \<noteq> [] \<longrightarrow> hd w \<notin> W \<and> last w \<notin> W" for u w v
  proof (cases "w = []")
    case True
    have "dropWhile (\<lambda>x. x \<in> W) (u @ v) = []" using that(1,2) by (subst dropWhile_eq_Nil_conv) auto
    then show ?thesis unfolding trim_def True by (simp only: append_Nil rev.simps dropWhile.simps)
  next
    case False
    then have "dropWhile (\<lambda>x. x \<in> W) (u @ w @ v) = w @ v" using that dropWhile_all [of u W "w @ v"] by (cases w) auto
    moreover have "dropWhile (\<lambda>x. x \<in> W) (rev v @ rev w) = rev w"
      using that False dropWhile_all [of "rev v" W "rev w"] by (cases w rule: rev_cases) auto
    ultimately show ?thesis by (simp add: trim_def)
  qed
  then show ?thesis by (simp add: strips_def)
qed

definition sample_ini :: "nat \<Rightarrow> nat \<Rightarrow> ini_config" where
  "sample_ini n m = \<lparr>line_buffer_size = n, comment_signs = [35], ini_N = m, ini_string = bounded_string m,
     strip_ws = trim {9, 32}, strip_chars = (\<lambda>cs. trim (set cs)),
     append_to = (\<lambda>n s x. if length s + length x \<le> n then Inr (s @ x) else Inl Length_error),
     fmt_c = (\<lambda>c. [c]), fmt_d = (\<lambda>_. []), fmt_0xX = (\<lambda>_. []), fmt_02X = two_digits,
     fmt_note = (\<lambda>s _. s), fmt_note_f = (\<lambda>s _ _. s)\<rparr>"

lemma sample_line_buffer [simp]: "line_buffer_size (sample_ini n m) = n"
  by (simp add: sample_ini_def)

lemma sample_library: "ini_library (sample_ini n m) {9, 32}"
  by (simp add: ini_library_def sample_ini_def trim_strips)

lemma sample_appends: "appends (sample_ini n m) k"
  by (simp add: appends_def sample_ini_def)

lemma fresh_rewindable:
  assumes "length d < 22" "length d \<noteq> 1" "buf \<noteq> []" "length buf < 2 ^ 62"
  shows "rewindable F (inline_good stm32_ok st_mem stm32_writable 21) (handle_cont st_mem)
      (FileBuffer (small_fs sample_flash, inline_file d) buf)"
    "hb_view (FileBuffer (small_fs sample_flash, inline_file d) buf) = d"
  using inline_file_inline_good [OF assms(1)] inline_file_good(2) [OF assms(1)] assms(2-4)
  by (simp_all add: rewindable_def anchored_def fb_ok_def view_def buffered_def FileBuffer_def)

section \<open>Properties\<close>

text \<open>
  C20. Reading a value of an ini file is looking it up in the lines of the file: of the lines below
  the name of the section, up to the next section, the first with the key gives the value. Comments
  and lines of white space are skipped, and the file stays as it was. The strings of the library
  hold the lines; the buffer has no unwritten bytes and can go back to the beginning.
\<close>

theorem ini_read_looks_up:
  assumes "rewindable F (handle_good stm32_ok st_mem stm32_writable) (handle_cont st_mem) b"
    "\<forall>line\<in>set (file_lines (hb_view b)). holds_line (ini_string I) line" "F = handle_ops (stm32_config P crc e keep)"
  shows "\<exists>b'. ini_read I F b sec key = Inr (lookup_lines I sec key False (file_lines (hb_view b)), b')
    \<and> hb_ok b' \<and> \<not> fb_modified b' \<and> hb_view b' = hb_view b"
  using hf.ini_read_ok [OF assms(1) [unfolded assms(3)] assms(2), of sec key] unfolding assms(3) reading_def by blast

theorem ini_read_looks_up_witness:
  "\<exists>b'. ini_read (sample_ini 8 20) (handle_ops (stm32_config 0 (\<lambda>_. 7) LE False))
     (FileBuffer (small_fs sample_flash, inline_file [91, 97, 93, 10, 107, 32, 61, 49, 10]) [0, 0, 0, 0]) [97] [107]
     = Inr (Some [49], b')"
proof -
  let ?d = "[91, 97, 93, 10, 107, 32, 61, 49, 10] :: byte list" and ?I = "sample_ini 8 20"
  let ?x = "(small_fs sample_flash, inline_file ?d)" and ?F = "handle_ops (stm32_config 0 (\<lambda>_. 7) LE False)"
  let ?b = "FileBuffer ?x [0, 0, 0, 0]"
  have g: "handle_good stm32_ok st_mem stm32_writable ?x" "handle_cont st_mem ?x = ?d"
    using inline_file_good [of ?d] by simp_all
  have n: "hb_ok ?b" "hb_view ?b = ?d" using hb_new [OF g(1), of "[0, 0, 0, 0]"] g(2) by simp_all
  have rw: "rewindable ?F (handle_good stm32_ok st_mem stm32_writable) (handle_cont st_mem) ?b"
    using n by (simp add: rewindable_def anchored_def)
  have fl: "file_lines ?d = [[91, 97, 93], [107, 32, 61, 49]]"
    using file_lines_line [of "[91, 97, 93]" "[107, 32, 61, 49, 10]"] file_lines_line [of "[107, 32, 61, 49]" "[]"] by simp
  have "\<forall>line\<in>set (file_lines (hb_view ?b)). holds_line (ini_string ?I) line"
    unfolding n(2) fl by (simp add: sample_ini_def bounded_string_holds)
  from ini_read_looks_up [OF rw this refl, of "[97]" "[107]"] obtain b' where
    "ini_read ?I ?F ?b [97] [107] = Inr (lookup_lines ?I [97] [107] False [[91, 97, 93], [107, 32, 61, 49]], b')"
    unfolding n(2) fl by blast
  then show ?thesis
    by (simp add: sample_ini_def ini_text_def is_comment_def trim_def get_section_name_def get_key_value_def)
qed

text \<open>
  C21. What is written is found again: writing a key of a section that the file does not have
  appends the section, the comment and the key, after the line feeds that separate them from what
  was there; once the buffer is written back, these are the contents of the file, and reading the
  key gives the value. The strings must be told apart from the text around them, the old file must be
  shorter than the buffer, and the new one may not outgrow the inode.
\<close>

theorem ini_new_section_round_trip:
  assumes "rewindable F (inline_good stm32_ok st_mem stm32_writable N) (handle_cont st_mem) b"
    "appendable (length (fb_data b)) N I W (hb_view b) sec key v comment"
    "V = hb_view b @ new_entry I (hb_view b) sec key v comment" "F = handle_ops (stm32_config P crc e keep)"
  shows "\<exists>b1 b2 b3. ini_write I F b sec key v comment = Inr (True, b1) \<and> hb_view b1 = V
    \<and> flush_buffer F b1 = Inr (True, b2) \<and> handle_cont st_mem (fb_file b2) = V
    \<and> ini_read I F b2 sec key = Inr (Some v, b3)"
  using il.read_new_section_ok [OF assms(1) [unfolded assms(4)] assms(2,3)] unfolding assms(4) .

theorem ini_new_section_round_trip_witness:
  "\<exists>b1 b2 b3. ini_write (sample_ini 8 20) (handle_ops (stm32_config 0 (\<lambda>_. 7) LE False))
       (FileBuffer (small_fs sample_flash, inline_file []) (replicate 12 0)) [115] [107] [49] [99] = Inr (True, b1)
     \<and> flush_buffer (handle_ops (stm32_config 0 (\<lambda>_. 7) LE False)) b1 = Inr (True, b2)
     \<and> handle_cont st_mem (fb_file b2) = [91, 115, 93, 10, 35, 9, 99, 10, 9, 107, 32, 61, 32, 49, 10]
     \<and> ini_read (sample_ini 8 20) (handle_ops (stm32_config 0 (\<lambda>_. 7) LE False)) b2 [115] [107] = Inr (Some [49], b3)"
proof -
  let ?I = "sample_ini 8 20" and ?x = "(small_fs sample_flash, inline_file [])"
  let ?F = "handle_ops (stm32_config 0 (\<lambda>_. 7) LE False)" and ?b = "FileBuffer ?x (replicate 12 0)"
  let ?V = "[91, 115, 93, 10, 35, 9, 99, 10, 9, 107, 32, 61, 32, 49, 10] :: byte list"
  have rw: "rewindable ?F (inline_good stm32_ok st_mem stm32_writable 21) (handle_cont st_mem) ?b"
    and n: "hb_view ?b = []"
    using fresh_rewindable [of "[]" "replicate 12 0"] by simp_all
  have V: "[] @ new_entry ?I [] [115] [107] [49] [99] = ?V"
    by (simp add: new_entry_def section_text_def key_text_def comment_pieces_def key_pieces_def sample_ini_def)
  have fl: "file_lines ?V = [[91, 115, 93], [35, 9, 99], [9, 107, 32, 61, 32, 49]]"
    using file_lines_line [of "[91, 115, 93]" "[35, 9, 99, 10, 9, 107, 32, 61, 32, 49, 10]"]
      file_lines_line [of "[35, 9, 99]" "[9, 107, 32, 61, 32, 49, 10]"] file_lines_line [of "[9, 107, 32, 61, 32, 49]" "[]"] by simp
  have "appendable (length (fb_data ?b)) 21 ?I {9, 32} (hb_view ?b) [115] [107] [49] [99]"
    using sample_library [of 8 20] unfolding appendable_def n V fl
    by (simp add: clean_entry_def clean_def sample_ini_def bounded_string_holds)
  from ini_new_section_round_trip [OF rw this refl refl] show ?thesis unfolding n V by blast
qed

text \<open>
  Inserting into an ini file puts the values at the place and moves what was behind it, all of
  it, when that fits the line buffer.
\<close>

theorem ini_insert_moves_tail:
  assumes "insertable F (inline_good stm32_ok st_mem stm32_writable N) (handle_cont st_mem) I b p values"
    "length (hb_view b) + length (concat values) \<le> N" "N < 2 ^ 62"
    "length (hb_view b) - p \<le> line_buffer_size I mod 2 ^ 32" "F = handle_ops (stm32_config P crc e keep)"
  shows "\<exists>b'. ini_insert I F b p values = Inr (True, b')
    \<and> hb_view b' = take p (hb_view b) @ concat values @ drop p (hb_view b)"
  using il.insert_ok [OF assms(1) [unfolded assms(5)] assms(2-4)] unfolding assms(5) by blast

lemma sample_insertable:
  assumes "length d < 22" "p \<le> length d" "0 < n" "n \<le> length buf" "n < 2 ^ 32" "length (concat ds) \<le> n"
    "length buf < 2 ^ 62"
  shows "insertable (handle_ops c) (inline_good stm32_ok st_mem stm32_writable 21) (handle_cont st_mem) (sample_ini n m)
      (FileBuffer (small_fs sample_flash, inline_file d) buf) p ds"
    "hb_view (FileBuffer (small_fs sample_flash, inline_file d) buf) = d"
proof -
  have n: "line_buffer_size (sample_ini n m) mod 2 ^ 32 = n" using assms(5) by simp
  show v: "hb_view (FileBuffer (small_fs sample_flash, inline_file d) buf) = d"
    using inline_file_good(2) [OF assms(1)] by (simp add: view_def)
  show "insertable (handle_ops c) (inline_good stm32_ok st_mem stm32_writable 21) (handle_cont st_mem) (sample_ini n m)
      (FileBuffer (small_fs sample_flash, inline_file d) buf) p ds"
    using assms inline_file_inline_good [OF assms(1)] v sample_appends [of n m n] unfolding insertable_def n
    by (auto simp: fb_ok_def FileBuffer_def buffered_def)
qed

theorem ini_insert_moves_tail_witness:
  "\<exists>b'. ini_insert (sample_ini 4 20) (handle_ops (stm32_config 0 (\<lambda>_. 7) LE False))
     (FileBuffer (small_fs sample_flash, inline_file [1, 2, 3, 4, 5]) (replicate 8 0)) 2 [[9], [8]] = Inr (True, b')
     \<and> hb_view b' = [1, 2, 9, 8, 3, 4, 5]"
proof -
  let ?I = "sample_ini 4 20" and ?F = "handle_ops (stm32_config 0 (\<lambda>_. 7) LE False)"
  let ?b = "FileBuffer (small_fs sample_flash, inline_file [1, 2, 3, 4, 5]) (replicate 8 0)"
  have i: "insertable (handle_ops (stm32_config 0 (\<lambda>_. 7) LE False)) (inline_good stm32_ok st_mem stm32_writable 21)
      (handle_cont st_mem) ?I (FileBuffer (small_fs sample_flash, inline_file [1, 2, 3, 4, 5]) (replicate 8 0)) 2 [[9], [8]]"
    and v: "hb_view (FileBuffer (small_fs sample_flash, inline_file [1, 2, 3, 4, 5]) (replicate 8 0)) = [1, 2, 3, 4, 5]"
    using sample_insertable [of "[1, 2, 3, 4, 5]" 2 4 "replicate 8 0" "[[9], [8]]"] by simp_all
  have "length [1, 2, 3, 4, 5 :: byte] + length (concat [[9], [8 :: byte]]) \<le> 21" "(21 :: nat) < 2 ^ 62"
    "length [1, 2, 3, 4, 5 :: byte] - 2 \<le> line_buffer_size ?I mod 2 ^ 32" by simp_all
  from ini_insert_moves_tail [OF i, unfolded v, OF this refl] obtain b' where
    "ini_insert ?I ?F ?b 2 [[9], [8]] = Inr (True, b')"
    "hb_view b' = take 2 [1, 2, 3, 4, 5] @ concat [[9], [8]] @ drop 2 [1, 2, 3, 4, 5]" by blast
  then show ?thesis by (intro exI [of _ b']) (simp add: eval_nat_numeral)
qed

text \<open>
  When the bytes behind the place are more than the line buffer holds, inserting copies some of
  them twice: the second read of the loop starts behind the values that were just written, and not
  behind what the first read took, so the file grows by a whole line buffer.
\<close>

theorem ini_insert_copies_twice:
  assumes "insertable F (inline_good stm32_ok st_mem stm32_writable N) (handle_cont st_mem) I b p values"
    "n = line_buffer_size I mod 2 ^ 32" "R = drop p (hb_view b)" "concat values \<noteq> []" "length (concat values) < n"
    "n < length R" "length R \<le> n + length (concat values)" "length (hb_view b) + n \<le> N" "N < 2 ^ 62"
    "F = handle_ops (stm32_config P crc e keep)"
  shows "\<exists>b'. ini_insert I F b p values = Inr (True, b')
    \<and> hb_view b' = take p (hb_view b) @ concat values @ take n R @ drop (length (concat values)) R
    \<and> hb_view b' \<noteq> take p (hb_view b) @ concat values @ R"
proof -
  from il.insert_twice [OF assms(1) [unfolded assms(10)] assms(2-9)] obtain b' where
    b': "ini_insert I F b p values = Inr (True, b')"
      "hb_view b' = take p (hb_view b) @ concat values @ take n R @ drop (length (concat values)) R"
    unfolding assms(10) by blast
  have "take n R @ drop (length (concat values)) R \<noteq> R"
  proof
    assume "take n R @ drop (length (concat values)) R = R"
    then have "length (take n R) + length (drop (length (concat values)) R) = length R" by (metis length_append)
    then show False using assms(5,6) by simp
  qed
  then show ?thesis using b' by simp
qed

theorem ini_insert_copies_twice_witness:
  "\<exists>b'. ini_insert (sample_ini 4 20) (handle_ops (stm32_config 0 (\<lambda>_. 7) LE False))
     (FileBuffer (small_fs sample_flash, inline_file [1, 2, 3, 4, 5]) (replicate 8 0)) 0 [[9]] = Inr (True, b')
     \<and> hb_view b' = [9, 1, 2, 3, 4, 2, 3, 4, 5]"
proof -
  let ?I = "sample_ini 4 20" and ?F = "handle_ops (stm32_config 0 (\<lambda>_. 7) LE False)"
  let ?b = "FileBuffer (small_fs sample_flash, inline_file [1, 2, 3, 4, 5]) (replicate 8 0)"
  have i: "insertable ?F (inline_good stm32_ok st_mem stm32_writable 21)
      (handle_cont st_mem) ?I (FileBuffer (small_fs sample_flash, inline_file [1, 2, 3, 4, 5]) (replicate 8 0)) 0 [[9]]"
    and v: "hb_view (FileBuffer (small_fs sample_flash, inline_file [1, 2, 3, 4, 5]) (replicate 8 0)) = [1, 2, 3, 4, 5]"
    using sample_insertable [of "[1, 2, 3, 4, 5]" 0 4 "replicate 8 0" "[[9]]"] by simp_all
  have n: "line_buffer_size ?I mod 2 ^ 32 = 4" by simp
  have "concat [[9 :: byte]] \<noteq> []" "length (concat [[9 :: byte]]) < 4" "4 < length (drop 0 [1, 2, 3, 4, 5 :: byte])"
    "length (drop 0 [1, 2, 3, 4, 5 :: byte]) \<le> 4 + length (concat [[9 :: byte]])"
    "length [1, 2, 3, 4, 5 :: byte] + 4 \<le> 21" "(21 :: nat) < 2 ^ 62" by simp_all
  from ini_insert_copies_twice [OF i n [symmetric] refl, unfolded v, OF this refl] obtain b' where
    "ini_insert ?I ?F ?b 0 [[9]] = Inr (True, b')"
    "hb_view b' = take 0 [1, 2, 3, 4, 5] @ concat [[9]] @ take 4 (drop 0 [1, 2, 3, 4, 5])
       @ drop (length (concat [[9 :: byte]])) (drop 0 [1, 2, 3, 4, 5])" by blast
  then show ?thesis by (intro exI [of _ b']) (simp add: eval_nat_numeral)
qed

text \<open>
  A blob is found again: written to a new section as hexadecimal digits, written back and read
  into memory of at least its size, the bytes are the same, and the view that is returned has
  their number.
\<close>

theorem ini_blob_round_trip:
  assumes "rewindable F (inline_good stm32_ok st_mem stm32_writable N) (handle_cont st_mem) b" "blob_library I blob"
    "appendable (length (fb_data b)) N I W (hb_view b) sec key (blob_digits blob) comment" "length blob \<le> length dst"
    "F = handle_ops (stm32_config P crc e keep)"
  shows "\<exists>b1 b2 b3. ini_write_blob I F b sec key blob comment = Inr (True, b1) \<and> flush_buffer F b1 = Inr (True, b2)
    \<and> ini_read_blob I F b2 sec key dst = Inr (True, blob, b3)"
proof -
  from il.read_new_section_ok [OF assms(1) [unfolded assms(5)] assms(3) refl, folded assms(5)] obtain b1 b2 b3 where
    "ini_write I F b sec key (blob_digits blob) comment = Inr (True, b1)" "flush_buffer F b1 = Inr (True, b2)"
    and r: "ini_read I F b2 sec key = Inr (Some (blob_digits blob), b3)" by blast
  moreover have "ini_read_blob I F b2 sec key dst = Inr (True, blob, b3)" by (rule read_blob_text [OF r assms(4)])
  ultimately show ?thesis unfolding write_blob_text [OF assms(2)] by blast
qed

theorem ini_blob_round_trip_witness:
  "\<exists>b1 b2 b3. ini_write_blob (sample_ini 8 20) (handle_ops (stm32_config 0 (\<lambda>_. 7) LE False))
       (FileBuffer (small_fs sample_flash, inline_file []) (replicate 12 0)) [115] [107] [171] [] = Inr (True, b1)
     \<and> flush_buffer (handle_ops (stm32_config 0 (\<lambda>_. 7) LE False)) b1 = Inr (True, b2)
     \<and> ini_read_blob (sample_ini 8 20) (handle_ops (stm32_config 0 (\<lambda>_. 7) LE False)) b2 [115] [107] [0, 0]
         = Inr (True, [171], b3)"
proof -
  let ?I = "sample_ini 8 20" and ?x = "(small_fs sample_flash, inline_file [])"
  let ?F = "handle_ops (stm32_config 0 (\<lambda>_. 7) LE False)" and ?b = "FileBuffer ?x (replicate 12 0)"
  let ?V = "[91, 115, 93, 10, 9, 107, 32, 61, 32, 65, 66, 10] :: byte list"
  have d: "blob_digits [171] = [65, 66]" by (simp add: blob_digits_def two_digits_def hex_digit_def)
  have rw: "rewindable ?F (inline_good stm32_ok st_mem stm32_writable 21) (handle_cont st_mem) ?b"
    and n: "hb_view ?b = []"
    using fresh_rewindable [of "[]" "replicate 12 0"] by simp_all
  have V: "[] @ new_entry ?I [] [115] [107] [65, 66] [] = ?V"
    by (simp add: new_entry_def section_text_def key_text_def key_pieces_def)
  have fl: "file_lines ?V = [[91, 115, 93], [9, 107, 32, 61, 32, 65, 66]]"
    using file_lines_line [of "[91, 115, 93]" "[9, 107, 32, 61, 32, 65, 66, 10]"]
      file_lines_line [of "[9, 107, 32, 61, 32, 65, 66]" "[]"] by simp
  have "appendable (length (fb_data ?b)) 21 ?I {9, 32} (hb_view ?b) [115] [107] (blob_digits [171]) []"
    using sample_library [of 8 20] unfolding appendable_def n d V fl
    by (simp add: clean_entry_def clean_def sample_ini_def bounded_string_holds)
  moreover have "blob_library ?I [171]"
    using sample_appends [of 8 20 20] by (simp add: blob_library_def sample_ini_def bounded_string_def)
  moreover have "length [171 :: byte] \<le> length [0, 0 :: byte]" by simp
  ultimately show ?thesis using ini_blob_round_trip [OF rw _ _ _ refl] by blast
qed



end
