(* ===== verification/Commands.thy ===== *)
theory Commands
  imports VfsServer
begin

text \<open>
  The command line over the virtual file system server: the parser (\<open>src_vfs/CommandParser\<close>), the
  commands (\<open>src_vfs/FilesystemCommands\<close>, \<open>src_vfs/TestCommands\<close>, \<open>src_vfs/ExampleCommands.h\<close> and
  those of \<open>src_vfs/main.cc\<close>) and the loops of \<open>main\<close> that run them.
\<close>

section \<open>Strings\<close>

definition newline :: "byte list" where "newline = [10]"

text \<open>\<open>std::string::operator<\<close>, which compares bytes as unsigned numbers.\<close>

fun bytes_less :: "byte list \<Rightarrow> byte list \<Rightarrow> bool" where
  "bytes_less xs [] = False"
| "bytes_less [] (y # ys) = True"
| "bytes_less (x # xs) (y # ys) = (x < y \<or> x = y \<and> bytes_less xs ys)"

text \<open>\<open>std::transform\<close> with \<open>tolower\<close>, in the C locale.\<close>

definition to_lower :: "byte \<Rightarrow> byte" where
  "to_lower b = (if 65 \<le> b \<and> b \<le> 90 then b + 32 else b)"

definition lower :: "byte list \<Rightarrow> byte list" where
  "lower s = map to_lower s"

text \<open>\<open>isspace\<close> in the C locale.\<close>

definition is_blank :: "byte \<Rightarrow> bool" where
  "is_blank b = (b = 32 \<or> 9 \<le> b \<and> b \<le> 13)"

text \<open>\<open>std::to_string\<close> of an unsigned number.\<close>

definition digit :: "nat \<Rightarrow> byte" where
  "digit n = word_of_nat (48 + n)"

fun to_dec :: "nat \<Rightarrow> byte list" where
  "to_dec n = (if n < 10 then [digit n] else to_dec (n div 10) @ [digit (n mod 10)])"

declare to_dec.simps [simp del]

text \<open>
  What \<open>std::stoi\<close> and \<open>std::stoul\<close> read: blanks, a sign, digits. Without a digit they throw
  \<open>std::invalid_argument\<close>, for a number that does not fit \<open>std::out_of_range\<close>. The result is the
  sign and the number.
\<close>

definition is_dec_digit :: "byte \<Rightarrow> bool" where
  "is_dec_digit b = (48 \<le> b \<and> b \<le> 57)"

definition of_digits :: "byte list \<Rightarrow> nat" where
  "of_digits ds = foldl (\<lambda>n d. 10 * n + (unat d - 48)) 0 ds"

definition scan_number :: "byte list \<Rightarrow> (bool \<times> nat) res" where
  "scan_number s =
     (let s = dropWhile is_blank s; minus = starts_with 45 s;
          s = (if minus \<or> starts_with 43 s then tl s else s); ds = takeWhile is_dec_digit s
      in if ds = [] then Inl Invalid_argument else Inr (minus, of_digits ds))"

definition stoi :: "byte list \<Rightarrow> int res" where
  "stoi s = bindE (scan_number s) (\<lambda>(minus, n).
     let i = (if minus then - int n else int n)
     in if - (2 ^ 31) \<le> i \<and> i < 2 ^ 31 then Inr i else Inl Out_of_range)"

definition stoul :: "byte list \<Rightarrow> nat res" where
  "stoul s = bindE (scan_number s) (\<lambda>(minus, n).
     if n \<ge> 2 ^ 64 then Inl Out_of_range else Inr (if minus then sub64 0 n else n))"

section \<open>Results and commands\<close>

record command_result =
  cr_success :: bool
  cr_message :: "byte list"
  cr_output :: "byte list"
  cr_stop :: bool

definition cmd_result :: "bool \<Rightarrow> byte list \<Rightarrow> byte list \<Rightarrow> command_result" where
  "cmd_result success message output =
     \<lparr>cr_success = success, cr_message = message, cr_output = output, cr_stop = False\<rparr>"

definition cmd_failed :: "byte list \<Rightarrow> command_result" where
  "cmd_failed message = cmd_result False message []"

text \<open>The classes that derive from \<open>Command\<close>; the object of a command holds the server, and these.\<close>

datatype command =
    ListCommand | CatCommand | CopyCommand | MoveCommand | RemoveCommand | TouchCommand | HelpCommand
  | FormatCommand | ChangeDirectoryCommand | PrintWorkingDirectoryCommand | DOSChangeDriveCommand "byte list"
  | CommandQuit | CommandCleanup | TestCount
  | FileInfoCommand | DiskUsageCommand | HexDumpCommand | FindCommand | AppendCommand

text \<open>\<open>std::map\<close>: a list in the order of its keys.\<close>

type_synonym parser = "(byte list \<times> command) list"

fun parser_put :: "byte list \<Rightarrow> command \<Rightarrow> parser \<Rightarrow> parser" where
  "parser_put k c [] = [(k, c)]"
| "parser_put k c ((l, d) # p) =
     (if k = l then (k, c) # p else if bytes_less k l then (k, c) # (l, d) # p else (l, d) # parser_put k c p)"

definition register_command :: "parser \<Rightarrow> byte list \<Rightarrow> command option \<Rightarrow> byte list \<Rightarrow> parser" where
  "register_command p name command alias =
     (let lower_name = lower name
      in case command of
           None \<Rightarrow> p
         | Some c \<Rightarrow>
             let p = parser_put lower_name c p
             in if alias \<noteq> [] then parser_put (lower alias) c p else p)"

definition unregister_command :: "parser \<Rightarrow> byte list \<Rightarrow> parser" where
  "unregister_command p name = filter (\<lambda>x. fst x \<noteq> lower name) p"

definition has_command :: "parser \<Rightarrow> byte list \<Rightarrow> bool" where
  "has_command p name = (map_of p (lower name) \<noteq> None)"

definition get_available_commands :: "parser \<Rightarrow> byte list list" where
  "get_available_commands p =
     foldl (\<lambda>commands (name, cmd). if name \<notin> set commands then commands @ [name] else commands) [] p"

text \<open>
  \<open>split_command_line\<close>: the words between blanks (\<open>iss >> token\<close>), without the quotes around a
  word. \<open>token\<close> is the part of a word that has been read.
\<close>

fun blank_words :: "byte list \<Rightarrow> byte list \<Rightarrow> byte list list" where
  "blank_words token [] = (if token = [] then [] else [token])"
| "blank_words token (b # s) =
     (if \<not> is_blank b then blank_words (token @ [b]) s
      else if token = [] then blank_words [] s else token # blank_words [] s)"

definition unquote :: "byte list \<Rightarrow> byte list" where
  "unquote token =
     (if length token \<ge> 2 \<and> (hd token = 34 \<and> last token = 34 \<or> hd token = 39 \<and> last token = 39)
      then take (length token - 2) (drop 1 token) else token)"

definition split_command_line :: "byte list \<Rightarrow> byte list list" where
  "split_command_line command_line = map unquote (blank_words [] command_line)"

section \<open>The commands and the server\<close>

text \<open>What the callbacks of a listing capture.\<close>

record collected =
  co_output :: "byte list"
  co_total :: nat
  co_count :: nat

definition nothing_collected :: collected where
  "nothing_collected = \<lparr>co_output = [], co_total = 0, co_count = 0\<rparr>"

type_synonym ('w, 'h) server = "('w, 'h, collected) vfs"

text \<open>
  What the commands use besides the server: the operations and the destructor of the handles of
  the drives, \<open>what()\<close> of an exception and \<open>Tools::format( "/%s/%s", ... )\<close>, which is not part of
  the repository.
\<close>

record ('w, 'h) shell_env =
  se_ops :: "('w \<times> 'h) file_ops"
  se_destroy :: "'w \<Rightarrow> 'h \<Rightarrow> 'w res"
  se_what :: "error \<Rightarrow> byte list"
  se_format_path :: "byte list \<Rightarrow> byte list \<Rightarrow> byte list"

text \<open>
  A command returns its result and the server. When it has caught an exception, the server is
  \<open>None\<close>: the state that unwinding leaves behind is not followed.
\<close>

type_synonym ('w, 'h) execution = "(command_result \<times> ('w, 'h) server option) res"

text \<open>\<open>try { ... } catch( const std::exception & e ) { return {false, name + e.what(), ""}; }\<close>\<close>

definition caught :: "('w, 'h) shell_env \<Rightarrow> byte list \<Rightarrow> ('w, 'h) execution \<Rightarrow> ('w, 'h) execution" where
  "caught E name body =
     (case body of
        Inl e \<Rightarrow> if is_exception e then Inr (cmd_failed (name @ se_what E e), None) else Inl e
      | Inr x \<Rightarrow> Inr x)"

definition get_absolute_path :: "('w, 'h) shell_env \<Rightarrow> ('w, 'h) server \<Rightarrow> byte list \<Rightarrow> byte list" where
  "get_absolute_path E v path =
     (if \<not> starts_with slash path then se_format_path E (get_current_drive v) path else path)"

text \<open>
  Opening a file, and giving the handle back at once when it is not \<open>valid()\<close>; the operations of a
  handle; its destruction.
\<close>

definition cmd_close :: "('w, 'h) shell_env \<Rightarrow> ('w, 'h) server \<Rightarrow> opener \<Rightarrow> ('w, 'h) server res" where
  "cmd_close E v t = opener_close (se_destroy E) v t"

definition cmd_open :: "('w, 'h) shell_env \<Rightarrow> ('w, 'h) server \<Rightarrow> byte list \<Rightarrow> open_mode \<Rightarrow>
    (opener option \<times> ('w, 'h) server) res" where
  "cmd_open E v path m =
     bindE (vfs_open (se_ops E) v path m) (\<lambda>(t, v).
     case t of
       None \<Rightarrow> Inr (None, v)
     | Some t \<Rightarrow>
         if entry_valid (se_ops E) v (op_entry t) then Inr (Some t, v)
         else bindE (cmd_close E v t) (\<lambda>v. Inr (None, v)))"

definition cmd_file_size :: "('w, 'h) shell_env \<Rightarrow> ('w, 'h) server \<Rightarrow> opener \<Rightarrow> nat" where
  "cmd_file_size E v t =
     (case vs_entries v (op_entry t) of None \<Rightarrow> 0
      | Some e \<Rightarrow> th_file_size (se_ops E) (map_option (Pair (vs_world v)) (of_handle e), op_th t))"

definition cmd_eof :: "('w, 'h) shell_env \<Rightarrow> ('w, 'h) server \<Rightarrow> opener \<Rightarrow> bool" where
  "cmd_eof E v t =
     (case vs_entries v (op_entry t) of None \<Rightarrow> True
      | Some e \<Rightarrow> th_eof (se_ops E) (map_option (Pair (vs_world v)) (of_handle e), op_th t))"

definition cmd_read :: "('w, 'h) shell_env \<Rightarrow> ('w, 'h) server \<Rightarrow> opener \<Rightarrow> nat \<Rightarrow>
    (byte list \<times> opener \<times> ('w, 'h) server) res" where
  "cmd_read E v t n = opener_run (\<lambda>x. th_read (se_ops E) x n) v t"

definition cmd_write :: "('w, 'h) shell_env \<Rightarrow> ('w, 'h) server \<Rightarrow> opener \<Rightarrow> byte list \<Rightarrow>
    (nat \<times> opener \<times> ('w, 'h) server) res" where
  "cmd_write E v t d = opener_run (\<lambda>x. th_write (se_ops E) x d) v t"

definition cmd_flush :: "('w, 'h) shell_env \<Rightarrow> ('w, 'h) server \<Rightarrow> opener \<Rightarrow> (bool \<times> opener \<times> ('w, 'h) server) res" where
  "cmd_flush E v t = opener_run (th_flush (se_ops E)) v t"

text \<open>The open modes of the commands.\<close>

definition mode_in :: open_mode where
  "mode_in = \<lparr>mode_out = False, mode_app = False, mode_ate = False, mode_trunc = False\<rparr>"

definition mode_create :: open_mode where
  "mode_create = mode_in\<lparr>mode_out := True\<rparr>"

definition mode_append :: open_mode where
  "mode_append = mode_in\<lparr>mode_out := True, mode_app := True\<rparr>"

section \<open>Listing and showing files\<close>

definition list_entry :: "byte list \<Rightarrow> nat \<Rightarrow> byte list" where
  "list_entry name n = name @ bytes_of '' ('' @ to_dec n @ bytes_of '' bytes)'' @ newline"

definition run_ListCommand :: "('w, 'h) shell_env \<Rightarrow> ('w, 'h) server \<Rightarrow> byte list list \<Rightarrow> ('w, 'h) execution" where
  "run_ListCommand E v args =
     (if get_current_drive v = [] then
        let output = concat (map (\<lambda>d. slash # d @ newline) (get_drive_names v));
            output = (if output = [] then bytes_of ''(no drives registered)'' @ newline else output)
        in Inr (cmd_result True (bytes_of ''OK'') output, Some v)
      else
        bindE (vfs_list_files (\<lambda>c name n. (True, c\<lparr>co_output := co_output c @ list_entry name n\<rparr>))
                 (get_current_drive v) nothing_collected v) (\<lambda>(done, c, v).
        if \<not> done then Inr (cmd_failed (bytes_of ''Failed to list files''), Some v)
        else
          let output = (if co_output c = [] then bytes_of ''(empty directory)'' @ newline else co_output c)
          in Inr (cmd_result True (bytes_of ''OK'') output, Some v)))"

text \<open>
  The loop of \<open>cat\<close>. A round that reads nothing is the last one, so a file of \<open>n\<close> bytes needs at
  most \<open>n + 1\<close> rounds; the first argument counts them.
\<close>

fun cat_loop :: "nat \<Rightarrow> ('w, 'h) shell_env \<Rightarrow> ('w, 'h) server \<Rightarrow> opener \<Rightarrow> byte list \<Rightarrow>
    (byte list \<times> opener \<times> ('w, 'h) server) res" where
  "cat_loop 0 E v t content = Inl No_return"
| "cat_loop (Suc k) E v t content =
     bindE (cmd_read E v t 256) (\<lambda>(d, t, v).
     if length d > 0 then cat_loop k E v t (content @ d) else Inr (content, t, v))"

definition run_CatCommand :: "('w, 'h) shell_env \<Rightarrow> ('w, 'h) server \<Rightarrow> byte list list \<Rightarrow> ('w, 'h) execution" where
  "run_CatCommand E v args =
     (if length args < 2 then Inr (cmd_failed (bytes_of ''cat: missing filename argument''), Some v)
      else
        let filename = args ! 1
        in caught E (bytes_of ''cat: '')
          (bindE (cmd_open E v (get_absolute_path E v filename) mode_in) (\<lambda>(t, v).
           case t of
             None \<Rightarrow> Inr (cmd_failed (bytes_of ''cat: cannot open file: '' @ filename), Some v)
           | Some t \<Rightarrow>
               bindE (cat_loop (Suc (cmd_file_size E v t)) E v t []) (\<lambda>(content, t, v).
               bindE (cmd_close E v t) (\<lambda>v. Inr (cmd_result True (bytes_of ''OK'') content, Some v))))))"

section \<open>Copying, moving, deleting\<close>

text \<open>
  The loop of \<open>cp\<close> and \<open>append\<close>: the result tells whether all was written, and how many bytes
  (which only \<open>append\<close> counts).
\<close>

fun cp_loop :: "nat \<Rightarrow> ('w, 'h) shell_env \<Rightarrow> ('w, 'h) server \<Rightarrow> opener \<Rightarrow> opener \<Rightarrow> nat \<Rightarrow>
    (bool \<times> nat \<times> opener \<times> opener \<times> ('w, 'h) server) res" where
  "cp_loop 0 E v source_handle dest_handle total_bytes = Inl No_return"
| "cp_loop (Suc k) E v source_handle dest_handle total_bytes =
     bindE (cmd_read E v source_handle 256) (\<lambda>(d, source_handle, v).
     if length d > 0 then
       bindE (cmd_write E v dest_handle d) (\<lambda>(n, dest_handle, v).
       if n \<noteq> length d then Inr (False, total_bytes, source_handle, dest_handle, v)
       else cp_loop k E v source_handle dest_handle (total_bytes + length d))
     else Inr (True, total_bytes, source_handle, dest_handle, v))"

text \<open>Both handles are given back, the destination first.\<close>

definition close_both :: "('w, 'h) shell_env \<Rightarrow> ('w, 'h) server \<Rightarrow> opener \<Rightarrow> opener \<Rightarrow> command_result \<Rightarrow>
    ('w, 'h) execution" where
  "close_both E v source_handle dest_handle r =
     bindE (cmd_close E v dest_handle) (\<lambda>v. bindE (cmd_close E v source_handle) (\<lambda>v. Inr (r, Some v)))"

text \<open>What \<open>cp\<close> and \<open>append\<close> do with two handles, with the messages of the command.\<close>

definition copy_between :: "('w, 'h) shell_env \<Rightarrow> ('w, 'h) server \<Rightarrow> opener \<Rightarrow> opener \<Rightarrow> byte list \<Rightarrow> byte list \<Rightarrow>
    (nat \<Rightarrow> byte list) \<Rightarrow> ('w, 'h) execution" where
  "copy_between E v source_handle dest_handle write_error flush_error message =
     bindE (cp_loop (Suc (cmd_file_size E v source_handle)) E v source_handle dest_handle 0)
       (\<lambda>(done, total_bytes, source_handle, dest_handle, v).
     if \<not> done then close_both E v source_handle dest_handle (cmd_failed write_error)
     else
       bindE (cmd_flush E v dest_handle) (\<lambda>(done, dest_handle, v).
       close_both E v source_handle dest_handle
         (if done then cmd_result True (message total_bytes) [] else cmd_failed flush_error)))"

definition run_CopyCommand :: "('w, 'h) shell_env \<Rightarrow> ('w, 'h) server \<Rightarrow> byte list list \<Rightarrow> ('w, 'h) execution" where
  "run_CopyCommand E v args =
     (if length args < 3 then Inr (cmd_failed (bytes_of ''cp: missing source or destination argument''), Some v)
      else
        let source = args ! 1; dest = args ! 2
        in caught E (bytes_of ''cp: '')
          (bindE (cmd_open E v (get_absolute_path E v source) mode_in) (\<lambda>(s, v).
           case s of
             None \<Rightarrow> Inr (cmd_failed (bytes_of ''cp: cannot open source file: '' @ source), Some v)
           | Some source_handle \<Rightarrow>
               bindE (cmd_open E v (get_absolute_path E v dest) mode_create) (\<lambda>(d, v).
               case d of
                 None \<Rightarrow>
                   bindE (cmd_close E v source_handle) (\<lambda>v.
                   Inr (cmd_failed (bytes_of ''cp: cannot create destination file: '' @ dest), Some v))
               | Some dest_handle \<Rightarrow>
                   copy_between E v source_handle dest_handle (bytes_of ''cp: write error while copying'')
                     (bytes_of ''cp: flush error'')
                     (\<lambda>_. bytes_of ''File copied: '' @ source @ bytes_of '' -> '' @ dest)))))"

definition run_RemoveCommand :: "('w, 'h) shell_env \<Rightarrow> ('w, 'h) server \<Rightarrow> byte list list \<Rightarrow> ('w, 'h) execution" where
  "run_RemoveCommand E v args =
     (if length args < 2 then Inr (cmd_failed (bytes_of ''rm: missing filename argument''), Some v)
      else
        let filename = args ! 1
        in caught E (bytes_of ''rm: '')
          (bindE (cmd_open E v (get_absolute_path E v filename) mode_in) (\<lambda>(t, v).
           case t of
             None \<Rightarrow> Inr (cmd_failed (bytes_of ''rm: cannot open file: '' @ filename), Some v)
           | Some t \<Rightarrow>
               bindE (opener_run (th_delete_file (se_ops E)) v t) (\<lambda>(done, t, v).
               bindE (cmd_close E v t) (\<lambda>v.
               Inr (if done then cmd_result True (bytes_of ''File deleted: '' @ filename) []
                    else cmd_failed (bytes_of ''rm: cannot delete file: '' @ filename), Some v))))))"

definition copy_and_remove :: "('w, 'h) shell_env \<Rightarrow> ('w, 'h) server \<Rightarrow> byte list \<Rightarrow> byte list \<Rightarrow> ('w, 'h) execution" where
  "copy_and_remove E v source dest =
     bindE (run_CopyCommand E v [bytes_of ''cp'', source, dest]) (\<lambda>(copy_result, v).
     case v of
       None \<Rightarrow> Inr (copy_result, None)
     | Some v \<Rightarrow>
         if \<not> cr_success copy_result then Inr (copy_result, Some v)
         else
           bindE (run_RemoveCommand E v [bytes_of ''rm'', source]) (\<lambda>(rm_result, v).
           Inr (if \<not> cr_success rm_result
                then cmd_failed (bytes_of ''mv: copy succeeded but removal failed: '' @ source)
                else cmd_result True (bytes_of ''File moved: '' @ source @ bytes_of '' -> '' @ dest) [], v)))"

text \<open>The handle of the source is still open while \<open>copy_and_remove\<close> works.\<close>

definition run_MoveCommand :: "('w, 'h) shell_env \<Rightarrow> ('w, 'h) server \<Rightarrow> byte list list \<Rightarrow> ('w, 'h) execution" where
  "run_MoveCommand E v args =
     (if length args < 3 then Inr (cmd_failed (bytes_of ''mv: missing source or destination argument''), Some v)
      else
        let source = args ! 1; dest = args ! 2
        in caught E (bytes_of ''mv: '')
          (bindE (cmd_open E v (get_absolute_path E v source) mode_in) (\<lambda>(t, v).
           case t of
             None \<Rightarrow> Inr (cmd_failed (bytes_of ''mv: cannot open source file: '' @ source), Some v)
           | Some t \<Rightarrow>
               bindE (opener_run (\<lambda>x. th_rename_file (se_ops E) x (get_absolute_path E v dest)) v t) (\<lambda>(done, t, v).
               if done then
                 bindE (cmd_close E v t) (\<lambda>v.
                 Inr (cmd_result True (bytes_of ''File moved: '' @ source @ bytes_of '' -> '' @ dest) [], Some v))
               else
                 bindE (copy_and_remove E v source dest) (\<lambda>(r, v).
                 case v of
                   None \<Rightarrow> Inr (r, None)
                 | Some v \<Rightarrow> bindE (cmd_close E v t) (\<lambda>v. Inr (r, Some v)))))))"

definition run_TouchCommand :: "('w, 'h) shell_env \<Rightarrow> ('w, 'h) server \<Rightarrow> byte list list \<Rightarrow> ('w, 'h) execution" where
  "run_TouchCommand E v args =
     (if length args < 2 then Inr (cmd_failed (bytes_of ''touch: missing filename argument''), Some v)
      else
        let filename = args ! 1
        in caught E (bytes_of ''touch: '')
          (bindE (cmd_open E v (get_absolute_path E v filename) mode_append) (\<lambda>(t, v).
           case t of
             None \<Rightarrow> Inr (cmd_failed (bytes_of ''touch: cannot create file: '' @ filename), Some v)
           | Some t \<Rightarrow>
               bindE (cmd_flush E v t) (\<lambda>(done, t, v).
               bindE (cmd_close E v t) (\<lambda>v.
               Inr (if done then cmd_result True (bytes_of ''File created/touched: '' @ filename) []
                    else cmd_failed (bytes_of ''touch: flush error''), Some v))))))"

section \<open>Drives\<close>

definition help_heading :: "byte list" where
  "help_heading = newline @ bytes_of ''SimpleFlashFS Command Parser Help'' @ newline
     @ bytes_of ''================================='' @ newline @ newline
     @ bytes_of ''Available commands:'' @ newline @ newline"

definition help_footer :: "byte list" where
  "help_footer = newline @ bytes_of ''Use '' @ [39] @ bytes_of ''help <command>'' @ [39] @ bytes_of '' for more details on a specific command.'' @ newline"

definition run_HelpCommand :: "parser \<Rightarrow> ('w, 'h) server \<Rightarrow> byte list list \<Rightarrow> ('w, 'h) execution" where
  "run_HelpCommand p v args =
     Inr (cmd_result True (bytes_of ''OK'')
       (help_heading
        @ concat (map (\<lambda>cmd_name. if has_command p cmd_name then bytes_of ''  '' @ cmd_name @ newline else [])
            (get_available_commands p))
        @ help_footer), Some v)"

definition ends_with :: "byte \<Rightarrow> byte list \<Rightarrow> bool" where
  "ends_with x s = (s \<noteq> [] \<and> last s = x)"

definition run_FormatCommand :: "('w, 'h) shell_env \<Rightarrow> ('w, 'h) server \<Rightarrow> byte list list \<Rightarrow> ('w, 'h) execution" where
  "run_FormatCommand E v args =
     (if length args < 2 then Inr (cmd_failed (bytes_of ''format: missing drive argument''), Some v)
      else
        let drive = args ! 1; drive = (if ends_with 58 drive then butlast drive else drive)
        in caught E (bytes_of ''format: '')
          (if drive \<notin> set (get_drive_names v) then
             Inr (cmd_failed (bytes_of ''drive not found: '' @ drive), Some v)
           else
             bindE (vfs_create v drive) (\<lambda>v.
             Inr (cmd_result True (bytes_of ''Ok'') (bytes_of ''Drive formatted: '' @ drive @ newline), Some v))))"

definition normalize_drive_name :: "byte list \<Rightarrow> byte list" where
  "normalize_drive_name arg =
     (let normalized = (if arg \<noteq> [] \<and> last arg = 58 then butlast arg else arg)
      in if normalized \<noteq> [] \<and> hd normalized = slash then drop 1 normalized else normalized)"

definition run_ChangeDirectoryCommand :: "('w, 'h) server \<Rightarrow> byte list list \<Rightarrow> ('w, 'h) execution" where
  "run_ChangeDirectoryCommand v args =
     (if length args < 2 then
        (if get_drive_names v = [] then Inr (cmd_failed (bytes_of ''No drives registered''), Some v)
         else
           Inr (cmd_result True (bytes_of ''OK'')
             (bytes_of ''Available drives:'' @ newline
              @ concat (map (\<lambda>d. bytes_of ''  '' @ d @ (if d = get_current_drive v then bytes_of '' <- current'' else [])
                    @ newline) (get_drive_names v))
              @ newline @ bytes_of ''Usage: cd <drive>  (e.g., cd a, cd /b, cd a:, cd b:)'' @ newline), Some v))
      else
        let drive_name = normalize_drive_name (args ! 1)
        in if \<not> list_ex (\<lambda>d. d = drive_name) (get_drive_names v) then
             Inr (cmd_failed (bytes_of ''cd: drive not found: '' @ drive_name), Some v)
           else
             bindE (set_current_drive v drive_name) (\<lambda>(done, v).
             Inr (if done then cmd_result True (bytes_of ''OK'') (bytes_of ''Changed to drive: '' @ drive_name @ newline)
                  else cmd_failed (bytes_of ''cd: failed to change drive: '' @ drive_name), Some v)))"

definition run_PrintWorkingDirectoryCommand :: "('w, 'h) server \<Rightarrow> byte list list \<Rightarrow> ('w, 'h) execution" where
  "run_PrintWorkingDirectoryCommand v args =
     (let current_drive = get_current_drive v
      in Inr (if current_drive = [] then cmd_result True [] (slash # newline)
              else cmd_result True (bytes_of ''OK'') (slash # current_drive @ slash # newline), Some v))"

definition run_DOSChangeDriveCommand :: "byte list \<Rightarrow> ('w, 'h) server \<Rightarrow> byte list list \<Rightarrow> ('w, 'h) execution" where
  "run_DOSChangeDriveCommand name v args =
     bindE (set_current_drive v name) (\<lambda>(done, v).
     Inr (if \<not> done then cmd_failed (bytes_of ''cd: failed to change drive: '' @ name)
          else cmd_result True (bytes_of ''OK'') (bytes_of ''Drive changed to '' @ name @ newline), Some v))"

section \<open>The commands of \<open>main\<close> and of the tests\<close>

definition run_CommandQuit :: "('w, 'h) server \<Rightarrow> byte list list \<Rightarrow> ('w, 'h) execution" where
  "run_CommandQuit v args =
     Inr ((cmd_result True (bytes_of ''OK'') (bytes_of ''Exiting...'' @ newline))\<lparr>cr_stop := True\<rparr>, Some v)"

definition run_CommandCleanup :: "('w, 'h) server \<Rightarrow> byte list list \<Rightarrow> ('w, 'h) execution" where
  "run_CommandCleanup v args =
     bindE (vfs_cleanup v) (\<lambda>v.
     Inr (cmd_result True (bytes_of ''OK'') (bytes_of ''Cleanup completed.'' @ newline), Some v))"

text \<open>
  The loop of \<open>test_count\<close>. Its variable is a \<open>uint32_t\<close>, so a limit of \<open>2 ^ 32 - 1\<close> is never
  exceeded; the first argument counts the rounds. The handle of a round is destroyed in it.
\<close>

fun test_count_loop :: "nat \<Rightarrow> ('w, 'h) shell_env \<Rightarrow> ('w, 'h) server \<Rightarrow> byte list \<Rightarrow> nat \<Rightarrow> nat \<Rightarrow> ('w, 'h) execution" where
  "test_count_loop 0 E v filename max_val i = Inl No_return"
| "test_count_loop (Suc k) E v filename max_val i =
     (if \<not> i \<le> max_val then Inr (cmd_result True [] [], Some v)
      else
        let content = to_dec i @ newline
        in bindE (caught E (bytes_of ''count: '')
             (bindE (cmd_open E v filename mode_append) (\<lambda>(t, v).
              case t of
                None \<Rightarrow> Inr (cmd_failed (bytes_of ''count: cannot open file: '' @ filename), Some v)
              | Some t \<Rightarrow>
                  bindE (cmd_write E v t content) (\<lambda>(n, t, v).
                  bindE (cmd_close E v t) (\<lambda>v.
                  Inr (if n \<noteq> length content then cmd_failed (bytes_of ''count: write error'')
                       else cmd_result True [] [], Some v)))))) (\<lambda>(r, w).
           case w of
             None \<Rightarrow> Inr (r, None)
           | Some v \<Rightarrow>
               if \<not> cr_success r then Inr (r, Some v) else test_count_loop k E v filename max_val (add32 i 1)))"

definition run_TestCount :: "('w, 'h) shell_env \<Rightarrow> ('w, 'h) server \<Rightarrow> byte list list \<Rightarrow> ('w, 'h) execution" where
  "run_TestCount E v args =
     (if length args < 3 then Inr (cmd_failed (bytes_of ''format: missing FILENAME or MAX-VALUE''), Some v)
      else
        let filename = get_absolute_path E v (args ! 1)
        in bindE (stoul (args ! 2)) (\<lambda>n.
           let max_val = n mod 2 ^ 32 in test_count_loop (Suc max_val) E v filename max_val 1))"

section \<open>The example commands\<close>

text \<open>They take the path as it is given.\<close>

definition run_FileInfoCommand :: "('w, 'h) shell_env \<Rightarrow> ('w, 'h) server \<Rightarrow> byte list list \<Rightarrow> ('w, 'h) execution" where
  "run_FileInfoCommand E v args =
     (if length args < 2 then Inr (cmd_failed (bytes_of ''fileinfo: missing filename argument''), Some v)
      else
        let filename = args ! 1
        in caught E (bytes_of ''fileinfo: '')
          (bindE (cmd_open E v filename mode_in) (\<lambda>(t, v).
           case t of
             None \<Rightarrow> Inr (cmd_failed (bytes_of ''fileinfo: cannot open file: '' @ filename), Some v)
           | Some t \<Rightarrow>
               let output = bytes_of ''File: '' @ filename @ newline
                     @ bytes_of ''Size: '' @ to_dec (cmd_file_size E v t) @ bytes_of '' bytes'' @ newline
                     @ bytes_of ''Position: '' @ to_dec (th_pos (op_th t)) @ newline
                     @ bytes_of ''EOF: '' @ (if cmd_eof E v t then bytes_of ''yes'' else bytes_of ''no'') @ newline
               in bindE (cmd_close E v t) (\<lambda>v. Inr (cmd_result True (bytes_of ''OK'') output, Some v)))))"

definition run_DiskUsageCommand :: "('w, 'h) server \<Rightarrow> byte list list \<Rightarrow> ('w, 'h) execution" where
  "run_DiskUsageCommand v args =
     bindE (vfs_list_files (\<lambda>c name n. (True, c\<lparr>co_total := add64 (co_total c) n, co_count := add64 (co_count c) 1\<rparr>))
              [] nothing_collected v) (\<lambda>(done, c, v).
     if \<not> done then Inr (cmd_failed (bytes_of ''du: failed to list files''), Some v)
     else
       Inr (cmd_result True (bytes_of ''OK'')
         (bytes_of ''Disk Usage Statistics'' @ newline @ bytes_of ''===================='' @ newline
          @ bytes_of ''Total files: '' @ to_dec (co_count c) @ newline
          @ bytes_of ''Total size: '' @ to_dec (co_total c) @ bytes_of '' bytes'' @ newline
          @ bytes_of ''Average file size: ''
          @ (if co_count c > 0 then to_dec (co_total c div co_count c) else bytes_of ''0'')
          @ bytes_of '' bytes'' @ newline), Some v))"

definition hex_char :: "nat \<Rightarrow> byte" where
  "hex_char n = bytes_of ''0123456789ABCDEF'' ! n"

definition byte_to_hex :: "byte \<Rightarrow> byte list" where
  "byte_to_hex b = [hex_char (unat b div 16), hex_char (unat b mod 16)]"

text \<open>
  One line of the dump. The offset is filled up to four digits with a string of \<open>4 - length\<close> zeros;
  from five digits on that number wraps, and no string is as long.
\<close>

definition hex_column :: "byte list \<Rightarrow> nat \<Rightarrow> byte list" where
  "hex_column d i = (if i < length d then byte_to_hex (d ! i) @ bytes_of '' '' else bytes_of ''   '')
     @ (if i = 7 then bytes_of '' '' else [])"

definition hex_line :: "nat \<Rightarrow> byte list \<Rightarrow> byte list res" where
  "hex_line lines d =
     (let offset = to_dec (lines * 16); fill = sub64 4 (length offset)
      in if fill \<ge> 2 ^ 62 then Inl Length_error
         else Inr (replicate fill 48 @ offset @ bytes_of '': ''
           @ concat (map (hex_column d) [0..<16]) @ bytes_of '' | ''
           @ map (\<lambda>b. if 32 \<le> b \<and> b < 127 then b else 46) d @ newline))"

function hexdump_loop :: "('w, 'h) shell_env \<Rightarrow> ('w, 'h) server \<Rightarrow> opener \<Rightarrow> int \<Rightarrow> nat \<Rightarrow> byte list \<Rightarrow>
    (byte list \<times> opener \<times> ('w, 'h) server) res" where
  "hexdump_loop E v t max_lines lines output =
     (if \<not> int lines < max_lines then Inr (output, t, v)
      else
        bindE (cmd_read E v t 16) (\<lambda>(d, t, v).
        if \<not> length d > 0 then Inr (output, t, v)
        else bindE (hex_line lines d) (\<lambda>l. hexdump_loop E v t max_lines (Suc lines) (output @ l))))"
  by pat_completeness auto
termination
  by (relation "measure (\<lambda>(E, v, t, max_lines, lines, output). nat (max_lines - int lines))") auto

declare hexdump_loop.simps [simp del]

definition run_HexDumpCommand :: "('w, 'h) shell_env \<Rightarrow> ('w, 'h) server \<Rightarrow> byte list list \<Rightarrow> ('w, 'h) execution" where
  "run_HexDumpCommand E v args =
     (if length args < 2 then Inr (cmd_failed (bytes_of ''hexdump: missing filename argument''), Some v)
      else
        let filename = args ! 1
        in case (if length args \<ge> 3 then stoi (args ! 2) else Inr 16) of
             Inl e \<Rightarrow> Inr (cmd_failed (bytes_of ''hexdump: invalid line count''), Some v)
           | Inr max_lines \<Rightarrow>
               caught E (bytes_of ''hexdump: '')
                 (bindE (cmd_open E v filename mode_in) (\<lambda>(t, v).
                  case t of
                    None \<Rightarrow> Inr (cmd_failed (bytes_of ''hexdump: cannot open file: '' @ filename), Some v)
                  | Some t \<Rightarrow>
                      bindE (hexdump_loop E v t max_lines 0 []) (\<lambda>(output, t, v).
                      bindE (cmd_close E v t) (\<lambda>v. Inr (cmd_result True (bytes_of ''OK'') output, Some v))))))"

text \<open>\<open>filename.find( pattern ) != npos\<close>.\<close>

fun contains :: "byte list \<Rightarrow> byte list \<Rightarrow> bool" where
  "contains [] p = (p = [])"
| "contains (b # s) p = (take (length p) (b # s) = p \<or> contains s p)"

definition matches_pattern :: "byte list \<Rightarrow> byte list \<Rightarrow> bool" where
  "matches_pattern filename pattern = (if pattern = bytes_of ''*'' then True else contains filename pattern)"

definition run_FindCommand :: "('w, 'h) server \<Rightarrow> byte list list \<Rightarrow> ('w, 'h) execution" where
  "run_FindCommand v args =
     (if length args < 2 then Inr (cmd_failed (bytes_of ''find: missing search pattern''), Some v)
      else
        let pattern = args ! 1
        in bindE (vfs_list_files (\<lambda>c name n. (True,
                    if matches_pattern name pattern
                    then c\<lparr>co_output := co_output c @ list_entry name n, co_count := co_count c + 1\<rparr> else c))
                  [] nothing_collected v) (\<lambda>(done, c, v).
           Inr (if \<not> done then cmd_failed (bytes_of ''find: failed to list files'')
                else cmd_result True (bytes_of ''OK'')
                  (if co_count c = 0
                   then bytes_of ''(no files matching '' @ [39] @ pattern @ [39] @ bytes_of '')'' @ newline
                   else bytes_of ''Found '' @ to_dec (co_count c) @ bytes_of '' file(s):'' @ newline @ co_output c),
             Some v)))"

definition run_AppendCommand :: "('w, 'h) shell_env \<Rightarrow> ('w, 'h) server \<Rightarrow> byte list list \<Rightarrow> ('w, 'h) execution" where
  "run_AppendCommand E v args =
     (if length args < 3 then Inr (cmd_failed (bytes_of ''append: missing source or destination argument''), Some v)
      else
        let source = args ! 1; dest = args ! 2
        in caught E (bytes_of ''append: '')
          (bindE (cmd_open E v source mode_in) (\<lambda>(s, v).
           case s of
             None \<Rightarrow> Inr (cmd_failed (bytes_of ''append: cannot open source: '' @ source), Some v)
           | Some source_handle \<Rightarrow>
               bindE (cmd_open E v dest mode_append) (\<lambda>(d, v).
               case d of
                 None \<Rightarrow>
                   bindE (cmd_close E v source_handle) (\<lambda>v.
                   Inr (cmd_failed (bytes_of ''append: cannot open destination: '' @ dest), Some v))
               | Some dest_handle \<Rightarrow>
                   copy_between E v source_handle dest_handle (bytes_of ''append: write error'')
                     (bytes_of ''append: flush error'')
                     (\<lambda>n. bytes_of ''Appended '' @ to_dec n @ bytes_of '' bytes from '' @ source
                            @ bytes_of '' to '' @ dest)))))"

section \<open>Descriptions\<close>

text \<open>
  What the commands say about themselves; \<open>Tools::format\<close> of one argument is a parameter.
\<close>

fun get_description :: "(byte list \<Rightarrow> byte list \<Rightarrow> byte list) \<Rightarrow> command \<Rightarrow> byte list" where
  "get_description format ListCommand = bytes_of ''List files in a directory''"
| "get_description format CatCommand = bytes_of ''Display file contents''"
| "get_description format CopyCommand = bytes_of ''Copy file''"
| "get_description format MoveCommand = bytes_of ''Move or rename file''"
| "get_description format RemoveCommand = bytes_of ''Delete file''"
| "get_description format TouchCommand = bytes_of ''Create empty file''"
| "get_description format HelpCommand = bytes_of ''Show help information''"
| "get_description format FormatCommand = bytes_of ''Format drive''"
| "get_description format ChangeDirectoryCommand = bytes_of ''Change current drive''"
| "get_description format PrintWorkingDirectoryCommand = bytes_of ''Print current working drive''"
| "get_description format (DOSChangeDriveCommand name) = format (bytes_of ''Change current drive to %s'') name"
| "get_description format CommandQuit = bytes_of ''Quit the program''"
| "get_description format CommandCleanup = bytes_of ''Perform cleanup operations''"
| "get_description format TestCount = bytes_of ''write 1 to x into the file''"
| "get_description format FileInfoCommand = bytes_of ''Get file information''"
| "get_description format DiskUsageCommand = bytes_of ''Show disk usage''"
| "get_description format HexDumpCommand = bytes_of ''Display file in hex''"
| "get_description format FindCommand = bytes_of ''Find files by pattern''"
| "get_description format AppendCommand = bytes_of ''Append file to another''"

fun get_usage :: "(byte list \<Rightarrow> byte list \<Rightarrow> byte list) \<Rightarrow> command \<Rightarrow> byte list" where
  "get_usage format ListCommand = bytes_of ''ls [path]  - List files (default: a:)''"
| "get_usage format CatCommand = bytes_of ''cat <file>  - Display file contents''"
| "get_usage format CopyCommand = bytes_of ''cp <source> <dest>  - Copy file''"
| "get_usage format MoveCommand = bytes_of ''mv <source> <dest>  - Move/rename file''"
| "get_usage format RemoveCommand = bytes_of ''rm <file>  - Delete file''"
| "get_usage format TouchCommand = bytes_of ''touch <file>  - Create/touch file''"
| "get_usage format HelpCommand = bytes_of ''help, ?  - Show this help message''"
| "get_usage format FormatCommand = bytes_of ''format <drive>  - Format drive''"
| "get_usage format ChangeDirectoryCommand = bytes_of ''cd [drive]  - Change drive (a, b, /a, /b, a:, b:) or show all drives''"
| "get_usage format PrintWorkingDirectoryCommand = bytes_of ''pwd  - Print current working drive''"
| "get_usage format (DOSChangeDriveCommand name) = format (bytes_of ''%s: <drive>  - Change current drive (e.g., cd a, cd /b, cd a:, cd b:)'') name"
| "get_usage format CommandQuit = bytes_of ''quit  - Exit the program''"
| "get_usage format CommandCleanup = bytes_of ''cleanup  - Perform cleanup operations''"
| "get_usage format TestCount = bytes_of ''count [FILENAME MAX-VALUE] - write 1 to x into the file''"
| "get_usage format FileInfoCommand = bytes_of ''fileinfo <file>  - Show file details''"
| "get_usage format DiskUsageCommand = bytes_of ''du  - Display disk usage statistics''"
| "get_usage format HexDumpCommand = bytes_of ''hexdump <file> [lines]  - Show hex dump''"
| "get_usage format FindCommand = bytes_of ''find <pattern>  - Search for files''"
| "get_usage format AppendCommand = bytes_of ''append <src> <dest>  - Append file''"

section \<open>Running commands\<close>

text \<open>The virtual function \<open>execute\<close>; \<open>p\<close> is the parser that \<open>HelpCommand\<close> holds.\<close>

fun execute :: "('w, 'h) shell_env \<Rightarrow> parser \<Rightarrow> command \<Rightarrow> ('w, 'h) server \<Rightarrow> byte list list \<Rightarrow> ('w, 'h) execution" where
  "execute E p ListCommand v args = run_ListCommand E v args"
| "execute E p CatCommand v args = run_CatCommand E v args"
| "execute E p CopyCommand v args = run_CopyCommand E v args"
| "execute E p MoveCommand v args = run_MoveCommand E v args"
| "execute E p RemoveCommand v args = run_RemoveCommand E v args"
| "execute E p TouchCommand v args = run_TouchCommand E v args"
| "execute E p HelpCommand v args = run_HelpCommand p v args"
| "execute E p FormatCommand v args = run_FormatCommand E v args"
| "execute E p ChangeDirectoryCommand v args = run_ChangeDirectoryCommand v args"
| "execute E p PrintWorkingDirectoryCommand v args = run_PrintWorkingDirectoryCommand v args"
| "execute E p (DOSChangeDriveCommand name) v args = run_DOSChangeDriveCommand name v args"
| "execute E p CommandQuit v args = run_CommandQuit v args"
| "execute E p CommandCleanup v args = run_CommandCleanup v args"
| "execute E p TestCount v args = run_TestCount E v args"
| "execute E p FileInfoCommand v args = run_FileInfoCommand E v args"
| "execute E p DiskUsageCommand v args = run_DiskUsageCommand v args"
| "execute E p HexDumpCommand v args = run_HexDumpCommand E v args"
| "execute E p FindCommand v args = run_FindCommand v args"
| "execute E p AppendCommand v args = run_AppendCommand E v args"

definition execute_from_args :: "('w, 'h) shell_env \<Rightarrow> parser \<Rightarrow> ('w, 'h) server \<Rightarrow> byte list list \<Rightarrow> ('w, 'h) execution" where
  "execute_from_args E p v args =
     (if args = [] then Inr (cmd_failed (bytes_of ''No command provided''), Some v)
      else
        let command = lower (args ! 0)
        in case map_of p command of
             None \<Rightarrow> Inr (cmd_failed (bytes_of ''Unknown command: '' @ command @ bytes_of ''. Type '' @ [39]
               @ bytes_of ''help'' @ [39] @ bytes_of '' for available commands.''), Some v)
           | Some c \<Rightarrow> execute E p c v args)"

definition execute_command_string :: "('w, 'h) shell_env \<Rightarrow> parser \<Rightarrow> ('w, 'h) server \<Rightarrow> byte list \<Rightarrow> ('w, 'h) execution" where
  "execute_command_string E p v command_line =
     (let args = split_command_line command_line
      in if args = [] then Inr (cmd_failed (bytes_of ''Empty command''), Some v) else execute_from_args E p v args)"

definition execute_command :: "('w, 'h) shell_env \<Rightarrow> parser \<Rightarrow> ('w, 'h) server \<Rightarrow> byte list list \<Rightarrow> ('w, 'h) execution" where
  "execute_command E p v argv = execute_from_args E p v (drop 1 argv)"

section \<open>The program\<close>

text \<open>What \<open>main\<close> registers.\<close>

definition main_commands :: parser where
  "main_commands = foldl (\<lambda>p (name, c, alias). register_command p (bytes_of name) (Some c) (bytes_of alias)) []
     [(''ls'', ListCommand, []), (''dir'', ListCommand, []), (''cat'', CatCommand, []),
      (''cp'', CopyCommand, []), (''mv'', MoveCommand, []), (''rm'', RemoveCommand, []),
      (''touch'', TouchCommand, []), (''help'', HelpCommand, ''?''), (''format'', FormatCommand, []),
      (''cd'', ChangeDirectoryCommand, []), (''pwd'', PrintWorkingDirectoryCommand, []),
      (''quit'', CommandQuit, []), (''a:'', DOSChangeDriveCommand (bytes_of ''a''), []),
      (''b:'', DOSChangeDriveCommand (bytes_of ''b''), []), (''cleanup'', CommandCleanup, []),
      (''test_count'', TestCount, [])]"

text \<open>
  The loop over the commands of the option \<open>-c\<close>, and the interactive one, over the lines of the
  input. Both print the output, and the message when the command failed; here they return these, and
  whether a command stopped them. An exception ends the first loop (and the program); the second one
  prints it and goes on. After an exception the state of the server is not followed.
\<close>

type_synonym 'v session = "(byte list \<times> byte list option) list \<times> bool \<times> 'v option"

definition shown :: "command_result \<Rightarrow> byte list \<times> byte list option" where
  "shown r = (cr_output r, if cr_success r then None else Some (cr_message r))"

fun run_commands :: "('w, 'h) shell_env \<Rightarrow> parser \<Rightarrow> ('w, 'h) server \<Rightarrow> byte list list \<Rightarrow> ('w, 'h) server session res" where
  "run_commands E p v [] = Inr ([], False, Some v)"
| "run_commands E p v (cmd # cmds) =
     bindE (execute_command_string E p v cmd) (\<lambda>(r, w).
     if cr_stop r then Inr ([shown r], True, w)
     else
       case w of
         None \<Rightarrow> Inr ([shown r], False, None)
       | Some v \<Rightarrow> bindE (run_commands E p v cmds) (\<lambda>(out, stopped, w). Inr (shown r # out, stopped, w)))"

fun run_interactive :: "('w, 'h) shell_env \<Rightarrow> parser \<Rightarrow> ('w, 'h) server \<Rightarrow> byte list list \<Rightarrow> ('w, 'h) server session res" where
  "run_interactive E p v [] = Inr ([], False, Some v)"
| "run_interactive E p v (line # lines) =
     (case execute_command_string E p v line of
        Inl e \<Rightarrow> if is_exception e then Inr ([([], Some (se_what E e))], False, None) else Inl e
      | Inr (r, w) \<Rightarrow>
          if cr_stop r then Inr ([shown r], True, w)
          else
            case w of
              None \<Rightarrow> Inr ([shown r], False, None)
            | Some v \<Rightarrow> bindE (run_interactive E p v lines) (\<lambda>(out, stopped, w). Inr (shown r # out, stopped, w)))"

end
