(* ===== verification/CommandSpec.thy ===== *)
theory CommandSpec
  imports Commands InlineFile
begin

text \<open>
  The loops of the commands over open files: what \<open>cat\<close>, \<open>hexdump\<close>, \<open>cp\<close> and \<open>append\<close> do to the
  contents, for any drive whose files keep the contract of \<^theory_text>\<open>FileInterface\<close>, and the interpretation
  of these contracts on the files of this file system.
\<close>

section \<open>The entry of an opener\<close>

definition holds_file :: "('w, 'h) server \<Rightarrow> nat \<Rightarrow> 'h \<Rightarrow> bool" where
  "holds_file v k h \<longleftrightarrow> map_option of_handle (vs_entries v k) = Some (Some h)"

text \<open>The server after an operation on the handle of entry \<open>k\<close>.\<close>

definition with_handle :: "('w, 'h) server \<Rightarrow> nat \<Rightarrow> 'w \<Rightarrow> 'h \<Rightarrow> ('w, 'h) server" where
  "with_handle v k w h = v\<lparr>vs_world := w,
     vs_entries := (vs_entries v)(k \<mapsto> (the (vs_entries v k))\<lparr>of_handle := Some h\<rparr>)\<rparr>"

lemma with_handle_simps [simp]:
  "vs_world (with_handle v k w h) = w" "vs_open_files (with_handle v k w h) = vs_open_files v"
  "vs_next (with_handle v k w h) = vs_next v" "vs_drives (with_handle v k w h) = vs_drives v"
  "vs_current (with_handle v k w h) = vs_current v"
  "holds_file (with_handle v k w h) j g \<longleftrightarrow> (if j = k then g = h else holds_file v j g)"
  by (auto simp: with_handle_def holds_file_def)

lemma with_handle_twice [simp]: "with_handle (with_handle v k w h) k w' h' = with_handle v k w' h'"
  by (simp add: with_handle_def)

lemma with_handle_refs:
  assumes "holds_file v k h0"
  shows "map_option of_refs (vs_entries (with_handle v k w h) j) = map_option of_refs (vs_entries v j)"
  using assms by (auto simp: with_handle_def holds_file_def)

lemma opener_run_holds:
  assumes "holds_file v (op_entry t) h" "f (Some (vs_world v, h), op_th t) = Inr (r, Some (w', h'), th)"
  shows "opener_run f v t = Inr (r, t\<lparr>op_th := th\<rparr>, with_handle v (op_entry t) w' h')"
  using assms by (auto simp: opener_run_def holds_file_def with_handle_def)

lemma size_holds:
  assumes "holds_file v (op_entry t) h" "uh_ok (se_ops E) (Some (vs_world v, h))"
  shows "cmd_file_size E v t = fi_file_size (se_ops E) (vs_world v, h)"
  using assms by (auto simp: cmd_file_size_def holds_file_def th_file_size_def)

lemma take_then_drop: "take n (drop p C) @ drop (p + min n (length C - p)) C = drop p C"
proof (cases "n \<le> length C - p")
  case True
  then have "drop (p + min n (length C - p)) C = drop n (drop p C)" by (simp add: add.commute)
  then show ?thesis by (metis append_take_drop_id)
qed simp

lemma overlay_then: "a \<le> length C \<Longrightarrow> overlay (overlay C a x) (a + length x) d = overlay C a (x @ d)"
  using overlay_overlay [of a C "length x" x d] by simp

section \<open>One file\<close>

text \<open>A drive whose handles are closed without an error as long as nothing was written.\<close>

locale drive_file = connected_file F good cont can
  for F :: "('w \<times> 'h) file_ops" and good cont can +
  fixes destroy :: "'w \<Rightarrow> 'h \<Rightarrow> 'w res" and clean :: "'h \<Rightarrow> bool"
  assumes destroy_clean: "good (w, h) \<Longrightarrow> clean h \<Longrightarrow> \<exists>w'. destroy w h = Inr w'"
    and seek_clean: "good (w, h) \<Longrightarrow> clean h \<Longrightarrow> fi_seek F (w, h) p = Inr (b, w', h') \<Longrightarrow> p \<le> length (cont (w, h)) \<Longrightarrow> clean h'"
    and read_clean: "good (w, h) \<Longrightarrow> clean h \<Longrightarrow> fi_read F (w, h) n = Inr (d, w', h') \<Longrightarrow> clean h'"
begin

lemma cmd_read_ok:
  assumes "se_ops E = F" "holds_file v (op_entry t) h" "good (vs_world v, h)"
    "th_pos (op_th t) \<le> length (cont (vs_world v, h))"
  shows "\<exists>w' h'. cmd_read E v t n = Inr (take n (drop (th_pos (op_th t)) (cont (vs_world v, h))),
      t\<lparr>op_th := (op_th t)\<lparr>th_pos := th_pos (op_th t) + min n (length (cont (vs_world v, h)) - th_pos (op_th t))\<rparr>\<rparr>,
      with_handle v (op_entry t) w' h')
    \<and> good (w', h') \<and> cont (w', h') = cont (vs_world v, h) \<and> can (w', h') = can (vs_world v, h) \<and> (clean h \<longrightarrow> clean h')"
proof -
  let ?p = "th_pos (op_th t)"
  from sync_ok [OF assms(3,4)] obtain x1 where
    x1: "th_sync F (vs_world v, h) ?p = Inr x1" "good x1" "cont x1 = cont (vs_world v, h)" "can x1 = can (vs_world v, h)"
      "fi_tellg F x1 = ?p" by blast
  obtain w1 h1 where e1: "x1 = (w1, h1)" by (cases x1)
  have c1: "clean h \<longrightarrow> clean h1"
    using x1(1) seek_clean [OF assms(3) _ _ assms(4)] by (auto simp: th_sync_def e1 res_simps split: if_splits)
  from read_ok [OF x1(2), of n] obtain x2 where
    x2: "fi_read F x1 n = Inr (take n (drop ?p (cont (vs_world v, h))), x2)" "good x2" "cont x2 = cont (vs_world v, h)"
      "fi_tellg F x2 = ?p + min n (length (cont (vs_world v, h)) - ?p)" "can x2 = can (vs_world v, h)"
    unfolding x1(3-5) by blast
  obtain w2 h2 where e2: "x2 = (w2, h2)" by (cases x2)
  have "clean h1 \<longrightarrow> clean h2" using read_clean x1(2) x2(1) by (auto simp: e1 e2)
  moreover have "th_read F (Some (vs_world v, h), op_th t) n = Inr (take n (drop ?p (cont (vs_world v, h))), Some (w2, h2),
      (op_th t)\<lparr>th_pos := ?p + min n (length (cont (vs_world v, h)) - ?p)\<rparr>)"
    using x1(1) x2(1,4) assms(3) by (simp add: th_read_def e2)
  ultimately show ?thesis using opener_run_holds [OF assms(2), of "\<lambda>x. th_read F x n"] c1 x2(2,3,5) assms(1)
    by (intro exI [of _ w2] exI [of _ h2]) (simp add: cmd_read_def e2)
qed

lemma cat_loop_ok:
  assumes "se_ops E = F" "holds_file v (op_entry t) h" "good (vs_world v, h)" "cont (vs_world v, h) = C"
    "th_pos (op_th t) \<le> length C" "length C - th_pos (op_th t) < k"
  shows "\<exists>t' w' h'. cat_loop k E v t acc = Inr (acc @ drop (th_pos (op_th t)) C, t', with_handle v (op_entry t) w' h')
    \<and> op_entry t' = op_entry t \<and> good (w', h') \<and> cont (w', h') = C \<and> (clean h \<longrightarrow> clean h')"
  using assms
proof (induction k arbitrary: v t h acc)
  case (Suc k)
  let ?p = "th_pos (op_th t)"
  have p: "?p \<le> length (cont (vs_world v, h))" using Suc.prems(4,5) by simp
  from cmd_read_ok [OF Suc.prems(1-3) p, of 256] obtain w1 h1 where
    r: "cmd_read E v t 256 = Inr (take 256 (drop ?p C),
          t\<lparr>op_th := (op_th t)\<lparr>th_pos := ?p + min 256 (length C - ?p)\<rparr>\<rparr>, with_handle v (op_entry t) w1 h1)"
    and h1: "good (w1, h1)" "cont (w1, h1) = C" "clean h \<longrightarrow> clean h1" unfolding Suc.prems(4) by blast
  let ?t = "t\<lparr>op_th := (op_th t)\<lparr>th_pos := ?p + min 256 (length C - ?p)\<rparr>\<rparr>" and ?v = "with_handle v (op_entry t) w1 h1"
  show ?case
  proof (cases "?p = length C")
    case True
    then show ?thesis using r h1 by (intro exI [of _ ?t] exI [of _ w1] exI [of _ h1]) simp
  next
    case False
    have lt: "length C - th_pos (op_th ?t) < k" using Suc.prems(5,6) False by simp
    have s: "holds_file ?v (op_entry ?t) h1" "good (vs_world ?v, h1)" "cont (vs_world ?v, h1) = C" "th_pos (op_th ?t) \<le> length C"
      using h1 Suc.prems(5) by simp_all
    from Suc.IH [OF Suc.prems(1) s lt, of "acc @ take 256 (drop ?p C)"] obtain t' w' h' where
      i: "cat_loop k E ?v ?t (acc @ take 256 (drop ?p C)) =
          Inr ((acc @ take 256 (drop ?p C)) @ drop (th_pos (op_th ?t)) C, t', with_handle ?v (op_entry ?t) w' h')"
        "op_entry t' = op_entry ?t" "good (w', h')" "cont (w', h') = C" "clean h1 \<longrightarrow> clean h'"
      by (elim exE conjE) (rule that, assumption+)
    have "take 256 (drop ?p C) @ drop (th_pos (op_th ?t)) C = drop ?p C"
      by (simp add: take_then_drop)
    then show ?thesis using r i False Suc.prems(5) h1(3) by (intro exI [of _ t'] exI [of _ w'] exI [of _ h']) simp
  qed
qed simp

text \<open>Giving back the last opener of a file that was only read, or one of several.\<close>

lemma cmd_close_ok:
  assumes "se_destroy E = destroy" "holds_file v (op_entry t) h" "good (vs_world v, h)"
    "clean h \<or> map_option of_refs (vs_entries v (op_entry t)) \<noteq> Some 1"
    "map_option of_refs (vs_entries v (op_entry t)) \<noteq> Some 0"
  shows "\<exists>v'. cmd_close E v t = Inr v'"
proof -
  from assms(2) obtain e where e: "vs_entries v (op_entry t) = Some e" "of_handle e = Some h" by (auto simp: holds_file_def)
  then show ?thesis using destroy_clean [OF assms(3)] assms(1,4,5) by (auto simp: cmd_close_def opener_close_def)
qed

end

section \<open>A dump\<close>

lemma to_dec_length:
  assumes "0 < k"
  shows "length (to_dec n) \<le> k \<longleftrightarrow> n < 10 ^ k"
  using assms
proof (induction k arbitrary: n)
  case (Suc k)
  show ?case
  proof (cases "n < 10")
    case True
    then show ?thesis using less_le_trans [of n 10 "10 ^ Suc k"] by (simp add: to_dec.simps [of n])
  next
    case False
    show ?thesis
    proof (cases "k = 0")
      case True
      have "0 < length (to_dec (n div 10))" by (subst to_dec.simps) simp
      then show ?thesis using False True by (simp add: to_dec.simps [of n])
    next
      case k: False
      have "length (to_dec (n div 10)) \<le> k \<longleftrightarrow> n div 10 < 10 ^ k" using Suc.IH k by simp
      also have "\<dots> \<longleftrightarrow> n < 10 ^ Suc k" by (simp add: div_less_iff_less_mult mult.commute)
      finally show ?thesis using False by (simp add: to_dec.simps [of n])
    qed
  qed
qed simp

text \<open>A line of the dump is shown exactly for the offsets of up to four digits.\<close>

definition dump_line :: "nat \<Rightarrow> byte list \<Rightarrow> byte list" where
  "dump_line lines d = replicate (4 - length (to_dec (lines * 16))) 48 @ to_dec (lines * 16) @ bytes_of '': ''
     @ concat (map (hex_column d) [0..<16]) @ bytes_of '' | ''
     @ map (\<lambda>b. if 32 \<le> b \<and> b < 127 then b else 46) d @ newline"

lemma hex_line_eq:
  assumes "lines < 2 ^ 31"
  shows "hex_line lines d = (if lines < 625 then Inr (dump_line lines d) else Inl Length_error)"
proof -
  let ?l = "length (to_dec (lines * 16))"
  have "lines * 16 < 10 ^ 11" using assms by simp
  then have l: "?l \<le> 11" using to_dec_length [of 11] by simp
  show ?thesis
  proof (cases "lines < 625")
    case True
    then have "?l \<le> 4" using to_dec_length [of 4 "lines * 16"] by simp
    then have "sub64 4 ?l = 4 - ?l" by (simp add: sub64_small)
    then show ?thesis using True by (simp add: hex_line_def Let_def dump_line_def)
  next
    case False
    then have "4 < ?l" using to_dec_length [of 4 "lines * 16"] by simp
    then have "sub64 4 ?l = 4 + 2 ^ 64 - ?l" using l by (simp add: sub64_wraps)
    then have "2 ^ 62 \<le> sub64 4 ?l" using l by simp
    then show ?thesis using False by (simp add: hex_line_def Let_def)
  qed
qed

context drive_file
begin

text \<open>The loop from line \<open>i\<close> on, at the position that belongs to it.\<close>

lemma hexdump_loop_ok:
  assumes "se_ops E = F" "holds_file v (op_entry t) h" "good (vs_world v, h)" "cont (vs_world v, h) = C"
    "th_pos (op_th t) = min (16 * i) (length C)" "m < 2 ^ 31" "i \<le> 625"
  shows "(m \<le> 625 \<or> length C \<le> 10000 \<longrightarrow> (\<exists>t' w' h'.
        hexdump_loop E v t m i out = Inr (out @ concat (map (\<lambda>j. dump_line j (take 16 (drop (16 * j) C)))
            [i..<min (nat m) ((length C + 15) div 16)]), t', with_handle v (op_entry t) w' h')
      \<and> op_entry t' = op_entry t \<and> good (w', h') \<and> cont (w', h') = C \<and> (clean h \<longrightarrow> clean h')))
    \<and> (625 < m \<and> 10000 < length C \<longrightarrow> hexdump_loop E v t m i out = Inl Length_error)"
  using assms
proof (induction "625 - i" arbitrary: v t h i out rule: less_induct)
  case less
  let ?p = "th_pos (op_th t)" and ?d = "take 16 (drop (16 * i) C)" and ?n = "(length C + 15) div 16"
  have p: "?p \<le> length (cont (vs_world v, h))" using less.prems(4,5) by simp
  have pd: "take 16 (drop ?p C) = ?d" using less.prems(5) by (cases "16 * i \<le> length C") simp_all
  from cmd_read_ok [OF less.prems(1-3) p, of 16] obtain w1 h1 where
    r: "cmd_read E v t 16 = Inr (?d,
          t\<lparr>op_th := (op_th t)\<lparr>th_pos := ?p + min 16 (length C - ?p)\<rparr>\<rparr>, with_handle v (op_entry t) w1 h1)"
    and h1: "good (w1, h1)" "cont (w1, h1) = C" "clean h \<longrightarrow> clean h1" unfolding less.prems(4) pd by blast
  let ?t = "t\<lparr>op_th := (op_th t)\<lparr>th_pos := ?p + min 16 (length C - ?p)\<rparr>\<rparr>" and ?v = "with_handle v (op_entry t) w1 h1"
  have le: "16 * i < length C \<longleftrightarrow> i < ?n"
    using less_eq_div_iff_mult_less_eq [of 16 "Suc i" "length C + 15"] by auto
  show ?case
  proof (cases "int i < m \<and> 16 * i < length C")
    case False
    then have up: "[i..<min (nat m) ?n] = []" using le by auto
    have "\<not> (625 < m \<and> 10000 < length C)" using False less.prems(7) by auto
    moreover have "\<exists>t' w' h'. hexdump_loop E v t m i out = Inr (out, t', with_handle v (op_entry t) w' h')
      \<and> op_entry t' = op_entry t \<and> good (w', h') \<and> cont (w', h') = C \<and> (clean h \<longrightarrow> clean h')"
    proof (cases "int i < m")
      case True
      then have "?d = []" using False by simp
      then have "hexdump_loop E v t m i out = Inr (out, ?t, ?v)" using r True by (subst hexdump_loop.simps) simp
      then show ?thesis using h1 by (intro exI [of _ ?t] exI [of _ w1] exI [of _ h1]) simp
    next
      case less_m: False
      have "with_handle v (op_entry t) (vs_world v) h = v"
        using less.prems(2) by (auto simp: with_handle_def holds_file_def fun_upd_idem)
      then show ?thesis using less_m less.prems(3,4)
        by (intro exI [of _ t] exI [of _ "vs_world v"] exI [of _ h]) (subst hexdump_loop.simps, simp)
    qed
    ultimately show ?thesis unfolding up by simp blast
  next
    case True
    have i: "i < 2 ^ 31" using less.prems(7) by simp
    have nz: "\<not> ?d = []" using True by simp
    show ?thesis
    proof (cases "i = 625")
      case at: True
      then have "hexdump_loop E v t m i out = Inl Length_error"
        using r True nz hex_line_eq [OF i, of ?d] by (subst hexdump_loop.simps) simp
      then show ?thesis using True at by simp
    next
      case False
      then have i625: "i < 625" using less.prems(7) by simp
      have step: "hexdump_loop E v t m i out = hexdump_loop E ?v ?t m (Suc i) (out @ dump_line i ?d)"
        using r True nz hex_line_eq [OF i, of ?d] i625 by (subst hexdump_loop.simps) simp
      have s: "holds_file ?v (op_entry ?t) h1" "good (vs_world ?v, h1)" "cont (vs_world ?v, h1) = C"
        "th_pos (op_th ?t) = min (16 * Suc i) (length C)" "Suc i \<le> 625"
        using h1 less.prems(5) True i625 by (auto simp: min_def)
      have up: "[i..<min (nat m) ?n] = i # [Suc i..<min (nat m) ?n]"
        using True le by (intro upt_conv_Cons) auto
      have "625 - Suc i < 625 - i" using i625 by simp
      note ih = less.hyps [OF this less.prems(1) s(1-4) less.prems(6) s(5), of "out @ dump_line i ?d"]
      show ?thesis unfolding step up using ih h1(3) by (auto simp: )
    qed
  qed
qed

end

section \<open>Two files\<close>

text \<open>
  A file that is read and one that is written, on the same drive: what is done to the one leaves
  the other alone.
\<close>

locale copying =
  src: drive_file F good cont can destroy clean + dst: bounded_file F dgood cont N
  for F :: "('w \<times> 'h) file_ops" and good cont can destroy clean dgood N +
  assumes read_frame: "good (w, h) \<Longrightarrow> dgood (w, g) \<Longrightarrow> fi_read F (w, h) n = Inr (d, w', h') \<Longrightarrow>
      dgood (w', g) \<and> cont (w', g) = cont (w, g)"
    and seek_frame: "good (w, h) \<Longrightarrow> dgood (w, g) \<Longrightarrow> p \<le> length (cont (w, h)) \<Longrightarrow> fi_seek F (w, h) p = Inr (b, w', h') \<Longrightarrow>
      dgood (w', g) \<and> cont (w', g) = cont (w, g)"
    and write_frame: "good (w, h) \<Longrightarrow> dgood (w, g) \<Longrightarrow> fi_tellg F (w, g) + length d \<le> N \<Longrightarrow>
      fi_write F (w, g) d = Inr (n, w', g') \<Longrightarrow> good (w', h) \<and> cont (w', h) = cont (w, h)"
    and dst_seek_frame: "good (w, h) \<Longrightarrow> dgood (w, g) \<Longrightarrow> p \<le> length (cont (w, g)) \<Longrightarrow> fi_seek F (w, g) p = Inr (b, w', g') \<Longrightarrow>
      good (w', h) \<and> cont (w', h) = cont (w, h)"
begin

lemma cmd_read_frame:
  assumes "se_ops E = F" "holds_file v (op_entry t) h" "good (vs_world v, h)"
    "th_pos (op_th t) \<le> length (cont (vs_world v, h))" "dgood (vs_world v, g)"
    "cmd_read E v t n = Inr (d, t', with_handle v (op_entry t) w' h')"
  shows "dgood (w', g) \<and> cont (w', g) = cont (vs_world v, g)"
proof -
  let ?p = "th_pos (op_th t)"
  from src.sync_ok [OF assms(3,4)] obtain w1 h1 where
    x1: "th_sync F (vs_world v, h) ?p = Inr (w1, h1)" "good (w1, h1)" by (metis prod.exhaust)
  have g1: "dgood (w1, g) \<and> cont (w1, g) = cont (vs_world v, g)"
    using x1(1) seek_frame [OF assms(3,5,4)] assms(5) by (auto simp: th_sync_def res_simps split: if_splits)
  from src.read_ok [OF x1(2), of n] obtain d2 w2 h2 where x2: "fi_read F (w1, h1) n = Inr (d2, w2, h2)" by (metis prod.exhaust)
  have "th_read F (Some (vs_world v, h), op_th t) n = Inr (d2, Some (w2, h2), (op_th t)\<lparr>th_pos := fi_tellg F (w2, h2)\<rparr>)"
    using x1(1) x2 assms(3) by (simp add: th_read_def)
  then have "cmd_read E v t n = Inr (d2, t\<lparr>op_th := (op_th t)\<lparr>th_pos := fi_tellg F (w2, h2)\<rparr>\<rparr>, with_handle v (op_entry t) w2 h2)"
    using opener_run_holds [OF assms(2), of "\<lambda>x. th_read F x n"] assms(1) by (simp add: cmd_read_def)
  then have "with_handle v (op_entry t) w' h' = with_handle v (op_entry t) w2 h2" using assms(6) by simp
  then have "w' = w2" by (metis with_handle_simps(1))
  then show ?thesis using read_frame [OF x1(2) _ x2] g1 by metis
qed

lemma cmd_write_ok:
  assumes "se_ops E = F" "holds_file v (op_entry t) g" "dgood (vs_world v, g)" "good (vs_world v, h)"
    "q = th_target (length (cont (vs_world v, g))) (op_th t)" "q \<le> length (cont (vs_world v, g))" "q + length d \<le> N"
  shows "\<exists>w' g'. cmd_write E v t d = Inr (length d, t\<lparr>op_th := (op_th t)\<lparr>th_pos := q + length d\<rparr>\<rparr>, with_handle v (op_entry t) w' g')
    \<and> dgood (w', g') \<and> cont (w', g') = overlay (cont (vs_world v, g)) q d \<and> good (w', h) \<and> cont (w', h) = cont (vs_world v, h)"
proof -
  from dst.sync_ok [OF assms(3,6)] obtain w1 g1 where
    x1: "th_sync F (vs_world v, g) q = Inr (w1, g1)" "dgood (w1, g1)" "cont (w1, g1) = cont (vs_world v, g)" "fi_tellg F (w1, g1) = q"
    by (metis prod.exhaust)
  have h1: "good (w1, h) \<and> cont (w1, h) = cont (vs_world v, h)"
    using x1(1) dst_seek_frame [OF assms(4,3,6)] assms(4) by (auto simp: th_sync_def res_simps split: if_splits)
  have fits: "fi_tellg F (w1, g1) + length d \<le> N" using assms(7) x1(4) by simp
  from dst.write_ok [OF x1(2) fits] obtain w2 g2 where
    x2: "fi_write F (w1, g1) d = Inr (length d, w2, g2)" "dgood (w2, g2)" "cont (w2, g2) = overlay (cont (vs_world v, g)) q d"
      "fi_tellg F (w2, g2) = q + length d"
    unfolding x1(3,4) by (metis prod.exhaust)
  have h2: "good (w2, h) \<and> cont (w2, h) = cont (vs_world v, h)"
    using write_frame [OF _ x1(2) fits x2(1), of h] h1 by simp
  have "(if th_append (op_th t) then fi_file_size F (vs_world v, g) else th_pos (op_th t)) = q"
    using assms(5) dst.size_eq [OF assms(3)] by (simp add: th_target_def)
  then have "th_write F (Some (vs_world v, g), op_th t) d = Inr (length d, Some (w2, g2), (op_th t)\<lparr>th_pos := q + length d\<rparr>)"
    using assms(3) x1(1) x2(1,4) by (simp add: th_write_def Let_def)
  then show ?thesis using opener_run_holds [OF assms(2), of "\<lambda>x. th_write F x d"] assms(1) x2 h2
    by (intro exI [of _ w2] exI [of _ g2]) (simp add: cmd_write_def)
qed

lemma cp_loop_ok:
  assumes "se_ops E = F" "holds_file v (op_entry s) h" "holds_file v (op_entry t) g" "op_entry s \<noteq> op_entry t"
    "good (vs_world v, h)" "dgood (vs_world v, g)" "cont (vs_world v, h) = C" "cont (vs_world v, g) = D"
    "th_pos (op_th s) \<le> length C" "th_target (length D) (op_th t) = q" "q \<le> length D"
    "q + (length C - th_pos (op_th s)) \<le> N" "length C - th_pos (op_th s) < k"
  shows "\<exists>s' t' v' h' g'. cp_loop k E v s t n = Inr (True, n + (length C - th_pos (op_th s)), s', t', v')
    \<and> op_entry s' = op_entry s \<and> op_entry t' = op_entry t
    \<and> holds_file v' (op_entry s) h' \<and> holds_file v' (op_entry t) g' \<and> good (vs_world v', h') \<and> dgood (vs_world v', g')
    \<and> cont (vs_world v', h') = C \<and> cont (vs_world v', g') = overlay D q (drop (th_pos (op_th s)) C) \<and> (clean h \<longrightarrow> clean h')"
  using assms
proof (induction k arbitrary: v s t h g D q n)
  case (Suc k)
  let ?p = "th_pos (op_th s)" and ?d = "take 256 (drop (th_pos (op_th s)) C)"
  have p: "?p \<le> length (cont (vs_world v, h))" using Suc.prems(7,9) by simp
  let ?s = "s\<lparr>op_th := (op_th s)\<lparr>th_pos := ?p + min 256 (length C - ?p)\<rparr>\<rparr>"
  from src.cmd_read_ok [OF Suc.prems(1,2,5) p, of 256] obtain w1 h1 where
    r: "cmd_read E v s 256 = Inr (?d, ?s, with_handle v (op_entry s) w1 h1)"
    and h1: "good (w1, h1)" "cont (w1, h1) = C" "clean h \<longrightarrow> clean h1" unfolding Suc.prems(7) by blast
  from cmd_read_frame [OF Suc.prems(1,2,5) p Suc.prems(6) r] Suc.prems(8) have g1: "dgood (w1, g)" "cont (w1, g) = D" by auto
  let ?v1 = "with_handle v (op_entry s) w1 h1"
  show ?case
  proof (cases "?p = length C")
    case True
    then show ?thesis using r h1 g1 Suc.prems(2-4)
      by (intro exI [of _ ?s] exI [of _ t] exI [of _ ?v1] exI [of _ h1] exI [of _ g]) simp
  next
    case False
    then have ne: "?d \<noteq> []" "length ?d = min 256 (length C - ?p)" using Suc.prems(9) by auto
    have fit: "q + length ?d \<le> N" using Suc.prems(12) by simp
    have o: "holds_file ?v1 (op_entry t) g" "dgood (vs_world ?v1, g)" "good (vs_world ?v1, h1)"
      "q = th_target (length (cont (vs_world ?v1, g))) (op_th t)" "q \<le> length (cont (vs_world ?v1, g))"
      using Suc.prems(3,4,10,11) g1 h1 by simp_all
    let ?t = "t\<lparr>op_th := (op_th t)\<lparr>th_pos := q + length ?d\<rparr>\<rparr>"
    from cmd_write_ok [OF Suc.prems(1) o fit] obtain w2 g2 where
      w: "cmd_write E ?v1 t ?d = Inr (length ?d, ?t, with_handle ?v1 (op_entry t) w2 g2)"
      and g2: "dgood (w2, g2)" "cont (w2, g2) = overlay D q ?d" "good (w2, h1)" "cont (w2, h1) = C"
      by (simp add: g1 h1) blast
    let ?v2 = "with_handle ?v1 (op_entry t) w2 g2" and ?D = "overlay D q ?d"
    have len: "length ?D = max (q + length ?d) (length D)" by (rule length_overlay_max [OF Suc.prems(11)])
    have pos: "th_pos (op_th ?s) = ?p + length ?d" using ne(2) by simp
    have s: "holds_file ?v2 (op_entry ?s) h1" "holds_file ?v2 (op_entry ?t) g2" "op_entry ?s \<noteq> op_entry ?t"
      "good (vs_world ?v2, h1)" "dgood (vs_world ?v2, g2)" "cont (vs_world ?v2, h1) = C" "cont (vs_world ?v2, g2) = ?D"
      "th_pos (op_th ?s) \<le> length C" "q + length ?d \<le> length ?D"
      "q + length ?d + (length C - th_pos (op_th ?s)) \<le> N" "length C - th_pos (op_th ?s) < k"
      using Suc.prems(2-4,9,12,13) g2 ne unfolding pos len by auto
    have tg: "th_target (length ?D) (op_th ?t) = q + length ?d"
      using Suc.prems(10,11) unfolding len by (auto simp: th_target_def)
    from Suc.IH [OF Suc.prems(1) s(1-8) tg s(9-11), of "n + length ?d"] obtain s' t' v' h' g' where
      i: "cp_loop k E ?v2 ?s ?t (n + length ?d) = Inr (True, n + length ?d + (length C - th_pos (op_th ?s)), s', t', v')"
        "op_entry s' = op_entry ?s" "op_entry t' = op_entry ?t" "holds_file v' (op_entry ?s) h'" "holds_file v' (op_entry ?t) g'"
        "good (vs_world v', h')" "dgood (vs_world v', g')" "cont (vs_world v', h') = C"
        "cont (vs_world v', g') = overlay ?D (q + length ?d) (drop (th_pos (op_th ?s)) C)" "clean h1 \<longrightarrow> clean h'"
      by (elim exE conjE) (rule that, assumption+)
    have ops: "op_entry ?s = op_entry s" "op_entry ?t = op_entry t" by simp_all
    have "overlay ?D (q + length ?d) (drop (th_pos (op_th ?s)) C) = overlay D q (?d @ drop (th_pos (op_th ?s)) C)"
      by (rule overlay_then [OF Suc.prems(11)])
    also have "?d @ drop (th_pos (op_th ?s)) C = drop ?p C" using take_then_drop [of 256 ?p C] by simp
    finally have D: "overlay ?D (q + length ?d) (drop (th_pos (op_th ?s)) C) = overlay D q (drop ?p C)" .
    have nn: "n + length ?d + (length C - th_pos (op_th ?s)) = n + (length C - ?p)" using s(8) unfolding pos by simp
    have "cp_loop (Suc k) E v s t n = cp_loop k E ?v2 ?s ?t (n + length ?d)"
      unfolding cp_loop.simps r w bindE_Inr prod.case using ne(1) by simp
    then have "cp_loop (Suc k) E v s t n = Inr (True, n + (length C - ?p), s', t', v')" unfolding i(1) nn .
    then show ?thesis using i(2-5) [unfolded ops] i(6-8,10) i(9) [unfolded D] h1(3) by blast
  qed
qed simp

end

section \<open>The files of this file system\<close>

context fs_on_flash
begin

lemma same_flash_handle:
  assumes "same_flash (flash c) ok cells writable (mem s) m'" "handle_good ok cells writable (s, f)"
  shows "handle_good ok cells writable (s\<lparr>mem := m'\<rparr>, f)" "handle_cont cells (s\<lparr>mem := m'\<rparr>, f) = handle_cont cells (s, f)"
proof -
  have sp: "get_inode_data_space_size (s\<lparr>mem := m'\<rparr>) i = get_inode_data_space_size s i" for i
    by (simp add: get_inode_data_space_size_def get_checksum_size_def)
  show "handle_good ok cells writable (s\<lparr>mem := m'\<rparr>, f)"
    using assms(2) same_flash_io(1) [OF assms(1)] by (simp add: handle_good_def file_ok_def sp)
  show "handle_cont cells (s\<lparr>mem := m'\<rparr>, f) = handle_cont cells (s, f)"
    using same_flash_io(2) [OF assms(1)] by (simp add: handle_cont_def contents_def)
qed

lemma handle_read_world:
  assumes "handle_good ok cells writable (s, f)" "fi_read (handle_ops c) (s, f) n = Inr (d, s', f')"
  shows "\<exists>m'. s' = s\<lparr>mem := m'\<rparr> \<and> same_flash (flash c) ok cells writable (mem s) m' \<and> modified f' = modified f"
proof -
  have "file_ok ok cells writable s f" "connected f" using assms(1) by (simp_all add: handle_good_def)
  from handle_read_ok [OF this, of n] obtain m' where
    "FileHandle_read c s f n = Inr (take n (drop (fh_pos f) (contents cells s f)),
        f\<lparr>fh_pos := fh_pos f + min n (file_len (fh_inode f) - fh_pos f)\<rparr>, s\<lparr>mem := m'\<rparr>)"
    "same_flash (flash c) ok cells writable (mem s) m'" by blast
  then show ?thesis using assms(2) by (auto simp: handle_ops_def handle_res_def)
qed

lemma handle_seek_world:
  assumes "handle_good ok cells writable (s, f)" "fi_seek (handle_ops c) (s, f) p = Inr (b, s', f')"
    "p \<le> length (handle_cont cells (s, f))"
  shows "s' = s" "modified f' = modified f"
proof -
  have "p \<le> file_len (fh_inode f)"
    using assms(1,3) contents_length [of ok cells writable s f] by (simp add: handle_good_def handle_cont_def)
  from seek_inside [OF this, of s] show "s' = s" "modified f' = modified f"
    using assms(2) by (auto simp: handle_ops_def handle_res_def)
qed

lemma inline_write_world:
  assumes "inline_good ok cells writable N (s, f)" "fh_pos f + length d \<le> N"
    "fi_write (handle_ops c) (s, f) d = Inr (n, s', f')"
  shows "s' = s"
proof -
  have g: "file_ok ok cells writable s f" "connected f" "\<not> append_mode f" using assms(1) by (simp_all add: inline_good_def handle_good_def)
  note fit = inline_fits [OF assms(1,2)]
  have "0 < page_size (header s)" using g(1) by (simp add: file_ok_def)
  then have "FileHandle_write c s f d = write_inline s f d" using g(2,3) fit(1) by (simp add: FileHandle_write_def fs_write_def)
  then show ?thesis using assms(3) write_inline_ok [OF g(1) fit] by (auto simp: handle_ops_def handle_res_def)
qed

lemma handle_drive_file:
  "drive_file (handle_ops c) (handle_good ok cells writable) (handle_cont cells) handle_can
     (FileHandle_destroy c) (\<lambda>f. \<not> modified f)"
proof (intro drive_file.intro handle_connected drive_file_axioms.intro)
  show "\<exists>w'. FileHandle_destroy c w h = Inr w'" if "handle_good ok cells writable (w, h)" "\<not> modified h" for w h
    using that by (simp add: FileHandle_destroy_def flush_def)
qed (use handle_seek_world(2) handle_read_world in blast)+

lemma handle_copying:
  "copying (handle_ops c) (handle_good ok cells writable) (handle_cont cells) handle_can
     (FileHandle_destroy c) (\<lambda>f. \<not> modified f) (inline_good ok cells writable N) N"
proof (intro copying.intro handle_drive_file inline_contract copying_axioms.intro)
  fix s f g s' f' g' n d p b
  assume f: "handle_good ok cells writable (s, f)" and g: "inline_good ok cells writable N (s, g)"
  have g': "handle_good ok cells writable (s, g)" using g by (simp add: inline_good_def)
  show "inline_good ok cells writable N (s', g) \<and> handle_cont cells (s', g) = handle_cont cells (s, g)"
    if "fi_read (handle_ops c) (s, f) n = Inr (d, s', f')"
  proof -
    from handle_read_world [OF f that] obtain m' where
      m: "s' = s\<lparr>mem := m'\<rparr>" "same_flash (flash c) ok cells writable (mem s) m'" by blast
    have "get_inode_data_space_size s' i = get_inode_data_space_size s i" for i
      by (simp add: m(1) get_inode_data_space_size_def get_checksum_size_def)
    then show ?thesis using same_flash_handle [OF m(2) g'] g by (simp add: inline_good_def m(1))
  qed
  show "inline_good ok cells writable N (s', g) \<and> handle_cont cells (s', g) = handle_cont cells (s, g)"
    if "p \<le> length (handle_cont cells (s, f))" "fi_seek (handle_ops c) (s, f) p = Inr (b, s', f')"
    using handle_seek_world(1) [OF f that(2,1)] g by simp
  show "handle_good ok cells writable (s', f) \<and> handle_cont cells (s', f) = handle_cont cells (s, f)"
    if "p \<le> length (handle_cont cells (s, g))" "fi_seek (handle_ops c) (s, g) p = Inr (b, s', g')"
    using handle_seek_world(1) [OF g' that(2,1)] f by simp
  show "handle_good ok cells writable (s', f) \<and> handle_cont cells (s', f) = handle_cont cells (s, f)"
    if "fi_tellg (handle_ops c) (s, g) + length d \<le> N" "fi_write (handle_ops c) (s, g) d = Inr (n, s', g')" for d
  proof -
    have "fh_pos g + length d \<le> N" using that(1) by (simp add: handle_ops_def FileHandle_tellg_def)
    from inline_write_world [OF g this that(2)] show ?thesis using f by simp
  qed
qed

end

interpretation df: drive_file "handle_ops (stm32_config P crc e keep)" "handle_good stm32_ok st_mem stm32_writable"
  "handle_cont st_mem" handle_can "FileHandle_destroy (stm32_config P crc e keep)" "\<lambda>f. \<not> modified f"
  for P crc e keep
  by (rule fs_stm32.handle_drive_file)

interpretation cp: copying "handle_ops (stm32_config P crc e keep)" "handle_good stm32_ok st_mem stm32_writable"
  "handle_cont st_mem" handle_can "FileHandle_destroy (stm32_config P crc e keep)" "\<lambda>f. \<not> modified f"
  "inline_good stm32_ok st_mem stm32_writable N" N
  for P crc e keep N
  by (rule fs_stm32.handle_copying)

end
