(* ===== verification/CommandProps.thy ===== *)
theory CommandProps
  imports CommandSpec VfsProps LookupSpec
begin

text \<open>
  The properties of the command line, on the files of this file system on the simulated internal
  flash: what \<open>cat\<close>, \<open>cp\<close> and \<open>hexdump\<close> do with the contents of files, what \<open>mv\<close> does with their
  names, and how a command line is taken apart.
\<close>

section \<open>Opening\<close>

lemma make_opener_th: "\<not> mode_ate m \<Longrightarrow> op_th (fst (make_opener F v k m)) = \<lparr>th_pos = 0, th_append = mode_app m\<rparr>"
  by (simp add: make_opener_def ThreadedFileHandle_def split: option.split)

lemma open_on_drives_th:
  "open_on_drives F v key d p m ds = Inr (Some t, v') \<Longrightarrow> \<not> mode_ate m \<Longrightarrow> op_th t = \<lparr>th_pos = 0, th_append = mode_app m\<rparr>"
proof (induction ds arbitrary: v)
  case (Cons d ds)
  then show ?case using make_opener_th [of m F]
    by (auto simp: res_simps Let_def split_beta split: if_splits option.splits)
qed simp

lemma vfs_open_th:
  assumes "vfs_open F v path m = Inr (Some t, v')" "\<not> mode_ate m"
  shows "op_th t = \<lparr>th_pos = 0, th_append = mode_app m\<rparr>"
  using assms make_opener_th [OF assms(2), of F] open_on_drives_th [OF _ assms(2), of F]
  by (auto simp: vfs_open_def open_shared_def Let_def res_simps split_beta split: option.splits if_splits)

lemma mode_simps [simp]: "\<not> mode_ate mode_in" "\<not> mode_app mode_in" "\<not> mode_ate mode_create" "\<not> mode_app mode_create"
  by (simp_all add: mode_in_def mode_create_def)

text \<open>A shell over drives of this file system, and a file that an opener of it got.\<close>

definition shell_on :: "'m config \<Rightarrow> ('m fs, file_handle) shell_env \<Rightarrow> bool" where
  "shell_on c E \<longleftrightarrow> se_ops E = handle_ops c \<and> se_destroy E = FileHandle_destroy c"

definition opened :: "('m config) \<Rightarrow> ('m fs, file_handle) shell_env \<Rightarrow> ('m fs, file_handle) server \<Rightarrow> byte list \<Rightarrow> open_mode \<Rightarrow>
    opener \<Rightarrow> ('m fs, file_handle) server \<Rightarrow> file_handle \<Rightarrow> bool" where
  "opened c E v path m t v' f \<longleftrightarrow> shell_on c E \<and> vfs_open (handle_ops c) v path m = Inr (Some t, v')
     \<and> holds_file v' (op_entry t) f \<and> connected f"

lemma opened_cmd_open:
  assumes "opened c E v path m t v' f"
  shows "cmd_open E v path m = Inr (Some t, v')"
proof -
  from assms obtain e where e: "vs_entries v' (op_entry t) = Some e" "of_handle e = Some f" "connected f"
    by (auto simp: opened_def holds_file_def)
  have "entry_valid (handle_ops c) v' (op_entry t)" using e by (simp add: entry_valid_def uh_ok_def handle_ops_def)
  then show ?thesis using assms by (simp add: cmd_open_def opened_def shell_on_def)
qed

text \<open>The file can be closed without writing: it is unchanged, or somebody else has it open.\<close>

definition closes :: "('m fs, file_handle) server \<Rightarrow> nat \<Rightarrow> file_handle \<Rightarrow> bool" where
  "closes v k f \<longleftrightarrow> \<not> modified f \<or> (\<exists>n. map_option of_refs (vs_entries v k) = Some n \<and> 1 < n)"

lemma cmd_close_closes:
  assumes "shell_on c E" "holds_file v (op_entry t) f" "closes v (op_entry t) f"
  shows "\<exists>v'. cmd_close E v t = Inr v'"
  using assms
  by (auto simp: cmd_close_def opener_close_def holds_file_def closes_def shell_on_def FileHandle_destroy_def flush_def)

lemma closes_with_handle:
  assumes "closes v k f" "holds_file v k f" "\<not> modified f \<longrightarrow> \<not> modified g"
  shows "closes (with_handle v k w g) k g"
  using assms with_handle_refs [OF assms(2), of w g k] by (auto simp: closes_def)

section \<open>Showing a file\<close>

abbreviation good_file :: "stm32_flash fs \<Rightarrow> file_handle \<Rightarrow> bool" where
  "good_file s f \<equiv> handle_good stm32_ok st_mem stm32_writable (s, f)"

text \<open>
  C24. \<open>cat\<close> of a file that can be opened returns, and shows the whole contents of the file.
\<close>

theorem cat_shows_contents:
  assumes "opened (stm32_config P crc e keep) E v (get_absolute_path E v (args ! 1)) mode_in t v1 f"
    "2 \<le> length args" "good_file (vs_world v1) f" "closes v1 (op_entry t) f"
  shows "\<exists>v'. run_CatCommand E v args = Inr (cmd_result True (bytes_of ''OK'') (contents st_mem (vs_world v1) f), Some v')"
proof -
  let ?c = "stm32_config P crc e keep" and ?C = "contents st_mem (vs_world v1) f"
  have o: "shell_on ?c E" "vfs_open (handle_ops ?c) v (get_absolute_path E v (args ! 1)) mode_in = Inr (Some t, v1)"
    "holds_file v1 (op_entry t) f" "se_ops E = handle_ops ?c" using assms(1) by (simp_all add: opened_def shell_on_def)
  have th: "op_th t = \<lparr>th_pos = 0, th_append = False\<rparr>" using vfs_open_th [OF o(2)] by simp
  have C: "handle_cont st_mem (vs_world v1, f) = ?C" by (simp add: handle_cont_def)
  have sz: "cmd_file_size E v1 t = length ?C"
    using size_holds [OF o(3), of E] sf.uh_ok_good [OF assms(3), of P crc e keep] hf.size_eq [OF assms(3), of P crc e keep] o(4)
    by (simp add: C)
  from df.cat_loop_ok [OF o(4,3) assms(3) C, of "Suc (length ?C)" "[]"] th obtain t' w' f' where
    l: "cat_loop (Suc (cmd_file_size E v1 t)) E v1 t [] = Inr (?C, t', with_handle v1 (op_entry t) w' f')"
      "op_entry t' = op_entry t" "\<not> modified f \<longrightarrow> \<not> modified f'" by (auto simp: sz)
  have "closes (with_handle v1 (op_entry t) w' f') (op_entry t') f'"
    using closes_with_handle [OF assms(4) o(3) l(3)] l(2) by simp
  from cmd_close_closes [OF o(1) _ this] l(2) obtain v' where "cmd_close E (with_handle v1 (op_entry t) w' f') t' = Inr v'" by auto
  then show ?thesis using assms(2) opened_cmd_open [OF assms(1)] l(1)
    by (intro exI [of _ v']) (simp add: run_CatCommand_def caught_def)
qed

text \<open>
  C39. \<open>hexdump\<close> shows sixteen bytes in a line, at most as many lines as it was told to. When the
  file has more than 10000 bytes and more than 625 lines are wanted, it fails: the offset of the next
  line has five digits, and the number of zeros before it wraps to a string that cannot exist.
\<close>

theorem hexdump_shows_lines:
  assumes "opened (stm32_config P crc e keep) E v (args ! 1) mode_in t v1 f"
    "3 \<le> length args" "stoi (args ! 2) = Inr m" "good_file (vs_world v1) f" "closes v1 (op_entry t) f"
    "C = contents st_mem (vs_world v1) f"
  shows "(m \<le> 625 \<or> length C \<le> 10000 \<longrightarrow> (\<exists>v'. run_HexDumpCommand E v args = Inr (cmd_result True (bytes_of ''OK'')
        (concat (map (\<lambda>j. dump_line j (take 16 (drop (16 * j) C))) [0..<min (nat m) ((length C + 15) div 16)])), Some v')))
    \<and> (625 < m \<and> 10000 < length C \<longrightarrow>
        run_HexDumpCommand E v args = Inr (cmd_failed (bytes_of ''hexdump: '' @ se_what E Length_error), None))"
proof -
  let ?c = "stm32_config P crc e keep"
  have o: "shell_on ?c E" "vfs_open (handle_ops ?c) v (args ! 1) mode_in = Inr (Some t, v1)"
    "holds_file v1 (op_entry t) f" "se_ops E = handle_ops ?c" using assms(1) by (simp_all add: opened_def shell_on_def)
  have th: "th_pos (op_th t) = min (16 * 0) (length C)" using vfs_open_th [OF o(2)] by simp
  have C: "handle_cont st_mem (vs_world v1, f) = C" by (simp add: handle_cont_def assms(6))
  have m: "m < 2 ^ 31" using assms(3) by (auto simp: stoi_def res_simps Let_def split: if_splits)
  note l = df.hexdump_loop_ok [OF o(4,3) assms(4) C th m, of "[]", simplified]
  have run: "run_HexDumpCommand E v args = caught E (bytes_of ''hexdump: '')
      (bindE (hexdump_loop E v1 t m 0 []) (\<lambda>(output, t, v).
       bindE (cmd_close E v t) (\<lambda>v. Inr (cmd_result True (bytes_of ''OK'') output, Some v))))"
    using assms(2,3) opened_cmd_open [OF assms(1)] by (simp add: run_HexDumpCommand_def)
  show ?thesis
  proof (intro conjI impI)
    assume "m \<le> 625 \<or> length C \<le> 10000"
    with l obtain t' w' f' where
      h: "hexdump_loop E v1 t m 0 [] = Inr (concat (map (\<lambda>j. dump_line j (take 16 (drop (16 * j) C)))
            [0..<min (nat m) ((length C + 15) div 16)]), t', with_handle v1 (op_entry t) w' f')"
        "op_entry t' = op_entry t" "\<not> modified f \<longrightarrow> \<not> modified f'" by blast
    have "closes (with_handle v1 (op_entry t) w' f') (op_entry t') f'"
      using closes_with_handle [OF assms(5) o(3) h(3)] h(2) by simp
    from cmd_close_closes [OF o(1) _ this] h(2) obtain v' where "cmd_close E (with_handle v1 (op_entry t) w' f') t' = Inr v'" by auto
    then show "\<exists>v'. run_HexDumpCommand E v args = Inr (cmd_result True (bytes_of ''OK'')
        (concat (map (\<lambda>j. dump_line j (take 16 (drop (16 * j) C))) [0..<min (nat m) ((length C + 15) div 16)])), Some v')"
      using h(1) unfolding run by (simp add: caught_def)
  next
    assume "625 < m \<and> 10000 < length C"
    then have "hexdump_loop E v1 t m 0 [] = Inl Length_error" using l by blast
    then show "run_HexDumpCommand E v args = Inr (cmd_failed (bytes_of ''hexdump: '' @ se_what E Length_error), None)"
      unfolding run by (simp add: caught_def is_exception_def)
  qed
qed

section \<open>Copying a file\<close>


section \<open>Moving a file\<close>

text \<open>A flush changes nothing of the name of a file.\<close>

lemma set_pages_name [simp]: "file_name (fh_inode (set_pages f ps)) = file_name (fh_inode f)"
  by (simp add: set_pages_def)

lemma mark_stored_name [simp]: "file_name (fh_inode (mark_stored f r)) = file_name (fh_inode f)"
  by (simp add: mark_stored_def split: page_ref.split)

lemma write_page_name: "write_page c s f page r = Inr (b, f', s') \<Longrightarrow> file_name (fh_inode f') = file_name (fh_inode f)"
  by (auto simp: write_page_def Let_def res_simps split: if_splits prod.splits option.splits)

lemma write_zero_pages_name:
  "write_zero_pages_at c s f ks = Inr (b, f', s') \<Longrightarrow> file_name (fh_inode f') = file_name (fh_inode f)"
proof (induction ks arbitrary: s f)
  case (Cons k ks)
  then show ?case by (fastforce simp: res_simps split: if_splits dest!: write_page_name)
qed simp

lemma flush_name: "flush c s f = Inr (b, f', s') \<Longrightarrow> file_name (fh_inode f') = file_name (fh_inode f)"
  by (auto simp: flush_def flush_new_def flush_version_def Let_def res_simps write_zero_pages_def write_meta_page_def
      drop_deleted_def split: if_splits option.splits dest!: write_page_name write_zero_pages_name)

text \<open>
  \<open>mv\<close> gives a file the whole path of the destination as its name, with the drive in it. Opening
  the destination later asks the drive for the part of the path behind the drive, which is another
  name: the file cannot be reached by the path it was moved to.
\<close>

theorem mv_names_file_by_path:
  assumes "opened c E v (get_absolute_path E v (args ! 1)) mode_in t v1 f"
    "3 \<le> length args" "rename_file c (vs_world v1) f (get_absolute_path E v1 (args ! 2)) = Inr (done, f', s')"
    "\<not> starts_with slash (args ! 2)" "se_format_path E (get_current_drive v1) (args ! 2) = slash # d @ slash # args ! 2"
    "slash \<notin> set d"
  shows "run_MoveCommand E v args = caught E (bytes_of ''mv: '')
      (bindE (cmd_close E (with_handle v1 (op_entry t) s' f') t) (\<lambda>v.
       Inr (cmd_result True (bytes_of ''File moved: '' @ args ! 1 @ bytes_of '' -> '' @ args ! 2) [], Some v)))
    \<and> file_name (fh_inode f') = get_absolute_path E v1 (args ! 2)
    \<and> snd (parse_drive_name (get_absolute_path E v1 (args ! 2))) \<noteq> file_name (fh_inode f')"
proof -
  let ?p = "get_absolute_path E v1 (args ! 2)"
  have o: "holds_file v1 (op_entry t) f" "connected f" "se_ops E = handle_ops c" using assms(1) by (simp_all add: opened_def shell_on_def)
  have p: "?p = slash # d @ slash # args ! 2" using assms(4,5) by (simp add: get_absolute_path_def)
  have r: "done" "file_name (fh_inode f') = ?p"
    using assms(3) by (auto simp: rename_file_def Let_def res_simps FileHandle_flush_def dest!: flush_name)
  have "th_rename_file (handle_ops c) (Some (vs_world v1, f), op_th t) ?p = Inr (done, Some (s', f'), op_th t)"
    using o(2) assms(3) by (simp add: th_rename_file_def th_lift_def uh_ok_def handle_ops_def handle_res_def FileHandle_rename_file_def)
  from opener_run_holds [where f = "\<lambda>x. th_rename_file (handle_ops c) x ?p", OF o(1) this]
  have "opener_run (\<lambda>x. th_rename_file (se_ops E) x ?p) v1 t = Inr (done, t, with_handle v1 (op_entry t) s' f')"
    by (simp add: o(3))
  then have "run_MoveCommand E v args = caught E (bytes_of ''mv: '')
      (bindE (cmd_close E (with_handle v1 (op_entry t) s' f') t) (\<lambda>v.
       Inr (cmd_result True (bytes_of ''File moved: '' @ args ! 1 @ bytes_of '' -> '' @ args ! 2) [], Some v)))"
    using assms(2) opened_cmd_open [OF assms(1)] r(1) by (simp add: run_MoveCommand_def)
  moreover have "length (args ! 2) \<noteq> length ?p" unfolding p by simp
  then have "snd (parse_drive_name ?p) \<noteq> ?p" using parse_absolute [OF assms(6), of "args ! 2"] unfolding p by auto
  ultimately show ?thesis using r(2) by simp
qed

section \<open>The command line\<close>

definition blank :: "byte list \<Rightarrow> bool" where
  "blank s = list_all is_blank s"

definition word_of :: "byte list \<Rightarrow> bool" where
  "word_of w = (w \<noteq> [] \<and> list_all (\<lambda>b. \<not> is_blank b) w)"

lemma blank_words_blank: "blank b \<Longrightarrow> blank_words [] (b @ s) = blank_words [] s"
  by (induction b) (auto simp: blank_def)

lemma blank_words_word: "list_all (\<lambda>b. \<not> is_blank b) w \<Longrightarrow> blank_words tok (w @ s) = blank_words (tok @ w) s"
  by (induction w arbitrary: tok) auto

lemma blank_words_end: "tok \<noteq> [] \<Longrightarrow> blank b \<Longrightarrow> b \<noteq> [] \<Longrightarrow> blank_words tok (b @ s) = tok # blank_words [] s"
  using blank_words_blank [of "tl b" s] by (cases b) (auto simp: blank_def)

text \<open>A line: words, each with the blanks behind it.\<close>

definition line_of :: "(byte list \<times> byte list) list \<Rightarrow> byte list" where
  "line_of ws = concat (map (\<lambda>(w, b). w @ b) ws)"

lemma blank_words_line:
  assumes "\<forall>(w, b)\<in>set ws. word_of w \<and> blank b \<and> b \<noteq> []" "blank b0"
  shows "blank_words [] (b0 @ line_of ws) = map fst ws"
  using assms
proof (induction ws arbitrary: b0)
  case Nil
  then show ?case using blank_words_blank [of b0 "[]"] by (simp add: line_of_def)
next
  case (Cons x ws)
  obtain w b where x: "x = (w, b)" by (cases x)
  have w: "w \<noteq> []" "list_all (\<lambda>b. \<not> is_blank b) w" "blank b" "b \<noteq> []" using Cons.prems(1) by (simp_all add: x word_of_def)
  have "blank_words [] (b0 @ line_of (x # ws)) = blank_words [] (w @ (b @ line_of ws))"
    using blank_words_blank [OF Cons.prems(2)] by (simp add: x line_of_def)
  also have "\<dots> = blank_words w (b @ line_of ws)" using blank_words_word [OF w(2), of "[]"] by simp
  also have "\<dots> = w # blank_words [] (line_of ws)" by (rule blank_words_end [OF w(1,3,4)])
  also have "\<dots> = w # map fst ws" using Cons.IH [of "[]"] Cons.prems(1) by (simp add: blank_def)
  finally show ?case by (simp add: x)
qed

text \<open>
  A command line is run as the list of its words, however they are separated, and every word
  that is not in quotes is an argument as it is. Quotes do not keep blanks: a quoted text with a
  blank in it is two words, each with one of the quotes.
\<close>

theorem command_line_words:
  assumes "\<forall>(w, b)\<in>set ws. word_of w \<and> blank b \<and> b \<noteq> []" "blank b0" "\<forall>(w, b)\<in>set ws. unquote w = w" "ws \<noteq> []"
  shows "execute_command_string E p v (b0 @ line_of ws) = execute_from_args E p v (map fst ws)
    \<and> (\<forall>x y. word_of x \<and> word_of y \<longrightarrow>
        blank_words [] (b0 @ line_of ws @ [34] @ x @ [32] @ y @ [34]) = map fst ws @ [34 # x, y @ [34]])"
proof -
  have "map unquote (map fst ws) = map fst ws" using assms(3) by (auto simp: case_prod_beta)
  then have "split_command_line (b0 @ line_of ws) = map fst ws"
    using blank_words_line [OF assms(1,2)] by (simp add: split_command_line_def)
  moreover have "blank_words [] (b0 @ line_of ws @ [34] @ x @ [32] @ y @ [34]) = map fst ws @ [34 # x, y @ [34]]"
    if "word_of x" "word_of y" for x y
  proof -
    let ?q = "[(34 # x, [32])] :: (byte list \<times> byte list) list" and ?r = "[(y @ [34], [32])] :: (byte list \<times> byte list) list"
    have nb: "\<not> is_blank 34" "is_blank 32" by (simp_all add: is_blank_def)
    have "blank_words [] (b0 @ line_of (ws @ ?q @ ?r)) = map fst ws @ [34 # x, y @ [34]]"
      using blank_words_line [of "ws @ ?q @ ?r" b0] assms(1,2) that nb by (auto simp: word_of_def blank_def)
    moreover have "blank_words tok (s @ [32]) = blank_words tok s" for tok s
      by (induction tok s rule: blank_words.induct) (simp_all add: nb)
    moreover have "b0 @ line_of (ws @ ?q @ ?r) = (b0 @ line_of ws @ [34] @ x @ [32] @ y @ [34]) @ [32]"
      by (simp add: line_of_def)
    ultimately show ?thesis by metis
  qed
  ultimately show ?thesis using assms(4) by (simp add: execute_command_string_def)
qed

section \<open>A shell for the witnesses\<close>

text \<open>Two files of a drive \<open>a\<close>: \<open>s\<close> with the bytes 1, 2, 3, every other one with five times 9.\<close>

definition sample_env :: "(stm32_flash fs, file_handle) shell_env" where
  "sample_env = \<lparr>se_ops = handle_ops (stm32_config 0 (\<lambda>_. 7) LE False),
     se_destroy = FileHandle_destroy (stm32_config 0 (\<lambda>_. 7) LE False), se_what = (\<lambda>_. []),
     se_format_path = (\<lambda>d p. slash # d @ slash # p)\<rparr>"

definition file_for :: "byte list \<Rightarrow> file_handle" where
  "file_for path = inline_file (if path = [115] then [1, 2, 3] else [9, 9, 9, 9, 9])"

definition sample_server :: "(stm32_flash fs, file_handle) server" where
  "sample_server = (snd (register_drive (SimpleFlashFsVfsServer (small_fs sample_flash))
     (sample_drive\<lparr>dr_open := (\<lambda>w path m. Inr (Some (file_for path), w))\<rparr>)))\<lparr>vs_current := [97]\<rparr>"

lemma sample_shell: "shell_on (stm32_config 0 (\<lambda>_. 7) LE False) sample_env"
  by (simp add: shell_on_def sample_env_def)

lemma sample_path: "\<not> starts_with slash p \<Longrightarrow> get_absolute_path sample_env sample_server p = slash # [97] @ slash # p"
  by (simp add: get_absolute_path_def sample_env_def sample_server_def get_current_drive_def)

lemmas first_opening = vfs_open_def Let_def make_opener_def ThreadedFileHandle_def register_drive_def SimpleFlashFsVfsServer_def
  sample_drive_def entry_valid_def uh_ok_def

text \<open>The first file that is opened, and a second one.\<close>

lemma sample_open:
  assumes "\<not> mode_ate m"
  shows "\<exists>v t. opened (stm32_config 0 (\<lambda>_. 7) LE False) sample_env sample_server (slash # [97] @ slash # p) m t v (file_for p)
    \<and> op_entry t = 0 \<and> vs_world v = small_fs sample_flash \<and> vs_next v = 1 \<and> vs_drives v = vs_drives sample_server
    \<and> vs_open_files v = [[97, 58] @ p \<mapsto> 0] \<and> vs_current v = [97]"
proof -
  have sl: "slash \<noteq> 97" by (simp add: slash_def)
  have "parse_drive_name (slash # [97] @ slash # p) = ([97], p)" by (rule parse_absolute) (simp add: slash_def)
  then show ?thesis using sample_shell assms
    by (simp add: opened_def first_opening sample_server_def holds_file_def)
      (simp add: file_for_def inline_file_def new_handle_def)
qed

lemma sample_open_second:
  assumes "\<not> mode_ate m" "vs_next v = 1" "vs_drives v = vs_drives sample_server" "vs_open_files v = [[97, 58] @ q \<mapsto> 0]"
    "vs_world v = small_fs sample_flash" "p \<noteq> q"
  shows "\<exists>w t. opened (stm32_config 0 (\<lambda>_. 7) LE False) sample_env v (slash # [97] @ slash # p) m t w (file_for p)
    \<and> op_entry t = 1 \<and> vs_world w = small_fs sample_flash \<and> (\<forall>f. holds_file v 0 f \<longrightarrow> holds_file w 0 f)"
proof -
  have "parse_drive_name (slash # [97] @ slash # p) = ([97], p)" by (rule parse_absolute) (simp add: slash_def)
  then show ?thesis using sample_shell assms
    by (simp add: opened_def first_opening sample_server_def holds_file_def)
      (simp add: file_for_def inline_file_def new_handle_def)
qed

lemma file_for_good:
  "good_file (small_fs sample_flash) (file_for p)"
  "inline_good stm32_ok st_mem stm32_writable 21 (small_fs sample_flash, file_for p)"
  "contents st_mem s (file_for p) = (if p = [115] then [1, 2, 3] else [9, 9, 9, 9, 9])" "\<not> modified (file_for p)"
proof -
  show "good_file (small_fs sample_flash) (file_for p)" using inline_file_good(1) by (simp add: file_for_def)
  show "inline_good stm32_ok st_mem stm32_writable 21 (small_fs sample_flash, file_for p)"
    using inline_file_inline_good by (simp add: file_for_def)
qed (simp_all add: file_for_def inline_file_def contents_def new_handle_def empty_handle_def default_inode_def)

theorem cat_shows_contents_witness:
  "\<exists>v'. run_CatCommand sample_env sample_server [[], [115]] = Inr (cmd_result True (bytes_of ''OK'') [1, 2, 3], Some v')"
proof -
  have p: "\<not> starts_with slash [115]" by (simp add: starts_with_def slash_def)
  from sample_open [OF mode_simps(1), of "[115]"] obtain v t where
    v: "opened (stm32_config 0 (\<lambda>_. 7) LE False) sample_env sample_server (slash # [97] @ slash # [115]) mode_in t v (file_for [115])"
      "op_entry t = 0" "vs_world v = small_fs sample_flash" by auto
  from v(1) have o: "opened (stm32_config 0 (\<lambda>_. 7) LE False) sample_env sample_server
      (get_absolute_path sample_env sample_server ([[], [115]] ! 1)) mode_in t v (file_for [115])"
    using sample_path [OF p] by simp
  have "closes v (op_entry t) (file_for [115])" by (simp add: closes_def file_for_good)
  from cat_shows_contents [OF o _ _ this] show ?thesis by (simp add: file_for_good v(3))
qed

theorem hexdump_shows_lines_witness:
  "\<exists>v'. run_HexDumpCommand sample_env sample_server [[], [47, 97, 47, 115], [49]] =
     Inr (cmd_result True (bytes_of ''OK'') (dump_line 0 [1, 2, 3]), Some v')"
proof -
  from sample_open [OF mode_simps(1), of "[115]"] obtain v t where
    v: "opened (stm32_config 0 (\<lambda>_. 7) LE False) sample_env sample_server (slash # [97] @ slash # [115]) mode_in t v (file_for [115])"
      "op_entry t = 0" "vs_world v = small_fs sample_flash" by auto
  from v(1) have o: "opened (stm32_config 0 (\<lambda>_. 7) LE False) sample_env sample_server
      ([[], [47, 97, 47, 115], [49]] ! 1) mode_in t v (file_for [115])" by (simp add: slash_def)
  have i: "stoi ([[], [47, 97, 47, 115], [49]] ! 2) = Inr 1"
    by (simp add: stoi_def scan_number_def starts_with_def is_blank_def is_dec_digit_def of_digits_def Let_def)
  have "closes v (op_entry t) (file_for [115])" by (simp add: closes_def file_for_good)
  from hexdump_shows_lines [OF o _ i _ this refl] show ?thesis by (simp add: file_for_good v(3))
qed


theorem command_line_words_witness:
  "execute_command_string sample_env main_commands sample_server [32, 108, 115, 32, 32] =
   execute_from_args sample_env main_commands sample_server [[108, 115]]"
proof -
  have "word_of [108, 115]" "blank [32, 32]" "blank [32]" "unquote [108, 115] = [108, 115]"
    by (simp_all add: word_of_def blank_def is_blank_def unquote_def)
  then show ?thesis
    using command_line_words [of "[([108, 115], [32, 32])]" "[32]" sample_env main_commands sample_server]
    by (simp add: line_of_def)
qed

text \<open>Nothing is found on an erased flash, and a file can be written to it.\<close>

lemma sample_erased:
  assumes "crc32 c = (\<lambda>_. 7)" "i < 4"
  shows "\<not> checksum_ok c LE (page_at 64 i (st_mem sample_flash))"
  using erased_not_ok [of i 512 c] assms by (simp add: sample_flash page_in_def)

lemma sample_find:
  "\<exists>s'. find_file (stm32_config 0 (\<lambda>_. 7) LE False) (small_fs sample_flash) name = Inr (empty_handle, s')
    \<and> header s' = small_header \<and> max_inode_number s' = 0
    \<and> same_flash stm32_ops stm32_ok st_mem stm32_writable sample_flash (mem s')"
proof -
  let ?c = "stm32_config 0 (\<lambda>_. 7) LE False" and ?s = "small_fs sample_flash"
  have bad: "\<not> checksum_ok ?c LE (page_at 64 i (st_mem sample_flash))" if "i < 4" for i
    using sample_erased [of ?c i] that by simp
  have cl: "clean_inodes ?c st_mem ?s" using bad by (simp add: clean_inodes_def Let_def)
  have "found_inodes ?c st_mem ?s [0..<4] = []"
    using bad by (simp add: found_inodes_def stored_inode_def Let_def)
  then have nn: "newest_named ?c st_mem ?s name = empty_handle" by (simp add: newest_named_def iv_add_all_def)
  have geo: "geometry (header ?s) (length (st_mem (mem ?s)))" by (simp add: geometry_def sample_flash)
  have ok: "stm32_ok (mem ?s)" by (simp add: sample_flash)
  have m0: "max_inode_number ?s = 0" by (simp add: small_fs_def SimpleFlashFsBase_def)
  show ?thesis
  proof (cases "mem_can_map_read stm32_ops (mem ?s)")
    case True
    have map: "mem_can_map_read (flash ?c) (mem ?s)" using True by simp
    from fs_stm32.find_file_with_ok [OF fs_stm32.load_mapped_good [OF ok geo map] cl ok refl, of name] nn m0 map
    show ?thesis by (auto simp: find_file_def find_file_mapped_def)
  next
    case False
    from fs_stm32.find_file_with_ok [OF fs_stm32.load_unmapped_good [OF ok geo, of 0 "\<lambda>_. 7" LE False] cl ok refl, of name] nn m0 False
    show ?thesis by (auto simp: find_file_def find_file_unmapped_def)
  qed
qed

lemma sample_rename:
  "\<exists>f' s'. rename_file (stm32_config 0 (\<lambda>_. 7) LE False) (small_fs sample_flash) (file_for [115]) [47, 97, 47, 98] = Inr (True, f', s')"
proof -
  let ?c = "stm32_config 0 (\<lambda>_. 7) LE False" and ?n = "[47, 97, 47, 98] :: byte list"
  let ?f = "(file_for [115])\<lparr>modified := True, fh_inode := (fh_inode (file_for [115]))\<lparr>file_name := ?n, file_name_len := 4\<rparr>\<rparr>"
  from sample_find [of ?n] obtain s' where
    s': "find_file ?c (small_fs sample_flash) ?n = Inr (empty_handle, s')" "header s' = small_header" "max_inode_number s' = 0"
      "same_flash stm32_ops stm32_ok st_mem stm32_writable sample_flash (mem s')" by blast
  have m: "stm32_ok (mem s')" "length (st_mem (mem s')) = 512" "page_writable stm32_writable 64 0 (mem s')"
    using s'(4) by (auto simp: same_flash_def sample_flash page_writable_def)
  have f: "fh_inode ?f = default_inode\<lparr>file_len := 3, inode_data := [1, 2, 3], file_name := ?n, file_name_len := 4\<rparr>"
    "fh_page ?f = 0" "modified ?f" "connected ?f"
    by (simp_all add: file_for_def inline_file_def new_handle_def empty_handle_def)
  have "\<exists>g t. flush_new ?c s' ?f = Inr (True, g, t)"
    using fs_stm32.flush_new_ok [of s' ?f 0 "\<lambda>_. 7" LE False] m s'(2,3)
    by (auto simp: f geometry_def inode_ok_def inode_wf_def inode_size_def pages_ok_def default_inode_def)
  then obtain g t where g: "flush_new ?c s' ?f = Inr (True, g, t)" by blast
  have "inode_number (fh_inode ?f) = 0" by (simp add: f default_inode_def)
  then have "flush ?c s' ?f = Inr (True, g, t)" using g by (simp add: flush_def)
  then have "rename_file ?c (small_fs sample_flash) (file_for [115]) ?n = Inr (True, g, t)"
    using s'(1) f(4) by (simp add: rename_file_def Let_def FileHandle_flush_def empty_handle_def FileHandle_destroy_def)
  then show ?thesis by blast
qed

theorem mv_names_file_by_path_witness:
  "\<exists>v' f' t. holds_file v' (op_entry t) f' \<and> file_name (fh_inode f') = [47, 97, 47, 98]
     \<and> run_MoveCommand sample_env sample_server [[], [115], [98]] = caught sample_env (bytes_of ''mv: '')
      (bindE (cmd_close sample_env v' t) (\<lambda>v.
       Inr (cmd_result True (bytes_of ''File moved: '' @ [115] @ bytes_of '' -> '' @ [98]) [], Some v)))"
proof -
  let ?c = "stm32_config 0 (\<lambda>_. 7) LE False" and ?a = "[[], [115], [98]] :: byte list list"
  have p: "\<not> starts_with slash [115]" "\<not> starts_with slash [98]" by (simp_all add: starts_with_def slash_def)
  from sample_open [OF mode_simps(1), of "[115]"] obtain v t where
    v: "opened ?c sample_env sample_server (slash # [97] @ slash # [115]) mode_in t v (file_for [115])"
      "vs_world v = small_fs sample_flash" "vs_current v = [97]" by (elim exE conjE) (rule that, assumption+)
  have o: "opened ?c sample_env sample_server (get_absolute_path sample_env sample_server (?a ! 1)) mode_in t v (file_for [115])"
    using v(1) sample_path [OF p(1)] by simp
  have g: "get_absolute_path sample_env v (?a ! 2) = [47, 97, 47, 98]"
    using p(2) v(3) by (simp add: get_absolute_path_def sample_env_def get_current_drive_def slash_def)
  have fmt: "se_format_path sample_env (get_current_drive v) (?a ! 2) = slash # [97] @ slash # ?a ! 2" "slash \<notin> set [97]"
    using v(3) by (simp_all add: sample_env_def get_current_drive_def slash_def)
  from sample_rename obtain f' s' where
    "rename_file ?c (vs_world v) (file_for [115]) (get_absolute_path sample_env v (?a ! 2)) = Inr (True, f', s')"
    unfolding v(2) g by blast
  from mv_names_file_by_path [OF o _ this _ fmt] p(2) g
  show ?thesis by (intro exI [of _ "with_handle v (op_entry t) s' f'"] exI [of _ f'] exI [of _ t]) simp
qed

end
