(* ===== verification/Reopen.thy ===== *)
theory Reopen
  imports LookupSpec FileAccess
begin

text \<open>
  A file from its flush to the next time it is opened: \<^theory_text>\<open>Commit\<close> says what a flush leaves on the
  flash, \<^theory_text>\<open>LookupSpec\<close> what a lookup finds there, and \<^theory_text>\<open>Contents\<close> what the contents of the handles
  are. Together: the file that is found under the name has the contents that were flushed.
\<close>

section \<open>The inodes after a flush\<close>

text \<open>Every other file with the name is an old version of this one, and an erased page is not an inode.\<close>

definition newest_of_name :: "'m config \<Rightarrow> ('m \<Rightarrow> byte list) \<Rightarrow> 'm fs \<Rightarrow> file_handle \<Rightarrow> bool" where
  "newest_of_name c cells s f \<longleftrightarrow>
     (\<forall>j < max_inodes (header s). \<forall>h. stored_inode c cells s j = Some h \<longrightarrow>
        (names_file (file_name (fh_inode f)) h \<longrightarrow> inode_number (fh_inode h) = inode_number (fh_inode f))
        \<and> (inode_number (fh_inode h) = inode_number (fh_inode f) \<longrightarrow>
             inode_version_number (fh_inode h) \<le> inode_version_number (fh_inode f)))"

definition erased_invalid :: "'m config \<Rightarrow> header \<Rightarrow> bool" where
  "erased_invalid c h \<longleftrightarrow> \<not> checksum_ok c (fs_endianness h) (replicate (page_size h) 0xFF)"

text \<open>The handle of the version that was written to page \<open>p\<close>, as it is read again.\<close>

definition stored_version :: "header \<Rightarrow> file_handle \<Rightarrow> nat \<Rightarrow> file_handle" where
  "stored_version h f p = new_handle\<lparr>fh_inode := reread (page_size h) (fh_inode (next_version f p))\<rparr>"

lemma stored_version_simps [simp]:
  "inode_number (fh_inode (stored_version h f p)) = inode_number (fh_inode f)"
  "file_name (fh_inode (stored_version h f p)) = file_name (fh_inode f)"
  "inode_version_number (fh_inode (stored_version h f p)) = add64 (inode_version_number (fh_inode f)) 1"
  "file_len (fh_inode (stored_version h f p)) = file_len (fh_inode f)"
  "connected (stored_version h f p)" "\<not> modified (stored_version h f p)"
  by (simp_all add: stored_version_def reread_def next_version_def drop_deleted_def set_pages_def new_handle_def empty_handle_def)

context fs_on_flash
begin

lemma flush_stored:
  assumes mnt: "mounted ok cells s" and fl: "flushable (header s) f"
    and free: "first_free_inode_page c (header s) (cells (mem s)) (elems (allocated_unwritten_pages s)) 0 = Some p"
    and valid: "checksum_ok c (fs_endianness (header s)) (page_at (page_size (header s)) (fh_page f) (cells (mem s)))
      \<or> fh_page f \<in> elems (allocated_unwritten_pages s)"
    and wr: "page_writable writable (page_size (header s)) p (mem s)"
      "\<forall>q \<in> set (data_pages (fh_inode f)). dp_state q = New \<longrightarrow>
        page_writable writable (page_size (header s)) (page_id q) (mem s)"
    and pl: "pages_plausible (header s) (fh_inode (next_version f p))"
    and er: "keeps_old_pages c \<or> erased_invalid c (header s)"
  shows "\<exists>s'. flush c s f = Inr (True, settle (next_version f p), s') \<and> mounted ok cells s' \<and> header s' = header s
    \<and> p \<noteq> fh_page f \<and> p < max_inodes (header s)
    \<and> stored_inode c cells s' p = Some (stored_version (header s) f p)
    \<and> (\<forall>j < max_inodes (header s). j \<noteq> p \<longrightarrow> stored_inode c cells s' j =
          (if j = fh_page f \<and> \<not> keeps_old_pages c then None else stored_inode c cells s j))
    \<and> (clean_inodes c cells s \<longrightarrow> clean_inodes c cells s')
    \<and> (\<forall>q \<in> set (data_pages (fh_inode (next_version f p))).
        page_at (page_size (header s)) (page_id q) (cells (mem s')) = new_contents (page_size (header s)) (cells (mem s)) q)"
proof -
  from flush_mounted [OF mnt fl free valid wr] obtain s' where
    s': "flush c s f = Inr (True, settle (next_version f p), s')" "mounted ok cells s'" "header s' = header s"
      "p \<noteq> fh_page f" "Suc p < max_inodes (header s)"
      "cells (mem s') = foldl apply_op (cells (mem s)) (version_ops c (header s) f p)" by blast
  let ?h = "header s" and ?n = "page_size (header s)" and ?B = "cells (mem s)" and ?g = "next_version f p"
  let ?ops = "version_ops c (header s) f p" and ?B' = "cells (mem s')"
  have geo: "geometry ?h (length ?B)" using mnt by (simp add: mounted_def)
  note geod = geometryD [OF geo]
  have "length (zero_ops ?n (data_pages (fh_inode ?g))) < length ?ops" by (simp add: version_ops_def commit_ops_def)
  with version_ops_prefix [OF geo fl s'(5,4), of "length ?ops" c] s'(6)
  have img: "page_at ?n p ?B' = inode_image c ?h (fh_inode ?g)"
    and dat: "\<forall>q \<in> set (data_pages (fh_inode ?g)). page_at ?n (page_id q) ?B' = new_contents ?n ?B q"
    and oth: "\<forall>r. r \<noteq> p \<and> r \<noteq> fh_page f \<and> r \<notin> page_id ` set (data_pages (fh_inode f)) \<and> Suc r < filesystem_size ?h \<longrightarrow>
        page_at ?n r ?B' = page_at ?n r ?B" by simp_all
  have iok: "inode_ok ?h (fh_inode ?g)" using fl next_version_inode [of f p] by (simp add: flushable_def)
  have gi: "get_inode c s' (inode_image c ?h (fh_inode ?g)) b = Inr (stored_version ?h f p)" for b
    using inode_image_read [of s' "fh_inode ?g" b c c] iok pl geod(4) s'(3) by (simp add: stored_version_def)
  have ck: "checksum_ok c (fs_endianness ?h) (inode_image c ?h (fh_inode ?g))" by (rule inode_image_checksum [OF iok])
  have at_p: "stored_inode c cells s' p = Some (stored_version ?h f p)"
    using img ck gi s'(3) by (simp add: stored_inode_def Let_def)
  have nd: "j \<notin> page_id ` set (data_pages (fh_inode f))" if "j < max_inodes ?h" for j
    using fl that by (auto simp: flushable_def pages_ok_def)
  have old: "page_at ?n j ?B' = (if keeps_old_pages c then page_at ?n j ?B else replicate ?n 0xFF)" if "j = fh_page f" for j
  proof (cases "keeps_old_pages c")
    case True
    have "page_at ?n (fh_page f) ?B' = page_at ?n (fh_page f) ?B"
    proof -
      have ops: "?ops = zero_ops ?n (data_pages (fh_inode ?g)) @ [write_op ?n p (inode_image c ?h (fh_inode ?g))]"
        using True by (simp add: version_ops_def commit_ops_def)
      let ?Z = "foldl apply_op ?B (zero_ops ?n (data_pages (fh_inode ?g)))"
      note pre = version_ops_prefix [OF geo fl s'(5,4), of "length (zero_ops ?n (data_pages (fh_inode ?g)))" c]
      have z: "page_at ?n (fh_page f) ?Z = page_at ?n (fh_page f) ?B" "length ?Z = length ?B" using pre by (simp_all add: ops)
      have pf: "page_in ?n p (length ?Z)" "page_in ?n (fh_page f) (length ?Z)"
        using geometry_page_in [OF geo] s'(5) geod(6) fl z(2) by (simp_all add: flushable_def)
      have "?B' = put_page ?n p (inode_image c ?h (fh_inode ?g)) ?Z" unfolding s'(6) ops by (simp add: apply_write_op)
      then show ?thesis using z(1) pf s'(4) iok by (simp add: page_at_put_page)
    qed
    then show ?thesis using True that by simp
  next
    case False
    have "fh_page f \<in> obsolete f ?g" by (simp add: obsolete_def)
    from version_ops_erased [OF geo fl s'(5) False this] show ?thesis using False that s'(6) by simp
  qed
  have pg: "page_at ?n j ?B' = (if j = fh_page f \<and> \<not> keeps_old_pages c then replicate ?n 0xFF else page_at ?n j ?B)"
    if "j < max_inodes ?h" "j \<noteq> p" for j
  proof (cases "j = fh_page f")
    case True
    then show ?thesis using old [OF True] by simp
  next
    case False
    have "Suc j < filesystem_size ?h" using that(1) geod(6) by simp
    then show ?thesis using oth that(2) nd [OF that(1)] False by simp
  qed
  have gc: "get_inode c s' q b = get_inode c s q b" for q b by (rule get_inode_cong [OF s'(3)])
  have rest: "stored_inode c cells s' j = (if j = fh_page f \<and> \<not> keeps_old_pages c then None else stored_inode c cells s j)"
    if "j < max_inodes ?h" "j \<noteq> p" for j
    using pg [OF that] er s'(3) gc by (auto simp: stored_inode_def Let_def erased_invalid_def)
  have "clean_inodes c cells s'" if cl: "clean_inodes c cells s"
    unfolding clean_inodes_def Let_def s'(3)
  proof (intro allI impI)
    fix j assume j: "j < max_inodes ?h" "checksum_ok c (fs_endianness ?h) (page_at ?n j ?B')"
    show "\<exists>f. get_inode c s' (page_at ?n j ?B') False = Inr f \<and> get_inode c s' (page_at ?n j ?B') True = Inr f \<and> \<not> modified f"
    proof (cases "j = p")
      case True
      then show ?thesis using img gi by simp
    next
      case False
      then show ?thesis using pg [OF j(1) False] j er cl gc
        by (auto simp: erased_invalid_def clean_inodes_def Let_def split: if_splits)
    qed
  qed
  then show ?thesis using s'(1-5) at_p rest dat by (intro exI [of _ s']) simp
qed

end

section \<open>The lookup\<close>

lemma newest_after_flush:
  assumes "header s' = header s" "p < max_inodes (header s)"
    "stored_inode c cells s' p = Some (stored_version (header s) f p)"
    "\<forall>j < max_inodes (header s). j \<noteq> p \<longrightarrow> stored_inode c cells s' j = None \<or> stored_inode c cells s' j = stored_inode c cells s j"
    "newest_of_name c cells s f" "file_name (fh_inode f) \<noteq> []" "inode_version_number (fh_inode f) < 2 ^ 64 - 1"
  shows "newest_named c cells s' (file_name (fh_inode f)) = (stored_version (header s) f p)\<lparr>fh_page := p\<rparr>"
proof -
  let ?g = "newest_named c cells s' (file_name (fh_inode f))" and ?v = "stored_version (header s) f p"
  note new = found_newest [OF refl refl, of c cells s' "file_name (fh_inode f)"]
  have named: "names_file (file_name (fh_inode f)) ?v" using assms(6) by (simp add: names_file_def)
  have ver: "inode_version_number (fh_inode ?v) = Suc (inode_version_number (fh_inode f))"
    using assms(7) by (simp add: add64_small)
  have older: "inode_version_number (fh_inode h) < inode_version_number (fh_inode ?v)"
    if "j \<noteq> p" "j < max_inodes (header s)" "stored_inode c cells s' j = Some h" "inode_number (fh_inode h) = inode_number (fh_inode f)" for j h
  proof -
    have "stored_inode c cells s j = Some h" using assms(4) that(1-3) by auto
    then have "inode_version_number (fh_inode h) \<le> inode_version_number (fh_inode f)"
      using assms(5) that(2,4) by (simp add: newest_of_name_def)
    then show ?thesis using ver by simp
  qed
  have con: "connected ?g"
  proof (rule ccontr)
    assume "\<not> connected ?g"
    from new(2) [OF this _ assms(3) named] assms(1,2) obtain j h where
      "j < max_inodes (header s)" "j \<noteq> p" "stored_inode c cells s' j = Some h"
      "inode_number (fh_inode h) = inode_number (fh_inode f)" "inode_version_number (fh_inode ?v) \<le> inode_version_number (fh_inode h)"
      by auto
    then show False using older by fastforce
  qed
  from new(1) [OF con] assms(1) obtain i g where
    g: "i < max_inodes (header s)" "stored_inode c cells s' i = Some g" "?g = g\<lparr>fh_page := i\<rparr>"
      "names_file (file_name (fh_inode f)) g"
      "\<forall>j < max_inodes (header s). \<forall>h. stored_inode c cells s' j = Some h \<and> inode_number (fh_inode h) = inode_number (fh_inode g) \<longrightarrow>
         inode_version_number (fh_inode h) \<le> inode_version_number (fh_inode g)" by auto
  have "i = p"
  proof (rule ccontr)
    assume "i \<noteq> p"
    then have "stored_inode c cells s i = Some g" using assms(4) g(1,2) by auto
    then have n: "inode_number (fh_inode g) = inode_number (fh_inode f)"
      using assms(5) g(1,4) unfolding newest_of_name_def by blast
    then have "inode_number (fh_inode ?v) = inode_number (fh_inode g)" by simp
    with g(5) [rule_format, OF assms(2) conjI [OF assms(3)]]
    have "inode_version_number (fh_inode ?v) \<le> inode_version_number (fh_inode g)" by blast
    then show False using older [OF \<open>i \<noteq> p\<close> g(1,2) n] by simp
  qed
  then show ?thesis using g(2,3) assms(3) by simp
qed

section \<open>The contents\<close>

lemma stored_contents:
  assumes ok: "file_ok ok cells writable s f" and h: "header t = header s"
    and dat: "\<forall>q \<in> set (data_pages (fh_inode (next_version f p))).
      page_at (page_size (header s)) (page_id q) (cells (mem t)) = new_contents (page_size (header s)) (cells (mem s)) q"
  shows "contents cells t ((stored_version (header s) f p)\<lparr>fh_page := p\<rparr>) = contents cells s f"
proof -
  let ?i = "fh_inode f" and ?v = "stored_version (header s) f p" and ?n = "page_size (header s)"
  have dp: "data_pages (fh_inode ?v) = map stored_page (valid_pages f)"
    by (simp add: stored_version_def reread_def valid_pages_def)
  have len: "file_len (fh_inode ?v) = file_len ?i" by simp
  consider (inline) "data_pages ?i = []" "file_len ?i \<le> length (inode_data ?i)" | (empty) "file_len ?i = 0"
    | (paged) "valid_pages f \<noteq> []" "data_pages ?i \<noteq> []"
  proof (cases "data_pages ?i = [] \<or> file_len ?i = 0")
    case True
    then show ?thesis using that ok by (auto simp: file_ok_def valid_pages_def)
  next
    case False
    then have "valid_pages f \<noteq> []" using ok by (auto simp: file_ok_def)
    then show ?thesis using that False by blast
  qed
  then show ?thesis
  proof cases
    case inline
    have "inode_data (fh_inode ?v) = (if file_len ?i > 0 then take (file_len ?i) (inode_data ?i)
        @ replicate (?n - (42 + file_name_len ?i) - file_len ?i) 0 else [])"
      using inline by (simp add: stored_version_def reread_def next_version_def drop_deleted_def set_pages_def)
    moreover have "data_pages (fh_inode ?v) = []" using dp inline by (simp add: valid_pages_def)
    ultimately show ?thesis using inline len by (auto simp: contents_def)
  next
    case empty
    then show ?thesis by (simp add: contents_def)
  next
    case paged
    have vp: "valid_pages (?v\<lparr>fh_page := p\<rparr>) = map stored_page (valid_pages f)"
      using dp by (simp add: valid_pages_def stored_page_def filter_map comp_def)
    have "page_list cells t (?v\<lparr>fh_page := p\<rparr>) = page_list cells s f"
      unfolding page_list_def vp h using dat by (simp add: new_contents_def stored_page_def valid_pages_def)
    moreover have "data_pages (fh_inode (?v\<lparr>fh_page := p\<rparr>)) \<noteq> []" using dp paged(1) by simp
    ultimately show ?thesis using paged(2) len by (simp add: contents_def)
  qed
qed

section \<open>Flush and open again\<close>

text \<open>
  C6. When a file has been flushed, a lookup of its name finds the version that was written: its
  contents are the contents the handle had before the flush, and its version is the next one. No
  other inode on the flash changes, but for the old version, which is erased unless the class keeps
  it.
\<close>

theorem flushed_file_is_found:
  assumes "file_ok stm32_ok st_mem stm32_writable s f" "connected f" "c = stm32_config P crc e keep"
    "mounted stm32_ok st_mem s" "flushable (header s) f"
    "first_free_inode_page c (header s) (st_mem (mem s)) (elems (allocated_unwritten_pages s)) 0 = Some p"
    "checksum_ok c (fs_endianness (header s)) (page_at (page_size (header s)) (fh_page f) (st_mem (mem s)))"
    "page_writable stm32_writable (page_size (header s)) p (mem s)"
    "pages_plausible (header s) (fh_inode (next_version f p))" "keep \<or> erased_invalid c (header s)"
    "clean_inodes c st_mem s" "newest_of_name c st_mem s f" "file_name (fh_inode f) \<noteq> []"
    "inode_version_number (fh_inode f) < 2 ^ 64 - 1"
  shows "\<exists>f' s' g s''. FileHandle_flush c s f = Inr (True, f', s')
    \<and> find_file c s' (file_name (fh_inode f)) = Inr (g, s'') \<and> connected g \<and> fh_page g = fh_page f'
    \<and> inode_number (fh_inode g) = inode_number (fh_inode f)
    \<and> inode_version_number (fh_inode g) = Suc (inode_version_number (fh_inode f))
    \<and> contents st_mem s'' g = contents st_mem s f \<and> length (contents st_mem s'' g) = file_len (fh_inode g)
    \<and> (\<forall>j < max_inodes (header s). j \<noteq> fh_page f' \<longrightarrow> stored_inode c st_mem s'' j =
          (if j = fh_page f \<and> \<not> keep then None else stored_inode c st_mem s j))"
proof -
  have wr: "\<forall>q \<in> set (data_pages (fh_inode f)). dp_state q = New \<longrightarrow>
      page_writable stm32_writable (page_size (header s)) (page_id q) (mem s)"
    using assms(1) by (simp add: file_ok_def io_ok_def)
  from fs_stm32.flush_stored [OF assms(4,5) assms(6) [unfolded assms(3)] disjI1 [OF assms(7) [unfolded assms(3)]] assms(8) wr assms(9)]
    assms(10) [unfolded assms(3)] obtain s' where
    fl: "flush c s f = Inr (True, settle (next_version f p), s')" "mounted stm32_ok st_mem s'" "header s' = header s"
      "p < max_inodes (header s)" "stored_inode c st_mem s' p = Some (stored_version (header s) f p)"
      "\<forall>j < max_inodes (header s). j \<noteq> p \<longrightarrow> stored_inode c st_mem s' j =
          (if j = fh_page f \<and> \<not> keep then None else stored_inode c st_mem s j)"
      "clean_inodes c st_mem s'"
      "\<forall>q \<in> set (data_pages (fh_inode (next_version f p))).
        page_at (page_size (header s)) (page_id q) (st_mem (mem s')) = new_contents (page_size (header s)) (st_mem (mem s)) q"
    unfolding assms(3) [symmetric] using assms(11) by (auto simp: assms(3))
  let ?g = "(stored_version (header s) f p)\<lparr>fh_page := p\<rparr>"
  have nn: "newest_named c st_mem s' (file_name (fh_inode f)) = ?g"
    using fl(6) by (intro newest_after_flush [OF fl(3-5) _ assms(12-14)]) auto
  have ok: "stm32_ok (mem s')" and geo: "geometry (header s') (length (st_mem (mem s')))"
    using fl(2) by (simp_all add: mounted_def)
  have "\<exists>s''. find_file c s' (file_name (fh_inode f)) = Inr (?g, s'') \<and> header s'' = header s' \<and> st_mem (mem s'') = st_mem (mem s')"
  proof (cases "mem_can_map_read stm32_ops (mem s')")
    case True
    then have map: "mem_can_map_read (flash (stm32_config P crc e keep)) (mem s')" by simp
    from fs_stm32.find_file_with_ok [OF fs_stm32.load_mapped_good [OF ok geo map] fl(7) [unfolded assms(3)] ok refl,
        of "file_name (fh_inode f)"] nn True
    show ?thesis by (auto simp: find_file_def find_file_mapped_def same_flash_def assms(3))
  next
    case False
    from fs_stm32.find_file_with_ok [OF fs_stm32.load_unmapped_good [OF ok geo] fl(7) [unfolded assms(3)] ok refl,
        of "file_name (fh_inode f)"] nn False
    show ?thesis by (auto simp: find_file_def find_file_unmapped_def same_flash_def assms(3))
  qed
  then obtain s'' where s'': "find_file c s' (file_name (fh_inode f)) = Inr (?g, s'')" "header s'' = header s'"
    "st_mem (mem s'') = st_mem (mem s')" by blast
  have ct: "contents st_mem s'' ?g = contents st_mem s f"
    using s''(2,3) fl(3,8) by (intro stored_contents [OF assms(1)]) simp_all
  have "stored_inode c st_mem s'' = stored_inode c st_mem s'" by (rule stored_inode_cong) (simp_all add: s'')
  moreover have "fh_page (settle (next_version f p)) = p" by (simp add: settle_def set_pages_def)
  moreover have "FileHandle_flush c s f = Inr (True, settle (next_version f p), s')"
    using fl(1) assms(2) by (simp add: FileHandle_flush_def)
  moreover have "inode_version_number (fh_inode ?g) = Suc (inode_version_number (fh_inode f))"
    using assms(14) by (simp add: add64_small)
  ultimately show ?thesis using s''(1) ct contents_length [OF assms(1)] fl(6)
    by (intro exI [of _ "settle (next_version f p)"] exI [of _ s'] exI [of _ ?g] exI [of _ s'']) simp
qed


lemma one_file_newest:
  assumes "crc32 c = (\<lambda>_. 7)"
  shows "newest_of_name c st_mem (one_file_fs c) sample_file"
proof -
  have h: "max_inodes (header (one_file_fs c)) = 4" by (simp add: one_file_fs_def)
  have f: "inode_number (fh_inode sample_file) = 3" "inode_version_number (fh_inode sample_file) = 1"
    by (simp_all add: sample_file_def)
  from one_file(6) [OF assms] obtain g where
    g: "stored_inode c st_mem (one_file_fs c) 0 = Some g" "inode_number (fh_inode g) = 3" "inode_version_number (fh_inode g) = 1"
    by blast
  have "j = 0" if "j < 4" "stored_inode c st_mem (one_file_fs c) j = Some k" for j k
    using one_file(5) [OF assms] that by simp
  then show ?thesis using g f unfolding newest_of_name_def h by fastforce
qed

lemma one_file_pages:
  assumes "crc32 c = (\<lambda>_. 7)"
  shows "checksum_ok c LE (page_at 64 0 (st_mem (mem (one_file_fs c))))"
    "first_free_inode_page c small_header (st_mem (mem (one_file_fs c))) {} 0 = Some 1"
    "q < 7 \<Longrightarrow> page_writable stm32_writable 64 q (mem (one_file_fs c))"
proof -
  let ?s = "one_file_fs c"
  have h: "header ?s = small_header" by (simp add: one_file_fs_def)
  from one_file(6) [OF assms] h show p0: "checksum_ok c LE (page_at 64 0 (st_mem (mem ?s)))"
    by (auto simp: stored_inode_def Let_def split: if_splits)
  have none: "stored_inode c st_mem ?s 1 = None"
  proof (rule ccontr)
    assume "stored_inode c st_mem ?s 1 \<noteq> None"
    then show False using one_file(5) [OF assms, of 1] by simp
  qed
  have p1: "\<not> checksum_ok c LE (page_at 64 1 (st_mem (mem ?s)))"
  proof
    assume ck: "checksum_ok c LE (page_at 64 1 (st_mem (mem ?s)))"
    have cl: "clean_inodes c st_mem ?s" by (rule one_file(4) [OF assms])
    have "\<exists>g. get_inode c ?s (page_at 64 1 (st_mem (mem ?s))) False = Inr g"
      using spec [OF cl [unfolded clean_inodes_def Let_def], of 1] ck by (simp only: h small_header_simps) auto
    then show False using none ck by (auto simp: stored_inode_def Let_def h)
  qed
  show "first_free_inode_page c small_header (st_mem (mem ?s)) {} 0 = Some 1"
    using p0 p1 by (simp add: first_free_step) (simp add: inode_page_free_def)
  have "length (inode_image c small_header (fh_inode sample_file)) = 64"
    using length_inode_image [OF sample_inode_ok, of c] by simp
  then show "page_writable stm32_writable 64 q (mem ?s)" if "q < 7"
    using that by (simp add: page_writable_def stm32_writable_def one_file_fs_def one_file_bytes_def STM32_open_def STM32_init_def
      SimFlash_open_def stream_read_def overlay_def slice_def Let_def)
qed

theorem flushed_file_is_found_witness:
  "\<exists>f' s' g s''. FileHandle_flush (stm32_config 0 (\<lambda>_. 7) LE False) (one_file_fs (stm32_config 0 (\<lambda>_. 7) LE False)) sample_file = Inr (True, f', s')
    \<and> find_file (stm32_config 0 (\<lambda>_. 7) LE False) s' [97] = Inr (g, s'') \<and> inode_version_number (fh_inode g) = 2
    \<and> contents st_mem s'' g = [10, 11]"
proof -
  let ?c = "stm32_config 0 (\<lambda>_. 7) LE False"
  let ?s = "one_file_fs ?c"
  have c: "crc32 ?c = (\<lambda>_. 7)" by simp
  note o = one_file [OF c] and pg = one_file_pages [OF c]
  have h: "header ?s = small_header" "allocated_unwritten_pages ?s = PageSet_empty_set"
    "m_max (header_inode_range ?s) = 4" by (simp_all add: one_file_fs_def)
  have fr: "elems (free_data_pages ?s) = {4, 5, 6}" "ps_inv (free_data_pages ?s)"
    by (auto simp: one_file_fs_def small_fs_def elems_def ps_inv_def NO_DATA_def)
  have i: "file_name (fh_inode sample_file) = [97]" "inode_version_number (fh_inode sample_file) = 1" "connected sample_file"
    "fh_page sample_file = 0" "data_pages (fh_inode sample_file) = []" "file_len (fh_inode sample_file) = 2"
    "file_name_len (fh_inode sample_file) = 1" "inode_data (fh_inode sample_file) = [10, 11]" "fh_pos sample_file = 0"
    by (simp_all add: sample_file_def new_handle_def empty_handle_def default_inode_def)
  have fo: "file_ok stm32_ok st_mem stm32_writable ?s sample_file"
    using o(1,2) pg(3) by (simp add: file_ok_def io_ok_def h i fr valid_pages_def pages_ok_def get_inode_data_space_size_def get_checksum_size_def small_header_def sub64_def)
  have m: "mounted stm32_ok st_mem ?s" using o(1,2) by (simp add: mounted_def h fr)
  have er: "erased_invalid ?c (header ?s)"
    using erased_not_ok [of 0 512 ?c] by (simp add: erased_invalid_def h page_in_def page_at_def slice_def erased_def)
  have pl: "pages_plausible (header ?s) (fh_inode (next_version sample_file 1))"
    by (simp add: pages_plausible_def next_version_def drop_deleted_def set_pages_def i)
  have ct: "contents st_mem ?s sample_file = [10, 11]" by (simp add: contents_def i)
  have fl: "flushable (header ?s) sample_file"
    "first_free_inode_page ?c (header ?s) (st_mem (mem ?s)) (elems (allocated_unwritten_pages ?s)) 0 = Some 1"
    "checksum_ok ?c (fs_endianness (header ?s)) (page_at (page_size (header ?s)) (fh_page sample_file) (st_mem (mem ?s)))"
    "page_writable stm32_writable (page_size (header ?s)) 1 (mem ?s)" "file_name (fh_inode sample_file) \<noteq> []"
    "inode_version_number (fh_inode sample_file) < 2 ^ 64 - 1"
    using sample_flushable pg by (simp_all add: h i)
  from flushed_file_is_found [OF fo i(3) refl m fl(1-4) pl disjI2 [OF er] o(4) one_file_newest [OF c] fl(5,6)]
  obtain f' s' g s'' where "FileHandle_flush ?c ?s sample_file = Inr (True, f', s')"
    "find_file ?c s' (file_name (fh_inode sample_file)) = Inr (g, s'')"
    "inode_version_number (fh_inode g) = Suc (inode_version_number (fh_inode sample_file))"
    "contents st_mem s'' g = contents st_mem ?s sample_file" by (elim exE conjE) (rule that, assumption+)
  then show ?thesis by (simp add: ct i)
qed

end
