(* ===== verification/OpenSpec.thy ===== *)
theory OpenSpec
  imports Reopen
begin

text \<open>
  Opening, deleting and renaming files: what a lookup leaves of the file system, what \<open>open\<close> returns
  on every branch, and what can be found by its name afterwards.
\<close>

section \<open>Operations that only read the flash\<close>

definition looked :: "'m config \<Rightarrow> ('m \<Rightarrow> bool) \<Rightarrow> ('m \<Rightarrow> byte list) \<Rightarrow> ('m \<Rightarrow> nat \<Rightarrow> bool) \<Rightarrow> 'm fs \<Rightarrow> 'm fs \<Rightarrow> bool" where
  "looked c ok cells writable s s' \<longleftrightarrow> mounted ok cells s' \<and> header s' = header s
     \<and> free_data_pages s' = free_data_pages s \<and> max_inode_number s' = max_inode_number s
     \<and> same_flash (flash c) ok cells writable (mem s) (mem s')"

lemma looked_trans: "looked c ok cells writable s t \<Longrightarrow> looked c ok cells writable t u \<Longrightarrow> looked c ok cells writable s u"
  using same_flash_trans unfolding looked_def by metis

lemma lookedD:
  assumes "looked c ok cells writable s s'"
  shows "mounted ok cells s'" "header s' = header s" "cells (mem s') = cells (mem s)"
    "writable (mem s') = writable (mem s)" "free_data_pages s' = free_data_pages s" "max_inode_number s' = max_inode_number s"
    "stored_inode c cells s' = stored_inode c cells s" "newest_named c cells s' = newest_named c cells s"
    "clean_inodes c cells s' = clean_inodes c cells s"
proof -
  show eq: "mounted ok cells s'" "header s' = header s" "cells (mem s') = cells (mem s)"
    "writable (mem s') = writable (mem s)" "free_data_pages s' = free_data_pages s" "max_inode_number s' = max_inode_number s"
    using assms by (simp_all add: looked_def same_flash_def)
  show st: "stored_inode c cells s' = stored_inode c cells s" by (rule stored_inode_cong [OF eq(2,3)])
  show "newest_named c cells s' = newest_named c cells s"
    unfolding newest_named_def found_inodes_def st eq(2) ..
  show "clean_inodes c cells s' = clean_inodes c cells s" by (rule clean_inodes_cong [OF eq(2,3)])
qed

context fs_on_flash
begin

lemma looked_mem:
  assumes "mounted ok cells s" "same_flash (flash c) ok cells writable (mem s) m'"
    "ps_inv A" "m_max r = max_inodes (header s)"
  shows "looked c ok cells writable s
    (s\<lparr>mem := m', allocated_unwritten_pages := A, header_inode_range := r, iv_storage := v\<rparr>)"
  using assms by (simp add: looked_def mounted_def same_flash_def)

lemma find_file_looks:
  assumes "mounted ok cells s" "clean_inodes c cells s"
  shows "\<exists>s'. find_file c s name = Inr (newest_named c cells s name, s') \<and> looked c ok cells writable s s'
    \<and> kept_claims (allocated_unwritten_pages s) (allocated_unwritten_pages s')"
proof -
  have ok: "ok (mem s)" and geo: "geometry (header s) (length (cells (mem s)))" and
    inv: "ps_inv (allocated_unwritten_pages s)" "m_max (header_inode_range s) = max_inodes (header s)" "ps_inv (free_data_pages s)"
    using assms(1) by (simp_all add: mounted_def)
  have L: "looked c ok cells writable s s'"
    if "header s' = header s" "free_data_pages s' = free_data_pages s" "header_inode_range s' = header_inode_range s"
      "max_inode_number s' = max_inode_number s" "kept_claims (allocated_unwritten_pages s) (allocated_unwritten_pages s')"
      "same_flash (flash c) ok cells writable (mem s) (mem s')" for s'
    using that inv geo by (simp add: looked_def mounted_def same_flash_def kept_claims_def)
  show ?thesis
  proof (cases "mem_can_map_read (flash c) (mem s)")
    case True
    from find_file_with_ok [OF load_mapped_good [OF ok geo True] assms(2) ok refl, of name] True show ?thesis
      using L by (auto simp: find_file_def find_file_mapped_def)
  next
    case False
    from find_file_with_ok [OF load_unmapped_good [OF ok geo] assms(2) ok refl, of name] False show ?thesis
      using L by (auto simp: find_file_def find_file_unmapped_def)
  qed
qed

lemma allocate_looks:
  assumes "mounted ok cells s"
  shows "\<exists>p s'. allocate_free_inode_page c s = Inr (handle_of_page p, s') \<and> looked c ok cells writable s s'
    \<and> p = first_free_inode_page c (header s) (cells (mem s)) (elems (allocated_unwritten_pages s)) 0
    \<and> elems (allocated_unwritten_pages s') = elems (allocated_unwritten_pages s) \<union> set_option p"
proof -
  have pre: "ok (mem s)" "geometry (header s) (length (cells (mem s)))" "ps_inv (allocated_unwritten_pages s)"
    "m_max (header_inode_range s) = max_inodes (header s)" using assms by (simp_all add: mounted_def)
  from allocate_inode_page_ok [OF pre] obtain p r' m' A where
    a: "allocate_free_inode_page_number c s = Inr (p, s\<lparr>mem := m', allocated_unwritten_pages := A, header_inode_range := r'\<rparr>)"
      "p = first_free_inode_page c (header s) (cells (mem s)) (elems (allocated_unwritten_pages s)) 0"
      "m_max r' = max_inodes (header s)" "same_flash (flash c) ok cells writable (mem s) m'"
      "ps_inv A" "elems A = elems (allocated_unwritten_pages s) \<union> set_option p" by blast
  let ?s = "s\<lparr>mem := m', allocated_unwritten_pages := A, header_inode_range := r'\<rparr>"
  have "looked c ok cells writable s ?s"
    using looked_mem [OF assms a(4,5,3), of "iv_storage s"] by simp
  then show ?thesis using a(1,2,6) by (intro exI [of _ p] exI [of _ ?s]) (simp add: allocate_free_inode_page_eq)
qed

lemma destroy_looks:
  assumes "mounted ok cells s" "\<not> modified f"
  shows "\<exists>s'. FileHandle_destroy c s f = Inr s' \<and> looked c ok cells writable s s'
    \<and> kept_claims (allocated_unwritten_pages s) (allocated_unwritten_pages s')"
proof -
  from destroy_unmodified_claims [OF assms(2)] obtain A where
    A: "FileHandle_destroy c s f = Inr (s\<lparr>allocated_unwritten_pages := A\<rparr>)" "kept_claims (allocated_unwritten_pages s) A" by blast
  have "looked c ok cells writable s (s\<lparr>allocated_unwritten_pages := A\<rparr>)"
    using assms(1) A(2) by (simp add: looked_def mounted_def kept_claims_def same_flash_refl)
  then show ?thesis using A by (intro exI [of _ "s\<lparr>allocated_unwritten_pages := A\<rparr>"]) simp
qed

end

lemma looked_file:
  assumes "looked c ok cells writable s s'" "mounted ok cells s"
  shows "file_ok ok cells writable s' f = file_ok ok cells writable s f" "contents cells s' f = contents cells s f"
    "newest_of_name c cells s' f = newest_of_name c cells s f"
proof -
  note L = lookedD [OF assms(1)]
  have m: "ok (mem s')" "ok (mem s)" using L(1) assms(2) by (simp_all add: mounted_def)
  have sp: "get_inode_data_space_size s' i = get_inode_data_space_size s i" for i
    by (simp add: get_inode_data_space_size_def get_checksum_size_def L(2))
  show "contents cells s' f = contents cells s f" by (simp add: contents_def page_list_def L(2,3))
  show "newest_of_name c cells s' f = newest_of_name c cells s f" by (simp add: newest_of_name_def L(2,7))
  show "file_ok ok cells writable s' f = file_ok ok cells writable s f"
    by (simp add: file_ok_def io_ok_def sp L(2-5) page_writable_def m)
qed

section \<open>Opening\<close>

context fs_on_flash
begin

lemma empty_not_connected [simp]: "\<not> connected empty_handle"
  by (simp add: empty_handle_def)

lemma new_connected [simp]: "connected new_handle"
  by (simp add: new_handle_def empty_handle_def)

lemma connected_append_mode [simp]: "connected (handle_append_mode m f) = connected f"
  by (simp add: handle_append_mode_def Let_def)

text \<open>What \<open>open\<close> returns, by what the lookup found and by the mode.\<close>

lemma open_ok:
  assumes "mounted ok cells s" "clean_inodes c cells s" "f = newest_named c cells s name"
  shows "\<exists>g s'. open_file c s name m = Inr (g, s') \<and> looked c ok cells writable s s'
    \<and> (connected f \<longrightarrow> \<not> mode_trunc m \<longrightarrow> g = handle_append_mode m f)
    \<and> (connected f \<longrightarrow> mode_trunc m \<longrightarrow> connected g \<longrightarrow> \<not> modified g \<and> Suc (fh_page g) < max_inodes (header s)
        \<and> \<not> checksum_ok c (fs_endianness (header s)) (page_at (page_size (header s)) (fh_page g) (cells (mem s)))
        \<and> fh_inode g = (fh_inode f)\<lparr>file_len := 0, pages := 0, data_pages := [], inode_data := []\<rparr>)
    \<and> (\<not> connected f \<longrightarrow> \<not> mode_out m \<longrightarrow> \<not> mode_app m \<longrightarrow> g = empty_handle)
    \<and> (\<not> connected f \<longrightarrow> max_path_len (header s) < length name \<longrightarrow> g = empty_handle)
    \<and> (\<not> connected f \<longrightarrow> connected g \<longrightarrow> (\<exists>p. Suc p < max_inodes (header s)
        \<and> \<not> checksum_ok c (fs_endianness (header s)) (page_at (page_size (header s)) p (cells (mem s)))
        \<and> g = handle_append_mode m (new_handle\<lparr>fh_page := p, modified := True,
              fh_inode := default_inode\<lparr>file_name := name, file_name_len := length name mod 2 ^ 16\<rparr>\<rparr>)))
    \<and> ((\<exists>i. inode_page_free c (header s) (cells (mem s)) (elems (allocated_unwritten_pages s)) i) \<longrightarrow>
        connected f \<or> (mode_out m \<or> mode_app m) \<and> length name \<le> max_path_len (header s) \<longrightarrow> connected g)"
proof -
  from find_file_looks [OF assms(1,2), of name] obtain s1 where
    s1: "find_file c s name = Inr (f, s1)" "looked c ok cells writable s s1"
      "kept_claims (allocated_unwritten_pages s) (allocated_unwritten_pages s1)" unfolding assms(3) by blast
  note L = lookedD [OF s1(2)]
  from allocate_looks [OF L(1)] obtain p s2 where
    s2: "allocate_free_inode_page c s1 = Inr (handle_of_page p, s2)" "looked c ok cells writable s1 s2"
      "p = first_free_inode_page c (header s) (cells (mem s)) (elems (allocated_unwritten_pages s1)) 0"
    unfolding L(2,3) by blast
  note L2 = lookedD [OF s2(2)]
  have sub: "elems (allocated_unwritten_pages s1) \<subseteq> elems (allocated_unwritten_pages s)"
    using s1(3) assms(1) by (simp add: kept_claims_def mounted_def)
  have some: "Suc q < max_inodes (header s)
      \<and> \<not> checksum_ok c (fs_endianness (header s)) (page_at (page_size (header s)) q (cells (mem s)))" if "p = Some q" for q
    using first_free_Some [of c "header s" "cells (mem s)" _ q] that s2(3) by (simp add: inode_page_free_def)
  have none: "p \<noteq> None" if "inode_page_free c (header s) (cells (mem s)) (elems (allocated_unwritten_pages s)) i" for i
  proof
    assume "p = None"
    moreover have "inode_page_free c (header s) (cells (mem s)) (elems (allocated_unwritten_pages s1)) i" "i < max_inodes (header s)"
      using that sub by (auto simp: inode_page_free_def)
    ultimately show False using s2(3) by (simp add: first_free_inode_page_def find_None_iff)
  qed
  have unmod: "\<not> modified f" if con: "connected f"
  proof -
    from found_newest(1) [OF assms(3) refl con] obtain i g where
      i: "i < max_inodes (header s)" "stored_inode c cells s i = Some g" "f = g\<lparr>fh_page := i\<rparr>" by auto
    let ?p = "page_at (page_size (header s)) i (cells (mem s))"
    have "checksum_ok c (fs_endianness (header s)) ?p" "get_inode c s ?p False = Inr g"
      using i(2) by (auto simp: stored_inode_def Let_def split: if_splits sum.splits)
    then have "\<not> modified g" using assms(2) i(1) by (auto simp: clean_inodes_def Let_def)
    then show ?thesis using i(3) by simp
  qed
  consider (old) "connected f" "\<not> mode_trunc m" | (trunc) "connected f" "mode_trunc m"
    | (refused) "\<not> connected f" "\<not> mode_out m" "\<not> mode_app m" | (new) "\<not> connected f" "mode_out m \<or> mode_app m" by blast
  then show ?thesis
  proof cases
    case old
    then have "open_file c s name m = Inr (handle_append_mode m f, s1)" using s1(1) by (simp add: open_file_def)
    then show ?thesis using old s1(2) by (intro exI [of _ "handle_append_mode m f"] exI [of _ s1]) simp
  next
    case trunc
    from destroy_looks [OF L2(1) unmod [OF trunc(1)]] obtain s3 where
      s3: "FileHandle_destroy c s2 f = Inr s3" "looked c ok cells writable s2 s3" by blast
    let ?g = "if p = None then empty_handle else (handle_of_page p)\<lparr>fh_inode :=
        (fh_inode f)\<lparr>file_len := 0, pages := 0, data_pages := [], inode_data := []\<rparr>\<rparr>"
    have "open_file c s name m = Inr (?g, s3)"
      using trunc s1(1) s2(1) s3(1) by (cases p) (simp_all add: open_file_def open_trunc_def handle_of_page_def new_handle_def empty_handle_def)
    moreover have "looked c ok cells writable s s3" using looked_trans s1(2) s2(2) s3(2) by metis
    ultimately show ?thesis using trunc some none
      by (intro exI [of _ ?g] exI [of _ s3]) (auto simp: handle_of_page_def new_handle_def empty_handle_def split: option.splits)
  next
    case refused
    then have "open_file c s name m = Inr (empty_handle, s1)" using s1(1) by (simp add: open_file_def open_new_def)
    then show ?thesis using refused s1(2) by (intro exI [of _ empty_handle] exI [of _ s1]) simp
  next
    case new
    have ls2: "looked c ok cells writable s s2" using looked_trans s1(2) s2(2) by metis
    have hd: "header s2 = header s" using L(2) L2(2) by simp
    show ?thesis
    proof (cases p)
      case None
      then have "open_file c s name m = Inr (empty_handle, s2)"
        using new s1(1) s2(1) by (auto simp: open_file_def open_new_def handle_of_page_def)
      then show ?thesis using new ls2 none None by (intro exI [of _ empty_handle] exI [of _ s2]) auto
    next
      case (Some q)
      have u: "\<not> modified (handle_of_page p)" using Some by (simp add: handle_of_page_def new_handle_def empty_handle_def)
      from destroy_looks [OF L2(1) u] obtain s3 where
        s3: "FileHandle_destroy c s2 (handle_of_page p) = Inr s3" "looked c ok cells writable s2 s3" by blast
      show ?thesis
      proof (cases "max_path_len (header s) < length name")
        case True
        then have "open_file c s name m = Inr (empty_handle, s3)"
          using new s1(1) s2(1) s3(1) Some hd by (auto simp: open_file_def open_new_def handle_of_page_def)
        moreover have "looked c ok cells writable s s3" using looked_trans ls2 s3(2) by metis
        ultimately show ?thesis using new True by (intro exI [of _ empty_handle] exI [of _ s3]) auto
      next
        case False
        let ?g = "handle_append_mode m (new_handle\<lparr>fh_page := q, modified := True,
              fh_inode := default_inode\<lparr>file_name := name, file_name_len := length name mod 2 ^ 16\<rparr>\<rparr>)"
        have "open_file c s name m = Inr (?g, s2)"
          using new s1(1) s2(1) Some False hd
          by (auto simp: open_file_def open_new_def handle_of_page_def Let_def new_handle_def empty_handle_def)
        moreover have "connected ?g" by (simp add: handle_append_mode_def Let_def)
        ultimately show ?thesis using new False ls2 some [OF Some]
          by (intro exI [of _ ?g] exI [of _ s2]) auto
      qed
    qed
  qed
qed

end

text \<open>
  C9. Opening a file never changes the flash. A file that exists is returned as its newest version,
  with \<open>trunc\<close> as an empty handle of the same inode on a page of its own that is not marked as
  modified. A file that does not exist is created only for writing, on a free inode page, when its
  name is not too long. When an inode page is free, nothing else makes opening fail.
\<close>

theorem open_returns:
  assumes "c = stm32_config P crc e keep" "mounted stm32_ok st_mem s" "clean_inodes c st_mem s"
    "f = newest_named c st_mem s name"
  shows "\<exists>g s'. open_file c s name m = Inr (g, s') \<and> looked c stm32_ok st_mem stm32_writable s s'
    \<and> (connected f \<longrightarrow> \<not> mode_trunc m \<longrightarrow> g = handle_append_mode m f)
    \<and> (connected f \<longrightarrow> mode_trunc m \<longrightarrow> connected g \<longrightarrow> \<not> modified g \<and> Suc (fh_page g) < max_inodes (header s)
        \<and> \<not> checksum_ok c (fs_endianness (header s)) (page_at (page_size (header s)) (fh_page g) (st_mem (mem s)))
        \<and> fh_inode g = (fh_inode f)\<lparr>file_len := 0, pages := 0, data_pages := [], inode_data := []\<rparr>)
    \<and> (\<not> connected f \<longrightarrow> \<not> mode_out m \<longrightarrow> \<not> mode_app m \<longrightarrow> g = empty_handle)
    \<and> (\<not> connected f \<longrightarrow> max_path_len (header s) < length name \<longrightarrow> g = empty_handle)
    \<and> (\<not> connected f \<longrightarrow> connected g \<longrightarrow> (\<exists>p. Suc p < max_inodes (header s)
        \<and> \<not> checksum_ok c (fs_endianness (header s)) (page_at (page_size (header s)) p (st_mem (mem s)))
        \<and> g = handle_append_mode m (new_handle\<lparr>fh_page := p, modified := True,
              fh_inode := default_inode\<lparr>file_name := name, file_name_len := length name mod 2 ^ 16\<rparr>\<rparr>)))
    \<and> ((\<exists>i. inode_page_free c (header s) (st_mem (mem s)) (elems (allocated_unwritten_pages s)) i) \<longrightarrow>
        connected f \<or> (mode_out m \<or> mode_app m) \<and> length name \<le> max_path_len (header s) \<longrightarrow> connected g)"
  using assms(2-4) unfolding assms(1) by (rule fs_stm32.open_ok)

text \<open>Without a write, the old version of a truncated file is the one that is found again.\<close>

lemma truncated_unwritten:
  assumes "c = stm32_config P crc e keep" "mounted stm32_ok st_mem s" "clean_inodes c st_mem s"
    "f = newest_named c st_mem s name" "connected f" "mode_trunc m"
    "inode_page_free c (header s) (st_mem (mem s)) (elems (allocated_unwritten_pages s)) i"
  shows "\<exists>g s1. open_file c s name m = Inr (g, s1) \<and> connected g \<and> \<not> modified g \<and> file_len (fh_inode g) = 0
    \<and> (\<exists>s2 s3. FileHandle_destroy c s1 g = Inr s2 \<and> find_file c s2 name = Inr (f, s3) \<and> contents st_mem s3 f = contents st_mem s f)"
proof -
  from fs_stm32.open_ok [OF assms(2,3) [unfolded assms(1)], of f name m, folded assms(1)] assms(4-7) obtain g s1 where
    g: "open_file c s name m = Inr (g, s1)" "looked c stm32_ok st_mem stm32_writable s s1" "connected g" "\<not> modified g"
      "fh_inode g = (fh_inode f)\<lparr>file_len := 0, pages := 0, data_pages := [], inode_data := []\<rparr>" by blast
  from fs_stm32.destroy_looks [OF lookedD(1) [OF g(2)] g(4), of P crc e keep, folded assms(1)] obtain s2 where
    s2: "FileHandle_destroy c s1 g = Inr s2" "looked c stm32_ok st_mem stm32_writable s1 s2" by blast
  have l2: "looked c stm32_ok st_mem stm32_writable s s2" using looked_trans g(2) s2(2) by metis
  note L2 = lookedD [OF l2]
  from fs_stm32.find_file_looks [OF L2(1), of P crc e keep name, folded assms(1)] L2(8,9) assms(3,4) obtain s3 where
    s3: "find_file c s2 name = Inr (f, s3)" "looked c stm32_ok st_mem stm32_writable s2 s3" by auto
  have "contents st_mem s3 f = contents st_mem s f"
    using looked_file(2) [OF s3(2) L2(1)] looked_file(2) [OF l2 assms(2)] by simp
  moreover have "file_len (fh_inode g) = 0" using g(5) by simp
  ultimately show ?thesis using g s2(1) s3(1) by blast
qed

section \<open>Deleting and renaming\<close>

lemma gone_after_flush:
  assumes "header s' = header s" "p < max_inodes (header s)" "stored_inode c cells s' p = Some v" "\<not> names_file name v"
    "inode_number (fh_inode v) = inode_number (fh_inode f)"
    "inode_version_number (fh_inode f) < inode_version_number (fh_inode v)"
    "\<forall>j < max_inodes (header s). j \<noteq> p \<longrightarrow> stored_inode c cells s' j = None \<or> stored_inode c cells s' j = stored_inode c cells s j"
    "newest_of_name c cells s f" "name = file_name (fh_inode f)"
  shows "\<not> connected (newest_named c cells s' name)"
proof
  assume "connected (newest_named c cells s' name)"
  from found_newest(1) [OF refl refl this] assms(1) obtain i g where
    g: "i < max_inodes (header s)" "stored_inode c cells s' i = Some g" "names_file name g"
      "\<forall>j < max_inodes (header s). \<forall>h. stored_inode c cells s' j = Some h \<and> inode_number (fh_inode h) = inode_number (fh_inode g) \<longrightarrow>
         inode_version_number (fh_inode h) \<le> inode_version_number (fh_inode g)" by auto
  have "i \<noteq> p" using assms(3,4) g(2,3) by auto
  then have st: "stored_inode c cells s i = Some g" using assms(7) g(1,2) by auto
  have n: "inode_number (fh_inode g) = inode_number (fh_inode f)"
    "inode_version_number (fh_inode g) \<le> inode_version_number (fh_inode f)"
    using assms(8,9) st g(1,3) unfolding newest_of_name_def by blast+
  have "inode_version_number (fh_inode v) \<le> inode_version_number (fh_inode g)"
    using g(4) assms(2,3,5) n(1) by metis
  then show False using n(2) assms(6) by simp
qed

text \<open>The handle with the fields that \<open>delete_file\<close> and \<open>rename_file\<close> set before they flush it.\<close>

definition emptied :: "file_handle \<Rightarrow> file_handle" where
  "emptied f = f\<lparr>modified := True, fh_inode := (fh_inode f)\<lparr>file_name := [], file_name_len := 0,
     pages := 0, data_pages := [], inode_data := [], file_len := 0\<rparr>\<rparr>"

definition renamed :: "byte list \<Rightarrow> file_handle \<Rightarrow> file_handle" where
  "renamed name f = f\<lparr>modified := True, fh_inode := (fh_inode f)\<lparr>file_name := name,
     file_name_len := length name mod 2 ^ 16\<rparr>\<rparr>"

text \<open>A file system on which the next version of a file can be written.\<close>

definition flush_ready :: "'m config \<Rightarrow> ('m \<Rightarrow> bool) \<Rightarrow> ('m \<Rightarrow> byte list) \<Rightarrow> ('m \<Rightarrow> nat \<Rightarrow> bool) \<Rightarrow> 'm fs \<Rightarrow> file_handle \<Rightarrow> bool" where
  "flush_ready c ok cells writable s f \<longleftrightarrow> mounted ok cells s \<and> clean_inodes c cells s
     \<and> (\<exists>i. inode_page_free c (header s) (cells (mem s)) (elems (allocated_unwritten_pages s)) i)
     \<and> (\<forall>p. \<not> checksum_ok c (fs_endianness (header s)) (page_at (page_size (header s)) p (cells (mem s)))
          \<and> Suc p < max_inodes (header s) \<longrightarrow> page_writable writable (page_size (header s)) p (mem s))
     \<and> checksum_ok c (fs_endianness (header s)) (page_at (page_size (header s)) (fh_page f) (cells (mem s)))
     \<and> (keeps_old_pages c \<or> erased_invalid c (header s)) \<and> inode_version_number (fh_inode f) < 2 ^ 64 - 1"

lemma flush_ready_looked:
  assumes "flush_ready c ok cells writable s f" "looked c ok cells writable s s'"
    "kept_claims (allocated_unwritten_pages s) (allocated_unwritten_pages s')"
  shows "flush_ready c ok cells writable s' f"
proof -
  note L = lookedD [OF assms(2)]
  have "elems (allocated_unwritten_pages s') \<subseteq> elems (allocated_unwritten_pages s)"
    using assms(1,3) by (simp add: kept_claims_def flush_ready_def mounted_def)
  then have "inode_page_free c (header s) (cells (mem s)) (elems (allocated_unwritten_pages s)) i \<Longrightarrow>
      inode_page_free c (header s) (cells (mem s)) (elems (allocated_unwritten_pages s')) i" for i
    by (auto simp: inode_page_free_def)
  then show ?thesis using assms(1) unfolding flush_ready_def page_writable_def L(2-4,9) by (auto simp: L(1))
qed

context fs_on_flash
begin

lemma flush_ready_stored:
  assumes "flush_ready c ok cells writable s f" "flushable (header s) f"
    "\<forall>q \<in> set (data_pages (fh_inode f)). dp_state q = New \<longrightarrow> page_writable writable (page_size (header s)) (page_id q) (mem s)"
    "\<And>p. pages_plausible (header s) (fh_inode (next_version f p))"
  shows "\<exists>p s'. flush c s f = Inr (True, settle (next_version f p), s') \<and> mounted ok cells s' \<and> header s' = header s
    \<and> p \<noteq> fh_page f \<and> p < max_inodes (header s) \<and> clean_inodes c cells s'
    \<and> stored_inode c cells s' p = Some (stored_version (header s) f p)
    \<and> (\<forall>j < max_inodes (header s). j \<noteq> p \<longrightarrow> stored_inode c cells s' j =
          (if j = fh_page f \<and> \<not> keeps_old_pages c then None else stored_inode c cells s j))
    \<and> (\<forall>q \<in> set (data_pages (fh_inode (next_version f p))).
        page_at (page_size (header s)) (page_id q) (cells (mem s')) = new_contents (page_size (header s)) (cells (mem s)) q)"
proof -
  have r: "mounted ok cells s" "clean_inodes c cells s"
    "checksum_ok c (fs_endianness (header s)) (page_at (page_size (header s)) (fh_page f) (cells (mem s)))"
    "keeps_old_pages c \<or> erased_invalid c (header s)" using assms(1) by (simp_all add: flush_ready_def)
  obtain i where i: "inode_page_free c (header s) (cells (mem s)) (elems (allocated_unwritten_pages s)) i"
    using assms(1) by (auto simp: flush_ready_def)
  obtain p where p: "first_free_inode_page c (header s) (cells (mem s)) (elems (allocated_unwritten_pages s)) 0 = Some p"
  proof (cases "first_free_inode_page c (header s) (cells (mem s)) (elems (allocated_unwritten_pages s)) 0")
    case None
    then show ?thesis using i by (auto simp: first_free_inode_page_def find_None_iff inode_page_free_def)
  qed (rule that)
  have "page_writable writable (page_size (header s)) p (mem s)"
    using first_free_Some [OF p] assms(1) by (auto simp: flush_ready_def inode_page_free_def)
  from flush_stored [OF r(1) assms(2) p disjI1 [OF r(3)] this assms(3,4) r(4)] r(2) show ?thesis by blast
qed

end



section \<open>The properties hold of a flash with one file\<close>

lemma one_file_found:
  assumes "c = stm32_config 0 (\<lambda>_. 7) LE False"
  shows "mounted stm32_ok st_mem (one_file_fs c)" "connected (newest_named c st_mem (one_file_fs c) [97])"
    "n \<noteq> [97] \<Longrightarrow> \<not> connected (newest_named c st_mem (one_file_fs c) n)"
proof -
  let ?s = "one_file_fs c"
  have c: "crc32 c = (\<lambda>_. 7)" by (simp add: assms)
  note o = one_file [OF c]
  have h: "header ?s = small_header" by (simp add: one_file_fs_def)
  have "ps_inv (free_data_pages ?s)" "ps_inv (allocated_unwritten_pages ?s)" "m_max (header_inode_range ?s) = 4"
    by (simp_all add: one_file_fs_def) (simp add: small_fs_def ps_inv_def NO_DATA_def)
  then show m: "mounted stm32_ok st_mem ?s" using o(1,2) by (simp add: mounted_def h)
  from o(6) obtain g where g: "stored_inode c st_mem ?s 0 = Some g" "file_name (fh_inode g) = [97]" by blast
  show "connected (newest_named c st_mem ?s [97])"
  proof (rule ccontr)
    assume "\<not> connected (newest_named c st_mem ?s [97])"
    from found_newest(2) [OF refl refl this _ g(1)] g(2) obtain j k where
      "j < 4" "j \<noteq> 0" "stored_inode c st_mem ?s j = Some k" by (auto simp: h names_file_def)
    then show False using o(5) by fastforce
  qed
  show "\<not> connected (newest_named c st_mem ?s n)" if "n \<noteq> [97]"
  proof
    assume "connected (newest_named c st_mem ?s n)"
    from found_newest(1) [OF refl refl this] obtain j k where
      "j < 4" "stored_inode c st_mem ?s j = Some k" "names_file n k" by (auto simp: h)
    then show False using o(5) [of j] g that by (auto simp: names_file_def)
  qed
qed

lemma one_file_ready:
  assumes "c = stm32_config 0 (\<lambda>_. 7) LE False"
  shows "flush_ready c stm32_ok st_mem stm32_writable (one_file_fs c) sample_file"
    "inode_page_free c small_header (st_mem (mem (one_file_fs c))) {} 1"
proof -
  let ?s = "one_file_fs c"
  have c: "crc32 c = (\<lambda>_. 7)" by (simp add: assms)
  have h: "header ?s = small_header" "elems (allocated_unwritten_pages ?s) = {}" by (simp_all add: one_file_fs_def)
  note pg = one_file_pages [OF c]
  show fr: "inode_page_free c small_header (st_mem (mem ?s)) {} 1" using first_free_Some [OF pg(2)] by simp
  have er: "erased_invalid c small_header"
    using erased_not_ok [of 0 512 c] c by (simp add: erased_invalid_def page_in_def page_at_def slice_def erased_def)
  show "flush_ready c stm32_ok st_mem stm32_writable ?s sample_file"
    using one_file_found(1) [OF assms] one_file(4) [OF c] fr pg er
    by (auto simp: flush_ready_def h sample_file_def new_handle_def empty_handle_def)
qed

theorem open_returns_witness:
  "\<exists>g s'. open_file (stm32_config 0 (\<lambda>_. 7) LE False) (one_file_fs (stm32_config 0 (\<lambda>_. 7) LE False)) [98]
      \<lparr>mode_out = True, mode_app = False, mode_ate = False, mode_trunc = False\<rparr> = Inr (g, s')
    \<and> connected g \<and> file_name (fh_inode g) = [98]"
proof -
  let ?c = "stm32_config 0 (\<lambda>_. 7) LE False" and ?m = "\<lparr>mode_out = True, mode_app = False, mode_ate = False, mode_trunc = False\<rparr>"
  let ?s = "one_file_fs ?c"
  have c: "crc32 ?c = (\<lambda>_. 7)" by simp
  have h: "header ?s = small_header" "elems (allocated_unwritten_pages ?s) = {}" by (simp_all add: one_file_fs_def)
  have nn: "\<not> connected (newest_named ?c st_mem ?s [98])" by (rule one_file_found(3) [OF refl]) simp
  have fr: "\<exists>i. inode_page_free ?c (header ?s) (st_mem (mem ?s)) (elems (allocated_unwritten_pages ?s)) i"
    using one_file_ready(2) [OF refl] by (auto simp: h)
  have len: "length [98 :: byte] \<le> max_path_len (header ?s)" "mode_out ?m" by (simp_all add: h)
  from open_returns [OF refl one_file_found(1) [OF refl] one_file(4) [OF c] refl, of "[98]" ?m] obtain g s' where
    g: "open_file ?c ?s [98] ?m = Inr (g, s')" "connected g"
      "\<exists>p. g = handle_append_mode ?m (new_handle\<lparr>fh_page := p, modified := True,
          fh_inode := default_inode\<lparr>file_name := [98], file_name_len := length [98 :: byte] mod 2 ^ 16\<rparr>\<rparr>)"
    using fr len nn by blast
  then show ?thesis by (auto simp: handle_append_mode_def)
qed


lemma one_file_good:
  assumes "c = stm32_config 0 (\<lambda>_. 7) LE False"
  shows "file_ok stm32_ok st_mem stm32_writable (one_file_fs c) sample_file" "connected sample_file" "\<not> append_mode sample_file"
proof -
  have c: "crc32 c = (\<lambda>_. 7)" by (simp add: assms)
  have h: "header (one_file_fs c) = small_header" by (simp add: one_file_fs_def)
  have fr: "elems (free_data_pages (one_file_fs c)) = {4, 5, 6}" "ps_inv (free_data_pages (one_file_fs c))"
    by (auto simp: one_file_fs_def small_fs_def elems_def ps_inv_def NO_DATA_def)
  have i: "data_pages (fh_inode sample_file) = []" "file_len (fh_inode sample_file) = 2" "file_name_len (fh_inode sample_file) = 1"
    "inode_data (fh_inode sample_file) = [10, 11]" "fh_pos sample_file = 0"
    by (simp_all add: sample_file_def new_handle_def empty_handle_def default_inode_def)
  show "file_ok stm32_ok st_mem stm32_writable (one_file_fs c) sample_file"
    using one_file(1,2) [OF c] one_file_pages(3) [OF c]
    by (simp add: file_ok_def io_ok_def h i fr valid_pages_def pages_ok_def get_inode_data_space_size_def
      get_checksum_size_def small_header_def sub64_def)
  show "connected sample_file" "\<not> append_mode sample_file" by (simp_all add: sample_file_def new_handle_def empty_handle_def)
qed


end
