(* ===== verification/H7TwoFace.thy ===== *)
theory H7TwoFace
  imports TwoFlashPages HandleFile
begin

text \<open>
  The set-up of the two flash pages on one microcontroller (\<open>src_2face/H7TwoFace\<close>): functions
  without an object, over one file system that exists only while a file is open or a question is
  answered, and a callback that the application gives to lock the file system for that time.
\<close>

section \<open>State\<close>

definition SFF_FILE_NAME_MAX :: nat where "SFF_FILE_NAME_MAX = 30"
definition SFF_PAGE_SIZE :: nat where "SFF_PAGE_SIZE = 512"
definition SFF_MAX_SIZE :: nat where "SFF_MAX_SIZE = 128 * 1024"

definition RESERVED_NAMES :: "byte list list" where
  "RESERVED_NAMES = [COPY_COMPLETED_FILE_NAME, FILESYSTEM_SEALED_FILE_NAME]"

text \<open>
  \<open>H7TwoFaceImpl\<close>: the file system, and the handle of the file that is open. The variables of the
  source: the two memory interfaces, with the state of the flash behind them while there is no
  instance, the instance, and the calls made so far of the callback. The time of its life an
  instance holds the flashes.
\<close>

record 'm h7_impl =
  hi_fs :: "'m two_fs"
  hi_file :: "file_handle option"

record 'm h7 =
  fs_mem1 :: "'m option"
  fs_mem2 :: "'m option"
  fs_impl :: "'m h7_impl option"
  lock_calls :: "bool list"

text \<open>
  What the functions depend on besides: the flash, the byte order of the machine, the checksum
  function of the application and the rounding of \<open>double\<close>.
\<close>

record 'm h7_env =
  he_flash :: "'m flash_ops"
  he_native :: endianness
  he_crc32_func :: "byte list \<Rightarrow> 32 word"
  he_rnd :: "rat \<Rightarrow> rat"

definition ConfigH7 :: "'m h7_env \<Rightarrow> 'm config" where
  "ConfigH7 E = \<lparr>PAGE_SIZE = SFF_PAGE_SIZE, crc32 = he_crc32_func E, native = he_native E,
     flash = he_flash E, keeps_old_pages = True\<rparr>"

definition set_memory_interface :: "'m h7 \<Rightarrow> 'm \<Rightarrow> 'm \<Rightarrow> 'm h7" where
  "set_memory_interface g m1 m2 = g\<lparr>fs_mem1 := Some m1, fs_mem2 := Some m2\<rparr>"

definition set_lock_unlock_callback :: "'m h7 \<Rightarrow> 'm h7" where
  "set_lock_unlock_callback g = g\<lparr>lock_calls := []\<rparr>"

definition set_crc32_func :: "'m h7_env \<Rightarrow> (byte list \<Rightarrow> 32 word) \<Rightarrow> 'm h7_env" where
  "set_crc32_func E f = E\<lparr>he_crc32_func := f\<rparr>"

definition lock_unlock_instance_cb :: "bool \<Rightarrow> 'm h7 \<Rightarrow> 'm h7" where
  "lock_unlock_instance_cb b g = g\<lparr>lock_calls := lock_calls g @ [b]\<rparr>"

text \<open>
  A function returns a value and the variables, or throws. Then the calls of the callback are
  known, the flashes are not followed. With \<open>Terminated\<close> in the place of an exception (a flush that
  throws inside a destructor) nothing of it comes back: the program has ended.
\<close>

datatype ('a, 'm) outcome = Returns 'a "'m h7" | Throws error "bool list"

fun outcome_bind :: "('a, 'm) outcome \<Rightarrow> ('a \<Rightarrow> 'm h7 \<Rightarrow> ('b, 'm) outcome) \<Rightarrow> ('b, 'm) outcome" where
  "outcome_bind (Returns x g) f = f x g"
| "outcome_bind (Throws e l) f = Throws e l"

section \<open>The instance\<close>

text \<open>The constructor. An empty optional throws in \<open>value()\<close>; so does a file system without a mount.\<close>

definition H7TwoFaceImpl :: "'m h7_env \<Rightarrow> bool \<Rightarrow> 'm h7 \<Rightarrow> 'm h7_impl res" where
  "H7TwoFaceImpl E do_init g =
     (case (fs_mem1 g, fs_mem2 g) of
        (Some m1, Some m2) \<Rightarrow>
          let t = SimpleFs2FlashPages m1 m2
          in if do_init then
               bindE (two_init (he_rnd E) SFF_MAX_SIZE SFF_FILE_NAME_MAX (ConfigH7 E) t) (\<lambda>(done, t).
               if \<not> done then Inl Runtime_error else Inr \<lparr>hi_fs = t, hi_file = None\<rparr>)
             else Inr \<lparr>hi_fs = t, hi_file = None\<rparr>
      | _ \<Rightarrow> Inl Bad_access)"

definition put_active :: "'m two_fs \<Rightarrow> 'm fs \<Rightarrow> 'm two_fs" where
  "put_active t s =
     (case two_active t of
        None \<Rightarrow> t
      | Some sd \<Rightarrow>
          case cp_fs (the_component t sd) of
            None \<Rightarrow> t
          | Some n \<Rightarrow> set_component t sd ((the_component t sd)\<lparr>cp_fs := Some (n\<lparr>nd_fs := s\<rparr>)\<rparr>))"

text \<open>\<open>file.reset()\<close>.\<close>

definition reset_file :: "'m h7_env \<Rightarrow> 'm h7_impl \<Rightarrow> 'm h7_impl res" where
  "reset_file E I =
     (case hi_file I of
        None \<Rightarrow> Inr I
      | Some f \<Rightarrow>
          bindE (active_fs (hi_fs I)) (\<lambda>n.
          bindE (FileHandle_destroy (ConfigH7 E) (nd_fs n) f) (\<lambda>s.
          Inr \<lparr>hi_fs = put_active (hi_fs I) s, hi_file = None\<rparr>)))"

text \<open>
  \<open>fs_impl.reset()\<close>: the destructor of the instance calls the callback first, then its members are
  destroyed, the file before the file system.
\<close>

definition fs_impl_reset :: "'m h7_env \<Rightarrow> 'm h7 \<Rightarrow> (unit, 'm) outcome" where
  "fs_impl_reset E g =
     (case fs_impl g of
        None \<Rightarrow> Returns () g
      | Some I \<Rightarrow>
          let g = lock_unlock_instance_cb False g
          in case reset_file E I of
               Inl e \<Rightarrow> Throws e (lock_calls g)
             | Inr I \<Rightarrow> Returns () (g\<lparr>fs_mem1 := Some (component_mem (comp1 (hi_fs I))),
                 fs_mem2 := Some (component_mem (comp2 (hi_fs I))), fs_impl := None\<rparr>))"

text \<open>
  What the functions have in common: the callback, the refusal while there is an instance, the
  instance, and \<open>AutoFreeFs\<close>, which resets it at the end of the function unless it is told not to
  (\<open>keep\<close>), also when the function is left by an exception. When the constructor throws, there is
  nothing to reset.
\<close>

definition with_instance :: "'m h7_env \<Rightarrow> bool \<Rightarrow> 'a \<Rightarrow> ('m h7_impl \<Rightarrow> ('a \<times> bool \<times> 'm h7_impl) res) \<Rightarrow>
    'm h7 \<Rightarrow> ('a, 'm) outcome" where
  "with_instance E do_init refused body g =
     (let g = lock_unlock_instance_cb True g
      in if fs_impl g \<noteq> None then Returns refused (lock_unlock_instance_cb False g)
         else
           case H7TwoFaceImpl E do_init g of
             Inl e \<Rightarrow> Throws e (lock_calls g)
           | Inr I \<Rightarrow>
               case body I of
                 Inl e \<Rightarrow> Throws e (lock_calls (lock_unlock_instance_cb False g))
               | Inr (x, keep, I) \<Rightarrow>
                   let g = g\<lparr>fs_impl := Some I\<rparr>
                   in if keep then Returns x g else outcome_bind (fs_impl_reset E g) (\<lambda>_ g. Returns x g))"

section \<open>Files\<close>

text \<open>
  The flags \<open>in\<close> and \<open>binary\<close>, which only this class looks at: a file that is opened for reading
  only needs no free inode.
\<close>

record h7_mode = open_mode +
  mode_in_flag :: bool
  mode_binary :: bool

definition is_in_only :: "h7_mode \<Rightarrow> bool" where
  "is_in_only m \<longleftrightarrow> mode_in_flag m \<and> \<not> mode_binary m \<and> \<not> mode_out m \<and> \<not> mode_app m \<and> \<not> mode_ate m \<and> \<not> mode_trunc m"

text \<open>\<open>H7TwoFace::open\<close>; the result tells whether it returned a file, which is then the one of the instance.\<close>

definition h7_open_body :: "'m h7_env \<Rightarrow> byte list \<Rightarrow> h7_mode \<Rightarrow> 'm h7_impl \<Rightarrow> (bool \<times> bool \<times> 'm h7_impl) res" where
  "h7_open_body E name m I =
     bindE (active_fs (hi_fs I)) (\<lambda>n.
     let free = free_inodes (nd_stat n)
     in if \<not> (mode_trunc m \<and> free > 2) \<and> \<not> is_in_only m \<and> free \<le> 3 then Inr (False, False, I)
        else
          bindE (two_open (ConfigH7 E) (hi_fs I) name (open_mode.truncate m)) (\<lambda>(f, t).
          let I = \<lparr>hi_fs = t, hi_file = Some f\<rparr>
          in Inr (connected f, connected f, I)))"

definition h7_open :: "'m h7_env \<Rightarrow> 'm h7 \<Rightarrow> byte list \<Rightarrow> h7_mode \<Rightarrow> (bool, 'm) outcome" where
  "h7_open E g name m =
     (if name \<in> set RESERVED_NAMES then Returns False g
      else with_instance E True False (h7_open_body E name m) g)"

text \<open>The destructor of the file, run by the deleter of the handle that \<open>open\<close> returned.\<close>

definition h7_close :: "'m h7_env \<Rightarrow> 'm h7 \<Rightarrow> (unit, 'm) outcome" where
  "h7_close E g =
     (case fs_impl g of
        None \<Rightarrow> Returns () g
      | Some I \<Rightarrow>
          case reset_file E I of
            Inl e \<Rightarrow> Throws e (lock_calls g)
          | Inr I \<Rightarrow> fs_impl_reset E (g\<lparr>fs_impl := Some I\<rparr>))"

text \<open>The other functions of the file are those of the handle on the active file system.\<close>

definition h7_file :: "'m h7 \<Rightarrow> ('m fs \<times> file_handle) option" where
  "h7_file g =
     (case fs_impl g of
        None \<Rightarrow> None
      | Some I \<Rightarrow>
          case (hi_file I, active_fs (hi_fs I)) of (Some f, Inr n) \<Rightarrow> Some (nd_fs n, f) | _ \<Rightarrow> None)"

definition put_h7_file :: "'m h7 \<Rightarrow> 'm fs \<times> file_handle \<Rightarrow> 'm h7" where
  "put_h7_file g x =
     (case fs_impl g of
        None \<Rightarrow> g
      | Some I \<Rightarrow> g\<lparr>fs_impl := Some \<lparr>hi_fs = put_active (hi_fs I) (fst x), hi_file = Some (snd x)\<rparr>\<rparr>)"

definition on_file :: "('m fs \<times> file_handle \<Rightarrow> ('a \<times> 'm fs \<times> file_handle) res) \<Rightarrow> 'm h7 \<Rightarrow> ('a \<times> 'm h7) res" where
  "on_file op g =
     (case h7_file g of
        None \<Rightarrow> Inl Undefined
      | Some x \<Rightarrow> bindE (op x) (\<lambda>(r, x). Inr (r, put_h7_file g x)))"

definition h7_ops :: "'m config \<Rightarrow> 'm h7 file_ops" where
  "h7_ops c =
     (let H = handle_ops c
      in \<lparr>fi_valid = (\<lambda>g. case h7_file g of None \<Rightarrow> False | Some x \<Rightarrow> fi_valid H x),
          fi_write = (\<lambda>g d. on_file (\<lambda>x. fi_write H x d) g),
          fi_read = (\<lambda>g n. on_file (\<lambda>x. fi_read H x n) g),
          fi_flush = on_file (fi_flush H),
          fi_tellg = (\<lambda>g. case h7_file g of None \<Rightarrow> 0 | Some x \<Rightarrow> fi_tellg H x),
          fi_file_size = (\<lambda>g. case h7_file g of None \<Rightarrow> 0 | Some x \<Rightarrow> fi_file_size H x),
          fi_eof = (\<lambda>g. case h7_file g of None \<Rightarrow> True | Some x \<Rightarrow> fi_eof H x),
          fi_seek = (\<lambda>g p. on_file (\<lambda>x. fi_seek H x p) g),
          fi_delete_file = on_file (fi_delete_file H),
          fi_rename_file = (\<lambda>g name. on_file (\<lambda>x. fi_rename_file H x name) g),
          fi_truncate = (\<lambda>g n. on_file (\<lambda>x. fi_truncate H x n) g),
          fi_get_file_name = (\<lambda>g. case h7_file g of None \<Rightarrow> [] | Some x \<Rightarrow> fi_get_file_name H x),
          fi_is_append_mode = (\<lambda>g. case h7_file g of None \<Rightarrow> False | Some x \<Rightarrow> fi_is_append_mode H x)\<rparr>)"

section \<open>Questions\<close>

text \<open>
  The names are views of the mapped flash, here their bytes; a flash that cannot be mapped gives an
  empty optional. The filter leaves out the two special files.
\<close>

definition push_name :: "'m config \<Rightarrow> file_handle \<Rightarrow> 'm fs \<Rightarrow> byte list list \<Rightarrow>
    (bool \<times> file_handle \<times> 'm fs \<times> byte list list) res" where
  "push_name c f s names =
     bindE (get_inode_file_name_mapped c s f) (\<lambda>name.
     case name of None \<Rightarrow> Inl Bad_access | Some n \<Rightarrow> Inr (True, f, s, names @ [n]))"

definition count_file :: "file_handle \<Rightarrow> 'm fs \<Rightarrow> nat \<Rightarrow> (bool \<times> file_handle \<times> 'm fs \<times> nat) res" where
  "count_file f s n = Inr (True, f, s, Suc n)"

definition h7_list_files :: "'m h7_env \<Rightarrow> 'm h7 \<Rightarrow> (byte list list, 'm) outcome" where
  "h7_list_files E g = with_instance E True [] (\<lambda>I.
     bindE (active_fs (hi_fs I)) (\<lambda>n.
     bindE (list_files (ConfigH7 E) (Some special_file_filter) (push_name (ConfigH7 E)) (nd_fs n) []) (\<lambda>(s, names).
     Inr (names, False, I\<lparr>hi_fs := put_active (hi_fs I) s\<rparr>)))) g"

record h7_stat =
  hs_largest_file_size :: nat
  hs_trash_size :: nat
  hs_used_inodes :: nat
  hs_trash_inodes :: nat
  hs_free_inodes :: nat
  max_number_of_files :: nat
  number_of_files :: nat
  max_file_size :: nat
  hs_max_path_len :: nat
  free_space :: nat

definition empty_h7_stat :: h7_stat where
  "empty_h7_stat = \<lparr>hs_largest_file_size = 0, hs_trash_size = 0, hs_used_inodes = 0, hs_trash_inodes = 0,
     hs_free_inodes = 0, max_number_of_files = 0, number_of_files = 0, max_file_size = 0, hs_max_path_len = 0,
     free_space = 0\<rparr>"

definition h7_get_stat :: "'m h7_env \<Rightarrow> 'm h7 \<Rightarrow> (h7_stat, 'm) outcome" where
  "h7_get_stat E g = with_instance E True empty_h7_stat (\<lambda>I.
     bindE (active_fs (hi_fs I)) (\<lambda>n.
     let st = nd_stat n; h = header (nd_fs n)
     in bindE (list_files (ConfigH7 E) (Some special_file_filter) count_file (nd_fs n) 0) (\<lambda>(s, count).
        Inr (\<lparr>hs_largest_file_size = largest_file_size st, hs_trash_size = trash_size st,
               hs_used_inodes = used_inodes st, hs_trash_inodes = trash_inodes st, hs_free_inodes = free_inodes st,
               max_number_of_files = sub64 (sub32 (max_inodes h) 1) (length RESERVED_NAMES),
               number_of_files = count, max_file_size = get_max_file_size s, hs_max_path_len = max_path_len h,
               free_space = add64 (mul64 (get_number_of_free_data_pages s) (page_size h)) (trash_size st)\<rparr>,
             False, I\<lparr>hi_fs := put_active (hi_fs I) s\<rparr>)))) g"

definition h7_recreate :: "'m h7_env \<Rightarrow> 'm h7 \<Rightarrow> (bool, 'm) outcome" where
  "h7_recreate E g = with_instance E False False (\<lambda>I.
     bindE (recreate (he_rnd E) SFF_MAX_SIZE SFF_FILE_NAME_MAX (ConfigH7 E) (hi_fs I)) (\<lambda>(done, t).
     Inr (done, False, I\<lparr>hi_fs := t\<rparr>))) g"

end
