(* ===== verification/H7Props.thy ===== *)
theory H7Props
  imports H7TwoFace MountSpec
begin

text \<open>
  The protocol of the callback: it is called with \<open>True\<close> before an instance comes to life and with
  \<open>False\<close> when it ends, whatever the application calls in between; with one exception, a mount that
  fails. And the file that \<open>open\<close> returns is a file with the contract of \<open>FileInterface\<close>.
\<close>

section \<open>Sequences of calls\<close>

datatype file_call =
  Do_write "byte list" | Do_read nat | Do_flush | Do_seek nat | Do_delete | Do_rename "byte list" | Do_truncate nat

datatype h7_call =
  Do_open "byte list" h7_mode | Do_close | Do_list | Do_stat | Do_recreate | Do_file file_call

fun file_run :: "'s file_ops \<Rightarrow> file_call \<Rightarrow> 's \<Rightarrow> 's res" where
  "file_run F (Do_write d) s = bindE (fi_write F s d) (\<lambda>(_, s). Inr s)"
| "file_run F (Do_read n) s = bindE (fi_read F s n) (\<lambda>(_, s). Inr s)"
| "file_run F Do_flush s = bindE (fi_flush F s) (\<lambda>(_, s). Inr s)"
| "file_run F (Do_seek p) s = bindE (fi_seek F s p) (\<lambda>(_, s). Inr s)"
| "file_run F Do_delete s = bindE (fi_delete_file F s) (\<lambda>(_, s). Inr s)"
| "file_run F (Do_rename name) s = bindE (fi_rename_file F s name) (\<lambda>(_, s). Inr s)"
| "file_run F (Do_truncate n) s = bindE (fi_truncate F s n) (\<lambda>(_, s). Inr s)"

definition no_result :: "('a, 'm) outcome \<Rightarrow> (unit, 'm) outcome" where
  "no_result r = outcome_bind r (\<lambda>_ g. Returns () g)"

fun h7_run :: "'m h7_env \<Rightarrow> h7_call \<Rightarrow> 'm h7 \<Rightarrow> (unit, 'm) outcome" where
  "h7_run E (Do_open name m) g = no_result (h7_open E g name m)"
| "h7_run E Do_close g = h7_close E g"
| "h7_run E Do_list g = no_result (h7_list_files E g)"
| "h7_run E Do_stat g = no_result (h7_get_stat E g)"
| "h7_run E Do_recreate g = no_result (h7_recreate E g)"
| "h7_run E (Do_file f) g =
     (case file_run (h7_ops (ConfigH7 E)) f g of Inl e \<Rightarrow> Throws e (lock_calls g) | Inr g \<Rightarrow> Returns () g)"

fun h7_runs :: "'m h7_env \<Rightarrow> h7_call list \<Rightarrow> 'm h7 \<Rightarrow> (unit, 'm) outcome" where
  "h7_runs E [] g = Returns () g"
| "h7_runs E (x # xs) g = outcome_bind (h7_run E x g) (\<lambda>_ g. h7_runs E xs g)"

section \<open>The callback\<close>

text \<open>How often the callback has locked more than it has unlocked, and how often it should have.\<close>

definition balance :: "bool list \<Rightarrow> int" where
  "balance l = sum_list (map (\<lambda>b. if b then 1 else - 1) l)"

definition held :: "'m h7 \<Rightarrow> int" where
  "held g = (if fs_impl g = None then 0 else 1)"

text \<open>From \<open>l\<close> on, at most one more than is held, and at most two.\<close>

definition well_locked :: "int \<Rightarrow> bool list \<Rightarrow> bool" where
  "well_locked x l \<longleftrightarrow> (\<forall>k \<le> length l. x \<le> balance (take k l) \<and> balance (take k l) \<le> x + 2)"

lemma balance_simps [simp]:
  "balance [] = 0" "balance (l @ [b]) = balance l + (if b then 1 else - 1)"
  by (simp_all add: balance_def)

lemma well_locked_snoc [simp]:
  "well_locked x (l @ [b]) \<longleftrightarrow>
     well_locked x l \<and> x \<le> balance l + (if b then 1 else - 1) \<and> balance l + (if b then 1 else - 1) \<le> x + 2"
proof -
  have "(\<forall>k \<le> Suc (length l). P (take k (l @ [b]))) \<longleftrightarrow> (\<forall>k \<le> length l. P (take k l)) \<and> P (l @ [b])" for P
    by (auto simp: le_Suc_eq)
  from this [of "\<lambda>l. x \<le> balance l \<and> balance l \<le> x + 2"] show ?thesis
    unfolding well_locked_def by (simp del: take_append)
qed

lemma lock_cb_simps [simp]:
  "lock_calls (lock_unlock_instance_cb b g) = lock_calls g @ [b]"
  "fs_impl (lock_unlock_instance_cb b g) = fs_impl g"
  "held (lock_unlock_instance_cb b g) = held g"
  "fs_mem1 (lock_unlock_instance_cb b g) = fs_mem1 g" "fs_mem2 (lock_unlock_instance_cb b g) = fs_mem2 g"
  by (simp_all add: lock_unlock_instance_cb_def held_def)

lemma outcome_bind_Returns [simp]:
  "outcome_bind r f = Returns y g' \<longleftrightarrow> (\<exists>x g. r = Returns x g \<and> f x g = Returns y g')"
  by (cases r) auto

lemma no_result_Returns [simp]: "no_result r = Returns u g \<longleftrightarrow> (\<exists>x. r = Returns x g)"
  by (simp add: no_result_def)

lemma H7TwoFaceImpl_lock [simp]: "H7TwoFaceImpl E b (lock_unlock_instance_cb x g) = H7TwoFaceImpl E b g"
  by (simp add: H7TwoFaceImpl_def)

lemma fs_impl_reset_Returns:
  "fs_impl_reset E g = Returns u g' \<Longrightarrow> fs_impl g' = None \<and>
     lock_calls g' = (if fs_impl g = None then lock_calls g else lock_calls g @ [False])"
  by (auto simp: fs_impl_reset_def Let_def split: option.splits sum.splits)

text \<open>What a call that returns does to the callback.\<close>

definition follows :: "int \<Rightarrow> 'm h7 \<Rightarrow> 'm h7 \<Rightarrow> bool" where
  "follows x g g' \<longleftrightarrow> balance (lock_calls g') - held g' = balance (lock_calls g) - held g \<and> (balance (lock_calls g) = x + held g \<longrightarrow> well_locked x (lock_calls g) \<longrightarrow>
     balance (lock_calls g') = x + held g' \<and> well_locked x (lock_calls g'))"

lemma follows_refl: "held g' = held g \<Longrightarrow> lock_calls g' = lock_calls g \<Longrightarrow> follows x g g'"
  by (simp add: follows_def)

lemma follows_trans: "follows x g h \<Longrightarrow> follows x h k \<Longrightarrow> follows x g k"
  by (simp add: follows_def)

lemma with_instance_follows:
  assumes "with_instance E b r body g = Returns y g'"
  shows "follows x g g'"
proof (cases "fs_impl g")
  case None
  show ?thesis
  proof (cases "H7TwoFaceImpl E b g")
    case (Inr I)
    show ?thesis
    proof (cases "body I")
      case (Inr z)
      obtain v keep J where z: "z = (v, keep, J)" by (cases z)
      let ?h = "(lock_unlock_instance_cb True g)\<lparr>fs_impl := Some J\<rparr>"
      have "lock_calls g' = lock_calls g @ [True] \<and> fs_impl g' = Some J
          \<or> lock_calls g' = (lock_calls g @ [True]) @ [False] \<and> fs_impl g' = None"
      proof (cases keep)
        case True
        then show ?thesis using assms None \<open>H7TwoFaceImpl E b g = Inr I\<close> Inr z by (auto simp: with_instance_def)
      next
        case False
        then obtain u where "fs_impl_reset E ?h = Returns u g'"
          using assms None \<open>H7TwoFaceImpl E b g = Inr I\<close> Inr z by (auto simp: with_instance_def)
        from fs_impl_reset_Returns [OF this] show ?thesis by (simp del: append_assoc)
      qed
      then show ?thesis
      proof (elim disjE conjE)
        assume "lock_calls g' = lock_calls g @ [True]" "fs_impl g' = Some J"
        then show ?thesis using None by (simp add: follows_def held_def)
      next
        assume "lock_calls g' = (lock_calls g @ [True]) @ [False]" "fs_impl g' = None"
        then show ?thesis using None by (simp add: follows_def held_def del: append_assoc)
      qed
    qed (use assms None \<open>H7TwoFaceImpl E b g = Inr I\<close> in \<open>simp add: with_instance_def\<close>)
  qed (use assms None in \<open>simp add: with_instance_def\<close>)
next
  case (Some I)
  then have "g' = lock_unlock_instance_cb False (lock_unlock_instance_cb True g)"
    using assms by (simp add: with_instance_def)
  then show ?thesis using Some by (simp add: follows_def held_def del: append_assoc)
qed

lemma h7_close_follows:
  assumes "h7_close E g = Returns u g'"
  shows "follows x g g'" "fs_impl g' = None"
proof -
  have "fs_impl g' = None \<and> lock_calls g' = (if fs_impl g = None then lock_calls g else lock_calls g @ [False])"
    using assms fs_impl_reset_Returns [of E "g\<lparr>fs_impl := Some J\<rparr>" u g' for J]
    by (auto simp: h7_close_def split: option.splits sum.splits)
  then show "follows x g g'" "fs_impl g' = None"
    by (auto simp: follows_def held_def)
qed

lemma put_h7_file_simps [simp]:
  "held (put_h7_file g y) = held g" "lock_calls (put_h7_file g y) = lock_calls g"
  by (simp_all add: put_h7_file_def held_def split: option.split)

lemma on_file_same: "on_file op g = Inr (r, g') \<Longrightarrow> held g' = held g \<and> lock_calls g' = lock_calls g"
  by (auto simp: on_file_def res_simps split: option.splits)

lemma file_run_same: "file_run (h7_ops c) f g = Inr g' \<Longrightarrow> held g' = held g \<and> lock_calls g' = lock_calls g"
  by (cases f) (auto simp: h7_ops_def Let_def res_simps dest!: on_file_same)

lemma h7_run_follows:
  assumes "h7_run E call g = Returns u g'"
  shows "follows x g g'"
proof (cases call)
  case (Do_file f)
  then show ?thesis using assms file_run_same [of _ f g] by (auto intro!: follows_refl split: sum.splits)
next
  case (Do_open name m)
  then show ?thesis using assms with_instance_follows
    by (fastforce simp: h7_open_def intro: follows_refl split: if_splits)
qed (use assms with_instance_follows h7_close_follows in
    \<open>fastforce simp: h7_list_files_def h7_get_stat_def h7_recreate_def\<close>)+

lemma h7_runs_follows: "h7_runs E calls g = Returns u g' \<Longrightarrow> follows x g g'"
proof (induction calls arbitrary: g)
  case (Cons call calls)
  then show ?case using follows_trans h7_run_follows by fastforce
qed (simp add: follows_refl)

section \<open>An instance has a file\<close>

definition has_file :: "'m h7 \<Rightarrow> bool" where
  "has_file g \<longleftrightarrow> (fs_impl g \<noteq> None \<longrightarrow> h7_file g \<noteq> None)"

lemma the_component_simps [simp]:
  "the_component (set_component t sd p) sd' = (if sd = sd' then p else the_component t sd')"
  "two_active (set_component t sd p) = two_active t"
  by (simp_all add: the_component_def set_component_def split: side.splits)

lemma put_active_ok:
  assumes "active_fs t = Inr n"
  shows "active_fs (put_active t s) = Inr (n\<lparr>nd_fs := s\<rparr>)"
  using assms by (auto simp: active_fs_def put_active_def component_fs_def split: option.splits)

lemma h7_file_SomeD:
  assumes "h7_file g = Some (s, f)"
  obtains I n where "fs_impl g = Some I" "hi_file I = Some f" "active_fs (hi_fs I) = Inr n" "nd_fs n = s"
  using assms by (auto simp: h7_file_def split: option.splits sum.splits)

lemma h7_file_put [simp]:
  assumes "h7_file g \<noteq> None"
  shows "h7_file (put_h7_file g x) = Some x"
proof -
  obtain s f where x: "h7_file g = Some (s, f)" using assms by auto
  show ?thesis by (rule h7_file_SomeD [OF x]) (simp add: put_h7_file_def h7_file_def put_active_ok)
qed

lemma two_open_active: "two_open c t name m = Inr (f, t') \<Longrightarrow> \<exists>n. active_fs t' = Inr n"
  by (auto simp: two_open_def active_fs_def component_fs_def res_simps Let_def split: option.splits)

lemma with_instance_file:
  assumes "with_instance E b r body g = Returns y g'" "has_file g"
    "\<And>I x J. body I = Inr (x, True, J) \<Longrightarrow> \<exists>f n. hi_file J = Some f \<and> active_fs (hi_fs J) = Inr n"
  shows "has_file g'"
proof (cases "fs_impl g")
  case None
  have "fs_impl g' = None \<or> (\<exists>I x J. body I = Inr (x, True, J) \<and> fs_impl g' = Some J)"
    using assms(1) None fs_impl_reset_Returns [of E h u g' for h u]
    by (fastforce simp: with_instance_def Let_def split: sum.splits if_splits prod.splits)
  then show ?thesis using assms(3) by (fastforce simp: has_file_def h7_file_def)
next
  case (Some I)
  then show ?thesis using assms(1,2) by (auto simp: with_instance_def has_file_def h7_file_def)
qed

lemma on_file_has: "on_file op g = Inr (r, g') \<Longrightarrow> has_file g'"
  by (auto simp: on_file_def has_file_def res_simps split: option.splits)

lemma file_run_has: "file_run (h7_ops c) f g = Inr g' \<Longrightarrow> has_file g'"
  by (cases f) (auto simp: h7_ops_def Let_def res_simps intro: on_file_has)

lemma h7_run_file:
  assumes "h7_run E call g = Returns u g'" "has_file g"
  shows "has_file g'"
proof (cases call)
  case (Do_open name m)
  have "\<exists>f n. hi_file J = Some f \<and> active_fs (hi_fs J) = Inr n" if "h7_open_body E name m I = Inr (x, True, J)" for I x J
    using that two_open_active [of _ "hi_fs I" name]
    by (fastforce simp: h7_open_body_def Let_def res_simps split: if_splits)
  then show ?thesis using assms Do_open with_instance_file [of E True False "h7_open_body E name m" g _ g']
    by (auto simp: h7_open_def split: if_splits)
next
  case (Do_file f)
  then show ?thesis using assms(1) by (auto intro: file_run_has split: sum.splits)
next
  case Do_close
  then show ?thesis using assms h7_close_follows(2) [of E g u g'] by (simp add: has_file_def)
qed (use assms in \<open>auto simp: h7_list_files_def h7_get_stat_def h7_recreate_def Let_def res_simps elim!: with_instance_file\<close>)

lemma h7_runs_file: "h7_runs E calls g = Returns u g' \<Longrightarrow> has_file g \<Longrightarrow> has_file g'"
proof (induction calls arbitrary: g)
  case (Cons call calls)
  then show ?case using h7_run_file by fastforce
qed simp

text \<open>Closing destroys the file and then the instance; the file is all that can keep it from returning.\<close>

lemma close_returns:
  assumes "h7_file g = Some (s, f)" "FileHandle_destroy (ConfigH7 E) s f = Inr s'"
  shows "\<exists>g'. h7_close E g = Returns () g' \<and> lock_calls g' = lock_calls g @ [False] \<and> fs_impl g' = None"
proof (rule h7_file_SomeD [OF assms(1)])
  fix I n assume I: "fs_impl g = Some I" "hi_file I = Some f" "active_fs (hi_fs I) = Inr n" "nd_fs n = s"
  then have "reset_file E I = Inr \<lparr>hi_fs = put_active (hi_fs I) s', hi_file = None\<rparr>"
    using assms(2) by (simp add: reset_file_def)
  then show ?thesis using I by (simp add: h7_close_def fs_impl_reset_def Let_def reset_file_def)
qed

lemma close_ends:
  assumes "h7_file g = Some (s, f)" "FileHandle_destroy (ConfigH7 E) s f = Inl e"
  shows "h7_close E g = Throws e (lock_calls g)"
proof (rule h7_file_SomeD [OF assms(1)])
  fix I n assume I: "fs_impl g = Some I" "hi_file I = Some f" "active_fs (hi_fs I) = Inr n" "nd_fs n = s"
  then have "reset_file E I = Inl e" using assms(2) by (simp add: reset_file_def)
  then show ?thesis using I by (simp add: h7_close_def)
qed

lemma destroy_flushed: "flush c s f = Inr (b, f', s') \<Longrightarrow> \<exists>t. FileHandle_destroy c s f = Inr t"
  by (simp add: FileHandle_destroy_def)

section \<open>The properties\<close>

text \<open>
  C22. Whatever the application calls, as long as the calls return: the callback has been told to
  lock once more than to unlock exactly while there is an instance, never less and at most twice
  more (a call that is refused). While there is an instance it has an open file. Closing that file
  returns whenever its flush returns, successful or not, and when nothing of it is unwritten it
  always does; then the lock is given back, the instance is gone and the next call is not refused.
  It can only fail to return by an exception of the flush, which ends the program
  (\<open>Terminated\<close>, the destructor is \<open>noexcept\<close>), or by undefined behaviour in the flush.
\<close>

theorem h7_lock_is_given_back:
  assumes "h7_runs E calls g = Returns u g'" "balance (lock_calls g) = held g" "well_locked 0 (lock_calls g)" "has_file g"
  shows "balance (lock_calls g') = held g' \<and> well_locked 0 (lock_calls g')
    \<and> (fs_impl g' \<noteq> None \<longrightarrow> (\<exists>s f. h7_file g' = Some (s, f)
        \<and> ((\<not> modified f \<or> (\<exists>r. flush (ConfigH7 E) s f = Inr r)) \<longrightarrow>
          (\<exists>g''. h7_close E g' = Returns () g'' \<and> fs_impl g'' = None \<and> balance (lock_calls g'') = 0))
        \<and> (\<forall>x. flush (ConfigH7 E) s f = Inl x \<longrightarrow> connected f \<longrightarrow>
          h7_close E g' = Throws (if is_exception x then Terminated else x) (lock_calls g'))))"
proof -
  have b: "balance (lock_calls g') = held g'" "well_locked 0 (lock_calls g')"
    using h7_runs_follows [OF assms(1), of 0] assms(2,3) by (simp_all add: follows_def)
  have "\<exists>s f. h7_file g' = Some (s, f)
      \<and> ((\<not> modified f \<or> (\<exists>r. flush (ConfigH7 E) s f = Inr r)) \<longrightarrow>
        (\<exists>g''. h7_close E g' = Returns () g'' \<and> fs_impl g'' = None \<and> balance (lock_calls g'') = 0))
      \<and> (\<forall>x. flush (ConfigH7 E) s f = Inl x \<longrightarrow> connected f \<longrightarrow>
        h7_close E g' = Throws (if is_exception x then Terminated else x) (lock_calls g'))" if "fs_impl g' \<noteq> None"
  proof -
    obtain s f where f: "h7_file g' = Some (s, f)" using h7_runs_file [OF assms(1,4)] \<open>fs_impl g' \<noteq> None\<close> by (auto simp: has_file_def)
    have "\<exists>g''. h7_close E g' = Returns () g'' \<and> fs_impl g'' = None \<and> balance (lock_calls g'') = 0"
      if r: "\<not> modified f \<or> (\<exists>r. flush (ConfigH7 E) s f = Inr r)"
    proof -
      obtain t where "FileHandle_destroy (ConfigH7 E) s f = Inr t"
        using r destroy_unmodified [of f "ConfigH7 E" s] destroy_flushed by fastforce
      from close_returns [OF f this] obtain g'' where
        "h7_close E g' = Returns () g''" "lock_calls g'' = lock_calls g' @ [False]" "fs_impl g'' = None" by blast
      then show ?thesis using b(1) \<open>fs_impl g' \<noteq> None\<close> by (intro exI [of _ g'']) (auto simp: held_def)
    qed
    moreover have "h7_close E g' = Throws (if is_exception x then Terminated else x) (lock_calls g')"
      if "flush (ConfigH7 E) s f = Inl x" "connected f" for x
      using that by (intro close_ends [OF f]) (simp add: FileHandle_destroy_def noexceptE_def)
    ultimately show ?thesis using f by blast
  qed
  then show ?thesis using b by blast
qed

definition h7_sample_env :: "stm32_flash h7_env" where
  "h7_sample_env = \<lparr>he_flash = stm32_ops, he_native = LE, he_crc32_func = (\<lambda>_. 7), he_rnd = id\<rparr>"

definition h7_sample_instance :: "stm32_flash h7_impl" where
  "h7_sample_instance =
     (let m = STM32_open (SimFlash_open []) 64 True;
          p = \<lparr>cp_fs = Some \<lparr>nd_fs = SimpleFlashFsBase m, nd_stat = empty_stat\<rparr>, cp_mem = m\<rparr>
      in \<lparr>hi_fs = \<lparr>comp1 = p, comp2 = p\<lparr>cp_fs := None\<rparr>, two_active = Some Fs1\<rparr>, hi_file = Some new_handle\<rparr>)"

definition h7_sample_mode :: h7_mode where
  "h7_sample_mode = \<lparr>mode_out = True, mode_app = False, mode_ate = False, mode_trunc = False, mode_in_flag = False,
     mode_binary = False\<rparr>"

text \<open>With a file open, another \<open>open\<close> is refused, as is a listing; then the file is closed.\<close>

theorem h7_lock_is_given_back_witness:
  "\<exists>g'. h7_runs h7_sample_env [Do_open [97] h7_sample_mode, Do_list, Do_file (Do_seek 0)]
        \<lparr>fs_mem1 = None, fs_mem2 = None, fs_impl = Some h7_sample_instance, lock_calls = [True]\<rparr> = Returns () g'
    \<and> lock_calls g' = [True, True, False, True, False]
    \<and> (\<exists>g''. h7_close h7_sample_env g' = Returns () g'' \<and> balance (lock_calls g'') = 0)"
proof -
  let ?g = "\<lparr>fs_mem1 = None, fs_mem2 = None, fs_impl = Some h7_sample_instance, lock_calls = [True]\<rparr>"
  let ?xs = "[Do_open [97] h7_sample_mode, Do_list, Do_file (Do_seek 0)]"
  have f: "h7_file ?g = Some (nd_fs (the (cp_fs (comp1 (hi_fs h7_sample_instance)))), new_handle)"
    by (simp add: h7_file_def h7_sample_instance_def Let_def active_fs_def the_component_def component_fs_def)
  have res: "[97] \<notin> set RESERVED_NAMES"
    by (simp add: RESERVED_NAMES_def COPY_COMPLETED_FILE_NAME_def FILESYSTEM_SEALED_FILE_NAME_def bytes_of_def)
  let ?h = "?g\<lparr>lock_calls := [True, True, False, True, False]\<rparr>"
  have h: "h7_file (g\<lparr>lock_calls := l\<rparr>) = h7_file g" for g :: "'a h7" and l by (simp add: h7_file_def)
  have sk: "fi_seek (handle_ops c) (s, new_handle) 0 = Inr (True, s, new_handle)" for c :: "stm32_flash config" and s
    by (simp add: handle_ops_def handle_res_def FileHandle_seek_def new_handle_def empty_handle_def default_inode_def)
  have "h7_run h7_sample_env (Do_file (Do_seek 0)) ?h = Returns () (put_h7_file ?h (the (h7_file ?h)))"
    by (simp add: h7_ops_def Let_def on_file_def f [unfolded h [of "[True, True, False, True, False]" ?g, symmetric], simplified] sk)
  moreover have "h7_run h7_sample_env (Do_open [97] h7_sample_mode) ?g = Returns () (?g\<lparr>lock_calls := [True, True, False]\<rparr>)"
    using res by (simp add: h7_open_def with_instance_def lock_unlock_instance_cb_def) (rule exI [of _ False], simp)
  moreover have "h7_run h7_sample_env Do_list (?g\<lparr>lock_calls := [True, True, False]\<rparr>) = Returns () ?h"
    by (simp add: h7_list_files_def with_instance_def lock_unlock_instance_cb_def)
  ultimately obtain g' where g': "h7_runs h7_sample_env ?xs ?g = Returns () g'" "lock_calls g' = [True, True, False, True, False]"
    "h7_file g' = h7_file ?g" "fs_impl g' \<noteq> None"
    using f h [of "[True, True, False, True, False]" ?g]
    by (simp del: h7_run.simps) (simp add: put_h7_file_def)
  have "balance (lock_calls ?g) = held ?g" "well_locked 0 (lock_calls ?g)" "has_file ?g"
    using f well_locked_snoc [of 0 "[]" True] by (simp_all add: balance_def held_def has_file_def well_locked_def)
  from h7_lock_is_given_back [OF g'(1) this] g'(4) obtain s k where
    k: "h7_file g' = Some (s, k)" "\<not> modified k \<longrightarrow> (\<exists>g''. h7_close h7_sample_env g' = Returns () g'' \<and> balance (lock_calls g'') = 0)"
    by auto
  have "k = new_handle" using f g'(3) k(1) by simp
  then have "\<not> modified k" by (simp add: new_handle_def empty_handle_def)
  with k(2) g'(1,2) show ?thesis by blast
qed

text \<open>
  C38. When the file system cannot be mounted (or no memory interface has been set), \<open>open\<close>,
  \<open>list_files\<close> and \<open>get_stat\<close> throw after they have locked, and do not unlock: there is no instance
  whose destructor would. From then on the callback stays locked, whatever is called.
\<close>

theorem h7_failed_mount_keeps_lock:
  assumes "fs_impl g = None" "H7TwoFaceImpl E True g = Inl e" "name \<notin> set RESERVED_NAMES" "balance (lock_calls g) = 0"
  shows "h7_open E g name m = Throws e (lock_calls g @ [True])
    \<and> h7_list_files E g = Throws e (lock_calls g @ [True]) \<and> h7_get_stat E g = Throws e (lock_calls g @ [True])
    \<and> (\<forall>calls g1 u g2. lock_calls g1 = lock_calls g @ [True] \<and> fs_impl g1 = None \<and> h7_runs E calls g1 = Returns u g2
        \<longrightarrow> 1 \<le> balance (lock_calls g2))"
proof -
  have "1 \<le> balance (lock_calls g2)"
    if "lock_calls g1 = lock_calls g @ [True]" "fs_impl g1 = None" "h7_runs E calls g1 = Returns u g2" for calls g1 u g2
    using h7_runs_follows [OF that(3), of 0] that(1,2) assms(4) by (simp add: follows_def held_def split: if_splits)
  then show ?thesis using assms
    by (auto simp: h7_open_def h7_list_files_def h7_get_stat_def with_instance_def)
qed

theorem h7_failed_mount_keeps_lock_witness:
  "h7_get_stat h7_sample_env \<lparr>fs_mem1 = None, fs_mem2 = None, fs_impl = None, lock_calls = []\<rparr> = Throws Bad_access [True]"
proof -
  have "[97] \<notin> set RESERVED_NAMES"
    by (simp add: RESERVED_NAMES_def COPY_COMPLETED_FILE_NAME_def FILESYSTEM_SEALED_FILE_NAME_def bytes_of_def)
  then show ?thesis
    using h7_failed_mount_keeps_lock [of "\<lparr>fs_mem1 = None, fs_mem2 = None, fs_impl = None, lock_calls = []\<rparr>" h7_sample_env
        Bad_access "[97]"] by (simp add: H7TwoFaceImpl_def)
qed

end
