(* ===== verification/Wrapper.thy ===== *)
theory Wrapper
  imports Dynamic HandleFile "HOL-Library.Sublist"
begin

text \<open>
  Files in the manner of C (\<open>src/dynamic/SimpleFlashFsDynamicWrapper\<close>): \<open>fopen\<close>, \<open>fclose\<close> and the rest
  over the file systems that are registered by a name
  (\<open>src/dynamic/SimpleFlashFsDynamicInstanceHandler\<close>).
\<close>

section \<open>The registry\<close>

text \<open>
  The file systems are objects of the application; a pointer to one is a number, \<open>ws_fs\<close> the objects
  behind the pointers. They live as long as the application keeps them.
\<close>

type_synonym instances = "byte list \<rightharpoonup> nat"

definition register_instance :: "instances \<Rightarrow> byte list \<Rightarrow> nat \<Rightarrow> instances" where
  "register_instance insts name p = insts(name \<mapsto> p)"

definition deregister_instance :: "instances \<Rightarrow> byte list \<Rightarrow> instances" where
  "deregister_instance insts name = insts(name := None)"

definition get_instance :: "instances \<Rightarrow> byte list \<Rightarrow> nat option" where
  "get_instance insts name = insts name"

section \<open>State\<close>

text \<open>An open file: the file system its handle belongs to, and the handle.\<close>

record wrapper_file =
  wf_fs :: nat
  wf_handle :: file_handle

record 'm wrapper =
  ws_fs :: "nat \<rightharpoonup> 'm fs"
  ws_instances :: instances
  default_instance_name :: "byte list"
  file_handles :: "nat \<rightharpoonup> wrapper_file"
  ws_next :: nat

definition register_default_instance_name :: "'m wrapper \<Rightarrow> byte list \<Rightarrow> 'm wrapper" where
  "register_default_instance_name w name = w\<lparr>default_instance_name := name\<rparr>"

text \<open>
  A file is destroyed with its handle. \<open>file_handles.clear()\<close> destroys all of them, in an order that
  depends on their addresses and on the container: it is a parameter, a function that returns a
  permutation of the files.
\<close>

definition destroy_file :: "'m config \<Rightarrow> 'm wrapper \<Rightarrow> nat \<Rightarrow> 'm wrapper res" where
  "destroy_file c w p =
     (case file_handles w p of
        None \<Rightarrow> Inr w
      | Some fl \<Rightarrow>
          case ws_fs w (wf_fs fl) of
            None \<Rightarrow> Inl Undefined
          | Some s \<Rightarrow>
              bindE (FileHandle_destroy c s (wf_handle fl)) (\<lambda>s.
              Inr (w\<lparr>ws_fs := (ws_fs w)(wf_fs fl \<mapsto> s), file_handles := (file_handles w)(p := None)\<rparr>)))"

fun destroy_files :: "'m config \<Rightarrow> 'm wrapper \<Rightarrow> nat list \<Rightarrow> 'm wrapper res" where
  "destroy_files c w [] = Inr w"
| "destroy_files c w (p # ps) = bindE (destroy_file c w p) (\<lambda>w. destroy_files c w ps)"

definition unregister_default_instance_name ::
    "'m config \<Rightarrow> (nat list \<Rightarrow> nat list) \<Rightarrow> 'm wrapper \<Rightarrow> 'm wrapper res" where
  "unregister_default_instance_name c arrange w =
     destroy_files c (w\<lparr>default_instance_name := []\<rparr>) (arrange (filter (\<lambda>p. file_handles w p \<noteq> None) [0..<ws_next w]))"

section \<open>Opening and closing\<close>

text \<open>
  The mode is looked for in the string: \<open>r+\<close>, \<open>w+\<close>, \<open>a+\<close>, then \<open>r\<close>, \<open>w\<close>, \<open>a\<close>. The second mode is the one
  to open the file with again.
\<close>

definition ios_mode :: "bool \<Rightarrow> bool \<Rightarrow> bool \<Rightarrow> open_mode" where
  "ios_mode ot ap tr = \<lparr>mode_out = ot, mode_app = ap, mode_ate = False, mode_trunc = tr\<rparr>"

definition fopen_modes :: "byte list \<Rightarrow> open_mode \<times> open_mode option" where
  "fopen_modes smode =
     (let find = (\<lambda>x. sublist (bytes_of x) smode)
      in if find ''r+'' then (ios_mode False False False, Some (ios_mode True False False))
         else if find ''w+'' then (ios_mode True False True, None)
         else if find ''a+'' then (ios_mode True True False, None)
         else if find ''r'' then (ios_mode False False False, None)
         else if find ''w'' then (ios_mode True False True, None)
         else if find ''a'' then (ios_mode True True False, None)
         else (ios_mode False False False, None))"

text \<open>
  The move assignment of the second handle overwrites the first one, which is not flushed. The
  result is the pointer, or a null pointer.
\<close>

definition wrapper_fopen :: "'m config \<Rightarrow> 'm wrapper \<Rightarrow> byte list \<Rightarrow> byte list \<Rightarrow> (nat option \<times> 'm wrapper) res" where
  "wrapper_fopen c w path cmode =
     (case get_instance (ws_instances w) (default_instance_name w) of
        None \<Rightarrow> Inr (None, w)
      | Some i \<Rightarrow>
          case ws_fs w i of
            None \<Rightarrow> Inl Undefined
          | Some s \<Rightarrow>
              let (mode, mode2) = fopen_modes cmode
              in bindE (open_file c s path mode) (\<lambda>(f, s).
                 if \<not> connected f then Inr (None, w\<lparr>ws_fs := (ws_fs w)(i \<mapsto> s)\<rparr>)
                 else bindE (case mode2 of None \<Rightarrow> Inr (f, s) | Some m \<Rightarrow> open_file c s path m) (\<lambda>(f, s).
                      let w = w\<lparr>ws_fs := (ws_fs w)(i \<mapsto> s)\<rparr>
                      in if \<not> connected f then Inr (None, w)
                         else Inr (Some (ws_next w), w\<lparr>file_handles := (file_handles w)(ws_next w \<mapsto> \<lparr>wf_fs = i, wf_handle = f\<rparr>),
                                ws_next := Suc (ws_next w)\<rparr>))))"

text \<open>An operation on the handle behind a pointer; a pointer that is not one of these is undefined.\<close>

definition wrapper_run :: "('m fs \<times> file_handle \<Rightarrow> ('a \<times> 'm fs \<times> file_handle) res) \<Rightarrow> 'm wrapper \<Rightarrow> nat \<Rightarrow>
    ('a \<times> 'm wrapper) res" where
  "wrapper_run op w p =
     (case file_handles w p of
        None \<Rightarrow> Inl Undefined
      | Some fl \<Rightarrow>
          case ws_fs w (wf_fs fl) of
            None \<Rightarrow> Inl Undefined
          | Some s \<Rightarrow>
              bindE (op (s, wf_handle fl)) (\<lambda>(r, s, f).
              Inr (r, w\<lparr>ws_fs := (ws_fs w)(wf_fs fl \<mapsto> s), file_handles := (file_handles w)(p \<mapsto> fl\<lparr>wf_handle := f\<rparr>)\<rparr>)))"

definition DYNAMIC_EOF :: int where "DYNAMIC_EOF = - 1"

definition file_fflush :: "'s file_ops \<Rightarrow> 's \<Rightarrow> (int \<times> 's) res" where
  "file_fflush F s = bindE (fi_flush F s) (\<lambda>(done, s). Inr (if \<not> done then DYNAMIC_EOF else 0, s))"

definition wrapper_fflush :: "'m config \<Rightarrow> 'm wrapper \<Rightarrow> nat \<Rightarrow> (int \<times> 'm wrapper) res" where
  "wrapper_fflush c = wrapper_run (file_fflush (handle_ops c))"

text \<open>A file that cannot be flushed stays open.\<close>

definition wrapper_fclose :: "'m config \<Rightarrow> 'm wrapper \<Rightarrow> nat \<Rightarrow> (int \<times> 'm wrapper) res" where
  "wrapper_fclose c w p =
     (if file_handles w p = None then Inr (DYNAMIC_EOF, w)
      else bindE (wrapper_fflush c w p) (\<lambda>(r, w).
           if r \<noteq> 0 then Inr (r, w) else bindE (destroy_file c w p) (\<lambda>w. Inr (0, w))))"

section \<open>Reading and writing\<close>

text \<open>
  These use the handle only, so they are functions over \<open>FileInterface\<close>. A \<open>ptr\<close> is the memory there,
  the result of \<open>fread\<close> also the bytes that were put there. The sizes are divided by \<open>size\<close>, which is
  undefined when it is zero.
\<close>

definition file_fwrite :: "'s file_ops \<Rightarrow> byte list \<Rightarrow> nat \<Rightarrow> nat \<Rightarrow> 's \<Rightarrow> (nat \<times> 's) res" where
  "file_fwrite F ptr sz nmemb s =
     bindE (requireE Undefined (mul64 sz nmemb \<le> length ptr)) (\<lambda>_.
     bindE (fi_write F s (take (mul64 sz nmemb) ptr)) (\<lambda>(ret, s).
     bindE (requireE Undefined (0 < sz)) (\<lambda>_. Inr (ret div sz, s))))"

definition file_fread :: "'s file_ops \<Rightarrow> nat \<Rightarrow> nat \<Rightarrow> nat \<Rightarrow> 's \<Rightarrow> ((byte list \<times> nat) \<times> 's) res" where
  "file_fread F capacity sz nmemb s =
     bindE (fi_read F s (mul64 sz nmemb)) (\<lambda>(d, s).
     bindE (requireE Undefined (length d \<le> capacity)) (\<lambda>_.
     bindE (requireE Undefined (0 < sz)) (\<lambda>_. Inr ((d, length d div sz), s))))"

definition file_feof :: "'s file_ops \<Rightarrow> 's \<Rightarrow> (int \<times> 's) res" where
  "file_feof F s = Inr (if fi_eof F s then DYNAMIC_EOF else 0, s)"

definition file_fgetc :: "'s file_ops \<Rightarrow> 's \<Rightarrow> (int \<times> 's) res" where
  "file_fgetc F s =
     bindE (fi_read F s 1) (\<lambda>(d, s). Inr (case d of [b] \<Rightarrow> int (unat b) | _ \<Rightarrow> DYNAMIC_EOF, s))"

text \<open>
  \<open>fgets\<close> into a buffer \<open>buf\<close>; \<open>None\<close> is the null pointer, otherwise the result is the buffer. The loop
  looks for the first line feed among what was read.
\<close>

definition line_feed_at :: "byte list \<Rightarrow> nat option" where
  "line_feed_at d = (let i = length (takeWhile (\<lambda>b. b \<noteq> 10) d) in if i < length d then Some i else None)"

definition file_fgets :: "'s file_ops \<Rightarrow> byte list \<Rightarrow> int \<Rightarrow> 's \<Rightarrow> (byte list option \<times> 's) res" where
  "file_fgets F buf sz s =
     (if sz \<le> 0 then Inr (None, s)
      else bindE (requireE Undefined (nat sz \<le> length buf)) (\<lambda>_.
        if sz = 1 then Inr (Some (buf[0 := 0]), s)
        else
          let max_chars = nat (sz - 1); current_pos = fi_tellg F s
          in bindE (fi_read F s max_chars) (\<lambda>(d, s).
             if d = [] then Inr (None, s)
             else
               let buf = overlay buf 0 d
               in case line_feed_at d of
                    Some i \<Rightarrow>
                      bindE (fi_seek F s (add64 (add64 current_pos i) 1)) (\<lambda>(_, s). Inr (Some (buf[i + 1 := 0]), s))
                  | None \<Rightarrow> Inr (Some (buf[length d := 0]), s))))"

definition file_fputc :: "'s file_ops \<Rightarrow> int \<Rightarrow> 's \<Rightarrow> (int \<times> 's) res" where
  "file_fputc F ch s =
     bindE (fi_write F s [word_of_int ch]) (\<lambda>(n, s). Inr (if n = 1 then ch else DYNAMIC_EOF, s))"

text \<open>The string ends at its first zero byte; \<open>strlen\<close> of one without is undefined.\<close>

definition file_fputs :: "'s file_ops \<Rightarrow> byte list \<Rightarrow> 's \<Rightarrow> (int \<times> 's) res" where
  "file_fputs F str s =
     bindE (requireE Undefined (0 \<in> set str)) (\<lambda>_.
     let d = takeWhile (\<lambda>b. b \<noteq> 0) str
     in if d = [] then Inr (0, s)
        else bindE (fi_write F s d) (\<lambda>(n, s). Inr (if n > 0 then sint (word_of_nat n :: 32 word) else DYNAMIC_EOF, s)))"

definition wrapper_fwrite :: "'m config \<Rightarrow> byte list \<Rightarrow> nat \<Rightarrow> nat \<Rightarrow> 'm wrapper \<Rightarrow> nat \<Rightarrow> (nat \<times> 'm wrapper) res" where
  "wrapper_fwrite c ptr sz nmemb = wrapper_run (file_fwrite (handle_ops c) ptr sz nmemb)"

definition wrapper_fread :: "'m config \<Rightarrow> nat \<Rightarrow> nat \<Rightarrow> nat \<Rightarrow> 'm wrapper \<Rightarrow> nat \<Rightarrow> ((byte list \<times> nat) \<times> 'm wrapper) res" where
  "wrapper_fread c capacity sz nmemb = wrapper_run (file_fread (handle_ops c) capacity sz nmemb)"

definition wrapper_feof :: "'m config \<Rightarrow> 'm wrapper \<Rightarrow> nat \<Rightarrow> (int \<times> 'm wrapper) res" where
  "wrapper_feof c = wrapper_run (file_feof (handle_ops c))"

definition wrapper_fgetc :: "'m config \<Rightarrow> 'm wrapper \<Rightarrow> nat \<Rightarrow> (int \<times> 'm wrapper) res" where
  "wrapper_fgetc c = wrapper_run (file_fgetc (handle_ops c))"

definition wrapper_fgets :: "'m config \<Rightarrow> byte list \<Rightarrow> int \<Rightarrow> 'm wrapper \<Rightarrow> nat \<Rightarrow> (byte list option \<times> 'm wrapper) res" where
  "wrapper_fgets c buf sz = wrapper_run (file_fgets (handle_ops c) buf sz)"

definition wrapper_fputc :: "'m config \<Rightarrow> int \<Rightarrow> 'm wrapper \<Rightarrow> nat \<Rightarrow> (int \<times> 'm wrapper) res" where
  "wrapper_fputc c ch = wrapper_run (file_fputc (handle_ops c) ch)"

definition wrapper_fputs :: "'m config \<Rightarrow> byte list \<Rightarrow> 'm wrapper \<Rightarrow> nat \<Rightarrow> (int \<times> 'm wrapper) res" where
  "wrapper_fputs c str = wrapper_run (file_fputs (handle_ops c) str)"

end
