(* ===== verification/WrapperProps.thy ===== *)
theory WrapperProps
  imports Wrapper OpenSpec
begin

text \<open>
  What the functions in the manner of C do: \<open>fgets\<close> takes a file apart into its lines, and opening a
  file with \<open>w\<close> does not empty it until something is written.
\<close>

section \<open>Lines\<close>

text \<open>The first line of \<open>d\<close>, with its line feed, but at most \<open>n\<close> bytes; and all of them.\<close>

definition first_text_line :: "nat \<Rightarrow> byte list \<Rightarrow> byte list" where
  "first_text_line n d = (case line_feed_at (take n d) of None \<Rightarrow> take n d | Some i \<Rightarrow> take (Suc i) d)"

lemma line_feed_at_SomeD:
  assumes "line_feed_at d = Some i"
  shows "i < length d" "d ! i = 10" "take i d = takeWhile (\<lambda>b. b \<noteq> 10) d"
proof -
  let ?t = "takeWhile (\<lambda>b. b \<noteq> 10) d"
  have i: "i = length ?t" "length ?t < length d" using assms by (simp_all add: line_feed_at_def Let_def split: if_splits)
  then show "i < length d" by simp
  show "d ! i = 10" using nth_length_takeWhile [OF i(2)] i(1) by simp
  show "take i d = ?t" using takeWhile_eq_take [of "\<lambda>b. b \<noteq> 10" d] i(1) by simp
qed

lemma line_feed_at_NoneD: "line_feed_at d = None \<Longrightarrow> 10 \<notin> set d"
proof -
  let ?t = "takeWhile (\<lambda>b. b \<noteq> 10) d"
  assume "line_feed_at d = None"
  then have "length d \<le> length ?t" by (simp add: line_feed_at_def Let_def split: if_splits)
  then have "?t = d" using takeWhile_eq_take [of "\<lambda>b. b \<noteq> 10" d] take_all [of d "length ?t"] by simp
  then have "\<forall>x \<in> set d. x \<noteq> 10" unfolding takeWhile_eq_all_conv .
  then show ?thesis by blast
qed

lemma first_text_line:
  shows "length (first_text_line n d) \<le> n" "take (length (first_text_line n d)) d = first_text_line n d"
    "0 < n \<Longrightarrow> d \<noteq> [] \<Longrightarrow> first_text_line n d \<noteq> []" "10 \<notin> set (butlast (first_text_line n d))"
proof -
  have "length (first_text_line n d) \<le> n \<and> take (length (first_text_line n d)) d = first_text_line n d
      \<and> (0 < n \<longrightarrow> d \<noteq> [] \<longrightarrow> first_text_line n d \<noteq> []) \<and> 10 \<notin> set (butlast (first_text_line n d))"
  proof (cases "line_feed_at (take n d)")
    case None
    have "10 \<notin> set (take n d)" by (rule line_feed_at_NoneD [OF None])
    then show ?thesis using None by (auto simp: first_text_line_def min_def dest: in_set_butlastD)
  next
    case (Some i)
    note s = line_feed_at_SomeD [OF Some]
    have i: "i < n" "i < length d" using s(1) by simp_all
    have "butlast (take (Suc i) d) = take i d" using i by (simp add: butlast_take)
    moreover have "10 \<notin> set (take i d)"
    proof -
      have "take i d = takeWhile (\<lambda>b. b \<noteq> 10) (take n d)" using s(3) i by (simp add: min_def)
      then show ?thesis by (auto dest: set_takeWhileD)
    qed
    ultimately show ?thesis using Some i by (simp add: first_text_line_def min_def)
  qed
  then show "length (first_text_line n d) \<le> n" "take (length (first_text_line n d)) d = first_text_line n d"
    "0 < n \<Longrightarrow> d \<noteq> [] \<Longrightarrow> first_text_line n d \<noteq> []" "10 \<notin> set (butlast (first_text_line n d))" by simp_all
qed

function lines_of :: "nat \<Rightarrow> byte list \<Rightarrow> byte list list" where
  "lines_of n d = (if n = 0 \<or> d = [] then []
     else first_text_line n d # lines_of n (drop (length (first_text_line n d)) d))"
  by pat_completeness auto
termination
  by (relation "measure (length \<circ> snd)") (use first_text_line(3) in fastforce)+

declare lines_of.simps [simp del]

lemma lines_of_props:
  assumes "0 < n"
  shows "concat (lines_of n d) = d" "\<forall>l \<in> set (lines_of n d). l \<noteq> [] \<and> length l \<le> n \<and> 10 \<notin> set (butlast l)"
    "length (lines_of n d) \<le> length d"
proof -
  have "concat (lines_of n d) = d \<and> (\<forall>l \<in> set (lines_of n d). l \<noteq> [] \<and> length l \<le> n \<and> 10 \<notin> set (butlast l))
      \<and> length (lines_of n d) \<le> length d"
    using assms
  proof (induction n d rule: lines_of.induct)
    case (1 n d)
    show ?case
    proof (cases "n = 0 \<or> d = []")
      case True
      then show ?thesis using 1(2) by (simp add: lines_of.simps)
    next
      case False
      then have ne: "first_text_line n d \<noteq> []" using first_text_line(3) by simp
      from 1(1) [OF False 1(2)] have ih: "concat (lines_of n (drop (length (first_text_line n d)) d)) = drop (length (first_text_line n d)) d"
        "\<forall>l \<in> set (lines_of n (drop (length (first_text_line n d)) d)). l \<noteq> [] \<and> length l \<le> n \<and> 10 \<notin> set (butlast l)"
        "length (lines_of n (drop (length (first_text_line n d)) d)) \<le> length d - length (first_text_line n d)" by simp_all
      have e: "lines_of n d = first_text_line n d # lines_of n (drop (length (first_text_line n d)) d)"
        using False by (subst lines_of.simps) simp
      have "first_text_line n d @ drop (length (first_text_line n d)) d = d"
        using append_take_drop_id [of "length (first_text_line n d)" d] first_text_line(2) [of n d] by simp
      moreover have "0 < length (first_text_line n d)" "length (first_text_line n d) \<le> length d"
        using ne first_text_line(2) [of n d] by (simp, metis length_take min.cobounded1)
      moreover have "Suc (length d - length (first_text_line n d)) \<le> length d"
        using calculation(2,3) by linarith
      ultimately have "concat (lines_of n d) = d" "length (lines_of n d) \<le> length d" using ih(1,3) unfolding e by simp_all
      moreover have "\<forall>l \<in> set (lines_of n d). l \<noteq> [] \<and> length l \<le> n \<and> 10 \<notin> set (butlast l)"
        using ih(2) first_text_line(1,4) [of n d] ne unfolding e by simp
      ultimately show ?thesis by blast
    qed
  qed
  then show "concat (lines_of n d) = d" "\<forall>l \<in> set (lines_of n d). l \<noteq> [] \<and> length l \<le> n \<and> 10 \<notin> set (butlast l)"
    "length (lines_of n d) \<le> length d" by simp_all
qed

text \<open>Every piece but the last ends in a line feed or fills the buffer.\<close>

lemma first_text_line_full:
  assumes "drop (length (first_text_line n d)) d \<noteq> []" "0 < n"
  shows "last (first_text_line n d) = 10 \<or> length (first_text_line n d) = n"
proof (cases "line_feed_at (take n d)")
  case None
  then have l: "first_text_line n d = take n d" by (simp add: first_text_line_def)
  with assms(1) have "n \<le> length d" by (simp add: min_def split: if_splits)
  then show ?thesis using l by simp
next
  case (Some i)
  from line_feed_at_SomeD [OF this] have i: "i < length d" "i < n" "d ! i = 10" by auto
  then have "last (take (Suc i) d) = 10" by (simp add: take_Suc_conv_app_nth)
  then show ?thesis using Some by (simp add: first_text_line_def)
qed

lemma lines_of_full:
  assumes "0 < n"
  shows "\<forall>l \<in> set (butlast (lines_of n d)). last l = 10 \<or> length l = n"
  using assms
proof (induction n d rule: lines_of.induct)
  case (1 n d)
  let ?d = "drop (length (first_text_line n d)) d"
  show ?case
  proof (cases "d = []")
    case True
    then show ?thesis by (simp add: lines_of.simps)
  next
    case False
    with 1 have ih: "\<forall>l \<in> set (butlast (lines_of n ?d)). last l = 10 \<or> length l = n" by simp
    have e: "lines_of n d = first_text_line n d # lines_of n ?d"
      using False 1(2) by (subst lines_of.simps) simp
    show ?thesis
    proof (cases "?d = []")
      case True
      then show ?thesis by (simp add: e lines_of.simps)
    next
      case False
      with first_text_line_full [OF False 1(2)] ih show ?thesis by (simp add: e lines_of.simps [of n ?d])
    qed
  qed
qed

section \<open>fgets\<close>

context open_file_contract
begin

lemma fgets_step:
  assumes "good s" "2 \<le> sz" "nat sz \<le> length buf" "r = drop (fi_tellg F s) (cont s)" "l = first_text_line (nat (sz - 1)) r"
  shows "\<exists>b s'. file_fgets F buf sz s = Inr (if r = [] then None else Some b, s') \<and> good s' \<and> cont s' = cont s
    \<and> fi_tellg F s' = fi_tellg F s + length l \<and> length b = length buf \<and> take (Suc (length l)) b = l @ [0]"
proof -
  let ?n = "nat (sz - 1)" and ?p = "fi_tellg F s"
  have n: "0 < ?n" "Suc ?n = nat sz" using assms(2) by simp_all
  have p: "?p \<le> length (cont s)" "length (cont s) < 2 ^ 62" using tell_le size_bound assms(1) by simp_all
  from read_ok [OF assms(1), of ?n] obtain s1 where
    s1: "fi_read F s ?n = Inr (take ?n r, s1)" "good s1" "cont s1 = cont s"
      "fi_tellg F s1 = ?p + min ?n (length (cont s) - ?p)" by (auto simp: assms(4))
  have e: "file_fgets F buf sz s = (if r = [] then Inr (None, s1) else
      case line_feed_at (take ?n r) of
        Some i \<Rightarrow> bindE (fi_seek F s1 (add64 (add64 ?p i) 1)) (\<lambda>(_, s). Inr (Some ((overlay buf 0 (take ?n r))[i + 1 := 0]), s))
      | None \<Rightarrow> Inr (Some ((overlay buf 0 (take ?n r))[length (take ?n r) := 0]), s1))"
    using assms(2,3) n s1(1) by (simp add: file_fgets_def Let_def)
  have lr: "length r = length (cont s) - ?p" by (simp add: assms(4))
  show ?thesis
  proof (cases "r = []")
    case True
    then have "l = []" using first_text_line(2) [of ?n r] assms(5) by simp
    then show ?thesis using e True s1(2-4) lr assms(3) n(2)
      by (intro exI [of _ "buf[0 := 0]"] exI [of _ s1]) (cases buf; simp)
  next
    case False
    have ov: "take k (overlay buf 0 (take ?n r)) = take k (take ?n r)" if "k \<le> length (take ?n r)" for k
      using that assms(3) n(2) by (simp add: overlay_def min_def)
    have lo: "length (overlay buf 0 (take ?n r)) = length buf"
      using assms(3) n(2) by (simp add: overlay_def)
    have put: "take (Suc k) ((overlay buf 0 (take ?n r))[k := 0]) = take k r @ [0]" if "k \<le> length (take ?n r)" for k
    proof -
      have "k < length buf" using that assms(3) n(2) by simp
      then have "take (Suc k) ((overlay buf 0 (take ?n r))[k := 0]) = take k (overlay buf 0 (take ?n r)) @ [0]"
        using lo by (simp add: take_Suc_conv_app_nth)
      moreover have "take k (take ?n r) = take k r" using that by (simp add: min_absorb1)
      ultimately show ?thesis using ov [OF that] by simp
    qed
    show ?thesis
    proof (cases "line_feed_at (take ?n r)")
      case None
      then have "l = take ?n r" using assms(5) by (simp add: first_text_line_def)
      then show ?thesis using e None False s1(2-4) lr lo put [of "length (take ?n r)"]
        by (intro exI [of _ "(overlay buf 0 (take ?n r))[length (take ?n r) := 0]"] exI [of _ s1]) (simp add: min_def)
    next
      case (Some i)
      note i = line_feed_at_SomeD(1) [OF Some]
      have l: "l = take (Suc i) r" "length l = Suc i" using Some i assms(5) by (simp_all add: first_text_line_def)
      have q: "?p + i + 1 \<le> length (cont s1)" "add64 (add64 ?p i) 1 = ?p + i + 1"
      proof -
        have "i < length (cont s) - ?p" using i lr by simp
        then have b: "?p + i + 1 \<le> length (cont s)" by linarith
        then show "?p + i + 1 \<le> length (cont s1)" using s1(3) by simp
        show "add64 (add64 ?p i) 1 = ?p + i + 1" using b p(2) by (simp add: add64_small)
      qed
      from seek_ok [OF s1(2) q(1)] obtain s2 where
        "fi_seek F s1 (?p + i + 1) = Inr (True, s2)" "good s2" "cont s2 = cont s1" "fi_tellg F s2 = ?p + i + 1" by blast
      then show ?thesis using e Some False l lo s1(3) q(2) put [of "Suc i"] i
        by (intro exI [of _ "(overlay buf 0 (take ?n r))[Suc i := 0]"] exI [of _ s2]) simp
    qed
  qed
qed

end

text \<open>Calling it until it returns the null pointer; the string in the buffer ends at its first zero byte.\<close>

definition c_string :: "byte list \<Rightarrow> byte list" where
  "c_string b = takeWhile (\<lambda>x. x \<noteq> 0) b"

fun fgets_all :: "nat \<Rightarrow> (byte list \<Rightarrow> 's \<Rightarrow> (byte list option \<times> 's) res) \<Rightarrow> byte list \<Rightarrow> 's \<Rightarrow> (byte list list \<times> 's) res" where
  "fgets_all 0 g buf s = Inl No_return"
| "fgets_all (Suc k) g buf s =
     bindE (g buf s) (\<lambda>(r, s).
     case r of
       None \<Rightarrow> Inr ([], s)
     | Some buf \<Rightarrow> bindE (fgets_all k g buf s) (\<lambda>(ls, s). Inr (c_string buf # ls, s)))"

text \<open>The contract of \<open>fgets\<close>: it puts the first line of the rest of the file into the buffer.\<close>

locale line_reader =
  fixes fgets :: "int \<Rightarrow> byte list \<Rightarrow> 's \<Rightarrow> (byte list option \<times> 's) res"
    and good :: "'s \<Rightarrow> bool"
    and cont :: "'s \<Rightarrow> byte list"
    and tell :: "'s \<Rightarrow> nat"
  assumes fgets_line: "good s \<Longrightarrow> 2 \<le> sz \<Longrightarrow> nat sz \<le> length buf \<Longrightarrow> r = drop (tell s) (cont s) \<Longrightarrow>
      l = first_text_line (nat (sz - 1)) r \<Longrightarrow>
      \<exists>b s'. fgets sz buf s = Inr (if r = [] then None else Some b, s') \<and> good s' \<and> cont s' = cont s
        \<and> tell s' = tell s + length l \<and> length b = length buf \<and> take (Suc (length l)) b = l @ [0]"
begin

lemma all_lines:
  assumes "good s" "2 \<le> sz" "nat sz \<le> length buf" "0 \<notin> set (drop (tell s) (cont s))"
    "length (drop (tell s) (cont s)) < k"
  shows "\<exists>s'. fgets_all k (fgets sz) buf s = Inr (lines_of (nat (sz - 1)) (drop (tell s) (cont s)), s')
    \<and> good s' \<and> cont s' = cont s"
  using assms
proof (induction k arbitrary: s buf)
  case (Suc k)
  let ?r = "drop (tell s) (cont s)" and ?n = "nat (sz - 1)"
  let ?l = "first_text_line ?n ?r"
  from fgets_line [OF Suc.prems(1-3) refl refl] obtain b s1 where
    s1: "fgets sz buf s = Inr (if ?r = [] then None else Some b, s1)" "good s1" "cont s1 = cont s"
      "tell s1 = tell s + length ?l" "length b = length buf" "take (Suc (length ?l)) b = ?l @ [0]" by blast
  show ?case
  proof (cases "?r = []")
    case True
    then show ?thesis using s1 by (simp add: lines_of.simps)
  next
    case False
    have n: "0 < ?n" using assms(2) by simp
    have ne: "?l \<noteq> []" using first_text_line(3) [OF n False] .
    have dr: "drop (tell s1) (cont s1) = drop (length ?l) ?r" using s1(3,4) by (simp add: add.commute)
    have ih: "\<exists>s'. fgets_all k (fgets sz) b s1 = Inr (lines_of ?n (drop (tell s1) (cont s1)), s') \<and> good s' \<and> cont s' = cont s1"
    proof (rule Suc.IH [OF s1(2) assms(2)])
      show "nat sz \<le> length b" using Suc.prems(3) s1(5) by simp
      show "0 \<notin> set (drop (tell s1) (cont s1))" using Suc.prems(4) set_drop_subset [of "length ?l" ?r] unfolding dr by blast
      show "length (drop (tell s1) (cont s1)) < k"
        using Suc.prems(5) False ne unfolding dr by (cases ?l; cases ?r) auto
    qed
    have "0 \<notin> set ?l"
      using Suc.prems(4) first_text_line(2) [of ?n ?r] by (metis in_set_takeD)
    then have "c_string b = ?l"
    proof -
      have "b = (?l @ [0]) @ drop (Suc (length ?l)) b" using s1(6) append_take_drop_id [of "Suc (length ?l)" b] by simp
      then have "c_string b = takeWhile (\<lambda>x. x \<noteq> 0) (?l @ 0 # drop (Suc (length ?l)) b)" by (simp add: c_string_def)
      also have "\<dots> = ?l" using \<open>0 \<notin> set ?l\<close> by (subst takeWhile_append2) auto
      finally show ?thesis .
    qed
    moreover have "lines_of ?n ?r = ?l # lines_of ?n (drop (length ?l) ?r)"
      using False n by (subst lines_of.simps) simp
    ultimately show ?thesis using ih s1(1,3) False dr by auto
  qed
qed simp

end

text \<open>The files of the wrapper on the simulated internal flash.\<close>

definition wrapped :: "'m wrapper \<Rightarrow> nat \<Rightarrow> ('m fs \<times> file_handle) option" where
  "wrapped w p =
     (case file_handles w p of
        None \<Rightarrow> None
      | Some fl \<Rightarrow> map_option (\<lambda>s. (s, wf_handle fl)) (ws_fs w (wf_fs fl)))"

definition wrapped_good :: "nat \<Rightarrow> stm32_flash wrapper \<Rightarrow> bool" where
  "wrapped_good p w \<longleftrightarrow> (\<exists>x. wrapped w p = Some x \<and> handle_good stm32_ok st_mem stm32_writable x)"

definition wrapped_cont :: "nat \<Rightarrow> stm32_flash wrapper \<Rightarrow> byte list" where
  "wrapped_cont p w = handle_cont st_mem (the (wrapped w p))"

definition wrapped_tell :: "nat \<Rightarrow> 'm wrapper \<Rightarrow> nat" where
  "wrapped_tell p w = fh_pos (snd (the (wrapped w p)))"

lemma wrapper_run_ok:
  assumes "wrapped w p = Some x" "op x = Inr (r, y)"
  shows "\<exists>w'. wrapper_run op w p = Inr (r, w') \<and> wrapped w' p = Some y"
proof -
  obtain fl s where f: "file_handles w p = Some fl" "ws_fs w (wf_fs fl) = Some s" "x = (s, wf_handle fl)"
    using assms(1) by (auto simp: wrapped_def split: option.splits)
  obtain s' f' where y: "y = (s', f')" by (cases y)
  show ?thesis using assms(2) f y by (auto simp: wrapper_run_def wrapped_def)
qed

interpretation wl: line_reader "\<lambda>sz buf w. wrapper_fgets (stm32_config P crc e keep) buf sz w p"
  "wrapped_good p" "wrapped_cont p" "wrapped_tell p" for P crc e keep p
proof
  fix w :: "stm32_flash wrapper" and sz buf r l
  assume a: "wrapped_good p w" "2 \<le> sz" "nat sz \<le> length (buf :: byte list)" "r = drop (wrapped_tell p w) (wrapped_cont p w)"
    "l = first_text_line (nat (sz - 1)) r"
  let ?F = "handle_ops (stm32_config P crc e keep)"
  from a(1) obtain x where x: "wrapped w p = Some x" "handle_good stm32_ok st_mem stm32_writable x"
    by (auto simp: wrapped_good_def)
  have t: "fi_tellg ?F y = fh_pos (snd y)" for y by (cases y) (simp add: handle_ops_def FileHandle_tellg_def)
  have r: "r = drop (fi_tellg ?F x) (handle_cont st_mem x)" using a(4) x(1) t by (simp add: wrapped_tell_def wrapped_cont_def)
  from hf.fgets_step [OF x(2) a(2,3) r a(5)] obtain b y where
    y: "file_fgets ?F buf sz x = Inr (if r = [] then None else Some b, y)" "handle_good stm32_ok st_mem stm32_writable y"
      "handle_cont st_mem y = handle_cont st_mem x" "fi_tellg ?F y = fi_tellg ?F x + length l" "length b = length buf"
      "take (Suc (length l)) b = l @ [0]" by blast
  from wrapper_run_ok [of w p x "file_fgets ?F buf sz", OF x(1) y(1)] obtain w' where
    w': "wrapper_run (file_fgets ?F buf sz) w p = Inr (if r = [] then None else Some b, w')" "wrapped w' p = Some y" by blast
  show "\<exists>b w'. wrapper_fgets (stm32_config P crc e keep) buf sz w p = Inr (if r = [] then None else Some b, w')
      \<and> wrapped_good p w' \<and> wrapped_cont p w' = wrapped_cont p w \<and> wrapped_tell p w' = wrapped_tell p w + length l
      \<and> length b = length buf \<and> take (Suc (length l)) b = l @ [0]"
    using w' y x t by (intro exI [of _ b] exI [of _ w'])
      (simp add: wrapper_fgets_def wrapped_good_def wrapped_cont_def wrapped_tell_def)
qed

section \<open>The properties\<close>

text \<open>
  C25. Calling \<open>fgets\<close> until it returns the null pointer takes a text file apart: the strings are the
  lines of the rest of the file, each with its line feed. A line that is longer than the buffer
  allows comes in pieces that fill it: every string but the last ends in a line feed or is as long
  as a string can be, none has a line feed before its end, and together they are the rest of the
  file, so that they are the only way to cut it. It takes at most one call more than there are bytes.
\<close>

theorem fgets_reads_lines:
  assumes "wrapped_good p w" "2 \<le> sz" "nat sz \<le> length buf" "rest = drop (wrapped_tell p w) (wrapped_cont p w)" "0 \<notin> set rest"
  shows "\<exists>ls w'. fgets_all (Suc (length rest)) (\<lambda>buf w. wrapper_fgets (stm32_config P crc e keep) buf sz w p) buf w = Inr (ls, w')
    \<and> concat ls = rest \<and> (\<forall>l \<in> set ls. l \<noteq> [] \<and> length l < nat sz \<and> 10 \<notin> set (butlast l))
    \<and> (\<forall>l \<in> set (butlast ls). last l = 10 \<or> length l = nat sz - 1)
    \<and> length ls \<le> length rest \<and> wrapped_cont p w' = wrapped_cont p w"
proof -
  have n: "0 < nat (sz - 1)" using assms(2) by simp
  have z: "0 \<notin> set (drop (wrapped_tell p w) (wrapped_cont p w))"
    "length (drop (wrapped_tell p w) (wrapped_cont p w)) < Suc (length rest)"
    using assms(4,5) by simp_all
  from wl.all_lines [OF assms(1-3) z] obtain w' where
    "fgets_all (Suc (length rest)) (\<lambda>buf w. wrapper_fgets (stm32_config P crc e keep) buf sz w p) buf w
      = Inr (lines_of (nat (sz - 1)) rest, w')" "wrapped_cont p w' = wrapped_cont p w"
    unfolding assms(4) [symmetric] by blast
  moreover have "\<forall>l \<in> set (lines_of (nat (sz - 1)) rest). l \<noteq> [] \<and> length l < nat sz \<and> 10 \<notin> set (butlast l)"
    using lines_of_props(2) [OF n, of rest] assms(2) by fastforce
  moreover have "\<forall>l \<in> set (butlast (lines_of (nat (sz - 1)) rest)). last l = 10 \<or> length l = nat sz - 1"
  proof -
    have "nat (sz - 1) = nat sz - 1" using assms(2) by linarith
    then show ?thesis using lines_of_full [OF n, of rest] by simp
  qed
  ultimately show ?thesis using lines_of_props(1,3) [OF n, of rest] by blast
qed

lemma fopen_modes_w: "fopen_modes (bytes_of ''w'') = (ios_mode True False True, None)"
  by code_simp

text \<open>
  C37. \<open>fopen\<close> with \<open>w\<close> and \<open>fclose\<close> without a write in between do not empty a file: both succeed, and the
  file is found with its old contents.
\<close>

theorem fopen_w_keeps_file:
  assumes "c = stm32_config P crc e keep" "ws_instances w (default_instance_name w) = Some i" "ws_fs w i = Some s"
    "mounted stm32_ok st_mem s" "clean_inodes c st_mem s" "f = newest_named c st_mem s path" "connected f"
    "inode_page_free c (header s) (st_mem (mem s)) (elems (allocated_unwritten_pages s)) j"
  shows "\<exists>p w1 w2 s2 s3. wrapper_fopen c w path (bytes_of ''w'') = Inr (Some p, w1) \<and> wrapper_fclose c w1 p = Inr (0, w2)
    \<and> file_handles w2 p = None \<and> ws_fs w2 i = Some s2
    \<and> find_file c s2 path = Inr (f, s3) \<and> contents st_mem s3 f = contents st_mem s f"
proof -
  have m: "mode_trunc (ios_mode True False True)" by (simp add: ios_mode_def)
  from truncated_unwritten [OF assms(1,4-7) m assms(8)] obtain g s1 s2 s3 where
    g: "open_file c s path (ios_mode True False True) = Inr (g, s1)" "connected g" "\<not> modified g"
      "FileHandle_destroy c s1 g = Inr s2" "find_file c s2 path = Inr (f, s3)" "contents st_mem s3 f = contents st_mem s f"
    by blast
  let ?p = "ws_next w"
  let ?w1 = "w\<lparr>ws_fs := (ws_fs w)(i \<mapsto> s1), file_handles := (file_handles w)(?p \<mapsto> \<lparr>wf_fs = i, wf_handle = g\<rparr>), ws_next := Suc ?p\<rparr>"
  let ?w2 = "?w1\<lparr>ws_fs := (ws_fs w)(i \<mapsto> s2), file_handles := (file_handles w)(?p := None)\<rparr>"
  have o: "wrapper_fopen c w path (bytes_of ''w'') = Inr (Some ?p, ?w1)"
    using g(1,2) assms(2,3) by (simp add: wrapper_fopen_def get_instance_def fopen_modes_w)
  have "FileHandle_flush c s1 g = Inr (True, g, s1)" using g(2,3) by (simp add: FileHandle_flush_def flush_def)
  then have "wrapper_fflush c ?w1 ?p = Inr (0, ?w1)"
    by (simp add: wrapper_fflush_def wrapper_run_def file_fflush_def handle_ops_def handle_res_def)
  then have "wrapper_fclose c ?w1 ?p = Inr (0, ?w2)"
    using g(4) by (simp add: wrapper_fclose_def destroy_file_def)
  then show ?thesis using o g(5,6)
    by (intro exI [of _ ?p] exI [of _ ?w1] exI [of _ ?w2] exI [of _ s2] exI [of _ s3]) simp
qed

definition wrapper_with :: "'m fs \<Rightarrow> file_handle \<Rightarrow> 'm wrapper" where
  "wrapper_with s f = \<lparr>ws_fs = [0 \<mapsto> s], ws_instances = [[] \<mapsto> 0], default_instance_name = [],
     file_handles = [0 \<mapsto> \<lparr>wf_fs = 0, wf_handle = f\<rparr>], ws_next = 1\<rparr>"

theorem fopen_w_keeps_file_witness:
  "\<exists>p w1 w2. wrapper_fopen (stm32_config 0 (\<lambda>_. 7) LE False)
       (wrapper_with (one_file_fs (stm32_config 0 (\<lambda>_. 7) LE False)) new_handle) [97] (bytes_of ''w'') = Inr (Some p, w1)
     \<and> wrapper_fclose (stm32_config 0 (\<lambda>_. 7) LE False) w1 p = Inr (0, w2)"
proof -
  let ?c = "stm32_config 0 (\<lambda>_. 7) LE False"
  let ?s = "one_file_fs ?c"
  have c: "crc32 ?c = (\<lambda>_. 7)" by simp
  have w: "ws_instances (wrapper_with ?s new_handle) (default_instance_name (wrapper_with ?s new_handle)) = Some 0"
    "ws_fs (wrapper_with ?s new_handle) 0 = Some ?s" by (simp_all add: wrapper_with_def)
  have h: "header ?s = small_header" "elems (allocated_unwritten_pages ?s) = {}" by (simp_all add: one_file_fs_def)
  have fr: "inode_page_free ?c (header ?s) (st_mem (mem ?s)) (elems (allocated_unwritten_pages ?s)) 1"
    using one_file_ready(2) [OF refl] by (simp add: h)
  from fopen_w_keeps_file [OF refl w one_file_found(1) [OF refl] one_file(4) [OF c] refl one_file_found(2) [OF refl] fr]
  show ?thesis by blast
qed

theorem fgets_reads_lines_witness:
  "\<exists>ls w'. fgets_all 3 (\<lambda>buf w. wrapper_fgets (stm32_config 0 (\<lambda>_. 7) LE False) buf 8 w 0) (replicate 8 0)
      (wrapper_with (one_file_fs (stm32_config 0 (\<lambda>_. 7) LE False)) sample_file) = Inr (ls, w') \<and> concat ls = [10, 11]"
proof -
  let ?c = "stm32_config 0 (\<lambda>_. 7) LE False"
  let ?s = "one_file_fs ?c"
  have c: "crc32 ?c = (\<lambda>_. 7)" by simp
  have x: "wrapped (wrapper_with ?s sample_file) 0 = Some (?s, sample_file)" by (simp add: wrapped_def wrapper_with_def)
  have "handle_good stm32_ok st_mem stm32_writable (?s, sample_file)"
    using one_file_good [OF refl] by (simp add: handle_good_def)
  then have good: "wrapped_good 0 (wrapper_with ?s sample_file)" by (simp add: wrapped_good_def x)
  have rest: "[10, 11] = drop (wrapped_tell 0 (wrapper_with ?s sample_file)) (wrapped_cont 0 (wrapper_with ?s sample_file))"
    by (simp add: wrapped_tell_def wrapped_cont_def x handle_cont_def contents_def)
      (simp add: sample_file_def new_handle_def empty_handle_def default_inode_def)
  have three: "Suc (length [10, 11 :: byte]) = 3" by simp
  have "(2 :: int) \<le> 8" "nat 8 \<le> length (replicate 8 (0 :: byte))" "0 \<notin> set [10, 11 :: byte]" by simp_all
  from fgets_reads_lines [OF good this(1,2) rest this(3)] show ?thesis unfolding three by blast
qed

end
