(* ===== verification/InodeTypes.thy ===== *)
theory InodeTypes
  imports InodeCodec
begin

text \<open>
  Inodes read from a flash are well typed, whatever bytes the page holds: every field fits its width,
  so the wrapping arithmetic on them starts from numbers in range.
\<close>

lemma get_field_bound:
  assumes "get_field c e page pos sz = Inr v"
  shows "v < 256 ^ sz"
proof -
  from assms have "v = get_scalar (native c) e (slice pos sz page)" "pos + sz \<le> length page"
    by (auto simp: get_field_def memcpy_from_def res_simps split: if_splits)
  then show ?thesis using get_scalar_bound [of "native c" e "slice pos sz page"] by simp
qed

lemma get_fields_bound:
  "get_fields c e page pos szs = Inr vs \<Longrightarrow> length vs = length szs \<and> (\<forall>i < length szs. vs ! i < 256 ^ (szs ! i))"
proof (induction szs arbitrary: pos vs)
  case (Cons sz szs)
  then obtain v ws where v: "get_field c e page pos sz = Inr v" "get_fields c e page (pos + sz) szs = Inr ws" "vs = v # ws"
    by (auto simp: res_simps)
  show ?case using Cons.IH [OF v(2)] get_field_bound [OF v(1)] by (auto simp: v(3) nth_Cons split: nat.split)
qed simp

lemma correct_file_len_bound: "correct_file_len h b n < 2 ^ 64"
proof -
  have "sub32 a b < 2 ^ 32" for a b by (simp add: sub32_def)
  then show ?thesis by (simp add: correct_file_len_def Let_def)
qed

text \<open>What the loop over the page list keeps: \<open>n\<close> more pages fit the number of pages.\<close>

definition reading :: "nat \<Rightarrow> header \<Rightarrow> bool \<Rightarrow> file_handle \<Rightarrow> bool" where
  "reading n h checked f \<longleftrightarrow> file_len (fh_inode f) < 2 ^ 64 \<and> length (data_pages (fh_inode f)) \<le> n
     \<and> (\<forall>p \<in> set (data_pages (fh_inode f)). dp_state p = Stored \<and> page_id p < 2 ^ 32
          \<and> (checked \<longrightarrow> page_id p < filesystem_size h))"

definition same_head :: "file_handle \<Rightarrow> file_handle \<Rightarrow> bool" where
  "same_head f g \<longleftrightarrow> inode_number (fh_inode g) = inode_number (fh_inode f)
     \<and> inode_version_number (fh_inode g) = inode_version_number (fh_inode f)
     \<and> file_name_len (fh_inode g) = file_name_len (fh_inode f) \<and> file_name (fh_inode g) = file_name (fh_inode f)
     \<and> attributes (fh_inode g) = attributes (fh_inode f) \<and> pages (fh_inode g) = pages (fh_inode f) \<and> connected g = connected f \<and> fh_pos g = fh_pos f
     \<and> append_mode g = append_mode f"

lemma get_data_pages_types:
  "get_data_pages c s page checked pos n len_read f = Inr g \<Longrightarrow> reading m (header s) checked f \<Longrightarrow> m + n < 2 ^ 32 \<Longrightarrow>
   reading (m + n) (header s) checked g \<and> same_head f g"
proof (induction c s page checked pos n len_read f arbitrary: m rule: get_data_pages.induct)
  case (1 c s page checked pos len_read f)
  then show ?case by (simp add: same_head_def)
next
  case (2 c s page checked pos n len_read f)
  from "2.prems"(1) obtain pid where pid: "get_field c (fs_endianness (header s)) page pos 4 = Inr pid"
    by (auto simp: res_simps)
  have small: "pid < 2 ^ 32" using get_field_bound [OF pid] by simp
  consider (skip) "checked" "pid \<ge> filesystem_size (header s)" "0 < page_size (header s)"
    | (stop) "checked" "pid < filesystem_size (header s)" "len_read \<ge> file_len (fh_inode f)"
    | (page) "checked \<longrightarrow> pid < filesystem_size (header s)" "\<not> (checked \<and> len_read \<ge> file_len (fh_inode f))"
    using "2.prems"(1) pid by (auto simp: res_simps not_le split: if_splits)
  then show ?case
  proof cases
    case skip
    let ?f = "f\<lparr>fh_inode := (fh_inode f)\<lparr>file_len := correct_file_len (header s) (n = 0) (file_len (fh_inode f))\<rparr>,
        modified := True\<rparr>"
    have r: "reading (Suc m) (header s) checked ?f" using "2.prems"(2) correct_file_len_bound by (auto simp: reading_def)
    have e: "get_data_pages c s page checked (pos + 4) n len_read ?f = Inr g"
      using "2.prems"(1) pid skip by simp
    from "2.IH"(1) [OF pid _ _ e r] skip "2.prems"(3) show ?thesis by (simp add: requireE_def same_head_def)
  next
    case stop
    then have "g = f\<lparr>modified := True\<rparr>" using "2.prems"(1) pid by (simp add: not_le)
    then show ?thesis using "2.prems"(2) by (auto simp: reading_def same_head_def)
  next
    case page
    let ?f = "f\<lparr>fh_inode := (fh_inode f)\<lparr>data_pages := data_pages (fh_inode f) @ [\<lparr>page_id = pid, dp_state = Stored\<rparr>]\<rparr>\<rparr>"
    have r: "reading (Suc m) (header s) checked ?f" using "2.prems"(2) page(1) small by (auto simp: reading_def)
    have c: "\<not> (checked \<and> filesystem_size (header s) \<le> pid)" using page(1) by auto
    have e: "get_data_pages c s page checked (pos + 4) n (add64 len_read (page_size (header s))) ?f = Inr g"
      using "2.prems"(1) pid c page(2) by (simp split: if_splits)
    from "2.IH"(2) [OF pid c page(2) e r] "2.prems"(3) show ?thesis by (simp add: same_head_def)
  qed
qed

lemma get_inode_typed:
  assumes "get_inode c s page checked = Inr f"
  shows "inode_wf (fh_inode f) \<and> length (data_pages (fh_inode f)) \<le> pages (fh_inode f)
    \<and> (\<forall>p \<in> set (data_pages (fh_inode f)). dp_state p = Stored \<and> (checked \<longrightarrow> page_id p < filesystem_size (header s)))
    \<and> connected f \<and> fh_pos f = 0 \<and> \<not> append_mode f"
proof -
  let ?e = "fs_endianness (header s)"
  from assms obtain hd name tl where
    r: "get_fields c ?e page 0 [8, 8, 2] = Inr hd" "memcpy_from page 18 (hd ! 2) = Inr name"
      "get_fields c ?e page (18 + hd ! 2) [8, 8, 4] = Inr tl" by (auto simp: get_inode_def Let_def res_simps)
  let ?f = "new_handle\<lparr>fh_inode := default_inode\<lparr>inode_number := hd ! 0, inode_version_number := hd ! 1,
      file_name_len := hd ! 2, file_name := name, attributes := tl ! 0, file_len := tl ! 1, pages := tl ! 2\<rparr>\<rparr>"
  have b: "hd ! 0 < 2 ^ 64" "hd ! 1 < 2 ^ 64" "hd ! 2 < 2 ^ 16" "tl ! 0 < 2 ^ 64" "tl ! 1 < 2 ^ 64" "tl ! 2 < 2 ^ 32"
  proof -
    have h: "hd ! k < 256 ^ ([8, 8, 2] ! k)" if "k < 3" for k using get_fields_bound [OF r(1)] that by simp
    have t: "tl ! k < 256 ^ ([8, 8, 4] ! k)" if "k < 3" for k using get_fields_bound [OF r(3)] that by simp
    show "hd ! 0 < 2 ^ 64" "hd ! 1 < 2 ^ 64" "hd ! 2 < 2 ^ 16" using h [of 0] h [of 1] h [of 2] by simp_all
    show "tl ! 0 < 2 ^ 64" "tl ! 1 < 2 ^ 64" "tl ! 2 < 2 ^ 32" using t [of 0] t [of 1] t [of 2] by simp_all
  qed
  have n: "length name = hd ! 2" using r(2) by (auto simp: memcpy_from_def split: if_splits)
  have g: "(if tl ! 2 \<noteq> 0 then get_data_pages c s page checked (38 + hd ! 2) (tl ! 2) 0 ?f
      else if tl ! 1 > 0 then get_inline_data c s page (38 + hd ! 2) ?f else Inr ?f) = Inr f"
    using assms r by (simp add: get_inode_def Let_def del: get_fields.simps One_nat_def split del: if_split)
  have st: "reading 0 (header s) checked ?f" using b(5) by (simp add: reading_def new_handle_def empty_handle_def default_inode_def)
  have "reading (tl ! 2) (header s) checked f \<and> same_head ?f f"
  proof (cases "tl ! 2 = 0")
    case False
    then show ?thesis using get_data_pages_types [OF _ st, of c page _ "tl ! 2" 0 f] g b(6) by simp
  next
    case True
    then show ?thesis using g st
      by (auto simp: get_inline_data_def Let_def res_simps reading_def same_head_def split: if_splits)
  qed
  then show ?thesis using b n
    by (simp add: reading_def same_head_def inode_wf_def new_handle_def empty_handle_def default_inode_def)
qed

lemma get_inode_wf: "get_inode c s page checked = Inr f \<Longrightarrow> inode_wf (fh_inode f)"
  using get_inode_typed by blast

text \<open>
  C29. Whatever bytes a page holds, an inode that is read from it is well typed: its numbers, its
  attributes and its length fit 64 bits, its name has the length it says, its page list is no longer than
  the number of pages that was read and names 32 bit page numbers, all of them stored. With error
  corrections no page lies beyond the file system.
\<close>

theorem inodes_read_are_well_typed:
  assumes "get_inode c s page checked = Inr f"
  shows "inode_wf (fh_inode f) \<and> length (data_pages (fh_inode f)) \<le> pages (fh_inode f)
    \<and> (\<forall>p \<in> set (data_pages (fh_inode f)). dp_state p = Stored \<and> (checked \<longrightarrow> page_id p < filesystem_size (header s)))
    \<and> connected f \<and> fh_pos f = 0 \<and> \<not> append_mode f"
  using assms by (rule get_inode_typed)

text \<open>A page of zeros is read as an inode without a name and without data.\<close>

theorem inodes_read_are_well_typed_witness:
  "inode_wf (fh_inode new_handle) \<and> length (data_pages (fh_inode new_handle)) \<le> pages (fh_inode new_handle)"
proof -
  have z: "le_val (replicate n 0) = 0" for n by (induction n) simp_all
  have "get_inode (sim_config 0 (\<lambda>_. 7) LE False) (SimpleFlashFsBase (SimFlash_open [])) (replicate 64 0) True = Inr new_handle"
    by (simp add: get_inode_def get_field_def memcpy_from_def slice_def get_scalar_native obj_val_def SimpleFlashFsBase_def
        default_header_def new_handle_def empty_handle_def default_inode_def z Let_def)
  from inodes_read_are_well_typed [OF this] show ?thesis by simp
qed

end
