(* ===== verification/CreateSpec.thy ===== *)
theory CreateSpec
  imports OpenSpec
begin

text \<open>
  The first version of a file: which pages a file gets that is written in one go, what the first flush
  leaves on the flash, and that the file is found by its name afterwards.
\<close>

section \<open>The pages of a file that is written once\<close>

text \<open>A handle with \<open>k\<close> pages, none of which has been replaced.\<close>

definition grown :: "file_handle \<Rightarrow> nat \<Rightarrow> bool" where
  "grown f k \<longleftrightarrow> length (data_pages (fh_inode f)) = k \<and> (\<forall>p \<in> set (data_pages (fh_inode f)). dp_state p \<noteq> Deleted)"

lemma grown_valid: "grown f k \<Longrightarrow> valid_pages f = data_pages (fh_inode f)"
  by (auto simp: grown_def valid_pages_def)

lemma grown_count: "grown f k \<Longrightarrow> count_valid_data_pages (fh_inode f) = k"
  using grown_valid [of f k] by (simp add: count_valid grown_def)

lemma allocate_for_header:
  "allocate_free_data_page_for s f = (r, s') \<Longrightarrow> header s' = header s"
  by (auto simp: allocate_free_data_page_for_def allocate_free_data_page_def Let_def split: if_splits prod.splits)

lemma grow_page:
  assumes "allocate_new_data_pages s k f = (True, f', s')" "grown f k"
  shows "grown f' (Suc k)" "dp_state (data_pages (fh_inode f') ! k) = New" "header s' = header s" "fh_pos f' = fh_pos f"
proof -
  have c: "count_valid_data_pages (fh_inode f) = k" by (rule grown_count [OF assms(2)])
  obtain r t where a: "allocate_free_data_page_for s f = (r, t)" by (cases "allocate_free_data_page_for s f")
  from assms(1) c a obtain n where r: "r = Some n"
    by (subst (asm) allocate_new_data_pages.simps) (auto split: option.splits)
  let ?g = "add_new_page f n"
  have dp: "data_pages (fh_inode ?g) = data_pages (fh_inode f) @ [\<lparr>page_id = n, dp_state = New\<rparr>]"
    using c assms(2) by (simp add: add_new_page_def insert_at_def grown_def set_pages_def)
  have "allocate_new_data_pages s k f = allocate_new_data_pages t k ?g"
    using c a r by (subst allocate_new_data_pages.simps) simp
  also have "\<dots> = (True, ?g, t)"
    using c by (subst allocate_new_data_pages.simps) (simp add: count_valid_add_new_page)
  finally have e: "f' = ?g" "s' = t" using assms(1) by simp_all
  show "grown f' (Suc k)" "dp_state (data_pages (fh_inode f') ! k) = New"
    using assms(2) dp by (auto simp: e grown_def nth_append)
  show "header s' = header s" using allocate_for_header [OF a] by (simp add: e)
  show "fh_pos f' = fh_pos f" by (simp add: e add_new_page_def set_pages_def)
qed

lemma fill_page:
  assumes "write_page c s f pg (Slot k) = Inr (True, f', s')" "grown f n" "k < n" "dp_state (data_pages (fh_inode f) ! k) = New"
  shows "grown f' n" "header s' = header s" "fh_pos f' = fh_pos f"
proof -
  from assms(1,4) obtain m where m: "f' = mark_stored f (Slot k)" "s' = s\<lparr>mem := m\<rparr>"
    by (auto simp: write_page_def page_meta_def write_to_page_def Let_def res_simps split: if_splits)
  show "header s' = header s" "fh_pos f' = fh_pos f" by (simp_all add: m mark_stored_def set_pages_def)
  show "grown f' n" using assms(2,3)
    by (auto simp: m grown_def mark_stored_def set_pages_def stored_page_def dest!: set_update_subset_insert [THEN subsetD])
qed

lemma write_loop_grows:
  "write_loop c ps s f d = Inr (True, f', s') \<Longrightarrow> page_size (header s) = ps \<Longrightarrow> 0 < ps \<Longrightarrow> fh_pos f = k * ps \<Longrightarrow>
   grown f k \<Longrightarrow> k * ps + length d < 2 ^ 64 \<Longrightarrow> grown f' (k + pages_for ps (length d))"
proof (induction "length d" arbitrary: d s f k rule: less_induct)
  case less
  show ?case
  proof (cases "d = []")
    case True
    then show ?thesis using less.prems(1,5) by (simp add: write_loop.simps)
  next
    case False
    have idx: "fh_pos f div ps = k" using less.prems(3,4) by simp
    obtain b f1 s1 where a: "allocate_new_data_pages s k f = (b, f1, s1)" by (cases "allocate_new_data_pages s k f")
    have b: "b" using less.prems(1,3) False by (subst (asm) write_loop.simps) (auto simp: idx a split: bool.splits)
    note g = grow_page [OF a [unfolded b(1)[THEN eqTrueI]] less.prems(5)]
    have slot: "page_slot f1 k = Inr (data_pages (fh_inode f1) ! k)" using g(1) by (simp add: page_slot_def grown_def)
    have ps1: "page_size (header s1) = ps" using g(3) less.prems(2) by simp
    show ?thesis
    proof (cases "length d < ps")
      case True
      then have "min (length d) ps = length d" by simp
      with less.prems(1,3) False a b True idx obtain f2 s2 where
        w: "write_partial_page c s1 f1 k d = Inr (True, f2, s2)" "write_loop c ps s2 f2 [] = Inr (True, f', s')"
        by (subst (asm) write_loop.simps) (auto simp: res_simps split: if_splits)
      from w(1) slot g(2) ps1 True obtain pg f3 where
        "write_page c s1 f1 pg (Slot k) = Inr (True, f3, s2)" "f2 = f3\<lparr>fh_pos := add64 (fh_pos f3) (length d)\<rparr>"
        by (auto simp: write_partial_page_def Let_def res_simps split: if_splits)
      moreover have "f' = f2" using w(2) by (simp add: write_loop.simps)
      moreover have "pages_for ps (length d) = 1"
        using pages_for_step [OF less.prems(3), of "length d"] False True by simp
      ultimately show ?thesis using fill_page(1) [OF _ g(1) _ g(2)] by (simp add: grown_def)
    next
      case le: False
      with less.prems(1,3) False a b idx obtain f2 s2 where
        w: "write_full_page c s1 f1 k d = Inr (True, f2, s2)" "write_loop c ps s2 f2 (drop ps d) = Inr (True, f', s')"
        by (subst (asm) write_loop.simps) (auto simp: res_simps split: if_splits)
      from w(1) slot ps1 obtain f3 where
        f3: "write_page c s1 f1 (take ps d) (Slot k) = Inr (True, f3, s2)" "f2 = f3\<lparr>fh_pos := add64 (fh_pos f3) ps\<rparr>"
        by (auto simp: write_full_page_def Let_def res_simps split: if_splits)
      note fp = fill_page [OF f3(1) g(1) _ g(2), simplified]
      have "add64 (fh_pos f3) ps = Suc k * ps"
        using fp(3) g(4) less.prems(4,6) le by (simp add: add64_small)
      then have "grown f' (Suc k + pages_for ps (length (drop ps d)))"
        using less.prems(3,6) fp(1,2) g(3) le False ps1
        by (intro less.hyps [OF _ w(2)]) (simp_all add: f3(2) grown_def)
      then show ?thesis using pages_for_step [OF less.prems(3), of "length d"] False by simp
    qed
  qed
qed

text \<open>The page list and the data in the inode fit the inode page.\<close>

definition fits_page :: "header \<Rightarrow> inode \<Rightarrow> bool" where
  "fits_page h i \<longleftrightarrow> inode_size i + 4 \<le> page_size h \<and> pages_plausible h i
     \<and> (data_pages i = [] \<longrightarrow> 0 < file_len i \<longrightarrow>
          file_len i \<le> length (inode_data i) \<and> inode_size i + length (inode_data i) + 4 \<le> page_size h)"

lemma pages_for_bounds:
  assumes "0 < ps"
  shows "pages_for ps n \<le> n div ps + 1" "0 < n \<Longrightarrow> (pages_for ps n - 1) * ps < n"
proof -
  have "(n + ps - 1) div ps \<le> (n + ps) div ps" by (intro div_le_mono) simp
  moreover have "(n + ps) div ps = n div ps + 1" using assms by (simp add: div_add_self2)
  ultimately show "pages_for ps n \<le> n div ps + 1" by (simp add: pages_for_def)
  assume n: "0 < n"
  then have "n + ps - 1 = (n - 1) + ps" by simp
  then have "pages_for ps n = (n - 1) div ps + 1" using assms by (simp only: pages_for_def div_add_self2)
  then have "(pages_for ps n - 1) * ps \<le> n - 1" using div_times_less_eq_dividend [of "n - 1" ps] by simp
  then show "(pages_for ps n - 1) * ps < n" using n by linarith
qed

context fs_on_flash
begin

lemma fresh_write:
  assumes ok: "file_ok ok cells writable s f" and e: "data_pages (fh_inode f) = []" "inode_data (fh_inode f) = []"
      "fh_pos f = 0" "file_len (fh_inode f) = 0" "\<not> append_mode f"
    and can: "can_write s f (length d)"
  shows "\<exists>f' s'. FileHandle_write c s f d = Inr (length d, f', s') \<and> written ok cells writable s f d s' f'
    \<and> (\<forall>p \<in> set (data_pages (fh_inode f')). dp_state p \<noteq> Deleted) \<and> fits_page (header s) (fh_inode f')"
proof -
  let ?n = "length d" and ?ps = "page_size (header s)" and ?nl = "file_name_len (fh_inode f)"
  let ?space = "get_inode_data_space_size s (fh_inode f)"
  have wp: "write_pos f = 0" "f\<lparr>fh_pos := 0\<rparr> = f" using e(3,5) by (simp_all add: write_pos_def)
  from handle_write_ok [OF ok can] obtain f' s' where
    w: "FileHandle_write c s f d = Inr (?n, f', s')" "written ok cells writable s f d s' f'" unfolding wp by blast
  have con: "connected f" "?n < 2 ^ 32" using can by (simp_all add: can_write_def)
  have fw: "fs_write c s f d = Inr (?n, f', s')"
    using w(1) con(1) e(5) by (simp add: FileHandle_write_def requireE_def del: if_split)
  note geo = geometryD [OF io_okD(2) [OF file_ok_def [THEN iffD1, THEN conjunct1, OF ok]]]
  have nl: "42 + ?nl \<le> ?ps" using ok by (simp add: file_ok_def)
  have sp: "?space = ?ps - (42 + ?nl)" using inode_space [OF nl] geo(4) by simp
  have fo: "file_ok ok cells writable s' f'" and fl: "file_len (fh_inode f') = ?n" and
    nl': "file_name_len (fh_inode f') = ?nl" and hd: "header s' = header s"
    using w(2) e(3,4) by (auto simp: written_def same_meta_def old_pages_kept_def same_fs_def dest: arg_cong [of _ _ file_name_len])
  have ids: "\<forall>p \<in> set (data_pages (fh_inode f')). page_id p < filesystem_size (header s)"
    using fo hd by (auto simp: file_ok_def dest!: io_okD(8) intro: Suc_lessD)
  show ?thesis
  proof (cases "fits_inode s f ?n")
    case True
    then have i: "write_inline s f d = Inr (?n, f', s')" using fw geo(2) by (simp add: fs_write_def requireE_def)
    then have dp: "data_pages (fh_inode f') = []"
      using e(1) by (auto simp: write_inline_def Let_def res_simps split: if_splits)
    have "length (inode_data (fh_inode f')) = ?space"
      using i e(2) True by (auto simp: write_inline_def Let_def res_simps vec_resize_def memcpy_to_def fits_inode_def split: if_splits)
    moreover have "?n < ?space" using True e(3) con(2) by (simp add: fits_inode_def add64_def)
    ultimately have "fits_page (header s) (fh_inode f')"
      using sp nl by (simp add: fits_page_def inode_size_def dp nl' fl pages_plausible_def)
    then show ?thesis using w dp by (intro exI [of _ f'] exI [of _ s']) simp
  next
    case False
    then have "write_tail c s f 0 d 0 = Inr (?n, f', s')"
      using fw e(2,3) geo(2) by (simp add: fs_write_def requireE_def)
    then obtain f2 where f2: "write_loop c ?ps s f d = Inr (True, f2, s')"
      "f' = f2\<lparr>modified := True, fh_inode := (fh_inode f2)\<lparr>file_len := max (fh_pos f2) (file_len (fh_inode f2))\<rparr>\<rparr>"
      using e(3) by (cases "d = []") (auto simp: write_tail_def Let_def res_simps write_loop.simps [of c _ s f "[]"] split: if_splits)
    have "grown f2 (0 + pages_for ?ps ?n)"
      using e(1,3) geo(2) con(2) by (intro write_loop_grows [OF f2(1) refl]) (simp_all add: grown_def)
    then have g: "length (data_pages (fh_inode f')) = pages_for ?ps ?n"
      "\<forall>p \<in> set (data_pages (fh_inode f')). dp_state p \<noteq> Deleted" by (simp_all add: grown_def f2(2))
    have "room s f (?n div ?ps + 2)" using can False wp by (simp add: can_write_def Let_def)
    then have "?n div ?ps + 2 < ?space div 4" using e(1) by (simp add: room_def get_max_inode_data_pages_def)
    then have "4 * pages_for ?ps ?n \<le> ?space" using pages_for_bounds(1) [OF geo(2), of ?n] by linarith
    then have "inode_size (fh_inode f') + 4 \<le> ?ps" using sp nl by (simp add: inode_size_def g(1) nl')
    moreover have "data_pages (fh_inode f') = [] \<Longrightarrow> ?n = 0"
      using g(1) pages_for_step [OF geo(2), of ?n] by (cases "?n = 0") auto
    moreover have "data_pages (fh_inode f') \<noteq> [] \<Longrightarrow> 0 < ?n" using g(1) by (cases "?n = 0") auto
    ultimately have "fits_page (header s) (fh_inode f')"
      using ids pages_for_bounds(2) [OF geo(2), of ?n] by (auto simp: fits_page_def pages_plausible_def g(1) fl)
    then show ?thesis using w g(2) by blast
  qed
qed

end

section \<open>The first flush\<close>

lemma commit_pages:
  assumes "geometry h (length B)" "inode_ok h (fh_inode g)" "pages_ok h (data_pages (fh_inode g))" "Suc (fh_page g) < max_inodes h"
  shows "page_at (page_size h) (fh_page g) (foldl apply_op B (commit_ops c h g)) = inode_image c h (fh_inode g)"
    "\<forall>q \<in> set (data_pages (fh_inode g)). page_at (page_size h) (page_id q) (foldl apply_op B (commit_ops c h g))
      = new_contents (page_size h) B q"
    "\<And>r. Suc r < filesystem_size h \<Longrightarrow> r \<noteq> fh_page g \<Longrightarrow> r \<notin> page_id ` set (data_pages (fh_inode g)) \<Longrightarrow>
      page_at (page_size h) r (foldl apply_op B (commit_ops c h g)) = page_at (page_size h) r B"
proof -
  let ?n = "page_size h" and ?dp = "data_pages (fh_inode g)" and ?i = "inode_image c h (fh_inode g)"
  let ?Z = "foldl apply_op B (zero_ops ?n ?dp)"
  note geod = geometryD [OF assms(1)]
  have inp: "page_in ?n q (length B)" if "Suc q < filesystem_size h" for q by (rule geometry_page_in [OF assms(1) that])
  have idp: "\<forall>p \<in> set ?dp. page_in ?n (page_id p) (length B)" using inp assms(3) by (simp add: pages_ok_def)
  have pf: "page_in ?n (fh_page g) (length B)" using inp assms(4) geod(6) by simp
  have len: "length ?Z = length B" by (rule length_zero_ops [OF idp])
  have C: "foldl apply_op B (commit_ops c h g) = put_page ?n (fh_page g) ?i ?Z" by (simp add: commit_ops_def apply_write_op)
  have at: "page_at ?n r (foldl apply_op B (commit_ops c h g)) = (if r = fh_page g then ?i else page_at ?n r ?Z)"
    if "page_in ?n r (length B)" for r
    unfolding C using that pf len assms(2) by (intro page_at_put_page) simp_all
  show "page_at ?n (fh_page g) (foldl apply_op B (commit_ops c h g)) = ?i" using at [OF pf] by simp
  have small: "page_id q \<noteq> fh_page g" if "q \<in> set ?dp" for q using that assms(3,4) by (auto simp: pages_ok_def)
  have inj: "q' = q" if "q \<in> set ?dp" "q' \<in> set ?dp" "page_id q' = page_id q" for q q'
    using that assms(3) by (auto simp: pages_ok_def distinct_map inj_on_def)
  show "\<forall>q \<in> set ?dp. page_at ?n (page_id q) (foldl apply_op B (commit_ops c h g)) = new_contents ?n B q"
  proof
    fix q assume q: "q \<in> set ?dp"
    have "(\<exists>p \<in> set ?dp. dp_state p = New \<and> page_id p = page_id q) \<longleftrightarrow> dp_state q = New" using inj [OF q] q by metis
    then show "page_at ?n (page_id q) (foldl apply_op B (commit_ops c h g)) = new_contents ?n B q"
      using at [of "page_id q"] idp q small [OF q] page_at_zeroed [OF idp, of "page_id q"] by (simp add: new_contents_def)
  qed
  show "page_at ?n r (foldl apply_op B (commit_ops c h g)) = page_at ?n r B"
    if "Suc r < filesystem_size h" "r \<noteq> fh_page g" "r \<notin> page_id ` set ?dp" for r
    using at [OF inp [OF that(1)]] page_at_zeroed [OF idp inp [OF that(1)]] that(2,3) by auto
qed

text \<open>A new file that can be written: its page is free, and its inode fits.\<close>

definition new_ready :: "'m config \<Rightarrow> ('m \<Rightarrow> bool) \<Rightarrow> ('m \<Rightarrow> byte list) \<Rightarrow> ('m \<Rightarrow> nat \<Rightarrow> bool) \<Rightarrow> 'm fs \<Rightarrow> file_handle \<Rightarrow> bool" where
  "new_ready c ok cells writable s f \<longleftrightarrow> mounted ok cells s \<and> clean_inodes c cells s
     \<and> max_inode_number s < 2 ^ 64 - 1
     \<and> (\<forall>i < max_inodes (header s). \<forall>h. stored_inode c cells s i = Some h \<longrightarrow> inode_number (fh_inode h) \<le> max_inode_number s)
     \<and> modified f \<and> connected f \<and> inode_number (fh_inode f) = 0 \<and> Suc (fh_page f) < max_inodes (header s)
     \<and> page_writable writable (page_size (header s)) (fh_page f) (mem s)
     \<and> file_ok ok cells writable s f \<and> inode_wf (fh_inode f) \<and> fits_page (header s) (fh_inode f)"

text \<open>The handle of the first version, as it is read again.\<close>

definition stored_first :: "header \<Rightarrow> file_handle \<Rightarrow> nat \<Rightarrow> file_handle" where
  "stored_first h f n = new_handle\<lparr>fh_inode := reread (page_size h) (fh_inode (first_version n f))\<rparr>"

lemma stored_first_simps [simp]:
  "inode_number (fh_inode (stored_first h f n)) = n" "file_name (fh_inode (stored_first h f n)) = file_name (fh_inode f)"
  "file_len (fh_inode (stored_first h f n)) = file_len (fh_inode f)" "connected (stored_first h f n)"
  "data_pages (fh_inode (stored_first h f n)) = map stored_page (data_pages (fh_inode f))"
  by (simp_all add: stored_first_def first_version_def reread_def)

context fs_on_flash
begin

lemma new_stored:
  assumes rdy: "new_ready c ok cells writable s f"
  shows "\<exists>s'. flush c s f = Inr (True, settle (first_version (Suc (max_inode_number s)) f), s')
    \<and> mounted ok cells s' \<and> header s' = header s \<and> clean_inodes c cells s' \<and> max_inode_number s' = Suc (max_inode_number s)
    \<and> free_data_pages s' = free_data_pages s \<and> allocated_unwritten_pages s' = allocated_unwritten_pages s
    \<and> stored_inode c cells s' (fh_page f) = Some (stored_first (header s) f (Suc (max_inode_number s)))
    \<and> (\<forall>j < max_inodes (header s). j \<noteq> fh_page f \<longrightarrow> stored_inode c cells s' j = stored_inode c cells s j)
    \<and> (\<forall>q \<in> set (data_pages (fh_inode f)).
        page_at (page_size (header s)) (page_id q) (cells (mem s')) = new_contents (page_size (header s)) (cells (mem s)) q)"
proof -
  let ?n = "Suc (max_inode_number s)" and ?h = "header s" and ?ps = "page_size (header s)"
  let ?g = "first_version ?n f"
  have r: "mounted ok cells s" "clean_inodes c cells s" "max_inode_number s < 2 ^ 64 - 1" "modified f"
    "inode_number (fh_inode f) = 0" "Suc (fh_page f) < max_inodes ?h" "page_writable writable ?ps (fh_page f) (mem s)"
    "file_ok ok cells writable s f" "inode_wf (fh_inode f)" "fits_page ?h (fh_inode f)"
    using rdy by (simp_all add: new_ready_def)
  have m: "ok (mem s)" "geometry ?h (length (cells (mem s)))" using r(1) by (simp_all add: mounted_def)
  have io: "io_ok ok cells writable s f" using r(8) by (simp add: file_ok_def)
  have pok: "pages_ok ?h (data_pages (fh_inode f))"
    and wr: "\<forall>p \<in> set (data_pages (fh_inode f)). dp_state p = New \<longrightarrow> page_writable writable ?ps (page_id p) (mem s)"
    using io_okD(4,7) [OF io] by blast+
  have iok: "inode_ok ?h ((fh_inode f)\<lparr>inode_number := ?n\<rparr>)"
    using r(3,9,10) by (simp add: inode_ok_def inode_wf_def fits_page_def inode_size_def)
  from flush_new_ok [OF m r(3) iok pok r(6,7) wr] obtain m' where
    m': "flush_new c s f = Inr (True, settle ?g, s\<lparr>max_inode_number := ?n, mem := m'\<rparr>)" "ok m'"
      "cells m' = foldl apply_op (cells (mem s)) (commit_ops c ?h ?g)" "length (cells m') = length (cells (mem s))" by blast
  let ?s' = "s\<lparr>max_inode_number := ?n, mem := m'\<rparr>"
  have g: "fh_page ?g = fh_page f" "data_pages (fh_inode ?g) = data_pages (fh_inode f)" "inode_ok ?h (fh_inode ?g)"
    using iok by (simp_all add: first_version_def)
  note cp = commit_pages [where c = c and g = ?g, OF m(2) g(3), unfolded g(1,2), OF pok r(6), folded m'(3)]
  have gi: "get_inode c ?s' (inode_image c ?h (fh_inode ?g)) b = Inr (stored_first ?h f ?n)" for b
  proof -
    have "pages_plausible (header ?s') (fh_inode ?g)" using r(10) by (simp add: fits_page_def pages_plausible_def first_version_def)
    then show ?thesis using inode_image_read [of ?s' "fh_inode ?g" b c c] g(3) geometryD(4) [OF m(2)] by (simp add: stored_first_def)
  qed
  have ck: "checksum_ok c (fs_endianness ?h) (inode_image c ?h (fh_inode ?g))" by (rule inode_image_checksum [OF g(3)])
  have pg: "page_at ?ps j (cells m') = page_at ?ps j (cells (mem s))" if "j < max_inodes ?h" "j \<noteq> fh_page f" for j
  proof (rule cp(3))
    show "j \<notin> page_id ` set (data_pages (fh_inode f))" using that(1) pok by (auto simp: pages_ok_def)
  qed (use that geometryD(6) [OF m(2)] in simp_all)
  have gc: "get_inode c ?s' q b = get_inode c s q b" for q b by (rule get_inode_cong) simp
  have at: "stored_inode c cells ?s' (fh_page f) = Some (stored_first ?h f ?n)" using cp(1) ck gi by (simp add: stored_inode_def Let_def)
  have rest: "stored_inode c cells ?s' j = stored_inode c cells s j" if "j < max_inodes ?h" "j \<noteq> fh_page f" for j
    using pg [OF that] gc by (simp add: stored_inode_def Let_def)
  have cl: "clean_inodes c cells ?s'"
    unfolding clean_inodes_def Let_def
  proof (intro allI impI)
    fix j assume j: "j < max_inodes (header ?s')" "checksum_ok c (fs_endianness (header ?s')) (page_at (page_size (header ?s')) j (cells (mem ?s')))"
    show "\<exists>f. get_inode c ?s' (page_at (page_size (header ?s')) j (cells (mem ?s'))) False = Inr f
        \<and> get_inode c ?s' (page_at (page_size (header ?s')) j (cells (mem ?s'))) True = Inr f \<and> \<not> modified f"
    proof (cases "j = fh_page f")
      case True
      then show ?thesis using cp(1) gi by (simp add: stored_first_def new_handle_def empty_handle_def)
    next
      case False
      then show ?thesis using pg [OF _ False] j r(2) gc by (simp add: clean_inodes_def Let_def)
    qed
  qed
  have "mounted ok cells ?s'" using r(1) m'(2,4) by (simp add: mounted_def)
  moreover have "flush c s f = Inr (True, settle ?g, ?s')" using m'(1) r(4,5) by (simp add: flush_def)
  ultimately show ?thesis using at rest cl cp(2) by (intro exI [of _ ?s']) simp
qed

end

section \<open>The new file is found\<close>

lemma destroy_flushes:
  assumes "flush c s f = Inr (b, f', s')" "connected f" "connected f'" "\<not> modified f'"
  shows "FileHandle_destroy c s f = FileHandle_destroy c s' f'"
  using assms by (simp add: FileHandle_destroy_def flush_def [of c s' f'])

lemma settle_first [simp]:
  "connected (settle (first_version n f)) = connected f" "\<not> modified (settle (first_version n f))"
  "fh_page (settle (first_version n f)) = fh_page f"
  by (simp_all add: settle_def first_version_def set_pages_def)

definition unused_name :: "'m config \<Rightarrow> ('m \<Rightarrow> byte list) \<Rightarrow> 'm fs \<Rightarrow> byte list \<Rightarrow> bool" where
  "unused_name c cells s name \<longleftrightarrow>
     (\<forall>j < max_inodes (header s). \<forall>h. stored_inode c cells s j = Some h \<longrightarrow> \<not> names_file name h)"

lemma unused_not_found: "unused_name c cells s name \<Longrightarrow> \<not> connected (newest_named c cells s name)"
proof
  assume "unused_name c cells s name" "connected (newest_named c cells s name)"
  with found_newest(1) [OF refl refl this(2)] show False by (auto simp: unused_name_def)
qed

lemma newest_after_creation:
  assumes "header s' = header s" "p < max_inodes (header s)" "stored_inode c cells s' p = Some v" "names_file name v"
    "\<forall>j < max_inodes (header s). j \<noteq> p \<longrightarrow> stored_inode c cells s' j = stored_inode c cells s j"
    "unused_name c cells s name"
    "\<forall>j < max_inodes (header s). \<forall>h. stored_inode c cells s j = Some h \<longrightarrow> inode_number (fh_inode h) < inode_number (fh_inode v)"
  shows "newest_named c cells s' name = v\<lparr>fh_page := p\<rparr>"
proof -
  let ?f = "newest_named c cells s' name"
  have "connected ?f"
  proof (rule ccontr)
    assume "\<not> connected ?f"
    from found_newest(2) [OF refl refl this _ assms(3,4)] assms(1,2) obtain j h where
      "j < max_inodes (header s)" "j \<noteq> p" "stored_inode c cells s' j = Some h"
      "inode_number (fh_inode h) = inode_number (fh_inode v)" by auto
    then show False using assms(5,7) by fastforce
  qed
  from found_newest(1) [OF refl refl this] assms(1) obtain i g where
    g: "i < max_inodes (header s)" "stored_inode c cells s' i = Some g" "?f = g\<lparr>fh_page := i\<rparr>" "names_file name g" by auto
  have "i = p" using g(1,2,4) assms(5,6) by (auto simp: unused_name_def)
  then show ?thesis using g(2,3) assms(3) by simp
qed

lemma first_contents:
  assumes ok: "file_ok ok cells writable s f" and h: "header t = header s"
    and nd: "\<forall>p \<in> set (data_pages (fh_inode f)). dp_state p \<noteq> Deleted"
    and dat: "\<forall>q \<in> set (data_pages (fh_inode f)).
      page_at (page_size (header s)) (page_id q) (cells (mem t)) = new_contents (page_size (header s)) (cells (mem s)) q"
  shows "contents cells t ((stored_first (header s) f n)\<lparr>fh_page := p\<rparr>) = contents cells s f"
proof -
  have f: "filter (\<lambda>q. dp_state q \<noteq> Deleted) (data_pages (fh_inode f)) = data_pages (fh_inode f)" using nd by (simp add: filter_id_conv)
  have "contents cells t ((stored_version (header s) f p)\<lparr>fh_page := p\<rparr>) = contents cells s f"
    using dat by (intro stored_contents [OF ok h]) simp
  moreover have "contents cells t ((stored_first (header s) f n)\<lparr>fh_page := p\<rparr>)
      = contents cells t ((stored_version (header s) f p)\<lparr>fh_page := p\<rparr>)"
    using f by (simp add: contents_def page_list_def valid_pages_def stored_first_def stored_version_def reread_def
        first_version_def next_version_def drop_deleted_def set_pages_def)
  ultimately show ?thesis by simp
qed

lemma first_file_ok:
  assumes ok: "file_ok ok cells writable s f" and t: "mounted ok cells t" "header t = header s"
    "elems (free_data_pages t) = elems (free_data_pages s)"
    "\<forall>q \<in> elems (free_data_pages s). page_writable writable (page_size (header s)) q (mem t)"
    and nd: "\<forall>p \<in> set (data_pages (fh_inode f)). dp_state p \<noteq> Deleted"
    and wf: "file_name_len (fh_inode f) = length (file_name (fh_inode f))"
  shows "file_ok ok cells writable t ((stored_first (header s) f n)\<lparr>fh_page := p\<rparr>)"
proof -
  let ?g = "(stored_first (header s) f n)\<lparr>fh_page := p\<rparr>"
  have io: "io_ok ok cells writable s f" using ok by (simp add: file_ok_def)
  note D = io_okD [OF io]
  have ids: "map page_id (map stored_page ps) = map page_id ps" for ps by (simp add: stored_page_def)
  have dp: "data_pages (fh_inode ?g) = map stored_page (data_pages (fh_inode f))" by simp
  have im: "page_id ` set (data_pages (fh_inode ?g)) = page_id ` set (data_pages (fh_inode f))"
    unfolding dp by (force simp: stored_page_def image_iff)
  have vp: "valid_pages ?g = data_pages (fh_inode ?g)" unfolding valid_pages_def dp by (simp add: stored_page_def filter_map comp_def)
  have vf: "length (valid_pages f) = length (data_pages (fh_inode f))"
    using nd by (simp add: valid_pages_def filter_id_conv)
  have pg: "pages_ok (header s) (data_pages (fh_inode ?g))"
    using D(4) unfolding dp by (auto simp: pages_ok_def ids stored_page_def o_def)
  have "io_ok ok cells writable t ?g"
    using t D(3,5,6) pg unfolding io_ok_def vp im by (auto simp: mounted_def dp stored_page_def)
  moreover have i: "file_name_len (fh_inode ?g) = file_name_len (fh_inode f)" "fh_pos ?g = 0" "file_len (fh_inode ?g) = file_len (fh_inode f)"
    "inode_data (fh_inode ?g) = (if data_pages (fh_inode f) = [] \<and> file_len (fh_inode f) > 0
       then take (file_len (fh_inode f)) (inode_data (fh_inode f))
         @ replicate (page_size (header s) - (42 + file_name_len (fh_inode f)) - file_len (fh_inode f)) 0 else [])"
    by (simp_all add: stored_first_def first_version_def reread_def new_handle_def empty_handle_def)
  moreover have "get_inode_data_space_size t (fh_inode ?g) = get_inode_data_space_size s (fh_inode f)"
    using i(1) t(2) by (simp add: get_inode_data_space_size_def get_checksum_size_def)
  ultimately show ?thesis using ok t(2) vf vp dp unfolding file_ok_def by (auto simp: valid_pages_def)
qed

end
