(* ===== verification/ReplaceSpec.thy ===== *)
theory ReplaceSpec
  imports CreateSpec InodeTypes
begin

text \<open>
  Opening an existing file with \<open>trunc\<close> and writing it anew: which page the handle gets, and what the next
  flush leaves on the flash.
\<close>

section \<open>The page of a truncated file\<close>

lemma frees_elems:
  "ps_inv (allocated_unwritten_pages s) \<Longrightarrow>
   \<exists>A. foldl (\<lambda>s p. free_unwritten_pages s (page_id p)) s ps = s\<lparr>allocated_unwritten_pages := A\<rparr>
    \<and> ps_inv A \<and> elems A = elems (allocated_unwritten_pages s) - page_id ` set ps"
proof (induction ps arbitrary: s)
  case Nil
  then show ?case by (intro exI [of _ "allocated_unwritten_pages s"]) simp
next
  case (Cons p ps)
  note e = PageSet_erase_facts [OF Cons.prems, of "page_id p"]
  from Cons.IH [of "free_unwritten_pages s (page_id p)"] e obtain A where
    "foldl (\<lambda>s p. free_unwritten_pages s (page_id p)) (free_unwritten_pages s (page_id p)) ps
      = (free_unwritten_pages s (page_id p))\<lparr>allocated_unwritten_pages := A\<rparr>" "ps_inv A"
    "elems A = elems (allocated_unwritten_pages s) - {page_id p} - page_id ` set ps" by (auto simp: free_unwritten_pages_def)
  then show ?case by (intro exI [of _ A]) (auto simp: free_unwritten_pages_def)
qed

lemma destroy_unmodified_elems:
  assumes "\<not> modified f" "connected f" "ps_inv (allocated_unwritten_pages s)"
  shows "\<exists>A. FileHandle_destroy c s f = Inr (s\<lparr>allocated_unwritten_pages := A\<rparr>) \<and> ps_inv A
    \<and> elems A = elems (allocated_unwritten_pages s) - {fh_page f} - page_id ` set (data_pages (fh_inode f))"
proof -
  let ?t = "free_unwritten_pages s (fh_page f)"
  note e = PageSet_erase_facts [OF assms(3), of "fh_page f"]
  from frees_elems [of ?t "data_pages (fh_inode f)"] e obtain A where
    "foldl (\<lambda>s p. free_unwritten_pages s (page_id p)) ?t (data_pages (fh_inode f)) = ?t\<lparr>allocated_unwritten_pages := A\<rparr>"
    "ps_inv A" "elems A = elems (allocated_unwritten_pages s) - {fh_page f} - page_id ` set (data_pages (fh_inode f))"
    by (auto simp: free_unwritten_pages_def)
  then show ?thesis using assms(1,2)
    by (intro exI [of _ A]) (simp add: FileHandle_destroy_def flush_def free_unwritten_pages_def)
qed

definition truncated :: "file_handle \<Rightarrow> nat \<Rightarrow> file_handle" where
  "truncated f q = new_handle\<lparr>fh_page := q,
     fh_inode := (fh_inode f)\<lparr>file_len := 0, pages := 0, data_pages := [], inode_data := []\<rparr>\<rparr>"

lemma clean_unmodified:
  assumes "clean_inodes c cells s" "connected (newest_named c cells s name)"
  shows "\<not> modified (newest_named c cells s name)"
proof -
  from found_newest(1) [OF refl refl assms(2)] obtain i g where
    i: "i < max_inodes (header s)" "stored_inode c cells s i = Some g" "newest_named c cells s name = g\<lparr>fh_page := i\<rparr>" by auto
  let ?p = "page_at (page_size (header s)) i (cells (mem s))"
  have "checksum_ok c (fs_endianness (header s)) ?p" "get_inode c s ?p False = Inr g"
    using i(2) by (auto simp: stored_inode_def Let_def split: if_splits sum.splits)
  then have "\<not> modified g" using assms(1) i(1) by (auto simp: clean_inodes_def Let_def)
  then show ?thesis using i(3) by simp
qed

context fs_on_flash
begin

lemma open_truncated:
  assumes "mounted ok cells s" "clean_inodes c cells s" "f = newest_named c cells s name" "connected f" "mode_trunc m"
    "inode_page_free c (header s) (cells (mem s)) (elems (allocated_unwritten_pages s)) i"
    "\<forall>p \<in> set (data_pages (fh_inode f)). max_inodes (header s) \<le> page_id p"
  shows "\<exists>q s'. open_file c s name m = Inr (truncated f q, s') \<and> looked c ok cells writable s s'
    \<and> Suc q < max_inodes (header s) \<and> stored_inode c cells s q = None
    \<and> q \<in> elems (allocated_unwritten_pages s')
    \<and> elems (allocated_unwritten_pages s') \<subseteq> insert q (elems (allocated_unwritten_pages s))"
proof -
  from find_file_looks [OF assms(1,2), of name] obtain s1 where
    s1: "find_file c s name = Inr (f, s1)" "looked c ok cells writable s s1"
      "kept_claims (allocated_unwritten_pages s) (allocated_unwritten_pages s1)" unfolding assms(3) by blast
  note L = lookedD [OF s1(2)]
  from allocate_looks [OF L(1)] obtain p s2 where
    s2: "allocate_free_inode_page c s1 = Inr (handle_of_page p, s2)" "looked c ok cells writable s1 s2"
      "p = first_free_inode_page c (header s) (cells (mem s)) (elems (allocated_unwritten_pages s1)) 0"
      "elems (allocated_unwritten_pages s2) = elems (allocated_unwritten_pages s1) \<union> set_option p"
    unfolding L(2,3) by blast
  note L2 = lookedD [OF s2(2)]
  have sub: "elems (allocated_unwritten_pages s1) \<subseteq> elems (allocated_unwritten_pages s)"
    using s1(3) assms(1) by (simp add: kept_claims_def mounted_def)
  have "p \<noteq> None"
  proof
    assume "p = None"
    moreover have "inode_page_free c (header s) (cells (mem s)) (elems (allocated_unwritten_pages s1)) i" "i < max_inodes (header s)"
      using assms(6) sub by (auto simp: inode_page_free_def)
    ultimately show False using s2(3) by (simp add: first_free_inode_page_def find_None_iff)
  qed
  then obtain q where q: "p = Some q" by blast
  have fr: "Suc q < max_inodes (header s)" "\<not> checksum_ok c (fs_endianness (header s)) (page_at (page_size (header s)) q (cells (mem s)))"
    using first_free_Some [of c "header s" "cells (mem s)" _ q] s2(3) q by (simp_all add: inode_page_free_def)
  then have none: "stored_inode c cells s q = None" by (simp add: stored_inode_def Let_def)
  have nm: "\<not> modified f" using clean_unmodified [OF assms(2)] assms(3,4) by blast
  have qf: "q \<noteq> fh_page f"
  proof
    assume "q = fh_page f"
    with found_newest(1) [OF assms(3) refl assms(4)] none show False by auto
  qed
  have "ps_inv (allocated_unwritten_pages s2)" using L2(1) by (simp add: mounted_def)
  from destroy_unmodified_elems [OF nm assms(4) this, of c] obtain A where
    A: "FileHandle_destroy c s2 f = Inr (s2\<lparr>allocated_unwritten_pages := A\<rparr>)" "ps_inv A"
      "elems A = elems (allocated_unwritten_pages s2) - {fh_page f} - page_id ` set (data_pages (fh_inode f))" by blast
  let ?s3 = "s2\<lparr>allocated_unwritten_pages := A\<rparr>"
  have g: "(handle_of_page (Some q))\<lparr>fh_inode := (fh_inode f)\<lparr>file_len := 0, pages := 0, data_pages := [], inode_data := []\<rparr>\<rparr>
      = truncated f q" "connected (handle_of_page (Some q))"
    by (simp_all add: handle_of_page_def truncated_def new_handle_def empty_handle_def)
  have "open_file c s name m = Inr (truncated f q, ?s3)"
    using s1(1) s2(1) A(1) assms(4,5) g by (simp add: open_file_def open_trunc_def q)
  moreover have "looked c ok cells writable s2 ?s3"
    using L2(1) A(2) by (simp add: looked_def mounted_def same_flash_refl)
  then have "looked c ok cells writable s ?s3" using looked_trans s1(2) s2(2) by metis
  moreover have "q \<notin> page_id ` set (data_pages (fh_inode f))" using assms(7) fr(1) by fastforce
  then have "q \<in> elems A" using A(3) s2(4) q qf by simp
  moreover have "elems A \<subseteq> insert q (elems (allocated_unwritten_pages s))" using A(3) s2(4) q sub by auto
  ultimately show ?thesis using fr(1) none by (intro exI [of _ q] exI [of _ ?s3]) simp
qed

end

section \<open>The next version of a file without replaced pages\<close>

lemma not_deleted: "\<forall>q \<in> set (data_pages (fh_inode f)). dp_state q \<noteq> Deleted \<Longrightarrow>
  filter (\<lambda>q. dp_state q \<noteq> Deleted) (data_pages (fh_inode f)) = data_pages (fh_inode f)"
  by (simp add: filter_id_conv)

lemma next_version_whole:
  assumes "\<forall>q \<in> set (data_pages (fh_inode f)). dp_state q \<noteq> Deleted"
  shows "fh_inode (next_version f p) = (fh_inode f)\<lparr>inode_version_number := add64 (inode_version_number (fh_inode f)) 1\<rparr>"
  using not_deleted [OF assms] by (simp add: next_version_def drop_deleted_def set_pages_def)

lemma version_file_ok:
  assumes "\<forall>q \<in> set (data_pages (fh_inode f)). dp_state q \<noteq> Deleted"
  shows "file_ok ok cells writable t ((stored_version h f p)\<lparr>fh_page := p\<rparr>)
    = file_ok ok cells writable t ((stored_first h f n)\<lparr>fh_page := p\<rparr>)"
  using not_deleted [OF assms] by (simp add: file_ok_def io_ok_def valid_pages_def get_inode_data_space_size_def stored_first_def stored_version_def reread_def
      first_version_def next_version_def drop_deleted_def set_pages_def)

text \<open>A file that can be written as the next version of its inode, as it is when its page is claimed.\<close>

lemma whole_flushable:
  assumes "\<forall>q \<in> set (data_pages (fh_inode f)). dp_state q \<noteq> Deleted" "modified f" "inode_number (fh_inode f) \<noteq> 0"
    "inode_wf (fh_inode f)" "fits_page h (fh_inode f)" "pages_ok h (data_pages (fh_inode f))" "Suc (fh_page f) < max_inodes h"
  shows "flushable h f" "pages_plausible h (fh_inode (next_version f p))" "obsolete f (next_version f p) = {fh_page f}"
proof -
  show "flushable h f"
    using assms unfolding flushable_def next_version_whole [OF assms(1)]
    by (simp add: inode_ok_def inode_wf_def fits_page_def inode_size_def add64_def)
  show "pages_plausible h (fh_inode (next_version f p))"
    using assms(5) by (simp add: next_version_whole [OF assms(1)] fits_page_def pages_plausible_def)
  show "obsolete f (next_version f p) = {fh_page f}"
    by (simp add: obsolete_def next_version_whole [OF assms(1)])
qed

end
