(* ===== verification/Archive.thy ===== *)
theory Archive
  imports Commands Dynamic
begin

text \<open>
  The archive tool (\<open>src_simple_flash_fs_tar/main.cc\<close>): it keeps files of the host in a file system
  inside one file of the host.
\<close>

section \<open>The host\<close>

text \<open>
  The files of the host; \<open>host_opens\<close> and \<open>host_stores\<close> tell whether a \<open>std::ofstream\<close> can be opened for a
  name, and takes the data. An archive that holds a file with the name of the archive itself is not
  followed: the archive is written back when an action is done.
\<close>

record host =
  host_files :: "byte list \<rightharpoonup> byte list"
  host_opens :: "byte list \<Rightarrow> bool"
  host_stores :: "byte list \<Rightarrow> byte list \<Rightarrow> bool"

definition put_file :: "host \<Rightarrow> byte list \<Rightarrow> byte list \<Rightarrow> host" where
  "put_file w name d = w\<lparr>host_files := (host_files w)(name \<mapsto> d)\<rparr>"

text \<open>For an empty file the address of the first byte of an empty vector is taken.\<close>

definition read_file :: "host \<Rightarrow> byte list \<Rightarrow> byte list res" where
  "read_file w file =
     (case host_files w file of
        None \<Rightarrow> Inl Runtime_error
      | Some d \<Rightarrow> if d = [] then Inl Undefined else Inr d)"

section \<open>The actions on a file\<close>

definition mode_replace :: open_mode where
  "mode_replace = mode_in\<lparr>mode_out := True, mode_trunc := True\<rparr>"

text \<open>What \<open>write\<close> returns is not looked at. The handle is destroyed, and so flushed, at the end.\<close>

definition add_file :: "'m config \<Rightarrow> host \<Rightarrow> 'm fs \<Rightarrow> byte list \<Rightarrow> 'm fs res" where
  "add_file c w s file =
     bindE (read_file w file) (\<lambda>d.
     bindE (open_file c s file mode_replace) (\<lambda>(handle, s).
     bindE (requireE Runtime_error (connected handle)) (\<lambda>_.
     bindE (FileHandle_write c s handle d) (\<lambda>(_, handle, s).
     FileHandle_destroy c s handle))))"

definition del_file :: "'m config \<Rightarrow> 'm fs \<Rightarrow> byte list \<Rightarrow> 'm fs res" where
  "del_file c s file =
     bindE (open_file c s file mode_replace) (\<lambda>(handle, s).
     bindE (requireE Runtime_error (connected handle)) (\<lambda>_.
     bindE (FileHandle_delete_file c s handle) (\<lambda>(_, handle, s).
     FileHandle_destroy c s handle)))"

definition extract_file :: "'m config \<Rightarrow> 'm fs \<Rightarrow> host \<Rightarrow> byte list \<Rightarrow> (bool \<times> 'm fs \<times> host) res" where
  "extract_file c s w file =
     bindE (open_file c s file mode_in) (\<lambda>(handle, s).
     if \<not> connected handle then Inr (False, s, w)
     else
       let n = file_len (fh_inode handle)
       in bindE (requireE Length_error (n < 2 ^ 63)) (\<lambda>_.
          bindE (FileHandle_read c s handle n) (\<lambda>(buffer, handle, s).
          let (done, w) = (if length buffer \<noteq> n \<or> \<not> host_opens w file then (False, w)
                           else if host_stores w file buffer then (True, put_file w file buffer)
                           else (False, put_file w file []))
          in bindE (FileHandle_destroy c s handle) (\<lambda>s. Inr (done, s, w)))))"

section \<open>The actions of the program\<close>

fun add_files :: "'m config \<Rightarrow> host \<Rightarrow> 'm fs \<Rightarrow> byte list list \<Rightarrow> 'm fs res" where
  "add_files c w s [] = Inr s"
| "add_files c w s (file # files) = bindE (add_file c w s file) (\<lambda>s. add_files c w s files)"

fun del_files :: "'m config \<Rightarrow> 'm fs \<Rightarrow> byte list list \<Rightarrow> 'm fs res" where
  "del_files c s [] = Inr s"
| "del_files c s (file # files) = bindE (del_file c s file) (\<lambda>s. del_files c s files)"

text \<open>
  The loop of \<open>extract\<close>, with \<open>v\<close> the names that were asked for: none asks for all of them. It runs over
  every valid inode page, also over old versions and deleted files, and looks each file up again by
  its name. A file that cannot be extracted ends the program.
\<close>

fun extract_loop :: "'m config \<Rightarrow> byte list list \<Rightarrow> 'm fs \<Rightarrow> host \<Rightarrow> nat \<Rightarrow> file_handle list \<Rightarrow> (nat \<times> 'm fs \<times> host) res" where
  "extract_loop c v s w count [] = Inr (count, s, w)"
| "extract_loop c v s w count (inode # inodes) =
     (let file = file_name (fh_inode inode)
      in if v \<noteq> [] \<and> file \<notin> set v then extract_loop c v s w count inodes
         else bindE (extract_file c s w file) (\<lambda>(done, s, w).
              if \<not> done then Inl Runtime_error else extract_loop c v s w (count + 1) inodes))"

text \<open>The result says whether the tool warns that not all files were found.\<close>

definition extract_files :: "'m config \<Rightarrow> byte list list \<Rightarrow> 'm fs \<Rightarrow> host \<Rightarrow> (bool \<times> 'm fs \<times> host) res" where
  "extract_files c v s w =
     bindE (get_all_inodes c s True) (\<lambda>(inodes, s).
     bindE (extract_loop c v s w 0 inodes) (\<lambda>(count, s, w).
     bindE (destroy_all c s inodes) (\<lambda>s.
     Inr (v \<noteq> [] \<and> count \<noteq> length (remdups v), s, w))))"

definition list_archive :: "'m config \<Rightarrow> 'm fs \<Rightarrow> (byte list \<times> 'm fs) res" where
  "list_archive c s =
     bindE (get_all_inodes c s True) (\<lambda>(inodes, s).
     bindE (destroy_all c s inodes) (\<lambda>s.
     Inr (concat (map (\<lambda>inode. file_name (fh_inode inode) @ newline) inodes), s)))"

section \<open>What the tool shows of a file system\<close>

text \<open>
  The tables of \<open>Tools::ColBuilder\<close> are lists of columns with a title; what prints numbers and tables is
  not part of the repository.
\<close>

type_synonym table = "(byte list \<times> byte list list) list"

record tar_env =
  te_x2s :: "nat \<Rightarrow> byte list"
  te_inode :: "nat \<Rightarrow> nat \<Rightarrow> byte list"
  te_comma :: "nat list \<Rightarrow> byte list"
  te_table :: "table \<Rightarrow> byte list"
  te_width :: "table \<Rightarrow> nat"
  te_help :: "byte list"
  te_what :: "error \<Rightarrow> byte list"

definition columns :: "string list \<Rightarrow> byte list list list \<Rightarrow> table" where
  "columns titles rows = map (\<lambda>(i, t). (bytes_of t, map (\<lambda>r. r ! i) rows)) (zip [0..<length titles] titles)"

definition endianness_text :: "endianness \<Rightarrow> byte list" where
  "endianness_text e = (case e of BE \<Rightarrow> ENDIANNESS_BE | LE \<Rightarrow> ENDIANNESS_LE)"

definition crc_text :: "crc_checksum \<Rightarrow> byte list" where
  "crc_text t = (case t of CRC32 \<Rightarrow> bytes_of ''CRC32'')"

definition header_table :: "tar_env \<Rightarrow> header \<Rightarrow> table" where
  "header_table E h = columns [''Bytes'', ''Len'', ''Title'', ''Data'', ''Unit'']
     (map (\<lambda>(b, n, t, d, u). [bytes_of b, te_x2s E n, bytes_of t, d, bytes_of u])
       [(''00 - 12'', MAGICK_STRING_LEN, ''Magic'', magic_string h, ''''),
        (''13 - 14'', ENDIANNESS_LEN, ''Endianess'', endianness_text (fs_endianness h), ''''),
        (''15 - 16'', 2, ''Version'', te_x2s E (version h), ''''),
        (''17 - 20'', 4, ''page size'', te_x2s E (page_size h), ''bytes''),
        (''21 - 28'', 8, ''filesystem size'', te_x2s E (filesystem_size h), ''pages''),
        (''29 - 32'', 4, ''max inodes'', te_x2s E (max_inodes h), ''''),
        (''33 - 34'', 2, ''max path len'', te_x2s E (max_path_len h), ''bytes''),
        (''35 - 36'', 2, ''crc checksum type'', crc_text (crc_checksum_type h), '''')])"

definition counts_table :: "tar_env \<Rightarrow> 'm fs \<Rightarrow> table" where
  "counts_table E s = columns [''Info'', ''Data'']
     [[bytes_of ''free data pages'', te_x2s E (get_number_of_free_data_pages s)],
      [bytes_of ''max inode number'', te_x2s E (max_inode_number s)]]"

definition is_special :: "nat \<Rightarrow> bool" where
  "is_special attrs = odd attrs"

definition inodes_table :: "tar_env \<Rightarrow> file_handle list \<Rightarrow> table" where
  "inodes_table E inodes = columns [''Inode'', ''Page'', ''Filename'', ''Attributes'', ''Size'', ''Data pages'']
     (map (\<lambda>f. let i = fh_inode f
               in [te_inode E (inode_number i) (inode_version_number i), te_x2s E (fh_page f), file_name i,
                   if is_special (attributes i) then bytes_of ''SPECIAL'' else [],
                   te_x2s E (file_len i), te_comma E (map page_id (data_pages i))]) inodes)"

definition info_fs :: "tar_env \<Rightarrow> 'm config \<Rightarrow> 'm fs \<Rightarrow> (byte list \<times> 'm fs) res" where
  "info_fs E c s =
     (let h = header_table E (header s)
      in bindE (get_all_inodes c s False) (\<lambda>(inodes, s).
         bindE (destroy_all c s inodes) (\<lambda>s.
         Inr (bytes_of ''Header:'' @ newline @ replicate (te_width E h) (of_char (CHR ''='')) @ newline
              @ te_table E h @ newline @ te_table E (counts_table E s) @ newline
              @ te_table E (inodes_table E inodes) @ newline, s))))"

section \<open>The program\<close>

text \<open>
  The options, as the parser for the command line, which is not part of the repository, leaves them:
  \<open>None\<close> when an option is not set, otherwise its values.
\<close>

record tar_options =
  o_parsed :: bool
  o_help :: bool
  o_tar_archive :: "byte list option"
  o_create :: "byte list list option"
  o_fs_info :: "byte list list option"
  o_fs_add :: "byte list list option"
  o_fs_del :: "byte list list option"
  o_tar_list :: bool
  o_tar_extract :: "byte list list option"

text \<open>\<open>values->at(0)\<close>, and the rest.\<close>

fun first_value :: "byte list list \<Rightarrow> (byte list \<times> byte list list) res" where
  "first_value [] = Inl Out_of_range"
| "first_value (x # xs) = Inr (x, xs)"

text \<open>Opening and mounting an archive; \<open>body\<close> is what is done with it, then it is closed.\<close>

definition with_archive ::
  "sim_flash config \<Rightarrow> host \<Rightarrow> byte list \<Rightarrow> (sim_flash fs \<Rightarrow> (byte list \<times> byte list \<times> sim_flash fs \<times> host) res) \<Rightarrow>
   (byte list \<times> byte list \<times> host) res" where
  "with_archive c w file body =
     (case host_files w file of
        None \<Rightarrow> Inl Runtime_error
      | Some bytes \<Rightarrow>
          bindE (dynamic_init c (SimpleFlashFsBase (SimFlash_open bytes))) (\<lambda>(done, s).
          bindE (requireE Runtime_error done) (\<lambda>_.
          bindE (body s) (\<lambda>(out, err, s, w). Inr (out, err, put_file w file (sf_bytes (mem s)))))))"

definition tar_create :: "sim_flash config \<Rightarrow> host \<Rightarrow> byte list \<Rightarrow> (byte list \<times> byte list \<times> host) res" where
  "tar_create c w file =
     (let sz = 100 * 1024; pgsize = 528;
          m = SimFlash_create (case host_files w file of None \<Rightarrow> [] | Some d \<Rightarrow> d) sz
      in bindE (dynamic_create c (SimpleFlashFsBase m) (create_default_header c pgsize (sz div pgsize))) (\<lambda>(done, s).
         bindE (requireE Runtime_error done) (\<lambda>_. Inr ([], [], put_file w file (sf_bytes (mem s))))))"

definition tar_info :: "tar_env \<Rightarrow> endianness \<Rightarrow> host \<Rightarrow> byte list \<Rightarrow> (byte list \<times> byte list \<times> host) res" where
  "tar_info E e w file =
     (let c = read_only_config e sim_ops
      in with_archive c w file (\<lambda>s. bindE (info_fs E c s) (\<lambda>(out, s). Inr (out, [], s, w))))"

definition tar_add :: "sim_flash config \<Rightarrow> host \<Rightarrow> byte list list \<Rightarrow> (byte list \<times> byte list \<times> host) res" where
  "tar_add c w opts =
     bindE (first_value opts) (\<lambda>(file, files).
     with_archive c w file (\<lambda>s. bindE (add_files c w s files) (\<lambda>s. Inr ([], [], s, w))))"

definition tar_del :: "sim_flash config \<Rightarrow> host \<Rightarrow> byte list list \<Rightarrow> (byte list \<times> byte list \<times> host) res" where
  "tar_del c w opts =
     bindE (first_value opts) (\<lambda>(file, files).
     with_archive c w file (\<lambda>s. bindE (del_files c s files) (\<lambda>s. Inr ([], [], s, w))))"

definition tar_list :: "sim_flash config \<Rightarrow> host \<Rightarrow> byte list option \<Rightarrow> (byte list \<times> byte list \<times> host) res" where
  "tar_list c w archive =
     (case archive of
        None \<Rightarrow> Inl Runtime_error
      | Some file \<Rightarrow> with_archive c w file (\<lambda>s. bindE (list_archive c s) (\<lambda>(out, s). Inr (out, [], s, w))))"

definition tar_extract :: "sim_flash config \<Rightarrow> host \<Rightarrow> byte list option \<Rightarrow> byte list list \<Rightarrow> (byte list \<times> byte list \<times> host) res" where
  "tar_extract c w archive v =
     (case archive of
        None \<Rightarrow> Inl Runtime_error
      | Some file \<Rightarrow>
          with_archive c w file (\<lambda>s.
          bindE (extract_files c v s w) (\<lambda>(warn, s, w).
          Inr ([], if warn then bytes_of ''warning: no all files found in archive'' @ newline else [], s, w))))"

text \<open>The actions in their order, each only when its option is set.\<close>

definition tar_actions :: "tar_env \<Rightarrow> endianness \<Rightarrow> tar_options \<Rightarrow> (host \<Rightarrow> (byte list \<times> byte list \<times> host) res) list" where
  "tar_actions E e opts =
     (let c = dynamic_config e sim_ops
      in (case o_create opts of None \<Rightarrow> [] | Some v \<Rightarrow> [\<lambda>w. bindE (first_value v) (\<lambda>(file, _). tar_create c w file)])
       @ (case o_fs_info opts of None \<Rightarrow> [] | Some v \<Rightarrow> [\<lambda>w. bindE (first_value v) (\<lambda>(file, _). tar_info E e w file)])
       @ (case o_fs_add opts of None \<Rightarrow> [] | Some v \<Rightarrow> [\<lambda>w. tar_add c w v])
       @ (case o_fs_del opts of None \<Rightarrow> [] | Some v \<Rightarrow> [\<lambda>w. tar_del c w v])
       @ (if o_tar_list opts then [\<lambda>w. tar_list c w (o_tar_archive opts)] else [])
       @ (case o_tar_extract opts of None \<Rightarrow> [] | Some v \<Rightarrow> [\<lambda>w. tar_extract c w (o_tar_archive opts) v]))"

text \<open>
  An exception ends the program with the result 1. What the host looks like then (and what the action
  had printed before it) is not followed: the host is \<open>None\<close>.
\<close>

fun run_actions :: "tar_env \<Rightarrow> (host \<Rightarrow> (byte list \<times> byte list \<times> host) res) list \<Rightarrow> host \<Rightarrow>
    (nat \<times> byte list \<times> byte list \<times> host option) res" where
  "run_actions E [] w = Inr (0, [], [], Some w)"
| "run_actions E (a # as) w =
     (case a w of
        Inl e \<Rightarrow> if is_exception e then Inr (1, [], bytes_of ''Error: '' @ te_what E e @ newline, None) else Inl e
      | Inr (out, err, w) \<Rightarrow> bindE (run_actions E as w) (\<lambda>(r, out', err', w). Inr (r, out @ out', err @ err', w)))"

definition tar_main :: "tar_env \<Rightarrow> endianness \<Rightarrow> tar_options \<Rightarrow> host \<Rightarrow> (nat \<times> byte list \<times> byte list \<times> host option) res" where
  "tar_main E e opts w =
     (if \<not> o_parsed opts \<or> o_help opts then Inr (1, te_help E @ newline, [], Some w)
      else run_actions E (tar_actions E e opts) w)"

end
