(* ===== verification/ArchiveSpec.thy ===== *)
theory ArchiveSpec
  imports Archive ReplaceSpec
begin

text \<open>
  How the archive tool adds a file: a new one, or in place of one of the same name.
\<close>

section \<open>An archive that is mounted\<close>

text \<open>
  A file system on a file of the host, as it is between two actions: every inode page that is valid can
  be parsed, the next file gets a number of its own, the free pages are data pages.
\<close>

definition archive_ok :: "sim_flash config \<Rightarrow> sim_flash fs \<Rightarrow> bool" where
  "archive_ok c s \<longleftrightarrow> mounted sim_ok sf_bytes s \<and> clean_inodes c sf_bytes s
     \<and> (\<forall>i < max_inodes (header s). \<forall>h. stored_inode c sf_bytes s i = Some h \<longrightarrow>
          inode_number (fh_inode h) \<le> max_inode_number s)
     \<and> (\<forall>p \<in> elems (free_data_pages s). max_inodes (header s) \<le> p \<and> Suc p < filesystem_size (header s))"

text \<open>There is room for one more file, of this name and length.\<close>

definition room_for :: "sim_flash config \<Rightarrow> sim_flash fs \<Rightarrow> byte list \<Rightarrow> nat \<Rightarrow> bool" where
  "room_for c s name n \<longleftrightarrow> max_inode_number s < 2 ^ 64 - 1
     \<and> (\<exists>i. inode_page_free c (header s) (sf_bytes (mem s)) (elems (allocated_unwritten_pages s)) i)
     \<and> length name \<le> max_path_len (header s) \<and> length name < 2 ^ 16 \<and> 42 + length name \<le> page_size (header s) \<and> n < 2 ^ 32
     \<and> (0 < page_size (header s) - (42 + length name) \<and> n < page_size (header s) - (42 + length name)
        \<or> n div page_size (header s) + 2 \<le> card (elems (free_data_pages s))
          \<and> n div page_size (header s) + 2 < (page_size (header s) - (42 + length name)) div 4)"

lemma same_inode_pages:
  assumes "header t = header s" "\<forall>j < max_inodes (header s).
      page_at (page_size (header s)) j (cells (mem t)) = page_at (page_size (header s)) j (cells (mem s))"
  shows "j < max_inodes (header s) \<Longrightarrow> stored_inode c cells t j = stored_inode c cells s j"
    "clean_inodes c cells t = clean_inodes c cells s"
  using assms get_inode_cong [OF assms(1), of c] by (simp_all add: stored_inode_def clean_inodes_def Let_def)

text \<open>The handle of a new file, before it is written.\<close>

definition fresh_handle :: "byte list \<Rightarrow> nat \<Rightarrow> file_handle" where
  "fresh_handle name p = new_handle\<lparr>fh_page := p, modified := True,
     fh_inode := default_inode\<lparr>file_name := name, file_name_len := length name mod 2 ^ 16\<rparr>\<rparr>"

lemma fresh_handle_simps [simp]:
  "fh_page (fresh_handle name p) = p" "connected (fresh_handle name p)" "\<not> append_mode (fresh_handle name p)"
  "fh_pos (fresh_handle name p) = 0" "data_pages (fh_inode (fresh_handle name p)) = []"
  "inode_data (fh_inode (fresh_handle name p)) = []" "file_len (fh_inode (fresh_handle name p)) = 0"
  "file_name (fh_inode (fresh_handle name p)) = name" "inode_number (fh_inode (fresh_handle name p)) = 0"
  "inode_version_number (fh_inode (fresh_handle name p)) = 0" "attributes (fh_inode (fresh_handle name p)) = 0"
  "file_name_len (fh_inode (fresh_handle name p)) = length name mod 2 ^ 16"
  "contents cells s (fresh_handle name p) = []"
  by (simp_all add: fresh_handle_def new_handle_def empty_handle_def default_inode_def contents_def)

lemma modes [simp]:
  "handle_append_mode mode_replace f = f" "handle_append_mode mode_in f = f"
  "mode_out mode_replace" "mode_trunc mode_replace" "\<not> mode_trunc mode_in"
  by (simp_all add: handle_append_mode_def mode_replace_def mode_in_def)

lemma opens_new:
  assumes "c = sim_config P crc e keep" "archive_ok c s" "unused_name c sf_bytes s name" "room_for c s name n"
  shows "\<exists>p s'. open_file c s name mode_replace = Inr (fresh_handle name p, s')
    \<and> looked c sim_ok sf_bytes (\<lambda>_ _. True) s s' \<and> Suc p < max_inodes (header s)"
proof -
  have m: "mounted sim_ok sf_bytes s" "clean_inodes c sf_bytes s" using assms(2) by (simp_all add: archive_ok_def)
  have nf: "\<not> connected (newest_named c sf_bytes s name)" by (rule unused_not_found [OF assms(3)])
  from fs_sim.open_ok [OF m(1) m(2) [unfolded assms(1)] refl, of name mode_replace, folded assms(1)] nf assms(4)
  obtain g s' where g: "open_file c s name mode_replace = Inr (g, s')" "looked c sim_ok sf_bytes (\<lambda>_ _. True) s s'" "connected g"
      "\<exists>p. Suc p < max_inodes (header s) \<and> g = fresh_handle name p"
    unfolding room_for_def by (auto simp: fresh_handle_def)
  then show ?thesis by blast
qed

text \<open>A handle without contents, as \<open>open\<close> gives one for a new or a truncated file.\<close>

definition vacant :: "byte list \<Rightarrow> nat \<Rightarrow> file_handle \<Rightarrow> bool" where
  "vacant name p f \<longleftrightarrow> fh_page f = p \<and> connected f \<and> \<not> append_mode f \<and> fh_pos f = 0
     \<and> data_pages (fh_inode f) = [] \<and> inode_data (fh_inode f) = [] \<and> file_len (fh_inode f) = 0
     \<and> file_name (fh_inode f) = name \<and> inode_wf (fh_inode f)"

lemma vacant_fresh: "length name < 2 ^ 16 \<Longrightarrow> vacant name p (fresh_handle name p)"
  by (simp add: vacant_def inode_wf_def)

lemma vacant_truncated: "inode_wf (fh_inode f) \<Longrightarrow> vacant (file_name (fh_inode f)) q (truncated f q)"
  by (simp add: vacant_def inode_wf_def truncated_def new_handle_def empty_handle_def)

lemma vacant_file_ok:
  assumes "archive_ok c s" "42 + length name \<le> page_size (header s)" "vacant name p f"
  shows "file_ok sim_ok sf_bytes (\<lambda>_ _. True) s f"
  using assms by (auto simp: archive_ok_def mounted_def vacant_def inode_wf_def file_ok_def io_ok_def valid_pages_def pages_ok_def page_writable_def)

lemma vacant_can_write:
  assumes "archive_ok c s" "room_for c s name n" "vacant name p f"
  shows "can_write s f n"
proof -
  have g: "geometry (header s) (length (sf_bytes (mem s)))" using assms(1) by (simp add: archive_ok_def mounted_def)
  have nm: "42 + length name \<le> page_size (header s)" "n < 2 ^ 32" using assms(2) by (simp_all add: room_for_def)
  have v: "connected f" "\<not> append_mode f" "fh_pos f = 0" "data_pages (fh_inode f) = []" "inode_data (fh_inode f) = []"
    "file_len (fh_inode f) = 0" "file_name_len (fh_inode f) = length name"
    using assms(3) by (auto simp: vacant_def inode_wf_def)
  have sp: "get_inode_data_space_size s (fh_inode f) = page_size (header s) - (42 + length name)"
    using inode_space [of "fh_inode f" s] nm(1) geometryD(4) [OF g] unfolding v(7) by simp
  have "fits_inode s f n \<longleftrightarrow> n < page_size (header s) - (42 + length name) \<and> 0 < page_size (header s) - (42 + length name)"
    using nm(2) v unfolding fits_inode_def sp by (simp add: add64_def)
  moreover have "room s f k \<longleftrightarrow> k = 0 \<or> k \<le> card (elems (free_data_pages s))
      \<and> k < (page_size (header s) - (42 + length name)) div 4" for k
    by (simp add: room_def get_max_inode_data_pages_def sp v)
  moreover have "f\<lparr>fh_pos := write_pos f\<rparr> = f" using v(2,3) by (simp add: write_pos_def)
  ultimately show ?thesis
    using assms(2) nm(2) v(1,5) unfolding can_write_def Let_def room_for_def by auto
qed

text \<open>Writing such a handle: what the next flush starts from.\<close>

lemma written_vacant:
  assumes ar: "archive_ok c s" and v: "vacant name p f"
    and w: "written sim_ok sf_bytes (\<lambda>_ _. True) s f d s' f'" "fits_page (header s) (fh_inode f')" "length d < 2 ^ 32"
  shows "file_ok sim_ok sf_bytes (\<lambda>_ _. True) s' f'" "archive_ok c s'" "inode_wf (fh_inode f')" "same_fs s s'" "header s' = header s"
    "file_name (fh_inode f') = name" "fh_page f' = p" "file_len (fh_inode f') = length d" "contents sf_bytes s' f' = d"
    "modified f'" "connected f'" "inode_number (fh_inode f') = inode_number (fh_inode f)"
    "inode_version_number (fh_inode f') = inode_version_number (fh_inode f)"
    "\<And>j. j < max_inodes (header s) \<Longrightarrow> page_at (page_size (header s)) j (sf_bytes (mem s')) = page_at (page_size (header s)) j (sf_bytes (mem s))"
    "\<And>j. j < max_inodes (header s) \<Longrightarrow> stored_inode c sf_bytes s' j = stored_inode c sf_bytes s j"
proof -
  have a: "mounted sim_ok sf_bytes s" "clean_inodes c sf_bytes s"
    "\<forall>i < max_inodes (header s). \<forall>h. stored_inode c sf_bytes s i = Some h \<longrightarrow> inode_number (fh_inode h) \<le> max_inode_number s"
    "\<forall>p \<in> elems (free_data_pages s). max_inodes (header s) \<le> p \<and> Suc p < filesystem_size (header s)"
    using ar by (simp_all add: archive_ok_def)
  have f: "fh_pos f = 0" "data_pages (fh_inode f) = []" "file_len (fh_inode f) = 0" "inode_data (fh_inode f) = []"
    "contents sf_bytes s f = []" "connected f" "inode_wf (fh_inode f)" "fh_page f = p" "file_name (fh_inode f) = name"
    using v by (simp_all add: vacant_def contents_def)
  show fo: "file_ok sim_ok sf_bytes (\<lambda>_ _. True) s' f'" using w(1) by (simp add: written_def)
  then have io: "io_ok sim_ok sf_bytes (\<lambda>_ _. True) s' f'" by (simp add: file_ok_def)
  have k: "same_fs s s'" "\<forall>r. Suc r < filesystem_size (header s) \<and> r \<notin> elems (free_data_pages s) \<longrightarrow>
      page_at (page_size (header s)) r (sf_bytes (mem s')) = page_at (page_size (header s)) r (sf_bytes (mem s))"
    using w(1) f(2) by (simp_all add: written_def old_pages_kept_def new_ids_def)
  show "same_fs s s'" by (rule k(1))
  have sm: "same_meta f f'" using w(1) by (simp add: written_def)
  then have ino: "(fh_inode f')\<lparr>data_pages := [], file_len := 0, inode_data := []\<rparr>
      = (fh_inode f)\<lparr>data_pages := [], file_len := 0, inode_data := []\<rparr>" by (simp add: same_meta_def)
  have meta: "inode_number (fh_inode f') = inode_number (fh_inode f)"
    "inode_version_number (fh_inode f') = inode_version_number (fh_inode f)" "attributes (fh_inode f') = attributes (fh_inode f)"
    "file_name (fh_inode f') = file_name (fh_inode f)" "file_name_len (fh_inode f') = file_name_len (fh_inode f)"
    using arg_cong [OF ino, of inode_number] arg_cong [OF ino, of inode_version_number] arg_cong [OF ino, of attributes]
      arg_cong [OF ino, of file_name] arg_cong [OF ino, of file_name_len] by simp_all
  show hd: "header s' = header s" using k(1) by (simp add: same_fs_def)
  have mx: "max_inode_number s' = max_inode_number s" using k(1) by (simp add: same_fs_def)
  show "inode_number (fh_inode f') = inode_number (fh_inode f)"
    "inode_version_number (fh_inode f') = inode_version_number (fh_inode f)" by (rule meta)+
  show "file_name (fh_inode f') = name" using meta(4) f(9) by simp
  show "fh_page f' = p" "connected f'" using sm f(6,8) by (simp_all add: same_meta_def)
  show len: "file_len (fh_inode f') = length d" using w(1) f(1,3) by (simp add: written_def)
  show "contents sf_bytes s' f' = d" using w(1) f(1,5) by (simp add: written_def overlay_def)
  show "modified f'" using w(1) by (simp add: written_def)
  have geo: "max_inodes (header s) < filesystem_size (header s)" "filesystem_size (header s) < 2 ^ 32" "page_size (header s) < 2 ^ 32"
  proof -
    have g: "geometry (header s) (length (sf_bytes (mem s)))" using a(1) by (simp add: mounted_def)
    show "max_inodes (header s) < filesystem_size (header s)" "filesystem_size (header s) < 2 ^ 32" "page_size (header s) < 2 ^ 32"
      using geometryD(4,6,7) [OF g] by simp_all
  qed
  show same: "page_at (page_size (header s)) j (sf_bytes (mem s')) = page_at (page_size (header s)) j (sf_bytes (mem s))"
    if "j < max_inodes (header s)" for j
  proof -
    have "j \<notin> elems (free_data_pages s)" "Suc j < filesystem_size (header s)" using a(4) geo(1) that by (fastforce, linarith)
    then show ?thesis using k(2) by blast
  qed
  note si = same_inode_pages [where c = c and cells = sf_bytes, OF hd]
  show st: "stored_inode c sf_bytes s' j = stored_inode c sf_bytes s j" if "j < max_inodes (header s)" for j
    using si(1) same that by blast
  have cl: "clean_inodes c sf_bytes s'" using si(2) same a(2) by blast
  have mnt: "mounted sim_ok sf_bytes s'"
    using a(1) k(1) io_okD(1-3) [OF io] by (simp add: mounted_def same_fs_def)
  show "archive_ok c s'" using mnt cl a(3) st io_okD(6) [OF io] by (simp add: archive_ok_def hd mx)
  have "\<forall>q \<in> set (data_pages (fh_inode f')). page_id q < 2 ^ 32"
    using io_okD(8) [OF io] geo(2) hd by fastforce
  moreover have "inode_size (fh_inode f') + 4 \<le> page_size (header s)" using w(2) by (simp add: fits_page_def)
  then have "length (data_pages (fh_inode f')) < 2 ^ 32" using geo(3) by (simp add: inode_size_def)
  ultimately show "inode_wf (fh_inode f')" using meta f(7) w(3) by (simp add: inode_wf_def len)
qed

text \<open>Opening, writing and closing: what an action leaves of an archive in which \<open>v\<close> is the file of the name.\<close>

definition holds_file_named :: "sim_flash config \<Rightarrow> sim_flash fs \<Rightarrow> byte list \<Rightarrow> byte list \<Rightarrow> file_handle \<Rightarrow> bool" where
  "holds_file_named c s name d v \<longleftrightarrow> archive_ok c s \<and> newest_named c sf_bytes s name = v \<and> connected v \<and> \<not> modified v
     \<and> fh_pos v = 0 \<and> file_len (fh_inode v) = length d \<and> file_ok sim_ok sf_bytes (\<lambda>_ _. True) s v \<and> contents sf_bytes s v = d"

lemma holds_looked:
  assumes "holds_file_named c s name d v" "looked c sim_ok sf_bytes (\<lambda>_ _. True) s s'"
  shows "holds_file_named c s' name d v"
proof -
  note L = lookedD [OF assms(2)]
  have m: "mounted sim_ok sf_bytes s" using assms(1) by (simp add: holds_file_named_def archive_ok_def)
  have "archive_ok c s'" using assms(1) L(1) unfolding holds_file_named_def archive_ok_def L(2,5-9) by simp
  then show ?thesis using assms(1) looked_file(1,2) [OF assms(2) m] L(8) by (simp add: holds_file_named_def)
qed

text \<open>Adding a file that the archive does not have.\<close>

lemma writes_vacant:
  assumes c: "c = sim_config P crc e keep" and ar: "archive_ok c s" and l0: "looked c sim_ok sf_bytes (\<lambda>_ _. True) s s0"
    and v: "vacant name p g" and rm: "room_for c s name (length d)"
  shows "\<exists>f1 s1. FileHandle_write c s0 g d = Inr (length d, f1, s1) \<and> written sim_ok sf_bytes (\<lambda>_ _. True) s0 g d s1 f1
    \<and> (\<forall>q \<in> set (data_pages (fh_inode f1)). dp_state q \<noteq> Deleted) \<and> fits_page (header s0) (fh_inode f1) \<and> archive_ok c s0"
proof -
  note L0 = lookedD [OF l0]
  have ar0: "archive_ok c s0" using ar L0(1) unfolding archive_ok_def L0(2,5-9) by simp
  have "42 + length name \<le> page_size (header s)" using rm by (simp add: room_for_def)
  then have f: "file_ok sim_ok sf_bytes (\<lambda>_ _. True) s g" "can_write s g (length d)"
    using vacant_file_ok [OF ar _ v] vacant_can_write [OF ar rm v] by simp_all
  have f0: "file_ok sim_ok sf_bytes (\<lambda>_ _. True) s0 g"
    using looked_file(1) [OF l0] ar f(1) by (simp add: archive_ok_def)
  have cw: "can_write s0 g (length d)"
    using f(2) by (simp add: can_write_def fits_inode_def room_def get_max_inode_data_pages_def get_inode_data_space_size_def
        get_checksum_size_def L0(2,5) Let_def write_pos_def)
  have vd: "data_pages (fh_inode g) = []" "inode_data (fh_inode g) = []" "fh_pos g = 0" "file_len (fh_inode g) = 0" "\<not> append_mode g"
    using v by (simp_all add: vacant_def)
  from fs_sim.fresh_write [OF f0 vd cw, of P crc e keep, folded c] ar0 show ?thesis by blast
qed

lemma adds_new_file:
  assumes c: "c = sim_config P crc e keep" and ar: "archive_ok c s" and un: "unused_name c sf_bytes s name" "name \<noteq> []"
    and rm: "room_for c s name (length d)" and d: "host_files w name = Some d" "d \<noteq> []"
  shows "\<exists>s1 v. add_file c w s name = Inr s1 \<and> holds_file_named c s1 name d v \<and> header s1 = header s
    \<and> (\<forall>j < max_inodes (header s). j \<noteq> fh_page v \<longrightarrow> stored_inode c sf_bytes s1 j = stored_inode c sf_bytes s j)"
proof -
  from opens_new [OF c ar un(1) rm] obtain p s0 where
    s0: "open_file c s name mode_replace = Inr (fresh_handle name p, s0)" "looked c sim_ok sf_bytes (\<lambda>_ _. True) s s0"
      "Suc p < max_inodes (header s)" by blast
  note L0 = lookedD [OF s0(2)]
  have nm: "length name < 2 ^ 16" "max_inode_number s < 2 ^ 64 - 1" "length d < 2 ^ 32" using rm by (simp_all add: room_for_def)
  note vc = vacant_fresh [OF nm(1), of p]
  from writes_vacant [OF c ar s0(2) vc rm] obtain f1 s1 where
    w: "FileHandle_write c s0 (fresh_handle name p) d = Inr (length d, f1, s1)"
      "written sim_ok sf_bytes (\<lambda>_ _. True) s0 (fresh_handle name p) d s1 f1"
      "\<forall>q \<in> set (data_pages (fh_inode f1)). dp_state q \<noteq> Deleted" "fits_page (header s0) (fh_inode f1)" "archive_ok c s0" by blast
  note R = written_vacant [OF w(5) vc w(2,4) nm(3)]
  have mx: "max_inode_number s1 = max_inode_number s" using R(4) L0(6) by (simp add: same_fs_def)
  have hd1: "header s1 = header s" using R(5) L0(2) by simp
  have "new_ready c sim_ok sf_bytes (\<lambda>_ _. True) s1 f1"
    using R(1-3,7,10-12) w(4) s0(3) nm(2) mx hd1 L0(2) unfolding new_ready_def archive_ok_def by (simp add: page_writable_def)
  from fs_sim.new_stored [OF this [unfolded c], folded c] obtain s2 where
    s2: "flush c s1 f1 = Inr (True, settle (first_version (Suc (max_inode_number s1)) f1), s2)" "mounted sim_ok sf_bytes s2"
      "header s2 = header s1" "clean_inodes c sf_bytes s2" "max_inode_number s2 = Suc (max_inode_number s1)"
      "free_data_pages s2 = free_data_pages s1"
      "stored_inode c sf_bytes s2 (fh_page f1) = Some (stored_first (header s1) f1 (Suc (max_inode_number s1)))"
      "\<forall>j < max_inodes (header s1). j \<noteq> fh_page f1 \<longrightarrow> stored_inode c sf_bytes s2 j = stored_inode c sf_bytes s1 j"
      "\<forall>q \<in> set (data_pages (fh_inode f1)).
        page_at (page_size (header s1)) (page_id q) (sf_bytes (mem s2)) = new_contents (page_size (header s1)) (sf_bytes (mem s1)) q"
    by blast
  let ?n = "Suc (max_inode_number s1)" and ?v = "(stored_first (header s1) f1 (Suc (max_inode_number s1)))\<lparr>fh_page := p\<rparr>"
  have hd: "header s1 = header s" "header s2 = header s" using hd1 s2(3) by simp_all
  have ds: "FileHandle_destroy c s1 f1 = FileHandle_destroy c s2 (settle (first_version ?n f1))"
    by (rule destroy_flushes [OF s2(1)]) (simp_all add: R(11))
  from fs_sim.destroy_looks [OF s2(2), of "settle (first_version ?n f1)" P crc e keep, folded c] obtain s3 where
    s3: "FileHandle_destroy c s1 f1 = Inr s3" "looked c sim_ok sf_bytes (\<lambda>_ _. True) s2 s3" unfolding ds by auto
  note L3 = lookedD [OF s3(2)]
  have st: "stored_inode c sf_bytes s2 p = Some (stored_first (header s1) f1 ?n)" using s2(7) by (simp add: R(7))
  have oth: "stored_inode c sf_bytes s2 j = stored_inode c sf_bytes s j" if "j < max_inodes (header s)" "j \<noteq> p" for j
    using s2(8) R(7,15) L0(2,7) that hd by simp
  have le: "inode_number (fh_inode h) \<le> max_inode_number s" if "i < max_inodes (header s)" "stored_inode c sf_bytes s i = Some h" for i h
    using ar that by (auto simp: archive_ok_def)
  have nw: "newest_named c sf_bytes s2 name = ?v"
  proof (rule newest_after_creation [OF hd(2) _ st _ _ un(1)])
    show "names_file name (stored_first (header s1) f1 ?n)" using R(6) un(2) by (simp add: names_file_def)
    show "\<forall>j < max_inodes (header s). j \<noteq> p \<longrightarrow> stored_inode c sf_bytes s2 j = stored_inode c sf_bytes s j" using oth by blast
    show "\<forall>j < max_inodes (header s). \<forall>h. stored_inode c sf_bytes s j = Some h \<longrightarrow>
        inode_number (fh_inode h) < inode_number (fh_inode (stored_first (header s1) f1 ?n))" using le mx by fastforce
  qed (use s0(3) in simp)
  have ct: "contents sf_bytes s2 ?v = d" using first_contents [OF R(1) s2(3) w(3) s2(9)] R(9) by simp
  have nl: "file_name_len (fh_inode f1) = length (file_name (fh_inode f1))" using R(3) by (simp add: inode_wf_def)
  have vo: "file_ok sim_ok sf_bytes (\<lambda>_ _. True) s2 ?v"
    by (rule first_file_ok [OF R(1) s2(2,3) arg_cong [OF s2(6)] _ w(3) nl]) (simp add: page_writable_def)
  have "\<forall>i < max_inodes (header s). \<forall>h. stored_inode c sf_bytes s2 i = Some h \<longrightarrow> inode_number (fh_inode h) \<le> max_inode_number s2"
  proof (intro allI impI)
    fix i h assume i: "i < max_inodes (header s)" "stored_inode c sf_bytes s2 i = Some h"
    show "inode_number (fh_inode h) \<le> max_inode_number s2"
      using i oth [of i] le [of i h] st mx s2(5) by (cases "i = p") auto
  qed
  then have "archive_ok c s2" using s2(2,4,6) R(2) hd by (simp add: archive_ok_def)
  then have "holds_file_named c s2 name d ?v"
    using nw ct vo R(8) by (simp add: holds_file_named_def)
      (simp add: stored_first_def new_handle_def empty_handle_def)
  from holds_looked [OF this s3(2)] have "holds_file_named c s3 name d ?v" .
  moreover have "add_file c w s name = Inr s3"
    using s0(1) w(1) s3(1) d by (simp add: add_file_def read_file_def)
  moreover have "\<forall>j < max_inodes (header s). j \<noteq> fh_page ?v \<longrightarrow> stored_inode c sf_bytes s3 j = stored_inode c sf_bytes s j"
    using oth unfolding L3(7) by simp
  ultimately show ?thesis using L3(2) hd(2) by (intro exI [of _ s3] exI [of _ ?v]) simp
qed

text \<open>
  Adding a file under a name the archive has: the handle gets an inode page of its own, the new version a
  second one. The old version stays on the flash until the archive is mounted again, as an older
  version of the same inode.
\<close>

definition replaceable :: "sim_flash config \<Rightarrow> sim_flash fs \<Rightarrow> file_handle \<Rightarrow> bool" where
  "replaceable c s f \<longleftrightarrow> newest_of_name c sf_bytes s f \<and> inode_number (fh_inode f) \<noteq> 0
     \<and> inode_version_number (fh_inode f) < 2 ^ 64 - 1
     \<and> (\<forall>p \<in> set (data_pages (fh_inode f)). max_inodes (header s) \<le> page_id p)
     \<and> (\<exists>i j. i \<noteq> j \<and> inode_page_free c (header s) (sf_bytes (mem s)) (elems (allocated_unwritten_pages s)) i
          \<and> inode_page_free c (header s) (sf_bytes (mem s)) (elems (allocated_unwritten_pages s)) j)
     \<and> (keeps_old_pages c \<or> erased_invalid c (header s))"

lemma newest_named_inode:
  assumes "f = newest_named c cells s name" "connected f"
  shows "\<exists>i < max_inodes (header s). \<exists>g. stored_inode c cells s i = Some g \<and> fh_inode f = fh_inode g \<and> fh_page f = i"
    "inode_wf (fh_inode f)" "file_name (fh_inode f) = name" "name \<noteq> []"
proof -
  from found_newest(1) [OF assms(1) refl assms(2)] obtain i g where
    g: "i < max_inodes (header s)" "stored_inode c cells s i = Some g" "f = g\<lparr>fh_page := i\<rparr>" "names_file name g" by auto
  then show "\<exists>i < max_inodes (header s). \<exists>g. stored_inode c cells s i = Some g \<and> fh_inode f = fh_inode g \<and> fh_page f = i" by auto
  from g(2) have "get_inode c s (page_at (page_size (header s)) i (cells (mem s))) False = Inr g"
    by (auto simp: stored_inode_def Let_def split: if_splits sum.splits)
  then show "inode_wf (fh_inode f)" using get_inode_wf g(3) by simp
  show "file_name (fh_inode f) = name" "name \<noteq> []" using g(3,4) by (auto simp: names_file_def)
qed

text \<open>The next version of a file, from a handle whose page is claimed but not written.\<close>

lemma settles_version:
  assumes c: "c = sim_config P crc e keep" and ar: "archive_ok c s" and ok: "file_ok sim_ok sf_bytes (\<lambda>_ _. True) s f"
    and nd: "\<forall>q \<in> set (data_pages (fh_inode f)). dp_state q \<noteq> Deleted"
    and f: "modified f" "inode_number (fh_inode f) \<noteq> 0" "inode_wf (fh_inode f)" "fits_page (header s) (fh_inode f)"
      "Suc (fh_page f) < max_inodes (header s)" "inode_number (fh_inode f) \<le> max_inode_number s"
    and cl: "fh_page f \<in> elems (allocated_unwritten_pages s)" "stored_inode c sf_bytes s (fh_page f) = None"
    and fr: "inode_page_free c (header s) (sf_bytes (mem s)) (elems (allocated_unwritten_pages s)) i"
    and er: "keeps_old_pages c \<or> erased_invalid c (header s)"
  shows "\<exists>p s'. flush c s f = Inr (True, settle (next_version f p), s') \<and> archive_ok c s' \<and> header s' = header s
    \<and> p < max_inodes (header s) \<and> stored_inode c sf_bytes s p = None
    \<and> stored_inode c sf_bytes s' p = Some (stored_version (header s) f p)
    \<and> (\<forall>j < max_inodes (header s). j \<noteq> p \<longrightarrow> stored_inode c sf_bytes s' j = stored_inode c sf_bytes s j)
    \<and> elems (free_data_pages s') = elems (free_data_pages s)
    \<and> (\<forall>q \<in> set (data_pages (fh_inode (next_version f p))).
        page_at (page_size (header s)) (page_id q) (sf_bytes (mem s')) = new_contents (page_size (header s)) (sf_bytes (mem s)) q)"
proof -
  have io: "io_ok sim_ok sf_bytes (\<lambda>_ _. True) s f" using ok by (simp add: file_ok_def)
  have m: "mounted sim_ok sf_bytes s" "clean_inodes c sf_bytes s" using ar by (simp_all add: archive_ok_def)
  have le: "inode_number (fh_inode g) \<le> max_inode_number s" if "k < max_inodes (header s)" "stored_inode c sf_bytes s k = Some g" for k g
    using ar that by (auto simp: archive_ok_def)
  obtain p where p: "first_free_inode_page c (header s) (sf_bytes (mem s)) (elems (allocated_unwritten_pages s)) 0 = Some p"
  proof (cases "first_free_inode_page c (header s) (sf_bytes (mem s)) (elems (allocated_unwritten_pages s)) 0")
    case None
    then show ?thesis using fr by (auto simp: first_free_inode_page_def find_None_iff inode_page_free_def)
  qed (rule that)
  note pok = io_okD(4) [OF io]
  note wf = whole_flushable(1) [OF nd f(1-4) pok f(5)]
    whole_flushable(2) [OF nd f(1-4) pok f(5), of p] whole_flushable(3) [OF nd f(1-4) pok f(5), of p]
  have wr: "page_writable (\<lambda>_ _. True) (page_size (header s)) x (mem s)" for x by (simp add: page_writable_def)
  note valid = disjI2 [OF cl(1), of "checksum_ok c (fs_endianness (header s)) (page_at (page_size (header s)) (fh_page f) (sf_bytes (mem s)))"]
  from fs_sim.flush_stored [OF m(1) wf(1) p [unfolded c] valid [unfolded c] wr _ wf(2) er [unfolded c], folded c] wr m(2) obtain s' where
    s': "flush c s f = Inr (True, settle (next_version f p), s')" "mounted sim_ok sf_bytes s'" "header s' = header s"
      "p < max_inodes (header s)" "stored_inode c sf_bytes s' p = Some (stored_version (header s) f p)"
      "\<forall>j < max_inodes (header s). j \<noteq> p \<longrightarrow> stored_inode c sf_bytes s' j =
          (if j = fh_page f \<and> \<not> keeps_old_pages c then None else stored_inode c sf_bytes s j)"
      "clean_inodes c sf_bytes s'"
      "\<forall>q \<in> set (data_pages (fh_inode (next_version f p))).
        page_at (page_size (header s)) (page_id q) (sf_bytes (mem s')) = new_contents (page_size (header s)) (sf_bytes (mem s)) q"
    by blast
  from fs_sim.flush_mounted [OF m(1) wf(1) p [unfolded c] valid [unfolded c] wr, folded c] wr s'(1) have
    fm: "max_inode_number s' = max_inode_number s" "keeps_old_pages c \<longrightarrow> free_data_pages s' = free_data_pages s"
      "\<not> keeps_old_pages c \<longrightarrow> elems (free_data_pages s') = elems (free_data_pages s)
          \<union> {x \<in> obsolete f (next_version f p). max_inodes (header s) < x}" by auto
  have fe: "elems (free_data_pages s') = elems (free_data_pages s)"
  proof (cases "keeps_old_pages c")
    case False
    have "{x \<in> obsolete f (next_version f p). max_inodes (header s) < x} = {}" using f(5) by (auto simp: wf(3))
    then show ?thesis using fm(3) False by blast
  qed (use fm(2) in simp)
  have oth: "stored_inode c sf_bytes s' k = stored_inode c sf_bytes s k" if "k < max_inodes (header s)" "k \<noteq> p" for k
    using s'(6) that cl(2) by auto
  have "inode_number (fh_inode h) \<le> max_inode_number s'" if "k < max_inodes (header s)" "stored_inode c sf_bytes s' k = Some h" for k h
    using that oth [of k] le [of k h] s'(5) fm(1) f(6) by (cases "k = p") auto
  then have "archive_ok c s'" using ar s'(2,3,7) fe by (simp add: archive_ok_def)
  moreover have "stored_inode c sf_bytes s p = None"
    using first_free_Some [OF p] by (simp add: stored_inode_def inode_page_free_def)
  ultimately show ?thesis using s' oth fe by blast
qed

text \<open>Opening an existing file to replace it.\<close>

lemma opens_replaceable:
  assumes c: "c = sim_config P crc e keep" and ar: "archive_ok c s" and f: "f = newest_named c sf_bytes s name" "connected f"
    and rp: "replaceable c s f"
  shows "\<exists>q s0 i. open_file c s name mode_replace = Inr (truncated f q, s0) \<and> looked c sim_ok sf_bytes (\<lambda>_ _. True) s s0
    \<and> archive_ok c s0 \<and> Suc q < max_inodes (header s) \<and> stored_inode c sf_bytes s q = None \<and> vacant name q (truncated f q)
    \<and> q \<in> elems (allocated_unwritten_pages s0)
    \<and> inode_page_free c (header s) (sf_bytes (mem s)) (elems (allocated_unwritten_pages s0)) i"
proof -
  let ?free = "inode_page_free c (header s) (sf_bytes (mem s))"
  note fi = newest_named_inode [OF f]
  have m: "mounted sim_ok sf_bytes s" "clean_inodes c sf_bytes s" using ar by (simp_all add: archive_ok_def)
  obtain i j where ij: "i \<noteq> j" "?free (elems (allocated_unwritten_pages s)) i" "?free (elems (allocated_unwritten_pages s)) j"
    using rp by (auto simp: replaceable_def)
  have pg: "\<forall>p \<in> set (data_pages (fh_inode f)). max_inodes (header s) \<le> page_id p" using rp by (simp add: replaceable_def)
  from fs_sim.open_truncated [OF m(1) m(2) [unfolded c] f(1) [unfolded c] f(2) modes(4) ij(2) [unfolded c] pg, folded c] obtain q s0 where
    s0: "open_file c s name mode_replace = Inr (truncated f q, s0)" "looked c sim_ok sf_bytes (\<lambda>_ _. True) s s0"
      "Suc q < max_inodes (header s)" "stored_inode c sf_bytes s q = None" "q \<in> elems (allocated_unwritten_pages s0)"
      "elems (allocated_unwritten_pages s0) \<subseteq> insert q (elems (allocated_unwritten_pages s))" by blast
  note L0 = lookedD [OF s0(2)]
  have "archive_ok c s0" using ar L0(1) unfolding archive_ok_def L0(2,5-9) by simp
  moreover have "vacant name q (truncated f q)" using vacant_truncated [OF fi(2), of q] fi(3) by simp
  moreover have "?free (elems (allocated_unwritten_pages s0)) k" if "?free (elems (allocated_unwritten_pages s)) k" "k \<noteq> q" for k
    using that s0(6) by (auto simp: inode_page_free_def)
  then have "\<exists>k. ?free (elems (allocated_unwritten_pages s0)) k" using ij by metis
  ultimately show ?thesis using s0 by blast
qed

lemma replaces_file:
  assumes c: "c = sim_config P crc e keep" and ar: "archive_ok c s" and f: "f = newest_named c sf_bytes s name" "connected f"
    and rp: "replaceable c s f" and rm: "room_for c s name (length d)" and d: "host_files w name = Some d" "d \<noteq> []"
  shows "\<exists>s1 v. add_file c w s name = Inr s1 \<and> holds_file_named c s1 name d v \<and> header s1 = header s
    \<and> (\<forall>j < max_inodes (header s). j \<noteq> fh_page v \<longrightarrow> stored_inode c sf_bytes s1 j = stored_inode c sf_bytes s j)"
proof -
  note fi = newest_named_inode [OF f]
  have r: "newest_of_name c sf_bytes s f" "inode_number (fh_inode f) \<noteq> 0" "inode_version_number (fh_inode f) < 2 ^ 64 - 1"
    "keeps_old_pages c \<or> erased_invalid c (header s)"
    using rp by (simp_all add: replaceable_def)
  from opens_replaceable [OF c ar f rp] obtain q s0 i where
    s0: "open_file c s name mode_replace = Inr (truncated f q, s0)" "looked c sim_ok sf_bytes (\<lambda>_ _. True) s s0" "archive_ok c s0"
      "Suc q < max_inodes (header s)" "stored_inode c sf_bytes s q = None" "vacant name q (truncated f q)"
      "q \<in> elems (allocated_unwritten_pages s0)"
      "inode_page_free c (header s) (sf_bytes (mem s)) (elems (allocated_unwritten_pages s0)) i" by blast
  note L0 = lookedD [OF s0(2)]
  have nm: "length d < 2 ^ 32" using rm by (simp add: room_for_def)
  from writes_vacant [OF c ar s0(2,6) rm] obtain f1 s1 where
    w: "FileHandle_write c s0 (truncated f q) d = Inr (length d, f1, s1)"
      "written sim_ok sf_bytes (\<lambda>_ _. True) s0 (truncated f q) d s1 f1"
      "\<forall>q \<in> set (data_pages (fh_inode f1)). dp_state q \<noteq> Deleted" "fits_page (header s0) (fh_inode f1)" by blast
  note R = written_vacant [OF s0(3,6) w(2,4) nm]
  have hd1: "header s1 = header s" using R(5) L0(2) by simp
  have st1: "stored_inode c sf_bytes s1 k = stored_inode c sf_bytes s k" if "k < max_inodes (header s)" for k
    using R(15) [of k] L0(2,7) that by simp
  have al: "allocated_unwritten_pages s1 = allocated_unwritten_pages s0" "max_inode_number s1 = max_inode_number s"
    using R(4) L0(6) by (simp_all add: same_fs_def)
  have ids: "file_name (fh_inode f1) = file_name (fh_inode f)" "inode_number (fh_inode f1) = inode_number (fh_inode f)"
    "inode_version_number (fh_inode f1) = inode_version_number (fh_inode f)" using fi(3) R(6,12,13) by (simp_all add: truncated_def)
  obtain k g where k: "k < max_inodes (header s)" "stored_inode c sf_bytes s k = Some g" "fh_inode f = fh_inode g" using fi(1) by blast
  then have num: "inode_number (fh_inode f1) \<le> max_inode_number s1" using ar ids(2) al(2) by (auto simp: archive_ok_def)
  have fr: "inode_page_free c (header s1) (sf_bytes (mem s1)) (elems (allocated_unwritten_pages s1)) i"
    using s0(8) R(14) [of i] L0(2,3) unfolding inode_page_free_def hd1 al(1) by auto
  from settles_version [OF c R(2,1) w(3) R(10) _ R(3) _ _ num _ _ fr] w(4) r(2,4) s0(4,5,7) st1 [of q] ids(2) hd1 al(1) R(7) L0(2)
  obtain p s2 where
    s2: "flush c s1 f1 = Inr (True, settle (next_version f1 p), s2)" "archive_ok c s2" "header s2 = header s1"
      "p < max_inodes (header s1)" "stored_inode c sf_bytes s2 p = Some (stored_version (header s1) f1 p)"
      "\<forall>j < max_inodes (header s1). j \<noteq> p \<longrightarrow> stored_inode c sf_bytes s2 j = stored_inode c sf_bytes s1 j"
      "elems (free_data_pages s2) = elems (free_data_pages s1)"
      "\<forall>q \<in> set (data_pages (fh_inode (next_version f1 p))).
        page_at (page_size (header s1)) (page_id q) (sf_bytes (mem s2)) = new_contents (page_size (header s1)) (sf_bytes (mem s1)) q"
    by auto
  let ?v = "(stored_version (header s1) f1 p)\<lparr>fh_page := p\<rparr>" and ?g = "settle (next_version f1 p)"
  have m2: "mounted sim_ok sf_bytes s2" using s2(2) by (simp add: archive_ok_def)
  have nv: "next_version f1 p = f1\<lparr>fh_page := p, fh_inode := (fh_inode f1)\<lparr>inode_version_number := add64 (inode_version_number (fh_inode f1)) 1\<rparr>\<rparr>"
    using not_deleted [OF w(3)] by (simp add: next_version_def drop_deleted_def set_pages_def)
  have gu: "connected ?g" "\<not> modified ?g" using R(11) by (simp_all add: settle_def set_pages_def nv)
  have ds: "FileHandle_destroy c s1 f1 = FileHandle_destroy c s2 ?g"
    by (rule destroy_flushes [OF s2(1) R(11) gu])
  from fs_sim.destroy_looks [OF m2 gu(2), of P crc e keep, folded c] obtain s3 where
    s3: "FileHandle_destroy c s1 f1 = Inr s3" "looked c sim_ok sf_bytes (\<lambda>_ _. True) s2 s3" unfolding ds by auto
  note L3 = lookedD [OF s3(2)]
  have ne: "newest_of_name c sf_bytes s1 f1"
    using r(1) st1 unfolding newest_of_name_def hd1 ids by simp
  have nw: "newest_named c sf_bytes s2 name = ?v"
  proof -
    have "newest_named c sf_bytes s2 (file_name (fh_inode f1)) = ?v"
      by (rule newest_after_flush [OF s2(3-5) _ ne]) (use s2(6) R(6) ids(3) fi(4) r(3) in auto)
    then show ?thesis by (simp add: R(6))
  qed
  have ct: "contents sf_bytes s2 ?v = d" using stored_contents [OF R(1) s2(3,8)] R(9) by simp
  have nl: "file_name_len (fh_inode f1) = length (file_name (fh_inode f1))" using R(3) by (simp add: inode_wf_def)
  have vo: "file_ok sim_ok sf_bytes (\<lambda>_ _. True) s2 ?v"
    unfolding version_file_ok [OF w(3), where n = 0]
    by (rule first_file_ok [OF R(1) m2 s2(3,7) _ w(3) nl]) (simp_all add: page_writable_def)
  have "holds_file_named c s2 name d ?v"
    using s2(2) nw ct vo R(8) by (simp add: holds_file_named_def) (simp add: stored_version_def new_handle_def empty_handle_def)
  from holds_looked [OF this s3(2)] have "holds_file_named c s3 name d ?v" .
  moreover have "add_file c w s name = Inr s3"
    using s0(1) w(1) s3(1) d by (simp add: add_file_def read_file_def) (simp add: truncated_def)
  moreover have "\<forall>j < max_inodes (header s). j \<noteq> fh_page ?v \<longrightarrow> stored_inode c sf_bytes s3 j = stored_inode c sf_bytes s j"
    using s2(6) st1 hd1 unfolding L3(7) by simp
  ultimately show ?thesis using L3(2) s2(3) hd1 by (intro exI [of _ s3] exI [of _ ?v]) simp
qed

section \<open>Deleting a file\<close>

lemma vacant_emptied: "vacant name p f \<Longrightarrow> vacant [] p (emptied f)"
  by (simp add: vacant_def emptied_def inode_wf_def)

lemma deletes_file:
  assumes c: "c = sim_config P crc e keep" and ar: "archive_ok c s" and f: "f = newest_named c sf_bytes s name" "connected f"
    and rp: "replaceable c s f" and ps: "42 \<le> page_size (header s)"
  shows "\<exists>s1 p v. del_file c s name = Inr s1 \<and> archive_ok c s1 \<and> header s1 = header s
    \<and> p < max_inodes (header s) \<and> stored_inode c sf_bytes s p = None
    \<and> stored_inode c sf_bytes s1 p = Some v \<and> file_name (fh_inode v) = []
    \<and> inode_number (fh_inode v) = inode_number (fh_inode f)
    \<and> inode_version_number (fh_inode v) = Suc (inode_version_number (fh_inode f))
    \<and> (\<forall>j < max_inodes (header s). j \<noteq> p \<longrightarrow> stored_inode c sf_bytes s1 j = stored_inode c sf_bytes s j)"
proof -
  have r: "inode_number (fh_inode f) \<noteq> 0" "inode_version_number (fh_inode f) < 2 ^ 64 - 1" "keeps_old_pages c \<or> erased_invalid c (header s)"
    using rp by (simp_all add: replaceable_def)
  from opens_replaceable [OF c ar f rp] obtain q s0 i where
    s0: "open_file c s name mode_replace = Inr (truncated f q, s0)" "looked c sim_ok sf_bytes (\<lambda>_ _. True) s s0" "archive_ok c s0"
      "Suc q < max_inodes (header s)" "stored_inode c sf_bytes s q = None" "vacant name q (truncated f q)"
      "q \<in> elems (allocated_unwritten_pages s0)"
      "inode_page_free c (header s) (sf_bytes (mem s)) (elems (allocated_unwritten_pages s0)) i" by blast
  note L0 = lookedD [OF s0(2)]
  let ?e = "emptied (truncated f q)"
  note v = vacant_emptied [OF s0(6)]
  have e: "file_name (fh_inode ?e) = []" "inode_number (fh_inode ?e) = inode_number (fh_inode f)" "data_pages (fh_inode ?e) = []"
    "inode_version_number (fh_inode ?e) = inode_version_number (fh_inode f)" "modified ?e" "connected ?e" "fh_page ?e = q"
    by (simp_all add: emptied_def truncated_def new_handle_def empty_handle_def)
  have ok: "file_ok sim_ok sf_bytes (\<lambda>_ _. True) s0 ?e" using vacant_file_ok [OF s0(3) _ v] ps L0(2) by simp
  have wf: "inode_wf (fh_inode ?e)" using v by (simp add: vacant_def)
  have fp: "fits_page (header s0) (fh_inode ?e)"
    using ps L0(2) by (simp add: fits_page_def inode_size_def pages_plausible_def emptied_def)
  obtain k g where k: "k < max_inodes (header s)" "stored_inode c sf_bytes s k = Some g" "fh_inode f = fh_inode g"
    using newest_named_inode(1) [OF f] by blast
  then have num: "inode_number (fh_inode ?e) \<le> max_inode_number s0" using ar e(2) L0(6) by (auto simp: archive_ok_def)
  have fr: "inode_page_free c (header s0) (sf_bytes (mem s0)) (elems (allocated_unwritten_pages s0)) i" using s0(8) L0(2,3) by simp
  have nd: "\<forall>q \<in> set (data_pages (fh_inode ?e)). dp_state q \<noteq> Deleted" by (simp add: e(3))
  from settles_version [OF c s0(3) ok nd e(5) _ wf fp _ num _ _ fr] r(1,3) s0(4,5,7) e(2,7) L0(2,7) obtain p s2 where
    s2: "flush c s0 ?e = Inr (True, settle (next_version ?e p), s2)" "archive_ok c s2" "header s2 = header s0"
      "p < max_inodes (header s0)" "stored_inode c sf_bytes s0 p = None"
      "stored_inode c sf_bytes s2 p = Some (stored_version (header s0) ?e p)"
      "\<forall>j < max_inodes (header s0). j \<noteq> p \<longrightarrow> stored_inode c sf_bytes s2 j = stored_inode c sf_bytes s0 j"
    by auto
  have "FileHandle_delete_file c s0 (truncated f q) = Inr (True, (settle (next_version ?e p))\<lparr>connected := False\<rparr>, s2)"
    using s2(1) by (simp add: FileHandle_delete_file_def delete_file_def FileHandle_flush_def Let_def)
      (simp add: emptied_def truncated_def new_handle_def empty_handle_def)
  then have "del_file c s name = Inr s2"
    using s0(1) by (simp add: del_file_def FileHandle_destroy_def) (simp add: truncated_def)
  then show ?thesis using s2 e(1,2,4) L0(2,7) r(2)
    by (intro exI [of _ s2] exI [of _ p] exI [of _ "stored_version (header s0) ?e p"]) (simp add: add64_small)
qed

end
