(* ===== verification/ArchiveProps.thy ===== *)
theory ArchiveProps
  imports ArchiveSpec HandleFile
begin

text \<open>
  What the archive tool promises: a file that was added can be extracted, and an archive from which a
  file was deleted cannot be extracted as a whole.
\<close>

section \<open>All inodes of an archive\<close>

context fs_on_flash
begin

lemma get_all_inodes_loop_ok:
  assumes "good_load c ok cells writable (load_unmapped c) s0" "clean_inodes c cells s0" "header s = header s0"
    "same_flash (flash c) ok cells writable (mem s0) (mem s)" "\<forall>i \<in> set is. i < max_inodes (header s0)"
  shows "\<exists>m'. get_all_inodes_loop c e s acc is = Inr (acc @ found_inodes c cells s0 is, s\<lparr>mem := m'\<rparr>)
    \<and> same_flash (flash c) ok cells writable (mem s0) m'"
  using assms(3-5)
proof (induction "is" arbitrary: s acc)
  case Nil
  then show ?case by (intro exI [of _ "mem s"]) (simp add: found_inodes_def)
next
  case (Cons i "is")
  let ?p = "page_at (page_size (header s0)) i (cells (mem s0))"
  have i: "i < max_inodes (header s0)" "\<forall>i \<in> set is. i < max_inodes (header s0)" using Cons.prems(3) by simp_all
  from assms(1) Cons.prems(1,2) i(1) obtain m' where
    l: "load_unmapped c s i =
        Inr (let p = ?p in if checksum_ok c (fs_endianness (header s0)) p then Some p else None, s\<lparr>mem := m'\<rparr>)"
      "same_flash (flash c) ok cells writable (mem s0) m'"
    unfolding good_load_def by blast
  from Cons.IH [of "s\<lparr>mem := m'\<rparr>"] Cons.prems(1) l(2) i(2) have
    IH: "\<exists>m''. get_all_inodes_loop c e (s\<lparr>mem := m'\<rparr>) acc is = Inr (acc @ found_inodes c cells s0 is, s\<lparr>mem := m''\<rparr>)
      \<and> same_flash (flash c) ok cells writable (mem s0) m''" for acc by simp
  show ?case
  proof (cases "checksum_ok c (fs_endianness (header s0)) ?p")
    case False
    then show ?thesis using l(1) IH [of acc] by (simp add: found_inodes_Cons stored_inode_def)
  next
    case True
    then obtain f where f: "get_inode c s0 ?p False = Inr f" "get_inode c s0 ?p True = Inr f"
      using assms(2) i(1) by (auto simp: clean_inodes_def Let_def)
    then have g: "get_inode c (s\<lparr>mem := m'\<rparr>) ?p e = Inr f"
      using get_inode_cong [of s0 "s\<lparr>mem := m'\<rparr>" c] Cons.prems(1) by (cases e) simp_all
    have "stored_inode c cells s0 i = Some f" using True f(1) by (simp add: stored_inode_def)
    then show ?thesis using l(1) True g IH [of "acc @ [f\<lparr>fh_page := i\<rparr>]"] by (simp add: found_inodes_Cons)
  qed
qed

lemma get_all_inodes_ok:
  assumes "mounted ok cells s" "clean_inodes c cells s"
  shows "\<exists>s'. get_all_inodes c s e = Inr (found_inodes c cells s [0..<max_inodes (header s)], s')
    \<and> looked c ok cells writable s s'"
proof -
  have m: "ok (mem s)" "geometry (header s) (length (cells (mem s)))" using assms(1) by (simp_all add: mounted_def)
  have "same_flash (flash c) ok cells writable (mem s) (mem s)" using m(1) by (rule same_flash_refl)
  from get_all_inodes_loop_ok [OF load_unmapped_good [OF m] assms(2) refl this, of "[0..<max_inodes (header s)]" e "[]"]
  obtain m' where m': "get_all_inodes c s e = Inr (found_inodes c cells s [0..<max_inodes (header s)], s\<lparr>mem := m'\<rparr>)"
    "same_flash (flash c) ok cells writable (mem s) m'" by (auto simp: get_all_inodes_def)
  then have "looked c ok cells writable s (s\<lparr>mem := m'\<rparr>)"
    using assms(1) by (simp add: looked_def mounted_def same_flash_def)
  then show ?thesis using m'(1) by blast
qed

end

section \<open>Extracting\<close>

lemma extracts_file:
  assumes c: "c = sim_config P crc e keep" and h: "holds_file_named c s name d v"
    and w: "host_opens w name" "host_stores w name d"
  shows "\<exists>s'. extract_file c s w name = Inr (True, s', put_file w name d) \<and> looked c sim_ok sf_bytes (\<lambda>_ _. True) s s'"
proof -
  have m: "mounted sim_ok sf_bytes s" "clean_inodes c sf_bytes s" and v: "v = newest_named c sf_bytes s name" "connected v"
    "\<not> modified v" "fh_pos v = 0" "file_len (fh_inode v) = length d" "file_ok sim_ok sf_bytes (\<lambda>_ _. True) s v"
    "contents sf_bytes s v = d"
    using h by (auto simp: holds_file_named_def archive_ok_def)
  from fs_sim.open_ok [OF m(1) m(2) [unfolded c] v(1) [unfolded c], of mode_in, folded c] v(2) obtain s1 where
    s1: "open_file c s name mode_in = Inr (v, s1)" "looked c sim_ok sf_bytes (\<lambda>_ _. True) s s1" by auto
  have ok: "file_ok sim_ok sf_bytes (\<lambda>_ _. True) s1 v" "contents sf_bytes s1 v = d"
    using looked_file(1,2) [OF s1(2) m(1)] v(6,7) by simp_all
  from fs_sim.handle_read_ok [OF ok(1) v(2), of P crc e keep "length d", folded c] v(4,5) ok(2) obtain m' where
    r: "FileHandle_read c s1 v (length d) = Inr (d, v\<lparr>fh_pos := length d\<rparr>, s1\<lparr>mem := m'\<rparr>)"
      "same_flash (flash c) sim_ok sf_bytes (\<lambda>_ _. True) (mem s1) m'" by auto
  note L1 = lookedD [OF s1(2)]
  have l2: "looked c sim_ok sf_bytes (\<lambda>_ _. True) s1 (s1\<lparr>mem := m'\<rparr>)"
    using L1(1) r(2) by (simp add: looked_def mounted_def same_flash_def)
  have nm: "\<not> modified (v\<lparr>fh_pos := length d\<rparr>)" using v(3) by simp
  from fs_sim.destroy_looks [OF lookedD(1) [OF l2] nm, of P crc e keep, folded c] obtain s3 where
    s3: "FileHandle_destroy c (s1\<lparr>mem := m'\<rparr>) (v\<lparr>fh_pos := length d\<rparr>) = Inr s3"
      "looked c sim_ok sf_bytes (\<lambda>_ _. True) (s1\<lparr>mem := m'\<rparr>) s3" by blast
  have "length d < 2 ^ 32" using file_len_bound [OF v(6)] v(5) by simp
  then have "extract_file c s w name = Inr (True, s3, put_file w name d)"
    using s1(1) v(2,5) r(1) s3(1) w by (simp add: extract_file_def requireE_def)
  then show ?thesis using looked_trans [OF looked_trans [OF s1(2) l2] s3(2)] by blast
qed

text \<open>No file is found under the empty name, which is the name of a deleted file.\<close>

lemma pick_nameless: "pick_file load c [] s ivs = Inr (f, s') \<Longrightarrow> \<not> connected f"
  by (induction ivs arbitrary: s) (auto simp: empty_handle_def Let_def bindE_eq_Inr split: option.splits prod.splits)

lemma extract_nameless: "extract_file c s w [] = Inr (done, s', w') \<Longrightarrow> \<not> done"
  unfolding extract_file_def open_file_def open_new_def find_file_def find_file_mapped_def find_file_unmapped_def find_file_with_def
  by (auto simp: bindE_eq_Inr Let_def mode_in_def empty_handle_def split: if_splits prod.splits dest!: pick_nameless)

text \<open>Extracting everything goes through all inodes, and so fails at a deleted file.\<close>

lemma extract_loop_nameless:
  assumes "f \<in> set fs" "file_name (fh_inode f) = []"
  shows "\<exists>e. extract_loop c [] s w n fs = Inl e"
  using assms
proof (induction fs arbitrary: s w n)
  case (Cons g fs)
  show ?case
  proof (cases "extract_file c s w (file_name (fh_inode g))")
    case (Inr r)
    obtain b s' w' where r: "r = (b, s', w')" by (cases r)
    have "\<not> b" if "g = f" using extract_nameless [of c s w b s' w'] Inr r Cons.prems(2) that by simp
    then show ?thesis using Cons Inr r by (cases b) auto
  qed (simp add: Let_def)
qed simp

section \<open>The promises\<close>

text \<open>
  The archive has this file and there is room for its next version, or it has no file of this name.
\<close>

definition addable :: "sim_flash config \<Rightarrow> sim_flash fs \<Rightarrow> byte list \<Rightarrow> nat \<Rightarrow> bool" where
  "addable c s name n \<longleftrightarrow> archive_ok c s \<and> room_for c s name n
     \<and> (unused_name c sf_bytes s name \<and> name \<noteq> []
        \<or> connected (newest_named c sf_bytes s name) \<and> replaceable c s (newest_named c sf_bytes s name))"

lemma adds_file:
  assumes c: "c = sim_config P crc e keep" and a: "addable c s name (length d)" and d: "host_files w name = Some d" "d \<noteq> []"
  shows "\<exists>s1 v. add_file c w s name = Inr s1 \<and> holds_file_named c s1 name d v \<and> header s1 = header s
    \<and> (\<forall>j < max_inodes (header s). j \<noteq> fh_page v \<longrightarrow> stored_inode c sf_bytes s1 j = stored_inode c sf_bytes s j)"
proof (cases "unused_name c sf_bytes s name \<and> name \<noteq> []")
  case True
  then show ?thesis using a adds_new_file [OF c _ _ _ _ d] by (simp add: addable_def)
next
  case False
  then show ?thesis using a replaces_file [OF c _ refl _ _ _ d] by (auto simp: addable_def)
qed


text \<open>
  C36. After a file of an archive has been deleted, extracting all files ends with an error: the inode
  page of the deleted file is valid, so the loop asks for a file with the empty name, and does not
  find it.
\<close>

theorem extract_all_fails_after_delete:
  assumes "c = sim_config P crc e keep" "archive_ok c s" "connected (newest_named c sf_bytes s name)"
    "replaceable c s (newest_named c sf_bytes s name)" "42 \<le> page_size (header s)"
  shows "\<exists>s1 err. del_file c s name = Inr s1 \<and> archive_ok c s1 \<and> extract_files c [] s1 w = Inl err"
proof -
  from deletes_file [OF assms(1,2) refl assms(3-5)] obtain s1 p v where
    s1: "del_file c s name = Inr s1" "archive_ok c s1" "header s1 = header s" "p < max_inodes (header s)"
      "stored_inode c sf_bytes s1 p = Some v" "file_name (fh_inode v) = []" by blast
  have m: "mounted sim_ok sf_bytes s1" "clean_inodes c sf_bytes s1" using s1(2) by (simp_all add: archive_ok_def)
  let ?all = "found_inodes c sf_bytes s1 [0..<max_inodes (header s1)]"
  from fs_sim.get_all_inodes_ok [OF m(1) m(2) [unfolded assms(1)], of True, folded assms(1)] obtain s2 where
    s2: "get_all_inodes c s1 True = Inr (?all, s2)" by blast
  have "v\<lparr>fh_page := p\<rparr> \<in> set ?all" using s1(3-5) by (auto simp: set_found_inodes)
  from extract_loop_nameless [OF this, of c s2 w 0] s1(6) obtain err where "extract_loop c [] s2 w 0 ?all = Inl err" by auto
  then show ?thesis using s1(1,2) s2 by (simp add: extract_files_def)
qed

section \<open>Witnesses\<close>

definition one_file_archive :: "sim_flash config \<Rightarrow> sim_flash fs" where
  "one_file_archive c = (small_fs (SimFlash_open (one_file_bytes c)))\<lparr>max_inode_number := 3\<rparr>"

definition wide_host :: host where
  "wide_host = \<lparr>host_files = [[97] \<mapsto> [1, 2]], host_opens = (\<lambda>_. True), host_stores = (\<lambda>_ _. True)\<rparr>"

lemma three_pages [simp]:
  "ps_inv \<lparr>ps_data = [4, 5, 6], unsorted = False, unshrinked = False\<rparr>"
  "elems \<lparr>ps_data = [4, 5, 6], unsorted = False, unshrinked = False\<rparr> = {4, 5, 6}"
  by (auto simp: ps_inv_def elems_def NO_DATA_def)

lemma small_archive_ok:
  assumes "crc32 c = (\<lambda>_. 7)"
  shows "addable c (small_fs (SimFlash_open (erased 512))) [97] 2"
proof -
  let ?s = "small_fs (SimFlash_open (erased 512))"
  have b: "sf_bytes (SimFlash_open (erased 512)) = erased 512" "sim_ok (SimFlash_open (erased 512))" by (simp_all add: SimFlash_open_def sim_ok_def)
  have er: "\<not> checksum_ok c LE (page_at 64 i (erased 512))" if "i < 4" for i
    using erased_not_ok [of i 512 c] assms that by (simp add: page_in_def)
  have no: "stored_inode c sf_bytes ?s i = None" if "i < 4" for i using er [OF that] by (simp add: stored_inode_def b)
  have "geometry small_header 512" by (simp add: geometry_def)
  then have "mounted sim_ok sf_bytes ?s" using b by (simp add: mounted_def)
  moreover have "clean_inodes c sf_bytes ?s" using er by (simp add: clean_inodes_def Let_def b)
  moreover have "inode_page_free c small_header (erased 512) {} 0" using er [of 0] by (simp add: inode_page_free_def)
  ultimately show ?thesis using no b by (auto simp: addable_def archive_ok_def room_for_def unused_name_def)
qed

lemma one_file_replaceable:
  assumes "crc32 c = (\<lambda>_. 7)"
  shows "archive_ok c (one_file_archive c)" "connected (newest_named c sf_bytes (one_file_archive c) [97])"
    "replaceable c (one_file_archive c) (newest_named c sf_bytes (one_file_archive c) [97])"
proof -
  let ?s = "one_file_archive c" and ?f = "newest_named c sf_bytes (one_file_archive c) [97]"
  have b: "sf_bytes (mem ?s) = one_file_bytes c" "sim_ok (mem ?s)" "header ?s = small_header" "max_inode_number ?s = 3"
      "elems (allocated_unwritten_pages ?s) = {}"
    by (simp_all add: one_file_archive_def SimFlash_open_def sim_ok_def)
  have "elems (free_data_pages ?s) = {4, 5, 6}" by (simp add: one_file_archive_def)
  note b = b this
  note st = one_file_stored [of c sf_bytes ?s, OF assms b(1,3)]
  have g: "file_name (fh_inode sample_file) = [97]" "inode_number (fh_inode sample_file) = 3"
    "inode_version_number (fh_inode sample_file) = 1" "data_pages (fh_inode sample_file) = []"
    by (simp_all add: sample_file_def new_handle_def empty_handle_def default_inode_def)
  have st0: "stored_inode c sf_bytes ?s j = Some h \<longleftrightarrow> j = 0 \<and> h = new_handle\<lparr>fh_inode := reread 64 (fh_inode sample_file)\<rparr>"
    if "j < 4" for j h using st(2) [of j] st(3) that by (cases "j = 0") auto
  have "geometry small_header 512" by (simp add: geometry_def)
  then have "mounted sim_ok sf_bytes ?s"
    using b by (simp add: mounted_def) (simp add: one_file_archive_def)
  then show "archive_ok c ?s" using st(1) st0 b(3,4,6) g by (auto simp: archive_ok_def reread_def)
  show con: "connected ?f"
  proof (rule ccontr)
    assume "\<not> connected ?f"
    from found_newest(2) [OF refl refl this _ st(3)] obtain j k where
      "j < 4" "j \<noteq> 0" "stored_inode c sf_bytes ?s j = Some k" using g by (auto simp: b(3) names_file_def reread_def)
    then show False using st0 by simp
  qed
  from found_newest(1) [OF refl refl this] obtain j k where
    k: "j < 4" "stored_inode c sf_bytes ?s j = Some k" "?f = k\<lparr>fh_page := j\<rparr>" by (auto simp: b(3))
  have f: "inode_number (fh_inode ?f) = 3" "inode_version_number (fh_inode ?f) = 1" "data_pages (fh_inode ?f) = []"
    using k(2) unfolding st0 [OF k(1)] k(3) by (simp_all add: reread_def g)
  have fr: "inode_page_free c small_header (one_file_bytes c) {} i" if "0 < i" "i < 3" for i
  proof -
    have n: "stored_inode c sf_bytes ?s i = None" using st(2) [of i] that by (cases "stored_inode c sf_bytes ?s i") auto
    show ?thesis
    proof (rule ccontr)
      assume "\<not> inode_page_free c small_header (one_file_bytes c) {} i"
      then have ck: "checksum_ok c LE (page_at 64 i (one_file_bytes c))" using that by (simp add: inode_page_free_def)
      have "i < max_inodes (header ?s)" using that by (simp add: b(3))
      then obtain h where "get_inode c ?s (page_at 64 i (one_file_bytes c)) False = Inr h"
        using st(1) ck unfolding clean_inodes_def Let_def b(1) by (auto simp: b(3))
      then show False using n ck b(1,3) by (simp add: stored_inode_def)
    qed
  qed
  have "erased_invalid c small_header"
    using erased_not_ok [of 0 512 c] assms by (simp add: erased_invalid_def page_in_def page_at_def slice_def erased_def)
  moreover have "newest_of_name c sf_bytes ?s ?f"
    unfolding newest_of_name_def f b(3) using st0 g by (auto simp: reread_def)
  moreover have "\<exists>i j. i \<noteq> j \<and> inode_page_free c small_header (one_file_bytes c) {} i \<and> inode_page_free c small_header (one_file_bytes c) {} j"
    using fr [of 1] fr [of 2] by (intro exI [of _ 1] exI [of _ 2]) simp
  ultimately show "replaceable c ?s ?f" by (simp add: replaceable_def f b(1,3,5))
qed


theorem extract_all_fails_after_delete_witness:
  "\<exists>s1 err. del_file (sim_config 0 (\<lambda>_. 7) LE False) (one_file_archive (sim_config 0 (\<lambda>_. 7) LE False)) [97] = Inr s1
    \<and> extract_files (sim_config 0 (\<lambda>_. 7) LE False) [] s1 wide_host = Inl err"
proof -
  let ?c = "sim_config 0 (\<lambda>_. 7) LE False"
  have c: "crc32 ?c = (\<lambda>_. 7)" by simp
  note o = one_file_replaceable [OF c]
  have "42 \<le> page_size (header (one_file_archive ?c))" by (simp add: one_file_archive_def)
  from extract_all_fails_after_delete [OF refl o this, of wide_host] show ?thesis by blast
qed

end
