(* ===== verification/Fram.thy ===== *)
theory Fram
  imports VfsServer Dynamic
begin

text \<open>
  The drive of the virtual file system that spreads its writes (\<open>src_vfs/FramFsImplDetail.h\<close>,
  \<open>src_vfs/FramFsImplDetail.cc\<close>, and the two drives of \<open>src_vfs/main.cc\<close>): the dynamic file system with a
  range that visits the inode pages in a random order, and an allocator that takes any free data page.
\<close>

section \<open>Random numbers\<close>

text \<open>
  \<open>std::mt19937\<close> with \<open>std::shuffle\<close> and \<open>std::uniform_int_distribution\<close> from 0 to a limit, over a
  state \<open>'g\<close> of the generator.
\<close>

record 'g random_source =
  shuffle :: "'g \<Rightarrow> nat list \<Rightarrow> nat list \<times> 'g"
  draw :: "'g \<Rightarrow> nat \<Rightarrow> nat \<times> 'g"

section \<open>The range of inode pages\<close>

record 'g header_range =
  inode_numbers :: "nat list"
  current_it :: nat
  rng :: 'g

definition InodeHeaderRange :: "'g \<Rightarrow> 'g header_range" where
  "InodeHeaderRange g = \<lparr>inode_numbers = [], current_it = 0, rng = g\<rparr>"

definition hr_reinit :: "header \<Rightarrow> 'g header_range \<Rightarrow> 'g header_range" where
  "hr_reinit h r = r\<lparr>inode_numbers := [0..<max_inodes h]\<rparr>"

definition hr_reset :: "'g random_source \<Rightarrow> 'g header_range \<Rightarrow> 'g header_range" where
  "hr_reset R r = (case shuffle R (rng r) (inode_numbers r) of (numbers, g) \<Rightarrow>
     r\<lparr>inode_numbers := numbers, current_it := 0, rng := g\<rparr>)"

definition hr_has_next :: "'g header_range \<Rightarrow> bool" where
  "hr_has_next r \<longleftrightarrow> current_it r \<noteq> length (inode_numbers r)"

text \<open>At the end the iterator must not be dereferenced.\<close>

definition hr_next :: "'g header_range \<Rightarrow> (nat \<times> 'g header_range) res" where
  "hr_next r =
     (if current_it r < length (inode_numbers r)
      then Inr (inode_numbers r ! current_it r, r\<lparr>current_it := current_it r + 1\<rparr>)
      else Inl Undefined)"

definition hr_start :: "'g random_source \<Rightarrow> 'g header_range \<Rightarrow> (nat \<times> 'g header_range) res" where
  "hr_start R r = hr_next (hr_reset R r)"

section \<open>The drive\<close>

record ('m, 'g) fram =
  fr_fs :: "'m fs"
  fr_range :: "'g header_range"
  fr_initialized :: bool
  fr_drive_name :: "byte list"

definition FramFsImplDetail :: "'m \<Rightarrow> 'g \<Rightarrow> byte list \<Rightarrow> ('m, 'g) fram" where
  "FramFsImplDetail m g name =
     \<lparr>fr_fs = SimpleFlashFsBase m, fr_range = InodeHeaderRange g, fr_initialized = False, fr_drive_name = name\<rparr>"

definition fram_init :: "'m config \<Rightarrow> ('m, 'g) fram \<Rightarrow> (bool \<times> ('m, 'g) fram) res" where
  "fram_init c x =
     bindE (dynamic_init c (fr_fs x)) (\<lambda>(done, s).
     if \<not> done then Inr (False, x\<lparr>fr_fs := s, fr_initialized := False\<rparr>)
     else Inr (True, x\<lparr>fr_fs := s, fr_range := hr_reinit (header s) (fr_range x), fr_initialized := True\<rparr>))"

text \<open>\<open>create\<close> of the dynamic class calls the virtual \<open>init\<close>.\<close>

definition fram_format :: "'m config \<Rightarrow> ('m, 'g) fram \<Rightarrow> header \<Rightarrow> (bool \<times> ('m, 'g) fram) res" where
  "fram_format c x h =
     (if mul64 (page_size h) (filesystem_size h) > mem_size (flash c) (mem (fr_fs x)) then Inr (False, x)
      else if page_size h = 0 \<or> filesystem_size h = 0 then Inr (False, x)
      else if page_size h < MIN_PAGE_SIZE then Inr (False, x)
      else if filesystem_size h < 4 then Inr (False, x)
      else
        bindE (mem_erase (flash c) (mem (fr_fs x)) 0 (mul64 (page_size h) (filesystem_size h))) (\<lambda>m.
        bindE (write_header c ((fr_fs x)\<lparr>mem := m\<rparr>) h) (\<lambda>(done, s).
        if \<not> done then Inr (False, x\<lparr>fr_fs := s\<rparr>) else fram_init c (x\<lparr>fr_fs := s\<rparr>))))"

text \<open>\<open>create\<close> of the drives A and B, with the size of the memory in bytes.\<close>

definition fram_create :: "'m config \<Rightarrow> nat \<Rightarrow> nat \<Rightarrow> ('m, 'g) fram \<Rightarrow> ('m, 'g) fram res" where
  "fram_create c bytes pgsize x =
     bindE (fram_format c x (create_default_header c pgsize (bytes div pgsize))) (\<lambda>(done, x).
     bindE (requireE Runtime_error done) (\<lambda>_. Inr x))"

definition DRIVE_A_SIZE :: nat where "DRIVE_A_SIZE = 0x00007FFF + 1"
definition DRIVE_A_PAGE_SIZE :: nat where "DRIVE_A_PAGE_SIZE = 256"
definition DRIVE_B_SIZE :: nat where "DRIVE_B_SIZE = 32000000 div 8"
definition DRIVE_B_PAGE_SIZE :: nat where "DRIVE_B_PAGE_SIZE = 528"

definition fram_create_a :: "'m config \<Rightarrow> ('m, 'g) fram \<Rightarrow> ('m, 'g) fram res" where
  "fram_create_a c = fram_create c DRIVE_A_SIZE DRIVE_A_PAGE_SIZE"

definition fram_create_b :: "'m config \<Rightarrow> ('m, 'g) fram \<Rightarrow> ('m, 'g) fram res" where
  "fram_create_b c = fram_create c DRIVE_B_SIZE DRIVE_B_PAGE_SIZE"

section \<open>Allocation\<close>

text \<open>
  The loop of the base class over this range, with \<open>i\<close> as its variable.
\<close>

function hr_find_free ::
  "('m fs \<Rightarrow> nat \<Rightarrow> (bool \<times> 'm fs) res) \<Rightarrow> 'm fs \<Rightarrow> 'g header_range \<Rightarrow> nat \<Rightarrow>
   (nat option \<times> 'g header_range \<times> 'm fs) res" where
  "hr_find_free crc_error s r i =
     (if \<not> hr_has_next r then Inr (None, r, s)
      else bindE (crc_error s i) (\<lambda>(free, s).
        case PageSet_count (allocated_unwritten_pages s) i of (n, claimed) \<Rightarrow>
        if free \<and> n = 0 then
          Inr (Some i, r, s\<lparr>allocated_unwritten_pages := PageSet_insert claimed i\<rparr>)
        else
          let s = (if free then s\<lparr>allocated_unwritten_pages := claimed\<rparr> else s)
          in bindE (hr_next r) (\<lambda>(i, r). hr_find_free crc_error s r i)))"
  by pat_completeness auto
termination
  by (relation "measure (\<lambda>(_, _, r, _). length (inode_numbers r) - current_it r)")
    (auto simp: hr_next_def split: if_splits)

declare hr_find_free.simps [simp del]

definition fram_allocate_inode_page ::
  "'g random_source \<Rightarrow> 'm config \<Rightarrow> ('m, 'g) fram \<Rightarrow> (nat option \<times> ('m, 'g) fram) res" where
  "fram_allocate_inode_page R c x =
     (let crc_error = if mem_can_map_read (flash c) (mem (fr_fs x)) then crc_error_mapped c else crc_error_unmapped c
      in bindE (hr_start R (fr_range x)) (\<lambda>(i, r).
         bindE (hr_find_free crc_error (fr_fs x) r i) (\<lambda>(p, r, s).
         Inr (p, x\<lparr>fr_fs := s, fr_range := r\<rparr>))))"

text \<open>
  A random data page: the iterator and the number that is counted down, an \<open>int\<close>.
\<close>

definition to_int :: "nat \<Rightarrow> int" where
  "to_int n = (int n + 2 ^ 31) mod 2 ^ 32 - 2 ^ 31"

function pick_loop :: "nat list \<Rightarrow> nat \<Rightarrow> int \<Rightarrow> nat option" where
  "pick_loop xs it target_index =
     (if it \<ge> length xs then None
      else if target_index = 0 then Some it
      else pick_loop xs (it + 1) (target_index - 1))"
  by pat_completeness auto
termination by (relation "measure (\<lambda>(xs, it, _). length xs - it)") auto

declare pick_loop.simps [simp del]

definition fram_allocate_free_data_page ::
  "'g random_source \<Rightarrow> ('m, 'g) fram \<Rightarrow> nat option \<times> ('m, 'g) fram" where
  "fram_allocate_free_data_page R x =
     (case PageSet_empty (free_data_pages (fr_fs x)) of (is_empty, ps) \<Rightarrow>
      if is_empty then (None, x\<lparr>fr_fs := (fr_fs x)\<lparr>free_data_pages := ps\<rparr>\<rparr>)
      else
        case PageSet_size ps of (n, ps) \<Rightarrow>
        case draw R (rng (fr_range x)) (n - 1) of (target_index, g) \<Rightarrow>
        let x = x\<lparr>fr_fs := (fr_fs x)\<lparr>free_data_pages := ps\<rparr>, fr_range := (fr_range x)\<lparr>rng := g\<rparr>\<rparr>
        in case pick_loop (ps_data ps) 0 (to_int target_index) of
             None \<Rightarrow> (None, x)
           | Some it \<Rightarrow> (Some (ps_data ps ! it), x\<lparr>fr_fs := (fr_fs x)\<lparr>free_data_pages := PageSet_erase_at ps it\<rparr>\<rparr>))"

section \<open>The functions of a drive\<close>

text \<open>\<open>open\<close> of the base class, with the inode pages of this range.\<close>

definition fram_open_new ::
  "'g random_source \<Rightarrow> 'm config \<Rightarrow> ('m, 'g) fram \<Rightarrow> byte list \<Rightarrow> open_mode \<Rightarrow> (file_handle \<times> ('m, 'g) fram) res" where
  "fram_open_new R c x name m =
     (if \<not> mode_out m \<and> \<not> mode_app m then Inr (empty_handle, x)
      else bindE (fram_allocate_inode_page R c x) (\<lambda>(p, x).
        let f = handle_of_page p
        in if \<not> connected f then Inr (empty_handle, x)
           else if length name > max_path_len (header (fr_fs x)) then
             bindE (FileHandle_destroy c (fr_fs x) f) (\<lambda>s. Inr (empty_handle, x\<lparr>fr_fs := s\<rparr>))
           else
             let f = f\<lparr>modified := True, fh_inode := (fh_inode f)\<lparr>file_name := name,
                         file_name_len := length name mod 2 ^ 16\<rparr>\<rparr>
             in Inr (handle_append_mode m f, x)))"

definition fram_open_trunc ::
  "'g random_source \<Rightarrow> 'm config \<Rightarrow> ('m, 'g) fram \<Rightarrow> file_handle \<Rightarrow> (file_handle \<times> ('m, 'g) fram) res" where
  "fram_open_trunc R c x f =
     bindE (fram_allocate_inode_page R c x) (\<lambda>(p, x).
     let g = handle_of_page p;
         g = (if connected g
              then g\<lparr>fh_inode := (fh_inode f)\<lparr>file_len := 0, pages := 0, data_pages := [], inode_data := []\<rparr>\<rparr>
              else empty_handle)
     in bindE (FileHandle_destroy c (fr_fs x) f) (\<lambda>s. Inr (g, x\<lparr>fr_fs := s\<rparr>)))"

definition fram_open ::
  "'g random_source \<Rightarrow> 'm config \<Rightarrow> ('m, 'g) fram \<Rightarrow> byte list \<Rightarrow> open_mode \<Rightarrow> (file_handle option \<times> ('m, 'g) fram) res" where
  "fram_open R c x path m =
     bindE (find_file c (fr_fs x) path) (\<lambda>(f, s).
     let x = x\<lparr>fr_fs := s\<rparr>
     in bindE (if \<not> connected f then fram_open_new R c x path m
               else if mode_trunc m then fram_open_trunc R c x f
               else Inr (handle_append_mode m f, x)) (\<lambda>(fh, x).
        Inr (if connected fh then Some fh else None, x)))"

text \<open>The callback keeps a state of its own and says whether to go on.\<close>

fun fram_list_loop :: "('a \<Rightarrow> byte list \<Rightarrow> nat \<Rightarrow> bool \<times> 'a) \<Rightarrow> 'a \<Rightarrow> file_handle list \<Rightarrow> 'a" where
  "fram_list_loop callback a [] = a"
| "fram_list_loop callback a (f # fs) =
     (if file_name (fh_inode f) = [] then fram_list_loop callback a fs
      else case callback a (file_name (fh_inode f)) (file_len (fh_inode f)) of (go_on, a) \<Rightarrow>
           if go_on then fram_list_loop callback a fs else a)"

definition fram_list_files ::
  "'m config \<Rightarrow> ('m, 'g) fram \<Rightarrow> ('a \<Rightarrow> byte list \<Rightarrow> nat \<Rightarrow> bool \<times> 'a) \<Rightarrow> 'a \<Rightarrow> (bool \<times> 'a \<times> ('m, 'g) fram) res" where
  "fram_list_files c x callback a =
     bindE (get_all_inodes c (fr_fs x) True) (\<lambda>(inodes, s).
     bindE (destroy_all c s inodes) (\<lambda>s.
     Inr (True, fram_list_loop callback a inodes, x\<lparr>fr_fs := s\<rparr>)))"

text \<open>\<open>cleanup\<close> erases the pages of the inodes without a name.\<close>

fun cleanup_loop :: "'m config \<Rightarrow> 'm fs \<Rightarrow> file_handle list \<Rightarrow> 'm fs res" where
  "cleanup_loop c s [] = Inr s"
| "cleanup_loop c s (f # fs) =
     (if file_name (fh_inode f) = [] then
        bindE (mem_erase (flash c) (mem s) (page_address s (fh_page f)) (page_size (header s))) (\<lambda>m.
        cleanup_loop c (s\<lparr>mem := m\<rparr>) fs)
      else cleanup_loop c s fs)"

definition fram_cleanup :: "'m config \<Rightarrow> ('m, 'g) fram \<Rightarrow> ('m, 'g) fram res" where
  "fram_cleanup c x =
     bindE (get_all_inodes c (fr_fs x) True) (\<lambda>(inodes, s).
     bindE (cleanup_loop c s inodes) (\<lambda>s.
     bindE (destroy_all c s inodes) (\<lambda>s. Inr (x\<lparr>fr_fs := s\<rparr>))))"

text \<open>The drive as the server sees it; \<open>create\<close> is the one of drive A or B.\<close>

definition fram_drive ::
  "'g random_source \<Rightarrow> 'm config \<Rightarrow> byte list \<Rightarrow> (('m, 'g) fram \<Rightarrow> ('m, 'g) fram res) \<Rightarrow>
   (('m, 'g) fram, file_handle, 'a) drive" where
  "fram_drive R c name do_create =
     \<lparr>dr_name = name, dr_open = fram_open R c, dr_list_files = fram_list_files c, dr_create = do_create,
      dr_init = fram_init c, dr_initialized = fr_initialized, dr_cleanup = fram_cleanup c\<rparr>"

end
