(* ===== verification/FramProps.thy ===== *)
theory FramProps
  imports "HOL-Library.Multiset" Fram ArchiveProps
begin

text \<open>
  What the random choices of the drive cannot break, and what its \<open>cleanup\<close> does to files that were
  deleted.
\<close>

section \<open>Inode pages in a random order\<close>

definition unclaimed :: "'m config \<Rightarrow> header \<Rightarrow> byte list \<Rightarrow> nat set \<Rightarrow> nat \<Rightarrow> bool" where
  "unclaimed c h bytes claimed i \<longleftrightarrow> i \<notin> claimed \<and> \<not> checksum_ok c (fs_endianness h) (page_at (page_size h) i bytes)"

text \<open>What the library documents: a shuffle is a permutation, a number drawn is not above the limit.\<close>

definition fair :: "'g random_source \<Rightarrow> bool" where
  "fair R \<longleftrightarrow> (\<forall>g xs. mset (fst (shuffle R g xs)) = mset xs) \<and> (\<forall>g n. fst (draw R g n) \<le> n)"

context fs_on_flash
begin

lemma hr_find_free_ok:
  assumes probe: "\<And>s i. ok (mem s) \<Longrightarrow> header s = h \<Longrightarrow> cells (mem s) = B \<Longrightarrow>
      mem_can_map_read (flash c) (mem s) = mapped \<Longrightarrow> i < max_inodes h \<Longrightarrow>
      \<exists>m'. crc_error s i = Inr (\<not> checksum_ok c (fs_endianness h) (page_at (page_size h) i B), s\<lparr>mem := m'\<rparr>)
        \<and> same_flash (flash c) ok cells writable (mem s) m'"
    and lim: "max_inodes h < 2 ^ 32"
  shows "ok (mem s) \<Longrightarrow> header s = h \<Longrightarrow> cells (mem s) = B \<Longrightarrow>
    mem_can_map_read (flash c) (mem s) = mapped \<Longrightarrow> ps_inv (allocated_unwritten_pages s) \<Longrightarrow>
    inode_numbers r = pre @ i # rest \<Longrightarrow> current_it r = Suc (length pre) \<Longrightarrow> set (i # rest) \<subseteq> {..<max_inodes h} \<Longrightarrow>
    \<exists>p r' m' A. hr_find_free crc_error s r i = Inr (p, r', s\<lparr>mem := m', allocated_unwritten_pages := A\<rparr>)
      \<and> p = find (unclaimed c h B (elems (allocated_unwritten_pages s))) (butlast (i # rest))
      \<and> inode_numbers r' = inode_numbers r \<and> same_flash (flash c) ok cells writable (mem s) m'
      \<and> ps_inv A \<and> elems A = elems (allocated_unwritten_pages s) \<union> set_option p"
proof (induction rest arbitrary: s r pre i)
  case Nil
  then show ?case
    by (subst hr_find_free.simps)
      (auto simp: hr_has_next_def same_flash_refl intro!: exI [of _ "mem s"] exI [of _ "allocated_unwritten_pages s"])
next
  case (Cons j rest)
  note pre = Cons.prems
  have i: "i < max_inodes h" and more: "hr_has_next r" using pre(6-8) by (simp_all add: hr_has_next_def)
  from probe [OF pre(1-4) i] obtain m' where
    m': "crc_error s i = Inr (\<not> checksum_ok c (fs_endianness h) (page_at (page_size h) i B), s\<lparr>mem := m'\<rparr>)"
      "same_flash (flash c) ok cells writable (mem s) m'" by blast
  obtain n C where cnt: "PageSet_count (allocated_unwritten_pages s) i = (n, C)" by fastforce
  have nd: "i < NO_DATA" using i lim by (simp add: NO_DATA_def)
  then have "i \<noteq> NO_DATA" by simp
  from PageSet_count_facts [OF pre(5) this] cnt have
    C: "ps_inv C" "elems C = elems (allocated_unwritten_pages s)" "n = 0 \<longleftrightarrow> i \<notin> elems (allocated_unwritten_pages s)" by simp_all
  let ?ok = "checksum_ok c (fs_endianness h) (page_at (page_size h) i B)"
  show ?case
  proof (cases "\<not> ?ok \<and> n = 0")
    case free: True
    have "hr_find_free crc_error s r i = Inr (Some i, r, s\<lparr>mem := m', allocated_unwritten_pages := PageSet_insert C i\<rparr>)"
      using more m'(1) cnt free by (subst hr_find_free.simps) simp
    then show ?thesis
      using PageSet_insert_facts [OF C(1) nd] C(2,3) m'(2) free by (auto simp: unclaimed_def)
  next
    case taken: False
    let ?s = "s\<lparr>mem := m', allocated_unwritten_pages := if ?ok then allocated_unwritten_pages s else C\<rparr>"
    let ?r = "r\<lparr>current_it := Suc (current_it r)\<rparr>"
    have nx: "hr_next r = Inr (j, ?r)" using pre(6,7) by (simp add: hr_next_def nth_append)
    have eq: "hr_find_free crc_error s r i = hr_find_free crc_error ?s ?r j"
      using more m'(1) cnt taken nx by (subst hr_find_free.simps) (auto simp: Let_def)
    have e: "elems (allocated_unwritten_pages ?s) = elems (allocated_unwritten_pages s)" using C(2) by simp
    have sf: "ok m'" "cells m' = B" "mem_can_map_read (flash c) m' = mapped" using m'(2) pre(3,4) by (simp_all add: same_flash_def)
    have ps: "ps_inv (allocated_unwritten_pages ?s)" using pre(5) C(1) by simp
    have "\<exists>p r' m'' A. hr_find_free crc_error ?s ?r j = Inr (p, r', ?s\<lparr>mem := m'', allocated_unwritten_pages := A\<rparr>)
      \<and> p = find (unclaimed c h B (elems (allocated_unwritten_pages ?s))) (butlast (j # rest))
      \<and> inode_numbers r' = inode_numbers ?r \<and> same_flash (flash c) ok cells writable (mem ?s) m''
      \<and> ps_inv A \<and> elems A = elems (allocated_unwritten_pages ?s) \<union> set_option p"
      by (rule Cons.IH [where pre = "pre @ [i]"]) (use sf ps pre in simp_all)
    then obtain p r' m'' A where r: "hr_find_free crc_error ?s ?r j = Inr (p, r', ?s\<lparr>mem := m'', allocated_unwritten_pages := A\<rparr>)"
      "p = find (unclaimed c h B (elems (allocated_unwritten_pages s))) (butlast (j # rest))"
      "inode_numbers r' = inode_numbers r" "same_flash (flash c) ok cells writable m' m''"
      "ps_inv A" "elems A = elems (allocated_unwritten_pages s) \<union> set_option p" unfolding e by auto
    have "\<not> unclaimed c h B (elems (allocated_unwritten_pages s)) i" using taken C(3) by (auto simp: unclaimed_def)
    then show ?thesis using r eq same_flash_trans [OF m'(2) r(4)] by (intro exI [of _ p] exI [of _ r'] exI [of _ m''] exI [of _ A]) simp
  qed
qed

lemma fram_allocate_inode_page_ok:
  assumes "mounted ok cells (fr_fs x)" "mset (inode_numbers (fr_range x)) = mset [0..<max_inodes (header (fr_fs x))]" "fair R"
  shows "\<exists>p x' ns. fram_allocate_inode_page R c x = Inr (p, x')
    \<and> mset ns = mset [0..<max_inodes (header (fr_fs x))] \<and> inode_numbers (fr_range x') = ns
    \<and> p = find (unclaimed c (header (fr_fs x)) (cells (mem (fr_fs x))) (elems (allocated_unwritten_pages (fr_fs x)))) (butlast ns)
    \<and> looked c ok cells writable (fr_fs x) (fr_fs x')
    \<and> elems (allocated_unwritten_pages (fr_fs x')) = elems (allocated_unwritten_pages (fr_fs x)) \<union> set_option p"
proof -
  let ?s = "fr_fs x"
  have m: "ok (mem ?s)" "geometry (header ?s) (length (cells (mem ?s)))" "ps_inv (allocated_unwritten_pages ?s)"
    using assms(1) by (simp_all add: mounted_def)
  note g = geometryD [OF m(2)]
  let ?probe = "if mem_can_map_read (flash c) (mem ?s) then crc_error_mapped c else crc_error_unmapped c"
  have lim: "max_inodes (header ?s) < 2 ^ 32" and pos: "0 < max_inodes (header ?s)" using g(5,6,7) by linarith+
  obtain ns g' where sh: "shuffle R (rng (fr_range x)) (inode_numbers (fr_range x)) = (ns, g')" by fastforce
  have "mset (fst (shuffle R (rng (fr_range x)) (inode_numbers (fr_range x)))) = mset (inode_numbers (fr_range x))"
    using assms(3) unfolding fair_def by blast
  then have ns: "mset ns = mset [0..<max_inodes (header ?s)]" using assms(2) by (simp add: sh)
  have "set ns = {..<max_inodes (header ?s)}" using mset_eq_setD [OF ns] by (simp only: set_upt atLeast0LessThan)
  moreover from this have "ns \<noteq> []" using pos by (metis empty_iff lessThan_iff list.set(1))
  then obtain i rest where ir: "ns = i # rest" by (cases ns) auto
  ultimately have sub: "set (i # rest) \<subseteq> {..<max_inodes (header ?s)}" by simp
  let ?r = "(fr_range x)\<lparr>inode_numbers := ns, current_it := 1, rng := g'\<rparr>"
  have st: "hr_start R (fr_range x) = Inr (i, ?r)"
    by (simp add: hr_start_def hr_reset_def sh hr_next_def ir)
  have r: "inode_numbers ?r = [] @ i # rest" "current_it ?r = Suc (length [])" by (simp_all add: ir)
  have "\<exists>m'. ?probe t i = Inr (\<not> checksum_ok c (fs_endianness (header ?s)) (page_at (page_size (header ?s)) i (cells (mem ?s))), t\<lparr>mem := m'\<rparr>)
        \<and> same_flash (flash c) ok cells writable (mem t) m'"
    if "ok (mem t)" "header t = header ?s" "cells (mem t) = cells (mem ?s)"
      "mem_can_map_read (flash c) (mem t) = mem_can_map_read (flash c) (mem ?s)" "i < max_inodes (header ?s)" for t i
    using crc_error_mapped_ok [of t i] crc_error_unmapped_ok [of t i] that m(2) g(6) by auto
  note found = hr_find_free_ok [OF this lim m(1) refl refl refl m(3) r sub, folded ir]
  obtain p r' m' A where
    f: "hr_find_free ?probe ?s ?r i = Inr (p, r', ?s\<lparr>mem := m', allocated_unwritten_pages := A\<rparr>)"
      "p = find (unclaimed c (header ?s) (cells (mem ?s)) (elems (allocated_unwritten_pages ?s))) (butlast ns)"
      "inode_numbers r' = inode_numbers ?r" "same_flash (flash c) ok cells writable (mem ?s) m'"
      "ps_inv A" "elems A = elems (allocated_unwritten_pages ?s) \<union> set_option p"
    using found by blast
  have "looked c ok cells writable ?s (?s\<lparr>mem := m', allocated_unwritten_pages := A\<rparr>)"
    using assms(1) f(4,5) by (simp add: looked_def mounted_def same_flash_def)
  moreover have "fram_allocate_inode_page R c x = Inr (p, x\<lparr>fr_fs := ?s\<lparr>mem := m', allocated_unwritten_pages := A\<rparr>, fr_range := r'\<rparr>)"
    using f(1) by (simp add: fram_allocate_inode_page_def st Let_def)
  ultimately show ?thesis using f(2,3,6) ns by (intro exI conjI) (assumption | simp)+
qed

end

section \<open>A random data page\<close>

lemma pick_loop_eq:
  "it \<le> length xs \<Longrightarrow> pick_loop xs it (int k) = (if it + k < length xs then Some (it + k) else None)"
proof (induction k arbitrary: it)
  case (Suc k)
  then show ?case using Suc.IH [of "it + 1"] by (subst pick_loop.simps) auto
qed (simp add: pick_loop.simps)

lemma to_int_small: "n < 2 ^ 31 \<Longrightarrow> to_int n = int n"
  by (simp add: to_int_def)

lemma PageSet_erase_nth:
  assumes "ps_inv s" "ps_data s = sorted_list_of_set (elems s)" "i < card (elems s)"
  shows "ps_inv (PageSet_erase_at s i)" "elems (PageSet_erase_at s i) = elems s - {ps_data s ! i}" "ps_data s ! i \<in> elems s"
proof -
  have ps: "distinct (ps_data s)" "sorted (ps_data s)" "set (ps_data s) = elems s" "i < length (ps_data s)"
    using assms(2,3) by simp_all
  define xs ys where "xs = take i (ps_data s)" and "ys = drop (Suc i) (ps_data s)"
  then have d: "ps_data s = xs @ (ps_data s ! i) # ys" "length xs = i" using id_take_nth_drop [OF ps(4)] ps(4) by simp_all
  have nd: "NO_DATA \<notin> set (ps_data s)" using NO_DATA_notin_elems ps(3) by simp
  define x where "x = ps_data s ! i"
  have d': "ps_data s = xs @ x # ys" using d(1) by (simp add: x_def)
  have up: "(ps_data s)[i := NO_DATA] = xs @ NO_DATA # ys" unfolding d' using d(2) by (simp add: list_update_append)
  have lv: "live xs = xs" "live ys = ys" using nd d' by (auto intro!: live_no_holes)
  show "ps_data s ! i \<in> elems s" using nth_mem [OF ps(4)] by (simp only: ps(3))
  have "set xs \<union> set ys = set (ps_data s) - {x}" using ps(1) unfolding d' by auto
  moreover have "elems (PageSet_erase_at s i) = set xs \<union> set ys"
    using nd unfolding d' by (simp add: elems_def PageSet_erase_at_def up)
  ultimately show "elems (PageSet_erase_at s i) = elems s - {ps_data s ! i}" by (simp only: ps(3) x_def)
  show "ps_inv (PageSet_erase_at s i)"
  proof (rule ps_invI)
    fix y assume "y \<in> set (ps_data (PageSet_erase_at s i))"
    then have "y = NO_DATA \<or> y \<in> set (ps_data s)" by (auto simp: PageSet_erase_at_def dest!: set_update_subset_insert [THEN subsetD])
    then show "y \<le> NO_DATA" using ps_invD(2) [OF assms(1)] by auto
  qed (use ps(1,2) [unfolded d'] lv in \<open>auto simp: PageSet_erase_at_def up sorted_append\<close>)
qed

lemma fram_data_page_ok:
  assumes "ps_inv (free_data_pages (fr_fs x))" "fair R" "card (elems (free_data_pages (fr_fs x))) \<le> 2 ^ 31"
    "draw R (rng (fr_range x)) (card (elems (free_data_pages (fr_fs x))) - 1) = (k, g)"
  shows "\<exists>A x'. fram_allocate_free_data_page R x =
      (if elems (free_data_pages (fr_fs x)) = {} then None else Some (sorted_list_of_set (elems (free_data_pages (fr_fs x))) ! k), x')
    \<and> fr_fs x' = (fr_fs x)\<lparr>free_data_pages := A\<rparr> \<and> inode_numbers (fr_range x') = inode_numbers (fr_range x) \<and> ps_inv A
    \<and> elems A = elems (free_data_pages (fr_fs x))
        - (if elems (free_data_pages (fr_fs x)) = {} then {} else {sorted_list_of_set (elems (free_data_pages (fr_fs x))) ! k})"
proof -
  let ?A = "free_data_pages (fr_fs x)"
  note E = PageSet_empty_facts [OF assms(1)]
  obtain e A1 where e: "PageSet_empty ?A = (e, A1)" by fastforce
  note F = E [unfolded e, simplified]
  show ?thesis
  proof (cases "elems ?A = {}")
    case True
    then show ?thesis using F
      by (intro exI [of _ A1] exI [of _ "x\<lparr>fr_fs := (fr_fs x)\<lparr>free_data_pages := A1\<rparr>\<rparr>"]) (simp add: fram_allocate_free_data_page_def e)
  next
    case False
    have "\<not> unsorted A1" using e by (auto simp: PageSet_empty_def Let_def split: if_splits)
    then have sz: "PageSet_size A1 = (card (elems ?A), A1)" using F(4) by (simp add: PageSet_size_def)
    have "fst (draw R (rng (fr_range x)) (card (elems ?A) - 1)) \<le> card (elems ?A) - 1" using assms(2) unfolding fair_def by blast
    moreover have "0 < card (elems ?A)" using False by (simp add: card_gt_0_iff)
    ultimately have k: "k < card (elems ?A)" using assms(4) by simp
    then have "to_int k = int k" using assms(3) by (intro to_int_small) linarith
    then have pick: "pick_loop (ps_data A1) 0 (to_int k) = Some k" using pick_loop_eq [of 0 "ps_data A1" k] k F(4) by simp
    note P = PageSet_erase_nth [OF F(1) F(4) [folded F(2)] k [folded F(2)], unfolded F(2,4)]
    show ?thesis
      using F(3) False P sz pick assms(4) F(4)
      by (intro exI [of _ "PageSet_erase_at A1 k"] exI [of _ "x\<lparr>fr_fs := (fr_fs x)\<lparr>free_data_pages := PageSet_erase_at A1 k\<rparr>,
            fr_range := (fr_range x)\<lparr>rng := g\<rparr>\<rparr>"]) (simp add: fram_allocate_free_data_page_def e)
  qed
qed

section \<open>Cleaning up\<close>

definition nameless :: "file_handle \<Rightarrow> bool" where
  "nameless f \<longleftrightarrow> file_name (fh_inode f) = []"

lemma stored_unmodified:
  assumes "clean_inodes c cells s" "i < max_inodes (header s)" "stored_inode c cells s i = Some f"
  shows "\<not> modified f"
proof -
  let ?p = "page_at (page_size (header s)) i (cells (mem s))"
  have "checksum_ok c (fs_endianness (header s)) ?p" "get_inode c s ?p False = Inr f"
    using assms(3) by (auto simp: stored_inode_def Let_def split: if_splits sum.splits)
  then show ?thesis using assms(1,2) by (auto simp: clean_inodes_def Let_def)
qed

context fs_on_flash
begin

lemma cleanup_loop_ok:
  assumes "ok (mem s)" "geometry (header s) (length (cells (mem s)))" "\<forall>f \<in> set fs. fh_page f < max_inodes (header s)"
  shows "\<exists>m'. cleanup_loop c s fs = Inr (s\<lparr>mem := m'\<rparr>) \<and> ok m' \<and> length (cells m') = length (cells (mem s))
    \<and> (\<forall>i. Suc i < filesystem_size (header s) \<longrightarrow> page_at (page_size (header s)) i (cells m') =
          (if \<exists>f \<in> set fs. fh_page f = i \<and> nameless f then replicate (page_size (header s)) 0xFF
           else page_at (page_size (header s)) i (cells (mem s))))"
  using assms
proof (induction fs arbitrary: s)
  case Nil
  then show ?case by (intro exI [of _ "mem s"]) simp
next
  case (Cons f fs)
  show ?case
  proof (cases "nameless f")
    case False
    then show ?thesis using Cons.IH [OF Cons.prems(1,2)] Cons.prems(3) by (auto simp: nameless_def)
  next
    case True
    let ?n = "page_size (header s)"
    have p: "Suc (fh_page f) < filesystem_size (header s)" using Cons.prems(3) geometryD(6) [OF Cons.prems(2)] by simp
    from erase_mem_ok [OF Cons.prems(1,2) p] obtain m where
      m: "mem_erase (flash c) (mem s) (page_address s (fh_page f)) ?n = Inr m" "ok m"
        "cells m = put_page ?n (fh_page f) (replicate ?n 0xFF) (cells (mem s))" by blast
    note inp = geometry_page_in [OF Cons.prems(2)]
    have len: "length (cells m) = length (cells (mem s))" using m(3) inp [OF p] by simp
    have pg: "page_at ?n i (cells m) = (if i = fh_page f then replicate ?n 0xFF else page_at ?n i (cells (mem s)))"
      if "Suc i < filesystem_size (header s)" for i
      unfolding m(3) by (rule page_at_put_page [OF inp [OF p] inp [OF that]]) simp
    have "\<exists>m'. cleanup_loop c (s\<lparr>mem := m\<rparr>) fs = Inr (s\<lparr>mem := m'\<rparr>) \<and> ok m' \<and> length (cells m') = length (cells (mem s))
      \<and> (\<forall>i. Suc i < filesystem_size (header s) \<longrightarrow> page_at ?n i (cells m') =
          (if \<exists>f \<in> set fs. fh_page f = i \<and> nameless f then replicate ?n 0xFF else page_at ?n i (cells m)))"
      using Cons.IH [of "s\<lparr>mem := m\<rparr>"] m(2) Cons.prems(2,3) len by (simp cong: if_cong)
    then obtain m' where
      m': "cleanup_loop c (s\<lparr>mem := m\<rparr>) fs = Inr (s\<lparr>mem := m'\<rparr>)" "ok m'" "length (cells m') = length (cells (mem s))"
        "\<forall>i. Suc i < filesystem_size (header s) \<longrightarrow> page_at ?n i (cells m') =
          (if \<exists>f \<in> set fs. fh_page f = i \<and> nameless f then replicate ?n 0xFF else page_at ?n i (cells m))" by blast
    have "cleanup_loop c s (f # fs) = Inr (s\<lparr>mem := m'\<rparr>)" using m(1) m'(1) True by (simp add: nameless_def)
    then show ?thesis using m'(2-4) pg True by (intro exI [of _ m']) auto
  qed
qed

lemma destroy_all_looks:
  assumes "mounted ok cells s" "\<forall>f \<in> set fs. \<not> modified f"
  shows "\<exists>s'. destroy_all c s fs = Inr s' \<and> looked c ok cells writable s s'"
  using assms
proof (induction fs arbitrary: s)
  case Nil
  then show ?case by (auto simp: looked_def mounted_def intro: same_flash_refl)
next
  case (Cons f fs)
  from destroy_looks [OF Cons.prems(1), of f] Cons.prems(2) obtain t where
    t: "FileHandle_destroy c s f = Inr t" "looked c ok cells writable s t" by auto
  from Cons.IH [OF lookedD(1) [OF t(2)]] Cons.prems(2) obtain s' where
    "destroy_all c t fs = Inr s'" "looked c ok cells writable t s'" by auto
  then show ?case using t looked_trans by auto
qed

text \<open>\<open>cleanup\<close> takes exactly the inodes without a name off the flash.\<close>

lemma fram_cleanup_ok:
  assumes "mounted ok cells (fr_fs x)" "clean_inodes c cells (fr_fs x)" "erased_invalid c (header (fr_fs x))"
  shows "\<exists>x'. fram_cleanup c x = Inr x' \<and> header (fr_fs x') = header (fr_fs x) \<and> mounted ok cells (fr_fs x')
    \<and> clean_inodes c cells (fr_fs x') \<and> free_data_pages (fr_fs x') = free_data_pages (fr_fs x)
    \<and> (\<forall>i < max_inodes (header (fr_fs x)). stored_inode c cells (fr_fs x') i =
         (case stored_inode c cells (fr_fs x) i of None \<Rightarrow> None | Some f \<Rightarrow> if nameless f then None else Some f))
    \<and> (\<forall>p. max_inodes (header (fr_fs x)) \<le> p \<and> Suc p < filesystem_size (header (fr_fs x)) \<longrightarrow>
         page_at (page_size (header (fr_fs x))) p (cells (mem (fr_fs x'))) =
         page_at (page_size (header (fr_fs x))) p (cells (mem (fr_fs x))))"
proof -
  let ?s = "fr_fs x"
  let ?h = "header ?s"
  let ?all = "found_inodes c cells ?s [0..<max_inodes ?h]"
  have geo: "geometry ?h (length (cells (mem ?s)))" using assms(1) by (simp add: mounted_def)
  from get_all_inodes_ok [OF assms(1,2), of True] obtain s1 where
    s1: "get_all_inodes c ?s True = Inr (?all, s1)" "looked c ok cells writable ?s s1" by blast
  note L1 = lookedD [OF s1(2)]
  have pages: "\<forall>f \<in> set ?all. fh_page f < max_inodes ?h" by (auto simp: set_found_inodes)
  have unmod: "\<forall>f \<in> set ?all. \<not> modified f" using stored_unmodified [OF assms(2)] by (auto simp: set_found_inodes)
  have ok1: "ok (mem s1)" "geometry (header s1) (length (cells (mem s1)))" using L1(1) by (simp_all add: mounted_def)
  from cleanup_loop_ok [OF ok1, of ?all, unfolded L1(2,3)] pages obtain m' where
    m': "cleanup_loop c s1 ?all = Inr (s1\<lparr>mem := m'\<rparr>)" "ok m'" "length (cells m') = length (cells (mem ?s))"
      "\<forall>i. Suc i < filesystem_size ?h \<longrightarrow> page_at (page_size ?h) i (cells m') =
          (if \<exists>f \<in> set ?all. fh_page f = i \<and> nameless f then replicate (page_size ?h) 0xFF
           else page_at (page_size ?h) i (cells (mem ?s)))" by blast
  have mnt: "mounted ok cells (s1\<lparr>mem := m'\<rparr>)" using L1(1) m'(2,3) L1(2,3) by (simp add: mounted_def)
  from destroy_all_looks [OF mnt unmod] obtain s3 where
    s3: "destroy_all c (s1\<lparr>mem := m'\<rparr>) ?all = Inr s3" "looked c ok cells writable (s1\<lparr>mem := m'\<rparr>) s3" by blast
  note L3 = lookedD [OF s3(2)]
  have h3: "header s3 = ?h" "cells (mem s3) = cells m'" "free_data_pages s3 = free_data_pages ?s" using L3(2,3,5) L1(2,5) by simp_all
  have gi: "get_inode c s3 p b = get_inode c ?s p b" for p b using get_inode_cong [of s3 ?s c] h3(1) by simp
  have lt: "Suc i < filesystem_size ?h" if "i < max_inodes ?h" for i using that geometryD(6) [OF geo] by linarith
  have del: "(\<exists>f \<in> set ?all. fh_page f = i \<and> nameless f) \<longleftrightarrow> (\<exists>f. stored_inode c cells ?s i = Some f \<and> nameless f)"
    if "i < max_inodes ?h" for i
    using that unfolding Bex_def set_found_inodes nameless_def by fastforce
  have pg: "page_at (page_size ?h) i (cells (mem s3)) =
      (if \<exists>f. stored_inode c cells ?s i = Some f \<and> nameless f then replicate (page_size ?h) 0xFF
       else page_at (page_size ?h) i (cells (mem ?s)))" if "i < max_inodes ?h" for i
    using m'(4) lt [OF that] del [OF that] h3(2) by simp
  have st: "stored_inode c cells s3 i =
      (case stored_inode c cells ?s i of None \<Rightarrow> None | Some f \<Rightarrow> if nameless f then None else Some f)" if "i < max_inodes ?h" for i
    using pg [OF that] assms(3) by (auto simp: stored_inode_def h3(1) gi erased_invalid_def Let_def split: option.splits sum.splits)
  have "clean_inodes c cells s3"
    using assms(2,3) pg by (auto simp: clean_inodes_def h3(1) gi erased_invalid_def Let_def)
  moreover have "fram_cleanup c x = Inr (x\<lparr>fr_fs := s3\<rparr>)" using s1(1) m'(1) s3(1) by (simp add: fram_cleanup_def)
  moreover have "page_at (page_size ?h) p (cells (mem s3)) = page_at (page_size ?h) p (cells (mem ?s))"
    if "max_inodes ?h \<le> p" "Suc p < filesystem_size ?h" for p
    using m'(4) that pages h3(2) by auto
  ultimately show ?thesis using h3 st L3(1) by (intro exI [of _ "x\<lparr>fr_fs := s3\<rparr>"]) simp
qed

end

section \<open>The properties\<close>

lemma sim_probe: "mounted sim_ok sf_bytes s \<Longrightarrow> geometry (header s) (length (sf_bytes (mem s)))"
  by (simp add: mounted_def)

text \<open>
  C27. However the inode pages are shuffled, the drive allocates an inode page that nobody has claimed and
  that holds no valid inode, and claims it; it changes nothing else. It finds none exactly if no page
  is free but the one that the shuffle put last, which is never looked at.
\<close>

theorem fram_allocates_inode_page:
  assumes "c = sim_config P crc e keep" "mounted sim_ok sf_bytes (fr_fs x)" "fair R"
    "mset (inode_numbers (fr_range x)) = mset [0..<max_inodes (header (fr_fs x))]"
  shows "\<exists>p x'. fram_allocate_inode_page R c x = Inr (p, x') \<and> looked c sim_ok sf_bytes (\<lambda>_ _. True) (fr_fs x) (fr_fs x')
    \<and> mset (inode_numbers (fr_range x')) = mset [0..<max_inodes (header (fr_fs x))]
    \<and> elems (allocated_unwritten_pages (fr_fs x')) = elems (allocated_unwritten_pages (fr_fs x)) \<union> set_option p
    \<and> (case p of
         Some i \<Rightarrow> i < max_inodes (header (fr_fs x)) \<and> i \<noteq> last (inode_numbers (fr_range x'))
           \<and> unclaimed c (header (fr_fs x)) (sf_bytes (mem (fr_fs x))) (elems (allocated_unwritten_pages (fr_fs x))) i
       | None \<Rightarrow> \<forall>i < max_inodes (header (fr_fs x)).
           unclaimed c (header (fr_fs x)) (sf_bytes (mem (fr_fs x))) (elems (allocated_unwritten_pages (fr_fs x))) i \<longrightarrow>
           i = last (inode_numbers (fr_range x')))"
proof -
  let ?un = "unclaimed c (header (fr_fs x)) (sf_bytes (mem (fr_fs x))) (elems (allocated_unwritten_pages (fr_fs x)))"
  from fs_sim.fram_allocate_inode_page_ok [OF assms(2,4,3), of P crc e keep, folded assms(1)] obtain p x' where
    a: "fram_allocate_inode_page R c x = Inr (p, x')" "mset (inode_numbers (fr_range x')) = mset [0..<max_inodes (header (fr_fs x))]"
      "p = find ?un (butlast (inode_numbers (fr_range x')))" "looked c sim_ok sf_bytes (\<lambda>_ _. True) (fr_fs x) (fr_fs x')"
      "elems (allocated_unwritten_pages (fr_fs x')) = elems (allocated_unwritten_pages (fr_fs x)) \<union> set_option p" by blast
  let ?ns = "inode_numbers (fr_range x')"
  have ns: "set ?ns = {..<max_inodes (header (fr_fs x))}" "distinct ?ns"
    using mset_eq_setD [OF a(2)] mset_eq_imp_distinct_iff [OF a(2)] by (simp_all only: set_upt atLeast0LessThan distinct_upt)
  have ne: "?ns \<noteq> []"
    using ns(1) geometryD(5) [OF sim_probe [OF assms(2)]] by (metis empty_iff lessThan_iff list.set(1) zero_less_numeral order_less_le_trans)
  have sp: "?ns = butlast ?ns @ [last ?ns]" using ne by simp
  have bl: "i \<in> set (butlast ?ns) \<longleftrightarrow> i < max_inodes (header (fr_fs x)) \<and> i \<noteq> last ?ns" for i
  proof -
    have "set ?ns = insert (last ?ns) (set (butlast ?ns))" "last ?ns \<notin> set (butlast ?ns)"
      using arg_cong [OF sp, of set] arg_cong [OF sp, of distinct] ns(2) by auto
    then show ?thesis using ns(1) by (metis insert_iff lessThan_iff)
  qed
  have "case p of Some i \<Rightarrow> i < max_inodes (header (fr_fs x)) \<and> i \<noteq> last ?ns \<and> ?un i
      | None \<Rightarrow> \<forall>i < max_inodes (header (fr_fs x)). ?un i \<longrightarrow> i = last ?ns"
  proof (cases p)
    case None
    then have "find ?un (butlast ?ns) = None" using a(3) by simp
    then show ?thesis using None bl by (auto simp: find_None_iff)
  next
    case (Some i)
    then have "find ?un (butlast ?ns) = Some i" using a(3) by simp
    then have "?un i" "i \<in> set (butlast ?ns)" by (auto simp: find_Some_iff)
    then show ?thesis using Some bl by simp
  qed
  then show ?thesis using a(1,2,4,5) by blast
qed

text \<open>
  The allocator of data pages takes out of the free pages the one with the number that was drawn, and
  fails exactly if there is none: over the sets it is the removal of one member.
\<close>

theorem fram_takes_any_data_page:
  assumes "ps_inv (free_data_pages (fr_fs x))" "fair R" "card (elems (free_data_pages (fr_fs x))) \<le> 2 ^ 31"
  shows "\<exists>p x'. fram_allocate_free_data_page R x = (p, x') \<and> ps_inv (free_data_pages (fr_fs x'))
    \<and> elems (free_data_pages (fr_fs x')) = elems (free_data_pages (fr_fs x)) - set_option p
    \<and> (p = None \<longleftrightarrow> elems (free_data_pages (fr_fs x)) = {}) \<and> set_option p \<subseteq> elems (free_data_pages (fr_fs x))
    \<and> (\<forall>q. p = Some q \<longrightarrow> card {r \<in> elems (free_data_pages (fr_fs x)). r < q} =
          fst (draw R (rng (fr_range x)) (card (elems (free_data_pages (fr_fs x))) - 1)))
    \<and> fr_fs x' = (fr_fs x)\<lparr>free_data_pages := free_data_pages (fr_fs x')\<rparr>"
proof -
  let ?E = "elems (free_data_pages (fr_fs x))"
  obtain k g where d: "draw R (rng (fr_range x)) (card ?E - 1) = (k, g)" by fastforce
  from fram_data_page_ok [OF assms d] obtain A x' where
    a: "fram_allocate_free_data_page R x = (if ?E = {} then None else Some (sorted_list_of_set ?E ! k), x')"
      "fr_fs x' = (fr_fs x)\<lparr>free_data_pages := A\<rparr>" "ps_inv A"
      "elems A = ?E - (if ?E = {} then {} else {sorted_list_of_set ?E ! k})" by blast
  have "k \<le> card ?E - 1" using assms(2) d unfolding fair_def by (metis fst_conv)
  then have k: "?E \<noteq> {} \<Longrightarrow> k < card ?E" using card_gt_0_iff [of ?E] finite_elems by fastforce
  have mem: "sorted_list_of_set ?E ! k \<in> ?E" if "?E \<noteq> {}"
    using nth_mem [of k "sorted_list_of_set ?E"] k [OF that] by simp
  have rank: "card {r \<in> ?E. r < sorted_list_of_set ?E ! k} = k" if "?E \<noteq> {}"
  proof -
    let ?L = "sorted_list_of_set ?E"
    have L: "k < length ?L" "sorted_wrt (<) ?L" using k [OF that] by simp_all
    have "{r \<in> ?E. r < ?L ! k} = (!) ?L ` {..<k}"
    proof (intro set_eqI iffI)
      fix r assume r: "r \<in> {r \<in> ?E. r < ?L ! k}"
      then have "r \<in> set ?L" by simp
      then obtain i where i: "i < length ?L" "r = ?L ! i" by (metis in_set_conv_nth)
      have "i < k" using r i L sorted_wrt_nth_less [OF L(2)] by (metis (no_types, lifting) linorder_neqE_nat mem_Collect_eq order_less_asym' order_less_irrefl)
      then show "r \<in> (!) ?L ` {..<k}" using i(2) by simp
    next
      fix r assume "r \<in> (!) ?L ` {..<k}"
      then obtain i where i: "i < k" "r = ?L ! i" by auto
      then show "r \<in> {r \<in> ?E. r < ?L ! k}" using nth_mem [of i ?L] L sorted_wrt_nth_less [OF L(2) i(1) L(1)] by simp
    qed
    moreover have "inj_on ((!) ?L) {..<k}" using L(1) by (auto intro!: inj_on_nth)
    ultimately show ?thesis by (simp add: card_image)
  qed
  show ?thesis
  proof (cases "?E = {}")
    case True
    then show ?thesis using a by (intro exI [of _ None] exI [of _ x']) simp
  next
    case False
    then show ?thesis using a mem rank d by (intro exI [of _ "Some (sorted_list_of_set ?E ! k)"] exI [of _ x']) simp
  qed
qed

text \<open>A deleted version hides the older ones; without it, the only named version is the one that is found.\<close>

lemma hidden_by_deleted:
  assumes "p < max_inodes (header s)" "stored_inode c cells s p = Some d" "file_name (fh_inode d) = []"
    "stored_inode c cells s k = Some g" "inode_number (fh_inode d) = inode_number (fh_inode g)"
    "inode_version_number (fh_inode g) < inode_version_number (fh_inode d)"
    "\<forall>j < max_inodes (header s). \<forall>h. j \<noteq> k \<and> j \<noteq> p \<and> stored_inode c cells s j = Some h \<longrightarrow> \<not> names_file name h"
  shows "\<not> connected (newest_named c cells s name)"
proof
  assume "connected (newest_named c cells s name)"
  from found_newest(1) [OF refl refl this] obtain i y where
    i: "i < max_inodes (header s)" "stored_inode c cells s i = Some y" "names_file name y"
      "\<forall>j < max_inodes (header s). \<forall>h. stored_inode c cells s j = Some h \<and> inode_number (fh_inode h) = inode_number (fh_inode y) \<longrightarrow>
         inode_version_number (fh_inode h) \<le> inode_version_number (fh_inode y)" by auto
  have "\<not> names_file name d" using assms(3) by (auto simp: names_file_def)
  then have "i = k" using i(1-3) assms(2,7) by (metis option.inject)
  then have "y = g" using i(2) assms(4) by simp
  then show False using i(4) assms(1,2,5,6) by fastforce
qed

lemma only_named_is_found:
  assumes "k < max_inodes (header s)" "stored_inode c cells s k = Some g" "names_file name g"
    "\<And>j h. j < max_inodes (header s) \<Longrightarrow> stored_inode c cells s j = Some h \<Longrightarrow>
       names_file name h \<or> inode_number (fh_inode h) = inode_number (fh_inode g) \<Longrightarrow> h = g \<and> j = k"
  shows "newest_named c cells s name = g\<lparr>fh_page := k\<rparr>"
proof -
  have con: "connected (newest_named c cells s name)"
  proof (rule ccontr)
    assume "\<not> connected (newest_named c cells s name)"
    from found_newest(2) [OF refl refl this _ assms(2,3)] assms(1) obtain j h where
      "j < max_inodes (header s)" "j \<noteq> k" "stored_inode c cells s j = Some h" "inode_number (fh_inode h) = inode_number (fh_inode g)"
      by auto
    then show False using assms(4) by blast
  qed
  from found_newest(1) [OF refl refl this] obtain i y where
    "i < max_inodes (header s)" "stored_inode c cells s i = Some y" "newest_named c cells s name = y\<lparr>fh_page := i\<rparr>"
      "names_file name y" by auto
  then show ?thesis using assms(4) by blast
qed

text \<open>
  C28. What \<open>cleanup\<close> does to a file that was deleted while an older version of it was left on the flash, as
  it is after the file was opened with \<open>trunc\<close>: before, the file is gone; \<open>cleanup\<close> erases the only
  page that says so, and afterwards the old version is found under its name again.
\<close>

theorem cleanup_revives_old_version:
  assumes "c = sim_config P crc e keep" "mounted sim_ok sf_bytes (fr_fs x)" "clean_inodes c sf_bytes (fr_fs x)"
    "erased_invalid c (header (fr_fs x))"
    "p < max_inodes (header (fr_fs x))" "stored_inode c sf_bytes (fr_fs x) p = Some d" "file_name (fh_inode d) = []"
    "k < max_inodes (header (fr_fs x))" "stored_inode c sf_bytes (fr_fs x) k = Some g" "names_file name g"
    "inode_number (fh_inode d) = inode_number (fh_inode g)"
    "inode_version_number (fh_inode g) < inode_version_number (fh_inode d)"
    "\<forall>j < max_inodes (header (fr_fs x)). \<forall>h. j \<noteq> k \<and> j \<noteq> p \<and> stored_inode c sf_bytes (fr_fs x) j = Some h \<longrightarrow>
       \<not> names_file name h \<and> inode_number (fh_inode h) \<noteq> inode_number (fh_inode g)"
  shows "\<exists>f s x' s'. find_file c (fr_fs x) name = Inr (f, s) \<and> \<not> connected f
    \<and> fram_cleanup c x = Inr x' \<and> find_file c (fr_fs x') name = Inr (g\<lparr>fh_page := k\<rparr>, s')"
proof -
  let ?h = "header (fr_fs x)"
  have nk: "\<not> nameless g" "nameless d" using assms(7,10) by (auto simp: nameless_def names_file_def)
  from fs_sim.find_file_looks [OF assms(2) assms(3) [unfolded assms(1)], of name, folded assms(1)] obtain s where
    s: "find_file c (fr_fs x) name = Inr (newest_named c sf_bytes (fr_fs x) name, s)" by blast
  have gone: "\<not> connected (newest_named c sf_bytes (fr_fs x) name)"
    by (rule hidden_by_deleted [OF assms(5-7,9,11,12)]) (use assms(13) in blast)
  from fs_sim.fram_cleanup_ok [OF assms(2) assms(3) [unfolded assms(1)] assms(4) [unfolded assms(1)], folded assms(1)] obtain x' where
    x': "fram_cleanup c x = Inr x'" "header (fr_fs x') = ?h" "mounted sim_ok sf_bytes (fr_fs x')" "clean_inodes c sf_bytes (fr_fs x')"
      "\<forall>i < max_inodes ?h. stored_inode c sf_bytes (fr_fs x') i =
         (case stored_inode c sf_bytes (fr_fs x) i of None \<Rightarrow> None | Some f \<Rightarrow> if nameless f then None else Some f)" by blast
  have st: "stored_inode c sf_bytes (fr_fs x') k = Some g" using x'(5) assms(8,9) nk(1) by simp
  have only: "h = g \<and> j = k" if "j < max_inodes (header (fr_fs x'))" "stored_inode c sf_bytes (fr_fs x') j = Some h"
      "names_file name h \<or> inode_number (fh_inode h) = inode_number (fh_inode g)" for j h
  proof (cases "j = k")
    case False
    have "stored_inode c sf_bytes (fr_fs x) j = Some h \<and> \<not> nameless h"
      using that(2) x'(5) [rule_format, OF that(1) [unfolded x'(2)]] by (simp split: option.splits if_splits)
    moreover from this have "j \<noteq> p" using assms(6) nk(2) by auto
    ultimately show ?thesis using assms(13) that(1,3) False x'(2) by metis
  qed (use that(2) st in simp)
  have "newest_named c sf_bytes (fr_fs x') name = g\<lparr>fh_page := k\<rparr>"
    by (rule only_named_is_found [OF _ st assms(10) only]) (use assms(8) x'(2) in simp_all)
  with fs_sim.find_file_looks [OF x'(3) x'(4) [unfolded assms(1)], of name, folded assms(1)] obtain s' where
    "find_file c (fr_fs x') name = Inr (g\<lparr>fh_page := k\<rparr>, s')" by auto
  then show ?thesis using s gone x'(1) by blast
qed

section \<open>Witnesses\<close>

definition plain_source :: "nat random_source" where
  "plain_source = \<lparr>shuffle = (\<lambda>g xs. (rev xs, g + 1)), draw = (\<lambda>g n. (min g n, g + 1))\<rparr>"

definition sample_fram :: "'m fs \<Rightarrow> ('m, nat) fram" where
  "sample_fram s = \<lparr>fr_fs = s, fr_range = hr_reinit (header s) (InodeHeaderRange 1), fr_initialized = True, fr_drive_name = [97]\<rparr>"

lemma plain_fair: "fair plain_source"
  by (simp add: fair_def plain_source_def)

theorem fram_allocates_inode_page_witness:
  "\<exists>p x'. fram_allocate_inode_page plain_source (sim_config 0 (\<lambda>_. 7) LE False)
    (sample_fram (one_file_archive (sim_config 0 (\<lambda>_. 7) LE False))) = Inr (p, x')"
proof -
  let ?c = "sim_config 0 (\<lambda>_. 7) LE False"
  let ?x = "sample_fram (one_file_archive ?c)"
  have "archive_ok ?c (one_file_archive ?c)" by (rule one_file_replaceable) simp
  then have m: "mounted sim_ok sf_bytes (fr_fs ?x)" by (simp add: archive_ok_def sample_fram_def)
  have "mset (inode_numbers (fr_range ?x)) = mset [0..<max_inodes (header (fr_fs ?x))]"
    by (simp add: sample_fram_def hr_reinit_def)
  from fram_allocates_inode_page [OF refl m plain_fair this] show ?thesis by blast
qed

theorem fram_takes_any_data_page_witness:
  "\<exists>x'. fram_allocate_free_data_page plain_source (sample_fram (small_fs (SimFlash_open (erased 512)))) = (Some 5, x')
    \<and> elems (free_data_pages (fr_fs x')) = {4, 6}"
proof -
  let ?x = "sample_fram (small_fs (SimFlash_open (erased 512)))"
  have f: "ps_inv (free_data_pages (fr_fs ?x))" "elems (free_data_pages (fr_fs ?x)) = {4, 5, 6}" by (simp_all add: sample_fram_def)
  then have "card (elems (free_data_pages (fr_fs ?x))) \<le> 2 ^ 31" by simp
  from fram_takes_any_data_page [OF f(1) plain_fair this] obtain p x' where
    p: "fram_allocate_free_data_page plain_source ?x = (p, x')"
      "elems (free_data_pages (fr_fs x')) = {4, 5, 6} - set_option p" "(p = None) = ({4 :: nat, 5, 6} = {})" "set_option p \<subseteq> {4, 5, 6}"
      "\<forall>q. p = Some q \<longrightarrow> card {r \<in> {4, 5, 6}. r < q} =
          fst (draw plain_source (rng (fr_range ?x)) (card {4 :: nat, 5, 6} - 1))"
    unfolding f(2) by (elim exE conjE) (rule that; assumption)
  have d: "fst (draw plain_source (rng (fr_range ?x)) (card {4 :: nat, 5, 6} - 1)) = 1"
    by (simp add: plain_source_def sample_fram_def InodeHeaderRange_def hr_reinit_def)
  have "p \<noteq> None" using p(3) by simp
  then obtain q where q: "p = Some q" by blast
  have "{r \<in> {4, 5, 6}. r < (4 :: nat)} = {}" "{r \<in> {4, 5, 6}. r < (6 :: nat)} = {4, 5}" by auto
  then have "card {r \<in> {4, 5, 6}. r < (4 :: nat)} = 0" "card {r \<in> {4, 5, 6}. r < (6 :: nat)} = 2" by simp_all
  moreover have "card {r \<in> {4, 5, 6}. r < q} = 1" using p(5) q unfolding d by blast
  ultimately have "q \<noteq> 4 \<and> q \<noteq> 6" by (metis zero_neq_one one_eq_numeral_iff num.distinct(1))
  then have "q = 5" using p(4) q by simp
  moreover from this have "{4, 5, 6} - {q} = {4, 6}" by auto
  ultimately show ?thesis using p(1,2) q by simp
qed

theorem cleanup_revives_old_version_witness:
  "\<exists>s1 f s x' g s'. del_file (sim_config 0 (\<lambda>_. 7) LE False) (one_file_archive (sim_config 0 (\<lambda>_. 7) LE False)) [97] = Inr s1
    \<and> find_file (sim_config 0 (\<lambda>_. 7) LE False) s1 [97] = Inr (f, s) \<and> \<not> connected f
    \<and> fram_cleanup (sim_config 0 (\<lambda>_. 7) LE False) (sample_fram s1) = Inr x'
    \<and> find_file (sim_config 0 (\<lambda>_. 7) LE False) (fr_fs x') [97] = Inr (g, s') \<and> connected g"
proof -
  let ?c = "sim_config 0 (\<lambda>_. 7) LE False"
  let ?s = "one_file_archive ?c"
  let ?g = "new_handle\<lparr>fh_inode := reread 64 (fh_inode sample_file)\<rparr>"
  have c: "crc32 ?c = (\<lambda>_. 7)" by simp
  have h: "header ?s = small_header" "sf_bytes (mem ?s) = one_file_bytes ?c" by (simp_all add: one_file_archive_def SimFlash_open_def)
  note st = one_file_stored [of ?c sf_bytes ?s, OF c h(2,1)]
  have g: "file_name (fh_inode ?g) = [97]" "inode_number (fh_inode ?g) = 3" "inode_version_number (fh_inode ?g) = 1" "connected ?g"
    by (simp_all add: reread_def sample_file_def new_handle_def empty_handle_def default_inode_def)
  note o = one_file_replaceable [OF c]
  let ?f = "newest_named ?c sf_bytes ?s [97]"
  from newest_named_inode(1) [OF refl o(2)] obtain i k where
    i: "i < 4" "stored_inode ?c sf_bytes ?s i = Some k" "fh_inode ?f = fh_inode k" by (auto simp: h)
  then have "i = 0" using st(2) by simp
  then have f: "inode_number (fh_inode ?f) = 3" "inode_version_number (fh_inode ?f) = 1" using i(2,3) st(3) g by simp_all
  have ps: "42 \<le> page_size (header ?s)" by (simp add: h)
  from deletes_file [OF refl o(1) refl o(2,3) ps] obtain s1 p v where
    s1: "del_file ?c ?s [97] = Inr s1" "archive_ok ?c s1" "header s1 = small_header" "p < 4" "stored_inode ?c sf_bytes ?s p = None"
      "stored_inode ?c sf_bytes s1 p = Some v" "file_name (fh_inode v) = []" "inode_number (fh_inode v) = 3"
      "inode_version_number (fh_inode v) = 2" "\<forall>j < 4. j \<noteq> p \<longrightarrow> stored_inode ?c sf_bytes s1 j = stored_inode ?c sf_bytes ?s j"
    unfolding f h(1) small_header_simps by (metis Suc_1)
  have x: "fr_fs (sample_fram s1) = s1" by (simp add: sample_fram_def)
  have p: "p \<noteq> 0" using s1(5) st(3) by (metis option.distinct(1))
  have m: "mounted sim_ok sf_bytes (fr_fs (sample_fram s1))" "clean_inodes ?c sf_bytes (fr_fs (sample_fram s1))"
    using s1(2) by (simp_all add: x archive_ok_def)
  have er: "erased_invalid ?c (header (fr_fs (sample_fram s1)))"
    using erased_not_ok [of 0 512 ?c] c by (simp add: x s1(3) erased_invalid_def page_in_def page_at_def slice_def erased_def)
  have 0: "stored_inode ?c sf_bytes s1 0 = Some ?g" using s1(10) p st(3) by simp
  have no: "stored_inode ?c sf_bytes s1 j = None" if "j < 4" "j \<noteq> 0" "j \<noteq> p" for j
    using that s1(10) st(2) [of j] by metis
  have only: "\<not> names_file [97] y \<and> inode_number (fh_inode y) \<noteq> inode_number (fh_inode ?g)"
    if "j < 4" "j \<noteq> 0 \<and> j \<noteq> p \<and> stored_inode ?c sf_bytes s1 j = Some y" for j y
    using no [of j] that by simp
  have n: "names_file [97] ?g" "inode_number (fh_inode v) = inode_number (fh_inode ?g)"
    "inode_version_number (fh_inode ?g) < inode_version_number (fh_inode v)"
    using g s1(8,9) by (simp_all only: names_file_def) simp_all
  note revived = cleanup_revives_old_version [OF refl m er, of p v 0 ?g "[97]", unfolded x s1(3) small_header_simps, OF s1(4,6,7) _ 0 n]
  have "\<exists>f s x' s'. find_file ?c s1 [97] = Inr (f, s) \<and> \<not> connected f
    \<and> fram_cleanup ?c (sample_fram s1) = Inr x' \<and> find_file ?c (fr_fs x') [97] = Inr (?g\<lparr>fh_page := 0\<rparr>, s')"
    by (rule revived) (simp, use only in blast)
  moreover have "connected (?g\<lparr>fh_page := 0\<rparr>)" using g(4) by simp
  ultimately show ?thesis using s1(1) by blast
qed

end
