(* ===== verification/Spec2Isabelle.thy ===== *)
theory Spec2Isabelle
  imports Prelude Crc PageSet Endian FlashMemory FsTypes Header Mount InodeCodec Alloc Flush Journal Commit
    FileIO Contents Writes FileSpec FileAccess Files Dynamic FileInterface FileBuffer BufferSpec HandleFile NoDel MountSpec MountProps
    LookupSpec TwoFlashPages TwoSpec VfsFile InlineFile VfsServer VfsProps Ini IniSpec IniWrites IniInsert IniBlob IniKeys
    IniUpdate IniProps
    Commands CommandSpec CommandProps Reopen OpenSpec
    H7TwoFace H7Props Wrapper WrapperProps InodeTypes CreateSpec ReplaceSpec Archive ArchiveSpec ArchiveProps Fram FramProps
begin

text \<open>
  SimpleFlashFs: a copy-on-write file system for small flash memories, in C++. This is the root
  of a development about it. Paths below are relative to \<open>src/\<close> of the repository.


  THE PROGRAM

  A flash is reached through the abstract class \<open>FlashMemoryInterface\<close>
  (\<open>src/SimpleFlashFsFlashMemoryInterface.h\<close>): write, read and erase at an address. The
  repository implements it on a file (\<open>src/sim_pc/SimFlashMemoryPc\<close>) and as an imitation of an
  internal flash that accepts a word only on erased bytes (\<open>src/sim_pc/SimSTM32InternalFlashPc\<close>).

  The file system proper is the class template \<open>SimpleFlashFsBase\<close> in
  \<open>src/base/SimpleFlashFsBase.h\<close>. Page 0 holds a header with the geometry; every page ends with a
  CRC (\<open>src/crc\<close>). Each of the next \<open>max_inodes\<close> pages can hold one version of an inode: number,
  version, name, length and either the bytes of a short file or the numbers of its data pages. A
  change of a file writes a new version of the inode into a free inode page and new data pages,
  and only then erases the old version and the pages only it used: \<open>flush\<close>. A mount goes
  through the inode pages, keeps the newest version of every number and takes the pages nobody
  refers to as free (\<open>src/base/SimpleFlashFsPageSet.h\<close>).

  Classes on top of the base: the static and the dynamic file system (\<open>src/static\<close>,
  \<open>src/dynamic\<close>), a variant that never erases (\<open>src_2face/SimpleFlashFsNoDel.h\<close>), two of those
  of which one is active and the other takes its place when it is full
  (\<open>src_2face/SimpleFlashFs2FlashPages.h\<close>), and a buffer in front of an open file
  (\<open>src_2face/SimpleFlashFsFileBuffer\<close>), which sees it through \<open>FileInterface\<close>. Ini files are read
  and changed through that buffer (\<open>src_2face/SimpleIni\<close>). The virtual file system (\<open>src_vfs\<close>) puts
  several file systems behind names of drives and lets files be opened more than once; one kind of
  drive spreads its pages at random (\<open>src_vfs/FramFsImplDetail\<close>), and a shell runs commands on
  them. Three more programs use the file systems: functions for a microcontroller over the two
  flash pages (\<open>src_2face/H7TwoFace\<close>), C style files over the dynamic one
  (\<open>src/dynamic/SimpleFlashFsDynamicWrapper\<close>), and an archive tool (\<open>src_simple_flash_fs_tar\<close>).


  HOW IT IS MODELLED

  A file system is a record \<open>fs\<close> of the members of the base class together with the flash under
  it; an operation takes it and returns \<open>Inl e\<close> or \<open>Inr (result, fs)\<close>. The values of \<open>error\<close> are
  the exceptions of the source (\<open>Out_of_range\<close>, \<open>Length_error\<close>, \<open>Bad_access\<close>, the exceptions of a
  flash and of a handle without file system), \<open>Undefined\<close> where C++ leaves the effect open (an access
  outside a vector), and \<open>No_return\<close> for a loop that does not end. Handles are records too; the
  destructor of a handle, which flushes, is called where the source ends its life.
  Scalar variables of the source are \<open>nat\<close> with the wrap-around of their width written out
  (\<open>add32\<close>, \<open>sub64\<close>, ...); the CRC works on words. Template parameters (the vector types) do not
  appear: a static vector without its capacity behaves like the dynamic one. A \<open>config\<close> holds what
  depends on the template arguments and the machine: the page size, the CRC, the byte order, the
  functions of the flash and whether old pages are kept. Operations that exist for a mapped and
  for an unmapped flash are two definitions.

  Which theory models what, and what it shows:

  \<^item> \<^theory_text>\<open>Prelude\<close>: bytes, errors, unsigned arithmetic, block copies.
  \<^item> \<^theory_text>\<open>Crc\<close> (\<open>src/crc/crc.c\<close>): \<open>crcSlow\<close>, \<open>crcInit\<close>, \<open>crcFast\<close>. The table computes the same
    checksum (C33); every burst of at most four bytes is detected (C34).
  \<^item> \<^theory_text>\<open>PageSet\<close> (\<open>src/base/SimpleFlashFsPageSet.h\<close>): the vector with holes that is sorted late. It
    refines a finite set (C32) and lists it in order (\<open>PageSet_listing\<close>), through the locale of the set interface.
  \<^item> \<^theory_text>\<open>Endian\<close>: \<open>auto_endianess\<close> and the scalars in a page (\<open>scalar_portable\<close>).
  \<^item> \<^theory_text>\<open>FlashMemory\<close>: the interface as a record of functions, its contract as a locale, both
    simulated flashes as interpretations of it (\<open>STM32_write_once\<close>, \<open>SimFlash_read_after_write\<close>) and where the stream of the file-backed
    one departs from it (\<open>SimFlash_failed_read_blocks_writes\<close>).
  \<^item> \<^theory_text>\<open>FsTypes\<close>, \<^theory_text>\<open>Header\<close>, \<^theory_text>\<open>Mount\<close>: the data of the base class; \<open>create_default_header\<close>,
    \<open>write_header\<close>, \<open>swap_endianess\<close>, \<open>read_page\<close>, page checksums, \<open>init\<close>. The default header is well
    formed (\<open>default_header_wf\<close>), mounting returns what was written on machines of either byte order (C13), and
    accepts nothing else (C31).
  \<^item> \<^theory_text>\<open>InodeCodec\<close>: \<open>inode2page\<close>, \<open>get_inode\<close> (C30, C12).
  \<^item> \<^theory_text>\<open>Alloc\<close>: \<open>InodeVersionStore\<close> (\<open>version_store_keeps_newest\<close>), \<open>allocate_free_inode_page\<close> in both variants (C26),
    \<open>allocate_free_data_page\<close>.
  \<^item> \<^theory_text>\<open>Flush\<close>: \<open>write_page\<close>, \<open>erase_inode_and_unused_pages\<close>, \<open>flush\<close>, the destructor of a handle.
    \<^theory_text>\<open>Journal\<close> is an observer that records the operations on a flash; with it \<^theory_text>\<open>Commit\<close> shows that
    a flush makes the next version durable (C3) and that a power failure at any point of it
    leaves the old or the new version complete (C1).
  \<^item> \<^theory_text>\<open>FileIO\<close>: \<open>read\<close>, \<open>write\<close>, \<open>seek\<close>, \<open>truncate\<close>, \<open>file_size\<close>, \<open>eof\<close> of \<open>FileHandle\<close> and what they
    call. \<^theory_text>\<open>Contents\<close> states the contents of a file as a byte list, \<^theory_text>\<open>Writes\<close> follows a write page by
    page, \<^theory_text>\<open>FileSpec\<close> puts both together, and \<^theory_text>\<open>FileAccess\<close> states the properties: reads return the
    contents (C4), writes overlay them and program free pages only (C2), and what was written
    is read back (\<open>write_seek_read\<close>).
  \<^item> \<^theory_text>\<open>Files\<close>: \<open>find_file\<close>, \<open>open\<close>, \<open>delete_file\<close>, \<open>rename_file\<close>. \<^theory_text>\<open>LookupSpec\<close>: a lookup finds the newest
    version of the name (C10), and both variants agree (\<open>find_file_variants_agree\<close>).
  \<^item> \<^theory_text>\<open>Dynamic\<close>: \<open>create\<close>, \<open>list_files\<close>, the mount of the dynamic class and of its read-only variant.
  \<^item> \<^theory_text>\<open>NoDel\<close>: the file system that never erases. \<^theory_text>\<open>MountSpec\<close> and \<^theory_text>\<open>MountProps\<close>: its mount finds
    exactly the data pages no inode refers to (C14).
  \<^item> \<^theory_text>\<open>FileInterface\<close>: the virtual functions of an open file and, as the locale
    \<open>open_file_contract\<close>, what the buffer relies on. \<^theory_text>\<open>FileBuffer\<close> is the buffer; \<^theory_text>\<open>BufferSpec\<close> proves
    its operations right in the locale; \<^theory_text>\<open>HandleFile\<close> interprets the locale on \<open>FileHandle\<close> and
    states the results for the composed program: reading (C17), writing (C16), \<open>get_line\<close> (C18),
    and three places where the buffer goes wrong (C40, \<open>overwrite_drops_unwritten_bytes\<close>, \<open>seek_behind_buffer_ignored\<close>).
  \<^item> \<^theory_text>\<open>TwoFlashPages\<close>: the two components, the choice of the active one, \<open>cleanup\<close> with its copying.
    \<^theory_text>\<open>TwoSpec\<close> is the protocol of the special files as a step relation: a mount after an
    interruption chooses the active side (C11), with one exception (\<open>interrupted_seal_picks_old_side\<close>).
  \<^item> \<^theory_text>\<open>VfsFile\<close>, \<^theory_text>\<open>InlineFile\<close>, \<^theory_text>\<open>VfsServer\<close>, \<^theory_text>\<open>VfsProps\<close> (\<open>src_vfs\<close>): the handle each opener of
    a shared file gets, which is again a file with the contract of \<^theory_text>\<open>FileInterface\<close>; files that
    stay in their inode, for which a sequence of any operations can be followed; drives, paths and
    the table of open files. Every interleaving of openers sees one list of bytes (C15), the entries
    of the table live as long as their openers (C35), and what the key of an entry says (\<open>vfs_paths\<close>).
  \<^item> \<^theory_text>\<open>Ini\<close> (\<open>src_2face/SimpleIni\<close>): reading, searching, inserting and replacing lines of an ini
    file behind a \<open>FileBuffer\<close>. The functions of the library (stripping, formats, strings of fixed
    capacity) are fields of \<open>ini_config\<close>, and what is documented of them is \<open>ini_library\<close>.
    \<^theory_text>\<open>IniSpec\<close> says what a lookup is on the lines of the file, and that \<open>read\<close> is that (C20);
    \<^theory_text>\<open>IniWrites\<close> follows what is appended for a new section, and that it is found again (C21), as
    are blobs (\<^theory_text>\<open>IniBlob\<close>, \<open>ini_blob_round_trip\<close>); \<^theory_text>\<open>IniInsert\<close> is the loop with the two buffers, round by round, when
    the rest of the file fits one (\<open>ini_insert_moves_tail\<close>) and when it does not (\<open>ini_insert_copies_twice\<close>); \<^theory_text>\<open>IniKeys\<close> and \<^theory_text>\<open>IniUpdate\<close>
    find the place of a key on the bytes of the file and show that \<open>write\<close> changes exactly that
    (C19). \<^theory_text>\<open>IniProps\<close> states all this for files of the simulated internal flash. The lemmas are
    proved in the locales \<open>open_file_contract\<close> and \<open>bounded_file\<close>, so they hold for any file. Loops
    over lines get the size of the file as fuel, which is enough as every round reads a byte.
  \<^item> \<^theory_text>\<open>Commands\<close> (\<open>src_vfs/CommandParser\<close>, \<open>FilesystemCommands\<close>, \<open>ExampleCommands.h\<close>,
    \<open>TestCommands\<close>, \<open>main.cc\<close>): the commands of the shell over the server, from the line to the result.
    \<^theory_text>\<open>CommandSpec\<close> follows their loops over an open file, once for any file with the contract (the
    locales \<open>drive_file\<close> and \<open>copying\<close>); \<^theory_text>\<open>CommandProps\<close> says what \<open>cat\<close> (C24), \<open>hexdump\<close>
    (C39) and \<open>cp\<close> (C23) do with the contents of files,
    what \<open>mv\<close> does with their names (\<open>mv_names_file_by_path\<close>), and how a line is taken apart
    (\<open>command_line_words\<close>).
  \<^item> \<^theory_text>\<open>Reopen\<close>: a flush and the lookup after it, composed (C6).
  \<^item> \<^theory_text>\<open>OpenSpec\<close>: what \<open>open\<close> returns for every mode (C9), and that deleting and renaming do what their
    names say to the lookup that follows (C8, C7). \<open>looked\<close> is the relation of two states of
    which the second has the same flash and the same free pages: opening, looking up and destroying
    a handle that was not modified all lie in it, so their proofs compose.
  \<^item> \<^theory_text>\<open>InodeTypes\<close>: whatever is in a page, the inode read from it is well typed (C29).
  \<^item> \<^theory_text>\<open>H7TwoFace\<close> (\<open>src_2face/H7TwoFace\<close>): the functions of the microcontroller over the two flash
    pages, with the callback that locks; a function returns, or throws with the calls of the callback
    made so far. \<^theory_text>\<open>H7Props\<close>: the lock is given back (C22), unless the mount throws (C38).
  \<^item> \<^theory_text>\<open>Wrapper\<close> (\<open>src/dynamic/SimpleFlashFsDynamicWrapper\<close>, \<open>SimpleFlashFsDynamicInstanceHandler\<close>):
    files in the manner of C. \<^theory_text>\<open>WrapperProps\<close>: \<open>fgets\<close> takes a file apart into its lines and comes to
    an end (C25); \<open>fopen\<close> with \<open>w\<close> alone does not empty a file (C37).
  \<^item> \<^theory_text>\<open>Archive\<close> (\<open>src_simple_flash_fs_tar/main.cc\<close>): the actions of the archive tool over the files of a
    host. \<^theory_text>\<open>CreateSpec\<close> follows a file from its creation over a write to the first flush, \<^theory_text>\<open>ReplaceSpec\<close>
    from opening with \<open>trunc\<close> to the next version; \<^theory_text>\<open>ArchiveSpec\<close> composes both with what the tool
    does and keeps an invariant of the archive between two actions (\<open>archive_ok\<close>); \<^theory_text>\<open>ArchiveProps\<close>: what
    was added is extracted (C5), and extracting everything fails once a file was deleted (C36).
  \<^item> \<^theory_text>\<open>Fram\<close> (\<open>src_vfs/FramFsImplDetail\<close>, the drives of \<open>src_vfs/main.cc\<close>): the drive that picks pages at random;
    the generator, \<open>std::shuffle\<close> and the distribution are a record of functions, and \<open>fair\<close> is what
    is documented of them. \<^theory_text>\<open>FramProps\<close>: no shuffle breaks the allocation of inode pages (C27), the
    allocator of data pages removes one member of the free pages (\<open>fram_takes_any_data_page\<close>), and
    \<open>cleanup\<close> can bring a deleted file back (C28).


  BOUNDS AND FUEL

  \<^item> File sizes and positions are hypotheses below 2 ^ 32 (pages of a file), 2 ^ 62 or 2 ^ 63 (bytes),
    where the 64-bit arithmetic of the source would wrap; C40 shows a wrap-around that does happen.
  \<^item> \<open>get_line\<close> runs on fuel \<open>Suc (Suc file_size)\<close>: every turn but the last moves at least one byte
    forward, and C18 shows that it returns. \<open>copy_loop\<close> runs on fuel \<open>Suc file_len\<close>: a turn that reads
    nothing is one the source repeats for ever, and its value is \<open>No_return\<close>.
  \<^item> The shares that decide on a clean-up are floating point in the source; the rounding of a
    rational number to \<open>float\<close> is a parameter \<open>rnd\<close> of the definitions.
  \<^item> The order of the elements of a \<open>std::map\<close> is the order of its keys; unordered containers of the
    source are only used where the order does not matter.


  WHAT THE MODEL SHOWED

  Proved: C40, C38, C37, C36, C28,
  and the lemmas \<open>SimFlash_failed_read_blocks_writes\<close>, \<open>overwrite_drops_unwritten_bytes\<close>,
  \<open>seek_behind_buffer_ignored\<close>, \<open>interrupted_seal_picks_old_side\<close>, \<open>ini_insert_copies_twice\<close>,
  \<open>mv_names_file_by_path\<close>. Besides: the default header of a file system of ten pages leaves no data
  page (\<open>default_header_wf\<close>); \<open>eof\<close> is true at the last byte; a seek beyond the end puts the position one past the
  new end; a write that moves inline data to pages loses the inline bytes behind it when it ends
  before them; the first data page is not given back by a flush; a page that is overwritten as a
  whole and the pages of a deleted file are not erased until the next mount. The contracts of
  \<open>read\<close> and \<open>write\<close> exclude these cases by their hypotheses (\<open>can_write\<close>, \<open>handle_write_ok\<close>). A key that is written to an
  ini section without keys at the end of the file is put before the line feed of the section's line,
  which is then no longer found (\<open>key_update\<close> leaves this case out).


  NOT MODELLED

  \<^item> Locks (\<open>src/base/SimpleFlashFsLock.h\<close>, whose mutex does nothing): operations run one after the other.
  \<^item> Of the FRAM drive: \<open>flush\<close> and \<open>write\<close> of the base class with its range and its allocator of data
    pages. They are modelled with the default ones; \<open>open\<close> of the drive is modelled with its own.
  \<^item> The parser of command line options, tables and formats of the Tools library, which is not part of
    the repository: their results are parameters of \<^theory_text>\<open>Archive\<close> and \<^theory_text>\<open>Commands\<close>. Nor \<open>src/crc/main.c\<close>.
  \<^item> What is left in memory and on a flash after an exception has left an operation: an operation
    that throws has a value and no state (\<^theory_text>\<open>H7TwoFace\<close> follows its lock through exceptions). The two
    pointers that are thrown with \<open>throw new\<close> count as the exceptions they point to.
  \<^item> Not proved of the ini files: the branch of \<open>write\<close> for a line that gets shorter (it is modelled,
    \<open>shrink_key\<close>), numbers (their formats belong to the library), and files whose last line is not
    complete when a section is there already.
  \<^item> Output for debugging, and statistics that are only printed.


  FURTHER WORK

  What could follow: mounting the dynamic class (free pages, rejected pages), copying a file between
  the two components, the ini branch that shrinks a line, and the base class over any range of
  inode pages, which would take in the FRAM drive as a whole.
\<close>

end
